(* ===== verification/Qdb_Prelude.thy ===== *)
theory Qdb_Prelude
  imports Main "HOL-Library.Word"
begin

text \<open>
  What the components of the QuasarDB model share: the exceptions of the code as a datatype, the
  result type of a call that may throw, the sequencing of such calls, the array copy that models
  \<open>std::move\<close> and \<open>std::move_backward\<close> on C arrays, and the generic list and result lemmas that
  the component proofs use.
\<close>

section \<open>Exceptions and results\<close>

text \<open>
  Every \<open>throw\<close> of the sources carries a message; the constructor is its C++ type.
  \<open>Assert_Failed\<close> is a failed \<open>assert\<close>, which aborts the process: no build file defines
  \<open>NDEBUG\<close> and the preset builds Debug, so assertions are part of the behaviour.
  \<open>Json_Error\<close> is an exception of the JSON library, with the name of its kind instead of the text.
  \<open>Undefined_Behaviour\<close> is not an exception of the code: it marks a state in which the code
  reads outside its buffer, so that no property can rest on what it would find there.
\<close>

datatype exn =
    Runtime_Error string
  | Out_Of_Range string
  | Invalid_Argument string
  | Parse_Error string
  | Json_Error string
  | Assert_Failed string
  | Undefined_Behaviour string

type_synonym 'a result = "exn + 'a"

fun rbind :: "'a result \<Rightarrow> ('a \<Rightarrow> 'b result) \<Rightarrow> 'b result" where
  "rbind (Inl e) f = Inl e"
| "rbind (Inr x) f = f x"

fun rmap :: "('a \<Rightarrow> 'b) \<Rightarrow> 'a result \<Rightarrow> 'b result" where
  "rmap f (Inl e) = Inl e"
| "rmap f (Inr x) = Inr (f x)"

definition rassert :: "bool \<Rightarrow> string \<Rightarrow> 'a result \<Rightarrow> 'a result" where
  "rassert b what r = (if b then r else Inl (Assert_Failed what))"

fun is_ok :: "'a result \<Rightarrow> bool" where
  "is_ok (Inr _) = True"
| "is_ok (Inl _) = False"

text \<open>The facts about results that every component uses: rewriting a result to its value.\<close>

named_theorems result_iff

lemma rbind_Inr_iff [result_iff]: "rbind m f = Inr y \<longleftrightarrow> (\<exists>x. m = Inr x \<and> f x = Inr y)"
  by (cases m) auto

lemma rbind_Inl_iff [result_iff]:
  "rbind m f = Inl e \<longleftrightarrow> m = Inl e \<or> (\<exists>x. m = Inr x \<and> f x = Inl e)"
  by (cases m) auto

lemma rmap_Inr_iff [result_iff]: "rmap f m = Inr y \<longleftrightarrow> (\<exists>x. m = Inr x \<and> f x = y)"
  by (cases m) auto

lemma rassert_Inr_iff [result_iff]: "rassert b w r = Inr y \<longleftrightarrow> b \<and> r = Inr y"
  by (simp add: rassert_def)

lemma rassert_True [simp]: "rassert True w r = r"
  by (simp add: rassert_def)

lemma is_ok_iff [result_iff]: "is_ok r \<longleftrightarrow> (\<exists>x. r = Inr x)"
  by (cases r) auto

lemma rbind_assoc: "rbind (rbind m f) g = rbind m (\<lambda>x. rbind (f x) g)"
  by (cases m) simp_all

lemma rbind_cong [fundef_cong]:
  "m = m' \<Longrightarrow> (\<And>x. m' = Inr x \<Longrightarrow> f x = g x) \<Longrightarrow> rbind m f = rbind m' g"
  by (cases m') auto

text \<open>A loop that stops at the first exception.\<close>

fun rfold :: "('s \<Rightarrow> 'a \<Rightarrow> 's result) \<Rightarrow> 's \<Rightarrow> 'a list \<Rightarrow> 's result" where
  "rfold f s [] = Inr s"
| "rfold f s (x # xs) = rbind (f s x) (\<lambda>s'. rfold f s' xs)"

lemma rfold_append: "rfold f s (xs @ ys) = rbind (rfold f s xs) (\<lambda>s'. rfold f s' ys)"
proof (induction xs arbitrary: s)
  case Nil
  then show ?case by simp
next
  case (Cons x xs)
  then show ?case by (cases "f s x") simp_all
qed

lemma rfold_invariant:
  assumes "\<And>s x s'. x \<in> set xs \<Longrightarrow> P s \<Longrightarrow> f s x = Inr s' \<Longrightarrow> P s'"
    and "P s" and "rfold f s xs = Inr t"
  shows "P t"
  using assms
proof (induction xs arbitrary: s)
  case Nil
  then show ?case by simp
next
  case (Cons x xs)
  from Cons.prems(3) obtain s' where s': "f s x = Inr s'" "rfold f s' xs = Inr t"
    by (auto simp: result_iff)
  have "P s'" using Cons.prems(1,2) s'(1) by (meson list.set_intros(1))
  then show ?case using Cons.IH [OF _ _ s'(2)] Cons.prems(1) by (meson list.set_intros(2))
qed

section \<open>Messages\<close>

text \<open>\<open>std::to_string\<close>, and a name between single quotes.\<close>

fun show_nat :: "nat \<Rightarrow> string" where
  "show_nat n =
     (if n < 10 then [char_of (48 + n)] else show_nat (n div 10) @ [char_of (48 + n mod 10)])"

declare show_nat.simps [simp del]

definition show_int :: "int \<Rightarrow> string" where
  "show_int i = (if i < 0 then CHR ''-'' # show_nat (nat (- i)) else show_nat (nat i))"

definition quoted :: "string \<Rightarrow> string" where
  "quoted s = CHR 0x27 # s @ [CHR 0x27]"

section \<open>Copies inside C arrays\<close>

text \<open>
  \<open>copy_range dst d src s n\<close> is the array \<open>dst\<close> after the \<open>n\<close> elements of \<open>src\<close> from index \<open>s\<close>
  have been copied to index \<open>d\<close>. With \<open>src = dst\<close> it is \<open>std::move\<close> (towards the front) or
  \<open>std::move_backward\<close> (towards the back), whose result on overlapping ranges is that of a
  simultaneous copy.
\<close>

definition copy_range :: "'a list \<Rightarrow> nat \<Rightarrow> 'a list \<Rightarrow> nat \<Rightarrow> nat \<Rightarrow> 'a list" where
  "copy_range dst d src s n = take d dst @ take n (drop s src) @ drop (d + n) dst"

lemma length_copy_range [simp]:
  "d + n \<le> length dst \<Longrightarrow> s + n \<le> length src \<Longrightarrow> length (copy_range dst d src s n) = length dst"
  by (simp add: copy_range_def)

lemma nth_copy_range:
  assumes "d + n \<le> length dst" "s + n \<le> length src" "i < length dst"
  shows "copy_range dst d src s n ! i =
    (if d \<le> i \<and> i < d + n then src ! (s + (i - d)) else dst ! i)"
proof -
  have len: "length (take n (drop s src)) = n" "length (take d dst) = d" using assms by simp_all
  show ?thesis using assms len
    by (auto simp: copy_range_def nth_append min_absorb2 less_diff_conv2 simp del: length_take)
qed

lemma take_copy_range_before:
  "k \<le> d \<Longrightarrow> d \<le> length dst \<Longrightarrow> take k (copy_range dst d src s n) = take k dst"
  by (simp add: copy_range_def min_def)

lemma take_copy_range_through:
  assumes "d \<le> length dst" "s + n \<le> length src"
  shows "take (d + n) (copy_range dst d src s n) = take d dst @ take n (drop s src)"
proof -
  have "length (take n (drop s src)) = n" "length (take d dst) = d" using assms by simp_all
  then show ?thesis using assms by (simp add: copy_range_def min_absorb2 del: length_take)
qed

lemma drop_copy_range_after:
  assumes "d + n \<le> k" "d + n \<le> length dst" "s + n \<le> length src"
  shows "drop k (copy_range dst d src s n) = drop k dst"
proof -
  have "length (take n (drop s src)) = n" "length (take d dst) = d" using assms by simp_all
  then show ?thesis using assms by (simp add: copy_range_def min_absorb2 del: length_take)
qed

section \<open>Lists\<close>

lemma take_drop_split: "i \<le> j \<Longrightarrow> take j xs = take i xs @ take (j - i) (drop i xs)"
  by (metis le_add_diff_inverse take_add)

lemma sorted_wrt_take_drop:
  "sorted_wrt P xs \<Longrightarrow> sorted_wrt P (take n xs) \<and> sorted_wrt P (drop n xs)"
  by (metis append_take_drop_id sorted_wrt_append)

lemma map_of_zip_append:
  "length ks = length vs \<Longrightarrow>
   map_of (zip (ks @ ks') (vs @ vs')) = map_of (zip ks' vs') ++ map_of (zip ks vs)"
  by simp

section \<open>Texts\<close>

text \<open>\<open>std::string\<close> and \<open>std::string_view\<close> compare bytes as unsigned numbers.\<close>

fun text_less :: "string \<Rightarrow> string \<Rightarrow> bool" where
  "text_less xs [] = False"
| "text_less [] (y # ys) = True"
| "text_less (x # xs) (y # ys) =
     (if (of_char x :: nat) < of_char y then True
      else if (of_char y :: nat) < of_char x then False else text_less xs ys)"

lemma text_less_irrefl [simp]: "\<not> text_less s s"
  by (induction s) auto

lemma text_less_total: "a \<noteq> b \<Longrightarrow> text_less a b \<or> text_less b a"
proof (induction a b rule: text_less.induct)
  case (3 x xs y ys)
  have "x = y" if "\<not> (of_char x :: nat) < of_char y" "\<not> (of_char y :: nat) < of_char x"
    using that by (simp add: antisym_conv3)
  then show ?case using 3 by auto
qed (auto simp: neq_Nil_conv)

lemma text_less_asym: "text_less a b \<Longrightarrow> \<not> text_less b a"
  by (induction a b rule: text_less.induct) (auto split: if_splits)

end
