(* ===== verification/Byte_Codec.thy ===== *)
theory Byte_Codec
  imports Qdb_Prelude
begin

text \<open>
  How the storage writes machine integers and strings: \<open>memcpy\<close> and \<open>stream.write\<close> of the object
  representation, which on the supported targets is little endian. Files and pages are lists of
  bytes; a read of a stream that is too short fails, as \<open>std::istream::read\<close> does.
\<close>

type_synonym byte = "8 word"

section \<open>Integers\<close>

fun le_enc :: "nat \<Rightarrow> nat \<Rightarrow> byte list" where
  "le_enc 0 x = []"
| "le_enc (Suc n) x = word_of_nat (x mod 256) # le_enc n (x div 256)"

fun le_dec :: "byte list \<Rightarrow> nat" where
  "le_dec [] = 0"
| "le_dec (b # bs) = unat b + 256 * le_dec bs"

lemma length_le_enc [simp]: "length (le_enc n x) = n"
  by (induction n arbitrary: x) simp_all

lemma le_dec_le_enc [simp]: "le_dec (le_enc n x) = x mod 256 ^ n"
proof (induction n arbitrary: x)
  case 0
  then show ?case by simp
next
  case (Suc n)
  have "unat (word_of_nat (x mod 256) :: byte) = x mod 256"
    by (simp add: unat_of_nat)
  then show ?case
    using Suc.IH [of "x div 256"] by (simp add: mod_mult2_eq add.commute)
qed

lemma le_dec_bound: "le_dec bs < 256 ^ length bs"
proof (induction bs)
  case Nil
  then show ?case by simp
next
  case (Cons b bs)
  have "unat b < 256" using unsigned_less [of b] by simp
  with Cons.IH show ?case by simp
qed

lemma le_enc_le_dec: "le_enc (length bs) (le_dec bs) = bs"
proof (induction bs)
  case Nil
  then show ?case by simp
next
  case (Cons b bs)
  have b: "unat b < 256" using unsigned_less [of b] by simp
  have "(unat b + 256 * le_dec bs) mod 256 = unat b" "(unat b + 256 * le_dec bs) div 256 = le_dec bs"
    using b by simp_all
  with Cons.IH show ?case by simp
qed

definition enc32 :: "32 word \<Rightarrow> byte list" where
  "enc32 w = le_enc 4 (unat w)"

definition dec32 :: "byte list \<Rightarrow> 32 word" where
  "dec32 bs = word_of_nat (le_dec bs)"

definition enc64 :: "64 word \<Rightarrow> byte list" where
  "enc64 w = le_enc 8 (unat w)"

definition dec64 :: "byte list \<Rightarrow> 64 word" where
  "dec64 bs = word_of_nat (le_dec bs)"

lemma length_enc [simp]: "length (enc32 w) = 4" "length (enc64 v) = 8"
  by (simp_all add: enc32_def enc64_def)

lemma dec32_enc32 [simp]: "dec32 (enc32 w) = w"
proof -
  have "unat w < 256 ^ 4" using unsigned_less [of w] by simp
  then show ?thesis by (simp add: enc32_def dec32_def)
qed

lemma dec64_enc64 [simp]: "dec64 (enc64 w) = w"
proof -
  have "unat w < 256 ^ 8" using unsigned_less [of w] by simp
  then show ?thesis by (simp add: enc64_def dec64_def)
qed

lemma enc32_dec32: "length bs = 4 \<Longrightarrow> enc32 (dec32 bs) = bs"
proof -
  assume len: "length bs = 4"
  have "unat (dec32 bs) = le_dec bs"
    using le_dec_bound [of bs] len by (simp add: dec32_def unat_of_nat)
  then show ?thesis
    using le_enc_le_dec [of bs] len by (simp add: enc32_def)
qed

section \<open>Strings\<close>

definition byte_of_char :: "char \<Rightarrow> byte" where
  "byte_of_char c = word_of_nat (of_char c)"

definition char_of_byte :: "byte \<Rightarrow> char" where
  "char_of_byte b = char_of (unat b)"

lemma char_of_byte_of_char [simp]: "char_of_byte (byte_of_char c) = c"
proof -
  have "(of_char c :: nat) < 256" by (rule nat_of_char_less_256)
  then show ?thesis by (simp add: char_of_byte_def byte_of_char_def unat_of_nat)
qed

definition bytes_of :: "string \<Rightarrow> byte list" where
  "bytes_of s = map byte_of_char s"

definition string_of :: "byte list \<Rightarrow> string" where
  "string_of bs = map char_of_byte bs"

lemma length_bytes_of [simp]: "length (bytes_of s) = length s"
  by (simp add: bytes_of_def)

lemma string_of_bytes_of [simp]: "string_of (bytes_of s) = s"
  by (simp add: bytes_of_def string_of_def comp_def)

section \<open>Reading a stream\<close>

text \<open>\<open>stream.read(p, n)\<close>: the next \<open>n\<close> bytes and the rest, or failure when fewer are left.\<close>

definition read_bytes :: "nat \<Rightarrow> byte list \<Rightarrow> (byte list \<times> byte list) option" where
  "read_bytes n s = (if n \<le> length s then Some (take n s, drop n s) else None)"

definition read_u32 :: "byte list \<Rightarrow> (32 word \<times> byte list) option" where
  "read_u32 s = map_option (\<lambda>(b, r). (dec32 b, r)) (read_bytes 4 s)"

definition read_u64 :: "byte list \<Rightarrow> (64 word \<times> byte list) option" where
  "read_u64 s = map_option (\<lambda>(b, r). (dec64 b, r)) (read_bytes 8 s)"

definition read_u8 :: "byte list \<Rightarrow> (byte \<times> byte list) option" where
  "read_u8 s = (case s of [] \<Rightarrow> None | b # r \<Rightarrow> Some (b, r))"

lemma read_bytes_append: "length xs = n \<Longrightarrow> read_bytes n (xs @ ys) = Some (xs, ys)"
  by (simp add: read_bytes_def)

lemma read_u32_enc [simp]: "read_u32 (enc32 w @ s) = Some (w, s)"
  by (simp add: read_u32_def read_bytes_append)

lemma read_u64_enc [simp]: "read_u64 (enc64 w @ s) = Some (w, s)"
  by (simp add: read_u64_def read_bytes_append)

lemma read_u8_Cons [simp]: "read_u8 (b # s) = Some (b, s)" "read_u8 [] = None"
  by (simp_all add: read_u8_def)

lemma read_bytes_length: "read_bytes n s = Some (b, r) \<Longrightarrow> length s = n + length r \<and> length b = n"
  by (auto simp: read_bytes_def split: if_splits)

lemma read_u32_length: "read_u32 s = Some (w, r) \<Longrightarrow> length s = 4 + length r"
  by (auto simp: read_u32_def dest: read_bytes_length)

lemma read_u64_length: "read_u64 s = Some (w, r) \<Longrightarrow> length s = 8 + length r"
  by (auto simp: read_u64_def dest: read_bytes_length)

section \<open>Fields of a page\<close>

text \<open>Reading and writing at an offset of a byte array.\<close>

definition get32 :: "byte list \<Rightarrow> nat \<Rightarrow> 32 word" where
  "get32 raw off = dec32 (take 4 (drop off raw))"

definition put_bytes :: "byte list \<Rightarrow> nat \<Rightarrow> byte list \<Rightarrow> byte list" where
  "put_bytes raw off bs = take off raw @ bs @ drop (off + length bs) raw"

lemma length_put_bytes [simp]:
  "off + length bs \<le> length raw \<Longrightarrow> length (put_bytes raw off bs) = length raw"
  by (simp add: put_bytes_def)

lemma take_put_bytes: "n \<le> off \<Longrightarrow> off \<le> length raw \<Longrightarrow> take n (put_bytes raw off bs) = take n raw"
  by (simp add: put_bytes_def min_def)

lemma take_drop_put_bytes_before:
  "o' + n \<le> off \<Longrightarrow> off \<le> length raw \<Longrightarrow>
   take n (drop o' (put_bytes raw off bs)) = take n (drop o' raw)"
  by (simp add: put_bytes_def min_def take_drop)

lemma drop_put_bytes:
  "off + length bs \<le> n \<Longrightarrow> off + length bs \<le> length raw \<Longrightarrow> drop n (put_bytes raw off bs) = drop n raw"
  by (simp add: put_bytes_def)

lemma put_bytes_here:
  "off + length bs \<le> length raw \<Longrightarrow> take (length bs) (drop off (put_bytes raw off bs)) = bs"
  by (simp add: put_bytes_def)

lemma get32_put_before: "o' + 4 \<le> off \<Longrightarrow> off \<le> length raw \<Longrightarrow> get32 (put_bytes raw off bs) o' = get32 raw o'"
  by (simp add: get32_def take_drop_put_bytes_before)

lemma get32_put_after:
  "off + length bs \<le> o' \<Longrightarrow> off + length bs \<le> length raw \<Longrightarrow> get32 (put_bytes raw off bs) o' = get32 raw o'"
  by (simp add: get32_def drop_put_bytes)

lemma get32_put_here: "off + 4 \<le> length raw \<Longrightarrow> get32 (put_bytes raw off (enc32 w)) off = w"
  using put_bytes_here [of off "enc32 w" raw] by (simp add: get32_def)

lemmas put_simps = get32_put_before get32_put_after get32_put_here

end
