(* ===== verification/Page_File.thy ===== *)
theory Page_File
  imports Byte_Codec
begin

text \<open>
  The file of fixed-size pages, \<open>apps/storage/src/pager.cpp\<close>, over the bytes of the file, and the
  interface its users rely on: a store of numbered pages. Writes to the file succeed.
\<close>

section \<open>The pager\<close>

record pager =
  page_size :: nat
  db_file :: "byte list"

definition get_total_pages :: "pager \<Rightarrow> (32 word) result" where
  "get_total_pages pg =
     rassert (length (db_file pg) mod page_size pg = 0) ''file_size % page_size == 0''
       (Inr (word_of_nat (length (db_file pg) div page_size pg)))"

definition page_exists :: "pager \<Rightarrow> 32 word \<Rightarrow> bool result" where
  "page_exists pg i = rmap (\<lambda>n. i < n) (get_total_pages pg)"

text \<open>A write past the end of the file leaves a gap of zeroes.\<close>

definition write_page :: "pager \<Rightarrow> 32 word \<Rightarrow> byte list \<Rightarrow> pager" where
  "write_page pg i dat =
     (let off = unat i * page_size pg; f = db_file pg;
          padded = f @ replicate (off + page_size pg - length f) 0
      in pg\<lparr>db_file := put_bytes padded off (take (page_size pg) dat)\<rparr>)"

definition read_page :: "pager \<Rightarrow> 32 word \<Rightarrow> byte list result" where
  "read_page pg i =
     (let got = take (page_size pg) (drop (unat i * page_size pg) (db_file pg))
      in if length got \<noteq> page_size pg then
           Inl (Runtime_Error (''Failed to read complete page '' @ show_nat (unat i)))
         else Inr got)"

definition append_new_page :: "pager \<Rightarrow> 32 word \<times> pager" where
  "append_new_page pg =
     (word_of_nat (length (db_file pg) div page_size pg),
      pg\<lparr>db_file := db_file pg @ replicate (page_size pg) 0\<rparr>)"

definition truncate_pages :: "pager \<Rightarrow> 32 word \<Rightarrow> pager" where
  "truncate_pages pg count =
     (let n = unat count * page_size pg; f = db_file pg
      in pg\<lparr>db_file := take n f @ replicate (n - length f) 0\<rparr>)"

section \<open>The interface: a store of pages\<close>

text \<open>
  What the table and the tree rely on: reading returns what was last written, writing one page
  leaves the others alone, and appending adds one page at the end.
\<close>

locale page_store =
  fixes inv :: "'s \<Rightarrow> bool"
    and fits :: "'s \<Rightarrow> 'p \<Rightarrow> bool"
    and total :: "'s \<Rightarrow> nat"
    and rd :: "'s \<Rightarrow> 32 word \<Rightarrow> 'p result"
    and wr :: "'s \<Rightarrow> 32 word \<Rightarrow> 'p \<Rightarrow> 's"
    and app :: "'s \<Rightarrow> 32 word \<times> 's"
  assumes rd_inside: "inv s \<Longrightarrow> unat i < total s \<Longrightarrow> \<exists>p. rd s i = Inr p \<and> fits s p"
    and rd_outside: "inv s \<Longrightarrow> total s \<le> unat i \<Longrightarrow> \<not> is_ok (rd s i)"
    and wr_inv: "inv s \<Longrightarrow> unat i < total s \<Longrightarrow> fits s p \<Longrightarrow> inv (wr s i p)"
    and wr_fits: "fits (wr s i p) q \<longleftrightarrow> fits s q"
    and wr_total: "inv s \<Longrightarrow> unat i < total s \<Longrightarrow> fits s p \<Longrightarrow> total (wr s i p) = total s"
    and rd_wr: "inv s \<Longrightarrow> unat i < total s \<Longrightarrow> fits s p \<Longrightarrow>
      rd (wr s i p) j = (if j = i then Inr p else rd s j)"
    and app_inv: "inv s \<Longrightarrow> total s + 1 < 2 ^ 32 \<Longrightarrow> app s = (n, s') \<Longrightarrow>
      inv s' \<and> unat n = total s \<and> total s' = total s + 1"
    and app_fits: "app s = (n, s') \<Longrightarrow> fits s' q \<longleftrightarrow> fits s q"
    and rd_app: "inv s \<Longrightarrow> total s + 1 < 2 ^ 32 \<Longrightarrow> app s = (n, s') \<Longrightarrow> unat j < total s \<Longrightarrow>
      rd s' j = rd s j"
begin

lemma rd_iff: "inv s \<Longrightarrow> is_ok (rd s i) \<longleftrightarrow> unat i < total s"
  using rd_inside rd_outside by (metis is_ok.simps(1) not_le)

lemma rd_fits: "inv s \<Longrightarrow> rd s i = Inr p \<Longrightarrow> unat i < total s \<and> fits s p"
  using rd_inside rd_outside by (metis Inr_inject is_ok.simps(1) not_le)

lemma last_write_wins:
  assumes "inv s" "unat i < total s" "fits s p" "fits s q"
  shows "rd (wr (wr s i p) i q) j = rd (wr s i q) j"
  using assms by (simp add: rd_wr wr_inv wr_total wr_fits)

lemma writes_commute:
  assumes "inv s" "unat i < total s" "unat k < total s" "fits s p" "fits s q" "i \<noteq> k"
  shows "rd (wr (wr s i p) k q) j = rd (wr (wr s k q) i p) j"
  using assms by (simp add: rd_wr wr_inv wr_total wr_fits)

text \<open>Growing the store and then writing the new page leaves every old page readable.\<close>

lemma append_write:
  assumes "inv s" "total s + 1 < 2 ^ 32" "app s = (n, s')" "fits s p"
  shows "inv (wr s' n p)" "total (wr s' n p) = total s + 1" "rd (wr s' n p) n = Inr p"
    and "unat j < total s \<Longrightarrow> rd (wr s' n p) j = rd s j"
proof -
  have s': "inv s'" "unat n = total s" "total s' = total s + 1"
    using app_inv [OF assms(1-3)] by auto
  have f: "fits s' p" using assms(3,4) app_fits by blast
  have n: "unat n < total s'" using s' by simp
  show "inv (wr s' n p)" using s'(1) n f by (rule wr_inv)
  show "total (wr s' n p) = total s + 1" using wr_total [OF s'(1) n f] s'(3) by simp
  show "rd (wr s' n p) n = Inr p" using rd_wr [OF s'(1) n f] by simp
  show "rd (wr s' n p) j = rd s j" if "unat j < total s"
    using rd_wr [OF s'(1) n f, of j] rd_app [OF assms(1-3) that] that s'(2) by auto
qed

end

section \<open>The pager is a page store\<close>

definition pager_inv :: "pager \<Rightarrow> bool" where
  "pager_inv pg \<longleftrightarrow> 0 < page_size pg \<and> length (db_file pg) mod page_size pg = 0 \<and>
     length (db_file pg) div page_size pg < 2 ^ 32"

definition pager_total :: "pager \<Rightarrow> nat" where
  "pager_total pg = length (db_file pg) div page_size pg"

definition pager_fits :: "pager \<Rightarrow> byte list \<Rightarrow> bool" where
  "pager_fits pg p \<longleftrightarrow> length p = page_size pg"

lemma get_total_pages_total:
  assumes "pager_inv pg"
  shows "get_total_pages pg = Inr (word_of_nat (pager_total pg))"
    and "unat (word_of_nat (pager_total pg) :: 32 word) = pager_total pg"
  using assms by (simp_all add: get_total_pages_def pager_inv_def pager_total_def unat_of_nat)

lemma pager_length: "pager_inv pg \<Longrightarrow> length (db_file pg) = pager_total pg * page_size pg"
  by (auto simp: pager_inv_def pager_total_def)

lemma page_end_le:
  assumes "pager_inv pg" "i < pager_total pg"
  shows "i * page_size pg + page_size pg \<le> length (db_file pg)"
proof -
  have "(i + 1) * page_size pg \<le> pager_total pg * page_size pg"
    using assms(2) by (intro mult_right_mono) auto
  then show ?thesis using pager_length [OF assms(1)] by (simp add: algebra_simps)
qed

lemma read_page_inside:
  assumes "pager_inv pg" "unat i < pager_total pg"
  shows "read_page pg i = Inr (take (page_size pg) (drop (unat i * page_size pg) (db_file pg)))"
    and "length (take (page_size pg) (drop (unat i * page_size pg) (db_file pg))) = page_size pg"
  using page_end_le [OF assms] by (simp_all add: read_page_def Let_def min_absorb2)

lemma read_page_outside:
  assumes "pager_inv pg" "pager_total pg \<le> unat i"
  shows "\<not> is_ok (read_page pg i)"
proof -
  have "pager_total pg * page_size pg \<le> unat i * page_size pg"
    using assms(2) by (rule mult_right_mono) simp
  then show ?thesis
    using assms(1) pager_length [OF assms(1)] by (simp add: read_page_def Let_def pager_inv_def)
qed

lemma write_page_inside:
  assumes "pager_inv pg" "unat i < pager_total pg" "pager_fits pg p"
  shows "write_page pg i p = pg\<lparr>db_file := put_bytes (db_file pg) (unat i * page_size pg) p\<rparr>"
  using page_end_le [OF assms(1,2)] assms(3)
  by (simp add: write_page_def Let_def pager_fits_def)

lemma read_write_page:
  assumes "pager_inv pg" "unat i < pager_total pg" "pager_fits pg p"
  shows "read_page (write_page pg i p) j = (if j = i then Inr p else read_page pg j)"
proof -
  let ?z = "page_size pg" and ?o = "unat i * page_size pg"
  have e: "?o + length p \<le> length (db_file pg)"
    using page_end_le [OF assms(1,2)] assms(3) by (simp add: pager_fits_def)
  have lp: "length p = ?z" using assms(3) by (simp add: pager_fits_def)
  have w: "write_page pg i p = pg\<lparr>db_file := put_bytes (db_file pg) ?o p\<rparr>"
    using assms by (rule write_page_inside)
  consider "j = i" | "unat j < unat i" | "unat i < unat j"
    using unsigned_word_eqI by (metis linorder_neqE_nat)
  then show ?thesis
  proof cases
    case 1
    then show ?thesis using put_bytes_here [OF e] lp by (simp add: w read_page_def Let_def)
  next
    case 2
    then have "(unat j + 1) * ?z \<le> ?o" by (intro mult_right_mono) auto
    then have "take ?z (drop (unat j * ?z) (put_bytes (db_file pg) ?o p))
        = take ?z (drop (unat j * ?z) (db_file pg))"
      using e by (intro take_drop_put_bytes_before) (simp_all add: algebra_simps)
    with 2 show ?thesis by (auto simp: w read_page_def Let_def)
  next
    case 3
    then have "(unat i + 1) * ?z \<le> unat j * ?z" by (intro mult_right_mono) auto
    then have "drop (unat j * ?z) (put_bytes (db_file pg) ?o p) = drop (unat j * ?z) (db_file pg)"
      using e lp by (intro drop_put_bytes) (simp_all add: algebra_simps)
    with 3 show ?thesis by (auto simp: w read_page_def Let_def)
  qed
qed

lemma write_page_inv:
  assumes "pager_inv pg" "unat i < pager_total pg" "pager_fits pg p"
  shows "pager_inv (write_page pg i p)" "pager_total (write_page pg i p) = pager_total pg"
  using assms page_end_le [OF assms(1,2)]
  by (simp_all add: write_page_inside pager_inv_def pager_total_def pager_fits_def)

lemma append_new_page_inv:
  assumes "pager_inv pg" "pager_total pg + 1 < 2 ^ 32" "append_new_page pg = (n, pg')"
  shows "pager_inv pg' \<and> unat n = pager_total pg \<and> pager_total pg' = pager_total pg + 1"
  using assms by (auto simp: append_new_page_def pager_inv_def pager_total_def unat_of_nat)

lemma read_append_page:
  assumes "pager_inv pg" "append_new_page pg = (n, pg')" "unat j < pager_total pg"
  shows "read_page pg' j = read_page pg j"
  using page_end_le [OF assms(1,3)] assms(2) by (auto simp: append_new_page_def read_page_def Let_def)

lemma pager_fits_write: "pager_fits (write_page pg i p) q \<longleftrightarrow> pager_fits pg q"
  by (simp add: pager_fits_def write_page_def Let_def)

lemma pager_fits_append: "append_new_page pg = (n, pg') \<Longrightarrow> pager_fits pg' q \<longleftrightarrow> pager_fits pg q"
  by (auto simp: pager_fits_def append_new_page_def)

lemma read_page_fits:
  "pager_inv pg \<Longrightarrow> unat i < pager_total pg \<Longrightarrow> \<exists>p. read_page pg i = Inr p \<and> pager_fits pg p"
  using read_page_inside unfolding pager_fits_def by blast

interpretation pg: page_store pager_inv pager_fits pager_total read_page write_page append_new_page
proof (unfold_locales, goal_cases)
  case 1 then show ?case by (rule read_page_fits)
next
  case 2 then show ?case by (rule read_page_outside)
next
  case 3 then show ?case by (rule write_page_inv)
next
  case 4 show ?case by (rule pager_fits_write)
next
  case 5 then show ?case by (rule write_page_inv)
next
  case 6 then show ?case by (rule read_write_page)
next
  case 7 then show ?case by (rule append_new_page_inv)
next
  case 8 then show ?case by (rule pager_fits_append)
next
  case 9 then show ?case by (intro read_append_page)
qed

end
