(* ===== verification/Sql_Value.thy ===== *)
theory Sql_Value
  imports Qdb_Prelude
begin

text \<open>
  The values of a record and SQL's three-valued logic: \<open>apps/storage/include/qdb/storage/value.h\<close>
  and \<open>apps/storage/src/value.cpp\<close>. A value is the \<open>std::variant\<close> of the code, a machine integer
  is a 32-bit word read as two's complement, and a string is the identifier the interner gave it.
\<close>

section \<open>Data\<close>

datatype sql_bool = SqlFalse | SqlTrue | SqlUnknown

text \<open>\<open>StringId\<close> wraps a \<open>uint32_t\<close> and is ordered by it: a key type of the index.\<close>

datatype string_id = StringId (sid_value: "32 word")

instantiation string_id :: linorder
begin

definition less_eq_string_id :: "string_id \<Rightarrow> string_id \<Rightarrow> bool" where
  "less_eq_string_id a b = (sid_value a \<le> sid_value b)"

definition less_string_id :: "string_id \<Rightarrow> string_id \<Rightarrow> bool" where
  "less_string_id a b = (sid_value a < sid_value b)"

instance
proof
  fix x y z :: string_id
  show "(x < y) = (x \<le> y \<and> \<not> y \<le> x)"
    by (auto simp: less_string_id_def less_eq_string_id_def)
  show "x \<le> x" by (simp add: less_eq_string_id_def)
  show "x \<le> y \<Longrightarrow> y \<le> z \<Longrightarrow> x \<le> z" by (simp add: less_eq_string_id_def)
  show "x \<le> y \<Longrightarrow> y \<le> x \<Longrightarrow> x = y"
    by (auto simp: less_eq_string_id_def intro: string_id.expand)
  show "x \<le> y \<or> y \<le> x" by (auto simp: less_eq_string_id_def)
qed

end

datatype sql_value = VNull | VInt "32 word" | VString string_id

datatype value_type = NULL_TYPE | INT_TYPE | STRING_TYPE

section \<open>The logic of WHERE\<close>

fun sql_and :: "sql_bool \<Rightarrow> sql_bool \<Rightarrow> sql_bool" where
  "sql_and a b =
     (if a = SqlFalse \<or> b = SqlFalse then SqlFalse
      else if a = SqlUnknown \<or> b = SqlUnknown then SqlUnknown
      else SqlTrue)"

fun sql_or :: "sql_bool \<Rightarrow> sql_bool \<Rightarrow> sql_bool" where
  "sql_or a b =
     (if a = SqlTrue \<or> b = SqlTrue then SqlTrue
      else if a = SqlUnknown \<or> b = SqlUnknown then SqlUnknown
      else SqlFalse)"

fun sql_not :: "sql_bool \<Rightarrow> sql_bool" where
  "sql_not SqlTrue = SqlFalse"
| "sql_not SqlFalse = SqlTrue"
| "sql_not SqlUnknown = SqlUnknown"

definition of_bool_sql :: "bool \<Rightarrow> sql_bool" where
  "of_bool_sql b = (if b then SqlTrue else SqlFalse)"

lemma of_bool_sql_eq [simp]:
  "of_bool_sql b = SqlTrue \<longleftrightarrow> b" "of_bool_sql b = SqlFalse \<longleftrightarrow> \<not> b"
  "of_bool_sql b \<noteq> SqlUnknown"
  by (simp_all add: of_bool_sql_def)

lemma of_bool_sql_values [simp]:
  "of_bool_sql True = SqlTrue" "of_bool_sql False = SqlFalse"
  by (simp_all add: of_bool_sql_def)

lemma sql_not_of_bool [simp]: "sql_not (of_bool_sql b) = of_bool_sql (\<not> b)"
  by (simp add: of_bool_sql_def)

lemma sql_or_of_bool [simp]: "sql_or (of_bool_sql a) (of_bool_sql b) = of_bool_sql (a \<or> b)"
  by (simp add: of_bool_sql_def)

lemma sql_and_of_bool [simp]: "sql_and (of_bool_sql a) (of_bool_sql b) = of_bool_sql (a \<and> b)"
  by (simp add: of_bool_sql_def)

text \<open>The truth order \<open>FALSE < UNKNOWN < TRUE\<close> that Kleene's connectives are min and max of.\<close>

fun truth_rank :: "sql_bool \<Rightarrow> nat" where
  "truth_rank SqlFalse = 0"
| "truth_rank SqlUnknown = 1"
| "truth_rank SqlTrue = 2"

lemma truth_rank_inject: "truth_rank a = truth_rank b \<longleftrightarrow> a = b"
  by (cases a; cases b) auto

lemma truth_rank_and: "truth_rank (sql_and a b) = min (truth_rank a) (truth_rank b)"
  by (cases a; cases b) auto

lemma truth_rank_or: "truth_rank (sql_or a b) = max (truth_rank a) (truth_rank b)"
  by (cases a; cases b) auto

lemma truth_rank_not: "truth_rank (sql_not a) = 2 - truth_rank a"
  by (cases a) auto

section \<open>Accessors\<close>

fun IsNull :: "sql_value \<Rightarrow> bool" where
  "IsNull VNull = True" | "IsNull _ = False"

fun IsInt :: "sql_value \<Rightarrow> bool" where
  "IsInt (VInt _) = True" | "IsInt _ = False"

fun IsString :: "sql_value \<Rightarrow> bool" where
  "IsString (VString _) = True" | "IsString _ = False"

fun GetType :: "sql_value \<Rightarrow> value_type" where
  "GetType VNull = NULL_TYPE"
| "GetType (VInt _) = INT_TYPE"
| "GetType (VString _) = STRING_TYPE"

fun GetTypeName :: "sql_value \<Rightarrow> string" where
  "GetTypeName VNull = ''NULL''"
| "GetTypeName (VInt _) = ''INT''"
| "GetTypeName (VString _) = ''STRING''"

fun AsInt :: "sql_value \<Rightarrow> (32 word) result" where
  "AsInt (VInt i) = Inr i"
| "AsInt _ = Inl (Runtime_Error ''[FATAL in qdb::storage::Value]: Value is not an int!'')"

fun AsString :: "sql_value \<Rightarrow> string_id result" where
  "AsString (VString s) = Inr s"
| "AsString _ = Inl (Runtime_Error ''[FATAL in qdb::storage::Value]: Value is not a string!'')"

fun Value_ToString :: "sql_value \<Rightarrow> string" where
  "Value_ToString VNull = ''NULL''"
| "Value_ToString (VInt i) = show_int (sint i)"
| "Value_ToString (VString s) = CHR 0x23 # show_nat (unat (sid_value s))"

section \<open>Comparisons\<close>

fun StrictEq :: "sql_value \<Rightarrow> sql_value \<Rightarrow> bool" where
  "StrictEq a b =
     (if IsNull a \<and> IsNull b then True
      else if GetType a \<noteq> GetType b then False
      else case (a, b) of
        (VInt i, VInt j) \<Rightarrow> sint i = sint j
      | (VString s, VString t) \<Rightarrow> sid_value s = sid_value t
      | _ \<Rightarrow> False)"

definition different_type :: exn where
  "different_type = Runtime_Error ''[FATAL in qdb::storage::Value]: Compare different type!''"

fun value_eq :: "sql_value \<Rightarrow> sql_value \<Rightarrow> sql_bool result" where
  "value_eq (VInt i) (VInt j) = Inr (of_bool_sql (sint i = sint j))"
| "value_eq (VString s) (VString t) = Inr (of_bool_sql (sid_value s = sid_value t))"
| "value_eq a b =
     (if IsNull a \<or> IsNull b then Inr SqlUnknown
      else Inl (Runtime_Error ''Compare different type''))"

fun value_less :: "sql_value \<Rightarrow> sql_value \<Rightarrow> sql_bool result" where
  "value_less (VInt i) (VInt j) = Inr (of_bool_sql (sint i < sint j))"
| "value_less (VString s) (VString t) = Inr (of_bool_sql (sid_value s < sid_value t))"
| "value_less a b = (if IsNull a \<or> IsNull b then Inr SqlUnknown else Inl different_type)"

text \<open>The overloaded \<open>||\<close> evaluates both operands, the left one first.\<close>

definition value_le :: "sql_value \<Rightarrow> sql_value \<Rightarrow> sql_bool result" where
  "value_le a b = rbind (value_less a b) (\<lambda>l. rbind (value_eq a b) (\<lambda>e. Inr (sql_or l e)))"

definition value_gt :: "sql_value \<Rightarrow> sql_value \<Rightarrow> sql_bool result" where
  "value_gt a b = rmap sql_not (value_le a b)"

definition value_ge :: "sql_value \<Rightarrow> sql_value \<Rightarrow> sql_bool result" where
  "value_ge a b = rmap sql_not (value_less a b)"

definition value_ne :: "sql_value \<Rightarrow> sql_value \<Rightarrow> sql_bool result" where
  "value_ne a b = rmap sql_not (value_eq a b)"

lemmas value_cmp_defs = value_le_def value_gt_def value_ge_def value_ne_def

lemma signed_eq_iff: "sint (i :: 32 word) = sint j \<longleftrightarrow> i = j"
  by (auto intro: signed_word_eqI)

text \<open>The abstract order: the rank of a non-null value among those of its type.\<close>

fun value_rank :: "sql_value \<Rightarrow> int" where
  "value_rank (VInt i) = sint i"
| "value_rank (VString s) = uint (sid_value s)"
| "value_rank VNull = 0"

definition comparable :: "sql_value \<Rightarrow> sql_value \<Rightarrow> bool" where
  "comparable a b \<longleftrightarrow> \<not> IsNull a \<and> \<not> IsNull b \<and> GetType a = GetType b"

lemma comparable_cases:
  assumes "comparable a b"
  obtains i j where "a = VInt i" "b = VInt j" | s t where "a = VString s" "b = VString t"
  using assms by (cases a; cases b) (auto simp: comparable_def)

lemma value_rank_inject: "comparable a b \<Longrightarrow> value_rank a = value_rank b \<longleftrightarrow> a = b"
  by (erule comparable_cases) (auto simp: word_uint_eq_iff signed_eq_iff intro: string_id.expand)

lemma value_cmp_rank:
  assumes "comparable a b"
  shows "value_less a b = Inr (of_bool_sql (value_rank a < value_rank b))"
    and "value_eq a b = Inr (of_bool_sql (value_rank a = value_rank b))"
    and "value_le a b = Inr (of_bool_sql (value_rank a \<le> value_rank b))"
    and "value_gt a b = Inr (of_bool_sql (value_rank b < value_rank a))"
    and "value_ge a b = Inr (of_bool_sql (value_rank b \<le> value_rank a))"
    and "value_ne a b = Inr (of_bool_sql (value_rank a \<noteq> value_rank b))"
  using assms
  by (auto elim!: comparable_cases simp: value_cmp_defs word_less_def le_less word_uint_eq_iff
      intro!: arg_cong [where f = of_bool_sql])

lemma value_cmp_null:
  assumes "IsNull a \<or> IsNull b"
  shows "value_less a b = Inr SqlUnknown" and "value_eq a b = Inr SqlUnknown"
    and "value_le a b = Inr SqlUnknown" and "value_gt a b = Inr SqlUnknown"
    and "value_ge a b = Inr SqlUnknown" and "value_ne a b = Inr SqlUnknown"
  using assms by (cases a; cases b; simp add: value_cmp_defs)+

lemma StrictEq_iff: "StrictEq a b \<longleftrightarrow> a = b"
  by (cases a; cases b) (auto simp: signed_eq_iff intro: string_id.expand)

lemma value_cmp_mixed:
  assumes "\<not> comparable a b" "\<not> (IsNull a \<or> IsNull b)"
  shows "\<not> is_ok (value_less a b)" "\<not> is_ok (value_eq a b)" "\<not> is_ok (value_le a b)"
    and "\<not> is_ok (value_gt a b)" "\<not> is_ok (value_ge a b)" "\<not> is_ok (value_ne a b)"
  using assms by (cases a; cases b; simp add: comparable_def value_cmp_defs)+

lemma sql_de_morgan: "sql_not (sql_and p q) = sql_or (sql_not p) (sql_not q)"
  by (cases p; cases q) simp_all

end
