(* ===== verification/Interning.thy ===== *)
theory Interning
  imports Byte_Codec Sql_Value
begin

text \<open>
  The string interner of a table, \<open>apps/storage/src/interner.cpp\<close>: strings get consecutive
  identifiers from 1, and each new one is appended to the \<open>.bin\<close> file as identifier, 64-bit size
  and characters. A \<open>string_view\<close> into the deque is modelled by the string it shows, since
  a deque never moves its elements. Writes to the file succeed.
\<close>

section \<open>State\<close>

record interner =
  string_storage :: "string list"
  string_to_id :: "string \<rightharpoonup> string_id"
  id_to_view :: "32 word \<rightharpoonup> string"
  storage_file :: "byte list"
  storage_open :: bool
  next_id :: "32 word"

definition new_interner :: interner where
  "new_interner = \<lparr>string_storage = [], string_to_id = Map.empty, id_to_view = Map.empty,
     storage_file = [], storage_open = False, next_id = 1\<rparr>"

text \<open>\<open>std::unordered_map::emplace\<close>: an existing key keeps its value.\<close>

definition emplace :: "('k \<rightharpoonup> 'v) \<Rightarrow> 'k \<Rightarrow> 'v \<Rightarrow> ('k \<rightharpoonup> 'v)" where
  "emplace m k v = (case m k of None \<Rightarrow> m(k \<mapsto> v) | Some _ \<Rightarrow> m)"

section \<open>Operations\<close>

definition unknown_id :: "string_id \<Rightarrow> exn" where
  "unknown_id sid = Runtime_Error (''[ERROR in qdb::storage::Interner]: Unknown string id ''
     @ quoted (show_nat (unat (sid_value sid))) @ ''!'')"

definition corrupted_storage :: exn where
  "corrupted_storage =
     Runtime_Error ''[ERROR in qdb::storage::Interner]: Corrupted string storage!''"

definition View :: "interner \<Rightarrow> string_id \<Rightarrow> string result" where
  "View it sid =
     (case id_to_view it (sid_value sid) of Some s \<Rightarrow> Inr s | None \<Rightarrow> Inl (unknown_id sid))"

definition Get :: "interner \<Rightarrow> string_id \<Rightarrow> sql_value result" where
  "Get it sid = rbind (View it sid) (\<lambda>_. Inr (VString sid))"

definition disk_entry :: "32 word \<Rightarrow> string \<Rightarrow> byte list" where
  "disk_entry sid s = enc32 sid @ enc64 (word_of_nat (length s)) @ bytes_of s"

definition AppendToDisk :: "interner \<Rightarrow> 32 word \<Rightarrow> string \<Rightarrow> interner" where
  "AppendToDisk it sid s = it\<lparr>storage_file := storage_file it @ disk_entry sid s\<rparr>"

definition Intern :: "interner \<Rightarrow> string \<Rightarrow> sql_value \<times> interner" where
  "Intern it s =
     (case string_to_id it s of
        Some sid \<Rightarrow> (VString sid, it)
      | None \<Rightarrow>
          let sid = next_id it;
              it1 = it\<lparr>next_id := next_id it + 1\<rparr>;
              it2 = (if storage_open it1 then AppendToDisk it1 sid s else it1);
              it3 = it2\<lparr>string_storage := string_storage it2 @ [s],
                        string_to_id := emplace (string_to_id it2) s (StringId sid),
                        id_to_view := emplace (id_to_view it2) sid s\<rparr>
          in (VString (StringId sid), it3))"

definition AddLoadedString :: "interner \<Rightarrow> 32 word \<Rightarrow> string \<Rightarrow> interner" where
  "AddLoadedString it sid s =
     it\<lparr>next_id := max (next_id it) (sid + 1),
        string_storage := string_storage it @ [s],
        id_to_view := emplace (id_to_view it) sid s,
        string_to_id := emplace (string_to_id it) s (StringId sid)\<rparr>"

function load_loop :: "interner \<Rightarrow> byte list \<Rightarrow> interner result" where
  "load_loop it s =
     (case read_u32 s of
        None \<Rightarrow> Inr it
      | Some (stored_id, s1) \<Rightarrow>
          (case read_u64 s1 of
             None \<Rightarrow> Inl corrupted_storage
           | Some (sz, s2) \<Rightarrow>
               (case read_bytes (unat sz) s2 of
                  None \<Rightarrow> Inl corrupted_storage
                | Some (value, s3) \<Rightarrow>
                    load_loop (AddLoadedString it stored_id (string_of value)) s3)))"
  by pat_completeness auto
termination
  by (relation "measure (\<lambda>(it, s). length s)")
     (auto dest!: read_u32_length read_u64_length read_bytes_length)

declare load_loop.simps [simp del]

definition LoadStorage :: "interner \<Rightarrow> interner result" where
  "LoadStorage it =
     load_loop (it\<lparr>string_storage := [], string_to_id := Map.empty, id_to_view := Map.empty,
                   next_id := 1\<rparr>) (storage_file it)"

definition Close :: "interner \<Rightarrow> interner" where
  "Close it = it\<lparr>storage_open := False\<rparr>"

text \<open>
  \<open>UseStorage\<close> opens the file, creating it empty when it is missing (\<open>None\<close>), and loads it.
\<close>

definition UseStorage :: "interner \<Rightarrow> byte list option \<Rightarrow> interner result" where
  "UseStorage it file =
     LoadStorage ((Close it)\<lparr>storage_open := True,
                             storage_file := (case file of Some f \<Rightarrow> f | None \<Rightarrow> [])\<rparr>)"

section \<open>The representation invariant\<close>

text \<open>
  The identifiers in use are \<open>1 .. n\<close>, in the order in which the strings came; both maps are
  determined by the list of strings, which has no duplicates; the file holds one entry per string.
\<close>

definition view_of :: "string list \<Rightarrow> 32 word \<rightharpoonup> string" where
  "view_of ss i = (if 0 < unat i \<and> unat i \<le> length ss then Some (ss ! (unat i - 1)) else None)"

definition entries_of :: "string list \<Rightarrow> byte list" where
  "entries_of ss = concat (map (\<lambda>k. disk_entry (word_of_nat (k + 1)) (ss ! k)) [0..<length ss])"

definition interner_rep :: "interner \<Rightarrow> bool" where
  "interner_rep it \<longleftrightarrow>
     (let ss = string_storage it in
      distinct ss \<and> length ss + 1 < 2 ^ 32 \<and> next_id it = word_of_nat (length ss + 1) \<and>
      id_to_view it = view_of ss \<and>
      (\<forall>s sid. string_to_id it s = Some sid \<longleftrightarrow> view_of ss (sid_value sid) = Some s))"

definition persisted :: "interner \<Rightarrow> bool" where
  "persisted it \<longleftrightarrow> storage_open it \<and> storage_file it = entries_of (string_storage it) \<and>
     (\<forall>s \<in> set (string_storage it). length s < 2 ^ 64)"

lemma unat_Suc_length:
  "n + 1 < 2 ^ 32 \<Longrightarrow> unat (word_of_nat (n + 1) :: 32 word) = n + 1"
  by (simp add: unat_of_nat del: of_nat_Suc)

lemma view_of_Nil [simp]: "view_of [] = Map.empty"
  by (auto simp: view_of_def)

lemma view_of_snoc:
  assumes "length ss + 1 < 2 ^ 32"
  shows "view_of (ss @ [s]) = (view_of ss)(word_of_nat (length ss + 1) \<mapsto> s)"
proof
  fix i :: "32 word"
  have n: "unat (word_of_nat (length ss + 1) :: 32 word) = length ss + 1"
    using assms by (rule unat_Suc_length)
  show "view_of (ss @ [s]) i = ((view_of ss)(word_of_nat (length ss + 1) \<mapsto> s)) i"
  proof (cases "unat i = length ss + 1")
    case True
    then have "i = word_of_nat (length ss + 1)" by (metis n unsigned_word_eqI)
    with n show ?thesis by (simp add: view_of_def nth_append)
  next
    case False
    then have "i \<noteq> word_of_nat (length ss + 1)" using n by auto
    with False show ?thesis by (auto simp: view_of_def nth_append)
  qed
qed

lemma view_of_fresh: "length ss + 1 < 2 ^ 32 \<Longrightarrow> view_of ss (word_of_nat (length ss + 1)) = None"
  using unat_Suc_length by (simp add: view_of_def del: of_nat_Suc of_nat_add)

lemma view_of_Some_mem: "view_of ss i = Some s \<Longrightarrow> s \<in> set ss"
  by (auto simp: view_of_def split: if_splits)

lemma view_of_inj:
  assumes "distinct ss" "view_of ss i = Some s" "view_of ss j = Some s"
  shows "i = j"
proof -
  have "unat i - 1 = unat j - 1"
    using assms by (auto simp: view_of_def nth_eq_iff_index_eq split: if_splits)
  then have "unat i = unat j" using assms(2,3) by (auto simp: view_of_def split: if_splits)
  then show ?thesis by (rule unsigned_word_eqI)
qed

lemma mem_view_of:
  assumes "s \<in> set ss" "length ss + 1 < 2 ^ 32"
  shows "\<exists>i. view_of ss i = Some s"
proof -
  obtain k where k: "k < length ss" "ss ! k = s" using assms(1) by (auto simp: in_set_conv_nth)
  then have "unat (word_of_nat (k + 1) :: 32 word) = k + 1"
    using assms(2) by (intro unat_Suc_length) simp
  then have "view_of ss (word_of_nat (k + 1)) = Some s" using k by (simp add: view_of_def)
  then show ?thesis ..
qed

lemma new_interner_rep: "interner_rep new_interner"
  by (simp add: interner_rep_def new_interner_def Let_def)

text \<open>The two ways a string gets in, \<open>Intern\<close> and loading, do the same to the maps.\<close>

lemma add_string_rep:
  assumes rep: "interner_rep it" and fresh: "s \<notin> set (string_storage it)"
    and room: "length (string_storage it) + 2 < 2 ^ 32"
    and it': "string_storage it' = string_storage it @ [s]"
      "string_to_id it' = emplace (string_to_id it) s (StringId (next_id it))"
      "id_to_view it' = emplace (id_to_view it) (next_id it) s"
      "next_id it' = next_id it + 1"
  shows "interner_rep it'"
proof -
  let ?ss = "string_storage it"
  have room': "length ?ss + 1 < 2 ^ 32" using room by simp
  have nid: "next_id it = word_of_nat (length ?ss + 1)"
    and views: "id_to_view it = view_of ?ss"
    and ids: "\<And>s sid. string_to_id it s = Some sid \<longleftrightarrow> view_of ?ss (sid_value sid) = Some s"
    and dist: "distinct ?ss"
    using rep by (auto simp: interner_rep_def Let_def)
  have no_id: "string_to_id it s = None"
    using ids fresh view_of_Some_mem by (metis not_None_eq)
  have view': "view_of (?ss @ [s]) = (view_of ?ss)(next_id it \<mapsto> s)"
    unfolding nid using room' by (rule view_of_snoc)
  have "id_to_view it' = view_of (?ss @ [s])"
    unfolding it'(3) view' views emplace_def
    using view_of_fresh [OF room'] by (simp add: nid)
  moreover have "string_to_id it' t = Some sid \<longleftrightarrow> view_of (?ss @ [s]) (sid_value sid) = Some t" for t sid
  proof -
    have "view_of ?ss (next_id it) = None" using view_of_fresh [OF room'] nid by simp
    moreover have "view_of ?ss i \<noteq> Some s" for i using fresh view_of_Some_mem by metis
    ultimately show ?thesis
      unfolding it'(2) view' using no_id ids [of t sid]
      by (cases sid) (auto simp: emplace_def)
  qed
  moreover have "next_id it' = word_of_nat (length (?ss @ [s]) + 1)"
    by (simp add: it'(4) nid)
  ultimately show ?thesis
    using dist fresh room by (simp add: interner_rep_def Let_def it'(1))
qed

lemma entries_of_snoc:
  "entries_of (ss @ [s]) = entries_of ss @ disk_entry (word_of_nat (length ss + 1)) s"
  by (auto simp: entries_of_def nth_append intro!: arg_cong [where f = concat] map_cong)

lemma Intern_old:
  assumes "interner_rep it" "s \<in> set (string_storage it)"
  obtains sid where "Intern it s = (VString sid, it)" "id_to_view it (sid_value sid) = Some s"
proof -
  have room: "length (string_storage it) + 1 < 2 ^ 32" using assms(1) by (simp add: interner_rep_def Let_def)
  obtain i where i: "view_of (string_storage it) i = Some s" using mem_view_of [OF assms(2) room] ..
  then have "string_to_id it s = Some (StringId i)" "id_to_view it i = Some s"
    using assms(1) by (simp_all add: interner_rep_def Let_def)
  then show thesis using that [of "StringId i"] by (simp add: Intern_def)
qed

lemma Intern_new:
  assumes "interner_rep it" "s \<notin> set (string_storage it)"
  shows "Intern it s = (VString (StringId (next_id it)),
      it\<lparr>next_id := next_id it + 1,
         storage_file := (if storage_open it then storage_file it @ disk_entry (next_id it) s
                          else storage_file it),
         string_storage := string_storage it @ [s],
         string_to_id := emplace (string_to_id it) s (StringId (next_id it)),
         id_to_view := emplace (id_to_view it) (next_id it) s\<rparr>)"
proof -
  have "string_to_id it s = None"
    using assms view_of_Some_mem by (metis interner_rep_def not_None_eq)
  then show ?thesis by (simp add: Intern_def Let_def AppendToDisk_def)
qed

lemma Intern_rep:
  assumes "interner_rep it" "length (string_storage it) + 2 < 2 ^ 32"
  shows "interner_rep (snd (Intern it s))"
proof (cases "s \<in> set (string_storage it)")
  case True
  then show ?thesis using Intern_old [OF assms(1)] assms(1) by (metis snd_conv)
next
  case False
  show ?thesis
    by (rule add_string_rep [OF assms(1) False assms(2)])
       (simp_all add: Intern_new [OF assms(1) False])
qed

lemma Intern_persisted:
  assumes "interner_rep it" "persisted it" "length s < 2 ^ 64"
  shows "persisted (snd (Intern it s))"
proof (cases "s \<in> set (string_storage it)")
  case True
  then show ?thesis using Intern_old [OF assms(1)] assms(2) by (metis snd_conv)
next
  case False
  have "next_id it = word_of_nat (length (string_storage it) + 1)"
    using assms(1) by (simp add: interner_rep_def Let_def)
  then show ?thesis
    using assms(2,3) by (simp add: Intern_new [OF assms(1) False] persisted_def entries_of_snoc)
qed

lemma Intern_views:
  assumes "interner_rep it" "length (string_storage it) + 2 < 2 ^ 32"
  shows "\<exists>sid. fst (Intern it s) = VString sid \<and> View (snd (Intern it s)) sid = Inr s"
    and "View it i = Inr t \<Longrightarrow> View (snd (Intern it s)) i = Inr t"
proof -
  have fresh: "id_to_view it (next_id it) = None"
    using assms view_of_fresh by (simp add: interner_rep_def Let_def)
  show "\<exists>sid. fst (Intern it s) = VString sid \<and> View (snd (Intern it s)) sid = Inr s"
  proof (cases "s \<in> set (string_storage it)")
    case True
    then show ?thesis using Intern_old [OF assms(1)] by (metis View_def fst_conv option.simps(5) snd_conv)
  next
    case False
    then show ?thesis using fresh by (simp add: Intern_new [OF assms(1)] View_def emplace_def)
  qed
  show "View (snd (Intern it s)) i = Inr t" if "View it i = Inr t"
  proof (cases "s \<in> set (string_storage it)")
    case True
    then show ?thesis using Intern_old [OF assms(1)] that by (metis snd_conv)
  next
    case False
    then show ?thesis
      using that fresh
      by (auto simp: Intern_new [OF assms(1)] View_def emplace_def split: option.splits)
  qed
qed

section \<open>Reloading the file\<close>

lemma load_loop_Nil [simp]: "load_loop it [] = Inr it"
  by (simp add: load_loop.simps read_u32_def read_bytes_def)

lemma load_loop_entry:
  assumes "length s < 2 ^ 64"
  shows "load_loop it (disk_entry sid s @ rest) = load_loop (AddLoadedString it sid s) rest"
proof -
  have "unat (word_of_nat (length s) :: 64 word) = length s" using assms by (simp add: unat_of_nat)
  then show ?thesis
    by (subst load_loop.simps) (simp add: disk_entry_def read_bytes_append)
qed

lemma load_entries:
  assumes "distinct ss" "length ss + 1 < 2 ^ 32" "\<forall>s \<in> set ss. length s < 2 ^ 64"
    and "interner_rep it" "string_storage it = []"
  shows "\<exists>it'. load_loop it (entries_of ss @ rest) = load_loop it' rest \<and> interner_rep it' \<and>
    string_storage it' = ss \<and> storage_file it' = storage_file it \<and> storage_open it' = storage_open it"
  using assms
proof (induction ss arbitrary: rest rule: rev_induct)
  case Nil
  then show ?case by (auto simp: entries_of_def)
next
  case (snoc s ss)
  let ?e = "disk_entry (word_of_nat (length ss + 1)) s"
  obtain it' where it': "load_loop it (entries_of ss @ ?e @ rest) = load_loop it' (?e @ rest)"
    "interner_rep it'" "string_storage it' = ss" "storage_file it' = storage_file it"
    "storage_open it' = storage_open it"
    using snoc.IH [of "?e @ rest"] snoc.prems by auto
  have nid: "next_id it' = word_of_nat (length ss + 1)"
    using it'(2,3) by (simp add: interner_rep_def Let_def)
  let ?it = "AddLoadedString it' (next_id it') s"
  have step: "load_loop it (entries_of (ss @ [s]) @ rest) = load_loop ?it rest"
    using it'(1) snoc.prems(3) by (simp add: entries_of_snoc load_loop_entry nid)
  have n1: "unat (next_id it') = length ss + 1"
    unfolding nid using snoc.prems(2) by (intro unat_Suc_length) simp
  have "unat (next_id it' + 1) = length ss + 2"
    using snoc.prems(2) n1 by (simp add: unat_word_ariths)
  then have "max (next_id it') (next_id it' + 1) = next_id it' + 1"
    using n1 by (simp add: max_def word_le_nat_alt)
  then have "interner_rep ?it"
    using snoc.prems it' by (intro add_string_rep [OF it'(2)]) (simp_all add: AddLoadedString_def)
  then show ?case
    using step it' by (intro exI [of _ ?it]) (simp add: AddLoadedString_def)
qed

lemma rep_maps_determined:
  assumes "interner_rep a" "interner_rep b" "string_storage a = string_storage b"
  shows "string_to_id a = string_to_id b" "id_to_view a = id_to_view b" "next_id a = next_id b"
proof -
  show "id_to_view a = id_to_view b" "next_id a = next_id b"
    using assms by (simp_all add: interner_rep_def Let_def)
  show "string_to_id a = string_to_id b"
  proof
    fix s
    have "string_to_id a s = Some sid \<longleftrightarrow> string_to_id b s = Some sid" for sid
      using assms by (simp add: interner_rep_def Let_def)
    then show "string_to_id a s = string_to_id b s" by (metis not_None_eq)
  qed
qed

lemma reload_persisted:
  assumes "interner_rep it" "persisted it"
  shows "UseStorage it0 (Some (storage_file it)) = Inr it"
proof -
  let ?ss = "string_storage it"
  define start where "start = \<lparr>string_storage = [], string_to_id = Map.empty, id_to_view = Map.empty,
    storage_file = storage_file it, storage_open = True, next_id = 1\<rparr>"
  have start: "interner_rep start" "string_storage start = []"
    by (simp_all add: start_def interner_rep_def Let_def)
  have ss: "distinct ?ss" "length ?ss + 1 < 2 ^ 32" "\<forall>s \<in> set ?ss. length s < 2 ^ 64"
    using assms by (auto simp: interner_rep_def Let_def persisted_def)
  have disk: "storage_file it = entries_of ?ss @ []" using assms(2) by (simp add: persisted_def)
  obtain it' where it': "load_loop start (entries_of ?ss @ []) = load_loop it' []" "interner_rep it'"
    "string_storage it' = ?ss" "storage_file it' = storage_file start" "storage_open it' = storage_open start"
    using load_entries [OF ss start, of "[]"] by blast
  have "storage_open it" using assms(2) by (simp add: persisted_def)
  then have "it' = it"
    using rep_maps_determined [OF it'(2) assms(1) it'(3)] it'(3-5)
    by (simp add: start_def interner.equality)
  moreover have "UseStorage it0 (Some (storage_file it)) = load_loop start (storage_file it)"
    by (cases it0) (simp add: UseStorage_def LoadStorage_def Close_def start_def)
  ultimately show ?thesis using it'(1) disk by simp
qed

lemma Intern_length:
  assumes "interner_rep it"
  shows "length (string_storage (snd (Intern it s))) \<le> length (string_storage it) + 1"
proof (cases "s \<in> set (string_storage it)")
  case True
  then obtain sid where "Intern it s = (VString sid, it)" using Intern_old [OF assms] by metis
  then show ?thesis by simp
next
  case False
  then show ?thesis using Intern_new [OF assms] by simp
qed

lemma Intern_maps:
  assumes "interner_rep it" "length (string_storage it) + 2 < 2 ^ 32"
  shows "\<exists>sid. string_to_id (snd (Intern it s)) s = Some sid \<and> View (snd (Intern it s)) sid = Inr s"
proof -
  let ?it = "snd (Intern it s)"
  obtain sid where "View ?it sid = Inr s" using Intern_views(1) [OF assms, of s] by blast
  then have v: "id_to_view ?it (sid_value sid) = Some s" by (simp add: View_def split: option.splits)
  then have "string_to_id ?it s = Some sid"
    using Intern_rep [OF assms, of s] by (simp add: interner_rep_def Let_def)
  with v show ?thesis by (simp add: View_def)
qed

lemma string_to_id_iff:
  "interner_rep it \<Longrightarrow> string_to_id it s = Some sid \<longleftrightarrow> View it sid = Inr s"
  by (auto simp: interner_rep_def Let_def View_def split: option.splits)

text \<open>Interning a list of strings, one after the other.\<close>

lemma interned_all:
  assumes "interner_rep it" "persisted it"
    and "length (string_storage it) + length ss + 1 < 2 ^ 32" "\<forall>s \<in> set ss. length s < 2 ^ 64"
  shows "interner_rep (fold (\<lambda>s i. snd (Intern i s)) ss it)"
    and "persisted (fold (\<lambda>s i. snd (Intern i s)) ss it)"
    and "\<forall>s \<in> set ss. \<exists>sid. string_to_id (fold (\<lambda>s i. snd (Intern i s)) ss it) s = Some sid \<and>
      View (fold (\<lambda>s i. snd (Intern i s)) ss it) sid = Inr s"
    and "\<forall>sid t. View it sid = Inr t \<longrightarrow> View (fold (\<lambda>s i. snd (Intern i s)) ss it) sid = Inr t"
proof -
  let ?add = "\<lambda>s i. snd (Intern i s)"
  have "interner_rep (fold ?add ss it) \<and> persisted (fold ?add ss it) \<and>
    (\<forall>s \<in> set ss. \<exists>sid. string_to_id (fold ?add ss it) s = Some sid \<and> View (fold ?add ss it) sid = Inr s) \<and>
    (\<forall>sid t. View it sid = Inr t \<longrightarrow> View (fold ?add ss it) sid = Inr t)"
    using assms
  proof (induction ss arbitrary: it)
    case (Cons s ss)
    let ?it = "?add s it"
    have room: "length (string_storage it) + 2 < 2 ^ 32" using Cons.prems(3) by simp
    have "length (string_storage ?it) + length ss + 1 < 2 ^ 32"
      using Intern_length [OF Cons.prems(1), of s] Cons.prems(3) by simp
    then have IH: "interner_rep (fold ?add ss ?it) \<and> persisted (fold ?add ss ?it) \<and>
      (\<forall>s \<in> set ss. \<exists>sid. string_to_id (fold ?add ss ?it) s = Some sid \<and> View (fold ?add ss ?it) sid = Inr s) \<and>
      (\<forall>sid t. View ?it sid = Inr t \<longrightarrow> View (fold ?add ss ?it) sid = Inr t)"
      using Cons.prems by (intro Cons.IH Intern_rep [OF _ room] Intern_persisted) simp_all
    obtain sid where "View ?it sid = Inr s" using Intern_maps [OF Cons.prems(1) room, of s] by blast
    then have "View (fold ?add ss ?it) sid = Inr s" using IH by blast
    then have "\<exists>sid. string_to_id (fold ?add ss ?it) s = Some sid \<and> View (fold ?add ss ?it) sid = Inr s"
      using IH string_to_id_iff by blast
    moreover have "\<forall>sid t. View it sid = Inr t \<longrightarrow> View (fold ?add ss ?it) sid = Inr t"
      using IH Intern_views(2) [OF Cons.prems(1) room] by blast
    ultimately show ?case using IH by simp
  qed simp
  then show "interner_rep (fold ?add ss it)" "persisted (fold ?add ss it)"
    "\<forall>s \<in> set ss. \<exists>sid. string_to_id (fold ?add ss it) s = Some sid \<and> View (fold ?add ss it) sid = Inr s"
    "\<forall>sid t. View it sid = Inr t \<longrightarrow> View (fold ?add ss it) sid = Inr t"
    by blast+
qed

end
