(* ===== verification/Record_Codec.thy ===== *)
theory Record_Codec
  imports Interning
begin

text \<open>
  Values and records as bytes: \<open>apps/storage/src/serializer.cpp\<close> and
  \<open>apps/storage/src/record.cpp\<close>. A record is its identifier, its values in column order and,
  once stored, its address. A pointer into a buffer is the list of the bytes from there on.
\<close>

section \<open>Values\<close>

text \<open>\<open>StoredType\<close>: the tag byte before a value.\<close>

definition tag_null :: byte where "tag_null = 0"
definition tag_int :: byte where "tag_int = 1"
definition tag_string :: byte where "tag_string = 2"

lemmas tag_defs = tag_null_def tag_int_def tag_string_def

fun SerializedSize :: "sql_value \<Rightarrow> 32 word" where
  "SerializedSize VNull = 1"
| "SerializedSize (VInt _) = 1 + 4"
| "SerializedSize (VString _) = 1 + 4"

fun AppendValueToBuffer :: "sql_value \<Rightarrow> byte list \<Rightarrow> byte list" where
  "AppendValueToBuffer VNull buffer = buffer @ [tag_null]"
| "AppendValueToBuffer (VInt i) buffer = buffer @ tag_int # enc32 i"
| "AppendValueToBuffer (VString s) buffer = buffer @ tag_string # enc32 (sid_value s)"

definition past_buffer :: exn where
  "past_buffer = Undefined_Behaviour ''read past the buffer''"

text \<open>\<open>ReadValue\<close> returns the value and the advanced pointer.\<close>

definition ReadValue :: "byte list \<Rightarrow> interner \<Rightarrow> (sql_value \<times> byte list) result" where
  "ReadValue data it =
     (case read_u8 data of
        None \<Rightarrow> Inl past_buffer
      | Some (tag, rest) \<Rightarrow>
          if tag = tag_null then Inr (VNull, rest)
          else if tag = tag_int then
            (case read_u32 rest of None \<Rightarrow> Inl past_buffer | Some (w, r) \<Rightarrow> Inr (VInt w, r))
          else if tag = tag_string then
            (case read_u32 rest of
               None \<Rightarrow> Inl past_buffer
             | Some (w, r) \<Rightarrow> rbind (Get it (StringId w)) (\<lambda>v. Inr (v, r)))
          else Inl (Runtime_Error
            ''[ERROR in qdb::storage::ReadValue]: Unknown serialized value type!''))"

text \<open>The strings of a value are known to the interner.\<close>

fun known_value :: "interner \<Rightarrow> sql_value \<Rightarrow> bool" where
  "known_value it (VString s) = (id_to_view it (sid_value s) \<noteq> None)"
| "known_value it _ = True"

lemma AppendValueToBuffer_append:
  "AppendValueToBuffer v buffer = buffer @ AppendValueToBuffer v []"
  by (cases v) simp_all

lemma ReadValue_Append [simp]:
  assumes "known_value it v"
  shows "ReadValue (AppendValueToBuffer v [] @ rest) it = Inr (v, rest)"
  using assms
  by (cases v) (auto simp: ReadValue_def tag_defs Get_def View_def split: option.splits)

lemma length_AppendValue: "length (AppendValueToBuffer v []) = unat (SerializedSize v)"
  by (cases v) simp_all

section \<open>Records\<close>

record record_address =
  page_index :: "32 word"
  slot_idx :: "32 word"

record db_record =
  rec_id :: "32 word"
  rec_fields :: "sql_value list"
  rec_addr :: "record_address option"

text \<open>The three constructors; the first makes a record of \<open>NULL\<close>s.\<close>

definition blank_record :: "32 word \<Rightarrow> 32 word \<Rightarrow> db_record result" where
  "blank_record rid values_count =
     (if values_count = 0 then
        Inl (Runtime_Error ''[ERROR in qdb::storage::Record]: Record cannot have 0 columns!'')
      else Inr \<lparr>rec_id = rid, rec_fields = replicate (unat values_count) VNull, rec_addr = None\<rparr>)"

definition mk_record :: "32 word \<Rightarrow> sql_value list \<Rightarrow> db_record" where
  "mk_record rid vs = \<lparr>rec_id = rid, rec_fields = vs, rec_addr = None\<rparr>"

definition Address :: "db_record \<Rightarrow> record_address result" where
  "Address r =
     (case rec_addr r of
        Some a \<Rightarrow> Inr a
      | None \<Rightarrow> Inl (Runtime_Error ''[ERROR in qdb::storage::Record]: Record has not address!''))"

definition SetAddress :: "db_record \<Rightarrow> record_address \<Rightarrow> db_record" where
  "SetAddress r a = r\<lparr>rec_addr := Some a\<rparr>"

definition HasAddress :: "db_record \<Rightarrow> bool" where
  "HasAddress r \<longleftrightarrow> rec_addr r \<noteq> None"

text \<open>\<open>record[index]\<close>: the unchecked access of the vector.\<close>

definition field_of :: "db_record \<Rightarrow> nat \<Rightarrow> sql_value result" where
  "field_of r i = (if i < length (rec_fields r) then Inr (rec_fields r ! i)
     else Inl (Undefined_Behaviour ''vector index''))"

definition Record_SerializedSize :: "db_record \<Rightarrow> 32 word" where
  "Record_SerializedSize r = fold (\<lambda>v acc. acc + SerializedSize v) (rec_fields r) 0"

definition Serialize :: "db_record \<Rightarrow> byte list result" where
  "Serialize r =
     (let data_v = fold AppendValueToBuffer (rec_fields r) []
      in rassert (length data_v = unat (Record_SerializedSize r)) ''data_v.size() == result_size''
           (Inr data_v))"

text \<open>
  \<open>Record::operator==\<close>: same number of fields, fields equal by \<open>StrictEq\<close>, same identifier and
  rec_addr.
\<close>

definition record_eq :: "db_record \<Rightarrow> db_record \<Rightarrow> bool" where
  "record_eq a b \<longleftrightarrow>
     length (rec_fields a) = length (rec_fields b) \<and>
     list_all2 StrictEq (rec_fields a) (rec_fields b) \<and> rec_id a = rec_id b \<and> rec_addr a = rec_addr b"

fun read_values :: "nat \<Rightarrow> byte list \<Rightarrow> interner \<Rightarrow> (sql_value list \<times> byte list) result" where
  "read_values 0 data it = Inr ([], data)"
| "read_values (Suc n) data it =
     rbind (ReadValue data it) (\<lambda>(v, rest).
       rbind (read_values n rest it) (\<lambda>(vs, rest'). Inr (v # vs, rest')))"

text \<open>\<open>FromBinary\<close> reads one value per column of the schema and compares the distance read.\<close>

definition FromBinary ::
  "byte list \<Rightarrow> 32 word \<Rightarrow> 32 word \<Rightarrow> nat \<Rightarrow> interner \<Rightarrow> db_record result" where
  "FromBinary data sz rid schema_size it =
     rbind (read_values schema_size data it) (\<lambda>(vs, rest).
       if length data - length rest \<noteq> unat sz then
         Inl (Runtime_Error ''[ERROR in qdb::storage::Record]: Read data and size are mismatch!'')
       else Inr (mk_record rid vs))"

section \<open>Round trip\<close>

definition payload :: "sql_value list \<Rightarrow> byte list" where
  "payload vs = concat (map (\<lambda>v. AppendValueToBuffer v []) vs)"

lemma payload_simps [simp]:
  "payload [] = []" "payload (v # vs) = AppendValueToBuffer v [] @ payload vs"
  by (simp_all add: payload_def)

lemma fold_AppendValue: "fold AppendValueToBuffer vs buffer = buffer @ payload vs"
proof (induction vs arbitrary: buffer)
  case Nil
  then show ?case by simp
next
  case (Cons v vs)
  show ?case using Cons.IH [of "AppendValueToBuffer v buffer"]
    by (simp add: AppendValueToBuffer_append [of v buffer])
qed

lemma length_AppendValue_le: "length (AppendValueToBuffer v []) \<le> 5"
  by (cases v) simp_all

lemma length_payload: "length (payload vs) \<le> 5 * length vs"
proof (induction vs)
  case (Cons v vs)
  then show ?case using length_AppendValue_le [of v] by simp
qed simp

lemma fold_size:
  "fold (\<lambda>v acc. acc + SerializedSize v) vs acc = acc + word_of_nat (length (payload vs))"
proof (induction vs arbitrary: acc)
  case Nil
  then show ?case by simp
next
  case (Cons v vs)
  have "(word_of_nat (length (AppendValueToBuffer v [])) :: 32 word) = SerializedSize v"
    by (simp add: length_AppendValue)
  then show ?case by (simp add: Cons.IH add.assoc)
qed

lemma Record_SerializedSize_payload:
  "Record_SerializedSize r = word_of_nat (length (payload (rec_fields r)))"
  by (simp add: Record_SerializedSize_def fold_size)

lemma Serialize_payload:
  assumes "length (payload (rec_fields r)) < 2 ^ 32"
  shows "Serialize r = Inr (payload (rec_fields r))"
  using assms
  by (simp add: Serialize_def Let_def fold_AppendValue Record_SerializedSize_payload unat_of_nat)

lemma read_values_payload:
  assumes "\<forall>v \<in> set vs. known_value it v"
  shows "read_values (length vs) (payload vs @ rest) it = Inr (vs, rest)"
  using assms by (induction vs) simp_all

lemma FromBinary_payload:
  assumes "\<forall>v \<in> set vs. known_value it v"
    and "length (payload vs) < 2 ^ 32"
  shows "FromBinary (payload vs @ rest) (word_of_nat (length (payload vs))) rid (length vs) it
    = Inr (mk_record rid vs)"
  using assms by (simp add: FromBinary_def read_values_payload unat_of_nat)

text \<open>What was interned stays known: reading back survives later strings.\<close>

lemma known_value_Intern:
  assumes "interner_rep it" "length (string_storage it) + 2 < 2 ^ 32" "known_value it v"
  shows "known_value (snd (Intern it s)) v"
proof (cases v)
  case (VString i)
  with assms(3) obtain t where "View it i = Inr t" by (auto simp: View_def)
  with Intern_views(2) [OF assms(1,2)] have "View (snd (Intern it s)) i = Inr t" by blast
  with VString show ?thesis by (auto simp: View_def split: option.splits)
qed simp_all

end
