(* ===== verification/Schema_Codec.thy ===== *)
theory Schema_Codec
  imports Record_Codec
begin

unbundle bit_operations_syntax

text \<open>
  Columns and the schema of a table, \<open>apps/storage/src/column.cpp\<close> and
  \<open>apps/storage/src/schema.cpp\<close>, with the binary form kept in the \<open>.schema\<close> file. A reader returns
  \<open>Inr None\<close> where the code returns \<open>std::nullopt\<close> and \<open>Inl\<close> where a constructor throws.
\<close>

section \<open>Columns\<close>

text \<open>
  \<open>ColumnType\<close> is an unscoped enum over \<open>uint8_t\<close> that \<open>FromBinary\<close> fills from the file without
  checking it, so a column may carry any byte.
\<close>

datatype column_type = INT_COLUMN | STRING_COLUMN | OTHER_COLUMN byte

definition column_type_of_byte :: "byte \<Rightarrow> column_type" where
  "column_type_of_byte b =
     (if b = 0 then INT_COLUMN else if b = 1 then STRING_COLUMN else OTHER_COLUMN b)"

fun byte_of_column_type :: "column_type \<Rightarrow> byte" where
  "byte_of_column_type INT_COLUMN = 0"
| "byte_of_column_type STRING_COLUMN = 1"
| "byte_of_column_type (OTHER_COLUMN b) = b"

datatype default_type = DEFAULT_NONE | DEFAULT_NULL | DEFAULT_INT | DEFAULT_STRING

fun byte_of_default_type :: "default_type \<Rightarrow> byte" where
  "byte_of_default_type DEFAULT_NONE = 0"
| "byte_of_default_type DEFAULT_NULL = 1"
| "byte_of_default_type DEFAULT_INT = 2"
| "byte_of_default_type DEFAULT_STRING = 3"

record column =
  col_name :: string
  col_type :: column_type
  col_flags :: byte
  col_default :: default_type
  col_default_int :: "32 word"
  col_default_string :: string

definition NOT_NULL_FLAG :: byte where "NOT_NULL_FLAG = 1"
definition INDEXED_FLAG :: byte where "INDEXED_FLAG = 2"
definition MAX_SERIALIZED_STRING_SIZE :: nat where "MAX_SERIALIZED_STRING_SIZE = 1024 * 1024"

definition Column_IsInt :: "column \<Rightarrow> bool" where
  "Column_IsInt c \<longleftrightarrow> col_type c = INT_COLUMN"

definition Column_IsString :: "column \<Rightarrow> bool" where
  "Column_IsString c \<longleftrightarrow> col_type c = STRING_COLUMN"

definition IsNotNull :: "column \<Rightarrow> bool" where
  "IsNotNull c \<longleftrightarrow> col_flags c AND NOT_NULL_FLAG \<noteq> 0"

definition IsIndexed :: "column \<Rightarrow> bool" where
  "IsIndexed c \<longleftrightarrow> col_flags c AND INDEXED_FLAG \<noteq> 0"

definition HasDefault :: "column \<Rightarrow> bool" where
  "HasDefault c \<longleftrightarrow> col_default c \<noteq> DEFAULT_NONE"

definition column_error :: "column \<Rightarrow> string \<Rightarrow> string" where
  "column_error c what =
     ''[ERROR in qdb::storage::Column]: Column '' @ quoted (col_name c) @ what"

definition ValidateDefault :: "column \<Rightarrow> unit result" where
  "ValidateDefault c =
     (case col_default c of
        DEFAULT_NONE \<Rightarrow> Inr ()
      | DEFAULT_NULL \<Rightarrow>
          if IsNotNull c then
            Inl (Invalid_Argument (column_error c '' cannot have DEFAULT NULL and NOT_NULL!''))
          else Inr ()
      | DEFAULT_INT \<Rightarrow>
          if \<not> Column_IsInt c then
            Inl (Invalid_Argument (column_error c '' expects STRING default!''))
          else Inr ()
      | DEFAULT_STRING \<Rightarrow>
          if \<not> Column_IsString c then
            Inl (Invalid_Argument (column_error c '' expects INT default!''))
          else Inr ())"

text \<open>The constructor: an indexed column is made \<open>NOT_NULL\<close>, then the default is checked.\<close>

definition mk_column ::
  "string \<Rightarrow> column_type \<Rightarrow> byte \<Rightarrow> default_type \<Rightarrow> 32 word \<Rightarrow> string \<Rightarrow> column result" where
  "mk_column name ty flags dt di ds =
     (let flags' = (if flags AND INDEXED_FLAG \<noteq> 0 then flags OR NOT_NULL_FLAG else flags);
          c = \<lparr>col_name = name, col_type = ty, col_flags = flags', col_default = dt,
               col_default_int = di, col_default_string = ds\<rparr>
      in rbind (ValidateDefault c) (\<lambda>_. Inr c))"

definition DefaultValue :: "column \<Rightarrow> interner \<Rightarrow> (sql_value \<times> interner) result" where
  "DefaultValue c it =
     (case col_default c of
        DEFAULT_NULL \<Rightarrow> Inr (VNull, it)
      | DEFAULT_INT \<Rightarrow> Inr (VInt (col_default_int c), it)
      | DEFAULT_STRING \<Rightarrow> Inr (Intern it (col_default_string c))
      | DEFAULT_NONE \<Rightarrow>
          Inl (Runtime_Error (column_error c '' does not have DEFAULT value!'')))"

text \<open>\<open>Column::ToBinary\<close>: the bytes written, or \<open>None\<close> where it returns \<open>false\<close>.\<close>

definition Column_ToBinary :: "column \<Rightarrow> byte list option" where
  "Column_ToBinary c =
     (let head = enc32 (word_of_nat (length (col_name c))) @ bytes_of (col_name c)
        @ [byte_of_column_type (col_type c), col_flags c, byte_of_default_type (col_default c)]
      in case col_default c of
           DEFAULT_INT \<Rightarrow> Some (head @ enc32 (col_default_int c))
         | DEFAULT_STRING \<Rightarrow>
             if length (col_default_string c) > MAX_SERIALIZED_STRING_SIZE then None
             else Some (head @ enc32 (word_of_nat (length (col_default_string c)))
                        @ bytes_of (col_default_string c))
         | _ \<Rightarrow> Some head)"

text \<open>
  \<open>Column::FromBinary\<close>. \<open>read_string\<close> is its repeated pattern: a 32-bit length, refused beyond
  1 MiB, then that many characters.
\<close>

definition read_string :: "byte list \<Rightarrow> (string \<times> byte list) option" where
  "read_string s =
     (case read_u32 s of
        None \<Rightarrow> None
      | Some (len, s1) \<Rightarrow>
          if unat len > MAX_SERIALIZED_STRING_SIZE then None
          else map_option (\<lambda>(b, r). (string_of b, r)) (read_bytes (unat len) s1))"

definition read_default :: "byte \<Rightarrow> byte list \<Rightarrow> (default_type \<times> 32 word \<times> string \<times> byte list) option" where
  "read_default dt s =
     (if dt = 2 then map_option (\<lambda>(w, r). (DEFAULT_INT, w, '''', r)) (read_u32 s)
      else if dt = 3 then map_option (\<lambda>(t, r). (DEFAULT_STRING, 0, t, r)) (read_string s)
      else if dt = 0 then Some (DEFAULT_NONE, 0, '''', s)
      else if dt = 1 then Some (DEFAULT_NULL, 0, '''', s)
      else None)"

definition Column_FromBinary :: "byte list \<Rightarrow> (column \<times> byte list) option result" where
  "Column_FromBinary s =
     (case read_string s of
        None \<Rightarrow> Inr None
      | Some (name, s1) \<Rightarrow>
          (case read_bytes 3 s1 of
             Some ([ty, flags, dt], s2) \<Rightarrow>
               (case read_default dt s2 of
                  None \<Rightarrow> Inr None
                | Some (d, di, ds, s3) \<Rightarrow>
                    rmap (\<lambda>c. Some (c, s3))
                      (mk_column name (column_type_of_byte ty) flags d di ds))
           | _ \<Rightarrow> Inr None))"

section \<open>The schema\<close>

record schema =
  columns :: "column list"
  record_id_count :: "32 word"

definition mk_schema :: "column list \<Rightarrow> 32 word \<Rightarrow> schema result" where
  "mk_schema cs n =
     (if distinct (map col_name cs) then Inr \<lparr>columns = cs, record_id_count = n\<rparr>
      else Inl (Runtime_Error ''[ERROR in qdb::storage::Schema]: Columns can`t have same names!''))"

definition IncrementRecordIdCount :: "schema \<Rightarrow> schema" where
  "IncrementRecordIdCount sc = sc\<lparr>record_id_count := record_id_count sc + 1\<rparr>"

definition DecrementRecordIdCount :: "schema \<Rightarrow> schema" where
  "DecrementRecordIdCount sc = sc\<lparr>record_id_count := record_id_count sc - 1\<rparr>"

fun column_index_from :: "int \<Rightarrow> column list \<Rightarrow> string \<Rightarrow> int" where
  "column_index_from i [] name = -1"
| "column_index_from i (c # cs) name =
     (if col_name c = name then i else column_index_from (i + 1) cs name)"

definition ColumnIndex :: "schema \<Rightarrow> string \<Rightarrow> int" where
  "ColumnIndex sc name = column_index_from 0 (columns sc) name"

definition SCHEMA_HEADER :: string where "SCHEMA_HEADER = ''SCHEMA''"

fun columns_to_binary :: "column list \<Rightarrow> byte list option" where
  "columns_to_binary [] = Some []"
| "columns_to_binary (c # cs) =
     (case Column_ToBinary c of
        None \<Rightarrow> None
      | Some b \<Rightarrow> map_option (\<lambda>r. b @ r) (columns_to_binary cs))"

definition Schema_ToBinary :: "schema \<Rightarrow> byte list option" where
  "Schema_ToBinary sc =
     map_option
       (\<lambda>body. bytes_of SCHEMA_HEADER @ enc32 (record_id_count sc)
                @ enc32 (word_of_nat (length (columns sc))) @ body)
       (columns_to_binary (columns sc))"

fun read_columns :: "nat \<Rightarrow> byte list \<Rightarrow> (column list \<times> byte list) option result" where
  "read_columns 0 s = Inr (Some ([], s))"
| "read_columns (Suc n) s =
     (case Column_FromBinary s of
        Inl e \<Rightarrow> Inl e
      | Inr None \<Rightarrow> Inr None
      | Inr (Some (c, s1)) \<Rightarrow>
          rmap (map_option (\<lambda>(cs, r). (c # cs, r))) (read_columns n s1))"

definition Schema_FromBinary :: "byte list \<Rightarrow> schema option result" where
  "Schema_FromBinary s =
     (case read_bytes (length SCHEMA_HEADER) s of
        None \<Rightarrow> Inr None
      | Some (h, s1) \<Rightarrow>
          if h \<noteq> bytes_of SCHEMA_HEADER then Inr None
          else (case read_u32 s1 of
            None \<Rightarrow> Inr None
          | Some (count, s2) \<Rightarrow>
              (case read_u32 s2 of
                 None \<Rightarrow> Inr None
               | Some (len, s3) \<Rightarrow>
                   if unat len > 1024 * 1024 then Inr None
                   else rbind (read_columns (unat len) s3)
                     (\<lambda>r. case r of None \<Rightarrow> Inr None
                         | Some (cs, _) \<Rightarrow> rmap Some (mk_schema cs count)))))"

section \<open>Well-formed columns\<close>

text \<open>
  What the constructor establishes, and the two facts it leaves to its callers: the unused part of
  the default is empty, and the name is short enough to be read back.
\<close>

definition column_checked :: "column \<Rightarrow> bool" where
  "column_checked c \<longleftrightarrow> (IsIndexed c \<longrightarrow> IsNotNull c) \<and> ValidateDefault c = Inr ()"

definition column_storable :: "column \<Rightarrow> bool" where
  "column_storable c \<longleftrightarrow>
     length (col_name c) \<le> MAX_SERIALIZED_STRING_SIZE \<and>
     length (col_default_string c) \<le> MAX_SERIALIZED_STRING_SIZE \<and>
     (col_default c \<noteq> DEFAULT_INT \<longrightarrow> col_default_int c = 0) \<and>
     (col_default c \<noteq> DEFAULT_STRING \<longrightarrow> col_default_string c = '''') \<and>
     (\<forall>b. col_type c = OTHER_COLUMN b \<longrightarrow> b \<noteq> 0 \<and> b \<noteq> 1)"

lemma not_null_flag_iff: "(f::byte) AND NOT_NULL_FLAG \<noteq> 0 \<longleftrightarrow> odd f"
  unfolding NOT_NULL_FLAG_def and_one_eq by (metis even_iff_mod_2_eq_zero)

lemma flag_or_not_null: "((f::byte) OR NOT_NULL_FLAG) AND NOT_NULL_FLAG \<noteq> 0"
  unfolding not_null_flag_iff by (simp add: NOT_NULL_FLAG_def even_or_iff)

lemma not_null_flag_nz [simp]: "NOT_NULL_FLAG \<noteq> 0"
  by (simp add: NOT_NULL_FLAG_def)

lemma flag_or_indexed: "((f::byte) OR NOT_NULL_FLAG) AND INDEXED_FLAG = f AND INDEXED_FLAG"
  unfolding NOT_NULL_FLAG_def INDEXED_FLAG_def by (simp add: bit.conj_disj_distrib2)

lemma or_not_null_absorb:
  fixes f :: byte
  assumes "f AND NOT_NULL_FLAG \<noteq> 0"
  shows "f OR NOT_NULL_FLAG = f"
proof (rule bit_word_eqI)
  fix n
  have "odd f" using assms by (simp add: not_null_flag_iff)
  then show "bit (f OR NOT_NULL_FLAG) n = bit f n"
    by (auto simp: NOT_NULL_FLAG_def bit_or_iff bit_1_iff bit_0)
qed

lemma mk_column_checked:
  assumes "mk_column name ty flags dt di ds = Inr c"
  shows "column_checked c"
  using assms
  by (auto simp: mk_column_def Let_def result_iff column_checked_def IsIndexed_def IsNotNull_def
      flag_or_not_null flag_or_indexed split: if_splits)

lemma mk_column_again:
  assumes "column_checked c"
  shows "mk_column (col_name c) (col_type c) (col_flags c) (col_default c) (col_default_int c)
    (col_default_string c) = Inr c"
  using assms
  by (cases c) (auto simp: mk_column_def Let_def column_checked_def IsIndexed_def IsNotNull_def
      or_not_null_absorb)

lemma column_type_of_byte_of:
  "(\<And>b. t = OTHER_COLUMN b \<Longrightarrow> b \<noteq> 0 \<and> b \<noteq> 1) \<Longrightarrow> column_type_of_byte (byte_of_column_type t) = t"
  by (cases t) (auto simp: column_type_of_byte_def)

lemma read_string_written:
  assumes "length t \<le> MAX_SERIALIZED_STRING_SIZE"
  shows "read_string (enc32 (word_of_nat (length t)) @ bytes_of t @ rest) = Some (t, rest)"
proof -
  have "unat (word_of_nat (length t) :: 32 word) = length t"
    using assms by (simp add: unat_of_nat MAX_SERIALIZED_STRING_SIZE_def)
  then show ?thesis using assms by (simp add: read_string_def read_bytes_append)
qed

lemma Column_roundtrip:
  assumes checked: "column_checked c" and st: "column_storable c"
  shows "\<exists>b. Column_ToBinary c = Some b \<and> Column_FromBinary (b @ rest) = Inr (Some (c, rest))"
proof -
  let ?tags = "[byte_of_column_type (col_type c), col_flags c, byte_of_default_type (col_default c)]"
  define tail where "tail = (case col_default c of
      DEFAULT_INT \<Rightarrow> enc32 (col_default_int c)
    | DEFAULT_STRING \<Rightarrow> enc32 (word_of_nat (length (col_default_string c))) @ bytes_of (col_default_string c)
    | _ \<Rightarrow> [])"
  have written: "Column_ToBinary c =
      Some (enc32 (word_of_nat (length (col_name c))) @ bytes_of (col_name c) @ ?tags @ tail)"
    using st by (simp add: Column_ToBinary_def column_storable_def tail_def Let_def split: default_type.split)
  have dflt: "read_default (byte_of_default_type (col_default c)) (tail @ rest)
      = Some (col_default c, col_default_int c, col_default_string c, rest)"
    using st
    by (cases "col_default c")
       (simp_all add: read_default_def tail_def column_storable_def read_string_written)
  have type_ok: "column_type_of_byte (byte_of_column_type (col_type c)) = col_type c"
    using st by (intro column_type_of_byte_of) (auto simp: column_storable_def)
  have name: "read_string (enc32 (word_of_nat (length (col_name c))) @ bytes_of (col_name c) @ ?tags @ tail @ rest)
      = Some (col_name c, ?tags @ tail @ rest)"
    using st by (intro read_string_written) (simp add: column_storable_def)
  have tags: "read_bytes 3 (?tags @ tail @ rest) = Some (?tags, tail @ rest)"
    by (simp add: read_bytes_def numeral_3_eq_3)
  have "Column_FromBinary ((enc32 (word_of_nat (length (col_name c))) @ bytes_of (col_name c) @ ?tags @ tail) @ rest)
      = Inr (Some (c, rest))"
    unfolding Column_FromBinary_def append_assoc name option.case prod.case tags list.case dflt type_ok
      mk_column_again [OF checked] by simp
  with written show ?thesis by blast
qed

lemma columns_roundtrip:
  assumes "\<forall>c \<in> set cs. column_checked c \<and> column_storable c"
  shows "\<exists>b. columns_to_binary cs = Some b \<and> read_columns (length cs) (b @ rest) = Inr (Some (cs, rest))"
  using assms
proof (induction cs)
  case Nil
  then show ?case by simp
next
  case (Cons c cs)
  then obtain b where b: "columns_to_binary cs = Some b"
    "read_columns (length cs) (b @ rest) = Inr (Some (cs, rest))" by auto
  obtain h where "Column_ToBinary c = Some h" "Column_FromBinary (h @ b @ rest) = Inr (Some (c, b @ rest))"
    using Column_roundtrip [of c "b @ rest"] Cons.prems by auto
  with b show ?case by simp
qed

definition schema_wf :: "schema \<Rightarrow> bool" where
  "schema_wf sc \<longleftrightarrow> distinct (map col_name (columns sc)) \<and> length (columns sc) \<le> 1024 * 1024 \<and>
     (\<forall>c \<in> set (columns sc). column_checked c \<and> column_storable c)"

lemma Schema_reload:
  assumes "schema_wf sc"
  shows "\<exists>b. Schema_ToBinary sc = Some b \<and> Schema_FromBinary b = Inr (Some sc)"
proof -
  obtain b where b: "columns_to_binary (columns sc) = Some b"
    "read_columns (length (columns sc)) b = Inr (Some (columns sc, []))"
    using columns_roundtrip [of "columns sc" "[]"] assms by (auto simp: schema_wf_def)
  have "unat (word_of_nat (length (columns sc)) :: 32 word) = length (columns sc)"
    using assms by (simp add: unat_of_nat schema_wf_def)
  then show ?thesis using assms b
    by (simp add: Schema_ToBinary_def Schema_FromBinary_def read_bytes_append schema_wf_def mk_schema_def)
qed

lemma column_index_from_spec:
  "(column_index_from i cs name = -1 \<and> name \<notin> set (map col_name cs)) \<or>
   (\<exists>k < length cs. column_index_from i cs name = i + int k \<and> col_name (cs ! k) = name \<and>
      (\<forall>j < k. col_name (cs ! j) \<noteq> name))"
proof (induction cs arbitrary: i)
  case Nil
  then show ?case by simp
next
  case (Cons c cs)
  show ?case
  proof (cases "col_name c = name")
    case True
    then show ?thesis by (intro disjI2 exI [of _ 0]) simp
  next
    case False
    from Cons.IH [of "i + 1"] show ?thesis
    proof (elim disjE exE conjE)
      fix k
      assume k: "k < length cs" "column_index_from (i + 1) cs name = i + 1 + int k"
        "col_name (cs ! k) = name" "\<forall>j < k. col_name (cs ! j) \<noteq> name"
      with False show ?thesis
        by (intro disjI2 exI [of _ "Suc k"]) (auto simp: less_Suc_eq_0_disj)
    qed (use False in simp)
  qed
qed

end
