(* ===== verification/Slotted_Page.thy ===== *)
theory Slotted_Page
  imports Page_File Schema_Codec
begin

text \<open>
  The data page of a table, \<open>apps/storage/src/page.cpp\<close>, on its 4096 raw bytes: a 12-byte header
  (page id, record count, next free offset) and the cells one after the other, each a 12-byte cell
  header (record id, record size, deleted flag, three bytes of padding) and the record's bytes.
  A cell is found by walking from the first one. The refinement is to a list of cells.
\<close>

section \<open>Layout\<close>

definition PAGE_SIZE :: nat where "PAGE_SIZE = 4096"
definition sizeof_PageHeader :: nat where "sizeof_PageHeader = 12"
definition sizeof_Cell :: nat where "sizeof_Cell = 12"

definition MAX_RECORD_SIZE :: nat where
  "MAX_RECORD_SIZE = PAGE_SIZE - sizeof_PageHeader - sizeof_Cell"

lemmas layout_defs = PAGE_SIZE_def sizeof_PageHeader_def sizeof_Cell_def

definition hdr_page_id :: "byte list \<Rightarrow> 32 word" where "hdr_page_id raw = get32 raw 0"
definition record_count :: "byte list \<Rightarrow> 32 word" where "record_count raw = get32 raw 4"
definition next_free_offset :: "byte list \<Rightarrow> 32 word" where "next_free_offset raw = get32 raw 8"

lemmas header_defs = hdr_page_id_def record_count_def next_free_offset_def

text \<open>The fields of the cell at a byte offset.\<close>

definition cell_record_id :: "byte list \<Rightarrow> nat \<Rightarrow> 32 word" where
  "cell_record_id raw off = get32 raw off"
definition cell_record_size :: "byte list \<Rightarrow> nat \<Rightarrow> 32 word" where
  "cell_record_size raw off = get32 raw (off + 4)"
definition cell_deleted :: "byte list \<Rightarrow> nat \<Rightarrow> bool" where
  "cell_deleted raw off \<longleftrightarrow> take 1 (drop (off + 8) raw) \<noteq> [0]"

lemmas cell_field_defs = cell_record_id_def cell_record_size_def cell_deleted_def

text \<open>A page as \<open>DataPage()\<close> and \<open>TablePage::create\<close> make it; the bytes past the header are zero.\<close>

definition fresh_page :: "32 word \<Rightarrow> byte list" where
  "fresh_page pid = enc32 pid @ enc32 0 @ enc32 (word_of_nat sizeof_PageHeader)
     @ replicate (PAGE_SIZE - sizeof_PageHeader) 0"

section \<open>Operations\<close>

text \<open>\<open>CellAt\<close>: the offset of cell \<open>idx\<close>, in 32-bit arithmetic.\<close>

fun CellAt :: "byte list \<Rightarrow> nat \<Rightarrow> 32 word" where
  "CellAt raw 0 = word_of_nat sizeof_PageHeader"
| "CellAt raw (Suc i) =
     CellAt raw i + (word_of_nat sizeof_Cell + cell_record_size raw (unat (CellAt raw i)))"

definition get_full_free_space_size :: "byte list \<Rightarrow> 32 word" where
  "get_full_free_space_size raw = word_of_nat PAGE_SIZE - next_free_offset raw"

text \<open>\<open>is_record_fit\<close> adds in \<open>size_t\<close>, so it cannot wrap around.\<close>

definition is_record_fit :: "byte list \<Rightarrow> 32 word \<Rightarrow> bool" where
  "is_record_fit raw record_size \<longleftrightarrow>
     unat record_size + sizeof_Cell \<le> unat (get_full_free_space_size raw)"

definition open_page :: "pager \<Rightarrow> 32 word \<Rightarrow> byte list result" where
  "open_page pg pid =
     rbind (read_page pg pid) (\<lambda>raw.
       if hdr_page_id raw \<noteq> pid then
         Inl (Runtime_Error ''Readed page id is not match with argument id.'')
       else Inr raw)"

definition create_page :: "pager \<Rightarrow> (byte list \<times> pager) result" where
  "create_page pg =
     (case append_new_page pg of (pid, pg1) \<Rightarrow>
        let pg2 = write_page pg1 pid (fresh_page pid)
        in rmap (\<lambda>raw. (raw, pg2)) (open_page pg2 pid))"

definition save_to_disk :: "pager \<Rightarrow> byte list \<Rightarrow> pager" where
  "save_to_disk pg raw = write_page pg (hdr_page_id raw) raw"

text \<open>The bytes of the page after a successful insertion at the free offset.\<close>

definition put_record :: "byte list \<Rightarrow> 32 word \<Rightarrow> byte list \<Rightarrow> byte list" where
  "put_record raw rid dat =
     (let off = unat (next_free_offset raw);
          needed = word_of_nat sizeof_Cell + word_of_nat (length dat);
          r1 = put_bytes raw off (enc32 rid);
          r2 = put_bytes r1 (off + 4) (enc32 (word_of_nat (length dat)));
          r3 = put_bytes r2 (off + 8) [0];
          r4 = put_bytes r3 (off + sizeof_Cell) dat;
          r5 = put_bytes r4 4 (enc32 (record_count raw + 1))
      in put_bytes r5 8 (enc32 (next_free_offset raw + needed)))"

definition insert_record ::
  "pager \<Rightarrow> byte list \<Rightarrow> 32 word \<Rightarrow> byte list \<Rightarrow> int \<times> byte list \<times> pager" where
  "insert_record pg raw rid dat =
     (let needed = word_of_nat sizeof_Cell + word_of_nat (length dat) :: 32 word
      in if get_full_free_space_size raw < needed then (-1, raw, pg)
         else let raw' = put_record raw rid dat
              in (sint (record_count raw), raw', save_to_disk pg raw'))"

definition read_record ::
  "byte list \<Rightarrow> 32 word \<Rightarrow> nat \<Rightarrow> interner \<Rightarrow> db_record option result" where
  "read_record raw slot schema_size it =
     (if slot \<ge> record_count raw then Inr None
      else let off = unat (CellAt raw (unat slot))
           in if cell_deleted raw off then Inr None
              else rmap Some (FromBinary (drop (off + sizeof_Cell) raw) (cell_record_size raw off)
                     (cell_record_id raw off) schema_size it))"

definition delete_record :: "pager \<Rightarrow> byte list \<Rightarrow> 32 word \<Rightarrow> (byte list \<times> pager) result" where
  "delete_record pg raw slot =
     (if slot \<ge> record_count raw then
        Inl (Out_Of_Range (''Slot idx out of range: slot_idx='' @ show_nat (unat slot)
          @ '', slot_count='' @ show_nat (unat (record_count raw)) @ ''.''))
      else let off = unat (CellAt raw (unat slot))
           in if cell_deleted raw off then Inr (raw, pg)
              else let raw' = put_bytes raw (off + 8) [1] in Inr (raw', save_to_disk pg raw'))"

section \<open>The abstract page: a list of cells\<close>

record cell =
  cid :: "32 word"
  cdeleted :: bool
  cdata :: "byte list"

definition cell_at :: "byte list \<Rightarrow> nat \<Rightarrow> cell" where
  "cell_at raw off = \<lparr>cid = cell_record_id raw off, cdeleted = cell_deleted raw off,
     cdata = take (unat (cell_record_size raw off)) (drop (off + sizeof_Cell) raw)\<rparr>"

definition cell_end :: "byte list \<Rightarrow> nat \<Rightarrow> nat" where
  "cell_end raw off = off + sizeof_Cell + unat (cell_record_size raw off)"

fun walk :: "byte list \<Rightarrow> nat \<Rightarrow> nat \<Rightarrow> nat" where
  "walk raw off 0 = off"
| "walk raw off (Suc n) = walk raw (cell_end raw off) n"

fun cells_from :: "byte list \<Rightarrow> nat \<Rightarrow> nat \<Rightarrow> cell list" where
  "cells_from raw off 0 = []"
| "cells_from raw off (Suc n) = cell_at raw off # cells_from raw (cell_end raw off) n"

definition cells :: "byte list \<Rightarrow> cell list" where
  "cells raw = cells_from raw sizeof_PageHeader (unat (record_count raw))"

definition page_inv :: "byte list \<Rightarrow> bool" where
  "page_inv raw \<longleftrightarrow> length raw = PAGE_SIZE \<and>
     walk raw sizeof_PageHeader (unat (record_count raw)) = unat (next_free_offset raw) \<and>
     unat (next_free_offset raw) \<le> PAGE_SIZE"

lemma length_cells_from [simp]: "length (cells_from raw off n) = n"
  by (induction n arbitrary: off) simp_all

lemma length_cells [simp]: "length (cells raw) = unat (record_count raw)"
  by (simp add: cells_def)

lemma cell_end_mono: "off + sizeof_Cell \<le> cell_end raw off"
  by (simp add: cell_end_def)

lemma walk_mono: "off + n * sizeof_Cell \<le> walk raw off n"
proof (induction n arbitrary: off)
  case (Suc n)
  have "off + Suc n * sizeof_Cell \<le> cell_end raw off + n * sizeof_Cell"
    using cell_end_mono [of off raw] by simp
  then show ?case using Suc.IH [of "cell_end raw off"] by simp
qed simp

lemma walk_add: "walk raw off (m + n) = walk raw (walk raw off m) n"
  by (induction m arbitrary: off) simp_all

lemma walk_Suc_end: "walk raw off (Suc n) = cell_end raw (walk raw off n)"
  using walk_add [of raw off n 1] by simp

lemma walk_le: "i \<le> n \<Longrightarrow> walk raw off i \<le> walk raw off n"
  using walk_add [of raw off i "n - i"] walk_mono [of "walk raw off i" "n - i" raw] by simp

lemma nth_cells_from: "i < n \<Longrightarrow> cells_from raw off n ! i = cell_at raw (walk raw off i)"
  by (induction n arbitrary: off i) (auto simp: nth_Cons split: nat.splits)

text \<open>The code's walk in 32-bit arithmetic is the abstract walk on a well-formed page.\<close>

lemma CellAt_walk:
  assumes "walk raw sizeof_PageHeader n < 2 ^ 32" "i \<le> n"
  shows "unat (CellAt raw i) = walk raw sizeof_PageHeader i"
  using assms(2)
proof (induction i)
  case 0
  then show ?case by (simp add: sizeof_PageHeader_def)
next
  case (Suc i)
  then have IH: "unat (CellAt raw i) = walk raw sizeof_PageHeader i" by simp
  have "walk raw sizeof_PageHeader (Suc i) < 2 ^ 32"
    using walk_le [OF Suc.prems, of raw sizeof_PageHeader] assms(1) by simp
  then have bound: "walk raw sizeof_PageHeader i + (12 + unat (cell_record_size raw (walk raw sizeof_PageHeader i))) < 2 ^ 32"
    unfolding walk_Suc_end by (simp add: cell_end_def sizeof_Cell_def)
  have "unat (12 + cell_record_size raw (walk raw sizeof_PageHeader i))
      = 12 + unat (cell_record_size raw (walk raw sizeof_PageHeader i))"
    using bound by (simp add: unat_word_ariths)
  then have "unat (CellAt raw (Suc i)) = walk raw sizeof_PageHeader i
      + (12 + unat (cell_record_size raw (walk raw sizeof_PageHeader i)))"
    using bound IH by (simp add: unat_word_ariths sizeof_Cell_def)
  then show ?case unfolding walk_Suc_end by (simp add: cell_end_def sizeof_Cell_def)
qed

lemma page_inv_bounds:
  assumes "page_inv raw" "i \<le> unat (record_count raw)"
  shows "walk raw sizeof_PageHeader i \<le> PAGE_SIZE"
    and "unat (CellAt raw i) = walk raw sizeof_PageHeader i"
    and "sizeof_PageHeader + i * sizeof_Cell \<le> walk raw sizeof_PageHeader i"
proof -
  show le: "walk raw sizeof_PageHeader i \<le> PAGE_SIZE"
    using walk_le [OF assms(2), of raw sizeof_PageHeader] assms(1) by (simp add: page_inv_def)
  show "unat (CellAt raw i) = walk raw sizeof_PageHeader i"
    using CellAt_walk [of raw i i] le by (simp add: PAGE_SIZE_def)
  show "sizeof_PageHeader + i * sizeof_Cell \<le> walk raw sizeof_PageHeader i" by (rule walk_mono)
qed

section \<open>Pages that agree on a range\<close>

definition agree :: "nat \<Rightarrow> nat \<Rightarrow> byte list \<Rightarrow> byte list \<Rightarrow> bool" where
  "agree a b r r' \<longleftrightarrow> length r = length r' \<and> take (b - a) (drop a r) = take (b - a) (drop a r')"

lemma agree_slice:
  assumes "agree a b r r'" "a \<le> k" "k + n \<le> b"
  shows "take n (drop k r) = take n (drop k r')"
proof -
  have "take n (drop (k - a) (take (b - a) (drop a x))) = take n (drop k x)" for x :: "byte list"
    using assms(2,3) by (simp add: drop_take min_def)
  then show ?thesis using assms(1) unfolding agree_def by metis
qed

lemma agree_sub: "agree a b r r' \<Longrightarrow> a \<le> c \<Longrightarrow> d \<le> b \<Longrightarrow> agree c d r r'"
proof -
  assume ag: "agree a b r r'" and "a \<le> c" "d \<le> b"
  show "agree c d r r'"
  proof (cases "c \<le> d")
    case True
    then show ?thesis using agree_slice [OF ag \<open>a \<le> c\<close>, of "d - c"] ag \<open>d \<le> b\<close> by (simp add: agree_def)
  next
    case False
    then show ?thesis using ag by (simp add: agree_def)
  qed
qed

lemma agree_refl [simp]: "agree a b r r"
  by (simp add: agree_def)

lemma agree_trans: "agree a b r s \<Longrightarrow> agree a b s t \<Longrightarrow> agree a b r t"
  by (simp add: agree_def)

lemma agree_put_before:
  "off + length bs \<le> a \<Longrightarrow> off + length bs \<le> length r \<Longrightarrow> agree a b r (put_bytes r off bs)"
  by (simp add: agree_def drop_put_bytes)

lemma agree_put_after:
  "b \<le> off \<Longrightarrow> off + length bs \<le> length r \<Longrightarrow> agree a b r (put_bytes r off bs)"
  by (cases "a \<le> b") (simp_all add: agree_def take_drop_put_bytes_before)

lemma agree_get32: "agree a b r r' \<Longrightarrow> a \<le> k \<Longrightarrow> k + 4 \<le> b \<Longrightarrow> get32 r k = get32 r' k"
  using agree_slice [of a b r r' k 4] by (simp add: get32_def)

lemma agree_cell:
  assumes "agree a b r r'" "a \<le> off" "cell_end r off \<le> b"
  shows "cell_end r' off = cell_end r off" "cell_at r' off = cell_at r off"
proof -
  have size: "cell_record_size r' off = cell_record_size r off"
    using agree_get32 [OF assms(1), of "off + 4"] assms(2,3)
    by (simp add: cell_field_defs cell_end_def sizeof_Cell_def)
  then show "cell_end r' off = cell_end r off" by (simp add: cell_end_def)
  have "cell_record_id r' off = cell_record_id r off"
    using agree_get32 [OF assms(1), of off] assms(2,3)
    by (simp add: cell_field_defs cell_end_def sizeof_Cell_def)
  moreover have "cell_deleted r' off = cell_deleted r off"
    using agree_slice [OF assms(1), of "off + 8" 1] assms(2,3)
    by (simp add: cell_deleted_def cell_end_def sizeof_Cell_def)
  moreover have "take (unat (cell_record_size r off)) (drop (off + sizeof_Cell) r')
      = take (unat (cell_record_size r off)) (drop (off + sizeof_Cell) r)"
    using agree_slice [OF assms(1), of "off + sizeof_Cell"] assms(2,3) by (simp add: cell_end_def)
  ultimately show "cell_at r' off = cell_at r off" by (simp add: cell_at_def size)
qed

lemma agree_walk:
  assumes "agree a b r r'" "a \<le> off" "walk r off n \<le> b"
  shows "walk r' off n = walk r off n \<and> cells_from r' off n = cells_from r off n"
  using assms(2,3)
proof (induction n arbitrary: off)
  case (Suc n)
  have "cell_end r off \<le> walk r (cell_end r off) n"
    using walk_mono [of "cell_end r off" n r] by simp
  then have e: "cell_end r off \<le> b" using Suc.prems(2) by simp
  note c = agree_cell [OF assms(1) Suc.prems(1) e]
  have "a \<le> cell_end r off" using Suc.prems(1) cell_end_mono [of off r] by simp
  then show ?case using Suc.IH [of "cell_end r off"] Suc.prems(2) c by simp
qed simp

section \<open>Insertion refines appending a cell\<close>

lemma fits_length:
  assumes "page_inv raw" "\<not> get_full_free_space_size raw < word_of_nat sizeof_Cell + word_of_nat (length dat)"
    and "length dat \<le> MAX_RECORD_SIZE"
  shows "unat (next_free_offset raw) + sizeof_Cell + length dat \<le> PAGE_SIZE"
proof -
  have len: "length dat \<le> 4072" using assms(3) by (simp add: MAX_RECORD_SIZE_def layout_defs)
  have n: "unat (word_of_nat sizeof_Cell + word_of_nat (length dat) :: 32 word) = 12 + length dat"
    using len by (simp add: sizeof_Cell_def unat_word_ariths unat_of_nat)
  have nf: "unat (next_free_offset raw) \<le> 4096" using assms(1) by (simp add: page_inv_def PAGE_SIZE_def)
  then have "unat (get_full_free_space_size raw) = 4096 - unat (next_free_offset raw)"
    by (simp add: get_full_free_space_size_def PAGE_SIZE_def unat_sub word_le_nat_alt)
  with assms(2) n nf show ?thesis by (simp add: word_less_nat_alt layout_defs)
qed

lemma put_record_effect:
  fixes rid :: "32 word"
  assumes inv: "page_inv raw"
    and room: "unat (next_free_offset raw) + sizeof_Cell + length dat \<le> PAGE_SIZE"
  defines "off \<equiv> unat (next_free_offset raw)"
  defines "raw' \<equiv> put_record raw rid dat"
  shows "length raw' = PAGE_SIZE" "hdr_page_id raw' = hdr_page_id raw"
    and "record_count raw' = record_count raw + 1"
    and "unat (next_free_offset raw') = off + sizeof_Cell + length dat"
    and "agree sizeof_PageHeader off raw raw'"
    and "cell_at raw' off = \<lparr>cid = rid, cdeleted = False, cdata = dat\<rparr>"
    and "cell_end raw' off = off + sizeof_Cell + length dat"
proof -
  have len: "length raw = PAGE_SIZE" using inv by (simp add: page_inv_def)
  have off12: "12 \<le> off"
    using walk_mono [of sizeof_PageHeader "unat (record_count raw)" raw] inv
    by (simp add: page_inv_def off_def sizeof_PageHeader_def)
  have room': "off + 12 + length dat \<le> 4096" using room by (simp add: off_def layout_defs)
  have dl: "unat (word_of_nat (length dat) :: 32 word) = length dat"
    using room' by (simp add: unat_of_nat)
  define r1 where "r1 = put_bytes raw off (enc32 rid)"
  define r2 where "r2 = put_bytes r1 (off + 4) (enc32 (word_of_nat (length dat)))"
  define r3 where "r3 = put_bytes r2 (off + 8) [0]"
  define r4 where "r4 = put_bytes r3 (off + 12) dat"
  define r5 where "r5 = put_bytes r4 4 (enc32 (record_count raw + 1))"
  define nf where "nf = next_free_offset raw + (12 + word_of_nat (length dat))"
  have raw': "raw' = put_bytes r5 8 (enc32 nf)"
    by (simp add: raw'_def put_record_def Let_def r1_def r2_def r3_def r4_def r5_def nf_def off_def
        sizeof_Cell_def)
  have l1: "length r1 = 4096" using len room' by (simp add: r1_def PAGE_SIZE_def)
  have l2: "length r2 = 4096" using l1 room' by (simp add: r2_def)
  have l3: "length r3 = 4096" using l2 room' by (simp add: r3_def)
  have l4: "length r4 = 4096" using l3 room' by (simp add: r4_def)
  have l5: "length r5 = 4096" using l4 by (simp add: r5_def)
  note ls = l1 l2 l3 l4 l5 len [unfolded PAGE_SIZE_def]
  show "length raw' = PAGE_SIZE" using l5 by (simp add: raw' PAGE_SIZE_def)
  show "hdr_page_id raw' = hdr_page_id raw"
    using ls room' off12
    by (simp add: hdr_page_id_def raw' r5_def r4_def r3_def r2_def r1_def get32_put_before)
  have "get32 raw' 4 = get32 r5 4" unfolding raw' using l5 by (simp add: get32_put_before)
  then show "record_count raw' = record_count raw + 1"
    using l4 by (simp add: record_count_def r5_def get32_put_here)
  have nf_nat: "unat nf = off + 12 + length dat"
  proof -
    have "unat (12 + word_of_nat (length dat) :: 32 word) = 12 + length dat"
      using room' dl by (simp add: unat_word_ariths)
    then show ?thesis using room' by (simp add: nf_def unat_word_ariths off_def)
  qed
  show "unat (next_free_offset raw') = off + sizeof_Cell + length dat"
    using l5 nf_nat by (simp add: next_free_offset_def raw' get32_put_here sizeof_Cell_def)
  have hdr: "agree 12 4096 r4 raw'"
    unfolding raw' r5_def using l4
    by (intro agree_trans [OF agree_put_before agree_put_before]) simp_all
  have "agree 12 off raw r4"
    unfolding r4_def r3_def r2_def r1_def
    using ls [unfolded r4_def r3_def r2_def r1_def] room' off12
    by (intro agree_trans [OF agree_trans [OF agree_trans [OF agree_put_after agree_put_after]
          agree_put_after] agree_put_after]) simp_all
  then show "agree sizeof_PageHeader off raw raw'"
    unfolding sizeof_PageHeader_def using agree_sub [OF hdr, of 12 off] room'
    by (auto intro: agree_trans)
  have at: "take n (drop k raw') = take n (drop k r4)" if "12 \<le> k" "k + n \<le> 4096" for k n
    using agree_slice [OF hdr that] by simp
  have size: "cell_record_size raw' off = word_of_nat (length dat)"
    using ls room' off12 at [of "off + 4" 4]
    by (simp add: cell_record_size_def get32_def r4_def r3_def take_drop_put_bytes_before)
       (simp add: r2_def flip: get32_def, simp add: get32_put_here)
  then show "cell_end raw' off = off + sizeof_Cell + length dat"
    by (simp add: cell_end_def dl)
  have rid: "cell_record_id raw' off = rid"
    using ls room' off12 at [of off 4]
    by (simp add: cell_record_id_def get32_def r4_def r3_def r2_def take_drop_put_bytes_before)
       (simp add: r1_def flip: get32_def, simp add: get32_put_here)
  have "take 1 (drop (off + 8) r3) = [0]"
    using put_bytes_here [of "off + 8" "[0]" r2] ls room' by (simp add: r3_def)
  then have del: "\<not> cell_deleted raw' off"
    using ls room' off12 at [of "off + 8" 1]
    by (simp add: cell_deleted_def r4_def take_drop_put_bytes_before)
  have dat: "take (length dat) (drop (off + 12) raw') = dat"
    using at [of "off + 12" "length dat"] put_bytes_here [of "off + 12" dat r3] ls room' off12
    by (simp add: r4_def)
  show "cell_at raw' off = \<lparr>cid = rid, cdeleted = False, cdata = dat\<rparr>"
    using del dat by (simp add: cell_at_def rid size dl sizeof_Cell_def)
qed

lemma cells_from_add:
  "cells_from raw off (m + n) = cells_from raw off m @ cells_from raw (walk raw off m) n"
  by (induction m arbitrary: off) simp_all

lemma cells_from_Suc_end:
  "cells_from raw off (Suc n) = cells_from raw off n @ [cell_at raw (walk raw off n)]"
  by (induction n arbitrary: off) simp_all

lemma put_record_refines:
  assumes inv: "page_inv raw"
    and room: "unat (next_free_offset raw) + sizeof_Cell + length dat \<le> PAGE_SIZE"
  shows "page_inv (put_record raw rid dat)"
    and "cells (put_record raw rid dat) = cells raw @ [\<lparr>cid = rid, cdeleted = False, cdata = dat\<rparr>]"
proof -
  let ?off = "unat (next_free_offset raw)" and ?n = "unat (record_count raw)"
  let ?raw' = "put_record raw rid dat"
  note eff = put_record_effect [OF inv room, of rid]
  have w: "walk raw sizeof_PageHeader ?n = ?off" using inv by (simp add: page_inv_def)
  have "?n * 12 + 12 \<le> ?off"
    using walk_mono [of sizeof_PageHeader ?n raw] w by (simp add: sizeof_PageHeader_def sizeof_Cell_def)
  then have "?n + 1 < 2 ^ 32" using room by (simp add: PAGE_SIZE_def)
  then have n': "unat (record_count ?raw') = Suc ?n" unfolding eff(3) by (simp add: unat_word_ariths)
  have pre: "walk ?raw' sizeof_PageHeader ?n = ?off \<and>
      cells_from ?raw' sizeof_PageHeader ?n = cells_from raw sizeof_PageHeader ?n"
    using agree_walk [OF eff(5), of sizeof_PageHeader ?n] w by simp
  show "page_inv ?raw'"
    unfolding page_inv_def n' walk_Suc_end using eff pre room by simp
  show "cells ?raw' = cells raw @ [\<lparr>cid = rid, cdeleted = False, cdata = dat\<rparr>]"
    unfolding cells_def n' cells_from_Suc_end using pre eff(6) by simp
qed

section \<open>Deletion refines marking a cell\<close>

lemma delete_refines:
  assumes inv: "page_inv raw" and slot: "i < unat (record_count raw)"
  defines "raw' \<equiv> put_bytes raw (unat (CellAt raw i) + 8) [1]"
  shows "page_inv raw'" "hdr_page_id raw' = hdr_page_id raw"
    and "cells raw' = (cells raw)[i := (cells raw ! i)\<lparr>cdeleted := True\<rparr>]"
proof -
  let ?n = "unat (record_count raw)" and ?h = "sizeof_PageHeader"
  let ?o = "walk raw ?h i"
  have i_le: "i \<le> ?n" "Suc i \<le> ?n" using slot by simp_all
  have off: "unat (CellAt raw i) = ?o" using page_inv_bounds(2) [OF inv i_le(1)] .
  have e: "cell_end raw ?o \<le> PAGE_SIZE"
    using page_inv_bounds(1) [OF inv i_le(2)] unfolding walk_Suc_end .
  have lo: "12 \<le> ?o" using page_inv_bounds(3) [OF inv i_le(1)] by (simp add: sizeof_PageHeader_def)
  have len: "length raw = 4096" using inv by (simp add: page_inv_def PAGE_SIZE_def)
  have hi: "?o + 12 \<le> 4096" using e cell_end_mono [of ?o raw] by (simp add: sizeof_Cell_def PAGE_SIZE_def)
  have raw': "raw' = put_bytes raw (?o + 8) [1]" by (simp add: raw'_def off)
  have hdr: "record_count raw' = record_count raw" "next_free_offset raw' = next_free_offset raw"
    and id: "hdr_page_id raw' = hdr_page_id raw"
    using lo hi len by (simp_all add: raw' header_defs get32_put_before)
  show "hdr_page_id raw' = hdr_page_id raw" by (rule id)
  have before: "agree ?h ?o raw raw'"
    unfolding raw' using hi len by (intro agree_put_after) simp_all
  have after: "agree (?o + 9) 4096 raw raw'"
    unfolding raw' using hi len by (intro agree_put_before) simp_all
  have size: "cell_record_size raw' ?o = cell_record_size raw ?o"
    and rid: "cell_record_id raw' ?o = cell_record_id raw ?o"
    using hi len by (simp_all add: raw' cell_field_defs get32_put_before)
  have dat: "drop (?o + 12) raw' = drop (?o + 12) raw"
    using hi len by (simp add: raw' drop_put_bytes)
  have del: "cell_deleted raw' ?o"
    using put_bytes_here [of "?o + 8" "[1]" raw] hi len by (simp add: cell_deleted_def raw')
  have cell: "cell_at raw' ?o = (cell_at raw ?o)\<lparr>cdeleted := True\<rparr>"
    using del by (simp add: cell_at_def size rid dat sizeof_Cell_def)
  have ce: "cell_end raw' ?o = cell_end raw ?o" by (simp add: cell_end_def size)
  have pre: "walk raw' ?h i = ?o \<and> cells_from raw' ?h i = cells_from raw ?h i"
    using agree_walk [OF before, of ?h i] by simp
  let ?k = "?n - Suc i"
  have split: "?n = i + Suc ?k" using slot by simp
  have total: "walk raw ?h ?n = walk raw (cell_end raw ?o) ?k"
    by (subst split, subst walk_add) simp
  have bound: "walk raw (cell_end raw ?o) ?k \<le> 4096"
    using inv unfolding page_inv_def total by (simp add: PAGE_SIZE_def)
  have suf: "walk raw' (cell_end raw ?o) ?k = walk raw (cell_end raw ?o) ?k \<and>
      cells_from raw' (cell_end raw ?o) ?k = cells_from raw (cell_end raw ?o) ?k"
    using cell_end_mono [of ?o raw] by (intro agree_walk [OF after _ bound]) (simp add: sizeof_Cell_def)
  have cells_split: "cells_from r ?h (i + Suc k) = cells_from r ?h i @ cell_at r (walk r ?h i)
      # cells_from r (cell_end r (walk r ?h i)) k" for r k
    using cells_from_add [of r ?h i "Suc k"] by (simp del: add_Suc_right)
  have "walk raw' ?h ?n = walk raw ?h ?n"
    unfolding total by (subst split, subst walk_add) (simp add: pre ce suf)
  moreover have "length raw' = 4096" using len hi by (simp add: raw')
  ultimately show "page_inv raw'" using inv by (simp add: page_inv_def hdr PAGE_SIZE_def)
  have "cells raw' = cells_from raw ?h i @ (cell_at raw ?o)\<lparr>cdeleted := True\<rparr>
      # cells_from raw (cell_end raw ?o) ?k"
    unfolding cells_def hdr by (subst split, subst cells_split) (simp add: pre ce suf cell)
  moreover have "cells raw = cells_from raw ?h i @ cell_at raw ?o # cells_from raw (cell_end raw ?o) ?k"
    unfolding cells_def by (subst split, subst cells_split) simp
  ultimately show "cells raw' = (cells raw)[i := (cells raw ! i)\<lparr>cdeleted := True\<rparr>]"
    by (simp add: list_update_append nth_append)
qed

lemma read_record_cells:
  assumes inv: "page_inv raw"
  shows "read_record raw slot ncols it =
    (if unat slot \<ge> length (cells raw) then Inr None
     else let c = cells raw ! unat slot; off = walk raw sizeof_PageHeader (unat slot)
          in if cdeleted c then Inr None
             else rmap Some (FromBinary (drop (off + sizeof_Cell) raw) (cell_record_size raw off)
                    (cid c) ncols it))"
proof (cases "slot \<ge> record_count raw")
  case True
  then show ?thesis by (simp add: read_record_def word_le_nat_alt)
next
  case False
  then have s: "unat slot < unat (record_count raw)" by (simp add: word_le_nat_alt)
  then have "cells raw ! unat slot = cell_at raw (walk raw sizeof_PageHeader (unat slot))"
    by (simp add: cells_def nth_cells_from)
  then show ?thesis
    using s False page_inv_bounds(2) [OF inv, of "unat slot"]
    by (simp add: read_record_def Let_def cell_at_def)
qed

text \<open>A live cell that holds the bytes of a record is read back as that record.\<close>

lemma read_record_payload:
  assumes inv: "page_inv raw" and slot: "unat slot < length (cells raw)"
    and cell: "cells raw ! unat slot = \<lparr>cid = rid, cdeleted = False, cdata = payload vs\<rparr>"
    and known: "\<forall>v \<in> set vs. known_value it v"
  shows "read_record raw slot (length vs) it = Inr (Some (mk_record rid vs))"
proof -
  let ?off = "walk raw sizeof_PageHeader (unat slot)"
  have at: "cell_at raw ?off = \<lparr>cid = rid, cdeleted = False, cdata = payload vs\<rparr>"
    using cell slot by (simp add: cells_def nth_cells_from)
  have "Suc (unat slot) \<le> unat (record_count raw)" using slot by simp
  from page_inv_bounds(1) [OF inv this] have e: "cell_end raw ?off \<le> PAGE_SIZE"
    unfolding walk_Suc_end .
  have len: "length raw = PAGE_SIZE" using inv by (simp add: page_inv_def)
  have dat: "take (unat (cell_record_size raw ?off)) (drop (?off + sizeof_Cell) raw) = payload vs"
    using at by (simp add: cell_at_def)
  then have n: "length (payload vs) = unat (cell_record_size raw ?off)"
    using e len by (auto simp: cell_end_def dest: arg_cong [where f = length])
  define rest where "rest = drop (unat (cell_record_size raw ?off)) (drop (?off + sizeof_Cell) raw)"
  have tail: "drop (?off + sizeof_Cell) raw = payload vs @ rest"
    unfolding rest_def dat [symmetric] by (rule append_take_drop_id [symmetric])
  have size: "cell_record_size raw ?off = word_of_nat (length (payload vs))" by (simp add: n)
  have "length (payload vs) < 2 ^ 32" using n unsigned_less [of "cell_record_size raw ?off"] by simp
  then have "FromBinary (payload vs @ rest) (word_of_nat (length (payload vs))) rid (length vs) it
      = Inr (mk_record rid vs)"
    using known by (intro FromBinary_payload)
  then have "FromBinary (drop (?off + sizeof_Cell) raw) (cell_record_size raw ?off) rid (length vs) it
      = Inr (mk_record rid vs)"
    by (simp only: tail size)
  then show ?thesis using slot cell by (simp add: read_record_cells [OF inv] Let_def)
qed

section \<open>Space on a page\<close>

fun cells_space :: "cell list \<Rightarrow> nat" where
  "cells_space [] = 0"
| "cells_space (c # cs) = sizeof_Cell + length (cdata c) + cells_space cs"

lemma walk_space:
  assumes "walk raw off n \<le> length raw"
  shows "walk raw off n = off + cells_space (cells_from raw off n)"
  using assms
proof (induction n arbitrary: off)
  case (Suc n)
  have w: "walk raw (cell_end raw off) n \<le> length raw" using Suc.prems by simp
  have "cell_end raw off \<le> walk raw (cell_end raw off) n"
    using walk_mono [of "cell_end raw off" n raw] by simp
  then have "cell_end raw off \<le> length raw" using w by simp
  then have "length (cdata (cell_at raw off)) = unat (cell_record_size raw off)"
    by (simp add: cell_at_def cell_end_def)
  then have "cell_end raw off = off + (sizeof_Cell + length (cdata (cell_at raw off)))"
    by (simp add: cell_end_def)
  then show ?case using Suc.IH [OF w] by simp
qed simp

lemma page_space:
  assumes "page_inv raw"
  shows "unat (next_free_offset raw) = sizeof_PageHeader + cells_space (cells raw)"
  using assms walk_space [of raw sizeof_PageHeader "unat (record_count raw)"]
  by (simp add: page_inv_def cells_def)

lemma page_count_small:
  assumes "page_inv raw"
  shows "unat (record_count raw) < 2 ^ 31"
proof -
  have "sizeof_PageHeader + unat (record_count raw) * sizeof_Cell \<le> PAGE_SIZE"
    using page_inv_bounds(1,3) [OF assms order_refl] by (rule le_trans [rotated])
  then show ?thesis by (simp add: layout_defs)
qed

lemma sint_record_count:
  assumes "page_inv raw"
  shows "sint (record_count raw) = int (length (cells raw))"
proof -
  have "uint (record_count raw) < 2 ^ 31"
    unfolding uint_nat using page_count_small [OF assms]
    by (metis of_nat_less_iff of_nat_numeral of_nat_power)
  then have "sint (record_count raw) = uint (record_count raw)"
    unfolding sint_uint by (intro signed_take_bit_int_eq_self) (simp_all add: order_trans [of _ 0])
  then show ?thesis unfolding length_cells uint_nat [symmetric] .
qed

lemma free_space_iff:
  assumes inv: "page_inv raw" and len: "length dat \<le> MAX_RECORD_SIZE"
  shows "get_full_free_space_size raw < word_of_nat sizeof_Cell + word_of_nat (length dat)
    \<longleftrightarrow> PAGE_SIZE < sizeof_PageHeader + cells_space (cells raw) + sizeof_Cell + length dat"
proof -
  have len': "length dat \<le> 4072" using len by (simp add: MAX_RECORD_SIZE_def layout_defs)
  have n: "unat (word_of_nat sizeof_Cell + word_of_nat (length dat) :: 32 word) = 12 + length dat"
    using len' by (simp add: sizeof_Cell_def unat_word_ariths unat_of_nat)
  have nf: "unat (next_free_offset raw) \<le> 4096" using inv by (simp add: page_inv_def PAGE_SIZE_def)
  then have "unat (get_full_free_space_size raw) = 4096 - unat (next_free_offset raw)"
    by (simp add: get_full_free_space_size_def PAGE_SIZE_def unat_sub word_le_nat_alt)
  with n nf show ?thesis using page_space [OF inv]
    by (auto simp: word_less_nat_alt layout_defs)
qed

lemma fresh_page_fields:
  "length (fresh_page pid) = PAGE_SIZE" "hdr_page_id (fresh_page pid) = pid"
  "record_count (fresh_page pid) = 0" "unat (next_free_offset (fresh_page pid)) = sizeof_PageHeader"
  by (simp_all add: fresh_page_def layout_defs header_defs get32_def drop_Cons')

lemma fresh_page_inv: "page_inv (fresh_page pid)" "cells (fresh_page pid) = []"
  by (simp_all add: page_inv_def cells_def fresh_page_fields layout_defs)

lemma insert_record_cases:
  assumes "page_inv raw" "length dat \<le> MAX_RECORD_SIZE"
    and "insert_record pg raw rid dat = (r, raw', pg')"
  shows "if sizeof_PageHeader + cells_space (cells raw) + sizeof_Cell + length dat \<le> PAGE_SIZE
    then r = int (length (cells raw)) \<and> page_inv raw' \<and> hdr_page_id raw' = hdr_page_id raw \<and>
         cells raw' = cells raw @ [\<lparr>cid = rid, cdeleted = False, cdata = dat\<rparr>] \<and>
         pg' = write_page pg (hdr_page_id raw) raw'
    else r = -1 \<and> raw' = raw \<and> pg' = pg"
proof (cases "sizeof_PageHeader + cells_space (cells raw) + sizeof_Cell + length dat \<le> PAGE_SIZE")
  case True
  then have room: "unat (next_free_offset raw) + sizeof_Cell + length dat \<le> PAGE_SIZE"
    using page_space [OF assms(1)] by simp
  have "\<not> get_full_free_space_size raw < word_of_nat sizeof_Cell + word_of_nat (length dat)"
    using free_space_iff [OF assms(1,2)] True by simp
  then have "r = sint (record_count raw)" "raw' = put_record raw rid dat" "pg' = save_to_disk pg raw'"
    using assms(3) by (auto simp: insert_record_def Let_def)
  then show ?thesis
    using True put_record_refines [OF assms(1) room, of rid] put_record_effect(2) [OF assms(1) room, of rid]
      sint_record_count [OF assms(1)] by (simp add: save_to_disk_def)
next
  case False
  then have "get_full_free_space_size raw < word_of_nat sizeof_Cell + word_of_nat (length dat)"
    using free_space_iff [OF assms(1,2)] by simp
  then show ?thesis using False assms(3) by (simp add: insert_record_def)
qed

end
