(* ===== verification/Storage_Properties.thy ===== *)
theory Storage_Properties
  imports Slotted_Page
begin

text \<open>
  The properties of the storage's data formats: values and three-valued logic, the string interner
  and its file, records and schemas as bytes, the page file, and the slotted page. Each follows
  from the lemmas of the component's theory.
\<close>

section \<open>The data page\<close>

text \<open>
  C19: Inserting a record's bytes into a well-formed data page succeeds exactly when the header,
  the cells already there and the new cell fit into the 4096 bytes. It then returns the number of
  cells as the slot, appends the new live cell and nothing else, keeps the page well-formed and
  writes it to the file; otherwise it returns -1 and changes neither page nor file.
\<close>

theorem insert_record_refines:
  assumes "page_inv raw" "length dat \<le> MAX_RECORD_SIZE"
    and "insert_record pg raw rid dat = (r, raw', pg')"
  shows "if sizeof_PageHeader + cells_space (cells raw) + sizeof_Cell + length dat \<le> PAGE_SIZE
    then r = int (length (cells raw)) \<and> page_inv raw' \<and> hdr_page_id raw' = hdr_page_id raw \<and>
         cells raw' = cells raw @ [\<lparr>cid = rid, cdeleted = False, cdata = dat\<rparr>] \<and>
         pg' = write_page pg (hdr_page_id raw) raw'
    else r = -1 \<and> raw' = raw \<and> pg' = pg"
  using insert_record_cases [OF assms] .

theorem insert_record_refines_witness:
  "\<exists>r raw' pg'. insert_record \<lparr>page_size = 4096, db_file = []\<rparr> (fresh_page 3) 7 [1, 2] = (r, raw', pg') \<and>
     r = 0 \<and> cells raw' = [\<lparr>cid = 7, cdeleted = False, cdata = [1, 2]\<rparr>]"
proof -
  obtain r raw' pg' where ins:
    "insert_record \<lparr>page_size = 4096, db_file = []\<rparr> (fresh_page 3) 7 [1, 2] = (r, raw', pg')"
    using prod_cases3 by blast
  have "length [1::byte, 2] \<le> MAX_RECORD_SIZE" by (simp add: MAX_RECORD_SIZE_def layout_defs)
  from insert_record_refines [OF fresh_page_inv(1) this ins] ins show ?thesis
    by (auto simp: fresh_page_inv layout_defs)
qed

text \<open>
  C21: A record whose values are known to the interner, written to a page of the file by
  \<open>insert_record\<close>, is read back equal after the page is opened again from the file, and every
  other page of the file opens as before.
\<close>

theorem insert_record_readback:
  assumes "page_inv raw" "pager_inv pg" "page_size pg = PAGE_SIZE"
    and "unat (hdr_page_id raw) < pager_total pg"
    and "\<forall>v \<in> set vs. known_value it v" "length (payload vs) \<le> MAX_RECORD_SIZE"
    and "insert_record pg raw rid (payload vs) = (r, raw', pg')" "r \<noteq> -1"
  shows "open_page pg' (hdr_page_id raw) = Inr raw' \<and>
    read_record raw' (word_of_int r) (length vs) it = Inr (Some (mk_record rid vs)) \<and>
    (\<forall>pid. pid \<noteq> hdr_page_id raw \<longrightarrow> open_page pg' pid = open_page pg pid)"
proof -
  have ref: "r = int (length (cells raw))" "page_inv raw'" "hdr_page_id raw' = hdr_page_id raw"
    "cells raw' = cells raw @ [\<lparr>cid = rid, cdeleted = False, cdata = payload vs\<rparr>]"
    "pg' = write_page pg (hdr_page_id raw) raw'"
    using insert_record_cases [OF assms(1,6,7)] assms(8) by (auto split: if_splits)
  have fits: "pager_fits pg raw'" using ref(2) assms(3) by (simp add: pager_fits_def page_inv_def)
  have slot: "word_of_int r = record_count raw" by (simp add: ref(1))
  have "read_record raw' (record_count raw) (length vs) it = Inr (Some (mk_record rid vs))"
    using ref(4) assms(5) by (intro read_record_payload [OF ref(2)])
      (simp_all add: nth_append flip: length_cells)
  then show ?thesis
    using pg.rd_wr [OF assms(2,4) fits] ref(3,5) slot by (simp add: open_page_def)
qed

theorem insert_record_readback_witness:
  "\<exists>r raw' pg'. insert_record \<lparr>page_size = 4096, db_file = replicate 4096 0\<rparr> (fresh_page 0) 7 [1, 1, 0, 0, 0]
       = (r, raw', pg') \<and> read_record raw' (word_of_int r) 1 new_interner = Inr (Some (mk_record 7 [VInt 1]))"
proof -
  let ?pg = "\<lparr>page_size = 4096, db_file = replicate 4096 0\<rparr>" and ?dat = "[1, 1, 0, 0, 0] :: byte list"
  have pay: "payload [VInt 1] = ?dat" by (simp add: tag_defs) code_simp
  obtain r raw' pg' where ins: "insert_record ?pg (fresh_page 0) 7 ?dat = (r, raw', pg')"
    using prod_cases3 by blast
  have fit: "length ?dat \<le> MAX_RECORD_SIZE" by (simp add: MAX_RECORD_SIZE_def layout_defs)
  have "r \<noteq> -1"
    using insert_record_cases [OF fresh_page_inv(1) fit ins] by (simp add: fresh_page_inv layout_defs)
  moreover have "pager_inv ?pg" "page_size ?pg = PAGE_SIZE" "unat (hdr_page_id (fresh_page 0)) < pager_total ?pg"
    by (simp_all add: pager_inv_def pager_total_def PAGE_SIZE_def fresh_page_fields)
  ultimately show ?thesis
    using insert_record_readback [OF fresh_page_inv(1), of ?pg 0 "[VInt 1]" new_interner 7 r raw' pg', unfolded pay]
      ins fit by simp
qed

text \<open>
  C20: Deleting a slot of a well-formed data page marks exactly that cell as deleted, leaves every
  cell in place with its identifier and bytes, keeps the page well-formed and makes reading the slot
  give nothing; a slot that does not exist is reported and nothing changes.
\<close>

theorem delete_record_refines:
  assumes "page_inv raw"
  shows "case delete_record pg raw slot of
      Inl e \<Rightarrow> length (cells raw) \<le> unat slot \<and> (\<exists>m. e = Out_Of_Range m)
    | Inr (raw', pg') \<Rightarrow> unat slot < length (cells raw) \<and> page_inv raw' \<and>
        hdr_page_id raw' = hdr_page_id raw \<and>
        cells raw' = (cells raw)[unat slot := (cells raw ! unat slot)\<lparr>cdeleted := True\<rparr>] \<and>
        read_record raw' slot n it = Inr None \<and>
        (pg' = write_page pg (hdr_page_id raw) raw' \<or> raw' = raw \<and> pg' = pg)"
proof (cases "slot \<ge> record_count raw")
  case True
  then show ?thesis by (simp add: delete_record_def word_le_nat_alt)
next
  case False
  then have s: "unat slot < unat (record_count raw)" by (simp add: word_le_nat_alt)
  note del = delete_refines [OF assms s]
  have gone: "read_record r slot n it = Inr None"
    if "page_inv r" "cells r = (cells raw)[unat slot := (cells raw ! unat slot)\<lparr>cdeleted := True\<rparr>]" for r
    using s by (simp add: read_record_cells [OF that(1)] that(2))
  show ?thesis
  proof (cases "cell_deleted raw (unat (CellAt raw (unat slot)))")
    case deleted: True
    then have "cdeleted (cells raw ! unat slot)"
      using s page_inv_bounds(2) [OF assms, of "unat slot"] by (simp add: cells_def nth_cells_from cell_at_def)
    then have same: "(cells raw)[unat slot := (cells raw ! unat slot)\<lparr>cdeleted := True\<rparr>] = cells raw"
      by (simp add: list_update_same_conv s)
    then show ?thesis using False deleted s assms gone [OF assms] by (simp add: delete_record_def)
  next
    case live: False
    then show ?thesis
      using False s del gone [OF del(1,3)] by (simp add: delete_record_def Let_def save_to_disk_def)
  qed
qed

theorem delete_record_refines_witness:
  "delete_record \<lparr>page_size = 4096, db_file = []\<rparr> (fresh_page 3) 2
    = Inl (Out_Of_Range ''Slot idx out of range: slot_idx=2, slot_count=0.'') \<and>
   length (cells (fresh_page 3)) \<le> 2"
proof -
  have "delete_record \<lparr>page_size = 4096, db_file = []\<rparr> (fresh_page 3) 2
    = Inl (Out_Of_Range ''Slot idx out of range: slot_idx=2, slot_count=0.'')"
    by (simp add: delete_record_def fresh_page_fields show_nat.simps) code_simp
  then show ?thesis
    using delete_record_refines [OF fresh_page_inv(1), where pg = "\<lparr>page_size = 4096, db_file = []\<rparr>" and slot = 2]
    by (simp add: fresh_page_inv)
qed

section \<open>Interned strings\<close>

text \<open>
  C22: After any strings have been interned into an open interner, its file reloaded into any
  interner gives back exactly the same interner, so identifiers and views survive a restart.
\<close>

theorem interned_strings_survive_restart:
  assumes "interner_rep it" "persisted it"
    and "length (string_storage it) + length ss + 1 < 2 ^ 32" "\<forall>s \<in> set ss. length s < 2 ^ 64"
  defines "it' \<equiv> fold (\<lambda>s i. snd (Intern i s)) ss it"
  shows "UseStorage it0 (Some (storage_file it')) = Inr it' \<and>
    (\<forall>s \<in> set ss. \<exists>sid. string_to_id it' s = Some sid \<and> View it' sid = Inr s) \<and>
    (\<forall>sid t. View it sid = Inr t \<longrightarrow> View it' sid = Inr t)"
  using interned_all [OF assms(1-4)] unfolding it'_def by (intro conjI reload_persisted) blast+

theorem interned_strings_survive_restart_witness:
  "\<exists>it'. it' = fold (\<lambda>s i. snd (Intern i s)) [''b'', ''a'', ''b''] (new_interner\<lparr>storage_open := True\<rparr>) \<and>
     UseStorage new_interner (Some (storage_file it')) = Inr it' \<and>
     (\<exists>sid. View it' sid = Inr ''a'')"
proof -
  let ?it = "new_interner\<lparr>storage_open := True\<rparr>"
  have rep: "interner_rep ?it" "persisted ?it"
    by (simp_all add: interner_rep_def persisted_def new_interner_def entries_of_def Let_def)
  have "length (string_storage ?it) + length [''b'', ''a'', ''b''] + 1 < 2 ^ 32"
    by (simp add: new_interner_def)
  from interned_strings_survive_restart [OF rep this, of new_interner]
  have "UseStorage new_interner (Some (storage_file (fold (\<lambda>s i. snd (Intern i s)) [''b'', ''a'', ''b''] ?it)))
      = Inr (fold (\<lambda>s i. snd (Intern i s)) [''b'', ''a'', ''b''] ?it)"
    and "\<exists>sid. View (fold (\<lambda>s i. snd (Intern i s)) [''b'', ''a'', ''b''] ?it) sid = Inr ''a''"
    by (simp_all del: fold_simps) blast?
  then show ?thesis by blast
qed

section \<open>Records and schemas\<close>

text \<open>
  C23: A record serialises to exactly the announced number of bytes, and decoding these bytes,
  whatever follows them in the page, gives the record back; it stays readable after any further
  string is interned.
\<close>

theorem record_roundtrip:
  assumes "interner_rep it" "length (string_storage it) + 2 < 2 ^ 32"
    and "\<forall>v \<in> set vs. known_value it v" "5 * length vs < 2 ^ 32"
  shows "\<exists>b. Serialize (mk_record rid vs) = Inr b \<and>
    length b = unat (Record_SerializedSize (mk_record rid vs)) \<and>
    FromBinary (b @ rest) (Record_SerializedSize (mk_record rid vs)) rid (length vs) it
      = Inr (mk_record rid vs) \<and>
    FromBinary (b @ rest) (Record_SerializedSize (mk_record rid vs)) rid (length vs) (snd (Intern it s))
      = Inr (mk_record rid vs)"
proof -
  have len: "length (payload vs) < 2 ^ 32" using length_payload [of vs] assms(4) by simp
  have size: "Record_SerializedSize (mk_record rid vs) = word_of_nat (length (payload vs))"
    by (simp add: Record_SerializedSize_payload mk_record_def)
  have "\<forall>v \<in> set vs. known_value (snd (Intern it s)) v"
    using known_value_Intern [OF assms(1,2)] assms(3) by blast
  then have "FromBinary (payload vs @ rest) (word_of_nat (length (payload vs))) rid (length vs)
      (snd (Intern it s)) = Inr (mk_record rid vs)" using len by (rule FromBinary_payload)
  moreover have "Serialize (mk_record rid vs) = Inr (payload vs)"
    using Serialize_payload [of "mk_record rid vs"] len by (simp add: mk_record_def)
  ultimately show ?thesis
    unfolding size using len FromBinary_payload [OF assms(3) len] by (simp add: unat_of_nat)
qed

theorem record_roundtrip_witness:
  "\<exists>b. Serialize (mk_record 5 [VInt 7, VNull]) = Inr b \<and>
     FromBinary (b @ [9, 9]) (Record_SerializedSize (mk_record 5 [VInt 7, VNull])) 5 2 new_interner
       = Inr (mk_record 5 [VInt 7, VNull])"
proof -
  have "length (string_storage new_interner) + 2 < 2 ^ 32" by (simp add: new_interner_def)
  moreover have "\<forall>v \<in> set [VInt 7, VNull]. known_value new_interner v"
    and "5 * length [VInt 7, VNull] < 2 ^ 32" by simp_all
  ultimately obtain b where "Serialize (mk_record 5 [VInt 7, VNull]) = Inr b"
    "FromBinary (b @ [9, 9]) (Record_SerializedSize (mk_record 5 [VInt 7, VNull])) 5
      (length [VInt 7, VNull]) new_interner = Inr (mk_record 5 [VInt 7, VNull])"
    using record_roundtrip [OF new_interner_rep] by blast
  then show ?thesis unfolding numeral_2_eq_2 by auto
qed

text \<open>
  C24: A schema with distinct column names, checked columns and storable names is written and read
  back as the same schema, record counter included.
\<close>

theorem schema_roundtrip:
  assumes "schema_wf sc"
  shows "\<exists>b. Schema_ToBinary sc = Some b \<and> Schema_FromBinary b = Inr (Some sc)"
  using Schema_reload [OF assms] .

theorem schema_roundtrip_witness:
  "\<exists>c b. mk_column ''n'' STRING_COLUMN INDEXED_FLAG DEFAULT_STRING 0 ''x'' = Inr c \<and> IsNotNull c \<and>
     Schema_ToBinary \<lparr>columns = [c], record_id_count = 9\<rparr> = Some b \<and>
     Schema_FromBinary b = Inr (Some \<lparr>columns = [c], record_id_count = 9\<rparr>)"
proof -
  let ?c = "\<lparr>col_name = ''n'', col_type = STRING_COLUMN, col_flags = 3, col_default = DEFAULT_STRING,
    col_default_int = 0, col_default_string = ''x''\<rparr>"
  have c: "mk_column ''n'' STRING_COLUMN INDEXED_FLAG DEFAULT_STRING 0 ''x'' = Inr ?c"
    by (simp add: mk_column_def INDEXED_FLAG_def NOT_NULL_FLAG_def ValidateDefault_def Column_IsString_def)
  have nn: "IsNotNull ?c" by (simp add: IsNotNull_def NOT_NULL_FLAG_def)
  have "schema_wf \<lparr>columns = [?c], record_id_count = 9\<rparr>"
    using mk_column_checked [OF c]
    by (simp add: schema_wf_def column_storable_def MAX_SERIALIZED_STRING_SIZE_def)
  from schema_roundtrip [OF this] show ?thesis using c nn by blast
qed

section \<open>Three-valued logic\<close>

text \<open>
  The comparison operators of stored values agree with one order per type and with each other:
  on two non-null values of one type each decides that order, with a null operand each is UNKNOWN,
  and on two types none gives a truth value. The connectives are Kleene's, so negation swaps
  conjunction and disjunction.
\<close>

theorem comparisons_and_connectives:
  "(if comparable a b then
      value_less a b = Inr (of_bool_sql (value_rank a < value_rank b)) \<and>
      value_le a b = Inr (of_bool_sql (value_rank a \<le> value_rank b)) \<and>
      value_gt a b = Inr (of_bool_sql (value_rank b < value_rank a)) \<and>
      value_ge a b = Inr (of_bool_sql (value_rank b \<le> value_rank a)) \<and>
      value_eq a b = Inr (of_bool_sql (a = b)) \<and> value_ne a b = Inr (of_bool_sql (a \<noteq> b))
    else if IsNull a \<or> IsNull b then
      list_all (\<lambda>cmp. cmp a b = Inr SqlUnknown)
        [value_less, value_le, value_gt, value_ge, value_eq, value_ne]
    else list_all (\<lambda>cmp. \<not> is_ok (cmp a b))
        [value_less, value_le, value_gt, value_ge, value_eq, value_ne]) \<and>
   sql_not (sql_and p q) = sql_or (sql_not p) (sql_not q) \<and>
   truth_rank (sql_and p q) = min (truth_rank p) (truth_rank q) \<and>
   truth_rank (sql_or p q) = max (truth_rank p) (truth_rank q)"
  by (intro conjI truth_rank_and truth_rank_or sql_de_morgan)
     (simp add: value_cmp_rank value_rank_inject value_cmp_null value_cmp_mixed)

end
