(* ===== verification/Tree_Node.thy ===== *)
theory Tree_Node
  imports Qdb_Prelude
begin

text \<open>
  One node of the index, \<open>apps/storage/include/qdb/storage/node.h\<close>: a page with a header and either
  keys and child page numbers or keys, values and the next leaf's page number. The arrays keep
  their physical length and \<open>keys_size\<close> says how much of them is in use, as in the code, so that
  what an operation reads or leaves beyond \<open>keys_size\<close> is visible. The two members of the page
  union are kept apart, since the code reads a member only in a node of its kind. An operation
  returns the changed node; saving it to its page is done by the tree.
\<close>

section \<open>Capacities\<close>

text \<open>
  The template parameters enter through \<open>sizeof(K_t)\<close> and \<open>sizeof(V_t)\<close>. The header struct has 19
  characters, two 32-bit integers and two flags, with padding 36 bytes.
\<close>

record geometry =
  KEY_SIZE :: nat
  VALUE_SIZE :: nat

definition NODE_PAGE_SIZE :: nat where "NODE_PAGE_SIZE = 4096"
definition sizeof_NodeHeader :: nat where "sizeof_NodeHeader = 36"
definition PAGE_ID_SIZE :: nat where "PAGE_ID_SIZE = 4"

definition PHYS_KEYS_INTERNAL :: "geometry \<Rightarrow> nat" where
  "PHYS_KEYS_INTERNAL g = (NODE_PAGE_SIZE - sizeof_NodeHeader - PAGE_ID_SIZE) div (KEY_SIZE g + PAGE_ID_SIZE)"
definition MAX_KEYS_INTERNAL :: "geometry \<Rightarrow> nat" where
  "MAX_KEYS_INTERNAL g = PHYS_KEYS_INTERNAL g - 1"
definition CHILDREN_SIZE :: "geometry \<Rightarrow> nat" where
  "CHILDREN_SIZE g = PHYS_KEYS_INTERNAL g + 1"
definition MAX_CHILDREN :: "geometry \<Rightarrow> nat" where
  "MAX_CHILDREN g = CHILDREN_SIZE g - 1"
definition MIN_KEYS_INTERNAL :: "geometry \<Rightarrow> nat" where
  "MIN_KEYS_INTERNAL g = (2 * PHYS_KEYS_INTERNAL g - 1) div 3"
definition PHYS_SIZE_LEAF :: "geometry \<Rightarrow> nat" where
  "PHYS_SIZE_LEAF g = (NODE_PAGE_SIZE - sizeof_NodeHeader - PAGE_ID_SIZE) div (KEY_SIZE g + VALUE_SIZE g)"
definition MAX_KEYS_LEAF :: "geometry \<Rightarrow> nat" where
  "MAX_KEYS_LEAF g = PHYS_SIZE_LEAF g - 1"
definition MIN_KEYS_LEAF :: "geometry \<Rightarrow> nat" where
  "MIN_KEYS_LEAF g = (2 * PHYS_SIZE_LEAF g - 1) div 3"

lemmas capacity_defs = PHYS_KEYS_INTERNAL_def MAX_KEYS_INTERNAL_def CHILDREN_SIZE_def MAX_CHILDREN_def
  MIN_KEYS_INTERNAL_def PHYS_SIZE_LEAF_def MAX_KEYS_LEAF_def MIN_KEYS_LEAF_def NODE_PAGE_SIZE_def
  sizeof_NodeHeader_def PAGE_ID_SIZE_def

text \<open>The geometry of every index of the storage: 32-bit keys, record addresses as values.\<close>

definition index_geometry :: geometry where
  "index_geometry = \<lparr>KEY_SIZE = 4, VALUE_SIZE = 8\<rparr>"

section \<open>State\<close>

record ('k, 'v) node =
  node_id :: int
  is_leaf :: bool
  keys_size :: nat
  deleted :: bool
  ikeys :: "'k list"
  ichildren :: "int list"
  lkeys :: "'k list"
  lvals :: "'v list"
  next_leaf :: int

definition not_leaf :: exn where "not_leaf = Runtime_Error ''It is not leaf.''"
definition not_internal :: exn where "not_internal = Runtime_Error ''It is not internal.''"

definition children_size :: "('k, 'v) node \<Rightarrow> nat" where
  "children_size n = keys_size n + 1"

definition keys_of :: "('k, 'v) node \<Rightarrow> 'k list" where
  "keys_of n = (if is_leaf n then lkeys n else ikeys n)"

definition set_next :: "('k, 'v) node \<Rightarrow> int \<Rightarrow> ('k, 'v) node result" where
  "set_next n next_id = (if \<not> is_leaf n then Inl not_leaf else Inr (n\<lparr>next_leaf := next_id\<rparr>))"

definition get_next_id :: "('k, 'v) node \<Rightarrow> int result" where
  "get_next_id n = (if \<not> is_leaf n then Inl not_leaf else Inr (next_leaf n))"

definition set_key :: "('k, 'v) node \<Rightarrow> 'k \<Rightarrow> nat \<Rightarrow> ('k, 'v) node result" where
  "set_key n key idx =
     (if idx \<ge> keys_size n then Inl (Out_Of_Range ''Idx is out of range.'')
      else if is_leaf n then Inr (n\<lparr>lkeys := (lkeys n)[idx := key]\<rparr>)
      else Inr (n\<lparr>ikeys := (ikeys n)[idx := key]\<rparr>))"

definition get_key :: "('k, 'v) node \<Rightarrow> nat \<Rightarrow> 'k result" where
  "get_key n idx = rassert (idx < keys_size n) ''idx < size()'' (Inr (keys_of n ! idx))"

definition get_child_id :: "('k, 'v) node \<Rightarrow> nat \<Rightarrow> int result" where
  "get_child_id n idx =
     (if is_leaf n then Inl not_internal
      else rassert (idx < children_size n) ''idx < children_size()'' (Inr (ichildren n ! idx)))"

definition get_value :: "('k, 'v) node \<Rightarrow> nat \<Rightarrow> 'v result" where
  "get_value n idx =
     (if \<not> is_leaf n then Inl not_leaf
      else rassert (idx < keys_size n) ''idx < size()'' (Inr (lvals n ! idx)))"

definition can_lend :: "geometry \<Rightarrow> ('k, 'v) node \<Rightarrow> bool \<Rightarrow> bool" where
  "can_lend g n one_of_two_root_child =
     (if one_of_two_root_child then
        (if is_leaf n then keys_size n > MAX_KEYS_LEAF g div 2 else keys_size n > MAX_KEYS_INTERNAL g div 2)
      else (if is_leaf n then keys_size n > MIN_KEYS_LEAF g else keys_size n > MIN_KEYS_INTERNAL g))"

definition can_take :: "geometry \<Rightarrow> ('k, 'v) node \<Rightarrow> bool" where
  "can_take g n =
     (if is_leaf n then keys_size n < MAX_KEYS_LEAF g else keys_size n < MAX_KEYS_INTERNAL g)"

definition underflow :: "geometry \<Rightarrow> ('k, 'v) node \<Rightarrow> bool" where
  "underflow g n =
     (if is_leaf n then keys_size n < MIN_KEYS_LEAF g else keys_size n < MIN_KEYS_INTERNAL g)"

definition overflow :: "geometry \<Rightarrow> ('k, 'v) node \<Rightarrow> bool" where
  "overflow g n =
     (if is_leaf n then keys_size n > MAX_KEYS_LEAF g else keys_size n > MAX_KEYS_INTERNAL g)"

section \<open>Searching a node\<close>

text \<open>\<open>std::lower_bound\<close>: the first position whose key is not less than the one sought.\<close>

definition lower_bound :: "'k::linorder list \<Rightarrow> 'k \<Rightarrow> nat" where
  "lower_bound ks key = length (takeWhile (\<lambda>a. a < key) ks)"

definition used_keys :: "('k, 'v) node \<Rightarrow> 'k list" where
  "used_keys n = take (keys_size n) (keys_of n)"

definition find_child_idx :: "('k::linorder, 'v) node \<Rightarrow> 'k \<Rightarrow> nat result" where
  "find_child_idx n key =
     (if is_leaf n then Inl not_internal
      else let i = lower_bound (used_keys n) key
           in if i < keys_size n \<and> ikeys n ! i = key then Inr (i + 1) else Inr i)"

text \<open>
  \<open>find_key_idx_by_exact_cmp\<close>, with \<open>None\<close> for \<open>-1\<close>. No key type of the storage has \<open>SearchCmp\<close>,
  so \<open>find_key_idx_by_approx_comp\<close> is the same function.
\<close>

definition find_key_idx_by_exact_cmp :: "('k::linorder, 'v) node \<Rightarrow> 'k \<Rightarrow> nat option" where
  "find_key_idx_by_exact_cmp n key =
     (let i = lower_bound (used_keys n) key
      in if i \<ge> keys_size n \<or> keys_of n ! i \<noteq> key then None else Some i)"

definition find_key_idx_to_insert :: "geometry \<Rightarrow> ('k::linorder, 'v) node \<Rightarrow> 'k \<Rightarrow> nat result" where
  "find_key_idx_to_insert g n key =
     (let i = lower_bound (used_keys n) key
      in rassert (if is_leaf n then i < PHYS_SIZE_LEAF g else i < PHYS_KEYS_INTERNAL g)
           ''is_leaf() ? index < PHYS_SIZE_LEAF : index < PHYS_KEYS_INTERNAL'' (Inr i))"

section \<open>Moving keys between internal nodes\<close>

definition too_many_children :: exn where
  "too_many_children = Runtime_Error ''children_size() + count > MAX_CHILDREN''"

definition move_right_internal :: "geometry \<Rightarrow> ('k, 'v) node \<Rightarrow> nat \<Rightarrow> ('k, 'v) node result" where
  "move_right_internal g n count =
     (if children_size n + count > MAX_CHILDREN g then Inl too_many_children
      else Inr (n\<lparr>ikeys := copy_range (ikeys n) count (ikeys n) 0 (keys_size n),
                  ichildren := copy_range (ichildren n) count (ichildren n) 0 (children_size n),
                  keys_size := keys_size n + count\<rparr>))"

definition move_left_internal :: "('k, 'v) node \<Rightarrow> nat \<Rightarrow> ('k \<times> ('k, 'v) node) result" where
  "move_left_internal n count =
     (if count = 0 then Inl (Runtime_Error ''count == 0'')
      else if count > children_size n then Inl (Runtime_Error ''count > children_size()'')
      else if count > keys_size n then
        Inl (Undefined_Behaviour ''move_left_internal: negative range'')
      else Inr (ikeys n ! (count - 1),
             n\<lparr>ikeys := copy_range (ikeys n) 0 (ikeys n) count (keys_size n - count),
               ichildren := copy_range (ichildren n) 0 (ichildren n) count (children_size n - count),
               keys_size := keys_size n - count\<rparr>))"

text \<open>
  \<open>send_to_right_internal\<close>: the separator it returns is read from the left node at its new size.
\<close>

definition send_to_right_internal ::
  "geometry \<Rightarrow> ('k, 'v) node \<Rightarrow> ('k, 'v) node \<Rightarrow> nat \<Rightarrow> 'k \<Rightarrow> ('k \<times> ('k, 'v) node \<times> ('k, 'v) node) result"
where
  "send_to_right_internal g left right children_count mid_key =
     (if is_leaf left \<or> is_leaf right then Inl not_internal
      else let send_keys_count = children_count - 1 in
        rbind (move_right_internal g right children_count) (\<lambda>r1.
          let r2 = r1\<lparr>ikeys := (ikeys r1)[send_keys_count := mid_key]\<rparr>;
              r3 = r2\<lparr>ikeys := copy_range (ikeys r2) 0 (ikeys left)
                        (keys_size left - send_keys_count) send_keys_count,
                      ichildren := copy_range (ichildren r2) 0 (ichildren left)
                        (children_size left - children_count) children_count\<rparr>;
              left' = left\<lparr>keys_size := keys_size left - send_keys_count\<rparr>
          in Inr (ikeys left ! keys_size left', left', r3)))"

definition take_from_right_internal ::
  "geometry \<Rightarrow> ('k, 'v) node \<Rightarrow> ('k, 'v) node \<Rightarrow> nat \<Rightarrow> 'k \<Rightarrow> ('k \<times> ('k, 'v) node \<times> ('k, 'v) node) result"
where
  "take_from_right_internal g left right children_count mid_key =
     (if is_leaf left \<or> is_leaf right then Inl not_internal
      else if children_size left + children_count > MAX_CHILDREN g then Inl too_many_children
      else let old_size = keys_size left;
               take_keys_count = children_count - 1;
               ks = copy_range ((ikeys left)[old_size := mid_key]) (old_size + 1)
                      (ikeys right) 0 take_keys_count;
               cs = copy_range (ichildren left) (old_size + 1) (ichildren right) 0 children_count
           in rmap (\<lambda>(new_mid_key, right').
                (new_mid_key,
                 left\<lparr>ikeys := ks, ichildren := cs, keys_size := old_size + take_keys_count\<rparr>, right'))
              (move_left_internal right children_count))"

section \<open>Moving entries between leaves\<close>

definition too_many_keys :: exn where
  "too_many_keys = Runtime_Error ''size() + count > MAX_KEYS_LEAF''"

definition move_right_leaf :: "geometry \<Rightarrow> ('k, 'v) node \<Rightarrow> nat \<Rightarrow> ('k, 'v) node result" where
  "move_right_leaf g n count =
     (if keys_size n + count > MAX_KEYS_LEAF g then Inl too_many_keys
      else Inr (n\<lparr>lkeys := copy_range (lkeys n) count (lkeys n) 0 (keys_size n),
                  lvals := copy_range (lvals n) count (lvals n) 0 (keys_size n),
                  keys_size := keys_size n + count\<rparr>))"

definition move_left_leaf :: "('k, 'v) node \<Rightarrow> nat \<Rightarrow> ('k \<times> ('k, 'v) node) result" where
  "move_left_leaf n count =
     (if count > keys_size n then Inl (Runtime_Error ''count > size()'')
      else if count = 0 then Inr (lkeys n ! count, n)
      else Inr (lkeys n ! count,
             n\<lparr>lkeys := copy_range (lkeys n) 0 (lkeys n) count (keys_size n - count),
               lvals := copy_range (lvals n) 0 (lvals n) count (keys_size n - count),
               keys_size := keys_size n - count\<rparr>))"

definition send_to_right_leaf ::
  "geometry \<Rightarrow> ('k, 'v) node \<Rightarrow> ('k, 'v) node \<Rightarrow> nat \<Rightarrow> ('k \<times> ('k, 'v) node \<times> ('k, 'v) node) result"
where
  "send_to_right_leaf g left right count =
     (if \<not> is_leaf left \<or> \<not> is_leaf right then Inl not_leaf
      else rbind (move_right_leaf g right count) (\<lambda>r1.
        let r2 = r1\<lparr>lkeys := copy_range (lkeys r1) 0 (lkeys left) (keys_size left - count) count,
                    lvals := copy_range (lvals r1) 0 (lvals left) (keys_size left - count) count\<rparr>;
            left' = left\<lparr>keys_size := keys_size left - count\<rparr>
        in Inr (lkeys r2 ! 0, left', r2)))"

definition take_from_right_leaf ::
  "geometry \<Rightarrow> ('k, 'v) node \<Rightarrow> ('k, 'v) node \<Rightarrow> nat \<Rightarrow> ('k \<times> ('k, 'v) node \<times> ('k, 'v) node) result"
where
  "take_from_right_leaf g left right count =
     (if \<not> is_leaf left \<or> \<not> is_leaf right then Inl not_leaf
      else if keys_size left + count > MAX_KEYS_LEAF g then Inl too_many_keys
      else let left' = left\<lparr>lkeys := copy_range (lkeys left) (keys_size left) (lkeys right) 0 count,
                            lvals := copy_range (lvals left) (keys_size left) (lvals right) 0 count,
                            keys_size := keys_size left + count\<rparr>
           in rmap (\<lambda>(new_mid_key, right'). (new_mid_key, left', right')) (move_left_leaf right count))"

section \<open>Inserting and removing\<close>

definition push_back_to_internal :: "('k, 'v) node \<Rightarrow> int \<Rightarrow> ('k, 'v) node result" where
  "push_back_to_internal n child_id =
     (if keys_size n \<noteq> 0 then
        Inl (Runtime_Error ''For not empty internal nodes use insert_in_internal(key, right_child_id)'')
      else Inr (n\<lparr>ichildren := (ichildren n)[0 := child_id]\<rparr>))"

definition insert_in_internal ::
  "geometry \<Rightarrow> ('k::linorder, 'v) node \<Rightarrow> 'k \<Rightarrow> int \<Rightarrow> ('k, 'v) node result" where
  "insert_in_internal g n key right_child_id =
     (if is_leaf n then Inl not_internal
      else rbind (find_key_idx_to_insert g n key) (\<lambda>i.
        Inr (n\<lparr>ikeys := (copy_range (ikeys n) (i + 1) (ikeys n) i (keys_size n - i))[i := key],
               ichildren := (copy_range (ichildren n) (i + 2) (ichildren n) (i + 1)
                              (children_size n - (i + 1)))[i + 1 := right_child_id],
               keys_size := keys_size n + 1\<rparr>)))"

definition insert_in_leaf ::
  "geometry \<Rightarrow> ('k::linorder, 'v) node \<Rightarrow> 'k \<Rightarrow> 'v \<Rightarrow> ('k, 'v) node result" where
  "insert_in_leaf g n key val =
     (if \<not> is_leaf n then Inl not_leaf
      else rbind (find_key_idx_to_insert g n key) (\<lambda>i.
        Inr (n\<lparr>lkeys := (copy_range (lkeys n) (i + 1) (lkeys n) i (keys_size n - i))[i := key],
               lvals := (copy_range (lvals n) (i + 1) (lvals n) i (keys_size n - i))[i := val],
               keys_size := keys_size n + 1\<rparr>)))"

definition remove_from_internal :: "('k, 'v) node \<Rightarrow> nat \<Rightarrow> ('k, 'v) node result" where
  "remove_from_internal n key_idx =
     (if is_leaf n then Inl not_internal
      else if key_idx \<ge> keys_size n then
        Inl (Out_Of_Range (''Key index out of range: index='' @ show_nat key_idx @ '', size=''
          @ show_nat (keys_size n) @ ''.''))
      else Inr (n\<lparr>ikeys := copy_range (ikeys n) key_idx (ikeys n) (key_idx + 1) (keys_size n - (key_idx + 1)),
                  ichildren := copy_range (ichildren n) (key_idx + 1) (ichildren n) (key_idx + 2)
                                 (children_size n - (key_idx + 2)),
                  keys_size := keys_size n - 1\<rparr>))"

definition leaf_index_error :: "('k, 'v) node \<Rightarrow> nat \<Rightarrow> exn" where
  "leaf_index_error n idx = Out_Of_Range (''Index out of range: index='' @ show_nat idx
     @ '', size='' @ show_nat (keys_size n) @ ''.'')"

definition remove_from_leaf_by_idx :: "('k, 'v) node \<Rightarrow> nat \<Rightarrow> ('k, 'v) node result" where
  "remove_from_leaf_by_idx n idx =
     (if \<not> is_leaf n then Inl not_leaf
      else if idx \<ge> keys_size n then Inl (leaf_index_error n idx)
      else Inr (n\<lparr>lkeys := copy_range (lkeys n) idx (lkeys n) (idx + 1) (keys_size n - (idx + 1)),
                  lvals := copy_range (lvals n) idx (lvals n) (idx + 1) (keys_size n - (idx + 1)),
                  keys_size := keys_size n - 1\<rparr>))"

definition remove_from_leaf :: "('k::linorder, 'v) node \<Rightarrow> 'k \<Rightarrow> (bool \<times> ('k, 'v) node) result" where
  "remove_from_leaf n key =
     (if \<not> is_leaf n then Inl not_leaf
      else case find_key_idx_by_exact_cmp n key of
             None \<Rightarrow> Inr (False, n)
           | Some i \<Rightarrow> rmap (\<lambda>n'. (True, n')) (remove_from_leaf_by_idx n i))"

definition update_value_by_idx :: "('k, 'v) node \<Rightarrow> nat \<Rightarrow> 'v \<Rightarrow> ('k, 'v) node result" where
  "update_value_by_idx n idx val =
     (if \<not> is_leaf n then Inl not_leaf
      else if idx \<ge> keys_size n then Inl (leaf_index_error n idx)
      else Inr (n\<lparr>lvals := (lvals n)[idx := val]\<rparr>))"

definition update_value :: "('k::linorder, 'v) node \<Rightarrow> 'k \<Rightarrow> 'v \<Rightarrow> (bool \<times> ('k, 'v) node) result" where
  "update_value n key val =
     (if \<not> is_leaf n then Inl not_leaf
      else case find_key_idx_by_exact_cmp n key of
             None \<Rightarrow> Inr (False, n)
           | Some i \<Rightarrow> rmap (\<lambda>n'. (True, n')) (update_value_by_idx n i val))"

end
