(* ===== verification/Star_Tree.thy ===== *)
theory Star_Tree
  imports Tree_Node
begin

text \<open>
  The index tree, \<open>apps/storage/include/qdb/storage/b_star_plus_tree.h\<close>, over its pages. A page is
  a node of \<open>Tree_Node\<close>; the metadata page 0 is the two fields \<open>tree_root_id\<close> and \<open>tree_first_leaf\<close>, and
  page \<open>i \<ge> 1\<close> is element \<open>i - 1\<close> of \<open>node_pages\<close>. A node object of the code is a node value: it is read
  once and saved after each change, so every function takes and returns the nodes it is given and
  the tree whose pages it has written. An exception ends the operation; the pages that it had
  already written by then are not part of the result.
\<close>

section \<open>State\<close>

text \<open>
  What a newly constructed node has in its arrays is whatever its buffer held. \<open>garbage k\<close> is the
  content of the \<open>k\<close>-th node constructed, an arbitrary function.
\<close>

record ('k, 'v) tree =
  tree_root_id :: int
  tree_first_leaf :: int
  node_pages :: "('k, 'v) node list"
  allocated :: nat
  garbage :: "nat \<Rightarrow> ('k, 'v) node"

text \<open>The template parameters: the sizes, and the value \<open>K_t()\<close>.\<close>

record 'k tree_params =
  geom :: geometry
  key0 :: 'k

definition tree_empty :: "('k, 'v) tree \<Rightarrow> bool" where
  "tree_empty t \<longleftrightarrow> tree_root_id t = -1"

definition set_root_and_first_leaf_id :: "('k, 'v) tree \<Rightarrow> int \<Rightarrow> int \<Rightarrow> ('k, 'v) tree" where
  "set_root_and_first_leaf_id t r f = t\<lparr>tree_root_id := r, tree_first_leaf := f\<rparr>"

definition set_root_id :: "('k, 'v) tree \<Rightarrow> int \<Rightarrow> ('k, 'v) tree" where
  "set_root_id t r = t\<lparr>tree_root_id := r\<rparr>"

definition set_null_root :: "('k, 'v) tree \<Rightarrow> ('k, 'v) tree" where
  "set_null_root t = set_root_and_first_leaf_id t (-1) (-1)"

text \<open>The tree on a new file.\<close>

definition new_tree :: "(nat \<Rightarrow> ('k, 'v) node) \<Rightarrow> ('k, 'v) tree" where
  "new_tree gar = \<lparr>tree_root_id = -1, tree_first_leaf = -1, node_pages = [], allocated = 0, garbage = gar\<rparr>"

section \<open>Nodes and pages\<close>

text \<open>\<open>Node(page_id, pager)\<close>. A negative page number is converted to an unsigned one.\<close>

definition read_node :: "('k, 'v) tree \<Rightarrow> int \<Rightarrow> ('k, 'v) node result" where
  "read_node t i =
     (if i < 0 \<or> int (length (node_pages t)) < i then
        Inl (Runtime_Error (''Failed to read complete page '' @ show_int (i mod 2 ^ 32)))
      else if i = 0 then
        Inl (Runtime_Error ''Headers don't match. Read: BSTARPLUSTREE. Expected: BSTARPLUSTREE_NODE.'')
      else let n = node_pages t ! (nat i - 1) in
        if node_id n \<noteq> i then
          Inl (Runtime_Error (''Page_id don't match. Read: '' @ show_int (node_id n)
            @ ''. Expected: '' @ show_int i @ ''.''))
        else if deleted n then
          Inl (Runtime_Error (''Read deleted Node with id '' @ show_int i @ ''.''))
        else Inr n)"

definition save :: "('k, 'v) tree \<Rightarrow> ('k, 'v) node \<Rightarrow> ('k, 'v) tree" where
  "save t n = t\<lparr>node_pages := (node_pages t)[nat (node_id n) - 1 := n]\<rparr>"

text \<open>\<open>Node(type, pager)\<close>: the first deleted page is used again, otherwise one is appended.\<close>

fun first_deleted :: "('k, 'v) node list \<Rightarrow> int option" where
  "first_deleted [] = None"
| "first_deleted (n # ns) = (if deleted n then Some (node_id n) else first_deleted ns)"

definition new_node :: "('k, 'v) tree \<Rightarrow> bool \<Rightarrow> ('k, 'v) node \<times> ('k, 'v) tree" where
  "new_node t leaf =
     (let g = garbage t (allocated t);
          pid = (case first_deleted (node_pages t) of
                   Some i \<Rightarrow> i | None \<Rightarrow> int (length (node_pages t)) + 1);
          n = g\<lparr>node_id := pid, is_leaf := leaf, keys_size := 0, deleted := False,
                next_leaf := (if leaf then -1 else next_leaf g)\<rparr>;
          t1 = (case first_deleted (node_pages t) of
                  Some _ \<Rightarrow> t | None \<Rightarrow> t\<lparr>node_pages := node_pages t @ [n]\<rparr>)
      in (n, save (t1\<lparr>allocated := allocated t + 1\<rparr>) n))"

definition mark_deleted :: "('k, 'v) tree \<Rightarrow> ('k, 'v) node \<Rightarrow> ('k, 'v) tree" where
  "mark_deleted t n = save t (n\<lparr>deleted := True\<rparr>)"

definition create_root :: "('k, 'v) tree \<Rightarrow> ('k, 'v) tree" where
  "create_root t =
     (case new_node t True of (root, t1) \<Rightarrow> set_root_and_first_leaf_id t1 (node_id root) (node_id root))"

definition top_of :: "(int \<times> nat) list \<Rightarrow> (int \<times> nat) result" where
  "top_of st = (case st of [] \<Rightarrow> Inl (Undefined_Behaviour ''top of an empty stack'') | x # _ \<Rightarrow> Inr x)"

text \<open>A difference of counts; a negative count would be a negative range of a copy.\<close>

definition sub_count :: "nat \<Rightarrow> nat \<Rightarrow> nat result" where
  "sub_count a b = (if b \<le> a then Inr (a - b) else Inl (Undefined_Behaviour ''negative count''))"

section \<open>Descending\<close>

text \<open>
  The loop of \<open>findLeaf\<close>, with the stack's top first. The next page depends only on the page and
  the key, so a descent through more nodes than there are pages repeats a page and never ends;
  \<open>no_return\<close> stands for that.
\<close>

definition no_return :: exn where
  "no_return = Undefined_Behaviour ''the loop does not end''"

fun descend :: "nat \<Rightarrow> ('k::linorder, 'v) tree \<Rightarrow> 'k \<Rightarrow> ('k, 'v) node \<Rightarrow> (int \<times> nat) list \<Rightarrow>
    (('k, 'v) node \<times> (int \<times> nat) list) result" where
  "descend 0 t key cur st = (if is_leaf cur then Inr (cur, st) else Inl no_return)"
| "descend (Suc fuel) t key cur st =
     (if is_leaf cur then Inr (cur, st)
      else rbind (find_child_idx cur key) (\<lambda>idx.
        rbind (get_child_id cur idx) (\<lambda>c.
          rbind (read_node t c) (\<lambda>n. descend fuel t key n ((node_id cur, idx) # st)))))"

definition findLeaf :: "('k::linorder, 'v) tree \<Rightarrow> 'k \<Rightarrow> (('k, 'v) node \<times> (int \<times> nat) list) option result" where
  "findLeaf t key =
     (if tree_empty t then Inr None
      else rbind (read_node t (tree_root_id t)) (\<lambda>root.
        rmap Some (descend (length (node_pages t)) t key root [])))"

text \<open>
  The loop of \<open>search\<close> with its \<open>Iterator\<close>. \<open>operator++\<close> is \<open>noexcept\<close>: an exception in it ends the
  process. The pairs of a page and an index below its size bound the number of different steps.
\<close>

fun noexcept :: "'a result \<Rightarrow> 'a result" where
  "noexcept (Inl e) = Inl (Assert_Failed ''std::terminate'')"
| "noexcept (Inr x) = Inr x"

fun scan_equal :: "nat \<Rightarrow> ('k, 'v) tree \<Rightarrow> ('k, 'v) node \<Rightarrow> nat \<Rightarrow> 'k \<Rightarrow> 'v list result" where
  "scan_equal 0 t n idx key = Inl no_return"
| "scan_equal (Suc fuel) t n idx key =
     rbind (get_key n idx) (\<lambda>k.
       if k \<noteq> key then Inr []
       else rbind (get_value n idx) (\<lambda>v.
         if idx + 1 = keys_size n then
           rbind (noexcept (get_next_id n)) (\<lambda>next_id.
             if next_id = -1 then Inr [v]
             else rbind (noexcept (read_node t next_id)) (\<lambda>n'.
               rmap ((#) v) (scan_equal fuel t n' 0 key)))
         else rmap ((#) v) (scan_equal fuel t n (idx + 1) key)))"

definition tree_search :: "('k::linorder, 'v) tree \<Rightarrow> 'k \<Rightarrow> 'v list result" where
  "tree_search t key =
     rbind (findLeaf t key) (\<lambda>r.
       case r of
         None \<Rightarrow> Inr []
       | Some (leaf, _) \<Rightarrow>
           (case find_key_idx_by_exact_cmp leaf key of
              None \<Rightarrow> Inr []
            | Some idx \<Rightarrow> scan_equal (Suc (sum_list (map keys_size (node_pages t)))) t leaf idx key))"

section \<open>Leaf overflow\<close>

type_synonym ('k, 'v) nodes2 = "('k, 'v) tree \<times> ('k, 'v) node \<times> ('k, 'v) node \<times> ('k, 'v) node"

definition redistributeLeaves2to2 ::
  "'k tree_params \<Rightarrow> ('k, 'v) tree \<Rightarrow> ('k, 'v) node \<Rightarrow> ('k, 'v) node \<Rightarrow> ('k, 'v) node \<Rightarrow> nat \<Rightarrow>
   ('k, 'v) nodes2 result" where
  "redistributeLeaves2to2 P t left right parent left_idx =
     (let s1 = (keys_size left + keys_size right) div 2
      in if keys_size left \<noteq> s1 then
           rbind (if keys_size left > s1 then send_to_right_leaf (geom P) left right (keys_size left - s1)
                  else take_from_right_leaf (geom P) left right (s1 - keys_size left))
             (\<lambda>(new_mid_key, left', right').
               rbind (set_key parent new_mid_key left_idx) (\<lambda>parent'.
                 Inr (save (save (save t right') left') parent', left', right', parent')))
         else Inr (t, left, right, parent))"

definition splitLeaf1to2 ::
  "'k::linorder tree_params \<Rightarrow> ('k, 'v) tree \<Rightarrow> ('k, 'v) node \<Rightarrow> ('k, 'v) tree result" where
  "splitLeaf1to2 P t node =
     (case new_node t False of (new_root, t1) \<Rightarrow>
        let t2 = set_root_id t1 (node_id new_root) in
        rbind (push_back_to_internal new_root (node_id node)) (\<lambda>root1.
          let t3 = save t2 root1 in
          case new_node t3 True of (right_leaf, t4) \<Rightarrow>
            rbind (insert_in_internal (geom P) root1 (key0 P) (node_id right_leaf)) (\<lambda>root2.
              let t5 = save t4 root2 in
              rbind (redistributeLeaves2to2 P t5 node right_leaf root2 0) (\<lambda>(t6, left, right, _).
                rmap (save t6) (set_next left (node_id right))))))"

text \<open>
  \<open>handleInternalOverflow\<close> and what it calls. The two functions that call each other shorten the
  stack of parents at each turn.
\<close>

definition redistributeInternal2to2 ::
  "'k tree_params \<Rightarrow> ('k, 'v) tree \<Rightarrow> ('k, 'v) node \<Rightarrow> ('k, 'v) node \<Rightarrow> ('k, 'v) node \<Rightarrow> nat \<Rightarrow>
   ('k, 'v) nodes2 result" where
  "redistributeInternal2to2 P t left right parent left_idx =
     (let s1 = (keys_size left + keys_size right) div 2 in
      rbind (get_key parent left_idx) (\<lambda>old_mid_key.
        if keys_size left \<noteq> s1 then
          rbind (if keys_size left > s1 then
                   send_to_right_internal (geom P) left right (keys_size left - s1) old_mid_key
                 else take_from_right_internal (geom P) left right (s1 - keys_size left) old_mid_key)
            (\<lambda>(new_mid_key, left', right').
              rbind (set_key parent new_mid_key left_idx) (\<lambda>parent'.
                Inr (save (save (save t right') left') parent', left', right', parent')))
        else Inr (t, left, right, parent)))"

definition splitInternal1to2 ::
  "'k::linorder tree_params \<Rightarrow> ('k, 'v) tree \<Rightarrow> ('k, 'v) node \<Rightarrow> ('k, 'v) tree result" where
  "splitInternal1to2 P t node =
     rassert (node_id node = tree_root_id t) ''node.id() == root_id()''
       (case new_node t False of (new_root, t1) \<Rightarrow>
          let t2 = set_root_id t1 (node_id new_root) in
          rbind (push_back_to_internal new_root (node_id node)) (\<lambda>root1.
            let t3 = save t2 root1 in
            case new_node t3 False of (right, t4) \<Rightarrow>
              rbind (insert_in_internal (geom P) root1 (key0 P) (node_id right)) (\<lambda>root2.
                let t5 = save t4 root2 in
                rmap fst (redistributeInternal2to2 P t5 node right root2 0))))"

text \<open>\<open>if (idx > 0) left = child idx - 1\<close>, and the same on the right.\<close>

definition left_sibling :: "('k, 'v) tree \<Rightarrow> ('k, 'v) node \<Rightarrow> nat \<Rightarrow> ('k, 'v) node option result" where
  "left_sibling t parent idx =
     (if idx > 0 then rmap Some (rbind (get_child_id parent (idx - 1)) (read_node t)) else Inr None)"

definition right_sibling :: "('k, 'v) tree \<Rightarrow> ('k, 'v) node \<Rightarrow> nat \<Rightarrow> ('k, 'v) node option result" where
  "right_sibling t parent idx =
     (if idx + 1 < children_size parent then rmap Some (rbind (get_child_id parent (idx + 1)) (read_node t))
      else Inr None)"

function handleInternalOverflow ::
    "'k::linorder tree_params \<Rightarrow> ('k, 'v) tree \<Rightarrow> ('k, 'v) node \<Rightarrow> (int \<times> nat) list \<Rightarrow> ('k, 'v) tree result"
  and splitInternal2to3 ::
    "'k tree_params \<Rightarrow> ('k, 'v) tree \<Rightarrow> ('k, 'v) node \<Rightarrow> ('k, 'v) node \<Rightarrow> (int \<times> nat) list \<Rightarrow> nat \<Rightarrow>
     ('k, 'v) tree result" where
  "handleInternalOverflow P t node st =
     (if node_id node = tree_root_id t then splitInternal1to2 P t node
      else rbind (top_of st) (\<lambda>(parent_id, idx).
        rbind (read_node t parent_id) (\<lambda>parent.
          rbind (left_sibling t parent idx) (\<lambda>left.
            if left \<noteq> None \<and> can_take (geom P) (the left) then
              rmap fst (redistributeInternal2to2 P t (the left) node parent (idx - 1))
            else rbind (right_sibling t parent idx) (\<lambda>right.
              if right \<noteq> None \<and> can_take (geom P) (the right) then
                rmap fst (redistributeInternal2to2 P t node (the right) parent idx)
              else if left \<noteq> None then splitInternal2to3 P t (the left) node st (idx - 1)
              else if right \<noteq> None then splitInternal2to3 P t node (the right) st idx
              else Inl (Runtime_Error ''Some wrong.''))))))"
| "splitInternal2to3 P t left right st left_idx =
     (let total = children_size left + children_size right;
          s1 = total div 3; s2 = (total - s1) div 2; s3 = total - s1 - s2
      in rbind (top_of st) (\<lambda>(parent_id, _).
        rbind (read_node t parent_id) (\<lambda>parent.
          rbind (get_key parent left_idx) (\<lambda>old_mid_1.
            rbind (get_key parent (left_idx + 1)) (\<lambda>old_mid_2.
              case new_node t False of (n3, t1) \<Rightarrow>
                rbind (send_to_right_internal (geom P) right n3 s3 old_mid_2) (\<lambda>(mid_2, right1, n3').
                  rbind (sub_count s2 (children_size right1)) (\<lambda>c.
                    rbind (send_to_right_internal (geom P) left right1 c old_mid_1) (\<lambda>(mid_1, left', right').
                      let t2 = save (save (save t1 n3') right') left' in
                      rbind (set_key parent mid_1 left_idx) (\<lambda>parent1.
                        rbind (insert_in_internal (geom P) parent1 mid_2 (node_id n3')) (\<lambda>parent2.
                          let t3 = save t2 parent2 in
                          if overflow (geom P) parent2 then handleInternalOverflow P t3 parent2 (tl st)
                          else Inr t3))))))))))"
  by pat_completeness auto
termination
  by (relation "measure (case_sum (\<lambda>(P, t, node, st). 2 * length st + 1)
                                  (\<lambda>(P, t, left, right, st, idx). 2 * length st))")
     (auto simp: top_of_def split: list.splits)

declare handleInternalOverflow.simps [simp del] splitInternal2to3.simps [simp del]

definition splitLeaves2to3 ::
  "'k::linorder tree_params \<Rightarrow> ('k, 'v) tree \<Rightarrow> ('k, 'v) node \<Rightarrow> ('k, 'v) node \<Rightarrow> (int \<times> nat) list \<Rightarrow> nat \<Rightarrow>
   ('k, 'v) tree result" where
  "splitLeaves2to3 P t left right st left_idx =
     (case new_node t True of (n3, t1) \<Rightarrow>
        let total = keys_size left + keys_size right;
            s1 = total div 3; s2 = (total - s1) div 2; s3 = total - s1 - s2
        in rbind (send_to_right_leaf (geom P) right n3 s3) (\<lambda>(mid_2, right1, n3').
          rbind (sub_count s2 (keys_size right1)) (\<lambda>c.
            rbind (send_to_right_leaf (geom P) left right1 c) (\<lambda>(mid_1, left', right2).
              rbind (get_next_id right2) (\<lambda>nx.
                rbind (set_next n3' nx) (\<lambda>n3''.
                  rbind (set_next right2 (node_id n3'')) (\<lambda>right'.
                    let t2 = save (save (save t1 n3'') right') left' in
                    rbind (top_of st) (\<lambda>(parent_id, _).
                      rbind (read_node t2 parent_id) (\<lambda>parent.
                        rbind (set_key parent mid_1 left_idx) (\<lambda>parent1.
                          rbind (insert_in_internal (geom P) parent1 mid_2 (node_id n3'')) (\<lambda>parent2.
                            let t3 = save t2 parent2 in
                            if overflow (geom P) parent2 then handleInternalOverflow P t3 parent2 (tl st)
                            else Inr t3)))))))))))"

definition handleLeafOverflow ::
  "'k::linorder tree_params \<Rightarrow> ('k, 'v) tree \<Rightarrow> ('k, 'v) node \<Rightarrow> (int \<times> nat) list \<Rightarrow> ('k, 'v) tree result" where
  "handleLeafOverflow P t leaf st =
     (if node_id leaf = tree_root_id t then splitLeaf1to2 P t leaf
      else rbind (top_of st) (\<lambda>(parent_id, idx).
        rbind (read_node t parent_id) (\<lambda>parent.
          rbind (left_sibling t parent idx) (\<lambda>left.
            if left \<noteq> None \<and> can_take (geom P) (the left) then
              rmap fst (redistributeLeaves2to2 P t (the left) leaf parent (idx - 1))
            else rbind (right_sibling t parent idx) (\<lambda>right.
              if right \<noteq> None \<and> can_take (geom P) (the right) then
                rmap fst (redistributeLeaves2to2 P t leaf (the right) parent idx)
              else if left \<noteq> None then splitLeaves2to3 P t (the left) leaf st (idx - 1)
              else if right \<noteq> None then splitLeaves2to3 P t leaf (the right) st idx
              else Inl (Runtime_Error ''This code must be unreachable.''))))))"

definition tree_insert ::
  "'k::linorder tree_params \<Rightarrow> ('k, 'v) tree \<Rightarrow> 'k \<Rightarrow> 'v \<Rightarrow> ('k, 'v) tree result" where
  "tree_insert P t key val =
     (let t1 = (if tree_empty t then create_root t else t) in
      rbind (findLeaf t1 key) (\<lambda>r.
        case r of
          None \<Rightarrow> Inl (Assert_Failed ''leaf'')
        | Some (leaf, st) \<Rightarrow>
            rbind (insert_in_leaf (geom P) leaf key val) (\<lambda>leaf'.
              let t2 = save t1 leaf' in
              if overflow (geom P) leaf' then handleLeafOverflow P t2 leaf' st else Inr t2)))"

section \<open>Underflow\<close>

definition redistributeLeaves3to3 ::
  "'k tree_params \<Rightarrow> ('k, 'v) tree \<Rightarrow> ('k, 'v) node \<Rightarrow> ('k, 'v) node \<Rightarrow> ('k, 'v) node \<Rightarrow> ('k, 'v) node \<Rightarrow>
   nat \<Rightarrow> ('k, 'v) tree result" where
  "redistributeLeaves3to3 P t left middle right parent left_idx =
     (let g = geom P; total = keys_size left + keys_size middle + keys_size right;
          s1 = total div 3; s2 = (total - s1) div 2; s3 = total - s1 - s2;
          finish = (\<lambda>(mid1, mid2, l, m, r).
            rbind (set_key parent mid1 left_idx) (\<lambda>p1.
              rbind (set_key p1 mid2 (left_idx + 1)) (\<lambda>p2.
                Inr (save (save (save (save t l) m) r) p2))))
      in if underflow g left then
           rassert (keys_size middle = MIN_KEYS_LEAF g \<and> can_lend g right False) ''right.can_lend()''
             (rbind (sub_count s1 (keys_size left)) (\<lambda>c1.
               rbind (take_from_right_leaf g left middle c1) (\<lambda>(mid1, l, m1).
                 rbind (sub_count s2 (keys_size m1)) (\<lambda>c2.
                   rbind (take_from_right_leaf g m1 right c2) (\<lambda>(mid2, m, r). finish (mid1, mid2, l, m, r))))))
         else if underflow g right then
           rassert (can_lend g left False \<and> keys_size middle = MIN_KEYS_LEAF g) ''left.can_lend()''
             (rbind (sub_count s3 (keys_size right)) (\<lambda>c2.
               rbind (send_to_right_leaf g middle right c2) (\<lambda>(mid2, m1, r).
                 rbind (sub_count s2 (keys_size m1)) (\<lambda>c1.
                   rbind (send_to_right_leaf g left m1 c1) (\<lambda>(mid1, l, m). finish (mid1, mid2, l, m, r))))))
         else Inl (Assert_Failed ''Wrong using redistributeLeaves3to3''))"

definition redistributeInternal3to3 ::
  "'k tree_params \<Rightarrow> ('k, 'v) tree \<Rightarrow> ('k, 'v) node \<Rightarrow> ('k, 'v) node \<Rightarrow> ('k, 'v) node \<Rightarrow> ('k, 'v) node \<Rightarrow>
   nat \<Rightarrow> ('k, 'v) tree result" where
  "redistributeInternal3to3 P t left middle right parent left_idx =
     (let g = geom P; total = children_size left + children_size middle + children_size right;
          s1 = total div 3; s2 = (total - s1) div 2; s3 = total - s1 - s2;
          finish = (\<lambda>(mid1, mid2, l, m, r).
            rbind (set_key parent mid1 left_idx) (\<lambda>p1.
              rbind (set_key p1 mid2 (left_idx + 1)) (\<lambda>p2.
                Inr (save (save (save (save t l) m) r) p2))))
      in rbind (get_key parent left_idx) (\<lambda>old_mid_1.
         rbind (get_key parent (left_idx + 1)) (\<lambda>old_mid_2.
         if underflow g left then
           rassert (keys_size middle = MIN_KEYS_INTERNAL g \<and> can_lend g right False) ''right.can_lend()''
             (rbind (sub_count s1 (children_size left)) (\<lambda>c1.
               rbind (take_from_right_internal g left middle c1 old_mid_1) (\<lambda>(mid1, l, m1).
                 rbind (sub_count s2 (children_size m1)) (\<lambda>c2.
                   rbind (take_from_right_internal g m1 right c2 old_mid_2) (\<lambda>(mid2, m, r).
                     finish (mid1, mid2, l, m, r))))))
         else if underflow g right then
           rassert (can_lend g left False \<and> keys_size middle = MIN_KEYS_INTERNAL g) ''left.can_lend()''
             (rbind (sub_count s3 (children_size right)) (\<lambda>c2.
               rbind (send_to_right_internal g middle right c2 old_mid_2) (\<lambda>(mid2, m1, r).
                 rbind (sub_count s2 (children_size m1)) (\<lambda>c1.
                   rbind (send_to_right_internal g left m1 c1 old_mid_1) (\<lambda>(mid1, l, m).
                     finish (mid1, mid2, l, m, r))))))
         else Inl (Assert_Failed ''Wrong using redistributeInternal3to3''))))"

definition mergeInternal2to1 ::
  "'k tree_params \<Rightarrow> ('k, 'v) tree \<Rightarrow> ('k, 'v) node \<Rightarrow> ('k, 'v) node \<Rightarrow> (int \<times> nat) list \<Rightarrow>
   ('k, 'v) tree result" where
  "mergeInternal2to1 P t left right st =
     rbind (top_of st) (\<lambda>(parent_id, _).
       rbind (read_node t parent_id) (\<lambda>parent.
         rassert (node_id parent = tree_root_id t \<and> children_size parent = 2)
           ''parent->id() == root_id() && parent->children_size() == 2''
           (rbind (get_key parent 0) (\<lambda>mid_key.
             rbind (take_from_right_internal (geom P) left right (children_size right) mid_key)
               (\<lambda>(_, left', right').
                 let t1 = set_root_id (save (save t right') left') (node_id left')
                 in Inr (mark_deleted (mark_deleted t1 parent) right'))))))"

definition mergeLeaves2to1 ::
  "'k tree_params \<Rightarrow> ('k, 'v) tree \<Rightarrow> ('k, 'v) node \<Rightarrow> ('k, 'v) node \<Rightarrow> (int \<times> nat) list \<Rightarrow>
   ('k, 'v) tree result" where
  "mergeLeaves2to1 P t left right st =
     rbind (top_of st) (\<lambda>(parent_id, _).
       rbind (read_node t parent_id) (\<lambda>parent.
         rassert (node_id parent = tree_root_id t \<and> children_size parent = 2)
           ''parent->id() == root_id() && parent->children_size() == 2''
           (rbind (get_next_id right) (\<lambda>nx.
             rassert (nx = -1) ''right.get_next_id() == -1''
               (rbind (take_from_right_leaf (geom P) left right (keys_size right)) (\<lambda>(_, left1, right').
                 rbind (set_next left1 (-1)) (\<lambda>left'.
                   let t1 = set_root_id (save (save t right') left') (node_id left')
                   in Inr (mark_deleted (mark_deleted t1 right') parent))))))))"

text \<open>
  The choice of a partner is the same text for leaves and for internal nodes, up to the operations
  called; each is written out, as in the code. \<open>child_node\<close> reads a child given by its index.
\<close>

definition child_node :: "('k, 'v) tree \<Rightarrow> ('k, 'v) node \<Rightarrow> nat \<Rightarrow> ('k, 'v) node result" where
  "child_node t parent idx = rbind (get_child_id parent idx) (read_node t)"

function handleInternalUnderflow ::
    "'k::linorder tree_params \<Rightarrow> ('k, 'v) tree \<Rightarrow> ('k, 'v) node \<Rightarrow> (int \<times> nat) list \<Rightarrow> ('k, 'v) tree result"
  and mergeInternal3to2 ::
    "'k tree_params \<Rightarrow> ('k, 'v) tree \<Rightarrow> ('k, 'v) node \<Rightarrow> ('k, 'v) node \<Rightarrow> ('k, 'v) node \<Rightarrow>
     (int \<times> nat) list \<Rightarrow> nat \<Rightarrow> ('k, 'v) tree result" where
  "handleInternalUnderflow P t node st =
     rbind (top_of st) (\<lambda>(parent_id, idx).
       rbind (read_node t parent_id) (\<lambda>parent.
         let two = (children_size parent = 2) in
         rbind (left_sibling t parent idx) (\<lambda>left.
           if left \<noteq> None \<and> can_lend (geom P) (the left) two then
             rmap fst (redistributeInternal2to2 P t (the left) node parent (idx - 1))
           else rbind (right_sibling t parent idx) (\<lambda>right.
             if right \<noteq> None \<and> can_lend (geom P) (the right) two then
               rmap fst (redistributeInternal2to2 P t node (the right) parent idx)
             else if two then
               (if right \<noteq> None then
                  rassert (keys_size node + keys_size (the right) \<le> MAX_KEYS_INTERNAL (geom P))
                    ''node.size() + right->size() <= MAX_KEYS_INTERNAL''
                    (mergeInternal2to1 P t node (the right) st)
                else if left \<noteq> None then
                  rassert (keys_size (the left) + keys_size node \<le> MAX_KEYS_INTERNAL (geom P))
                    ''left->size() + node.size() <= MAX_KEYS_INTERNAL''
                    (mergeInternal2to1 P t (the left) node st)
                else Inl (Assert_Failed ''This code must be unreachable.''))
             else if idx = 0 then
               rbind (child_node t parent (idx + 2)) (\<lambda>right_right.
                 if can_lend (geom P) right_right False then
                   redistributeInternal3to3 P t node (the right) right_right parent idx
                 else mergeInternal3to2 P t node (the right) right_right st idx)
             else if idx + 1 = children_size parent then
               rbind (child_node t parent (idx - 2)) (\<lambda>left_left.
                 if can_lend (geom P) left_left False then
                   redistributeInternal3to3 P t left_left (the left) node parent (idx - 2)
                 else mergeInternal3to2 P t left_left (the left) node st (idx - 2))
             else mergeInternal3to2 P t (the left) node (the right) st (idx - 1)))))"
| "mergeInternal3to2 P t left middle right st left_idx =
     (let total = children_size left + children_size middle + children_size right;
          s1 = total div 2; s2 = total - s1
      in rbind (top_of st) (\<lambda>(parent_id, _).
        rbind (read_node t parent_id) (\<lambda>parent.
          rbind (get_key parent left_idx) (\<lambda>old_mid_key_1.
            rbind (get_key parent (left_idx + 1)) (\<lambda>old_mid_key_2.
              rbind (sub_count s1 (children_size left)) (\<lambda>c1.
                rbind (take_from_right_internal (geom P) left middle c1 old_mid_key_1) (\<lambda>(new_mid_key_1, left', m1).
                  rbind (sub_count s2 (children_size m1)) (\<lambda>c2.
                    rbind (take_from_right_internal (geom P) m1 right c2 old_mid_key_2) (\<lambda>(_, m2, right').
                      rbind (get_next_id right') (\<lambda>nx.
                        rbind (set_next m2 nx) (\<lambda>middle'.
                          let t1 = save (save (save t left') right') middle' in
                          rassert (keys_size left' = s1) ''left.size() == s1''
                            (rassert (keys_size middle' = s2) ''middle.size() == s2''
                              (rassert (keys_size right' = 0) ''right.size() == 0''
                                (rbind (set_key parent new_mid_key_1 left_idx) (\<lambda>p1.
                                  rbind (remove_from_internal p1 (left_idx + 1)) (\<lambda>parent'.
                                    let t2 = mark_deleted (save t1 parent') right' in
                                    if node_id parent' \<noteq> tree_root_id t2 \<and> underflow (geom P) parent' then
                                      handleInternalUnderflow P t2 parent' (tl st)
                                    else Inr t2))))))))))))))))"
  by pat_completeness auto
termination
  by (relation "measure (case_sum (\<lambda>(P, t, node, st). 2 * length st + 1)
                                  (\<lambda>(P, t, left, middle, right, st, idx). 2 * length st))")
     (auto simp: top_of_def split: list.splits)

declare handleInternalUnderflow.simps [simp del] mergeInternal3to2.simps [simp del]

definition mergeLeaves3to2 ::
  "'k::linorder tree_params \<Rightarrow> ('k, 'v) tree \<Rightarrow> ('k, 'v) node \<Rightarrow> ('k, 'v) node \<Rightarrow> ('k, 'v) node \<Rightarrow>
   (int \<times> nat) list \<Rightarrow> nat \<Rightarrow> ('k, 'v) tree result" where
  "mergeLeaves3to2 P t left middle right st left_idx =
     (let total = keys_size left + keys_size middle + keys_size right;
          s1 = total div 2; s2 = total - s1
      in rbind (sub_count s1 (keys_size left)) (\<lambda>c1.
        rbind (take_from_right_leaf (geom P) left middle c1) (\<lambda>(new_mid, left', m1).
          rbind (sub_count s2 (keys_size m1)) (\<lambda>c2.
            rbind (take_from_right_leaf (geom P) m1 right c2) (\<lambda>(_, m2, right').
              rbind (get_next_id right') (\<lambda>nx.
                rbind (set_next m2 nx) (\<lambda>middle'.
                  let t1 = mark_deleted (save (save t left') middle') right' in
                  rassert (keys_size left' = s1) ''left.size() == s1''
                    (rassert (keys_size middle' = s2) ''middle.size() == s2''
                      (rassert (keys_size right' = 0) ''right.size() == 0''
                        (rbind (top_of st) (\<lambda>(parent_id, _).
                          rbind (read_node t1 parent_id) (\<lambda>parent.
                            rbind (set_key parent new_mid left_idx) (\<lambda>p1.
                              rbind (remove_from_internal p1 (left_idx + 1)) (\<lambda>parent'.
                                let t2 = save t1 parent' in
                                if node_id parent' \<noteq> tree_root_id t2 \<and> underflow (geom P) parent' then
                                  handleInternalUnderflow P t2 parent' (tl st)
                                else Inr t2))))))))))))))"

definition handleLeafUnderflow ::
  "'k::linorder tree_params \<Rightarrow> ('k, 'v) tree \<Rightarrow> ('k, 'v) node \<Rightarrow> (int \<times> nat) list \<Rightarrow> ('k, 'v) tree result" where
  "handleLeafUnderflow P t leaf st =
     rassert (node_id leaf \<noteq> tree_root_id t) ''leaf.id() != root_id()''
     (rbind (top_of st) (\<lambda>(parent_id, idx).
       rbind (read_node t parent_id) (\<lambda>parent.
         let two = (children_size parent = 2) in
         rbind (left_sibling t parent idx) (\<lambda>left.
           if left \<noteq> None \<and> can_lend (geom P) (the left) two then
             rmap fst (redistributeLeaves2to2 P t (the left) leaf parent (idx - 1))
           else rbind (right_sibling t parent idx) (\<lambda>right.
             if right \<noteq> None \<and> can_lend (geom P) (the right) two then
               rmap fst (redistributeLeaves2to2 P t leaf (the right) parent idx)
             else if two then
               (if right \<noteq> None then
                  rassert (keys_size leaf + keys_size (the right) \<le> MAX_KEYS_LEAF (geom P))
                    ''leaf.size() + right->size() <= MAX_KEYS_LEAF''
                    (mergeLeaves2to1 P t leaf (the right) st)
                else if left \<noteq> None then
                  rassert (keys_size (the left) + keys_size leaf \<le> MAX_KEYS_LEAF (geom P))
                    ''left->size() + leaf.size() <= MAX_KEYS_LEAF''
                    (mergeLeaves2to1 P t (the left) leaf st)
                else Inl (Assert_Failed ''This code must be unreachable.''))
             else if idx = 0 then
               rbind (child_node t parent (idx + 2)) (\<lambda>right_right.
                 if can_lend (geom P) right_right False then
                   redistributeLeaves3to3 P t leaf (the right) right_right parent idx
                 else mergeLeaves3to2 P t leaf (the right) right_right st idx)
             else if idx + 1 = children_size parent then
               rbind (child_node t parent (idx - 2)) (\<lambda>left_left.
                 if can_lend (geom P) left_left False then
                   redistributeLeaves3to3 P t left_left (the left) leaf parent (idx - 2)
                 else mergeLeaves3to2 P t left_left (the left) leaf st (idx - 2))
             else mergeLeaves3to2 P t (the left) leaf (the right) st (idx - 1))))))"

definition tree_remove :: "'k::linorder tree_params \<Rightarrow> ('k, 'v) tree \<Rightarrow> 'k \<Rightarrow> (bool \<times> ('k, 'v) tree) result" where
  "tree_remove P t key =
     rbind (findLeaf t key) (\<lambda>r.
       case r of
         None \<Rightarrow> Inr (False, t)
       | Some (leaf, st) \<Rightarrow>
           rbind (remove_from_leaf leaf key) (\<lambda>(removed, leaf').
             if \<not> removed then Inr (False, t)
             else let t1 = save t leaf' in
               if node_id leaf' = tree_root_id t1 then
                 (if keys_size leaf' = 0 then Inr (True, set_null_root (mark_deleted t1 leaf'))
                  else Inr (True, t1))
               else if underflow (geom P) leaf' then
                 rmap (\<lambda>t2. (True, t2)) (handleLeafUnderflow P t1 leaf' st)
               else Inr (True, t1)))"

section \<open>Updating, range search\<close>

definition tree_update :: "('k::linorder, 'v) tree \<Rightarrow> 'k \<Rightarrow> 'v \<Rightarrow> (bool \<times> ('k, 'v) tree) result" where
  "tree_update t key val =
     rbind (findLeaf t key) (\<lambda>r.
       case r of
         None \<Rightarrow> Inl (Runtime_Error ''Key not found in b*+-tree.'')
       | Some (leaf, _) \<Rightarrow> rmap (\<lambda>(b, leaf'). (b, save t leaf')) (update_value leaf key val))"

definition update_or_insert ::
  "'k::linorder tree_params \<Rightarrow> ('k, 'v) tree \<Rightarrow> 'k \<Rightarrow> 'v \<Rightarrow> ('k, 'v) tree result" where
  "update_or_insert P t key val =
     rbind (findLeaf t key) (\<lambda>r.
       case r of
         None \<Rightarrow> tree_insert P t key val
       | Some (leaf, _) \<Rightarrow> rmap (\<lambda>(_, leaf'). save t leaf') (update_value leaf key val))"

text \<open>
  The inner loop of \<open>rangeSearch\<close> over one leaf, from index \<open>i\<close>: the pairs found and whether a key
  above \<open>high\<close> ended the search. The outer loop then constructs the node of the next leaf's number
  whatever that number is, since the pointer it tests is never null.
\<close>

fun range_leaf :: "('k::linorder \<times> 'v) list \<Rightarrow> 'k \<Rightarrow> 'k \<Rightarrow> ('k \<times> 'v) list \<times> bool" where
  "range_leaf [] low high = ([], False)"
| "range_leaf ((k, v) # kvs) low high =
     (if high < k then ([], True)
      else case range_leaf kvs low high of
             (r, stop) \<Rightarrow> (if low \<le> k then (k, v) # r else r, stop))"

definition leaf_kvs :: "('k, 'v) node \<Rightarrow> ('k \<times> 'v) list" where
  "leaf_kvs n = zip (take (keys_size n) (lkeys n)) (take (keys_size n) (lvals n))"

fun range_loop :: "nat \<Rightarrow> ('k::linorder, 'v) tree \<Rightarrow> ('k, 'v) node \<Rightarrow> 'k \<Rightarrow> 'k \<Rightarrow> ('k \<times> 'v) list result" where
  "range_loop 0 t leaf low high = Inl no_return"
| "range_loop (Suc fuel) t leaf low high =
     (case range_leaf (leaf_kvs leaf) low high of
        (r, True) \<Rightarrow> Inr r
      | (r, False) \<Rightarrow>
          rbind (get_next_id leaf) (\<lambda>nx.
            rbind (read_node t nx) (\<lambda>leaf'. rmap ((@) r) (range_loop fuel t leaf' low high))))"

definition rangeSearch :: "('k::linorder, 'v) tree \<Rightarrow> 'k \<Rightarrow> 'k \<Rightarrow> ('k \<times> 'v) list result" where
  "rangeSearch t low high =
     rbind (findLeaf t low) (\<lambda>r.
       case r of
         None \<Rightarrow> Inr []
       | Some (leaf, _) \<Rightarrow> range_loop (Suc (length (node_pages t))) t leaf low high)"

definition clear :: "('k, 'v) tree \<Rightarrow> ('k, 'v) tree" where
  "clear t = set_null_root (t\<lparr>node_pages := []\<rparr>)"

section \<open>The integrity check\<close>

text \<open>
  \<open>check_node_integrity\<close> returns the least and the greatest key below a node and whether everything
  below it is in order. The loop over the children carries the two keys and the verdict.
\<close>

definition min_allowed :: "geometry \<Rightarrow> ('k, 'v) node \<Rightarrow> bool \<Rightarrow> nat" where
  "min_allowed g n isRootChild =
     (if isRootChild then (if is_leaf n then MAX_KEYS_LEAF g div 2 else MAX_KEYS_INTERNAL g div 2)
      else (if is_leaf n then MIN_KEYS_LEAF g else MIN_KEYS_INTERNAL g))"

definition keys_increase :: "('k::linorder, 'v) node \<Rightarrow> bool" where
  "keys_increase n \<longleftrightarrow> (\<forall>i \<in> set [0..<keys_size n - 1]. keys_of n ! i < keys_of n ! (i + 1))"

definition integrity_step ::
  "('k::linorder, 'v) node \<Rightarrow> 'k \<times> 'k \<times> bool \<Rightarrow> nat \<Rightarrow> 'k \<times> 'k \<times> bool \<Rightarrow> 'k \<times> 'k \<times> bool" where
  "integrity_step n below i acc =
     (case below of (childMin, childMax, childValid) \<Rightarrow>
      case acc of (globalMin, globalMax, ok) \<Rightarrow>
        (if i = 0 then childMin else globalMin,
         if i = children_size n - 1 then childMax else globalMax,
         ok \<and> childValid \<and> \<not> (i > 0 \<and> ikeys n ! (i - 1) > childMin)
            \<and> \<not> (i < keys_size n \<and> childMax \<ge> ikeys n ! i)))"

fun check_node_integrity ::
  "nat \<Rightarrow> 'k::linorder tree_params \<Rightarrow> ('k, 'v) tree \<Rightarrow> int \<Rightarrow> bool \<Rightarrow> ('k \<times> 'k \<times> bool) result" where
  "check_node_integrity 0 P t i isRootChild = Inl no_return"
| "check_node_integrity (Suc fuel) P t i isRootChild =
     rbind (read_node t i) (\<lambda>n.
       let ok = ((node_id n = tree_root_id t \<or> \<not> keys_size n < min_allowed (geom P) n isRootChild)
                 \<and> \<not> overflow (geom P) n \<and> keys_increase n)
       in if is_leaf n then
            (if keys_size n = 0 then Inr (key0 P, key0 P, False)
             else rbind (get_key n 0) (\<lambda>lo. rbind (get_key n (keys_size n - 1)) (\<lambda>hi. Inr (lo, hi, ok))))
          else rfold (\<lambda>acc j.
                 rbind (get_child_id n j) (\<lambda>c.
                   rbind (check_node_integrity fuel P t c (node_id n = tree_root_id t)) (\<lambda>below.
                     Inr (integrity_step n below j acc))))
               (key0 P, key0 P, ok) [0..<children_size n])"

definition check_integrity :: "'k::linorder tree_params \<Rightarrow> ('k, 'v) tree \<Rightarrow> bool result" where
  "check_integrity P t =
     (if tree_root_id t = -1 then Inr True
      else rmap (\<lambda>(_, _, ok). ok)
             (check_node_integrity (Suc (length (node_pages t))) P t (tree_root_id t) False))"

end
