(* ===== verification/Node_Lists.thy ===== *)
theory Node_Lists
  imports Star_Tree
begin

text \<open>
  What the array operations of a node do to the lists they hold: the key-value pairs of a leaf, the
  separators and the children of an internal node. The capacity checks become conditions on the
  lengths of these lists.
\<close>

section \<open>Arrays of their physical length\<close>

definition phys :: "geometry \<Rightarrow> ('k, 'v) node \<Rightarrow> bool" where
  "phys g n \<longleftrightarrow> length (ikeys n) = PHYS_KEYS_INTERNAL g \<and> length (ichildren n) = CHILDREN_SIZE g \<and>
     length (lkeys n) = PHYS_SIZE_LEAF g \<and> length (lvals n) = PHYS_SIZE_LEAF g \<and>
     (if is_leaf n then keys_size n \<le> PHYS_SIZE_LEAF g else keys_size n \<le> PHYS_KEYS_INTERNAL g)"

definition kids :: "('k, 'v) node \<Rightarrow> int list" where
  "kids n = take (keys_size n + 1) (ichildren n)"

definition leaf_node :: "geometry \<Rightarrow> ('k, 'v) node \<Rightarrow> ('k \<times> 'v) list \<Rightarrow> bool" where
  "leaf_node g n kvs \<longleftrightarrow> phys g n \<and> is_leaf n \<and> leaf_kvs n = kvs"

definition int_node :: "geometry \<Rightarrow> ('k, 'v) node \<Rightarrow> 'k list \<Rightarrow> int list \<Rightarrow> bool" where
  "int_node g n ss cs \<longleftrightarrow> phys g n \<and> \<not> is_leaf n \<and> used_keys n = ss \<and> kids n = cs"

lemma leaf_node_size: "leaf_node g n kvs \<Longrightarrow> keys_size n = length kvs"
  by (auto simp: leaf_node_def leaf_kvs_def phys_def)

lemma leaf_node_keys:
  assumes "leaf_node g n kvs"
  shows "take (keys_size n) (lkeys n) = map fst kvs" "take (keys_size n) (lvals n) = map snd kvs"
  using assms by (auto simp: leaf_node_def leaf_kvs_def phys_def)

lemma leaf_nodeI:
  assumes "phys g n" "is_leaf n" "take (keys_size n) (lkeys n) = map fst kvs"
    "take (keys_size n) (lvals n) = map snd kvs"
  shows "leaf_node g n kvs"
  using assms by (simp add: leaf_node_def leaf_kvs_def zip_map_fst_snd)

lemma int_node_size: "int_node g n ss cs \<Longrightarrow> keys_size n = length ss"
  by (auto simp: int_node_def used_keys_def keys_of_def phys_def)

lemma int_node_kids:
  assumes "int_node g n ss cs"
  shows "take (length ss) (ikeys n) = ss" "take (length ss + 1) (ichildren n) = cs" "length cs = length ss + 1"
  using assms int_node_size [OF assms]
  by (auto simp: int_node_def used_keys_def keys_of_def kids_def phys_def CHILDREN_SIZE_def)

lemma leaf_key_nth:
  assumes "leaf_node g n kvs" "i < length kvs"
  shows "lkeys n ! i = fst (kvs ! i)" "lvals n ! i = snd (kvs ! i)"
  using leaf_node_keys [OF assms(1)] leaf_node_size [OF assms(1)] assms(2) by (metis nth_map nth_take)+

lemma used_keys_leaf: "leaf_node g n kvs \<Longrightarrow> used_keys n = map fst kvs"
  using leaf_node_keys by (auto simp: used_keys_def keys_of_def leaf_node_def)

text \<open>The overflow and underflow tests on a leaf.\<close>

lemma leaf_tests:
  assumes "leaf_node g n kvs"
  shows "overflow g n \<longleftrightarrow> length kvs > MAX_KEYS_LEAF g" "underflow g n \<longleftrightarrow> length kvs < MIN_KEYS_LEAF g"
    and "can_take g n \<longleftrightarrow> length kvs < MAX_KEYS_LEAF g"
    and "can_lend g n two \<longleftrightarrow> length kvs > (if two then MAX_KEYS_LEAF g div 2 else MIN_KEYS_LEAF g)"
  using assms leaf_node_size [OF assms]
  by (simp_all add: overflow_def underflow_def can_take_def can_lend_def leaf_node_def)

section \<open>Searching\<close>

lemma lower_bound_le: "lower_bound ks key \<le> length ks"
  by (simp add: lower_bound_def length_takeWhile_le)

lemma lower_bound_split:
  "take (lower_bound ks key) ks = takeWhile (\<lambda>a. a < key) ks"
  "drop (lower_bound ks key) ks = dropWhile (\<lambda>a. a < key) ks"
  by (simp_all add: lower_bound_def takeWhile_eq_take [symmetric] dropWhile_eq_drop [symmetric])

text \<open>\<open>find_child_idx\<close> is the number of separators that are not above the key.\<close>

lemma dropWhile_equal_head:
  assumes "sorted_wrt (<) ks"
  shows "length (takeWhile (\<lambda>a. a \<le> key) ks) =
    (if lower_bound ks key < length ks \<and> ks ! lower_bound ks key = key then lower_bound ks key + 1
     else lower_bound ks (key::'k::linorder))"
  using assms
proof (induction ks)
  case Nil
  then show ?case by (simp add: lower_bound_def)
next
  case (Cons a ks)
  show ?case
  proof (cases "a < key")
    case True
    then show ?thesis using Cons by (auto simp: lower_bound_def)
  next
    case ge: False
    show ?thesis
    proof (cases "a = key")
      case True
      have "takeWhile (\<lambda>b. b \<le> key) ks = []"
        using Cons.prems True by (cases ks) auto
      then show ?thesis using True by (simp add: lower_bound_def)
    next
      case False
      then have "\<not> a \<le> key" using ge by auto
      then show ?thesis using ge by (simp add: lower_bound_def)
    qed
  qed
qed

lemma find_child_idx_count:
  assumes "int_node g n ss cs" "sorted_wrt (<) ss"
  shows "find_child_idx n key = Inr (length (takeWhile (\<lambda>a. a \<le> key) ss))"
proof -
  have nth: "i < length ss \<Longrightarrow> ikeys n ! i = ss ! i" for i
    using int_node_kids(1) [OF assms(1)] by (metis nth_take)
  have u: "used_keys n = ss" "\<not> is_leaf n" using assms(1) by (simp_all add: int_node_def)
  show ?thesis
    unfolding find_child_idx_def Let_def dropWhile_equal_head [OF assms(2)]
    using int_node_size [OF assms(1)] nth u by auto
qed

lemma get_child:
  assumes "int_node g n ss cs" "i < length cs"
  shows "get_child_id n i = Inr (cs ! i)"
proof -
  have "ichildren n ! i = cs ! i"
    using int_node_kids(2,3) [OF assms(1)] assms(2) by (metis nth_take)
  then show ?thesis
    using assms int_node_size [OF assms(1)] int_node_kids(3) [OF assms(1)]
    by (simp add: get_child_id_def children_size_def int_node_def)
qed

lemma map_of_sorted_nth:
  assumes "sorted_wrt (<) (map fst kvs)" "i < length kvs" "fst (kvs ! i) = (key::'k::linorder)"
  shows "map_of kvs key = Some (snd (kvs ! i))"
proof -
  have "distinct (map fst kvs)" using assms(1) strict_sorted_iff by blast
  then show ?thesis using assms(2,3) by (metis map_of_eq_Some_iff nth_mem prod.collapse)
qed

text \<open>The exact search finds the pair exactly when the key is there.\<close>

lemma find_exact:
  assumes n: "leaf_node g n kvs" and srt: "sorted_wrt (<) (map fst kvs)"
  shows "find_key_idx_by_exact_cmp n key =
    (if key \<in> fst ` set kvs then Some (lower_bound (map fst kvs) key) else None)"
    and "key \<in> fst ` set kvs \<Longrightarrow> lower_bound (map fst kvs) key < length kvs \<and>
      fst (kvs ! lower_bound (map fst kvs) key) = key"
proof -
  let ?ks = "map fst kvs" and ?i = "lower_bound (map fst kvs) key"
  have there: "?i < length kvs \<and> fst (kvs ! ?i) = key" if "key \<in> fst ` set kvs"
  proof -
    have "key \<in> set ?ks" using that by simp
    moreover have "key \<notin> set (takeWhile (\<lambda>a. a < key) ?ks)" using set_takeWhileD by fastforce
    ultimately have m: "key \<in> set (dropWhile (\<lambda>a. a < key) ?ks)"
      by (metis Un_iff set_append takeWhile_dropWhile_id)
    then obtain a rest where d: "dropWhile (\<lambda>a. a < key) ?ks = a # rest" by (cases "dropWhile (\<lambda>a. a < key) ?ks") auto
    have "\<not> a < key" using d by (metis dropWhile_eq_Cons_conv)
    moreover have "sorted_wrt (<) (a # rest)"
      using srt d sorted_wrt_append by (metis takeWhile_dropWhile_id)
    ultimately have "a = key" using m d by fastforce
    have dr: "drop ?i ?ks = a # rest" using d by (simp add: lower_bound_split)
    then have i: "?i < length ?ks" by (metis drop_eq_Nil list.distinct(1) not_less)
    then have "?ks ! ?i = a" using dr by (metis Cons_nth_drop_Suc list.inject)
    then show ?thesis using i \<open>a = key\<close> by simp
  qed
  then show "key \<in> fst ` set kvs \<Longrightarrow> ?i < length kvs \<and> fst (kvs ! ?i) = key" .
  have nth: "keys_of n ! i = fst (kvs ! i)" if "i < length kvs" for i
    using leaf_node_keys(1) [OF n] leaf_node_size [OF n] that n
    by (metis keys_of_def leaf_node_def length_map nth_map nth_take)
  have miss: "key \<in> fst ` set kvs" if "?i < length kvs" "fst (kvs ! ?i) = key"
    using that nth_mem by (metis imageI)
  have e: "find_key_idx_by_exact_cmp n key =
      (if ?i \<ge> length kvs \<or> keys_of n ! ?i \<noteq> key then None else Some ?i)"
    by (simp add: find_key_idx_by_exact_cmp_def Let_def leaf_node_size [OF n] used_keys_leaf [OF n])
  show "find_key_idx_by_exact_cmp n key = (if key \<in> fst ` set kvs then Some ?i else None)"
  proof (cases "?i < length kvs \<and> fst (kvs ! ?i) = key")
    case True
    then show ?thesis using miss e nth by simp
  next
    case False
    then show ?thesis using there e nth by auto
  qed
qed

section \<open>Array steps\<close>

lemma array_insert:
  assumes "i \<le> sz" "sz < length xs" "take sz xs = ys"
  shows "take (sz + 1) ((copy_range xs (i + 1) xs i (sz - i))[i := x]) = take i ys @ x # drop i ys"
    and "length ((copy_range xs (i + 1) xs i (sz - i))[i := x]) = length xs"
proof -
  have fit: "i + 1 \<le> length xs" "i + (sz - i) \<le> length xs" using assms by simp_all
  have "take (i + 1 + (sz - i)) (copy_range xs (i + 1) xs i (sz - i))
      = take (i + 1) xs @ take (sz - i) (drop i xs)"
    using fit by (rule take_copy_range_through)
  then have t: "take (sz + 1) (copy_range xs (i + 1) xs i (sz - i)) = take (i + 1) xs @ take (sz - i) (drop i xs)"
    using assms(1) by simp
  have "take i xs = take i ys" "take (sz - i) (drop i xs) = drop i ys"
    using assms by (auto simp: take_drop min_def drop_take)
  moreover have "take (i + 1) xs = take i xs @ [xs ! i]"
    using assms by (simp add: take_Suc_conv_app_nth)
  ultimately have "take (sz + 1) (copy_range xs (i + 1) xs i (sz - i)) = take i ys @ xs ! i # drop i ys"
    using t by simp
  moreover have "length (take i ys) = i" using assms by auto
  ultimately show "take (sz + 1) ((copy_range xs (i + 1) xs i (sz - i))[i := x]) = take i ys @ x # drop i ys"
    unfolding take_update_swap by (simp add: list_update_append)
  show "length ((copy_range xs (i + 1) xs i (sz - i))[i := x]) = length xs"
    using assms by simp
qed

lemma array_remove:
  assumes "i < sz" "sz \<le> length xs" "take sz xs = ys"
  shows "take (sz - 1) (copy_range xs i xs (i + 1) (sz - (i + 1))) = take i ys @ drop (i + 1) ys"
    and "length (copy_range xs i xs (i + 1) (sz - (i + 1))) = length xs"
proof -
  have "take (i + (sz - (i + 1))) (copy_range xs i xs (i + 1) (sz - (i + 1)))
      = take i xs @ take (sz - (i + 1)) (drop (i + 1) xs)"
    using assms by (intro take_copy_range_through) simp_all
  moreover have "take i xs = take i ys" "take (sz - (i + 1)) (drop (i + 1) xs) = drop (i + 1) ys"
    using assms by (auto simp: min_def drop_take)
  ultimately show "take (sz - 1) (copy_range xs i xs (i + 1) (sz - (i + 1))) = take i ys @ drop (i + 1) ys"
    using assms(1) by simp
  show "length (copy_range xs i xs (i + 1) (sz - (i + 1))) = length xs"
    using assms by (intro length_copy_range) simp_all
qed

text \<open>Appending the first \<open>c\<close> elements of another array, and putting elements in front.\<close>

lemma array_append:
  assumes "sz + c \<le> length xs" "c \<le> sz'" "sz' \<le> length ws" "take sz xs = ys" "take sz' ws = zs"
  shows "take (sz + c) (copy_range xs sz ws 0 c) = ys @ take c zs"
    and "length (copy_range xs sz ws 0 c) = length xs"
proof -
  have "take (sz + c) (copy_range xs sz ws 0 c) = take sz xs @ take c (drop 0 ws)"
    using assms by (intro take_copy_range_through) simp_all
  then show "take (sz + c) (copy_range xs sz ws 0 c) = ys @ take c zs"
    using assms by (auto simp: min_def)
  show "length (copy_range xs sz ws 0 c) = length xs"
    using assms by (intro length_copy_range) simp_all
qed

lemma array_prepend:
  assumes "sz + c \<le> length xs" "c \<le> sz'" "sz' \<le> length ws" "take sz xs = ys" "take sz' ws = zs"
  defines "shifted \<equiv> copy_range xs c xs 0 sz"
  shows "take (sz + c) (copy_range shifted 0 ws (sz' - c) c) = drop (sz' - c) zs @ ys"
    and "length (copy_range shifted 0 ws (sz' - c) c) = length xs"
proof -
  have ls: "length shifted = length xs" unfolding shifted_def using assms by (intro length_copy_range) simp_all
  then show "length (copy_range shifted 0 ws (sz' - c) c) = length xs"
    using assms by (subst length_copy_range) simp_all
  have "take (c + sz) shifted = take c xs @ take sz (drop 0 xs)"
    unfolding shifted_def using assms by (intro take_copy_range_through) simp_all
  then have sh: "drop c (take (c + sz) shifted) = ys" using assms by (simp add: min_def)
  have mid: "take c (drop (sz' - c) ws) = drop (sz' - c) zs" and lm: "length (drop (sz' - c) zs) = c"
    using assms by (auto simp: drop_take)
  have "copy_range shifted 0 ws (sz' - c) c = drop (sz' - c) zs @ drop c shifted"
    unfolding copy_range_def mid by simp
  then show "take (sz + c) (copy_range shifted 0 ws (sz' - c) c) = drop (sz' - c) zs @ ys"
    using lm sh by (simp add: take_drop add.commute)
qed

lemma array_drop:
  assumes "c \<le> sz" "sz \<le> length xs" "take sz xs = ys"
  shows "take (sz - c) (copy_range xs 0 xs c (sz - c)) = drop c ys"
    and "length (copy_range xs 0 xs c (sz - c)) = length xs"
proof -
  have "take (0 + (sz - c)) (copy_range xs 0 xs c (sz - c)) = take 0 xs @ take (sz - c) (drop c xs)"
    using assms by (intro take_copy_range_through) simp_all
  then show "take (sz - c) (copy_range xs 0 xs c (sz - c)) = drop c ys"
    using assms by (auto simp: drop_take)
  show "length (copy_range xs 0 xs c (sz - c)) = length xs"
    using assms by (intro length_copy_range) simp_all
qed

section \<open>Leaf operations\<close>

definition same_place :: "('k, 'v) node \<Rightarrow> ('k, 'v) node \<Rightarrow> bool" where
  "same_place n n' \<longleftrightarrow> node_id n' = node_id n \<and> deleted n' = deleted n \<and> next_leaf n' = next_leaf n"

lemma same_place_refl [simp]: "same_place n n"
  by (simp add: same_place_def)

lemma same_place_trans: "same_place a b \<Longrightarrow> same_place b c \<Longrightarrow> same_place a c"
  by (simp add: same_place_def)

definition kv_insert :: "'k::linorder \<Rightarrow> 'v \<Rightarrow> ('k \<times> 'v) list \<Rightarrow> ('k \<times> 'v) list" where
  "kv_insert k v kvs = takeWhile (\<lambda>(a, _). a < k) kvs @ (k, v) # dropWhile (\<lambda>(a, _). a < k) kvs"

lemma length_kv_insert [simp]: "length (kv_insert k v kvs) = length kvs + 1"
proof -
  have "length (takeWhile P kvs) + length (dropWhile P kvs) = length kvs" for P
    by (metis length_append takeWhile_dropWhile_id)
  then show ?thesis by (simp add: kv_insert_def)
qed

lemma lower_bound_kvs: "lower_bound (map fst kvs) k = length (takeWhile (\<lambda>(a, _). a < k) kvs)"
  by (induction kvs) (auto simp: lower_bound_def)

lemma kv_insert_nth: "kv_insert k v kvs = take (lower_bound (map fst kvs) k) kvs @ (k, v) #
    drop (lower_bound (map fst kvs) k) kvs"
  unfolding lower_bound_kvs kv_insert_def by (metis takeWhile_eq_take dropWhile_eq_drop)

lemma insert_leaf:
  assumes n: "leaf_node g n kvs" and room: "length kvs < PHYS_SIZE_LEAF g"
  shows "\<exists>n'. insert_in_leaf g n k v = Inr n' \<and> leaf_node g n' (kv_insert k v kvs) \<and> same_place n n'"
proof -
  let ?i = "lower_bound (map fst kvs) k"
  have sz: "keys_size n = length kvs" by (rule leaf_node_size [OF n])
  have lf: "is_leaf n" using n by (simp add: leaf_node_def)
  have i: "?i \<le> length kvs" using lower_bound_le [of "map fst kvs" k] by simp
  have fi: "find_key_idx_to_insert g n k = Inr ?i"
    using i room lf by (simp add: find_key_idx_to_insert_def Let_def used_keys_leaf [OF n])
  have lens: "length (lkeys n) = PHYS_SIZE_LEAF g" "length (lvals n) = PHYS_SIZE_LEAF g"
    using n by (simp_all add: leaf_node_def phys_def)
  note tk = leaf_node_keys [OF n, unfolded sz]
  note ak = array_insert [of ?i "length kvs" "lkeys n", OF i _ tk(1), unfolded lens, OF room]
  note av = array_insert [of ?i "length kvs" "lvals n", OF i _ tk(2), unfolded lens, OF room]
  define n' where "n' = n\<lparr>lkeys := (copy_range (lkeys n) (?i + 1) (lkeys n) ?i (keys_size n - ?i))[?i := k],
    lvals := (copy_range (lvals n) (?i + 1) (lvals n) ?i (keys_size n - ?i))[?i := v], keys_size := keys_size n + 1\<rparr>"
  have "leaf_node g n' (kv_insert k v kvs)"
  proof (rule leaf_nodeI)
    show "phys g n'" using n room ak(2) av(2) lens sz by (simp add: n'_def phys_def leaf_node_def)
    show "is_leaf n'" using lf by (simp add: n'_def)
    show "take (keys_size n') (lkeys n') = map fst (kv_insert k v kvs)"
      using ak(1) [of k] sz by (simp add: n'_def kv_insert_nth take_map drop_map)
    show "take (keys_size n') (lvals n') = map snd (kv_insert k v kvs)"
      using av(1) [of v] sz by (simp add: n'_def kv_insert_nth take_map drop_map)
  qed
  moreover have "insert_in_leaf g n k v = Inr n'" using lf fi by (simp add: insert_in_leaf_def n'_def)
  ultimately show ?thesis by (auto simp: same_place_def n'_def)
qed

lemma send_right_leaf:
  assumes l: "leaf_node g l xs" and r: "leaf_node g r ys"
    and c: "c \<le> length xs" "length ys + c \<le> MAX_KEYS_LEAF g"
  shows "\<exists>k l' r'. send_to_right_leaf g l r c = Inr (k, l', r') \<and>
    leaf_node g l' (take (length xs - c) xs) \<and> leaf_node g r' (drop (length xs - c) xs @ ys) \<and>
    same_place l l' \<and> same_place r r' \<and>
    (drop (length xs - c) xs @ ys \<noteq> [] \<longrightarrow> k = fst (hd (drop (length xs - c) xs @ ys)))"
proof -
  let ?n = "length xs" and ?m = "length ys" and ?zs = "drop (length xs - c) xs @ ys"
  have sz: "keys_size l = ?n" "keys_size r = ?m" using leaf_node_size l r by auto
  have lf: "is_leaf l" "is_leaf r" using l r by (simp_all add: leaf_node_def)
  have lens: "length (lkeys l) = PHYS_SIZE_LEAF g" "length (lvals l) = PHYS_SIZE_LEAF g"
    "length (lkeys r) = PHYS_SIZE_LEAF g" "length (lvals r) = PHYS_SIZE_LEAF g"
    and n: "?n \<le> PHYS_SIZE_LEAF g" and m: "?m + c \<le> PHYS_SIZE_LEAF g"
    using l r sz c(2) by (auto simp: leaf_node_def phys_def MAX_KEYS_LEAF_def)
  note kl = leaf_node_keys [OF l, unfolded sz] and kr = leaf_node_keys [OF r, unfolded sz]
  note ak = array_prepend [of ?m c "lkeys r" ?n "lkeys l", OF _ c(1) _ kr(1) kl(1), unfolded lens, OF m n]
  note av = array_prepend [of ?m c "lvals r" ?n "lvals l", OF _ c(1) _ kr(2) kl(2), unfolded lens, OF m n]
  define l' where "l' = l\<lparr>keys_size := ?n - c\<rparr>"
  define r' where "r' = r\<lparr>lkeys := copy_range (copy_range (lkeys r) c (lkeys r) 0 ?m) 0 (lkeys l) (?n - c) c,
    lvals := copy_range (copy_range (lvals r) c (lvals r) 0 ?m) 0 (lvals l) (?n - c) c, keys_size := ?m + c\<rparr>"
  have L: "leaf_node g l' (take (?n - c) xs)"
  proof (rule leaf_nodeI)
    show "phys g l'" "is_leaf l'" using l n by (simp_all add: l'_def phys_def leaf_node_def)
    have "take (?n - c) (take ?n (lkeys l)) = map fst (take (?n - c) xs)"
      "take (?n - c) (take ?n (lvals l)) = map snd (take (?n - c) xs)"
      unfolding kl by (simp_all add: take_map)
    then show "take (keys_size l') (lkeys l') = map fst (take (?n - c) xs)"
      "take (keys_size l') (lvals l') = map snd (take (?n - c) xs)"
      by (simp_all add: l'_def min_def split: if_splits)
  qed
  have R: "leaf_node g r' ?zs"
  proof (rule leaf_nodeI)
    show "phys g r'" "is_leaf r'" using r m ak(2) av(2) by (simp_all add: r'_def phys_def leaf_node_def lens)
    show "take (keys_size r') (lkeys r') = map fst ?zs" "take (keys_size r') (lvals r') = map snd ?zs"
      using ak(1) av(1) by (simp_all add: r'_def drop_map)
  qed
  have "lkeys r' ! 0 = fst (hd ?zs)" if "?zs \<noteq> []"
    using leaf_key_nth(1) [OF R, of 0] that hd_conv_nth [OF that] by (metis length_greater_0_conv)
  moreover have "send_to_right_leaf g l r c = Inr (lkeys r' ! 0, l', r')"
    using lf sz c(2) by (simp add: send_to_right_leaf_def move_right_leaf_def l'_def r'_def Let_def)
  moreover have "same_place l l'" "same_place r r'" by (simp_all add: same_place_def l'_def r'_def)
  ultimately show ?thesis using L R by blast
qed

lemma take_right_leaf:
  assumes l: "leaf_node g l xs" and r: "leaf_node g r ys"
    and c: "c \<le> length ys" "length xs + c \<le> MAX_KEYS_LEAF g"
  shows "\<exists>k l' r'. take_from_right_leaf g l r c = Inr (k, l', r') \<and>
    leaf_node g l' (xs @ take c ys) \<and> leaf_node g r' (drop c ys) \<and>
    same_place l l' \<and> same_place r r' \<and> (drop c ys \<noteq> [] \<longrightarrow> k = fst (hd (drop c ys)))"
proof -
  let ?n = "length xs" and ?m = "length ys"
  have sz: "keys_size l = ?n" "keys_size r = ?m" using leaf_node_size l r by auto
  have lf: "is_leaf l" "is_leaf r" using l r by (simp_all add: leaf_node_def)
  have lens: "length (lkeys l) = PHYS_SIZE_LEAF g" "length (lvals l) = PHYS_SIZE_LEAF g"
    "length (lkeys r) = PHYS_SIZE_LEAF g" "length (lvals r) = PHYS_SIZE_LEAF g"
    and n: "?n + c \<le> PHYS_SIZE_LEAF g" and m: "?m \<le> PHYS_SIZE_LEAF g"
    using l r sz c(2) by (auto simp: leaf_node_def phys_def MAX_KEYS_LEAF_def)
  note kl = leaf_node_keys [OF l, unfolded sz] and kr = leaf_node_keys [OF r, unfolded sz]
  note ak = array_append [of ?n c "lkeys l" ?m "lkeys r", OF _ c(1) _ kl(1) kr(1), unfolded lens, OF n m]
  note av = array_append [of ?n c "lvals l" ?m "lvals r", OF _ c(1) _ kl(2) kr(2), unfolded lens, OF n m]
  note dk = array_drop [of c ?m "lkeys r", OF c(1) _ kr(1), unfolded lens, OF m]
  note dv = array_drop [of c ?m "lvals r", OF c(1) _ kr(2), unfolded lens, OF m]
  define l' where "l' = l\<lparr>lkeys := copy_range (lkeys l) ?n (lkeys r) 0 c,
    lvals := copy_range (lvals l) ?n (lvals r) 0 c, keys_size := ?n + c\<rparr>"
  define r' where "r' = (if c = 0 then r else r\<lparr>lkeys := copy_range (lkeys r) 0 (lkeys r) c (?m - c),
    lvals := copy_range (lvals r) 0 (lvals r) c (?m - c), keys_size := ?m - c\<rparr>)"
  have L: "leaf_node g l' (xs @ take c ys)"
  proof (rule leaf_nodeI)
    show "phys g l'" "is_leaf l'" using l n ak(2) av(2) by (simp_all add: l'_def phys_def leaf_node_def lens)
    show "take (keys_size l') (lkeys l') = map fst (xs @ take c ys)"
      "take (keys_size l') (lvals l') = map snd (xs @ take c ys)"
      using ak(1) av(1) by (simp_all add: l'_def take_map)
  qed
  have R: "leaf_node g r' (drop c ys)"
  proof (cases "c = 0")
    case True
    then show ?thesis using r by (simp add: r'_def)
  next
    case False
    show ?thesis
    proof (rule leaf_nodeI)
      show "phys g r'" "is_leaf r'"
        using r m dk(2) dv(2) False by (simp_all add: r'_def phys_def leaf_node_def lens)
      show "take (keys_size r') (lkeys r') = map fst (drop c ys)"
        "take (keys_size r') (lvals r') = map snd (drop c ys)"
        using dk(1) dv(1) False by (simp_all add: r'_def drop_map)
    qed
  qed
  have "lkeys r ! c = fst (hd (drop c ys))" if "drop c ys \<noteq> []"
    using leaf_key_nth(1) [OF r, of c] that by (simp add: hd_drop_conv_nth)
  moreover have "move_left_leaf r c = Inr (lkeys r ! c, r')"
    using c(1) sz by (simp add: move_left_leaf_def r'_def)
  then have "take_from_right_leaf g l r c = Inr (lkeys r ! c, l', r')"
    using lf sz c(2) by (simp add: take_from_right_leaf_def l'_def Let_def)
  moreover have "same_place l l'" "same_place r r'" by (simp_all add: same_place_def l'_def r'_def)
  ultimately show ?thesis using L R by blast
qed

lemma kvs_delete:
  assumes "sorted_wrt (<) (map fst kvs)" "i < length kvs" "fst (kvs ! i) = (k::'k::linorder)"
  shows "take i kvs @ drop (i + 1) kvs = filter (\<lambda>(a, _). a \<noteq> k) kvs"
proof -
  have split: "kvs = take i kvs @ kvs ! i # drop (i + 1) kvs" using assms(2) by (simp add: id_take_nth_drop)
  have "sorted_wrt (<) (map fst (take i kvs) @ k # map fst (drop (i + 1) kvs))"
    using assms(1,3) split by (metis list.simps(9) map_append)
  then have "\<forall>x \<in> set (take i kvs). fst x \<noteq> k" "\<forall>x \<in> set (drop (i + 1) kvs). fst x \<noteq> k"
    by (auto simp: sorted_wrt_append)
  then have "filter (\<lambda>(a, _). a \<noteq> k) (take i kvs @ kvs ! i # drop (i + 1) kvs) = take i kvs @ drop (i + 1) kvs"
    using assms(3) by (auto simp: filter_id_conv case_prod_beta)
  then show ?thesis using split by metis
qed

lemma remove_leaf:
  assumes n: "leaf_node g n kvs" and srt: "sorted_wrt (<) (map fst kvs)"
  shows "\<exists>n'. remove_from_leaf n k = Inr (k \<in> fst ` set kvs, n') \<and>
    leaf_node g n' (filter (\<lambda>(a, _). a \<noteq> k) kvs) \<and> same_place n n' \<and> (k \<notin> fst ` set kvs \<longrightarrow> n' = n)"
proof (cases "k \<in> fst ` set kvs")
  case False
  then have "filter (\<lambda>(a, _). a \<noteq> k) kvs = kvs" by (force simp: filter_id_conv)
  moreover have "remove_from_leaf n k = Inr (False, n)"
    using False n find_exact(1) [OF n srt, of k] by (simp add: remove_from_leaf_def leaf_node_def)
  ultimately show ?thesis using n False by auto
next
  case True
  let ?i = "lower_bound (map fst kvs) k" and ?n = "length kvs"
  have i: "?i < ?n" "fst (kvs ! ?i) = k" using find_exact(2) [OF n srt True] by auto
  have sz: "keys_size n = ?n" by (rule leaf_node_size [OF n])
  have lf: "is_leaf n" using n by (simp add: leaf_node_def)
  have lens: "length (lkeys n) = PHYS_SIZE_LEAF g" "length (lvals n) = PHYS_SIZE_LEAF g"
    and m: "?n \<le> PHYS_SIZE_LEAF g" using n sz by (auto simp: leaf_node_def phys_def)
  note tk = leaf_node_keys [OF n, unfolded sz]
  note ak = array_remove [of ?i ?n "lkeys n", OF i(1) _ tk(1), unfolded lens, OF m]
  note av = array_remove [of ?i ?n "lvals n", OF i(1) _ tk(2), unfolded lens, OF m]
  define n' where "n' = n\<lparr>lkeys := copy_range (lkeys n) ?i (lkeys n) (?i + 1) (?n - (?i + 1)),
    lvals := copy_range (lvals n) ?i (lvals n) (?i + 1) (?n - (?i + 1)), keys_size := ?n - 1\<rparr>"
  have "leaf_node g n' (take ?i kvs @ drop (?i + 1) kvs)"
  proof (rule leaf_nodeI)
    show "phys g n'" "is_leaf n'" using n m ak(2) av(2) by (simp_all add: n'_def phys_def leaf_node_def lens)
    show "take (keys_size n') (lkeys n') = map fst (take ?i kvs @ drop (?i + 1) kvs)"
      "take (keys_size n') (lvals n') = map snd (take ?i kvs @ drop (?i + 1) kvs)"
      using ak(1) av(1) by (simp_all add: n'_def take_map drop_map)
  qed
  moreover have "remove_from_leaf n k = Inr (True, n')"
    using True lf i sz find_exact(1) [OF n srt, of k]
    by (simp add: remove_from_leaf_def remove_from_leaf_by_idx_def n'_def)
  moreover have "same_place n n'" by (simp add: same_place_def n'_def)
  ultimately show ?thesis using True kvs_delete [OF srt i] by auto
qed

lemma update_leaf:
  assumes n: "leaf_node g n kvs" and srt: "sorted_wrt (<) (map fst kvs)"
  shows "\<exists>n'. update_value n k v = Inr (k \<in> fst ` set kvs, n') \<and> same_place n n' \<and>
    leaf_node g n' (map (\<lambda>(a, w). (a, if a = k then v else w)) kvs)"
proof (cases "k \<in> fst ` set kvs")
  case False
  then have "map (\<lambda>(a, w). (a, if a = k then v else w)) kvs = kvs" by (intro map_idI) force
  moreover have "update_value n k v = Inr (False, n)"
    using False n find_exact(1) [OF n srt, of k] by (simp add: update_value_def leaf_node_def)
  ultimately show ?thesis using n False by auto
next
  case True
  let ?i = "lower_bound (map fst kvs) k" and ?n = "length kvs"
  have i: "?i < ?n" "fst (kvs ! ?i) = k" using find_exact(2) [OF n srt True] by auto
  have sz: "keys_size n = ?n" by (rule leaf_node_size [OF n])
  have lf: "is_leaf n" using n by (simp add: leaf_node_def)
  define n' where "n' = n\<lparr>lvals := (lvals n)[?i := v]\<rparr>"
  note tk = leaf_node_keys [OF n, unfolded sz]
  have dist: "distinct (map fst kvs)" using srt strict_sorted_iff by blast
  have eq: "map (\<lambda>(a, w). (a, if a = k then v else w)) kvs = kvs[?i := (k, v)]"
  proof (rule nth_equalityI)
    fix j
    assume "j < length (map (\<lambda>(a, w). (a, if a = k then v else w)) kvs)"
    then have j: "j < ?n" by simp
    show "map (\<lambda>(a, w). (a, if a = k then v else w)) kvs ! j = kvs[?i := (k, v)] ! j"
    proof (cases "j = ?i")
      case True
      then show ?thesis using i by (simp add: case_prod_beta)
    next
      case False
      then have "fst (kvs ! j) \<noteq> k"
        using dist i j by (metis length_map nth_eq_iff_index_eq nth_map)
      then show ?thesis using False j by (simp add: case_prod_beta)
    qed
  qed simp
  have "leaf_node g n' (kvs[?i := (k, v)])"
  proof (rule leaf_nodeI)
    show "phys g n'" "is_leaf n'" using n by (simp_all add: n'_def phys_def leaf_node_def)
    show "take (keys_size n') (lvals n') = map snd (kvs[?i := (k, v)])"
      using tk(2) sz by (simp add: n'_def take_update_swap map_update)
    have "map fst (kvs[?i := (k, v)]) = map fst kvs"
      using i by (metis fst_conv list_update_id map_update)
    then show "take (keys_size n') (lkeys n') = map fst (kvs[?i := (k, v)])"
      using tk(1) sz by (simp add: n'_def)
  qed
  moreover have "update_value n k v = Inr (True, n')"
    using True lf i sz find_exact(1) [OF n srt, of k]
    by (simp add: update_value_def update_value_by_idx_def n'_def)
  moreover have "same_place n n'" by (simp add: same_place_def n'_def)
  ultimately show ?thesis using True by (auto simp: eq)
qed

section \<open>Internal nodes\<close>

lemma int_nodeI:
  assumes "phys g n" "\<not> is_leaf n" "take (keys_size n) (ikeys n) = ss" "take (keys_size n + 1) (ichildren n) = cs"
  shows "int_node g n ss cs"
  using assms by (simp add: int_node_def used_keys_def keys_of_def kids_def)

text \<open>
  The separators keep their order: a new one goes where the search puts it, and its right child
  behind it.
\<close>

lemma insert_internal:
  assumes n: "int_node g n ss cs" and room: "length ss < PHYS_KEYS_INTERNAL g"
  shows "\<exists>n'. insert_in_internal g n k c = Inr n' \<and> same_place n n' \<and>
    int_node g n' (take (lower_bound ss k) ss @ k # drop (lower_bound ss k) ss)
      (take (lower_bound ss k + 1) cs @ c # drop (lower_bound ss k + 1) cs)"
proof -
  let ?i = "lower_bound ss k" and ?n = "length ss"
  have sz: "keys_size n = ?n" by (rule int_node_size [OF n])
  have nl: "\<not> is_leaf n" "used_keys n = ss" using n by (simp_all add: int_node_def)
  have i: "?i \<le> ?n" by (rule lower_bound_le)
  have fi: "find_key_idx_to_insert g n k = Inr ?i"
    using i room nl by (simp add: find_key_idx_to_insert_def Let_def)
  have lens: "length (ikeys n) = PHYS_KEYS_INTERNAL g" "length (ichildren n) = PHYS_KEYS_INTERNAL g + 1"
    using n by (simp_all add: int_node_def phys_def CHILDREN_SIZE_def)
  note tk = int_node_kids [OF n]
  note ak = array_insert [of ?i ?n "ikeys n", OF i _ tk(1), unfolded lens, OF room]
  have i1: "?i + 1 \<le> ?n + 1" and room1: "?n + 1 < PHYS_KEYS_INTERNAL g + 1" using i room by simp_all
  note ac = array_insert [of "?i + 1" "?n + 1" "ichildren n", OF i1 _ tk(2), unfolded lens, OF room1]
  define n' where "n' = n\<lparr>ikeys := (copy_range (ikeys n) (?i + 1) (ikeys n) ?i (?n - ?i))[?i := k],
    ichildren := (copy_range (ichildren n) (?i + 2) (ichildren n) (?i + 1) (?n - ?i))[?i + 1 := c],
    keys_size := ?n + 1\<rparr>"
  have "int_node g n' (take ?i ss @ k # drop ?i ss) (take (?i + 1) cs @ c # drop (?i + 1) cs)"
  proof (rule int_nodeI)
    show "phys g n'"
      using n room ak(2) ac(2) by (simp add: n'_def phys_def int_node_def lens CHILDREN_SIZE_def)
    show "\<not> is_leaf n'" using nl by (simp add: n'_def)
    show "take (keys_size n') (ikeys n') = take ?i ss @ k # drop ?i ss"
      using ak(1) [of k] by (simp add: n'_def)
    show "take (keys_size n' + 1) (ichildren n') = take (?i + 1) cs @ c # drop (?i + 1) cs"
      using ac(1) [of c] by (simp add: n'_def)
  qed
  moreover have "insert_in_internal g n k c = Inr n'"
    using nl fi sz by (simp add: insert_in_internal_def n'_def children_size_def)
  ultimately show ?thesis by (auto simp: same_place_def n'_def)
qed

lemma set_key_internal:
  assumes n: "int_node g n ss cs" and i: "i < length ss"
  shows "\<exists>n'. set_key n k i = Inr n' \<and> same_place n n' \<and> int_node g n' (ss[i := k]) cs"
proof -
  define n' where "n' = n\<lparr>ikeys := (ikeys n)[i := k]\<rparr>"
  have sz: "keys_size n = length ss" by (rule int_node_size [OF n])
  have "int_node g n' (ss[i := k]) cs"
    using n int_node_kids [OF n] sz
    by (intro int_nodeI) (auto simp: n'_def phys_def int_node_def take_update_swap)
  moreover have "set_key n k i = Inr n'" using n i sz by (simp add: set_key_def n'_def int_node_def)
  ultimately show ?thesis by (auto simp: same_place_def n'_def)
qed

lemma remove_internal:
  assumes n: "int_node g n ss cs" and i: "i < length ss"
  shows "\<exists>n'. remove_from_internal n i = Inr n' \<and> same_place n n' \<and>
    int_node g n' (take i ss @ drop (i + 1) ss) (take (i + 1) cs @ drop (i + 2) cs)"
proof -
  let ?n = "length ss"
  have sz: "keys_size n = ?n" by (rule int_node_size [OF n])
  have nl: "\<not> is_leaf n" using n by (simp add: int_node_def)
  have lens: "length (ikeys n) = PHYS_KEYS_INTERNAL g" "length (ichildren n) = PHYS_KEYS_INTERNAL g + 1"
    and m: "?n \<le> PHYS_KEYS_INTERNAL g"
    using n sz by (auto simp: int_node_def phys_def CHILDREN_SIZE_def)
  note tk = int_node_kids [OF n]
  note ak = array_remove [of i ?n "ikeys n", OF i _ tk(1), unfolded lens, OF m]
  have i1: "i + 1 < ?n + 1" and m1: "?n + 1 \<le> PHYS_KEYS_INTERNAL g + 1" using i m by simp_all
  note ac = array_remove [of "i + 1" "?n + 1" "ichildren n", OF i1 _ tk(2), unfolded lens, OF m1]
  define n' where "n' = n\<lparr>ikeys := copy_range (ikeys n) i (ikeys n) (i + 1) (?n - (i + 1)),
    ichildren := copy_range (ichildren n) (i + 1) (ichildren n) (i + 2) (?n + 1 - (i + 2)),
    keys_size := ?n - 1\<rparr>"
  have "int_node g n' (take i ss @ drop (i + 1) ss) (take (i + 1) cs @ drop (i + 2) cs)"
  proof (rule int_nodeI)
    show "phys g n'" using n m ak(2) ac(2) by (simp add: n'_def phys_def int_node_def lens CHILDREN_SIZE_def)
    show "\<not> is_leaf n'" using nl by (simp add: n'_def)
    show "take (keys_size n') (ikeys n') = take i ss @ drop (i + 1) ss" using ak(1) by (simp add: n'_def)
    show "take (keys_size n' + 1) (ichildren n') = take (i + 1) cs @ drop (i + 2) cs"
      using ac(1) i by (cases ?n) (simp_all add: n'_def)
  qed
  moreover have "remove_from_internal n i = Inr n'"
    using nl i sz by (simp add: remove_from_internal_def n'_def children_size_def)
  ultimately show ?thesis by (auto simp: same_place_def n'_def)
qed

end
