(* ===== verification/Tree_Map.thy ===== *)
theory Tree_Map
  imports Node_Lists "HOL-Library.Product_Lexorder"
begin

text \<open>
  The index tree as a finite map, for the trees of at most two levels: nothing, one leaf, or a root
  above a chain of leaves. These are the trees that the code builds until its first split of an
  internal node. The order of keys and separators is the order of one list of items, in which a key
  comes behind an equal separator.
\<close>

section \<open>Items\<close>

definition key_items :: "('k \<times> 'v) list \<Rightarrow> ('k \<times> nat) list" where
  "key_items kvs = map (\<lambda>(k, _). (k, 1)) kvs"

fun flat :: "('k \<times> 'v) list list \<Rightarrow> 'k list \<Rightarrow> ('k \<times> nat) list" where
  "flat [] ss = []"
| "flat (kvs # kvss) [] = key_items kvs"
| "flat (kvs # kvss) (s # ss) = key_items kvs @ (s, 0) # flat kvss ss"

text \<open>The items before a leaf and behind it.\<close>

fun before :: "('k \<times> 'v) list list \<Rightarrow> 'k list \<Rightarrow> ('k \<times> nat) list" where
  "before (kvs # kvss) (s # ss) = key_items kvs @ (s, 0) # before kvss ss"
| "before _ _ = []"

fun behind :: "('k \<times> 'v) list list \<Rightarrow> 'k list \<Rightarrow> ('k \<times> nat) list" where
  "behind kvss [] = []"
| "behind kvss (s # ss) = (s, 0) # flat kvss ss"

abbreviation ascending :: "('k::linorder \<times> nat) list \<Rightarrow> bool" where
  "ascending \<equiv> sorted_wrt (<)"

lemma key_items_simps [simp]:
  "key_items [] = []" "key_items ((k, v) # kvs) = (k, 1) # key_items kvs"
  "key_items (xs @ ys) = key_items xs @ key_items ys"
  by (simp_all add: key_items_def)

lemma set_key_items: "(k, j) \<in> set (key_items kvs) \<longleftrightarrow> j = 1 \<and> k \<in> fst ` set kvs"
  by (induction kvs) auto

lemma key_items_cases: "y \<in> set (key_items kvs) \<Longrightarrow> \<exists>k. y = (k, 1) \<and> k \<in> fst ` set kvs"
  by (force simp: key_items_def)

lemma flat_single: "flat (kvs # kvss) ss = key_items kvs @ behind kvss ss"
  by (cases ss) simp_all

lemma flat_append: "length xs = length sx \<Longrightarrow> flat (xs @ ys) (sx @ sy) = before xs sx @ flat ys sy"
  by (induction xs sx rule: list_induct2) simp_all

lemma flat_at:
  "length xs = length sx \<Longrightarrow> flat (xs @ a # ys) (sx @ sy) = before xs sx @ key_items a @ behind ys sy"
  by (simp add: flat_append flat_single)

lemma flat_at2:
  "length xs = length sx \<Longrightarrow>
   flat (xs @ a # b # ys) (sx @ s # sy) = before xs sx @ key_items a @ (s, 0) # key_items b @ behind ys sy"
  by (simp add: flat_append flat_single)

lemma flat_keys:
  assumes "length kvss = length ss + 1"
  shows "filter (\<lambda>(_, j). j = 1) (flat kvss ss) = key_items (concat kvss)"
proof -
  have k: "filter (\<lambda>(_, j). j = 1) (key_items kvs) = key_items kvs" for kvs :: "('a \<times> 'b) list"
    by (induction kvs) auto
  show ?thesis using assms
  proof (induction kvss ss rule: flat.induct)
    case (2 kvs kvss)
    then show ?case using k by simp
  next
    case (3 kvs kvss s ss)
    then show ?case using k by simp
  qed simp
qed

lemma flat_seps:
  assumes "length kvss = length ss + 1"
  shows "map fst (filter (\<lambda>(_, j). j = 0) (flat kvss ss)) = ss"
proof -
  have k: "filter (\<lambda>(_, j). j = 0) (key_items kvs) = []" for kvs :: "('a \<times> 'b) list"
    by (induction kvs) auto
  show ?thesis using assms
    by (induction kvss ss rule: flat.induct) (simp_all add: k)
qed

lemma ascending_key_items: "ascending (key_items kvs) \<longleftrightarrow> sorted_wrt (<) (map fst kvs)"
  by (simp add: key_items_def sorted_wrt_map case_prod_beta)

lemma flat_sorted_keys:
  assumes "ascending (flat kvss ss)" "length kvss = length ss + 1"
  shows "sorted_wrt (<) (map fst (concat kvss))"
  using sorted_wrt_filter [OF assms(1), of "\<lambda>(_, j). j = 1"]
  unfolding flat_keys [OF assms(2)] ascending_key_items .

lemma flat_sorted_seps:
  assumes "ascending (flat kvss ss)" "length kvss = length ss + 1"
  shows "sorted_wrt (<) ss"
proof -
  have "sorted_wrt (<) (map fst xs)" if "ascending xs" "\<forall>x \<in> set xs. snd x = 0" for xs :: "('a \<times> nat) list"
    using that by (induction xs) (auto simp: less_prod_def')
  from this [OF sorted_wrt_filter [OF assms(1), of "\<lambda>(_, j). j = 0"]]
  show ?thesis by (simp add: flat_seps [OF assms(2)] case_prod_beta)
qed

section \<open>Where a key belongs\<close>

lemma before_snoc:
  assumes "length xs = length sx" "sx \<noteq> []"
  shows "\<exists>zs. before xs sx = zs @ [(last sx, 0)]"
  using assms by (induction xs sx rule: list_induct2) force+

lemma before_last:
  assumes "length xs = length sx" "sx \<noteq> []" "x \<in> set (before xs sx)" "ascending (before xs sx)"
  shows "x \<le> (last sx, 0)"
proof -
  obtain zs where "before xs sx = zs @ [(last sx, 0)]" using before_snoc [OF assms(1,2)] ..
  then show ?thesis using assms(3,4) by (auto simp: sorted_wrt_append less_imp_le)
qed

lemma item_below: "x \<le> (s, 0) \<Longrightarrow> s \<le> k \<Longrightarrow> x < (k::'k::linorder, 1::nat)"
  by (cases x) auto

lemma item_above: "(s, 0) \<le> x \<Longrightarrow> k < s \<Longrightarrow> (k::'k::linorder, 1::nat) < x"
  by (cases x) auto

lemma behind_first:
  assumes "x \<in> set (behind ys sy)" "ascending (behind ys sy)"
  shows "(hd sy, 0) \<le> x" "sy \<noteq> []"
  using assms by (cases sy; auto)+

text \<open>
  The child that \<open>find_child_idx\<close> picks splits leaves and separators so that everything before is
  below the key and everything behind is above.
\<close>

lemma child_split:
  fixes key :: "'k::linorder" and kvss :: "('k \<times> 'v) list list"
  assumes asc: "ascending (flat kvss ss)" and len: "length kvss = length ss + 1"
  obtains xs a ys sx sy where "kvss = xs @ a # ys" "ss = sx @ sy" "length xs = length sx"
    "length ys = length sy" "length sx = length (takeWhile (\<lambda>s. s \<le> key) ss)"
    "\<forall>x \<in> set (before xs sx). x < (key, 1)" "\<forall>x \<in> set (behind ys sy). (key, 1) < x"
proof -
  define sx where "sx = takeWhile (\<lambda>s. s \<le> key) ss"
  define sy where "sy = dropWhile (\<lambda>s. s \<le> key) ss"
  have ss: "ss = sx @ sy" by (simp add: sx_def sy_def)
  define xs where "xs = take (length sx) kvss"
  have lx: "length xs = length sx" using len ss by (simp add: xs_def)
  obtain a ys where kv: "drop (length sx) kvss = a # ys"
    using len ss by (cases "drop (length sx) kvss") auto
  have kvss: "kvss = xs @ a # ys" using kv by (metis append_take_drop_id xs_def)
  have ly: "length ys = length sy" using len ss lx kvss by simp
  have flat: "flat kvss ss = before xs sx @ key_items a @ behind ys sy"
    using flat_at [OF lx, of a ys sy] kvss ss by simp
  have ab: "ascending (before xs sx)" "ascending (behind ys sy)"
    using asc unfolding flat by (auto simp: sorted_wrt_append)
  have "x < (key, 1)" if "x \<in> set (before xs sx)" for x
  proof -
    have ne: "sx \<noteq> []" using that lx by (cases sx) auto
    then have "last sx \<le> key" unfolding sx_def using set_takeWhileD last_in_set by metis
    moreover have "x \<le> (last sx, 0)" using before_last [OF lx ne that ab(1)] .
    ultimately show ?thesis using item_below by blast
  qed
  moreover have "(key, 1) < x" if "x \<in> set (behind ys sy)" for x
  proof -
    have "(hd sy, 0) \<le> x" "sy \<noteq> []" using behind_first [OF that ab(2)] by auto
    then have "\<not> hd sy \<le> key" unfolding sy_def by (metis hd_dropWhile)
    then have "key < hd sy" by simp
    with \<open>(hd sy, 0) \<le> x\<close> show ?thesis by (rule item_above)
  qed
  ultimately show thesis using that [OF kvss ss lx ly] unfolding sx_def by blast
qed

section \<open>The map and its changes\<close>

definition tree_map :: "('k \<times> 'v) list list \<Rightarrow> 'k \<rightharpoonup> 'v" where
  "tree_map kvss = map_of (concat kvss)"

lemma keys_before:
  "length xs = length sx \<Longrightarrow> k \<in> fst ` set (concat xs) \<Longrightarrow> (k, 1) \<in> set (before xs sx)"
  by (induction xs sx rule: list_induct2) (auto simp: set_key_items)

lemma keys_flat:
  "length ys = length sy + 1 \<Longrightarrow> k \<in> fst ` set (concat ys) \<Longrightarrow> (k, 1) \<in> set (flat ys sy)"
proof (induction ys sy rule: flat.induct)
  case (2 kvs kvss)
  then show ?case by (auto simp: set_key_items)
next
  case (3 kvs kvss s ss)
  then show ?case by (auto simp: set_key_items image_Un)
qed simp

lemma keys_behind:
  "length ys = length sy \<Longrightarrow> k \<in> fst ` set (concat ys) \<Longrightarrow> (k, 1) \<in> set (behind ys sy)"
  using keys_flat [of ys "tl sy" k] by (cases sy) auto

lemma tree_map_at:
  assumes "length xs = length sx" "length ys = length sy"
    and "\<forall>x \<in> set (before xs sx). x < (k::'k::linorder, 1)" "\<forall>x \<in> set (behind ys sy). (k, 1) < x"
  shows "tree_map (xs @ a # ys) k = map_of a k"
proof -
  have "map_of (concat xs) k = None" "map_of (concat ys) k = None"
    using assms keys_before [of xs sx k] keys_behind [of ys sy k] by (auto simp: map_of_eq_None_iff)
  then show ?thesis by (simp add: tree_map_def map_add_def split: option.splits)
qed

lemma set_kv_insert: "set (kv_insert k v a) = insert (k, v) (set a)"
  unfolding kv_insert_def
  by (metis (no_types, lifting) Un_insert_right list.simps(15) set_append takeWhile_dropWhile_id)

lemma kv_insert_sorted:
  "sorted_wrt (<) (map fst a) \<Longrightarrow> k \<notin> fst ` set a \<Longrightarrow> sorted_wrt (<) (map fst (kv_insert (k::'k::linorder) v a))"
proof (induction a)
  case Nil
  then show ?case by (simp add: kv_insert_def)
next
  case (Cons x a)
  have "kv_insert k v (x # a) = (if fst x < k then x # kv_insert k v a else (k, v) # x # a)"
    by (simp add: kv_insert_def case_prod_beta)
  then show ?case using Cons by (auto simp: set_kv_insert not_less le_less dest: less_trans)
qed

lemma ascending_replace:
  assumes "ascending (p @ key_items a @ q)" "sorted_wrt (<) (map fst b)"
    and "\<And>k. k \<in> fst ` set b \<Longrightarrow> k \<in> fst ` set a \<or> (\<forall>x \<in> set p. x < (k, 1)) \<and> (\<forall>x \<in> set q. (k, 1) < x)"
  shows "ascending (p @ key_items b @ q)"
proof -
  have "\<forall>y \<in> set (key_items b). (\<forall>x \<in> set p. x < y) \<and> (\<forall>x \<in> set q. y < x)"
  proof
    fix y
    assume "y \<in> set (key_items b)"
    then obtain k where k: "y = (k, 1)" "k \<in> fst ` set b" using key_items_cases by blast
    show "(\<forall>x \<in> set p. x < y) \<and> (\<forall>x \<in> set q. y < x)"
    proof (cases "k \<in> fst ` set a")
      case True
      then have "y \<in> set (key_items a)" using k by (simp add: set_key_items)
      then show ?thesis using assms(1) by (auto simp: sorted_wrt_append)
    next
      case False
      then show ?thesis using assms(3) k by blast
    qed
  qed
  then show ?thesis using assms(1,2) by (auto simp: sorted_wrt_append ascending_key_items)
qed

text \<open>A separator may be put where a leaf is split; it may be moved between two leaves.\<close>

lemma ascending_split:
  assumes all: "ascending (p @ key_items (a' @ b') @ q)" and "a' \<noteq> []" "b' \<noteq> []" "s' = fst (hd b')"
  shows "ascending (p @ key_items a' @ (s', 0) # key_items b' @ q)"
proof -
  obtain k v b1 where b: "b' = (k, v) # b1" using assms(3) by (cases b') auto
  have s': "s' = k" using assms(4) b by simp
  obtain j w a1 where a: "a' = (j, w) # a1" using assms(2) by (cases a') auto
  have below: "x < (k, 0)" if "x \<in> set (p @ key_items a')" for x
  proof (cases "x \<in> set (key_items a')")
    case True
    then have "snd x = 1" "x < (k, 1)"
      using all key_items_cases [of x a'] by (auto simp: sorted_wrt_append b)
    then show ?thesis by (cases x) auto
  next
    case False
    then have "x < (j, 1)" "(j, 1) < (k, 1::nat)"
      using all that by (auto simp: sorted_wrt_append a b)
    then show ?thesis by (cases x) auto
  qed
  have above: "(k, 0) < x" if "x \<in> set (key_items b' @ q)" for x
  proof -
    have "(k, 1) \<le> x" using all that by (auto simp: sorted_wrt_append b less_imp_le)
    then show ?thesis by (cases x) auto
  qed
  show ?thesis using all below above unfolding s' by (auto simp: sorted_wrt_append)
qed

lemma ascending_join:
  "ascending (p @ key_items a @ (s, 0) # key_items b @ q) \<Longrightarrow> ascending (p @ key_items (a @ b) @ q)"
  by (auto simp: sorted_wrt_append)

lemma ascending_resplit:
  assumes "ascending (p @ key_items a @ (s, 0) # key_items b @ q)" "a @ b = a' @ b'"
    and "a' \<noteq> []" "b' \<noteq> []" "s' = fst (hd b')"
  shows "ascending (p @ key_items a' @ (s', 0) # key_items b' @ q)"
  using ascending_split [OF _ assms(3-5)] ascending_join [OF assms(1)] unfolding assms(2) by blast

lemma ascending_distinct:
  assumes "ascending (flat kvss ss)" "length kvss = length ss + 1"
  shows "distinct (map fst (concat kvss))"
  using flat_sorted_keys [OF assms] strict_sorted_iff by blast

lemma map_of_insert:
  assumes "distinct (map fst l)" "distinct (map fst l')" "set l' = insert (k, v) (set l)"
    and "k \<notin> fst ` set l"
  shows "map_of l' = (map_of l)(k \<mapsto> v)"
proof
  fix j
  have "map_of l' j = Some w \<longleftrightarrow> ((map_of l)(k \<mapsto> v)) j = Some w" for w
    using assms by (auto simp: map_of_eq_Some_iff image_iff)
  then show "map_of l' j = ((map_of l)(k \<mapsto> v)) j" by (metis not_None_eq)
qed

section \<open>Pages and nodes\<close>

definition valid :: "geometry \<Rightarrow> ('k, 'v) tree \<Rightarrow> bool" where
  "valid g t \<longleftrightarrow> (\<forall>i < length (node_pages t). node_id (node_pages t ! i) = int i + 1 \<and> phys g (node_pages t ! i))
     \<and> (\<forall>k. length (ikeys (garbage t k)) = PHYS_KEYS_INTERNAL g \<and> length (ichildren (garbage t k)) = CHILDREN_SIZE g
          \<and> length (lkeys (garbage t k)) = PHYS_SIZE_LEAF g \<and> length (lvals (garbage t k)) = PHYS_SIZE_LEAF g)"

definition on_page :: "('k, 'v) tree \<Rightarrow> int \<Rightarrow> bool" where
  "on_page t i \<longleftrightarrow> 1 \<le> i \<and> i \<le> int (length (node_pages t))"

lemma read_node_eq:
  assumes "valid g t"
  shows "read_node t i = Inr n \<longleftrightarrow> on_page t i \<and> node_pages t ! (nat i - 1) = n \<and> \<not> deleted n"
proof (cases "on_page t i")
  case True
  then have "nat i - 1 < length (node_pages t)" "int (nat i - 1) + 1 = i" by (auto simp: on_page_def)
  then have "node_id (node_pages t ! (nat i - 1)) = i" using assms by (auto simp: valid_def)
  then show ?thesis using True by (auto simp: read_node_def Let_def on_page_def)
next
  case False
  then show ?thesis by (auto simp: read_node_def Let_def on_page_def)
qed

lemma read_node_facts:
  assumes "valid g t" "read_node t i = Inr n"
  shows "on_page t i" "node_id n = i" "phys g n" "\<not> deleted n"
proof -
  show "on_page t i" "\<not> deleted n" using assms by (auto simp: read_node_eq)
  moreover have "node_pages t ! (nat i - 1) = n" using assms by (simp add: read_node_eq)
  moreover have "nat i - 1 < length (node_pages t)" "int (nat i - 1) + 1 = i"
    using \<open>on_page t i\<close> by (auto simp: on_page_def)
  ultimately show "node_id n = i" "phys g n" using assms(1) by (auto simp: valid_def)
qed

lemma save_facts:
  assumes "valid g t" "on_page t (node_id n)" "phys g n"
  shows "valid g (save t n)" "on_page (save t n) i = on_page t i"
    and "\<not> deleted n \<Longrightarrow> read_node (save t n) (node_id n) = Inr n"
    and "i \<noteq> node_id n \<Longrightarrow> read_node (save t n) i = Inr m \<longleftrightarrow> read_node t i = Inr m"
    and "deleted n \<Longrightarrow> \<not> is_ok (read_node (save t n) (node_id n))"
    and "tree_root_id (save t n) = tree_root_id t" "tree_first_leaf (save t n) = tree_first_leaf t"
proof -
  have idx: "nat (node_id n) - 1 < length (node_pages t)" "int (nat (node_id n) - 1) + 1 = node_id n"
    using assms(2) by (auto simp: on_page_def)
  show v: "valid g (save t n)"
    using assms(1,3) idx by (auto simp: valid_def save_def nth_list_update)
  show op: "on_page (save t n) i = on_page t i" for i by (simp add: on_page_def save_def)
  show "\<not> deleted n \<Longrightarrow> read_node (save t n) (node_id n) = Inr n"
    unfolding read_node_eq [OF v] op using assms(2) idx by (simp add: save_def)
  show "deleted n \<Longrightarrow> \<not> is_ok (read_node (save t n) (node_id n))"
    unfolding is_ok_iff read_node_eq [OF v] op using idx by (auto simp: save_def)
  show "i \<noteq> node_id n \<Longrightarrow> read_node (save t n) i = Inr m \<longleftrightarrow> read_node t i = Inr m"
  proof -
    assume "i \<noteq> node_id n"
    then have "node_pages (save t n) ! (nat i - 1) = node_pages t ! (nat i - 1)" if "on_page t i"
      using that assms(2) by (auto simp: save_def on_page_def nth_list_update)
    then show ?thesis unfolding read_node_eq [OF v] read_node_eq [OF assms(1)] op by auto
  qed
qed (simp_all add: save_def)

lemma new_node_facts:
  assumes v: "valid g t" and nn: "new_node t leaf = (n, t')"
  shows "valid g t'" "read_node t' (node_id n) = Inr n" "phys g n" "is_leaf n = leaf" "keys_size n = 0"
    and "leaf \<Longrightarrow> next_leaf n = -1"
    and "read_node t i = Inr m \<Longrightarrow> i \<noteq> node_id n \<and> read_node t' i = Inr m"
    and "tree_root_id t' = tree_root_id t" "tree_first_leaf t' = tree_first_leaf t" "garbage t' = garbage t"
proof -
  have first: "first_deleted ns = Some i \<Longrightarrow> \<exists>j < length ns. deleted (ns ! j) \<and> node_id (ns ! j) = i"
    for ns :: "('a, 'b) node list" and i
  proof (induction ns)
    case (Cons a ns)
    then show ?case by (cases "deleted a") (auto intro: exI [of _ 0] exI [of _ "Suc _"])
  qed simp
  define pid where "pid = (case first_deleted (node_pages t) of
    Some i \<Rightarrow> i | None \<Rightarrow> int (length (node_pages t)) + 1)"
  define n0 where "n0 = (garbage t (allocated t))\<lparr>node_id := pid, is_leaf := leaf, keys_size := 0, deleted := False,
    next_leaf := (if leaf then -1 else next_leaf (garbage t (allocated t)))\<rparr>"
  define t1 where "t1 = (case first_deleted (node_pages t) of
    Some _ \<Rightarrow> t | None \<Rightarrow> t\<lparr>node_pages := node_pages t @ [n0]\<rparr>)\<lparr>allocated := allocated t + 1\<rparr>"
  have "new_node t leaf = (n0, save t1 n0)"
    unfolding new_node_def Let_def pid_def [symmetric] n0_def [symmetric] t1_def [symmetric] ..
  then have n: "n = n0" "t' = save t1 n0" using nn by simp_all
  show leaf: "is_leaf n = leaf" "keys_size n = 0" "leaf \<Longrightarrow> next_leaf n = -1" by (simp_all add: n n0_def)
  show ph: "phys g n" using v by (simp add: n n0_def phys_def valid_def)
  have nid: "node_id n0 = pid" "\<not> deleted n0" by (simp_all add: n0_def)
  have v1: "valid g t1"
    using v ph nid by (auto simp: t1_def valid_def nth_append pid_def n less_Suc_eq split: option.splits)
  have on1: "on_page t1 pid"
  proof (cases "first_deleted (node_pages t)")
    case None
    then show ?thesis by (simp add: t1_def on_page_def pid_def)
  next
    case (Some i)
    then obtain j where "j < length (node_pages t)" "node_id (node_pages t ! j) = i" using first by blast
    then show ?thesis using v Some by (auto simp: t1_def on_page_def pid_def valid_def)
  qed
  note sv = save_facts [OF v1 _ ph [unfolded n], unfolded nid(1), OF on1]
  show "valid g t'" using sv(1) by (simp add: n)
  show "read_node t' (node_id n) = Inr n" using sv(3) nid by (simp add: n)
  show "tree_root_id t' = tree_root_id t" "tree_first_leaf t' = tree_first_leaf t" "garbage t' = garbage t"
    by (simp_all add: n save_def t1_def split: option.splits)
  show "read_node t i = Inr m \<Longrightarrow> i \<noteq> node_id n \<and> read_node t' i = Inr m"
  proof -
    assume r: "read_node t i = Inr m"
    then have on: "on_page t i" "node_pages t ! (nat i - 1) = m" "\<not> deleted m"
      using read_node_eq [OF v] by auto
    have "i \<noteq> pid"
    proof (cases "first_deleted (node_pages t)")
      case None
      then show ?thesis using on(1) by (simp add: pid_def on_page_def)
    next
      case (Some p)
      then obtain j where j: "j < length (node_pages t)" "deleted (node_pages t ! j)" "node_id (node_pages t ! j) = p"
        using first by blast
      then have "p = int j + 1" using v by (simp add: valid_def)
      then have "nat p - 1 = j" by simp
      then show ?thesis using on j Some by (auto simp: pid_def)
    qed
    moreover have "nat i - 1 < length (node_pages t)" using on(1) by (auto simp: on_page_def)
    then have "read_node t1 i = Inr m"
      unfolding read_node_eq [OF v1] using on
      by (auto simp: t1_def on_page_def nth_append split: option.splits)
    ultimately show ?thesis using sv(4) nid by (simp add: n)
  qed
qed

section \<open>The two-level tree\<close>

definition leaf_at :: "geometry \<Rightarrow> ('k, 'v) tree \<Rightarrow> int \<Rightarrow> ('k \<times> 'v) list \<Rightarrow> int \<Rightarrow> bool" where
  "leaf_at g t i kvs nx \<longleftrightarrow> (\<exists>n. read_node t i = Inr n \<and> leaf_node g n kvs \<and> next_leaf n = nx)"

fun chain :: "geometry \<Rightarrow> ('k, 'v) tree \<Rightarrow> int list \<Rightarrow> ('k \<times> 'v) list list \<Rightarrow> int \<Rightarrow> bool" where
  "chain g t [] [] e \<longleftrightarrow> True"
| "chain g t (i # is) (kvs # kvss) e \<longleftrightarrow> leaf_at g t i kvs (hd (is @ [e])) \<and> chain g t is kvss e"
| "chain g t _ _ e \<longleftrightarrow> False"

fun root_at :: "geometry \<Rightarrow> ('k, 'v) tree \<Rightarrow> int list \<Rightarrow> 'k list \<Rightarrow> bool" where
  "root_at g t [] ss \<longleftrightarrow> tree_root_id t = -1 \<and> ss = []"
| "root_at g t [i] ss \<longleftrightarrow> tree_root_id t = i \<and> ss = []"
| "root_at g t ids ss \<longleftrightarrow> length ss \<le> MAX_KEYS_INTERNAL g \<and>
     (\<exists>r. read_node t (tree_root_id t) = Inr r \<and> int_node g r ss ids)"

lemma root_at_many:
  "2 \<le> length ids \<Longrightarrow> root_at g t ids ss \<longleftrightarrow> length ss \<le> MAX_KEYS_INTERNAL g \<and>
     (\<exists>r. read_node t (tree_root_id t) = Inr r \<and> int_node g r ss ids)"
  by (cases "(g, t, ids, ss)" rule: root_at.cases) auto

definition two_level ::
  "geometry \<Rightarrow> ('k::linorder, 'v) tree \<Rightarrow> int list \<Rightarrow> ('k \<times> 'v) list list \<Rightarrow> 'k list \<Rightarrow> bool" where
  "two_level g t ids kvss ss \<longleftrightarrow> valid g t \<and> distinct ids \<and> chain g t ids kvss (-1) \<and> root_at g t ids ss \<and>
     tree_first_leaf t = hd (ids @ [-1]) \<and> ascending (flat kvss ss) \<and> ([] \<in> set kvss \<longrightarrow> length kvss = 1)"

text \<open>Between the insertion and the handling of an overflow a leaf may have one key too many.\<close>

definition shallow ::
  "geometry \<Rightarrow> ('k::linorder, 'v) tree \<Rightarrow> int list \<Rightarrow> ('k \<times> 'v) list list \<Rightarrow> 'k list \<Rightarrow> bool" where
  "shallow g t ids kvss ss \<longleftrightarrow> two_level g t ids kvss ss \<and> (\<forall>kvs \<in> set kvss. length kvs \<le> MAX_KEYS_LEAF g)"

lemma chain_length: "chain g t ids kvss e \<Longrightarrow> length ids = length kvss"
  by (induction g t ids kvss e rule: chain.induct) auto

lemma chain_append:
  "length xs = length kx \<Longrightarrow> chain g t (xs @ ys) (kx @ ky) e \<longleftrightarrow>
   chain g t xs kx (hd (ys @ [e])) \<and> chain g t ys ky e"
  by (induction xs kx rule: list_induct2) (auto simp: hd_append)

lemma leaf_at_cong: "(\<And>n. read_node t i = Inr n \<Longrightarrow> read_node t' i = Inr n) \<Longrightarrow> leaf_at g t i kvs nx \<Longrightarrow> leaf_at g t' i kvs nx"
  by (auto simp: leaf_at_def)

lemma chain_cong:
  "chain g t ids kvss e \<Longrightarrow> (\<And>i n. i \<in> set ids \<Longrightarrow> read_node t i = Inr n \<Longrightarrow> read_node t' i = Inr n) \<Longrightarrow>
   chain g t' ids kvss e"
proof (induction g t ids kvss e rule: chain.induct)
  case (2 g t i "is" kvs kvss e)
  then show ?case using leaf_at_cong [of t i t'] by simp
qed simp_all

lemma chain_member:
  "chain g t ids kvss e \<Longrightarrow> i \<in> set ids \<Longrightarrow> \<exists>kvs n. read_node t i = Inr n \<and> leaf_node g n kvs"
proof (induction g t ids kvss e rule: chain.induct)
  case (2 g t j "is" kvs kvss e)
  then show ?case by (auto simp: leaf_at_def)
qed simp_all

lemma two_level_lengths:
  assumes "two_level g (t :: ('k::linorder, 'v) tree) ids kvss ss"
  shows "length kvss = length ids" "ids \<noteq> [] \<Longrightarrow> length ids = length ss + 1" "ids = [] \<Longrightarrow> ss = []"
proof -
  show "length kvss = length ids" using assms chain_length by (fastforce simp: two_level_def)
  show "ids = [] \<Longrightarrow> ss = []" using assms by (auto simp: two_level_def)
  show "length ids = length ss + 1" if "ids \<noteq> []"
  proof (cases "2 \<le> length ids")
    case True
    then obtain r :: "('k, 'v) node" where "int_node g r ss ids"
      using assms by (auto simp: two_level_def root_at_many)
    then show ?thesis using int_node_kids(3) by blast
  next
    case False
    then obtain i where "ids = [i]"
      using \<open>ids \<noteq> []\<close> by (cases ids) (auto simp: not_le less_Suc_eq)
    then show ?thesis using assms by (simp add: two_level_def)
  qed
qed

lemma root_node:
  assumes "two_level g t ids kvss ss" "2 \<le> length ids"
  obtains r where "read_node t (tree_root_id t) = Inr r" "int_node g r ss ids" "length ss \<le> MAX_KEYS_INTERNAL g"
  using assms by (auto simp: two_level_def root_at_many)

lemma root_not_leaf:
  assumes sh: "two_level g t ids kvss ss" and n: "2 \<le> length ids"
  shows "tree_root_id t \<notin> set ids"
proof
  assume "tree_root_id t \<in> set ids"
  moreover have "chain g t ids kvss (-1)" using sh by (simp add: two_level_def)
  ultimately obtain kvs n where "read_node t (tree_root_id t) = Inr n" "leaf_node g n kvs"
    using chain_member by blast
  moreover obtain r where "read_node t (tree_root_id t) = Inr r" "int_node g r ss ids"
    using root_node [OF sh n] by blast
  ultimately show False by (auto simp: leaf_node_def int_node_def)
qed

section \<open>Descending in a two-level tree\<close>

text \<open>
  Where the descent ends: the leaf that the key belongs to, with what is on its two sides.
\<close>

definition parents :: "('k, 'v) tree \<Rightarrow> int list \<Rightarrow> nat \<Rightarrow> (int \<times> nat) list" where
  "parents t ids i = (if length ids \<le> 1 then [] else [(tree_root_id t, i)])"

lemma findLeaf_empty: "two_level g t [] kvss ss \<Longrightarrow> findLeaf t key = Inr None"
  by (simp add: two_level_def findLeaf_def tree_empty_def)

lemma leaf_page:
  assumes "two_level g t (xi @ i # yi) (xs @ a # ys) ss" "length xi = length xs"
  obtains n where "read_node t i = Inr n" "leaf_node g n a" "next_leaf n = hd (yi @ [-1])"
    "on_page t i" "node_id n = i" "\<not> deleted n"
proof -
  have v: "valid g t" and c: "chain g t (xi @ i # yi) (xs @ a # ys) (-1)" using assms(1) by (auto simp: two_level_def)
  from c obtain n where n: "read_node t i = Inr n" "leaf_node g n a" "next_leaf n = hd (yi @ [-1])"
    unfolding chain_append [OF assms(2)] by (auto simp: leaf_at_def)
  then show thesis using that read_node_facts [OF v n(1)] by blast
qed

lemma findLeaf_two_level:
  assumes sh: "two_level g t ids kvss ss" and ne: "ids \<noteq> []"
  obtains xi i yi xs a ys sx sy n where
    "ids = xi @ i # yi" "kvss = xs @ a # ys" "ss = sx @ sy"
    "length xi = length xs" "length xs = length sx" "length yi = length ys" "length ys = length sy"
    "\<forall>x \<in> set (before xs sx). x < (key, 1)" "\<forall>x \<in> set (behind ys sy). (key, 1) < x"
    "findLeaf t key = Inr (Some (n, parents t ids (length xi)))"
    "read_node t i = Inr n" "leaf_node g n a" "next_leaf n = hd (yi @ [-1])"
proof -
  have v: "valid g t" and asc: "ascending (flat kvss ss)" using sh by (auto simp: two_level_def)
  have l1: "length kvss = length ids" and l2: "length ids = length ss + 1" using two_level_lengths [OF sh] ne by auto
  then have l: "length kvss = length ss + 1" by simp
  obtain xs a ys sx sy where sp: "kvss = xs @ a # ys" "ss = sx @ sy" "length xs = length sx"
    "length ys = length sy" "length sx = length (takeWhile (\<lambda>s. s \<le> key) ss)"
    "\<forall>x \<in> set (before xs sx). x < (key, 1)" "\<forall>x \<in> set (behind ys sy). (key, 1) < x"
    by (rule child_split [OF asc l, of key])
  define xi where "xi = take (length xs) ids"
  have lxi: "length xi = length xs" using l1 sp(1) by (simp add: xi_def)
  obtain i yi where iy: "drop (length xs) ids = i # yi"
    using l1 sp(1) by (cases "drop (length xs) ids") auto
  have ids: "ids = xi @ i # yi" using iy by (metis append_take_drop_id xi_def)
  have lyi: "length yi = length ys" using l1 ids sp(1) lxi by simp
  obtain n where n: "read_node t i = Inr n" "leaf_node g n a" "next_leaf n = hd (yi @ [-1])" "on_page t i"
    using leaf_page [OF sh [unfolded ids sp(1)] lxi] by blast
  have lf: "is_leaf n" using n(2) by (simp add: leaf_node_def)
  have pages: "0 < length (node_pages t)" using n(4) by (auto simp: on_page_def)
  have "findLeaf t key = Inr (Some (n, parents t ids (length xi)))"
  proof (cases "2 \<le> length ids")
    case False
    then have "length xi + length yi = 0" unfolding ids by (simp add: not_le)
    then have one: "ids = [i]" "xi = []" using ids by simp_all
    then have root: "tree_root_id t = i" using sh by (simp add: two_level_def)
    then have "\<not> tree_empty t" using n(4) by (simp add: tree_empty_def on_page_def)
    moreover have "descend fuel t key n [] = Inr (n, [])" for fuel using lf by (cases fuel) simp_all
    ultimately show ?thesis using n(1) root one by (simp add: findLeaf_def parents_def)
  next
    case True
    obtain r where r: "read_node t (tree_root_id t) = Inr r" "int_node g r ss ids"
      using root_node [OF sh True] by blast
    have nr: "node_id r = tree_root_id t" "on_page t (tree_root_id t)" using read_node_facts [OF v r(1)] by auto
    then have "\<not> tree_empty t" by (auto simp: tree_empty_def on_page_def)
    moreover obtain m where m: "length (node_pages t) = Suc m" using pages by (cases "length (node_pages t)") auto
    have ci: "find_child_idx r key = Inr (length xi)"
      using find_child_idx_count [OF r(2) flat_sorted_seps [OF asc l]] sp(3,5) lxi by simp
    have gc: "get_child_id r (length xi) = Inr i"
      using get_child [OF r(2), of "length xi"] ids by (simp add: nth_append)
    have "\<not> is_leaf r" using r(2) by (simp add: int_node_def)
    then have "descend (length (node_pages t)) t key r [] = Inr (n, [(tree_root_id t, length xi)])"
      unfolding m using ci gc n(1) lf nr(1) by (cases m) simp_all
    ultimately show ?thesis using r(1) True by (simp add: findLeaf_def parents_def)
  qed
  then show thesis by (rule that [OF ids sp(1,2) lxi sp(3) lyi sp(4,6,7) _ n(1-3)])
qed

end
