(* ===== verification/Tree_Insert.thy ===== *)
theory Tree_Insert
  imports Tree_Map
begin

text \<open>
  Search and insertion on trees of at most two levels refine the lookup and the update of a map.
\<close>

section \<open>Search\<close>

lemma leaf_get:
  assumes "leaf_node g n kvs" "i < length kvs"
  shows "get_key n i = Inr (fst (kvs ! i))" "get_value n i = Inr (snd (kvs ! i))"
  using assms leaf_key_nth [OF assms] leaf_node_size [OF assms(1)]
  by (simp_all add: get_key_def get_value_def keys_of_def leaf_node_def)

lemma scan_one:
  assumes n: "leaf_node g n kvs" and srt: "distinct (map fst kvs)" and i: "i < length kvs" "fst (kvs ! i) = key"
    and nx: "next_leaf n = -1 \<or> (\<exists>n' kvs'. read_node t (next_leaf n) = Inr n' \<and> leaf_node g n' kvs' \<and>
      kvs' \<noteq> [] \<and> fst (hd kvs') \<noteq> key)"
  shows "scan_equal (Suc (Suc fuel)) t n i key = Inr [snd (kvs ! i)]"
proof -
  have lf: "is_leaf n" using n by (simp add: leaf_node_def)
  note get = leaf_get [OF n i(1)]
  show ?thesis
  proof (cases "i + 1 = length kvs")
    case True
    show ?thesis
    proof (cases "next_leaf n = -1")
      case True
      then show ?thesis using get i lf leaf_node_size [OF n] \<open>i + 1 = length kvs\<close> by (simp add: get_next_id_def)
    next
      case False
      then obtain n' kvs' where n': "read_node t (next_leaf n) = Inr n'" "leaf_node g n' kvs'" "kvs' \<noteq> []"
        "fst (hd kvs') \<noteq> key" using nx by blast
      then have "get_key n' 0 = Inr (fst (hd kvs'))" using leaf_get(1) [OF n'(2), of 0] by (simp add: hd_conv_nth)
      then have "scan_equal (Suc fuel) t n' 0 key = Inr []" using n'(4) by simp
      then show ?thesis using False True get i lf n'(1) leaf_node_size [OF n]
        by (simp add: get_next_id_def del: scan_equal.simps(2)) (simp add: get_next_id_def)
    qed
  next
    case False
    then have i1: "i + 1 < length kvs" using i(1) by simp
    then have "fst (kvs ! (i + 1)) \<noteq> key"
      using srt i by (metis Suc_eq_plus1 length_map n_not_Suc_n nth_eq_iff_index_eq nth_map)
    then have "scan_equal (Suc fuel) t n (i + 1) key = Inr []" using leaf_get(1) [OF n i1] by simp
    then show ?thesis using False get i leaf_node_size [OF n] by simp
  qed
qed

lemma pages_sum:
  assumes "valid g t" "read_node t i = Inr n"
  shows "keys_size n \<le> sum_list (map keys_size (node_pages t))"
proof -
  have "on_page t i" "node_pages t ! (nat i - 1) = n" using assms by (auto simp: read_node_eq)
  moreover from this have "nat i - 1 < length (node_pages t)" by (auto simp: on_page_def)
  ultimately have "n \<in> set (node_pages t)" using nth_mem by metis
  then show ?thesis by (simp add: member_le_sum_list)
qed

lemma search_two_level:
  assumes tl: "two_level g t ids kvss ss"
  shows "tree_search t key = Inr (case tree_map kvss key of None \<Rightarrow> [] | Some v \<Rightarrow> [v])"
proof (cases "ids = []")
  case True
  then have "kvss = []" using two_level_lengths(1) [OF tl] by simp
  moreover have "findLeaf t key = Inr None" using findLeaf_empty tl True by blast
  ultimately show ?thesis by (simp add: tree_search_def tree_map_def)
next
  case False
  from findLeaf_two_level [OF tl False, of key]
  obtain xi i yi xs a ys sx sy n where f:
    "ids = xi @ i # yi" "kvss = xs @ a # ys" "ss = sx @ sy"
    "length xi = length xs" "length xs = length sx" "length yi = length ys" "length ys = length sy"
    "\<forall>x \<in> set (before xs sx). x < (key, 1)" "\<forall>x \<in> set (behind ys sy). (key, 1) < x"
    "findLeaf t key = Inr (Some (n, parents t ids (length xi)))"
    "read_node t i = Inr n" "leaf_node g n a" "next_leaf n = hd (yi @ [-1])" by blast
  have v: "valid g t" and asc: "ascending (flat kvss ss)" using tl by (auto simp: two_level_def)
  have len: "length kvss = length ss + 1" using two_level_lengths [OF tl] False by simp
  have srt: "sorted_wrt (<) (map fst a)"
    using flat_sorted_keys [OF asc len] by (simp add: f(2) sorted_wrt_append)
  then have dist: "distinct (map fst a)" using strict_sorted_iff by blast
  have m: "tree_map kvss key = map_of a key"
    unfolding f(2) using f(5,7,8,9) by (intro tree_map_at) auto
  show ?thesis
  proof (cases "key \<in> fst ` set a")
    case no: False
    then have "map_of a key = None" by (simp add: map_of_eq_None_iff)
    then show ?thesis using no find_exact(1) [OF f(12) srt, of key] m f(10) by (simp add: tree_search_def)
  next
    case True
    let ?j = "lower_bound (map fst a) key"
    have j: "?j < length a" "fst (a ! ?j) = key" using find_exact(2) [OF f(12) srt True] by auto
    have nx: "next_leaf n = -1 \<or> (\<exists>n' kvs'. read_node t (next_leaf n) = Inr n' \<and> leaf_node g n' kvs' \<and>
        kvs' \<noteq> [] \<and> fst (hd kvs') \<noteq> key)"
    proof (cases yi)
      case Nil
      then show ?thesis using f(13) by simp
    next
      case (Cons h yi')
      then obtain b ys' where ys: "ys = b # ys'" using f(6) by (cases ys) auto
      have tl': "two_level g t ((xi @ [i]) @ h # yi') ((xs @ [a]) @ b # ys') ss"
        using tl f(1,2) Cons ys by simp
      obtain n' where n': "read_node t h = Inr n'" "leaf_node g n' b"
        using leaf_page [OF tl'] f(4) by auto
      have ne: "b \<noteq> []" using tl f(2) ys by (auto simp: two_level_def)
      have "fst (hd b) \<in> fst ` set b" using ne by (cases b) auto
      then have "(fst (hd b), 1) \<in> set (behind ys sy)" using f(7) ys by (intro keys_behind) auto
      then have "key \<noteq> fst (hd b)" using f(9) by auto
      then show ?thesis using n' ne f(13) Cons by auto
    qed
    have "0 < length a" using j(1) by (cases a) auto
    then have "0 < sum_list (map keys_size (node_pages t))"
      using pages_sum [OF v f(11)] unfolding leaf_node_size [OF f(12)] by (rule less_le_trans)
    then obtain fu where fu: "sum_list (map keys_size (node_pages t)) = Suc fu" using gr0_conv_Suc by auto
    have "tree_search t key = Inr [snd (a ! ?j)]"
      unfolding tree_search_def f(10) fu rbind.simps option.case prod.case
      using scan_one [OF f(12) dist j nx, of fu] find_exact(1) [OF f(12) srt, of key] True by simp
    moreover have "map_of a key = Some (snd (a ! ?j))" using map_of_sorted_nth [OF srt j] .
    ultimately show ?thesis using m by simp
  qed
qed

section \<open>Writing several nodes\<close>

definition saves :: "('k, 'v) tree \<Rightarrow> ('k, 'v) node list \<Rightarrow> ('k, 'v) tree" where
  "saves t ns = foldl save t ns"

lemma saves_simps [simp]: "saves t [] = t" "saves t (n # ns) = saves (save t n) ns"
  by (simp_all add: saves_def)

lemma saves_facts:
  assumes "valid g t" "distinct (map node_id ns)" "\<forall>n \<in> set ns. on_page t (node_id n) \<and> phys g n \<and> \<not> deleted n"
  shows "valid g (saves t ns)" "\<forall>n \<in> set ns. read_node (saves t ns) (node_id n) = Inr n"
    and "\<And>i m. i \<notin> node_id ` set ns \<Longrightarrow> read_node (saves t ns) i = Inr m \<longleftrightarrow> read_node t i = Inr m"
    and "tree_root_id (saves t ns) = tree_root_id t" "tree_first_leaf (saves t ns) = tree_first_leaf t"
    and "\<And>i. on_page (saves t ns) i = on_page t i"
proof -
  have "valid g (saves t ns) \<and> (\<forall>n \<in> set ns. read_node (saves t ns) (node_id n) = Inr n) \<and>
    (\<forall>i m. i \<notin> node_id ` set ns \<longrightarrow> (read_node (saves t ns) i = Inr m \<longleftrightarrow> read_node t i = Inr m)) \<and>
    tree_root_id (saves t ns) = tree_root_id t \<and> tree_first_leaf (saves t ns) = tree_first_leaf t \<and>
    (\<forall>i. on_page (saves t ns) i = on_page t i)"
    using assms
  proof (induction ns arbitrary: t)
    case (Cons n ns)
    have n: "on_page t (node_id n)" "phys g n" "\<not> deleted n" using Cons.prems(3) by auto
    note sv = save_facts [OF Cons.prems(1) n(1,2)]
    have prem: "\<forall>n' \<in> set ns. on_page (save t n) (node_id n') \<and> phys g n' \<and> \<not> deleted n'"
      using Cons.prems(3) sv(2) by simp
    have d: "distinct (map node_id ns)" "node_id n \<notin> node_id ` set ns" using Cons.prems(2) by auto
    note IH = Cons.IH [OF sv(1) d(1) prem]
    have "read_node (saves (save t n) ns) (node_id n) = Inr n" using IH d(2) sv(3) [OF n(3)] by blast
    then show ?case using IH sv(2,4,6,7) by auto
  qed simp
  then show "valid g (saves t ns)" "\<forall>n \<in> set ns. read_node (saves t ns) (node_id n) = Inr n"
    "\<And>i m. i \<notin> node_id ` set ns \<Longrightarrow> read_node (saves t ns) i = Inr m \<longleftrightarrow> read_node t i = Inr m"
    "tree_root_id (saves t ns) = tree_root_id t" "tree_first_leaf (saves t ns) = tree_first_leaf t"
    "\<And>i. on_page (saves t ns) i = on_page t i"
    by blast+
qed

text \<open>A node that has been read and changed in place can be written back.\<close>

lemma writable:
  assumes "valid g t" "read_node t i = Inr n" "same_place n n'"
  shows "on_page t (node_id n')" "\<not> deleted n'" "node_id n' = i"
  using read_node_facts [OF assms(1,2)] assms(3) by (auto simp: same_place_def)

section \<open>Redistribution between two leaves\<close>

lemma redistribute2to2_nodes:
  fixes P :: "'k tree_params"
  assumes l: "leaf_node (geom P) l a" and r: "leaf_node (geom P) r b" and p: "int_node (geom P) p ss cs"
    and idx: "idx < length ss"
    and s1: "s1 = (length a + length b) div 2" "length a \<noteq> s1" "s1 \<le> MAX_KEYS_LEAF (geom P)"
      "length a + length b - s1 \<le> MAX_KEYS_LEAF (geom P)" "0 < length a + length b"
  shows "\<exists>l' r' p'. redistributeLeaves2to2 P t l r p idx = Inr (saves t [r', l', p'], l', r', p') \<and>
    leaf_node (geom P) l' (take s1 (a @ b)) \<and> leaf_node (geom P) r' (drop s1 (a @ b)) \<and>
    int_node (geom P) p' (ss[idx := fst (hd (drop s1 (a @ b)))]) cs \<and>
    same_place l l' \<and> same_place r r' \<and> same_place p p'"
proof -
  let ?g = "geom P" and ?A = "take s1 (a @ b)" and ?B = "drop s1 (a @ b)"
  have sz: "keys_size l = length a" "keys_size r = length b" using leaf_node_size l r by auto
  have "s1 < length (a @ b)" using s1(1,5) by simp
  then have ne: "?B \<noteq> []" unfolding drop_eq_Nil by simp
  have move: "\<exists>k l' r'. (if keys_size l > s1 then send_to_right_leaf ?g l r (keys_size l - s1)
      else take_from_right_leaf ?g l r (s1 - keys_size l)) = Inr (k, l', r') \<and>
    leaf_node ?g l' ?A \<and> leaf_node ?g r' ?B \<and> same_place l l' \<and> same_place r r' \<and> k = fst (hd ?B)"
  proof (cases "length a > s1")
    case True
    have d: "length a - (length a - s1) = s1" using True by simp
    have AB: "take s1 a = ?A" "drop s1 a @ b = ?B" using True by simp_all
    show ?thesis
      using send_right_leaf [OF l r, of "length a - s1", unfolded d AB] True s1(3,4) ne sz by auto
  next
    case False
    then have lt: "length a < s1" using s1(2) by simp
    have AB: "a @ take (s1 - length a) b = ?A" "drop (s1 - length a) b = ?B" using lt by simp_all
    have "s1 - length a \<le> length b" using s1(1) by simp
    then show ?thesis
      using take_right_leaf [OF l r, of "s1 - length a", unfolded AB] lt s1(3) ne sz by auto
  qed
  then obtain k l' r' where m: "(if keys_size l > s1 then send_to_right_leaf ?g l r (keys_size l - s1)
      else take_from_right_leaf ?g l r (s1 - keys_size l)) = Inr (k, l', r')"
    "leaf_node ?g l' ?A" "leaf_node ?g r' ?B" "same_place l l'" "same_place r r'" "k = fst (hd ?B)" by blast
  obtain p' where p': "set_key p k idx = Inr p'" "same_place p p'" "int_node ?g p' (ss[idx := k]) cs"
    using set_key_internal [OF p idx] by blast
  have "redistributeLeaves2to2 P t l r p idx = Inr (saves t [r', l', p'], l', r', p')"
    unfolding redistributeLeaves2to2_def Let_def sz(1,2) s1(1) [symmetric] if_P [OF s1(2)]
      m(1) [unfolded sz(1)] rbind.simps prod.case p'(1) by simp
  then show ?thesis using m p' by blast
qed

section \<open>Putting a tree together again\<close>

text \<open>
  The leaves \<open>mi\<close> between \<open>xi\<close> and \<open>yi\<close> are replaced by \<open>mi'\<close>, beginning with the same page, and the
  other pages of the tree are as before.
\<close>

lemma rebuild:
  assumes tl: "two_level g t (xi @ mi @ yi) (xs @ ms @ ys) ss"
    and len: "length xi = length xs" "length mi = length ms" "mi \<noteq> []" "mi' \<noteq> []" "hd mi' = hd mi"
    and v: "valid g t'" and d: "distinct (xi @ mi' @ yi)"
    and outer: "\<And>i n. i \<in> set xi \<union> set yi \<Longrightarrow> read_node t i = Inr n \<Longrightarrow> read_node t' i = Inr n"
    and mid: "chain g t' mi' ms' (hd (yi @ [-1]))" and root: "root_at g t' (xi @ mi' @ yi) ss'"
    and first: "tree_first_leaf t' = tree_first_leaf t" and asc: "ascending (flat (xs @ ms' @ ys) ss')"
    and ne: "[] \<in> set ms' \<Longrightarrow> xs = [] \<and> ys = [] \<and> length ms' = 1"
  shows "two_level g t' (xi @ mi' @ yi) (xs @ ms' @ ys) ss'"
proof -
  have c: "chain g t (xi @ mi @ yi) (xs @ ms @ ys) (-1)" using tl by (simp add: two_level_def)
  have "chain g t xi xs (hd (mi @ yi @ [-1]))" "chain g t yi ys (-1)"
    using c chain_append [OF len(1)] chain_append [OF len(2)] by (simp_all add: hd_append)
  then have c': "chain g t' xi xs (hd (mi' @ yi @ [-1]))" "chain g t' yi ys (-1)"
    using chain_cong outer len(3-5) by (simp_all add: hd_append) blast+
  have len': "length mi' = length ms'" using chain_length [OF mid] .
  have C: "chain g t' (xi @ mi' @ yi) (xs @ ms' @ ys) (-1)"
    using c' mid by (simp add: chain_append [OF len(1)] chain_append [OF len'])
  have h: "tree_first_leaf t = hd (xi @ mi' @ yi @ [-1])"
    using tl len(3-5) by (simp add: two_level_def hd_append)
  have "xs = [] \<and> ys = []" if "[] \<in> set (xs @ ms' @ ys)"
  proof (rule ccontr)
    assume no: "\<not> (xs = [] \<and> ys = [])"
    then have "[] \<in> set (xs @ ys)" using that ne by auto
    then have "length (xs @ ms @ ys) = 1" using tl by (auto simp: two_level_def)
    moreover have "0 < length ms" using len(2,3) by (cases mi) auto
    ultimately show False using no by (cases xs; cases ys) auto
  qed
  then have N: "[] \<in> set (xs @ ms' @ ys) \<Longrightarrow> length (xs @ ms' @ ys) = 1" using ne by auto
  show ?thesis using v d C root first h asc N by (simp add: two_level_def)
qed

lemma save_leaf_two_level:
  assumes tl: "two_level g t (xi @ i # yi) (xs @ a # ys) ss" and len: "length xi = length xs"
    and n: "read_node t i = Inr n" "same_place n n'" "leaf_node g n' a'"
    and asc: "ascending (flat (xs @ a' # ys) ss)" and ne: "a' = [] \<Longrightarrow> xs = [] \<and> ys = []"
  shows "two_level g (save t n') (xi @ i # yi) (xs @ a' # ys) ss" "read_node (save t n') i = Inr n'"
proof -
  have v: "valid g t" and d: "distinct (xi @ i # yi)" using tl by (auto simp: two_level_def)
  note w = writable [OF v n(1,2)]
  have ph: "phys g n'" using n(3) by (simp add: leaf_node_def)
  note sv = save_facts [OF v w(1) ph]
  show rd: "read_node (save t n') i = Inr n'" using sv(3) w by simp
  obtain m where "read_node t i = Inr m" "next_leaf m = hd (yi @ [-1])" using leaf_page [OF tl len] by blast
  then have nx: "next_leaf n' = hd (yi @ [-1])" using n by (simp add: same_place_def)
  have root: "root_at g (save t n') (xi @ i # yi) ss"
  proof (cases "2 \<le> length (xi @ i # yi)")
    case True
    obtain r where r: "read_node t (tree_root_id t) = Inr r" "int_node g r ss (xi @ i # yi)"
      "length ss \<le> MAX_KEYS_INTERNAL g" using root_node [OF tl True] by blast
    have "tree_root_id t \<noteq> i" using root_not_leaf [OF tl True] by auto
    then have "read_node (save t n') (tree_root_id t) = Inr r" using sv(4) w(3) r(1) by simp
    then show ?thesis using r sv(6) unfolding root_at_many [OF True] by auto
  next
    case False
    then have "length xi + length yi = 0" by (simp add: not_le)
    then show ?thesis using tl sv(6) by (auto simp: two_level_def)
  qed
  have "two_level g (save t n') (xi @ [i] @ yi) (xs @ [a'] @ ys) ss"
  proof (rule rebuild [where mi = "[i]" and ms = "[a]" and t = t])
    show "two_level g t (xi @ [i] @ yi) (xs @ [a] @ ys) ss" using tl by simp
    show "chain g (save t n') [i] [a'] (hd (yi @ [-1]))" using rd n(3) nx by (simp add: leaf_at_def)
    show "valid g (save t n')" by (rule sv)
    show "j \<in> set xi \<union> set yi \<Longrightarrow> read_node t j = Inr m \<Longrightarrow> read_node (save t n') j = Inr m" for j m
      using sv(4) [of j m] d w(3) by auto
    show "root_at g (save t n') (xi @ [i] @ yi) ss" using root by simp
    show "ascending (flat (xs @ [a'] @ ys) ss)" using asc by simp
    show "[] \<in> set [a'] \<Longrightarrow> xs = [] \<and> ys = [] \<and> length [a'] = 1" using ne by auto
    show "distinct (xi @ [i] @ yi)" using d by simp
  qed (use len sv in simp_all)
  then show "two_level g (save t n') (xi @ i # yi) (xs @ a' # ys) ss" by simp
qed

section \<open>Siblings\<close>

lemma sibling_none:
  "left_sibling t p 0 = Inr None" "children_size p \<le> i + 1 \<Longrightarrow> right_sibling t p i = Inr None"
  by (simp_all add: left_sibling_def right_sibling_def)

lemma sibling_some:
  assumes tl: "two_level g t (xi @ i # j # yi) (xs @ a # b # ys) ss" and len: "length xi = length xs"
    and p: "int_node g p ss (xi @ i # j # yi)"
  obtains l r where "left_sibling t p (length xi + 1) = Inr (Some l)" "right_sibling t p (length xi) = Inr (Some r)"
    "read_node t i = Inr l" "leaf_node g l a" "read_node t j = Inr r" "leaf_node g r b"
    "next_leaf l = j" "next_leaf r = hd (yi @ [-1])"
proof -
  have g: "get_child_id p (length xi) = Inr i" "get_child_id p (length xi + 1) = Inr j"
    using get_child [OF p, of "length xi"] get_child [OF p, of "length xi + 1"] by (simp_all add: nth_append)
  obtain l where l: "read_node t i = Inr l" "leaf_node g l a" "next_leaf l = j"
    using leaf_page [OF tl len] by auto
  obtain r where r: "read_node t j = Inr r" "leaf_node g r b" "next_leaf r = hd (yi @ [-1])"
    using leaf_page [of g t "xi @ [i]" j yi "xs @ [a]" b ys ss] tl len by auto
  have "length xi + 1 < children_size p"
    using int_node_size [OF p] int_node_kids(3) [OF p] by (simp add: children_size_def)
  then have "left_sibling t p (length xi + 1) = Inr (Some l)" "right_sibling t p (length xi) = Inr (Some r)"
    using g l(1) r(1) by (simp_all add: left_sibling_def right_sibling_def)
  then show thesis using that l r by blast
qed

section \<open>Two neighbouring leaves share their keys\<close>

lemma pair_two_level:
  fixes P :: "'k::linorder tree_params"
  assumes tl: "two_level (geom P) t (xi @ i # j # yi) (xs @ a # b # ys) (sx @ s # sy)"
    and len: "length xi = length xs" "length xs = length sx"
    and p: "read_node t (tree_root_id t) = Inr p"
    and l: "read_node t i = Inr l" and r: "read_node t j = Inr r"
    and s1: "s1 = (length a + length b) div 2" "length a \<noteq> s1" "s1 \<le> MAX_KEYS_LEAF (geom P)"
      "length a + length b - s1 \<le> MAX_KEYS_LEAF (geom P)" "0 < s1"
  shows "\<exists>t' l' r' p' s'. redistributeLeaves2to2 P t l r p (length xi) = Inr (t', l', r', p') \<and>
    two_level (geom P) t' (xi @ i # j # yi) (xs @ take s1 (a @ b) # drop s1 (a @ b) # ys) (sx @ s' # sy)"
proof -
  let ?g = "geom P" and ?ids = "xi @ i # j # yi" and ?A = "take s1 (a @ b)" and ?B = "drop s1 (a @ b)"
  have v: "valid ?g t" and d: "distinct ?ids" using tl by (auto simp: two_level_def)
  have two: "2 \<le> length ?ids" by simp
  have pn: "int_node ?g p (sx @ s # sy) ?ids" and lim: "length (sx @ s # sy) \<le> MAX_KEYS_INTERNAL ?g"
    using root_node [OF tl two] p by auto
  have ln: "leaf_node ?g l a" "leaf_node ?g r b" and nx: "next_leaf l = j" "next_leaf r = hd (yi @ [-1])"
    using sibling_some [OF tl len(1) pn] l r by auto
  have "0 < length a + length b" using s1(1,5) by presburger
  then have pos: "0 < length a + length b" "length xi < length (sx @ s # sy)" using len by simp_all
  have ne: "?A \<noteq> []" "?B \<noteq> []"
  proof -
    have "s1 < length (a @ b)" "0 < length (a @ b)" using s1(1) pos(1) by simp_all
    then show "?A \<noteq> []" "?B \<noteq> []" using s1(5) unfolding drop_eq_Nil take_eq_Nil by auto
  qed
  obtain l' r' p' where R: "redistributeLeaves2to2 P t l r p (length xi) = Inr (saves t [r', l', p'], l', r', p')"
    "leaf_node ?g l' ?A" "leaf_node ?g r' ?B"
    "int_node ?g p' ((sx @ s # sy)[length xi := fst (hd ?B)]) ?ids"
    "same_place l l'" "same_place r r'" "same_place p p'"
    using redistribute2to2_nodes [OF ln pn pos(2) s1(1-4) pos(1)] by blast
  let ?s' = "fst (hd ?B)" and ?t' = "saves t [r', l', p']"
  have ss': "(sx @ s # sy)[length xi := ?s'] = sx @ ?s' # sy" using len by (simp add: list_update_append)
  note wl = writable [OF v l R(5)] and wr = writable [OF v r R(6)] and wp = writable [OF v p R(7)]
  have root: "tree_root_id t \<notin> set ?ids" using root_not_leaf [OF tl two] .
  have dn: "distinct (map node_id [r', l', p'])" using wl wr wp d root by auto
  have ok: "\<forall>n \<in> set [r', l', p']. on_page t (node_id n) \<and> phys ?g n \<and> \<not> deleted n"
    using wl wr wp R(2-4) by (auto simp: leaf_node_def int_node_def)
  note sv = saves_facts [OF v dn ok]
  have rd: "read_node ?t' i = Inr l'" "read_node ?t' j = Inr r'" "read_node ?t' (tree_root_id t) = Inr p'"
    using sv(2) wl(3) wr(3) wp(3) by auto
  have "two_level ?g ?t' (xi @ [i, j] @ yi) (xs @ [?A, ?B] @ ys) (sx @ ?s' # sy)"
  proof (rule rebuild [where mi = "[i, j]" and ms = "[a, b]" and t = t])
    show "two_level ?g t (xi @ [i, j] @ yi) (xs @ [a, b] @ ys) (sx @ s # sy)" using tl by simp
    show "chain ?g ?t' [i, j] [?A, ?B] (hd (yi @ [-1]))"
      using rd R(2,3,5,6) nx by (simp add: leaf_at_def same_place_def)
    show "m \<in> set xi \<union> set yi \<Longrightarrow> read_node t m = Inr n \<Longrightarrow> read_node ?t' m = Inr n" for m n
      using sv(3) [of m n] wl(3) wr(3) wp(3) d root by auto
    show "root_at ?g ?t' (xi @ [i, j] @ yi) (sx @ ?s' # sy)"
      using rd(3) R(4) lim sv(4) two unfolding ss' by (subst root_at_many) auto
    have "ascending (before xs sx @ key_items a @ (s, 0) # key_items b @ behind ys sy)"
      using tl unfolding two_level_def flat_at2 [OF len(2)] by blast
    from ascending_resplit [OF this append_take_drop_id [symmetric] ne refl]
    show "ascending (flat (xs @ [?A, ?B] @ ys) (sx @ ?s' # sy))"
      unfolding append_Cons append_Nil flat_at2 [OF len(2)] .
    show "[] \<in> set [?A, ?B] \<Longrightarrow> xs = [] \<and> ys = [] \<and> length [?A, ?B] = 1" using ne by auto
  qed (use len d sv in simp_all)
  then show ?thesis using R(1) by auto
qed

section \<open>Splitting two full leaves into three\<close>

lemma split_counts:
  fixes M :: nat
  assumes "n = 2 * M + 1" "s1 = n div 3" "s2 = (n - s1) div 2" "s3 = n - s1 - s2" "1 \<le> M"
  shows "1 \<le> s1" "1 \<le> s2" "1 \<le> s3" "s1 \<le> M" "s2 \<le> M" "s3 \<le> M" "s1 + s2 + s3 = n" "M + 1 \<le> s2 + s3"
proof -
  have d: "n = 3 * s1 + n mod 3" "n mod 3 < 3" "n - s1 = 2 * s2 + (n - s1) mod 2" "(n - s1) mod 2 < 2"
    unfolding assms(2,3) by simp_all
  show "1 \<le> s1" "1 \<le> s2" "1 \<le> s3" "s1 \<le> M" "s2 \<le> M" "s3 \<le> M" "s1 + s2 + s3 = n" "M + 1 \<le> s2 + s3"
    using d assms(1,4,5) by linarith+
qed

lemma new_leaf_node: "valid g t \<Longrightarrow> new_node t True = (n, t') \<Longrightarrow> leaf_node g n []"
  using new_node_facts(3-5) [of g t True n t'] by (auto simp: leaf_node_def leaf_kvs_def)

lemma set_next_leaf:
  assumes "leaf_node g n kvs"
  shows "set_next n i = Inr (n\<lparr>next_leaf := i\<rparr>)" "leaf_node g (n\<lparr>next_leaf := i\<rparr>) kvs"
  using assms by (simp_all add: set_next_def leaf_node_def phys_def leaf_kvs_def)

lemma split2to3_nodes:
  assumes l: "leaf_node g l a" and r: "leaf_node g r b" and n3: "leaf_node g n3 []"
    and tot: "length a + length b = 2 * MAX_KEYS_LEAF g + 1" "length a \<le> MAX_KEYS_LEAF g + 1"
      "length b \<le> MAX_KEYS_LEAF g + 1" "1 \<le> MAX_KEYS_LEAF g"
    and s: "s1 = (length a + length b) div 3" "s2 = (length a + length b - s1) div 2"
      "s3 = length a + length b - s1 - s2"
  obtains k2 r1 n3' k1 l' r2 where "send_to_right_leaf g r n3 s3 = Inr (k2, r1, n3')"
    "sub_count s2 (keys_size r1) = Inr (length a - s1)"
    "send_to_right_leaf g l r1 (length a - s1) = Inr (k1, l', r2)"
    "leaf_node g l' (take s1 (a @ b))" "leaf_node g r2 (take s2 (drop s1 (a @ b)))"
    "leaf_node g n3' (drop s2 (drop s1 (a @ b)))"
    "k1 = fst (hd (take s2 (drop s1 (a @ b))))" "k2 = fst (hd (drop s2 (drop s1 (a @ b))))"
    "same_place l l'" "same_place r r2" "same_place n3 n3'"
proof -
  let ?M = "MAX_KEYS_LEAF g" and ?A = "take s1 (a @ b)" and ?B = "take s2 (drop s1 (a @ b))"
    and ?C = "drop s2 (drop s1 (a @ b))"
  note sc = split_counts [OF tot(1) s tot(4)]
  have h: "s3 \<le> length b" "s1 \<le> length a" "length b - s3 \<le> s2" using sc tot s by linarith+
  have C: "drop (length b - s3) b @ [] = ?C"
  proof -
    have "s1 + s2 = length a + (length b - s3)" using sc h tot by linarith
    then have "?C = drop (length a + (length b - s3)) (a @ b)" by (simp only: drop_drop add.commute [of s2 s1])
    then show ?thesis by simp
  qed
  obtain k2 r1 n3' where S1: "send_to_right_leaf g r n3 s3 = Inr (k2, r1, n3')"
    "leaf_node g r1 (take (length b - s3) b)" "leaf_node g n3' ?C" "same_place r r1" "same_place n3 n3'"
    "?C \<noteq> [] \<longrightarrow> k2 = fst (hd ?C)"
    using send_right_leaf [OF r n3 h(1)] sc(6) unfolding C by auto
  have lr1: "length (take (length b - s3) b) = length b - s3" by simp
  have c: "length a - s1 = s2 - (length b - s3)" using sc h tot by linarith
  have sub: "sub_count s2 (keys_size r1) = Inr (length a - s1)"
    using h(3) unfolding leaf_node_size [OF S1(2)] lr1 c by (simp add: sub_count_def)
  have d: "length a - (length a - s1) = s1" using h(2) by simp
  have A: "take s1 a = ?A" using h(2) by simp
  have B: "drop s1 a @ take (length b - s3) b = ?B"
    using h(2,3) c by (simp add: min_def take_append)
  have "length (take (length b - s3) b) + (length a - s1) \<le> ?M" using sc(5) c h(3) by simp
  then obtain k1 l' r2 where S2: "send_to_right_leaf g l r1 (length a - s1) = Inr (k1, l', r2)"
    "leaf_node g l' ?A" "leaf_node g r2 ?B" "same_place l l'" "same_place r1 r2" "?B \<noteq> [] \<longrightarrow> k1 = fst (hd ?B)"
    using send_right_leaf [OF l S1(2), of "length a - s1"] unfolding d A B by auto
  have "length ?B = s2" "length ?C = s3" using sc h tot by simp_all
  then have ne: "?B \<noteq> []" "?C \<noteq> []" using sc(2,3) by (metis list.size(3) not_one_le_zero)+
  then have k: "k1 = fst (hd ?B)" "k2 = fst (hd ?C)" using S1(6) S2(6) by blast+
  show thesis
    by (rule that [OF S1(1) sub S2(1-3) S1(3) k S2(4) same_place_trans [OF S1(4) S2(5)] S1(5)])
qed

lemma insert_sep_position:
  assumes "sorted_wrt (<) (sx @ k1 # k2 # sy)"
  shows "lower_bound (sx @ k1 # sy) k2 = length sx + (1::nat)"
proof -
  have "\<forall>x \<in> set (sx @ [k1]). x < k2" "\<forall>x \<in> set sy. \<not> x < k2"
    using assms by (auto simp: sorted_wrt_append dest: order_less_imp_not_less)
  then have "takeWhile (\<lambda>x. x < k2) ((sx @ [k1]) @ sy) = sx @ [k1]"
    by (subst takeWhile_append2) (auto simp: takeWhile_eq_Nil_iff)
  then show ?thesis by (simp add: lower_bound_def)
qed

lemma split2to3_two_level:
  fixes P :: "'k::linorder tree_params"
  assumes tl: "two_level (geom P) t (xi @ i # j # yi) (xs @ a # b # ys) (sx @ s # sy)"
    and len: "length xi = length xs" "length xs = length sx"
    and st: "top_of st = Inr (tree_root_id t, idx)"
    and l: "read_node t i = Inr l" and r: "read_node t j = Inr r"
    and tot: "length a + length b = 2 * MAX_KEYS_LEAF (geom P) + 1" "length a \<le> MAX_KEYS_LEAF (geom P) + 1"
      "length b \<le> MAX_KEYS_LEAF (geom P) + 1" "1 \<le> MAX_KEYS_LEAF (geom P)"
    and room: "length (xi @ i # j # yi) \<le> MAX_KEYS_INTERNAL (geom P)"
  obtains t' m A B C s' s'' where "splitLeaves2to3 P t l r st (length xi) = Inr t'"
    "two_level (geom P) t' (xi @ i # j # m # yi) (xs @ A # B # C # ys) (sx @ s' # s'' # sy)"
    "A @ B @ C = a @ b" "\<forall>z \<in> {A, B, C}. length z \<le> MAX_KEYS_LEAF (geom P)"
proof -
  let ?g = "geom P" and ?ids = "xi @ i # j # yi"
  define s1 where "s1 = (length a + length b) div 3"
  define s2 where "s2 = (length a + length b - s1) div 2"
  define s3 where "s3 = length a + length b - s1 - s2"
  define A where "A = take s1 (a @ b)"
  define B where "B = take s2 (drop s1 (a @ b))"
  define C where "C = drop s2 (drop s1 (a @ b))"
  note sc = split_counts [OF tot(1) s1_def s2_def s3_def tot(4)]
  have ABC: "A @ B @ C = a @ b" unfolding A_def B_def C_def append_take_drop_id ..
  have lens: "length A = s1" "length B = s2" "length C = s3"
    using sc(7) by (simp_all add: A_def B_def C_def s3_def)
  have ne: "A \<noteq> []" "B \<noteq> []" "C \<noteq> []" using lens sc(1-3) by auto
  have v: "valid ?g t" and d: "distinct ?ids" using tl by (auto simp: two_level_def)
  have two: "2 \<le> length ?ids" by simp
  obtain p where p: "read_node t (tree_root_id t) = Inr p" and pn: "int_node ?g p (sx @ s # sy) ?ids"
    using root_node [OF tl two] by blast
  have root: "tree_root_id t \<notin> set ?ids" using root_not_leaf [OF tl two] .
  have ln: "leaf_node ?g l a" "leaf_node ?g r b" and nx: "next_leaf l = j" "next_leaf r = hd (yi @ [-1])"
    using sibling_some [OF tl len(1) pn] l r by auto
  obtain n3 t1 where nn: "new_node t True = (n3, t1)" by fastforce
  note nf = new_node_facts [OF v nn]
  have l1: "read_node t1 i = Inr l" and r1: "read_node t1 j = Inr r" and p1: "read_node t1 (tree_root_id t) = Inr p"
    and fresh: "node_id n3 \<notin> set ?ids" "node_id n3 \<noteq> tree_root_id t"
  proof -
    have c: "chain ?g t ?ids (xs @ a # b # ys) (-1)" using tl by (simp add: two_level_def)
    show "node_id n3 \<notin> set ?ids" using nf(7) chain_member [OF c] by blast
    show "read_node t1 i = Inr l" "read_node t1 j = Inr r" "read_node t1 (tree_root_id t) = Inr p"
      "node_id n3 \<noteq> tree_root_id t" using nf(7) [OF l] nf(7) [OF r] nf(7) [OF p] by auto
  qed
  obtain k2 ra n3a k1 la rb where S: "send_to_right_leaf ?g r n3 s3 = Inr (k2, ra, n3a)"
    "sub_count s2 (keys_size ra) = Inr (length a - s1)"
    "send_to_right_leaf ?g l ra (length a - s1) = Inr (k1, la, rb)"
    "leaf_node ?g la A" "leaf_node ?g rb B" "leaf_node ?g n3a C" "k1 = fst (hd B)" "k2 = fst (hd C)"
    "same_place l la" "same_place r rb" "same_place n3 n3a"
    using split2to3_nodes [OF ln new_leaf_node [OF v nn] tot s1_def s2_def s3_def]
    unfolding A_def B_def C_def .
  define n3b where "n3b = n3a\<lparr>next_leaf := next_leaf rb\<rparr>"
  define rc where "rc = rb\<lparr>next_leaf := node_id n3b\<rparr>"
  have nb: "leaf_node ?g n3b C" "leaf_node ?g rc B"
    using set_next_leaf(2) [OF S(6)] set_next_leaf(2) [OF S(5)] by (simp_all add: n3b_def rc_def)
  have ids: "node_id la = i" "node_id rc = j" "node_id n3b = node_id n3"
    and live: "\<not> deleted la" "\<not> deleted rc" "\<not> deleted n3b"
    and links: "next_leaf la = j" "next_leaf rc = node_id n3" "next_leaf n3b = hd (yi @ [-1])"
    using read_node_facts(2,4) [OF v l] read_node_facts(2,4) [OF v r] read_node_facts(4) [OF nf(1,2)] S(9-11) nx
    by (auto simp: same_place_def n3b_def rc_def)
  have on: "on_page t1 i" "on_page t1 j" "on_page t1 (node_id n3)" "on_page t1 (tree_root_id t)"
    using read_node_facts(1) nf(1,2) l1 r1 p1 by blast+
  have seps: "sx @ k1 # sy = (sx @ s # sy)[length xi := k1]" using len by (simp add: list_update_append)
  have li: "length xi < length (sx @ s # sy)" using len by simp
  obtain pa where pa: "set_key p k1 (length xi) = Inr pa" "same_place p pa" "int_node ?g pa (sx @ k1 # sy) ?ids"
    using set_key_internal [OF pn li, of k1] unfolding seps by blast
  have asc: "ascending (flat (xs @ A # B # C # ys) (sx @ k1 # k2 # sy))"
  proof -
    have "ascending (before xs sx @ key_items a @ (s, 0) # key_items b @ behind ys sy)"
      using tl unfolding two_level_def flat_at2 [OF len(2)] by blast
    from ascending_join [OF this] have "ascending (before xs sx @ key_items (A @ (B @ C)) @ behind ys sy)"
      unfolding ABC .
    moreover have "k1 = fst (hd (B @ C))" using ne S(7) by simp
    ultimately have "ascending (before xs sx @ key_items A @ (k1, 0) # key_items (B @ C) @ behind ys sy)"
      using ne by (intro ascending_split) simp_all
    then have "ascending ((before xs sx @ key_items A @ [(k1, 0)]) @ key_items (B @ C) @ behind ys sy)" by simp
    from ascending_split [OF this ne(2,3) S(8)] show ?thesis
      by (simp add: flat_append [OF len(2)] flat_single)
  qed
  have llen: "length (xs @ A # B # C # ys) = length (sx @ k1 # k2 # sy) + 1"
    using two_level_lengths [OF tl] len by simp
  have pos: "lower_bound (sx @ k1 # sy) k2 = length sx + 1"
    by (rule insert_sep_position [OF flat_sorted_seps [OF asc llen]])
  have lss: "length (sx @ k1 # sy) + 1 \<le> MAX_KEYS_INTERNAL ?g" using room two_level_lengths(2) [OF tl] by simp
  then have "length (sx @ k1 # sy) < PHYS_KEYS_INTERNAL ?g" by (simp add: MAX_KEYS_INTERNAL_def)
  from insert_internal [OF pa(3) this, of k2 "node_id n3"] obtain pb where pb:
    "insert_in_internal ?g pa k2 (node_id n3) = Inr pb" "same_place pa pb"
    "int_node ?g pb (sx @ k1 # k2 # sy) (xi @ i # j # node_id n3 # yi)"
    unfolding pos using len by auto
  have pbi: "node_id pb = tree_root_id t" "\<not> deleted pb"
    using read_node_facts(2,4) [OF v p] pa(2) pb(2) by (auto simp: same_place_def)
  let ?t2 = "saves t1 [n3b, rc, la]" and ?t3 = "saves t1 [n3b, rc, la, pb]"
  have dist: "distinct (map node_id [n3b, rc, la, pb])" using ids pbi fresh root d by auto
  have ok: "\<forall>n \<in> set [n3b, rc, la, pb]. on_page t1 (node_id n) \<and> phys ?g n \<and> \<not> deleted n"
    using on ids pbi live nb S(4) pb(3) by (auto simp: leaf_node_def int_node_def)
  note sv = saves_facts [OF nf(1) dist ok]
  have rd: "read_node ?t3 i = Inr la" "read_node ?t3 j = Inr rc" "read_node ?t3 (node_id n3) = Inr n3b"
    "read_node ?t3 (tree_root_id t) = Inr pb" using sv(2) ids pbi by auto
  have "read_node ?t2 (tree_root_id t) = Inr p"
    using saves_facts(3) [OF nf(1), of "[n3b, rc, la]" "tree_root_id t" p] dist ok p1 ids fresh(2) root by auto
  then have R: "splitLeaves2to3 P t l r st (length xi) = Inr ?t3"
  proof -
    have no: "\<not> overflow ?g pb" using pb(3) lss int_node_size [OF pb(3)] by (simp add: overflow_def int_node_def)
    have sz: "keys_size l = length a" "keys_size r = length b" using leaf_node_size ln by auto
    have nx': "get_next_id rb = Inr (next_leaf rb)" using S(5) by (simp add: get_next_id_def leaf_node_def)
    have sn: "set_next n3a (next_leaf rb) = Inr n3b" "set_next rb (node_id n3) = Inr rc"
      using set_next_leaf(1) [OF S(6)] set_next_leaf(1) [OF S(5)] ids(3) by (simp_all add: n3b_def rc_def)
    show ?thesis
      using \<open>read_node ?t2 (tree_root_id t) = Inr p\<close> no
      unfolding splitLeaves2to3_def nn prod.case sz Let_def s1_def [symmetric] s2_def [symmetric] s3_def [symmetric]
        S(1-3) rbind.simps nx' sn st ids(3) saves_simps pa(1)
      by (simp add: pa(1) pb(1))
  qed
  have "two_level ?g ?t3 (xi @ [i, j, node_id n3] @ yi) (xs @ [A, B, C] @ ys) (sx @ k1 # k2 # sy)"
  proof (rule rebuild [where mi = "[i, j]" and ms = "[a, b]" and t = t])
    show "two_level ?g t (xi @ [i, j] @ yi) (xs @ [a, b] @ ys) (sx @ s # sy)" using tl by simp
    show "chain ?g ?t3 [i, j, node_id n3] [A, B, C] (hd (yi @ [-1]))"
      using rd S(4) nb links by (simp add: leaf_at_def)
    show "m \<in> set xi \<union> set yi \<Longrightarrow> read_node t m = Inr n \<Longrightarrow> read_node ?t3 m = Inr n" for m n
      using sv(3) [of m n] nf(7) [of m n] ids pbi d root by auto
    show "root_at ?g ?t3 (xi @ [i, j, node_id n3] @ yi) (sx @ k1 # k2 # sy)"
      using rd(4) pb(3) lss sv(4) nf(8) by (subst root_at_many) auto
    show "ascending (flat (xs @ [A, B, C] @ ys) (sx @ k1 # k2 # sy))" using asc by simp
    show "[] \<in> set [A, B, C] \<Longrightarrow> xs = [] \<and> ys = [] \<and> length [A, B, C] = 1" using ne by auto
    show "distinct (xi @ [i, j, node_id n3] @ yi)" using d fresh by auto
    show "tree_first_leaf ?t3 = tree_first_leaf t" using sv(5) nf(9) by simp
  qed (use len sv in simp_all)
  then have "two_level ?g ?t3 (xi @ i # j # node_id n3 # yi) (xs @ A # B # C # ys) (sx @ k1 # k2 # sy)"
    by (simp only: append_Cons append_Nil)
  moreover have "\<forall>z \<in> {A, B, C}. length z \<le> MAX_KEYS_LEAF ?g" using lens sc by auto
  ultimately show thesis using that [OF R] ABC by blast
qed

section \<open>The first split\<close>

lemma split1to2_two_level:
  fixes P :: "'k::linorder tree_params"
  assumes tl: "two_level (geom P) t [i] [a] []" and l: "read_node t i = Inr l"
    and len: "length a = MAX_KEYS_LEAF (geom P) + 1" "1 \<le> MAX_KEYS_LEAF (geom P)"
      "1 \<le> MAX_KEYS_INTERNAL (geom P)"
  obtains t' m A B s where "splitLeaf1to2 P t l = Inr t'" "two_level (geom P) t' [i, m] [A, B] [s]"
    "A @ B = a" "length A \<le> MAX_KEYS_LEAF (geom P)" "length B \<le> MAX_KEYS_LEAF (geom P)"
proof -
  let ?g = "geom P"
  define s1 where "s1 = length a div 2"
  have v: "valid ?g t" using tl by (simp add: two_level_def)
  have ln: "leaf_node ?g l a" and nxl: "next_leaf l = -1" using leaf_page [of ?g t "[]" i "[]" "[]" a "[]"] tl l by auto
  obtain n0 t1 where nn0: "new_node t False = (n0, t1)" by fastforce
  note f0 = new_node_facts [OF v nn0]
  define n1 where "n1 = n0\<lparr>ichildren := (ichildren n0)[0 := i]\<rparr>"
  have phys_caps: "0 < PHYS_KEYS_INTERNAL ?g" using len(3) by (simp add: MAX_KEYS_INTERNAL_def)
  have n1: "int_node ?g n1 [] [i]"
  proof (rule int_nodeI)
    show "phys ?g n1" using f0(3,4,5) by (simp add: n1_def phys_def)
    show "take (keys_size n1 + 1) (ichildren n1) = [i]"
      using f0(3,5) by (simp add: n1_def phys_def CHILDREN_SIZE_def take_Suc_conv_app_nth)
  qed (use f0 in \<open>simp_all add: n1_def\<close>)
  have id1: "node_id n1 = node_id n0" "same_place n0 n1" by (simp_all add: n1_def same_place_def)
  let ?t2 = "set_root_id t1 (node_id n0)"
  have v2: "valid ?g ?t2" using f0(1) by (simp add: valid_def set_root_id_def)
  have rd2: "read_node ?t2 j = read_node t1 j" for j by (simp add: read_node_def set_root_id_def)
  have r0: "read_node ?t2 (node_id n0) = Inr n0" using f0(2) rd2 by simp
  note w1 = writable [OF v2 r0 id1(2)]
  have ph1: "phys ?g n1" using n1 by (simp add: int_node_def)
  let ?t3 = "save ?t2 n1"
  note sv3 = save_facts [OF v2 w1(1) ph1]
  obtain n3 t4 where nn3: "new_node ?t3 True = (n3, t4)" by fastforce
  note f3 = new_node_facts [OF sv3(1) nn3]
  have li: "i \<noteq> node_id n0" "read_node t1 i = Inr l" using f0(7) [OF l] by auto
  then have l3: "read_node ?t3 i = Inr l" using sv3(4) [of i l] rd2 id1 by simp
  have p3: "read_node ?t3 (node_id n0) = Inr n1" using sv3(3) w1 by simp
  have l4: "read_node t4 i = Inr l" "i \<noteq> node_id n3" and p4: "read_node t4 (node_id n0) = Inr n1" "node_id n0 \<noteq> node_id n3"
    using f3(7) [OF l3] f3(7) [OF p3] by auto
  obtain n2 where n2: "insert_in_internal ?g n1 (key0 P) (node_id n3) = Inr n2" "same_place n1 n2"
    "int_node ?g n2 [key0 P] [i, node_id n3]"
    using insert_internal [OF n1, of "key0 P" "node_id n3"] phys_caps by (auto simp: lower_bound_def)
  note w4 = writable [OF f3(1) p4(1) n2(2)]
  have ph2: "phys ?g n2" using n2(3) by (simp add: int_node_def)
  let ?t5 = "save t4 n2"
  note sv5 = save_facts [OF f3(1) w4(1) ph2]
  have l5: "read_node ?t5 i = Inr l" and n5: "read_node ?t5 (node_id n3) = Inr n3" and p5: "read_node ?t5 (node_id n0) = Inr n2"
    using sv5(3) [OF w4(2)] sv5(4) [of i l] sv5(4) [of "node_id n3" n3] l4 f3(2) p4(2) li(1) w4(3) by auto
  have ln3: "leaf_node ?g n3 []" using new_leaf_node [OF sv3(1) nn3] .
  have cnt: "s1 = (length a + length []) div 2" "length a \<noteq> s1" "s1 \<le> MAX_KEYS_LEAF ?g"
    "length a + length [] - s1 \<le> MAX_KEYS_LEAF ?g" "0 < length a + length []" "1 \<le> s1"
    using len by (simp_all add: s1_def)
  obtain l' r' p' where R: "redistributeLeaves2to2 P ?t5 l n3 n2 0 = Inr (saves ?t5 [r', l', p'], l', r', p')"
    "leaf_node ?g l' (take s1 a)" "leaf_node ?g r' (drop s1 a)" "int_node ?g p' [fst (hd (drop s1 a))] [i, node_id n3]"
    "same_place l l'" "same_place n3 r'" "same_place n2 p'"
    using redistribute2to2_nodes [OF ln ln3 n2(3) _ cnt(1-5), of 0 ?t5]
    by (simp del: saves_simps) blast
  define l'' where "l'' = l'\<lparr>next_leaf := node_id r'\<rparr>"
  have sn: "set_next l' (node_id r') = Inr l''" "leaf_node ?g l'' (take s1 a)"
    using set_next_leaf [OF R(2)] by (simp_all add: l''_def)
  note wl = writable [OF sv5(1) l5 R(5)] and wr = writable [OF sv5(1) n5 R(6)] and wp = writable [OF sv5(1) p5 R(7)]
  let ?t6 = "saves ?t5 [r', l', p']"
  have dist: "distinct (map node_id [r', l', p'])" using wl wr wp l4 p4 li by auto
  have ok: "\<forall>n \<in> set [r', l', p']. on_page ?t5 (node_id n) \<and> phys ?g n \<and> \<not> deleted n"
    using wl wr wp R(2-4) by (auto simp: leaf_node_def int_node_def)
  note sv6 = saves_facts [OF sv5(1) dist ok]
  have pl: "same_place l' (l'\<lparr>next_leaf := next_leaf l'\<rparr>)" by simp
  have w6: "on_page ?t6 (node_id l'')" "phys ?g l''" "\<not> deleted l''" "node_id l'' = i"
    using sv6(6) wl sn(2) by (auto simp: l''_def leaf_node_def)
  let ?t7 = "save ?t6 l''"
  note sv7 = save_facts [OF sv6(1) w6(1,2)]
  have rd: "read_node ?t7 i = Inr l''" "read_node ?t7 (node_id n3) = Inr r'" "read_node ?t7 (node_id n0) = Inr p'"
    using sv7(3) [OF w6(3)] sv7(4) [of "node_id n3" r'] sv7(4) [of "node_id n0" p'] sv6(2) wl wr wp w6(4) l4 p4 li by auto
  have nx: "next_leaf l'' = node_id n3" "next_leaf r' = -1"
    using wr(3) R(6) f3(6) by (auto simp: l''_def same_place_def)
  have s0: "tree_root_id ?t7 = node_id n0" "tree_first_leaf ?t7 = i"
    using sv7(6,7) sv6(4,5) sv5(6,7) f3(8,9) sv3(6,7) f0(9) tl by (auto simp: set_root_id_def two_level_def)
  have ne: "take s1 a \<noteq> []" "drop s1 a \<noteq> []"
  proof -
    have "s1 < length a" "0 < length a" using cnt len by simp_all
    then show "take s1 a \<noteq> []" "drop s1 a \<noteq> []" using cnt(6) unfolding take_eq_Nil drop_eq_Nil by auto
  qed
  have "ascending ([] @ key_items (take s1 a @ drop s1 a) @ [])" using tl by (simp add: two_level_def)
  from ascending_split [OF this ne refl]
  have asc: "ascending (flat [take s1 a, drop s1 a] [fst (hd (drop s1 a))])" by simp
  have "two_level ?g ?t7 [i, node_id n3] [take s1 a, drop s1 a] [fst (hd (drop s1 a))]"
    unfolding two_level_def using sv7(1) l4(2) rd sn(2) R(3,4) nx s0 asc ne len(3)
    by (simp add: leaf_at_def)
  moreover have "splitLeaf1to2 P t l = Inr ?t7"
    using n2(1) R(1) sn(1) f0(5) li n1 nn0 nn3 l read_node_facts(2) [OF v l]
    by (simp add: splitLeaf1to2_def Let_def push_back_to_internal_def flip: n1_def)
  moreover have "length (take s1 a) \<le> MAX_KEYS_LEAF ?g" "length (drop s1 a) \<le> MAX_KEYS_LEAF ?g" using cnt by simp_all
  ultimately show thesis using that append_take_drop_id by blast
qed

section \<open>Insertion\<close>

lemma create_root_two_level:
  assumes "two_level g t [] kvss ss"
  shows "\<exists>i. shallow g (create_root t) [i] [[]] []"
proof -
  obtain n t1 where nn: "new_node t True = (n, t1)" by fastforce
  have v: "valid g t" using assms by (simp add: two_level_def)
  note nf = new_node_facts [OF v nn]
  let ?t = "set_root_and_first_leaf_id t1 (node_id n) (node_id n)"
  have "read_node ?t j = read_node t1 j" for j by (simp add: read_node_def set_root_and_first_leaf_id_def)
  then have "read_node ?t (node_id n) = Inr n" using nf(2) by simp
  moreover have "valid g ?t" using nf(1) by (simp add: valid_def set_root_and_first_leaf_id_def)
  ultimately have "two_level g ?t [node_id n] [[]] []"
    using new_leaf_node [OF v nn] nf(6)
    by (auto simp: two_level_def leaf_at_def set_root_and_first_leaf_id_def)
  then show ?thesis by (auto simp: shallow_def create_root_def nn)
qed

text \<open>The separator between two neighbouring leaves.\<close>

lemma split_seps:
  assumes "two_level g t (xi @ i # j # yi) (xs @ a # b # ys) ss" "length xi = length xs"
  obtains sx s sy where "ss = sx @ s # sy" "length xs = length sx" "length ys = length sy"
proof -
  have l: "length ss = length xs + 1 + length ys"
    using two_level_lengths [OF assms(1)] by simp
  then have "ss = take (length xs) ss @ ss ! length xs # drop (Suc (length xs)) ss"
    by (intro id_take_nth_drop) simp
  then show thesis by (rule that) (simp_all add: l)
qed

text \<open>Both ways out of an overflow keep the leaves' contents in order.\<close>

lemma pair_overflow:
  fixes P :: "'k::linorder tree_params"
  assumes tl: "two_level (geom P) t (xi @ i # j # yi) (xs @ a # b # ys) ss" and len: "length xi = length xs"
    and p: "read_node t (tree_root_id t) = Inr p"
    and lr: "read_node t i = Inr l" "read_node t j = Inr r"
    and tot: "length a + length b \<le> 2 * MAX_KEYS_LEAF (geom P)" "length a \<noteq> (length a + length b) div 2"
      "2 \<le> length a + length b"
    and small: "\<forall>z \<in> set xs \<union> set ys. length z \<le> MAX_KEYS_LEAF (geom P)"
  shows "\<exists>t' kvss' ss'. rmap fst (redistributeLeaves2to2 P t l r p (length xi)) = Inr t' \<and>
    shallow (geom P) t' (xi @ i # j # yi) kvss' ss' \<and> concat kvss' = concat (xs @ a # b # ys)"
proof -
  define s1 where "s1 = (length a + length b) div 2"
  obtain sx s sy where ss: "ss = sx @ s # sy" "length xs = length sx" using split_seps [OF tl len] by metis
  have cnt: "length a \<noteq> s1" "s1 \<le> MAX_KEYS_LEAF (geom P)" "length a + length b - s1 \<le> MAX_KEYS_LEAF (geom P)" "0 < s1"
    using tot by (auto simp: s1_def)
  define A where "A = take s1 (a @ b)"
  define B where "B = drop s1 (a @ b)"
  have AB: "A @ B = a @ b" unfolding A_def B_def by (rule append_take_drop_id)
  have lens: "length A \<le> MAX_KEYS_LEAF (geom P)" "length B \<le> MAX_KEYS_LEAF (geom P)"
    using cnt by (simp_all add: A_def B_def)
  obtain t' l' r' p' s' where R: "redistributeLeaves2to2 P t l r p (length xi) = Inr (t', l', r', p')"
    "two_level (geom P) t' (xi @ i # j # yi) (xs @ A # B # ys) (sx @ s' # sy)"
    using pair_two_level [OF tl [unfolded ss(1)] len ss(2) p lr s1_def cnt]
    unfolding A_def [symmetric] B_def [symmetric] by blast
  have "concat (xs @ A # B # ys) = concat (xs @ a # b # ys)"
    using arg_cong [OF AB, of "\<lambda>z. concat xs @ z @ concat ys"] by simp
  moreover have "shallow (geom P) t' (xi @ i # j # yi) (xs @ A # B # ys) (sx @ s' # sy)"
    using R(2) small lens unfolding shallow_def by auto
  ultimately show ?thesis using R(1) by auto
qed

lemma split_overflow:
  fixes P :: "'k::linorder tree_params"
  assumes tl: "two_level (geom P) t (xi @ i # j # yi) (xs @ a # b # ys) ss" and len: "length xi = length xs"
    and st: "top_of st = Inr (tree_root_id t, idx)"
    and lr: "read_node t i = Inr l" "read_node t j = Inr r"
    and tot: "length a + length b = 2 * MAX_KEYS_LEAF (geom P) + 1" "length a \<le> MAX_KEYS_LEAF (geom P) + 1"
      "length b \<le> MAX_KEYS_LEAF (geom P) + 1" "1 \<le> MAX_KEYS_LEAF (geom P)"
    and room: "length (xi @ i # j # yi) \<le> MAX_KEYS_INTERNAL (geom P)"
    and small: "\<forall>z \<in> set xs \<union> set ys. length z \<le> MAX_KEYS_LEAF (geom P)"
  shows "\<exists>t' ids' kvss' ss'. splitLeaves2to3 P t l r st (length xi) = Inr t' \<and>
    shallow (geom P) t' ids' kvss' ss' \<and> concat kvss' = concat (xs @ a # b # ys) \<and>
    length ids' = length (xi @ i # j # yi) + 1"
proof -
  obtain sx s sy where ss: "ss = sx @ s # sy" "length xs = length sx" using split_seps [OF tl len] by metis
  obtain t' m A B C s' s'' where R: "splitLeaves2to3 P t l r st (length xi) = Inr t'"
    "two_level (geom P) t' (xi @ i # j # m # yi) (xs @ A # B # C # ys) (sx @ s' # s'' # sy)"
    "A @ B @ C = a @ b" "\<forall>z \<in> {A, B, C}. length z \<le> MAX_KEYS_LEAF (geom P)"
    using split2to3_two_level [OF tl [unfolded ss(1)] len ss(2) st lr tot room] by blast
  have "concat (xs @ A # B # C # ys) = concat (xs @ a # b # ys)"
    using arg_cong [OF R(3), of "\<lambda>z. concat xs @ z @ concat ys"] by simp
  moreover have "shallow (geom P) t' (xi @ i # j # m # yi) (xs @ A # B # C # ys) (sx @ s' # s'' # sy)"
    using R(2,4) small unfolding shallow_def by auto
  moreover have "length (xi @ i # j # m # yi) = length (xi @ i # j # yi) + 1" by simp
  ultimately show ?thesis using R(1) by blast
qed

text \<open>The result of handling an overflow, whatever way it took.\<close>

definition overflow_handled ::
  "geometry \<Rightarrow> ('k::linorder, 'v) tree result \<Rightarrow> int list \<Rightarrow> ('k \<times> 'v) list list \<Rightarrow> bool" where
  "overflow_handled g res ids kvss \<longleftrightarrow> (\<exists>t' ids' kvss' ss'. res = Inr t' \<and> shallow g t' ids' kvss' ss' \<and>
     concat kvss' = concat kvss \<and> length ids' \<le> length ids + 1)"

definition one_too_many :: "geometry \<Rightarrow> nat \<Rightarrow> nat \<Rightarrow> bool" where
  "one_too_many g m n \<longleftrightarrow> (m = MAX_KEYS_LEAF g + 1 \<and> n \<le> MAX_KEYS_LEAF g) \<or>
     (n = MAX_KEYS_LEAF g + 1 \<and> m \<le> MAX_KEYS_LEAF g)"

lemma pair_handled:
  fixes P :: "'k::linorder tree_params"
  assumes tl: "two_level (geom P) t (xi @ i # j # yi) (xs @ a # b # ys) ss" "length xi = length xs"
    and p: "read_node t (tree_root_id t) = Inr p" and lr: "read_node t i = Inr l" "read_node t j = Inr r"
    and tot: "one_too_many (geom P) (length a) (length b)"
      "length a < MAX_KEYS_LEAF (geom P) \<or> length b < MAX_KEYS_LEAF (geom P)"
    and small: "\<forall>z \<in> set xs \<union> set ys. length z \<le> MAX_KEYS_LEAF (geom P)"
  shows "overflow_handled (geom P) (rmap fst (redistributeLeaves2to2 P t l r p (length xi)))
    (xi @ i # j # yi) (xs @ a # b # ys)"
proof -
  have "length a + length b \<le> 2 * MAX_KEYS_LEAF (geom P)" "length a \<noteq> (length a + length b) div 2"
    "2 \<le> length a + length b" using tot by (auto simp: one_too_many_def)
  from pair_overflow [OF tl p lr this small] show ?thesis
    unfolding overflow_handled_def by (metis le_add1)
qed

lemma split_handled:
  fixes P :: "'k::linorder tree_params"
  assumes tl: "two_level (geom P) t (xi @ i # j # yi) (xs @ a # b # ys) ss" "length xi = length xs"
    and st: "top_of st = Inr (tree_root_id t, idx)"
    and lr: "read_node t i = Inr l" "read_node t j = Inr r"
    and tot: "one_too_many (geom P) (length a) (length b)"
      "\<not> (length a < MAX_KEYS_LEAF (geom P) \<or> length b < MAX_KEYS_LEAF (geom P))" "1 \<le> MAX_KEYS_LEAF (geom P)"
    and room: "length (xi @ i # j # yi) \<le> MAX_KEYS_INTERNAL (geom P)"
    and small: "\<forall>z \<in> set xs \<union> set ys. length z \<le> MAX_KEYS_LEAF (geom P)"
  shows "overflow_handled (geom P) (splitLeaves2to3 P t l r st (length xi)) (xi @ i # j # yi) (xs @ a # b # ys)"
proof -
  have "length a + length b = 2 * MAX_KEYS_LEAF (geom P) + 1" "length a \<le> MAX_KEYS_LEAF (geom P) + 1"
    "length b \<le> MAX_KEYS_LEAF (geom P) + 1" using tot by (auto simp: one_too_many_def)
  from split_overflow [OF tl st lr this tot(3) room small] show ?thesis
    unfolding overflow_handled_def by (metis order_refl)
qed

text \<open>What the leaf's siblings and their sizes decide when it has one key too many.\<close>

lemma many_leaves_overflow:
  fixes P :: "'k::linorder tree_params"
  assumes tl: "two_level (geom P) t (xi @ i # yi) (xs @ a # ys) ss"
    and len: "length xi = length xs" and two: "2 \<le> length (xi @ i # yi)"
    and n: "read_node t i = Inr n" "length a = MAX_KEYS_LEAF (geom P) + 1"
    and small: "\<forall>z \<in> set xs \<union> set ys. length z \<le> MAX_KEYS_LEAF (geom P)"
    and caps: "1 \<le> MAX_KEYS_LEAF (geom P)" "length (xi @ i # yi) \<le> MAX_KEYS_INTERNAL (geom P)"
  shows "overflow_handled (geom P) (handleLeafOverflow P t n (parents t (xi @ i # yi) (length xi)))
    (xi @ i # yi) (xs @ a # ys)"
proof -
  let ?g = "geom P" and ?ids = "xi @ i # yi" and ?M = "MAX_KEYS_LEAF (geom P)"
    and ?st = "parents t (xi @ i # yi) (length xi)"
  have v: "valid ?g t" using tl by (simp add: two_level_def)
  obtain p where p: "read_node t (tree_root_id t) = Inr p" "int_node ?g p ss ?ids"
    using root_node [OF tl two] by blast
  have nr: "node_id n \<noteq> tree_root_id t"
    using root_not_leaf [OF tl two] read_node_facts(2) [OF v n(1)] by auto
  have st: "?st = [(tree_root_id t, length xi)]" "top_of ?st = Inr (tree_root_id t, length xi)"
    using two unfolding parents_def top_of_def by auto
  have cs: "children_size p = length ?ids"
    using int_node_size [OF p(2)] two_level_lengths(2) [OF tl] by (simp add: children_size_def)
  note step = handleLeafOverflow_def [of P t n ?st] st(2) p(1) nr
  have "\<exists>left. left_sibling t p (length xi) = Inr left \<and> (left = None \<longrightarrow> xi = []) \<and>
    (\<forall>l. left = Some l \<longrightarrow> overflow_handled ?g
      (if can_take ?g l then rmap fst (redistributeLeaves2to2 P t l n p (length xi - 1))
       else splitLeaves2to3 P t l n ?st (length xi - 1)) ?ids (xs @ a # ys))"
  proof (cases xi rule: rev_cases)
    case Nil
    then show ?thesis by (intro exI [of _ None]) (simp add: sibling_none(1))
  next
    case (snoc xi0 h)
    then obtain xs0 b where xs: "xs = xs0 @ [b]" using len by (cases xs rule: rev_cases) auto
    have tl': "two_level ?g t (xi0 @ h # i # yi) (xs0 @ b # a # ys) ss" and len0: "length xi0 = length xs0"
      and p': "int_node ?g p ss (xi0 @ h # i # yi)" using tl p(2) len snoc xs by simp_all
    obtain l where s: "left_sibling t p (length xi) = Inr (Some l)" "read_node t h = Inr l" "leaf_node ?g l b"
      using sibling_some [OF tl' len0 p'] snoc by auto
    have sm: "\<forall>z \<in> set xs0 \<union> set ys. length z \<le> ?M" and lb: "length b \<le> ?M" using small xs by auto
    have otm: "one_too_many ?g (length b) (length a)" using lb n(2) by (simp add: one_too_many_def)
    have room: "length (xi0 @ h # i # yi) \<le> MAX_KEYS_INTERNAL ?g" using caps(2) snoc by simp
    show ?thesis
      using pair_handled [OF tl' len0 p(1) s(2) n(1) otm _ sm] n(2) s(1) snoc xs leaf_tests(3) [OF s(3)]
        split_handled [OF tl' len0 st(2) s(2) n(1) otm _ caps(1) room sm]
      by simp
  qed
  then obtain left where left: "left_sibling t p (length xi) = Inr left" "left = None \<Longrightarrow> xi = []"
    "\<And>l. left = Some l \<Longrightarrow> overflow_handled ?g
      (if can_take ?g l then rmap fst (redistributeLeaves2to2 P t l n p (length xi - 1))
       else splitLeaves2to3 P t l n ?st (length xi - 1)) ?ids (xs @ a # ys)" by blast
  have "\<exists>right. right_sibling t p (length xi) = Inr right \<and> (right = None \<longrightarrow> yi = []) \<and>
    (\<forall>r. right = Some r \<longrightarrow> overflow_handled ?g
      (if can_take ?g r then rmap fst (redistributeLeaves2to2 P t n r p (length xi))
       else splitLeaves2to3 P t n r ?st (length xi)) ?ids (xs @ a # ys))"
  proof (cases yi)
    case Nil
    then show ?thesis using cs by (intro exI [of _ None]) (simp add: sibling_none(2))
  next
    case (Cons j yi')
    then obtain b ys' where ys: "ys = b # ys'" using two_level_lengths(1) [OF tl] len by (cases ys) auto
    have tl': "two_level ?g t (xi @ i # j # yi') (xs @ a # b # ys') ss"
      and p': "int_node ?g p ss (xi @ i # j # yi')" using tl p(2) Cons ys by simp_all
    obtain r where s: "right_sibling t p (length xi) = Inr (Some r)" "read_node t j = Inr r" "leaf_node ?g r b"
      using sibling_some [OF tl' len p'] by blast
    have sm: "\<forall>z \<in> set xs \<union> set ys'. length z \<le> ?M" and lb: "length b \<le> ?M" using small ys by auto
    have otm: "one_too_many ?g (length a) (length b)" using lb n(2) by (simp add: one_too_many_def)
    have room: "length (xi @ i # j # yi') \<le> MAX_KEYS_INTERNAL ?g" using caps(2) Cons by simp
    show ?thesis
      using pair_handled [OF tl' len p(1) n(1) s(2) otm _ sm] n(2) s(1) Cons ys leaf_tests(3) [OF s(3)]
        split_handled [OF tl' len st(2) n(1) s(2) otm _ caps(1) room sm]
      by simp
  qed
  then obtain right where right: "right_sibling t p (length xi) = Inr right" "right = None \<Longrightarrow> yi = []"
    "\<And>r. right = Some r \<Longrightarrow> overflow_handled ?g
      (if can_take ?g r then rmap fst (redistributeLeaves2to2 P t n r p (length xi))
       else splitLeaves2to3 P t n r ?st (length xi)) ?ids (xs @ a # ys)" by blast
  have "left \<noteq> None \<or> right \<noteq> None"
  proof (rule ccontr)
    assume "\<not> (left \<noteq> None \<or> right \<noteq> None)"
    then have "xi = []" "yi = []" using left(2) right(2) by blast+
    then show False using two by simp
  qed
  moreover have "handleLeafOverflow P t n ?st =
    (if left \<noteq> None \<and> can_take ?g (the left) then rmap fst (redistributeLeaves2to2 P t (the left) n p (length xi - 1))
     else if right \<noteq> None \<and> can_take ?g (the right) then rmap fst (redistributeLeaves2to2 P t n (the right) p (length xi))
     else if left \<noteq> None then splitLeaves2to3 P t (the left) n ?st (length xi - 1)
     else if right \<noteq> None then splitLeaves2to3 P t n (the right) ?st (length xi)
     else Inl (Runtime_Error ''This code must be unreachable.''))"
    unfolding handleLeafOverflow_def st(2) rbind.simps prod.case p(1) left(1) right(1) if_not_P [OF nr] ..
  ultimately show ?thesis using left(3) right(3) by (auto split: if_splits)
qed

lemma leaf_overflow_handled:
  fixes P :: "'k::linorder tree_params"
  assumes tl: "two_level (geom P) t (xi @ i # yi) (xs @ a # ys) ss"
    and len: "length xi = length xs"
    and n: "read_node t i = Inr n" "length a = MAX_KEYS_LEAF (geom P) + 1"
    and small: "\<forall>z \<in> set xs \<union> set ys. length z \<le> MAX_KEYS_LEAF (geom P)"
    and caps: "1 \<le> MAX_KEYS_LEAF (geom P)" "length (xi @ i # yi) \<le> MAX_KEYS_INTERNAL (geom P)"
  shows "overflow_handled (geom P) (handleLeafOverflow P t n (parents t (xi @ i # yi) (length xi)))
    (xi @ i # yi) (xs @ a # ys)"
proof (cases "2 \<le> length (xi @ i # yi)")
  case True
  show ?thesis by (rule many_leaves_overflow [OF tl len True n small caps])
next
  case False
  then have "length xi + length yi = 0" by (simp add: not_le)
  then have one: "xi = []" "yi = []" by simp_all
  then have one': "xs = []" "ys = []" "ss = []" "tree_root_id t = i"
    using len two_level_lengths [OF tl] tl by (auto simp: two_level_def)
  have tl1: "two_level (geom P) t [i] [a] []" using tl one one' by simp
  have cap1: "1 \<le> MAX_KEYS_INTERNAL (geom P)" using caps(2) by simp
  have nid: "node_id n = tree_root_id t"
    using read_node_facts(2) [OF _ n(1)] tl one' by (auto simp: two_level_def)
  show ?thesis
  proof (rule split1to2_two_level [OF tl1 n caps(1) cap1])
    fix t' m A B s
    assume r: "splitLeaf1to2 P t n = Inr t'" "two_level (geom P) t' [i, m] [A, B] [s]" "A @ B = a"
      "length A \<le> MAX_KEYS_LEAF (geom P)" "length B \<le> MAX_KEYS_LEAF (geom P)"
    have "handleLeafOverflow P t n (parents t (xi @ i # yi) (length xi)) = Inr t'"
      using r(1) nid by (simp add: handleLeafOverflow_def)
    moreover have "shallow (geom P) t' [i, m] [A, B] [s]" using r by (simp add: shallow_def)
    moreover have "concat [A, B] = concat (xs @ a # ys)" using r(3) one' by simp
    moreover have "length [i, m] \<le> length (xi @ i # yi) + 1" using one by simp
    ultimately show ?thesis unfolding overflow_handled_def by blast
  qed
qed

lemma insert_present:
  fixes P :: "'k::linorder tree_params"
  assumes sh: "shallow (geom P) t ids kvss ss" and ne: "ids \<noteq> []"
    and new: "tree_map kvss key = None"
    and caps: "1 \<le> MAX_KEYS_LEAF (geom P)" "length ids \<le> MAX_KEYS_INTERNAL (geom P)"
  shows "\<exists>t' ids' kvss' ss'. tree_insert P t key val = Inr t' \<and> shallow (geom P) t' ids' kvss' ss' \<and>
    tree_map kvss' = (tree_map kvss)(key \<mapsto> val) \<and> length ids' \<le> length ids + 1 \<and>
    (length (concat kvss) < MAX_KEYS_LEAF (geom P) \<longrightarrow> length ids' = length ids)"
proof -
  let ?g = "geom P"
  have tl: "two_level ?g t ids kvss ss" and small: "\<forall>kvs \<in> set kvss. length kvs \<le> MAX_KEYS_LEAF ?g"
    using sh by (auto simp: shallow_def)
  from findLeaf_two_level [OF tl ne, of key]
  obtain xi i yi xs a ys sx sy n where f:
    "ids = xi @ i # yi" "kvss = xs @ a # ys" "ss = sx @ sy"
    "length xi = length xs" "length xs = length sx" "length yi = length ys" "length ys = length sy"
    "\<forall>x \<in> set (before xs sx). x < (key, 1)" "\<forall>x \<in> set (behind ys sy). (key, 1) < x"
    "findLeaf t key = Inr (Some (n, parents t ids (length xi)))"
    "read_node t i = Inr n" "leaf_node ?g n a" "next_leaf n = hd (yi @ [-1])" .
  let ?a = "kv_insert key val a"
  have asc: "ascending (flat kvss ss)" using tl by (simp add: two_level_def)
  have len: "length kvss = length ss + 1" using two_level_lengths [OF tl] ne by simp
  have srt: "sorted_wrt (<) (map fst a)"
    using flat_sorted_keys [OF asc len] by (simp add: f(2) sorted_wrt_append)
  have absent: "key \<notin> fst ` set a"
    using new f(5,7,8,9) by (simp add: f(2) tree_map_at map_of_eq_None_iff)
  have absent': "key \<notin> fst ` set (concat kvss)" using new by (simp add: tree_map_def map_of_eq_None_iff)
  have "ascending (before xs sx @ key_items a @ behind ys sy)"
    using asc by (simp add: f(2,3) flat_at [OF f(5)])
  from ascending_replace [OF this kv_insert_sorted [OF srt absent, of val]]
  have asc': "ascending (flat (xs @ ?a # ys) ss)"
    using f(8,9) by (auto simp: f(3) flat_at [OF f(5)] set_kv_insert)
  have len': "length (xs @ ?a # ys) = length ss + 1" using len f(2) by simp
  have M: "tree_map kvss' = (tree_map kvss)(key \<mapsto> val)"
    if "concat kvss' = concat (xs @ ?a # ys)" for kvss'
    unfolding tree_map_def that
    using ascending_distinct [OF asc len] ascending_distinct [OF asc' len'] absent'
    by (intro map_of_insert) (auto simp: f(2) set_kv_insert)
  have la: "length a \<le> MAX_KEYS_LEAF ?g" using small f(2) by simp
  then have "length a < PHYS_SIZE_LEAF ?g" using caps(1) by (simp add: MAX_KEYS_LEAF_def)
  from insert_leaf [OF f(12) this, of key val] obtain n' where n': "insert_in_leaf ?g n key val = Inr n'"
    "leaf_node ?g n' ?a" "same_place n n'" by blast
  note sl = save_leaf_two_level [OF tl [unfolded f(1,2)] f(4) f(11) n'(3,2) asc']
  have tl2: "two_level ?g (save t n') ids (xs @ ?a # ys) ss" and rd: "read_node (save t n') i = Inr n'"
    using sl by (auto simp: f(1) kv_insert_def)
  have "\<not> tree_empty t" using f(10) by (auto simp: findLeaf_def)
  then have ins: "tree_insert P t key val = (if overflow ?g n'
      then handleLeafOverflow P (save t n') n' (parents t ids (length xi)) else Inr (save t n'))"
    using f(10) n'(1) by (simp add: tree_insert_def)
  show ?thesis
  proof (cases "overflow ?g n'")
    case False
    then have "shallow ?g (save t n') ids (xs @ ?a # ys) ss"
      using tl2 small f(2) leaf_tests(1) [OF n'(2)] by (auto simp: shallow_def)
    then show ?thesis using ins False M by (intro exI conjI impI) auto
  next
    case True
    then have lim: "length ?a = MAX_KEYS_LEAF ?g + 1" using la leaf_tests(1) [OF n'(2)] by simp
    have par: "parents t ids (length xi) = parents (save t n') ids (length xi)" by (simp add: parents_def save_def)
    have sm: "\<forall>z \<in> set xs \<union> set ys. length z \<le> MAX_KEYS_LEAF ?g" using small f(2) by auto
    have "overflow_handled ?g (handleLeafOverflow P (save t n') n' (parents (save t n') ids (length xi)))
        ids (xs @ ?a # ys)"
      using leaf_overflow_handled [OF tl2 [unfolded f(1)] f(4) rd lim sm caps(1)] caps(2) unfolding f(1) by blast
    then have "overflow_handled ?g (handleLeafOverflow P (save t n') n' (parents t ids (length xi))) ids (xs @ ?a # ys)"
      unfolding par .
    moreover have "\<not> length (concat kvss) < MAX_KEYS_LEAF ?g" 
    proof -
      have "length (takeWhile (\<lambda>(j, _). j < key) a) + length (dropWhile (\<lambda>(j, _). j < key) a) = length a"
        by (simp only: length_append [symmetric] takeWhile_dropWhile_id)
      then have "length ?a = length a + 1" by (simp add: kv_insert_def)
      then show ?thesis using lim f(2) by simp
    qed
    ultimately show ?thesis using ins True M unfolding overflow_handled_def by auto
  qed
qed

lemma insert_shallow:
  fixes P :: "'k::linorder tree_params"
  assumes sh: "shallow (geom P) t ids kvss ss" and new: "tree_map kvss key = None"
    and caps: "1 \<le> MAX_KEYS_LEAF (geom P)" "1 \<le> MAX_KEYS_INTERNAL (geom P)" "length ids \<le> MAX_KEYS_INTERNAL (geom P)"
  shows "\<exists>t' ids' kvss' ss'. tree_insert P t key val = Inr t' \<and> shallow (geom P) t' ids' kvss' ss' \<and>
    tree_map kvss' = (tree_map kvss)(key \<mapsto> val) \<and> length ids' \<le> max 1 (length ids) + 1 \<and>
    (length (concat kvss) < MAX_KEYS_LEAF (geom P) \<longrightarrow> length ids' \<le> max 1 (length ids))"
proof (cases "ids = []")
  case False
  then have "max 1 (length ids) = length ids" by (cases ids) simp_all
  moreover have "max 1 (length ids) = length ids" using False by (cases ids) simp_all
  ultimately show ?thesis using insert_present [OF sh False new caps(1,3), of val] by (elim exE conjE) (intro exI conjI, auto)
next
  case True
  then have tl: "two_level (geom P) t [] kvss ss" using sh by (simp add: shallow_def)
  then have k: "kvss = []" using two_level_lengths(1) [OF tl] by simp
  have e: "tree_empty t" using tl by (simp add: two_level_def tree_empty_def)
  obtain i where i: "shallow (geom P) (create_root t) [i] [[]] []" using create_root_two_level [OF tl] by blast
  have v: "valid (geom P) (create_root t)" using i by (simp add: shallow_def two_level_def)
  obtain n where "read_node (create_root t) i = Inr n"
    using i leaf_page [of "geom P" "create_root t" "[]" i "[]" "[]" "[]" "[]" "[]"] by (auto simp: shallow_def)
  then have "1 \<le> i" using read_node_facts(1) [OF v] by (simp add: on_page_def)
  then have "\<not> tree_empty (create_root t)" using i by (simp add: tree_empty_def shallow_def two_level_def)
  then have same: "tree_insert P t key val = tree_insert P (create_root t) key val"
    using e by (simp add: tree_insert_def)
  have none: "tree_map [[]] key = None" "tree_map [[]] = tree_map kvss" by (simp_all add: tree_map_def k)
  have one: "length [i] \<le> MAX_KEYS_INTERNAL (geom P)" using caps(2) by simp
  have "length (concat [[]]) < MAX_KEYS_LEAF (geom P)" using caps(1) by simp
  then obtain t' ids' kvss' ss' where "tree_insert P (create_root t) key val = Inr t'" "shallow (geom P) t' ids' kvss' ss'"
    "tree_map kvss' = (tree_map [[]])(key \<mapsto> val)" "length ids' = length [i]"
    using insert_present [OF i _ none(1) caps(1) one, of val] by blast
  then show ?thesis unfolding same none(2) True by (intro exI conjI impI) auto
qed

end
