(* ===== verification/Tree_Range.thy ===== *)
theory Tree_Range
  imports Tree_Insert
begin

text \<open>
  Updating, removing without underflow and range search on trees of at most two levels.
\<close>

section \<open>The leaf that holds a key\<close>

text \<open>What the descent finds, with the order facts that every operation uses.\<close>

lemma located:
  assumes tl: "two_level g t ids kvss ss" and ne: "ids \<noteq> []"
  obtains xi i yi xs a ys sx sy n where
    "ids = xi @ i # yi" "kvss = xs @ a # ys" "ss = sx @ sy"
    "length xi = length xs" "length xs = length sx" "length ys = length sy"
    "findLeaf t key = Inr (Some (n, parents t ids (length xi)))"
    "read_node t i = Inr n" "leaf_node g n a" "sorted_wrt (<) (map fst a)"
    "tree_map kvss key = map_of a key" "ascending (before xs sx @ key_items a @ behind ys sy)"
    "\<forall>k \<in> fst ` set (concat xs). k < key" "\<forall>k \<in> fst ` set (concat ys). key < k"
proof -
  from findLeaf_two_level [OF tl ne, of key]
  obtain xi i yi xs a ys sx sy n where f:
    "ids = xi @ i # yi" "kvss = xs @ a # ys" "ss = sx @ sy"
    "length xi = length xs" "length xs = length sx" "length yi = length ys" "length ys = length sy"
    "\<forall>x \<in> set (before xs sx). x < (key, 1)" "\<forall>x \<in> set (behind ys sy). (key, 1) < x"
    "findLeaf t key = Inr (Some (n, parents t ids (length xi)))"
    "read_node t i = Inr n" "leaf_node g n a" "next_leaf n = hd (yi @ [-1])" .
  have asc: "ascending (flat kvss ss)" using tl by (simp add: two_level_def)
  have len: "length kvss = length ss + 1" using two_level_lengths [OF tl] ne by simp
  have srt: "sorted_wrt (<) (map fst a)"
    using flat_sorted_keys [OF asc len] by (simp add: f(2) sorted_wrt_append)
  have m: "tree_map kvss key = map_of a key"
    unfolding f(2) using f(5,7,8,9) by (intro tree_map_at) auto
  have asc': "ascending (before xs sx @ key_items a @ behind ys sy)"
    using asc by (simp add: f(2,3) flat_at [OF f(5)])
  have lo: "\<forall>k \<in> fst ` set (concat xs). k < key"
    using keys_before [OF f(5)] f(8) by fastforce
  have hi: "\<forall>k \<in> fst ` set (concat ys). key < k"
    using keys_behind [OF f(7)] f(9) by fastforce
  show thesis by (rule that [OF f(1-5,7,10-12) srt m asc' lo hi])
qed

section \<open>Updating\<close>

lemma map_values_sorted:
  "sorted_wrt (<) (map fst a) \<Longrightarrow> sorted_wrt (<) (map fst (map (\<lambda>(j, w). (j, if j = k then v else w)) a))"
  by (simp add: comp_def case_prod_beta)

lemma key_items_map_values [simp]:
  "key_items (map (\<lambda>(j, w). (j, if j = k then v else w)) a) = key_items a"
  by (induction a) auto

lemma map_of_map_values:
  "map_of (map (\<lambda>(j, w). (j, if j = k then v else w)) a) j =
    (if j = k then map_option (\<lambda>_. v) (map_of a j) else map_of a j)"
  by (induction a) auto

lemma update_shallow:
  assumes sh: "shallow g t ids kvss ss" and ne: "ids \<noteq> []"
  shows "\<exists>t' kvss'. tree_update t key val = Inr (tree_map kvss key \<noteq> None, t') \<and>
    shallow g t' ids kvss' ss \<and>
    tree_map kvss' = (if tree_map kvss key = None then tree_map kvss else (tree_map kvss)(key \<mapsto> val))"
proof -
  have tl: "two_level g t ids kvss ss" and small: "\<forall>kvs \<in> set kvss. length kvs \<le> MAX_KEYS_LEAF g"
    using sh by (auto simp: shallow_def)
  from located [OF tl ne, of key]
  obtain xi i yi xs a ys sx sy n where f:
    "ids = xi @ i # yi" "kvss = xs @ a # ys" "ss = sx @ sy"
    "length xi = length xs" "length xs = length sx" "length ys = length sy"
    "findLeaf t key = Inr (Some (n, parents t ids (length xi)))"
    "read_node t i = Inr n" "leaf_node g n a" "sorted_wrt (<) (map fst a)"
    "tree_map kvss key = map_of a key" "ascending (before xs sx @ key_items a @ behind ys sy)"
    "\<forall>k \<in> fst ` set (concat xs). k < key" "\<forall>k \<in> fst ` set (concat ys). key < k" .
  let ?a = "map (\<lambda>(j, w). (j, if j = key then val else w)) a"
  obtain n' where n': "update_value n key val = Inr (key \<in> fst ` set a, n')" "same_place n n'" "leaf_node g n' ?a"
    using update_leaf [OF f(9,10), of key val] by blast
  have asc: "ascending (flat (xs @ ?a # ys) ss)" using f(12) by (simp add: f(3) flat_at [OF f(5)])
  have ne': "?a = [] \<Longrightarrow> xs = [] \<and> ys = []" using tl f(2) by (cases xs; cases ys) (auto simp: two_level_def)
  have tl': "two_level g (save t n') ids (xs @ ?a # ys) ss"
    using save_leaf_two_level(1) [OF tl [unfolded f(1,2)] f(4,8) n'(2,3) asc ne'] by (simp add: f(1))
  then have "shallow g (save t n') ids (xs @ ?a # ys) ss" using small f(2) by (auto simp: shallow_def)
  moreover have "tree_map (xs @ ?a # ys) =
      (if tree_map kvss key = None then tree_map kvss else (tree_map kvss)(key \<mapsto> val))"
  proof
    fix j
    have "map_of (concat xs) key = None" "map_of (concat ys) key = None"
      using f(13,14) by (auto simp: map_of_eq_None_iff)
    then show "tree_map (xs @ ?a # ys) j =
      (if tree_map kvss key = None then tree_map kvss else (tree_map kvss)(key \<mapsto> val)) j"
      using f(11) by (auto simp: tree_map_def f(2) map_add_def map_of_map_values split: option.splits)
  qed
  moreover have "key \<in> fst ` set a \<longleftrightarrow> tree_map kvss key \<noteq> None" using f(11) by (simp add: map_of_eq_None_iff)
  then have "tree_update t key val = Inr (tree_map kvss key \<noteq> None, save t n')"
    using n'(1) f(7) by (simp add: tree_update_def)
  ultimately show ?thesis by blast
qed

section \<open>Removing a key whose leaf stays large enough\<close>

lemma map_of_filter_key: "map_of (filter (\<lambda>(j, _). j \<noteq> k) a) = (map_of a)(k := None)"
  by (induction a) auto

lemma length_without_key:
  "distinct (map fst a) \<Longrightarrow> k \<in> fst ` set a \<Longrightarrow> length (filter (\<lambda>(j, _). j \<noteq> k) a) + 1 = length a"
proof (induction a)
  case (Cons x a)
  show ?case
  proof (cases "fst x = k")
    case True
    then have "filter (\<lambda>(j, _). j \<noteq> k) a = a"
      using Cons.prems(1) by (auto simp: filter_id_conv image_iff case_prod_beta)
    moreover have "(case x of (j, _) \<Rightarrow> j \<noteq> k) \<longleftrightarrow> False" using True by (cases x) simp
    ultimately show ?thesis by simp
  next
    case False
    then show ?thesis using Cons by (auto simp: case_prod_beta)
  qed
qed simp

lemma remove_shallow:
  fixes P :: "'k::linorder tree_params"
  assumes sh: "shallow (geom P) t ids kvss ss" and ne: "ids \<noteq> []"
    and big: "\<And>kvs. kvs \<in> set kvss \<Longrightarrow> key \<in> fst ` set kvs \<Longrightarrow> MIN_KEYS_LEAF (geom P) < length kvs \<or>
      length kvss = 1 \<and> 1 < length kvs"
    and min: "1 \<le> MIN_KEYS_LEAF (geom P)"
  shows "\<exists>t' kvss'. tree_remove P t key = Inr (tree_map kvss key \<noteq> None, t') \<and>
    shallow (geom P) t' ids kvss' ss \<and> tree_map kvss' = (tree_map kvss)(key := None)"
proof -
  let ?g = "geom P"
  have tl: "two_level ?g t ids kvss ss" and small: "\<forall>kvs \<in> set kvss. length kvs \<le> MAX_KEYS_LEAF ?g"
    using sh by (auto simp: shallow_def)
  from located [OF tl ne, of key]
  obtain xi i yi xs a ys sx sy n where f:
    "ids = xi @ i # yi" "kvss = xs @ a # ys" "ss = sx @ sy"
    "length xi = length xs" "length xs = length sx" "length ys = length sy"
    "findLeaf t key = Inr (Some (n, parents t ids (length xi)))"
    "read_node t i = Inr n" "leaf_node ?g n a" "sorted_wrt (<) (map fst a)"
    "tree_map kvss key = map_of a key" "ascending (before xs sx @ key_items a @ behind ys sy)"
    "\<forall>k \<in> fst ` set (concat xs). k < key" "\<forall>k \<in> fst ` set (concat ys). key < k" .
  have here: "key \<in> fst ` set a \<longleftrightarrow> tree_map kvss key \<noteq> None" using f(11) by (simp add: map_of_eq_None_iff)
  obtain n' where n': "remove_from_leaf n key = Inr (key \<in> fst ` set a, n')"
    "leaf_node ?g n' (filter (\<lambda>(j, _). j \<noteq> key) a)" "same_place n n'" "key \<notin> fst ` set a \<Longrightarrow> n' = n"
    using remove_leaf [OF f(9,10), of key] by blast
  show ?thesis
  proof (cases "key \<in> fst ` set a")
    case False
    then have "tree_remove P t key = Inr (False, t)" using n'(1) f(7) by (simp add: tree_remove_def)
    moreover have "tree_map kvss = (tree_map kvss)(key := None)" using False here by (auto simp: fun_eq_iff)
    ultimately show ?thesis using sh False here by auto
  next
    case True
    let ?a = "filter (\<lambda>(j, _). j \<noteq> key) a"
    have big_a: "MIN_KEYS_LEAF ?g < length a \<or> length kvss = 1 \<and> 1 < length a"
      using big [of a] True f(2) by simp
    have d: "distinct (map fst a)" using f(10) strict_sorted_iff by blast
    have la: "length ?a + 1 = length a" by (rule length_without_key [OF d True])
    have "1 < length a" using big_a min by linarith
    then have ne': "?a \<noteq> []" using la by (cases ?a) simp_all
    have "ascending (before xs sx @ key_items ?a @ behind ys sy)"
    proof (rule ascending_replace [OF f(12)])
      show "sorted_wrt (<) (map fst ?a)" using f(10) by (simp add: sorted_wrt_map sorted_wrt_filter)
    qed auto
    then have asc: "ascending (flat (xs @ ?a # ys) ss)" by (simp add: f(3) flat_at [OF f(5)])
    note sl = save_leaf_two_level [OF tl [unfolded f(1,2)] f(4,8) n'(3,2) asc]
    have tl': "two_level ?g (save t n') ids (xs @ ?a # ys) ss" using sl(1) ne' by (simp add: f(1))
    have "shallow ?g (save t n') ids (xs @ ?a # ys) ss" using tl' small f(2) la by (auto simp: shallow_def)
    moreover have "tree_map (xs @ ?a # ys) = (tree_map kvss)(key := None)"
    proof
      fix j
      have "map_of (concat xs) key = None" "map_of (concat ys) key = None"
        using f(13,14) by (auto simp: map_of_eq_None_iff)
      then show "tree_map (xs @ ?a # ys) j = ((tree_map kvss)(key := None)) j"
        by (auto simp: tree_map_def f(2) map_add_def map_of_filter_key split: option.splits)
    qed
    moreover have "tree_remove P t key = Inr (True, save t n')"
    proof (cases "length ids = 1")
      case one: True
      then have "ids = [i]" using f(1) by (cases xi) auto
      then have "tree_root_id t = i" using tl by (simp add: two_level_def)
      moreover have "node_id n' = i"
        using read_node_facts(2) [OF _ f(8)] tl n'(3) by (auto simp: two_level_def same_place_def)
      ultimately show ?thesis
        using True n'(1) f(7) leaf_node_size [OF n'(2)] ne' by (simp add: tree_remove_def Let_def save_def)
    next
      case False
      then have two: "2 \<le> length ids" using ne by (cases ids) (auto simp: Suc_le_eq)
      have "tree_root_id (save t n') \<noteq> node_id n'"
        using root_not_leaf [OF tl' two] writable(3) [OF _ f(8) n'(3)] tl f(1)
        by (auto simp: two_level_def)
      moreover have "\<not> underflow ?g n'"
        using leaf_tests(2) [OF n'(2)] la big_a False chain_length two_level_lengths(1) [OF tl] by auto
      ultimately show ?thesis using True n'(1) f(7) by (auto simp: tree_remove_def Let_def)
    qed
    ultimately show ?thesis using True here by auto
  qed
qed

section \<open>Range search\<close>

lemma range_leaf_result:
  "range_leaf kvs low high =
    (filter (\<lambda>(k, _). low \<le> k) (takeWhile (\<lambda>(k, _). \<not> high < k) kvs), \<exists>k \<in> fst ` set kvs. (high::'k::linorder) < k)"
  by (induction kvs) (auto simp: case_prod_beta)

lemma takeWhile_sorted_filter:
  assumes "sorted_wrt (<) (map fst kvs)"
  shows "takeWhile (\<lambda>(k, _). \<not> high < k) kvs = filter (\<lambda>(k, _). k \<le> (high::'k::linorder)) kvs"
  using assms
proof (induction kvs)
  case (Cons x kvs)
  show ?case
  proof (cases "high < fst x")
    case True
    then have "\<forall>y \<in> set kvs. \<not> fst y \<le> high" using Cons.prems by fastforce
    then have "filter (\<lambda>(k, _). k \<le> high) kvs = []" by (simp add: filter_empty_conv case_prod_beta)
    moreover have "takeWhile (\<lambda>(k, _). \<not> high < k) (x # kvs) = []" "filter (\<lambda>(k, _). k \<le> high) (x # kvs)
        = filter (\<lambda>(k, _). k \<le> high) kvs" using True by (cases x; simp)+
    ultimately show ?thesis by simp
  next
    case False
    then show ?thesis using Cons by (cases x) simp
  qed
qed simp

lemma filter_inside:
  "filter (\<lambda>(k, _). low \<le> k) (filter (\<lambda>(k, _). k \<le> high) a) = filter (\<lambda>(k, _). low \<le> k \<and> k \<le> high) a"
  by (induction a) auto

definition no_page :: exn where
  "no_page = Runtime_Error (''Failed to read complete page '' @ show_int (2 ^ 32 - 1))"

lemma read_minus_one: "read_node t (-1) = Inl no_page"
  by (simp add: read_node_def no_page_def del: append.simps)

text \<open>From a leaf of the chain on, the loop collects until a key above \<open>high\<close>, or fails.\<close>

lemma range_chain:
  assumes "chain g t (i # is) (a # as) (-1)" "read_node t i = Inr n"
    and "sorted_wrt (<) (map fst (concat (a # as)))" "length as < fuel"
  shows "range_loop fuel t n low high =
    (if \<exists>k \<in> fst ` set (concat (a # as)). high < k
     then Inr (filter (\<lambda>(k, _). low \<le> k \<and> k \<le> high) (concat (a # as))) else Inl no_page)"
  using assms
proof (induction as arbitrary: i "is" a n fuel)
  case Nil
  then obtain f where f: "fuel = Suc f" by (cases fuel) auto
  have n: "leaf_node g n a" "next_leaf n = -1" "is = []"
    using Nil.prems(1,2) by (cases "is"; auto simp: leaf_at_def)+
  have lk: "leaf_kvs n = a" "is_leaf n" using n(1) by (simp_all add: leaf_node_def)
  have "sorted_wrt (<) (map fst a)" using Nil.prems(3) by simp
  then show ?case
    by (simp add: f range_leaf_result lk takeWhile_sorted_filter get_next_id_def n(2) read_minus_one filter_inside del: filter_filter)
next
  case (Cons b as)
  then obtain f where f: "fuel = Suc f" by (cases fuel) auto
  obtain j js where is_j: "is = j # js" using Cons.prems(1) by (cases "is") auto
  have n: "leaf_node g n a" "next_leaf n = j"
    using Cons.prems(1,2) by (auto simp: leaf_at_def is_j)
  have lk: "leaf_kvs n = a" "is_leaf n" using n(1) by (simp_all add: leaf_node_def)
  have srt: "sorted_wrt (<) (map fst a)" "sorted_wrt (<) (map fst (concat (b # as)))"
    and across: "\<forall>x \<in> fst ` set a. \<forall>y \<in> fst ` set (concat (b # as)). x < y"
    using Cons.prems(3) unfolding concat.simps(2) [of a] map_append sorted_wrt_append set_map by blast+
  have c: "chain g t (j # js) (b # as) (-1)" using Cons.prems(1) by (simp add: is_j)
  obtain m where m: "read_node t j = Inr m" using chain_member [OF c, of j] by auto
  note IH = Cons.IH [OF c m srt(2), of f]
  show ?case
  proof (cases "\<exists>k \<in> fst ` set a. high < k")
    case True
    then obtain k where k: "k \<in> fst ` set a" "high < k" by blast
    have "\<not> fst y \<le> high" if "y \<in> set (concat (b # as))" for y
    proof -
      have "fst y \<in> fst ` set (concat (b # as))" using that by (rule imageI)
      then have "k < fst y" using across k(1) by blast
      then show ?thesis using k(2) by simp
    qed
    then have "filter (\<lambda>(k, _). low \<le> k \<and> k \<le> high) (concat (b # as)) = []"
      unfolding filter_empty_conv case_prod_beta by blast
    then have "filter (\<lambda>(k, _). low \<le> k \<and> k \<le> high) (concat (a # b # as)) = filter (\<lambda>(k, _). low \<le> k \<and> k \<le> high) a"
      by simp
    moreover have "\<exists>k \<in> fst ` set (concat (a # b # as)). high < k" using True by auto
    ultimately show ?thesis using True
      by (simp add: f range_leaf_result lk takeWhile_sorted_filter [OF srt(1)] filter_inside del: filter_filter)
  next
    case False
    have "range_loop fuel t n low high =
        rmap ((@) (filter (\<lambda>(k, _). low \<le> k \<and> k \<le> high) a)) (range_loop f t m low high)"
      using False by (simp add: f range_leaf_result lk takeWhile_sorted_filter [OF srt(1)] filter_inside get_next_id_def n(2) m del: filter_filter)
    moreover have "(\<exists>k \<in> fst ` set (concat (a # b # as)). high < k) \<longleftrightarrow> (\<exists>k \<in> fst ` set (concat (b # as)). high < k)"
      using False by auto
    ultimately show ?thesis using IH Cons.prems(4) f by simp
  qed
qed

lemma pages_enough:
  assumes "two_level g t ids kvss ss"
  shows "length ids \<le> length (node_pages t)"
proof -
  have v: "valid g t" and c: "chain g t ids kvss (-1)" and d: "distinct ids"
    using assms by (auto simp: two_level_def)
  have "set ids \<subseteq> {1 .. int (length (node_pages t))}"
    using chain_member [OF c] read_node_facts(1) [OF v] by (force simp: on_page_def)
  then have "card (set ids) \<le> card {1 .. int (length (node_pages t))}" by (rule card_mono [rotated]) simp
  then show ?thesis using distinct_card [OF d] by simp
qed

lemma range_two_level:
  fixes low high :: "'k::linorder"
  assumes tl: "two_level g t ids kvss ss" and ne: "ids \<noteq> []" and lh: "low \<le> high"
  shows "rangeSearch t low high =
    (if \<exists>k \<in> fst ` set (concat kvss). high < k
     then Inr (filter (\<lambda>(k, _). low \<le> k \<and> k \<le> high) (concat kvss)) else Inl no_page)"
proof -
  from located [OF tl ne, of low]
  obtain xi i yi xs a ys sx sy n where f:
    "ids = xi @ i # yi" "kvss = xs @ a # ys" "ss = sx @ sy"
    "length xi = length xs" "length xs = length sx" "length ys = length sy"
    "findLeaf t low = Inr (Some (n, parents t ids (length xi)))"
    "read_node t i = Inr n" "leaf_node g n a" "sorted_wrt (<) (map fst a)"
    "tree_map kvss low = map_of a low" "ascending (before xs sx @ key_items a @ behind ys sy)"
    "\<forall>k \<in> fst ` set (concat xs). k < low" "\<forall>k \<in> fst ` set (concat ys). low < k" .
  have asc: "ascending (flat kvss ss)" and c: "chain g t ids kvss (-1)" using tl by (auto simp: two_level_def)
  have len: "length kvss = length ss + 1" using two_level_lengths [OF tl] ne by simp
  have "sorted_wrt (<) (map fst (concat xs) @ map fst (concat (a # ys)))"
    using flat_sorted_keys [OF asc len] by (simp add: f(2))
  then have srt: "sorted_wrt (<) (map fst (concat (a # ys)))" by (simp only: sorted_wrt_append)
  have c': "chain g t (i # yi) (a # ys) (-1)" using c unfolding f(1,2) chain_append [OF f(4)] by blast
  have fu: "length ys < Suc (length (node_pages t))"
    using pages_enough [OF tl] chain_length [OF c'] f(1) by simp
  have "filter (\<lambda>(k, _). low \<le> k \<and> k \<le> high) (concat xs) = []"
    using f(13) by (fastforce simp: filter_empty_conv)
  then have pre: "filter (\<lambda>(k, _). low \<le> k \<and> k \<le> high) (concat kvss) =
      filter (\<lambda>(k, _). low \<le> k \<and> k \<le> high) (concat (a # ys))" by (simp add: f(2))
  have "\<not> high < k" if "k \<in> fst ` set (concat xs)" for k using f(13) that lh by fastforce
  then have above: "(\<exists>k \<in> fst ` set (concat kvss). high < k) \<longleftrightarrow> (\<exists>k \<in> fst ` set (concat (a # ys)). high < k)"
    unfolding f(2) concat_append set_append image_Un by blast
  show ?thesis
    unfolding above pre using range_chain [OF c' f(8) srt fu] f(7) by (simp add: rangeSearch_def)
qed

end
