(* ===== verification/Tree_Limits.thy ===== *)
theory Tree_Limits
  imports Tree_Range
begin

text \<open>
  Where the tree's code does not do what it means to: moving children to an empty right node, the
  underflow of one of two leaves, the merge of three internal nodes. Each lemma computes what the
  code does there.
\<close>

section \<open>Moving children to a new right node\<close>

text \<open>
  Into an internal node without keys the code moves its one child slot, which holds whatever was in
  the buffer, along with the children that it sends.
\<close>

lemma send_right_to_new:
  assumes l: "int_node g l ss cs" and r: "phys g r" "\<not> is_leaf r" "keys_size r = 0"
    and c: "1 \<le> c" "c \<le> length ss" "c + 1 \<le> MAX_CHILDREN g"
  shows "\<exists>l' r'. send_to_right_internal g l r c mid = Inr (ikeys l ! (length ss - (c - 1)), l', r') \<and>
    int_node g l' (take (length ss - (c - 1)) ss) (take (length cs - (c - 1)) cs) \<and>
    int_node g r' (drop (length ss - (c - 1)) ss @ [mid]) (drop (length cs - c) cs @ [ichildren r ! 0]) \<and>
    same_place l l' \<and> same_place r r'"
proof -
  let ?n = "length ss" and ?k = "c - 1"
  have sz: "keys_size l = ?n" by (rule int_node_size [OF l])
  note tk = int_node_kids [OF l]
  have lens: "length (ikeys l) = PHYS_KEYS_INTERNAL g" "length (ichildren l) = PHYS_KEYS_INTERNAL g + 1"
    "length (ikeys r) = PHYS_KEYS_INTERNAL g" "length (ichildren r) = PHYS_KEYS_INTERNAL g + 1"
    and n: "?n \<le> PHYS_KEYS_INTERNAL g"
    using l r(1) sz by (auto simp: int_node_def phys_def CHILDREN_SIZE_def)
  define ks1 where "ks1 = (copy_range (ikeys r) c (ikeys r) 0 0)[?k := mid]"
  define r' where "r' = r\<lparr>ikeys := copy_range ks1 0 (ikeys l) (?n - ?k) ?k,
    ichildren := copy_range (copy_range (ichildren r) c (ichildren r) 0 1) 0 (ichildren l) (?n + 1 - c) c,
    keys_size := c\<rparr>"
  define l' where "l' = l\<lparr>keys_size := ?n - ?k\<rparr>"
  have L: "int_node g l' (take (?n - ?k) ss) (take (length cs - ?k) cs)"
  proof (rule int_nodeI)
    show "phys g l'" "\<not> is_leaf l'" using l n by (simp_all add: l'_def int_node_def phys_def)
    show "take (keys_size l') (ikeys l') = take (?n - ?k) ss"
      by (simp add: l'_def) (metis diff_le_self min_def tk(1) take_take)
    have "?n - ?k + 1 = length cs - ?k" using c tk(3) by simp
    then show "take (keys_size l' + 1) (ichildren l') = take (length cs - ?k) cs"
      using tk(2,3) by (simp add: l'_def) (metis diff_le_self min_def take_take)
  qed
  have lk1: "length ks1 = PHYS_KEYS_INTERNAL g" using c n lens by (simp add: ks1_def)
  have "take (0 + ?k) (copy_range ks1 0 (ikeys l) (?n - ?k) ?k) = take 0 ks1 @ take ?k (drop (?n - ?k) (ikeys l))"
    using c n lens by (intro take_copy_range_through) simp_all
  then have tkk: "take ?k (copy_range ks1 0 (ikeys l) (?n - ?k) ?k) = drop (?n - ?k) ss"
    using c tk(1) by (metis (no_types, lifting) append_Nil diff_diff_cancel diff_le_self drop_take le_trans plus_nat.add_0 take0)
  have "copy_range ks1 0 (ikeys l) (?n - ?k) ?k ! ?k = ks1 ! ?k"
    using c n lens lk1 by (subst nth_copy_range) simp_all
  then have at: "copy_range ks1 0 (ikeys l) (?n - ?k) ?k ! ?k = mid"
    using c n lens by (simp add: ks1_def)
  have lc: "length (copy_range ks1 0 (ikeys l) (?n - ?k) ?k) = PHYS_KEYS_INTERNAL g"
    using c n lens lk1 by (subst length_copy_range) simp_all
  have kk: "take c (copy_range ks1 0 (ikeys l) (?n - ?k) ?k) = drop (?n - ?k) ss @ [mid]"
  proof -
    have "c = Suc ?k" using c by simp
    moreover have "?k < length (copy_range ks1 0 (ikeys l) (?n - ?k) ?k)" using c n lc by simp
    ultimately show ?thesis using tkk at by (metis take_Suc_conv_app_nth)
  qed
  have one: "take 1 (ichildren r) = [ichildren r ! 0]" using lens by (cases "ichildren r") simp_all
  have fit: "1 + c \<le> length (ichildren r)" "c \<le> ?n + 1" "?n + 1 \<le> length (ichildren l)"
    using c n lens by (simp_all add: MAX_CHILDREN_def CHILDREN_SIZE_def)
  note ch = array_prepend [OF fit one tk(2)]
  have R: "int_node g r' (drop (?n - ?k) ss @ [mid]) (drop (length cs - c) cs @ [ichildren r ! 0])"
  proof (rule int_nodeI)
    show "phys g r'" using r c n lens lc ch(2) by (simp add: r'_def phys_def CHILDREN_SIZE_def)
    show "\<not> is_leaf r'" using r by (simp add: r'_def)
    show "take (keys_size r') (ikeys r') = drop (?n - ?k) ss @ [mid]" using kk by (simp add: r'_def)
    show "take (keys_size r' + 1) (ichildren r') = drop (length cs - c) cs @ [ichildren r ! 0]"
      using ch(1) tk(3) by (simp add: r'_def)
  qed
  have "send_to_right_internal g l r c mid = Inr (ikeys l ! (?n - ?k), l', r')"
    using l r c sz by (simp add: send_to_right_internal_def move_right_internal_def children_size_def
        int_node_def Let_def r'_def l'_def ks1_def)
  then show ?thesis using L R by (auto simp: same_place_def l'_def r'_def)
qed

section \<open>The first split of an internal node\<close>

lemma splitInternal1to2_effect:
  fixes P :: "'k::linorder tree_params"
  assumes v: "valid (geom P) t" and n: "read_node t (node_id n) = Inr n" "int_node (geom P) n ss cs"
    and root: "tree_root_id t = node_id n"
    and full: "length ss = MAX_KEYS_INTERNAL (geom P) + 1" and caps: "3 \<le> MAX_KEYS_INTERNAL (geom P)"
  defines "h \<equiv> length ss div 2"
  shows "\<exists>t' p l r rid. splitInternal1to2 P t n = Inr t' \<and>
    read_node t' (tree_root_id t') = Inr p \<and> int_node (geom P) p [ikeys n ! (h + 1)] [node_id n, rid] \<and>
    read_node t' (node_id n) = Inr l \<and> int_node (geom P) l (take (h + 1) ss) (take (h + 2) cs) \<and>
    read_node t' rid = Inr r \<and>
    int_node (geom P) r (drop (h + 1) ss @ [key0 P])
      (drop (h + 1) cs @ [ichildren (garbage t (allocated t + 1)) ! 0])"
proof -
  let ?g = "geom P"
  define c where "c = length ss - h"
  have phys_caps: "4 \<le> PHYS_KEYS_INTERNAL ?g" "length ss = PHYS_KEYS_INTERNAL ?g"
    using caps full by (simp_all add: MAX_KEYS_INTERNAL_def)
  have c: "1 \<le> c" "c \<le> length ss" "c + 1 \<le> MAX_CHILDREN ?g" "length ss - (c - 1) = h + 1" "h \<noteq> length ss"
    "h < length ss"
    using phys_caps by (auto simp: c_def h_def MAX_CHILDREN_def CHILDREN_SIZE_def)
  have lcs: "length cs = length ss + 1" using int_node_kids(3) [OF n(2)] .
  obtain n0 t1 where nn0: "new_node t False = (n0, t1)" by fastforce
  note f0 = new_node_facts [OF v nn0]
  define n1 where "n1 = n0\<lparr>ichildren := (ichildren n0)[0 := node_id n]\<rparr>"
  have n1: "int_node ?g n1 [] [node_id n]"
  proof (rule int_nodeI)
    show "phys ?g n1" using f0(3,4,5) by (simp add: n1_def phys_def)
    show "take (keys_size n1 + 1) (ichildren n1) = [node_id n]"
      using f0(3,5) by (simp add: n1_def phys_def CHILDREN_SIZE_def take_Suc_conv_app_nth)
  qed (use f0 in \<open>simp_all add: n1_def\<close>)
  have id1: "node_id n1 = node_id n0" "same_place n0 n1" by (simp_all add: n1_def same_place_def)
  let ?t2 = "set_root_id t1 (node_id n0)"
  have v2: "valid ?g ?t2" using f0(1) by (simp add: valid_def set_root_id_def)
  have rd2: "read_node ?t2 j = read_node t1 j" for j by (simp add: read_node_def set_root_id_def)
  have r0: "read_node ?t2 (node_id n0) = Inr n0" using f0(2) rd2 by simp
  note w1 = writable [OF v2 r0 id1(2)]
  have ph1: "phys ?g n1" using n1 by (simp add: int_node_def)
  let ?t3 = "save ?t2 n1"
  note sv3 = save_facts [OF v2 w1(1) ph1]
  obtain n3 t4 where nn3: "new_node ?t3 False = (n3, t4)" by fastforce
  note f3 = new_node_facts [OF sv3(1) nn3]
  have li: "node_id n \<noteq> node_id n0" "read_node t1 (node_id n) = Inr n" using f0(7) [OF n(1)] by auto
  then have l3: "read_node ?t3 (node_id n) = Inr n" using sv3(4) [of "node_id n" n] rd2 id1 by simp
  have p3: "read_node ?t3 (node_id n0) = Inr n1" using sv3(3) w1 by simp
  have l4: "read_node t4 (node_id n) = Inr n" "node_id n \<noteq> node_id n3"
    and p4: "read_node t4 (node_id n0) = Inr n1" "node_id n0 \<noteq> node_id n3"
    using f3(7) [OF l3] f3(7) [OF p3] by auto
  obtain n2 where n2: "insert_in_internal ?g n1 (key0 P) (node_id n3) = Inr n2" "same_place n1 n2"
    "int_node ?g n2 [key0 P] [node_id n, node_id n3]"
    using insert_internal [OF n1, of "key0 P" "node_id n3"] phys_caps by (auto simp: lower_bound_def)
  note w4 = writable [OF f3(1) p4(1) n2(2)]
  have ph2: "phys ?g n2" using n2(3) by (simp add: int_node_def)
  let ?t5 = "save t4 n2"
  note sv5 = save_facts [OF f3(1) w4(1) ph2]
  have l5: "read_node ?t5 (node_id n) = Inr n" and n5: "read_node ?t5 (node_id n3) = Inr n3"
    and p5: "read_node ?t5 (node_id n0) = Inr n2"
    using sv5(3) [OF w4(2)] sv5(4) [of "node_id n" n] sv5(4) [of "node_id n3" n3] l4 f3(2) p4(2) li(1) w4(3) by auto
  have garb: "ichildren n3 ! 0 = ichildren (garbage t (allocated t + 1)) ! 0"
  proof -
    have "allocated ?t3 = allocated t + 1" "garbage ?t3 = garbage t"
      using nn0 by (auto simp: new_node_def Let_def save_def set_root_id_def split: option.splits)
    moreover have "ichildren n3 = ichildren (garbage ?t3 (allocated ?t3))"
      using nn3 by (auto simp: new_node_def Let_def split: option.splits)
    ultimately show ?thesis by simp
  qed
  obtain l' r' where S: "send_to_right_internal ?g n n3 c (key0 P) = Inr (ikeys n ! (h + 1), l', r')"
    "int_node ?g l' (take (h + 1) ss) (take (length cs - (c - 1)) cs)"
    "int_node ?g r' (drop (h + 1) ss @ [key0 P]) (drop (length cs - c) cs @ [ichildren n3 ! 0])"
    "same_place n l'" "same_place n3 r'"
    using send_right_to_new [OF n(2) f3(3) _ f3(5) c(1-3), of "key0 P"] f3(4) c(4) by auto
  have pos: "length cs - (c - 1) = h + 2" "length cs - c = h + 1" using c lcs by (auto simp: c_def)
  obtain p' where p': "set_key n2 (ikeys n ! (h + 1)) 0 = Inr p'" "same_place n2 p'"
    "int_node ?g p' [ikeys n ! (h + 1)] [node_id n, node_id n3]"
    using set_key_internal [OF n2(3), of 0 "ikeys n ! (h + 1)"] by auto
  have mid: "get_key n2 0 = Inr (key0 P)"
  proof -
    have "take 1 (ikeys n2) = [key0 P]" "keys_size n2 = 1"
      using int_node_kids(1) [OF n2(3)] int_node_size [OF n2(3)] by simp_all
    then have "ikeys n2 ! 0 = key0 P" by (metis nth_Cons_0 nth_take zero_less_one)
    then show ?thesis using n2(3) \<open>keys_size n2 = 1\<close> by (simp add: get_key_def keys_of_def int_node_def)
  qed
  let ?t6 = "saves ?t5 [r', l', p']"
  note wl = writable [OF sv5(1) l5 S(4)] and wr = writable [OF sv5(1) n5 S(5)] and wp = writable [OF sv5(1) p5 p'(2)]
  have dist: "distinct (map node_id [r', l', p'])" using wl wr wp l4 p4 li by auto
  have ok: "\<forall>m \<in> set [r', l', p']. on_page ?t5 (node_id m) \<and> phys ?g m \<and> \<not> deleted m"
    using wl wr wp S(2,3) p'(3) by (auto simp: int_node_def)
  note sv6 = saves_facts [OF sv5(1) dist ok]
  have rt: "tree_root_id ?t6 = node_id n0" using sv6(4) sv5(6) f3(8) sv3(6) by (simp add: set_root_id_def)
  have rd: "read_node ?t6 (node_id n) = Inr l'" "read_node ?t6 (node_id n3) = Inr r'" "read_node ?t6 (node_id n0) = Inr p'"
    using sv6(2) wl(3) wr(3) wp(3) by auto
  have "redistributeInternal2to2 P ?t5 n n3 n2 0 = Inr (?t6, l', r', p')"
    using S(1) p'(1) mid c(5,6) f3(5) int_node_size [OF n(2)]
    by (simp add: redistributeInternal2to2_def Let_def h_def [symmetric] c_def [symmetric])
  then have R: "splitInternal1to2 P t n = Inr ?t6"
    using n2(1) f0(5) nn0 nn3 root
    by (simp add: splitInternal1to2_def Let_def push_back_to_internal_def flip: n1_def)
  have "read_node ?t6 (tree_root_id ?t6) = Inr p'" unfolding rt by (rule rd(3))
  then show ?thesis using R rd(1,2) S(2,3) p'(3) unfolding pos garb by blast
qed

section \<open>Merging internal nodes\<close>

text \<open>The leaf-only accessors are called on the internal nodes being merged.\<close>

lemma move_left_internal_kind: "move_left_internal n c = Inr (k, n') \<Longrightarrow> is_leaf n' = is_leaf n"
  by (auto simp: move_left_internal_def split: if_splits)

lemma take_from_right_internal_kind:
  assumes "take_from_right_internal g l r c mid = Inr (k, l', r')"
  shows "\<not> is_leaf l'" "\<not> is_leaf r'"
  using assms
  by (auto simp: take_from_right_internal_def Let_def result_iff dest!: move_left_internal_kind split: if_splits)

lemma mergeInternal3to2_fails: "\<not> is_ok (mergeInternal3to2 P t left middle right st idx)"
proof
  assume "is_ok (mergeInternal3to2 P t left middle right st idx)"
  then obtain g m1 c mid k m2 r' nx where "take_from_right_internal g m1 right c mid = Inr (k, m2, r')"
    "get_next_id r' = Inr nx"
    unfolding is_ok_iff by (subst (asm) mergeInternal3to2.simps) (auto simp: result_iff Let_def)
  then show False using take_from_right_internal_kind(2) by (fastforce simp: get_next_id_def)
qed

section \<open>One of two leaves underflows\<close>

lemma two_leaves_abort:
  fixes P :: "'k::linorder tree_params"
  assumes sh: "shallow (geom P) t [i, j] [a, b] [s]"
    and key: "key \<in> fst ` set b" and sizes: "length a = MAX_KEYS_LEAF (geom P) div 2" "length b = MIN_KEYS_LEAF (geom P)"
    and g: "MAX_KEYS_LEAF (geom P) < MAX_KEYS_LEAF (geom P) div 2 + MIN_KEYS_LEAF (geom P) - 1"
  shows "tree_remove P t key = Inl (Assert_Failed ''left->size() + leaf.size() <= MAX_KEYS_LEAF'')"
proof -
  let ?g = "geom P"
  have tl: "two_level ?g t [i, j] [a, b] [s]" using sh by (simp add: shallow_def)
  have v: "valid ?g t" using tl by (simp add: two_level_def)
  have ne: "[i, j] \<noteq> []" by simp
  from located [OF tl ne, of key]
  obtain xi i' yi xs a' ys sx sy n where f:
    "[i, j] = xi @ i' # yi" "[a, b] = xs @ a' # ys" "[s] = sx @ sy"
    "length xi = length xs" "length xs = length sx" "length ys = length sy"
    "findLeaf t key = Inr (Some (n, parents t [i, j] (length xi)))"
    "read_node t i' = Inr n" "leaf_node ?g n a'" "sorted_wrt (<) (map fst a')"
    "tree_map [a, b] key = map_of a' key" "ascending (before xs sx @ key_items a' @ behind ys sy)"
    "\<forall>k \<in> fst ` set (concat xs). k < key" "\<forall>k \<in> fst ` set (concat ys). key < k" .
  have "ys = []"
  proof (rule ccontr)
    assume "ys \<noteq> []"
    moreover have "length xs + length ys = 1" using arg_cong [OF f(2), of length] by simp
    ultimately have "xs = []" by (cases ys) simp_all
    then have "b \<in> set ys" using f(2) by auto
    then show False using f(14) key by fastforce
  qed
  then have pos: "xs = [a]" "a' = b" using f(2) by (auto simp: Cons_eq_append_conv)
  then have pos': "xi = [i]" "i' = j" "yi = []" using f(1,4) by (auto simp: Cons_eq_append_conv length_Suc_conv)
  obtain n' where n': "remove_from_leaf n key = Inr (True, n')"
    "leaf_node ?g n' (filter (\<lambda>(k, _). k \<noteq> key) b)" "same_place n n'"
    using remove_leaf [OF f(9,10), of key] key pos by auto
  have "distinct (map fst b)" using f(10) pos strict_sorted_iff by blast
  then have lb: "length (filter (\<lambda>(k, _). k \<noteq> key) b) + 1 = length b" by (rule length_without_key [OF _ key])
  let ?t = "save t n'"
  have ph: "phys ?g n'" using n'(2) by (simp add: leaf_node_def)
  have two: "2 \<le> length [i, j]" by simp
  obtain p where p: "read_node t (tree_root_id t) = Inr p" "int_node ?g p [s] [i, j]"
    using root_node [OF tl two] by blast
  have ij: "i \<noteq> j" "tree_root_id t \<noteq> i" "tree_root_id t \<noteq> j"
    using tl root_not_leaf [OF tl two] by (auto simp: two_level_def)
  note w = writable [OF v f(8) n'(3)]
  note sv = save_facts [OF v w(1) ph]
  obtain l where l: "read_node t i = Inr l" "leaf_node ?g l a"
    using leaf_page [of ?g t "[]" i "[j]" "[]" a "[b]" "[s]"] tl by auto
  have p': "read_node ?t (tree_root_id t) = Inr p" and l': "read_node ?t i = Inr l"
    using sv(4) [of "tree_root_id t" p] sv(4) [of i l] p(1) l(1) ij w(3) pos' by auto
  have cs: "children_size p = 2" using int_node_size [OF p(2)] by (simp add: children_size_def)
  have ls: "left_sibling ?t p 1 = Inr (Some l)"
    using get_child [OF p(2), of 0] l' by (simp add: left_sibling_def)
  have rs: "right_sibling ?t p 1 = Inr None" using cs by (intro sibling_none(2)) simp
  have uf: "underflow ?g n'" using leaf_tests(2) [OF n'(2)] lb sizes(2) by simp
  have "\<not> can_lend ?g l True" using leaf_tests(4) [OF l(2), of True] sizes(1) by simp
  moreover have "\<not> keys_size l + keys_size n' \<le> MAX_KEYS_LEAF ?g"
    using leaf_node_size [OF l(2)] leaf_node_size [OF n'(2)] sizes g lb by linarith
  moreover have "node_id n' \<noteq> tree_root_id ?t" using sv(6) w(3) ij pos' by simp
  ultimately have "handleLeafUnderflow P ?t n' [(tree_root_id t, 1)] =
      Inl (Assert_Failed ''left->size() + leaf.size() <= MAX_KEYS_LEAF'')"
    using p' cs ls rs by (simp add: handleLeafUnderflow_def top_of_def rassert_def)
  then show ?thesis
    using f(7) n'(1) uf w(3) ij pos' sv(6)
    by (simp add: tree_remove_def Let_def parents_def)
qed

end
