(* ===== verification/Key_Index.thy ===== *)
theory Key_Index
  imports Tree_Range
begin

text \<open>
  What a table relies on in an index: \<open>key_index\<close> is the contract of the operations as operations on
  a map, with the number of leaves as the measure of its load, and the B*+ tree of two levels
  provides it for every geometry.
\<close>

section \<open>The tree as a map\<close>

text \<open>
  \<open>stores g t m n\<close>: the tree \<open>t\<close> is empty, a leaf, or a root over leaves; it holds the map \<open>m\<close> in
  \<open>n\<close> leaves. This is the representation relation of the index's contract.
\<close>

definition stores :: "geometry \<Rightarrow> ('k::linorder, 'v) tree \<Rightarrow> ('k \<rightharpoonup> 'v) \<Rightarrow> nat \<Rightarrow> bool" where
  "stores g t m n \<longleftrightarrow> (\<exists>ids kvss ss. shallow g t ids kvss ss \<and> tree_map kvss = m \<and> length ids = n)"

lemma storesI: "shallow g t ids kvss ss \<Longrightarrow> stores g t (tree_map kvss) (length ids)"
  by (auto simp: stores_def)

lemma new_tree_shallow:
  fixes g :: geometry and gar :: "nat \<Rightarrow> ('k::linorder, 'v) node"
  assumes "valid g (new_tree gar)"
  shows "shallow g (new_tree gar) [] [] []"
  using assms by (simp add: shallow_def two_level_def) (simp add: new_tree_def)

lemma new_tree_stores: "valid g (new_tree gar) \<Longrightarrow> stores g (new_tree gar) Map.empty 0"
  using storesI [OF new_tree_shallow] by (simp add: tree_map_def)

lemma stores_search: "stores g t m n \<Longrightarrow> tree_search t key = Inr (case m key of None \<Rightarrow> [] | Some v \<Rightarrow> [v])"
  using search_two_level by (fastforce simp: stores_def shallow_def)

lemma tree_map_card:
  assumes "shallow g t ids kvss ss" "ids \<noteq> []"
  shows "card (dom (tree_map kvss)) = length (concat kvss)"
proof -
  have tl: "two_level g t ids kvss ss" using assms(1) by (simp add: shallow_def)
  then have "distinct (map fst (concat kvss))"
    using ascending_distinct [of kvss ss] two_level_lengths [OF tl] assms(2) by (simp add: two_level_def)
  then show ?thesis
    using distinct_card [of "map fst (concat kvss)"] by (simp add: tree_map_def dom_map_of_conv_image_fst)
qed

text \<open>A tree of one leaf stays one while the keys fit.\<close>

lemma stores_insert:
  fixes P :: "'k::linorder tree_params"
  assumes "stores (geom P) t m n" "m key = None" "1 \<le> MAX_KEYS_LEAF (geom P)" "1 \<le> MAX_KEYS_INTERNAL (geom P)"
    and "n \<le> MAX_KEYS_INTERNAL (geom P)"
  shows "\<exists>t' n'. tree_insert P t key val = Inr t' \<and> stores (geom P) t' (m(key \<mapsto> val)) n' \<and> n' \<le> max 1 n + 1 \<and>
    (card (dom m) < MAX_KEYS_LEAF (geom P) \<longrightarrow> n' \<le> max 1 n)"
proof -
  obtain ids kvss ss where r: "shallow (geom P) t ids kvss ss" "tree_map kvss = m" "length ids = n"
    using assms(1) by (auto simp: stores_def)
  have c: "card (dom m) = length (concat kvss)"
  proof (cases "ids = []")
    case True
    then have "kvss = []" using r(1) two_level_lengths(1) [of "geom P" t ids kvss ss] by (simp add: shallow_def)
    then show ?thesis using r(2) by (auto simp: tree_map_def dom_def)
  next
    case False
    then show ?thesis using tree_map_card [OF r(1)] r(2) by simp
  qed
  have "tree_map kvss key = None" "length ids \<le> MAX_KEYS_INTERNAL (geom P)" using assms(2,5) r(2,3) by simp_all
  from insert_shallow [OF r(1) this(1) assms(3,4) this(2), of val] obtain t' ids' kvss' ss' where
    "tree_insert P t key val = Inr t'" "shallow (geom P) t' ids' kvss' ss'" "tree_map kvss' = m(key \<mapsto> val)"
    "length ids' \<le> max 1 n + 1" "length (concat kvss) < MAX_KEYS_LEAF (geom P) \<Longrightarrow> length ids' \<le> max 1 n"
    using r(2,3) by auto
  then show ?thesis using storesI [of "geom P" t' ids' kvss' ss'] c by auto
qed

lemma stores_update:
  assumes "stores g t m n" "n \<noteq> 0"
  shows "\<exists>t'. tree_update t key val = Inr (m key \<noteq> None, t') \<and>
    stores g t' (if m key = None then m else m(key \<mapsto> val)) n"
  using assms update_shallow unfolding stores_def by (metis length_0_conv)

lemma null_root_shallow:
  assumes "valid g t"
  shows "shallow g (set_null_root t) [] [] []"
  using assms by (simp add: shallow_def two_level_def valid_def set_null_root_def set_root_and_first_leaf_id_def)

lemma tree_map_single: "tree_map [kvs] = map_of kvs"
  by (simp add: tree_map_def)

text \<open>A tree of one leaf gives up its last key by dropping the leaf.\<close>

lemma remove_last_key:
  fixes P :: "'k::linorder tree_params"
  assumes sh: "shallow (geom P) t [i] [[(key, v)]] []"
  shows "\<exists>t'. tree_remove P t key = Inr (True, t') \<and> shallow (geom P) t' [] [] []"
proof -
  have tl: "two_level (geom P) t [i] [[(key, v)]] []" and val: "valid (geom P) t"
    using sh by (auto simp: shallow_def two_level_def)
  obtain n where n: "findLeaf t key = Inr (Some (n, []))" "read_node t i = Inr n" "leaf_node (geom P) n [(key, v)]"
  proof (rule located [OF tl, of key])
    fix xi j yi xs a ys sx sy m
    assume f: "[i] = xi @ j # yi" "[[(key, v)]] = xs @ a # ys"
      "findLeaf t key = Inr (Some (m, parents t [i] (length xi)))" "read_node t j = Inr m" "leaf_node (geom P) m a"
    have "j = i" "a = [(key, v)]" using f(1,2) by (auto simp: Cons_eq_append_conv)
    then show thesis using that f(3-5) by (simp add: parents_def)
  qed simp
  obtain n' where n': "remove_from_leaf n key = Inr (True, n')" "leaf_node (geom P) n' []" "same_place n n'"
    using remove_leaf [OF n(3), of key] by auto
  have root: "node_id n' = tree_root_id t"
    using read_node_facts(2) [OF val n(2)] tl n'(3) by (auto simp: two_level_def same_place_def)
  have "keys_size n' = 0" using leaf_node_size [OF n'(2)] by simp
  then have r: "tree_remove P t key = Inr (True, set_null_root (mark_deleted (save t n') n'))"
    using n(1) n'(1) root by (simp add: tree_remove_def Let_def save_def)
  have "phys (geom P) n'" "phys (geom P) (n'\<lparr>deleted := True\<rparr>)" using n'(2) by (auto simp: leaf_node_def phys_def)
  moreover have "on_page t (node_id n')" by (rule writable(1) [OF val n(2) n'(3)])
  ultimately have "valid (geom P) (mark_deleted (save t n') n')"
    unfolding mark_deleted_def using save_facts(1,2) [of "geom P" t n'] val by (intro save_facts(1)) simp_all
  then show ?thesis using r null_root_shallow by blast
qed

lemma stores_remove:
  fixes P :: "'k::linorder tree_params"
  assumes "stores (geom P) t m n" "n \<le> 1" "1 \<le> MIN_KEYS_LEAF (geom P)"
  shows "\<exists>t' n'. tree_remove P t key = Inr (m key \<noteq> None, t') \<and> stores (geom P) t' (m(key := None)) n' \<and> n' \<le> 1"
proof -
  obtain ids kvss ss where r: "shallow (geom P) t ids kvss ss" "tree_map kvss = m" "length ids = n"
    using assms(1) by (auto simp: stores_def)
  have tl: "two_level (geom P) t ids kvss ss" using r(1) by (simp add: shallow_def)
  consider "ids = []" | i kvs where "ids = [i]" "kvss = [kvs]" "ss = []"
    using two_level_lengths [OF tl] r(3) assms(2) by (cases ids; cases kvss) auto
  then show ?thesis
  proof cases
    case 1
    then have "m = Map.empty" "findLeaf t key = Inr None"
      using r(2) two_level_lengths(1) [OF tl] findLeaf_empty [of "geom P" t kvss ss] tl by (auto simp: tree_map_def)
    then show ?thesis using assms(1,2) by (auto simp: tree_remove_def)
  next
    case 2
    show ?thesis
    proof (cases "\<exists>v. kvs = [(key, v)]")
      case True
      then obtain t' where "tree_remove P t key = Inr (True, t')" "shallow (geom P) t' [] [] []"
        using remove_last_key r(1) 2 by metis
      moreover have "m(key := None) = Map.empty" "m key \<noteq> None" using True 2(2) r(2) by (auto simp: tree_map_def)
      ultimately show ?thesis using storesI [of "geom P" t' "[]" "[]" "[]"] by (auto simp: tree_map_def)
    next
      case False
      have big: "MIN_KEYS_LEAF (geom P) < length a \<or> length kvss = 1 \<and> 1 < length a"
        if a: "a \<in> set kvss" "key \<in> fst ` set a" for a
      proof -
        have "a = kvs" using a(1) 2(2) by simp
        then have "1 < length a" using a(2) False by (cases a rule: remdups_adj.cases) auto
        then show ?thesis using 2(2) by simp
      qed
      have "ids \<noteq> []" using 2(1) by simp
      from remove_shallow [of P t ids kvss ss key, OF r(1) this big assms(3)]
      obtain t' kvss' where "tree_remove P t key = Inr (tree_map kvss key \<noteq> None, t')"
        "shallow (geom P) t' ids kvss' ss" "tree_map kvss' = (tree_map kvss)(key := None)" by blast
      then show ?thesis using storesI [of "geom P" t' ids kvss' ss] r(2,3) assms(2) by metis
    qed
  qed
qed

section \<open>The interface\<close>

locale key_index =
  fixes rep :: "'t \<Rightarrow> ('k \<rightharpoonup> 'v) \<Rightarrow> nat \<Rightarrow> bool"
    and capacity :: nat
    and one_leaf :: nat
    and lookup :: "'t \<Rightarrow> 'k \<Rightarrow> 'v list result"
    and ins :: "'t \<Rightarrow> 'k \<Rightarrow> 'v \<Rightarrow> 't result"
    and upd :: "'t \<Rightarrow> 'k \<Rightarrow> 'v \<Rightarrow> (bool \<times> 't) result"
    and del :: "'t \<Rightarrow> 'k \<Rightarrow> (bool \<times> 't) result"
  assumes lookup_rep: "rep t m n \<Longrightarrow> lookup t k = Inr (case m k of None \<Rightarrow> [] | Some v \<Rightarrow> [v])"
    and ins_rep: "rep t m n \<Longrightarrow> m k = None \<Longrightarrow> n \<le> capacity \<Longrightarrow>
      \<exists>t' n'. ins t k v = Inr t' \<and> rep t' (m(k \<mapsto> v)) n' \<and> n' \<le> max 1 n + 1 \<and>
        (card (dom m) < one_leaf \<longrightarrow> n' \<le> max 1 n)"
    and upd_rep: "rep t m n \<Longrightarrow> m k \<noteq> None \<Longrightarrow> \<exists>t'. upd t k v = Inr (True, t') \<and> rep t' (m(k \<mapsto> v)) n"
    and del_rep: "rep t m n \<Longrightarrow> n \<le> 1 \<Longrightarrow>
      \<exists>t' n'. del t k = Inr (m k \<noteq> None, t') \<and> rep t' (m(k := None)) n' \<and> n' \<le> 1"
begin

lemma lookup_present: "rep t m n \<Longrightarrow> m k = Some v \<Longrightarrow> lookup t k = Inr [v]"
  by (simp add: lookup_rep)

lemma lookup_absent: "rep t m n \<Longrightarrow> m k = None \<Longrightarrow> lookup t k = Inr []"
  by (simp add: lookup_rep)

lemma load_each:
  assumes "rep t m n" "distinct (map fst kvs)" "\<And>k. k \<in> fst ` set kvs \<Longrightarrow> m k = None"
    and "max 1 n + length kvs \<le> capacity + 1"
  shows "\<exists>t' n'. rfold (\<lambda>s (k, v). ins s k v) t kvs = Inr t' \<and> rep t' (m ++ map_of (rev kvs)) n'"
  using assms
proof (induction kvs arbitrary: t m n)
  case Nil
  then show ?case by auto
next
  case (Cons kv kvs)
  obtain k v where kv: "kv = (k, v)" by (cases kv)
  have "n \<le> capacity" using Cons.prems(4) by simp
  from ins_rep [OF Cons.prems(1) _ this, of k v]
  obtain t1 n1 where t1: "ins t k v = Inr t1" "rep t1 (m(k \<mapsto> v)) n1" "n1 \<le> max 1 n + 1"
    using Cons.prems(3) kv by auto
  have "\<exists>t' n'. rfold (\<lambda>s (k, v). ins s k v) t1 kvs = Inr t' \<and> rep t' (m(k \<mapsto> v) ++ map_of (rev kvs)) n'"
    using Cons.prems(2-4) t1(3) kv by (intro Cons.IH [OF t1(2)]) (auto simp: image_iff)
  moreover have "map_of (rev kvs) k = None"
    using Cons.prems(2) kv by (simp add: map_of_eq_None_iff)
  ultimately show ?case using t1(1) kv
    by (simp add: map_add_upd_left map_of_eq_None_iff)
qed

lemma load_empty:
  assumes "rep t Map.empty n" "n \<le> 1" "distinct (map fst kvs)" "length kvs \<le> capacity"
  shows "\<exists>t' n'. rfold (\<lambda>s (k, v). ins s k v) t kvs = Inr t' \<and> rep t' (map_of kvs) n'"
proof -
  have "map_of (rev kvs) = map_of kvs"
    using assms(3) by (intro map_of_inject_set [THEN iffD2]) (simp_all add: rev_map [symmetric])
  then show ?thesis using load_each [OF assms(1,3)] assms(2,4) by simp
qed

end

text \<open>A geometry with room for a key; the tree then provides the interface.\<close>

definition index_rep :: "'k::linorder tree_params \<Rightarrow> ('k, 'v) tree \<Rightarrow> ('k \<rightharpoonup> 'v) \<Rightarrow> nat \<Rightarrow> bool" where
  "index_rep P t m n \<longleftrightarrow> stores (geom P) t m n \<and> 1 \<le> MAX_KEYS_LEAF (geom P) \<and> 1 \<le> MAX_KEYS_INTERNAL (geom P) \<and>
     1 \<le> MIN_KEYS_LEAF (geom P)"

lemma stores_nonempty: "stores g t m n \<Longrightarrow> m k \<noteq> None \<Longrightarrow> n \<noteq> 0"
  using two_level_lengths(1) by (force simp: stores_def shallow_def tree_map_def)

interpretation ix: key_index "index_rep P" "MAX_KEYS_INTERNAL (geom P)" "MAX_KEYS_LEAF (geom P)"
    tree_search "tree_insert P" tree_update "tree_remove P"
  for P :: "'k::linorder tree_params"
proof
  fix t :: "('k, 'v) tree" and m n k v
  assume r: "index_rep P t m n"
  show "tree_search t k = Inr (case m k of None \<Rightarrow> [] | Some v \<Rightarrow> [v])"
    using r stores_search by (auto simp: index_rep_def)
  show "\<exists>t'. tree_update t k v = Inr (True, t') \<and> index_rep P t' (m(k \<mapsto> v)) n" if "m k \<noteq> None"
    using r that stores_nonempty [of "geom P" t m n k] stores_update [of "geom P" t m n k v] by (auto simp: index_rep_def)
  show "\<exists>t' n'. tree_insert P t k v = Inr t' \<and> index_rep P t' (m(k \<mapsto> v)) n' \<and> n' \<le> max 1 n + 1 \<and>
      (card (dom m) < MAX_KEYS_LEAF (geom P) \<longrightarrow> n' \<le> max 1 n)"
    if "m k = None" "n \<le> MAX_KEYS_INTERNAL (geom P)"
    using r that stores_insert [of P t m n k v] by (auto simp: index_rep_def)
  show "\<exists>t' n'. tree_remove P t k = Inr (m k \<noteq> None, t') \<and> index_rep P t' (m(k := None)) n' \<and> n' \<le> 1" if "n \<le> 1"
    using r that stores_remove [of P t m n k] by (auto simp: index_rep_def)
qed

end
