(* ===== verification/Tree_Properties.thy ===== *)
theory Tree_Properties
  imports Tree_Limits Key_Index
begin

text \<open>
  The properties of the index tree. They are stated for every geometry with room for one key, and
  applied to the geometry of the storage's indexes: 338 physical entries in a leaf, 507 keys in an
  internal node.
\<close>

section \<open>Example trees\<close>

definition blank_node :: "geometry \<Rightarrow> (nat, nat) node" where
  "blank_node g = \<lparr>node_id = 0, is_leaf = False, keys_size = 0, deleted = False,
     ikeys = replicate (PHYS_KEYS_INTERNAL g) 0, ichildren = replicate (CHILDREN_SIZE g) 0,
     lkeys = replicate (PHYS_SIZE_LEAF g) 0, lvals = replicate (PHYS_SIZE_LEAF g) 0, next_leaf = 0\<rparr>"

definition example_leaf :: "geometry \<Rightarrow> int \<Rightarrow> (nat \<times> nat) list \<Rightarrow> int \<Rightarrow> (nat, nat) node" where
  "example_leaf g i kvs nx = (blank_node g)\<lparr>node_id := i, is_leaf := True, keys_size := length kvs,
     lkeys := map fst kvs @ replicate (PHYS_SIZE_LEAF g - length kvs) 0,
     lvals := map snd kvs @ replicate (PHYS_SIZE_LEAF g - length kvs) 0, next_leaf := nx\<rparr>"

definition example_root :: "geometry \<Rightarrow> int \<Rightarrow> nat list \<Rightarrow> int list \<Rightarrow> (nat, nat) node" where
  "example_root g i ss cs = (blank_node g)\<lparr>node_id := i, keys_size := length ss,
     ikeys := ss @ replicate (PHYS_KEYS_INTERNAL g - length ss) 0,
     ichildren := cs @ replicate (CHILDREN_SIZE g - length cs) 0\<rparr>"

definition example_tree :: "geometry \<Rightarrow> int \<Rightarrow> int \<Rightarrow> (nat, nat) node list \<Rightarrow> (nat, nat) tree" where
  "example_tree g root first ns = \<lparr>tree_root_id = root, tree_first_leaf = first, node_pages = ns,
     allocated = 0, garbage = (\<lambda>_. blank_node g)\<rparr>"

definition index_params :: "nat tree_params" where
  "index_params = \<lparr>geom = index_geometry, key0 = 0\<rparr>"

lemma index_capacities [simp]:
  "geom index_params = index_geometry" "key0 index_params = 0"
  "PHYS_SIZE_LEAF index_geometry = 338" "MAX_KEYS_LEAF index_geometry = 337" "MIN_KEYS_LEAF index_geometry = 225"
  "PHYS_KEYS_INTERNAL index_geometry = 507" "MAX_KEYS_INTERNAL index_geometry = 506"
  "CHILDREN_SIZE index_geometry = 508"
  by (simp_all add: index_params_def capacity_defs index_geometry_def)

lemma example_leaf_node:
  "length kvs \<le> PHYS_SIZE_LEAF g \<Longrightarrow> leaf_node g (example_leaf g i kvs nx) kvs"
  by (intro leaf_nodeI) (simp_all add: example_leaf_def blank_node_def phys_def)

lemma example_root_node:
  "length ss \<le> PHYS_KEYS_INTERNAL g \<Longrightarrow> length cs = length ss + 1 \<Longrightarrow> int_node g (example_root g i ss cs) ss cs"
  by (intro int_nodeI) (simp_all add: example_root_def blank_node_def phys_def CHILDREN_SIZE_def)

lemma example_fields [simp]:
  "node_id (example_leaf g i kvs nx) = i" "deleted (example_leaf g i kvs nx) = False"
  "next_leaf (example_leaf g i kvs nx) = nx" "node_id (example_root g i ss cs) = i"
  "deleted (example_root g i ss cs) = False"
  by (simp_all add: example_leaf_def example_root_def blank_node_def)

lemma example_valid:
  "(\<And>i. i < length ns \<Longrightarrow> node_id (ns ! i) = int i + 1 \<and> phys g (ns ! i)) \<Longrightarrow> valid g (example_tree g root first ns)"
  by (simp add: valid_def example_tree_def blank_node_def)

lemma empty_shallow: "shallow g (example_tree g (-1) (-1) []) [] [] []"
  using example_valid [of "[]" g] by (simp add: shallow_def two_level_def) (simp add: example_tree_def)

lemma one_leaf_shallow:
  assumes "length kvs \<le> MAX_KEYS_LEAF g" "1 \<le> MAX_KEYS_LEAF g" "sorted_wrt (<) (map fst kvs)"
  shows "shallow g (example_tree g 1 1 [example_leaf g 1 kvs (-1)]) [1] [kvs] []"
proof -
  let ?t = "example_tree g 1 1 [example_leaf g 1 kvs (-1)]"
  have n: "leaf_node g (example_leaf g 1 kvs (-1)) kvs"
    using assms(1,2) by (intro example_leaf_node) (simp add: MAX_KEYS_LEAF_def)
  then have v: "valid g ?t" by (intro example_valid) (simp add: leaf_node_def)
  then have "read_node ?t 1 = Inr (example_leaf g 1 kvs (-1))"
    by (simp add: read_node_eq on_page_def) (simp add: example_tree_def)
  then show ?thesis
    using v n assms by (auto simp: shallow_def two_level_def leaf_at_def ascending_key_items example_tree_def)
qed

lemma two_leaves_shallow:
  assumes "length a \<le> MAX_KEYS_LEAF g" "length b \<le> MAX_KEYS_LEAF g" "1 \<le> MAX_KEYS_LEAF g" "1 \<le> MAX_KEYS_INTERNAL g"
    and "sorted_wrt (<) (map fst (a @ b))" "a \<noteq> []" "b \<noteq> []"
  shows "shallow g (example_tree g 3 1 [example_leaf g 1 a 2, example_leaf g 2 b (-1),
    example_root g 3 [fst (hd b)] [1, 2]]) [1, 2] [a, b] [fst (hd b)]"
proof -
  let ?r = "example_root g 3 [fst (hd b)] [1, 2]"
  let ?t = "example_tree g 3 1 [example_leaf g 1 a 2, example_leaf g 2 b (-1), ?r]"
  have n: "leaf_node g (example_leaf g 1 a 2) a" "leaf_node g (example_leaf g 2 b (-1)) b"
    using assms(1-3) by (simp_all add: example_leaf_node MAX_KEYS_LEAF_def)
  have r: "int_node g ?r [fst (hd b)] [1, 2]"
    using assms(4) by (intro example_root_node) (simp_all add: MAX_KEYS_INTERNAL_def)
  have v: "valid g ?t"
    using n r by (intro example_valid) (auto simp: leaf_node_def int_node_def less_Suc_eq)
  have rd: "read_node ?t 1 = Inr (example_leaf g 1 a 2)" "read_node ?t 2 = Inr (example_leaf g 2 b (-1))"
    "read_node ?t 3 = Inr ?r"
    using v by (simp_all add: read_node_eq on_page_def) (simp_all add: example_tree_def)
  have "ascending ([] @ key_items (a @ b) @ [])" using assms(5) ascending_key_items [of "a @ b"] by (simp del: key_items_simps map_append)
  from ascending_split [OF this assms(6,7) refl]
  have "ascending (flat [a, b] [fst (hd b)])" by simp
  moreover have "tree_root_id ?t = 3" "tree_first_leaf ?t = 1" by (simp_all add: example_tree_def)
  ultimately show ?thesis
    using v n r rd assms by (auto simp: shallow_def two_level_def leaf_at_def)
qed

lemma stores_range:
  fixes low high :: "'k::linorder"
  assumes "stores g t m n" "n \<noteq> 0" "low \<le> high"
  shows "if \<exists>k \<in> dom m. high < k
    then \<exists>xs. rangeSearch t low high = Inr xs \<and> sorted_wrt (<) (map fst xs) \<and> map_of xs = m |` {low..high}
    else rangeSearch t low high = Inl no_page"
proof -
  obtain ids kvss ss where r: "shallow g t ids kvss ss" "tree_map kvss = m" "length ids = n"
    using assms(1) by (auto simp: stores_def)
  have tl: "two_level g t ids kvss ss" using r(1) by (simp add: shallow_def)
  have ne: "ids \<noteq> []" using r(3) assms(2) by auto
  have dom: "dom m = fst ` set (concat kvss)"
    using r(2) dom_map_of_conv_image_fst [of "concat kvss"] by (simp add: tree_map_def)
  have sorted: "sorted_wrt (<) (map fst (concat kvss))"
    using flat_sorted_keys [of kvss ss] two_level_lengths [OF tl] tl ne by (simp add: two_level_def)
  let ?xs = "filter (\<lambda>(k, _). low \<le> k \<and> k \<le> high) (concat kvss)"
  have "sorted_wrt (<) (map fst ?xs)" using sorted by (simp add: sorted_wrt_map sorted_wrt_filter)
  moreover have "map_of ?xs = m |` {low..high}"
    using map_of_filter [of "\<lambda>k. low \<le> k \<and> k \<le> high" "concat kvss"] r(2)
    by (simp add: tree_map_def case_prod_beta' atLeastAtMost_def atLeast_def atMost_def Collect_conj_eq)
  ultimately show ?thesis using range_two_level [OF tl ne assms(3)] unfolding dom by auto
qed

section \<open>Properties\<close>

text \<open>Two leaves of the storage's index, and one of them alone.\<close>

definition small_tree :: "(nat, nat) tree" where
  "small_tree = example_tree index_geometry 3 1 [example_leaf index_geometry 1 [(1, 10), (2, 20)] 2,
     example_leaf index_geometry 2 [(5, 50), (7, 70)] (-1), example_root index_geometry 3 [5] [1, 2]]"

definition small_map :: "nat \<rightharpoonup> nat" where
  "small_map = [1 \<mapsto> 10, 2 \<mapsto> 20, 5 \<mapsto> 50, 7 \<mapsto> 70]"

definition leaf_tree :: "(nat, nat) tree" where
  "leaf_tree = example_tree index_geometry 1 1 [example_leaf index_geometry 1 [(1, 10), (2, 20)] (-1)]"

lemma small_tree_stores: "stores index_geometry small_tree small_map 2"
proof -
  have sh: "shallow index_geometry small_tree [1, 2] [[(1, 10), (2, 20)], [(5, 50), (7, 70)]] [5]"
    using two_leaves_shallow [of "[(1, 10), (2, 20)]" index_geometry "[(5, 50), (7, 70)]"]
    unfolding small_tree_def by simp
  have "tree_map [[(1, 10), (2, 20)], [(5, 50), (7, 70)]] = small_map"
    by (auto simp: tree_map_def small_map_def fun_eq_iff)
  from storesI [OF sh, unfolded this] show ?thesis by (simp add: numeral_2_eq_2)
qed

lemma leaf_tree_shallow: "shallow index_geometry leaf_tree [1] [[(1, 10), (2, 20)]] []"
  using one_leaf_shallow [of "[(1, 10), (2, 20)]" index_geometry] unfolding leaf_tree_def by simp

lemma blank_garbage: "valid index_geometry (new_tree (\<lambda>_. blank_node index_geometry))"
  by (simp add: valid_def new_tree_def blank_node_def)

text \<open>
  C14: inserting a new key into a tree of at most two levels succeeds, overflow and splits included,
  and the tree then represents the updated map: \<open>tree_insert\<close> refines map update, and searching any
  key in the result gives the map's answer.
\<close>

theorem tree_insert_refines_update:
  fixes P :: "'k::linorder tree_params"
  assumes "stores (geom P) t m n" "m key = None" "1 \<le> MAX_KEYS_LEAF (geom P)" "1 \<le> MAX_KEYS_INTERNAL (geom P)"
    and "n \<le> MAX_KEYS_INTERNAL (geom P)"
  shows "\<exists>t' n'. tree_insert P t key val = Inr t' \<and> stores (geom P) t' (m(key \<mapsto> val)) n' \<and> n' \<le> max 1 n + 1 \<and>
    tree_search t' k = Inr (case (m(key \<mapsto> val)) k of None \<Rightarrow> [] | Some v \<Rightarrow> [v])"
  using stores_insert [OF assms, of val] stores_search by blast

theorem tree_insert_refines_update_witness:
  "\<exists>t' n'. tree_insert index_params small_tree 4 40 = Inr t' \<and> stores index_geometry t' (small_map(4 \<mapsto> 40)) n' \<and>
    n' \<le> 3 \<and> tree_search t' 4 = Inr [40]"
  using tree_insert_refines_update [of index_params small_tree small_map 2 4 40 4] small_tree_stores
  by (simp add: small_map_def numeral_3_eq_3)

text \<open>
  An index built by inserting distinct keys one after another into a new tree never fails while
  the keys are at most as many as an internal node holds (506 for the storage's indexes), and every
  search then returns exactly the value inserted with the key, or nothing.
\<close>

theorem index_build_and_search:
  fixes P :: "'k::linorder tree_params"
  assumes "valid (geom P) (new_tree gar)" "distinct (map fst kvs)" "length kvs \<le> MAX_KEYS_INTERNAL (geom P)"
    and "1 \<le> MAX_KEYS_LEAF (geom P)" "1 \<le> MAX_KEYS_INTERNAL (geom P)" "1 \<le> MIN_KEYS_LEAF (geom P)"
  shows "\<exists>t'. rfold (\<lambda>s (k, v). tree_insert P s k v) (new_tree gar) kvs = Inr t' \<and>
    tree_search t' k = Inr (case map_of kvs k of None \<Rightarrow> [] | Some v \<Rightarrow> [v])"
proof -
  have "index_rep P (new_tree gar) Map.empty 0" using new_tree_stores [OF assms(1)] assms(4-6) by (simp add: index_rep_def)
  from ix.load_empty [OF this _ assms(2,3)] obtain t' n' where
    "rfold (\<lambda>s (k, v). tree_insert P s k v) (new_tree gar) kvs = Inr t'" "index_rep P t' (map_of kvs) n'" by auto
  then show ?thesis using ix.lookup_rep by blast
qed

theorem index_build_and_search_witness:
  "\<exists>t'. rfold (\<lambda>s (k, v). tree_insert index_params s k v) (new_tree (\<lambda>_. blank_node index_geometry))
      [(3, 30), (1, 10), (2, 20)] = Inr t' \<and> tree_search t' (1::nat) = Inr [10::nat]"
  using index_build_and_search [of index_params "\<lambda>_. blank_node index_geometry" "[(3, 30), (1, 10), (2, 20)]" 1]
    blank_garbage by simp

text \<open>
  C18: \<open>update\<close> reports whether the key is present, replaces exactly its value if so and changes the
  represented map in no other case.
\<close>

theorem tree_update_refines_map:
  assumes "stores g t m n" "n \<noteq> 0"
  shows "\<exists>t'. tree_update t key val = Inr (m key \<noteq> None, t') \<and>
    stores g t' (if m key = None then m else m(key \<mapsto> val)) n"
  by (rule stores_update [OF assms])

theorem tree_update_refines_map_witness:
  "\<exists>t'. tree_update small_tree 5 55 = Inr (True, t') \<and> stores index_geometry t' (small_map(5 \<mapsto> 55)) 2"
  using tree_update_refines_map [OF small_tree_stores, of 5 55] by (auto simp: small_map_def)

text \<open>
  C32: \<open>remove\<close> reports whether the key was present and deletes exactly it, when the leaf that holds it
  stays above its minimum (or is the root).
\<close>

theorem tree_remove_refines_delete:
  fixes P :: "'k::linorder tree_params"
  assumes "shallow (geom P) t ids kvss ss" "ids \<noteq> []" "1 \<le> MIN_KEYS_LEAF (geom P)"
    and "\<And>kvs. kvs \<in> set kvss \<Longrightarrow> key \<in> fst ` set kvs \<Longrightarrow> MIN_KEYS_LEAF (geom P) < length kvs \<or>
      length kvss = 1 \<and> 1 < length kvs"
  shows "\<exists>t'. tree_remove P t key = Inr (tree_map kvss key \<noteq> None, t') \<and>
    stores (geom P) t' ((tree_map kvss)(key := None)) (length ids)"
  using remove_shallow [OF assms(1,2,4,3)] storesI by metis

theorem tree_remove_refines_delete_witness:
  "\<exists>t'. tree_remove index_params leaf_tree 2 = Inr (True, t') \<and> stores index_geometry t' [1 \<mapsto> 10] 1"
  using tree_remove_refines_delete [of index_params leaf_tree "[1]" "[[(1, 10), (2, 20)]]" "[]" 2] leaf_tree_shallow
  by (simp add: tree_map_def)

text \<open>
  C33: \<open>rangeSearch\<close> returns, in ascending order of the keys, exactly the entries with a key between the
  bounds when the tree holds some key above the upper bound; otherwise it always fails, because the
  loop goes on from the last leaf to the page of number -1 and constructing its node throws.
\<close>

theorem range_search_result:
  fixes low high :: "'k::linorder"
  assumes "stores g t m n" "n \<noteq> 0" "low \<le> high"
  shows "if \<exists>k \<in> dom m. high < k
    then \<exists>xs. rangeSearch t low high = Inr xs \<and> sorted_wrt (<) (map fst xs) \<and> map_of xs = m |` {low..high}
    else rangeSearch t low high = Inl no_page"
  by (rule stores_range [OF assms])

theorem range_search_result_witness:
  "(\<exists>xs. rangeSearch small_tree 2 5 = Inr xs \<and> sorted_wrt (<) (map fst xs) \<and> map_of xs = small_map |` {2..5}) \<and>
   rangeSearch small_tree 2 7 = Inl no_page"
proof -
  have b: "(\<exists>k \<in> dom small_map. 5 < k) = True" "(\<exists>k \<in> dom small_map. 7 < k) = False"
    by (auto simp: small_map_def split: if_splits)
  show ?thesis
    using range_search_result [OF small_tree_stores, of 2 5] range_search_result [OF small_tree_stores, of 2 7]
    unfolding b by simp
qed

text \<open>
  C21: \<open>update_or_insert\<close> only ever updates a tree that is not empty: a key that is absent is silently
  not inserted.
\<close>

theorem update_or_insert_ignores_new_keys:
  assumes "stores (geom P) t m n" "n \<noteq> 0"
  shows "\<exists>t'. update_or_insert P t key val = Inr t' \<and> stores (geom P) t' (if m key = None then m else m(key \<mapsto> val)) n"
proof -
  obtain t' where t': "tree_update t key val = Inr (m key \<noteq> None, t')"
    "stores (geom P) t' (if m key = None then m else m(key \<mapsto> val)) n"
    using stores_update [OF assms] by blast
  then have "update_or_insert P t key val = Inr t'"
    by (cases "findLeaf t key") (auto simp: tree_update_def update_or_insert_def result_iff split: option.splits)
  then show ?thesis using t'(2) by blast
qed

theorem update_or_insert_ignores_new_keys_witness:
  "\<exists>t'. update_or_insert index_params small_tree 4 40 = Inr t' \<and> stores index_geometry t' small_map 2"
  using update_or_insert_ignores_new_keys [of index_params small_tree small_map 2 4 40] small_tree_stores
  by (simp add: small_map_def)

text \<open>
  C38: deleting a key that is present from a tree of two leaves fails an assertion when the left leaf
  has half of the maximum and the right one the minimum of keys: neither borrowing nor merging is
  possible and the code has no other case for a root with two children.
\<close>

theorem two_leaf_removal_aborts:
  fixes P :: "'k::linorder tree_params"
  assumes "shallow (geom P) t [i, j] [a, b] [s]" "key \<in> fst ` set b"
    and "length a = MAX_KEYS_LEAF (geom P) div 2" "length b = MIN_KEYS_LEAF (geom P)"
    and "MAX_KEYS_LEAF (geom P) < MAX_KEYS_LEAF (geom P) div 2 + MIN_KEYS_LEAF (geom P) - 1"
  shows "tree_remove P t key = Inl (Assert_Failed ''left->size() + leaf.size() <= MAX_KEYS_LEAF'')"
  by (rule two_leaves_abort [OF assms])

theorem two_leaf_removal_aborts_witness:
  "tree_remove index_params (example_tree index_geometry 3 1
     [example_leaf index_geometry 1 (map (\<lambda>i. (i, i)) [0..<168]) 2,
      example_leaf index_geometry 2 (map (\<lambda>i. (i, i)) [168..<393]) (-1),
      example_root index_geometry 3 [168] [1, 2]]) 200
   = Inl (Assert_Failed ''left->size() + leaf.size() <= MAX_KEYS_LEAF'')"
proof -
  have "sorted_wrt (<) (map fst (map (\<lambda>i. (i, i)) [0..<168] @ map (\<lambda>i. (i, i)) [168..<393::nat]))"
    by (simp add: sorted_wrt_append comp_def del: upt_conv_Cons upt_rec_numeral)
  moreover have "hd (map (\<lambda>i. (i, i)) [168..<393]) = (168, 168::nat)"
    by (simp add: hd_map del: upt_conv_Cons upt_rec_numeral)
  moreover have "200 \<in> fst ` set (map (\<lambda>i. (i, i)) [168..<393::nat])"
    by (simp add: image_image del: upt_conv_Cons upt_rec_numeral)
  ultimately show ?thesis
    by (intro two_leaf_removal_aborts [where P = index_params and i = 1 and j = 2 and s = 168
          and a = "map (\<lambda>i. (i, i)) [0..<168]" and b = "map (\<lambda>i. (i, i)) [168..<393]"])
      (use two_leaves_shallow [of "map (\<lambda>i. (i, i)) [0..<168]" index_geometry "map (\<lambda>i. (i, i)) [168..<393]"]
        in \<open>simp_all del: upt_conv_Cons upt_rec_numeral list.map\<close>)
qed

text \<open>
  C39: splitting an overfull root duplicates one child and puts a child number and a separator that
  come from no tree into the new right node: the child in the middle stays in the left node too, and
  the right node ends with the default key and with what its buffer held before.
\<close>

theorem root_split_corrupts:
  fixes P :: "'k::linorder tree_params"
  assumes "valid (geom P) t" "read_node t (node_id n) = Inr n" "int_node (geom P) n ss cs"
    and "tree_root_id t = node_id n"
    and "length ss = MAX_KEYS_INTERNAL (geom P) + 1" "3 \<le> MAX_KEYS_INTERNAL (geom P)"
  shows "\<exists>t' p l r rid. splitInternal1to2 P t n = Inr t' \<and>
    read_node t' (tree_root_id t') = Inr p \<and> int_node (geom P) p [ikeys n ! (length ss div 2 + 1)] [node_id n, rid] \<and>
    read_node t' (node_id n) = Inr l \<and>
    int_node (geom P) l (take (length ss div 2 + 1) ss) (take (length ss div 2 + 2) cs) \<and>
    read_node t' rid = Inr r \<and>
    int_node (geom P) r (drop (length ss div 2 + 1) ss @ [key0 P])
      (drop (length ss div 2 + 1) cs @ [ichildren (garbage t (allocated t + 1)) ! 0])"
  by (rule splitInternal1to2_effect [OF assms])

theorem root_split_corrupts_witness:
  "\<exists>t' p l r rid. splitInternal1to2 index_params
      (example_tree index_geometry 1 1 [example_root index_geometry 1 [0..<507] (map int [2..<510])])
      (example_root index_geometry 1 [0..<507] (map int [2..<510])) = Inr t' \<and>
    read_node t' (tree_root_id t') = Inr p \<and> int_node index_geometry p [254] [1, rid] \<and>
    read_node t' 1 = Inr l \<and> int_node index_geometry l [0..<254] (map int [2..<257]) \<and>
    read_node t' rid = Inr r \<and>
    int_node index_geometry r ([254..<507] @ [0]) (map int [256..<510] @ [0])"
proof -
  let ?n = "example_root index_geometry 1 [0..<507] (map int [2..<510])"
  let ?t = "example_tree index_geometry 1 1 [?n]"
  have n: "int_node index_geometry ?n [0..<507] (map int [2..<510])"
    by (intro example_root_node) (simp_all del: upt_conv_Cons upt_rec_numeral)
  have v: "valid index_geometry ?t" using n by (intro example_valid) (simp add: int_node_def)
  have r: "read_node ?t (node_id ?n) = Inr ?n"
    using v by (simp add: read_node_eq on_page_def) (simp add: example_tree_def)
  have k: "ikeys ?n ! 254 = 254" by (simp add: example_root_def nth_append del: upt_conv_Cons upt_rec_numeral)
  show ?thesis
    using root_split_corrupts [of index_params ?t ?n "[0..<507]" "map int [2..<510]"] v r n k
    by (simp add: take_map drop_map del: upt_conv_Cons upt_rec_numeral)
      (simp add: example_tree_def blank_node_def del: upt_conv_Cons upt_rec_numeral)
qed

text \<open>
  Merging three internal nodes into two never succeeds: the code copies the leaf link of the
  right node, which an internal node does not have.
\<close>

theorem internal_merge_never_succeeds: "\<not> is_ok (mergeInternal3to2 P t left middle right st idx)"
  by (rule mergeInternal3to2_fails)

end
