(* ===== verification/Sql_Lexer.thy ===== *)
theory Sql_Lexer
  imports Qdb_Prelude
begin

text \<open>
  The lexer, \<open>apps/server/src/lexer.cpp\<close>. Its state is what is left of the source and the current
  line and column. The classification functions of \<open><cctype>\<close> are those of the C locale, on the byte
  of the character.
\<close>

section \<open>Tokens and state\<close>

datatype token_type =
    Keyword | Identifier | StringLiteral | IntegerLiteral | Operator | Punctuation | EndOfFile | Invalid

record token =
  tok_type :: token_type
  tok_value :: string
  tok_line :: nat
  tok_column :: nat

record lexer =
  source :: string
  lex_line :: nat
  lex_column :: nat

definition new_lexer :: "string \<Rightarrow> lexer" where
  "new_lexer s = \<lparr>source = s, lex_line = 1, lex_column = 1\<rparr>"

definition mk_token :: "token_type \<Rightarrow> string \<Rightarrow> nat \<Rightarrow> nat \<Rightarrow> token" where
  "mk_token ty v l c = \<lparr>tok_type = ty, tok_value = v, tok_line = l, tok_column = c\<rparr>"

section \<open>Characters\<close>

definition byte_in :: "char \<Rightarrow> nat \<Rightarrow> nat \<Rightarrow> bool" where
  "byte_in c a b \<longleftrightarrow> a \<le> (of_char c :: nat) \<and> (of_char c :: nat) \<le> b"

definition is_space :: "char \<Rightarrow> bool" where
  "is_space c \<longleftrightarrow> byte_in c 9 13 \<or> byte_in c 32 32"

definition IsDigit :: "char \<Rightarrow> bool" where
  "IsDigit c \<longleftrightarrow> byte_in c 48 57"

definition IsAlpha :: "char \<Rightarrow> bool" where
  "IsAlpha c \<longleftrightarrow> byte_in c 65 90 \<or> byte_in c 97 122"

definition is_alnum :: "char \<Rightarrow> bool" where
  "is_alnum c \<longleftrightarrow> IsAlpha c \<or> IsDigit c"

definition to_upper :: "char \<Rightarrow> char" where
  "to_upper c = (if byte_in c 97 122 then char_of ((of_char c :: nat) - 32) else c)"

definition IsOperatorChar :: "char \<Rightarrow> bool" where
  "IsOperatorChar c \<longleftrightarrow> c = CHR ''='' \<or> c = CHR ''!'' \<or> c = CHR ''<'' \<or> c = CHR ''>'' \<or> c = CHR ''*''"

definition IsPunctuationChar :: "char \<Rightarrow> bool" where
  "IsPunctuationChar c \<longleftrightarrow> c = CHR ''('' \<or> c = CHR '')'' \<or> c = CHR '','' \<or> c = CHR '';'' \<or> c = CHR ''.''
     \<or> c = CHR ''-'' \<or> c = CHR '':''"

definition QUOTE :: char where "QUOTE = CHR 0x22"

definition GetKeywords :: "string list" where
  "GetKeywords =
     [''SELECT'', ''FROM'', ''WHERE'', ''INSERT'', ''INTO'', ''VALUE'', ''UPDATE'', ''SET'', ''DELETE'',
      ''CREATE'', ''DROP'', ''TABLE'', ''DATABASE'', ''USER'', ''PASSWORD'', ''USE'', ''REVERT'', ''INT'', ''STRING'',
      ''NOT_NULL'', ''INDEXED'', ''DEFAULT'', ''NULL'', ''AND'', ''OR'', ''BETWEEN'', ''LIKE'', ''AS'', ''SUM'',
      ''COUNT'', ''AVG'', ''GRANT'', ''REVOKE'', ''ON'', ''TO'', ''READ'', ''WRITE'']"

section \<open>Scanning\<close>

definition IsAtEnd :: "lexer \<Rightarrow> bool" where
  "IsAtEnd lx \<longleftrightarrow> source lx = []"

definition Peek :: "lexer \<Rightarrow> char" where
  "Peek lx = (case source lx of [] \<Rightarrow> CHR 0x00 | c # _ \<Rightarrow> c)"

text \<open>Every call of \<open>Advance\<close> has a character left.\<close>

definition Advance :: "lexer \<Rightarrow> lexer" where
  "Advance lx =
     (if Peek lx = CHR 0x0A then lx\<lparr>source := tl (source lx), lex_line := lex_line lx + 1, lex_column := 1\<rparr>
      else lx\<lparr>source := tl (source lx), lex_column := lex_column lx + 1\<rparr>)"

text \<open>The loop \<open>while (!IsAtEnd() && p(Peek())) value += Advance();\<close> of the scanners.\<close>

function take_while :: "(char \<Rightarrow> bool) \<Rightarrow> lexer \<Rightarrow> string \<times> lexer" where
  "take_while p lx =
     (if \<not> IsAtEnd lx \<and> p (Peek lx)
      then (case take_while p (Advance lx) of (v, lx') \<Rightarrow> (Peek lx # v, lx'))
      else ([], lx))"
  by pat_completeness auto
termination
  by (relation "measure (\<lambda>(p, lx). length (source lx))") (auto simp: Advance_def IsAtEnd_def)

declare take_while.simps [simp del]

definition SkipWhitespace :: "lexer \<Rightarrow> lexer" where
  "SkipWhitespace lx = snd (take_while is_space lx)"

definition MakeToken :: "lexer \<Rightarrow> token_type \<Rightarrow> string \<Rightarrow> token" where
  "MakeToken lx ty v = mk_token ty v (lex_line lx) (lex_column lx)"

definition ScanStringLiteral :: "lexer \<Rightarrow> token \<times> lexer" where
  "ScanStringLiteral lx =
     (case take_while (\<lambda>c. c \<noteq> QUOTE) (Advance lx) of (value, lx') \<Rightarrow>
        if IsAtEnd lx' then (MakeToken lx Invalid value, lx')
        else (MakeToken lx StringLiteral value, Advance lx'))"

definition ScanNumber :: "lexer \<Rightarrow> token \<times> lexer" where
  "ScanNumber lx = (case take_while IsDigit lx of (value, lx') \<Rightarrow> (MakeToken lx IntegerLiteral value, lx'))"

definition ScanIdentifierOrKeyword :: "lexer \<Rightarrow> token \<times> lexer" where
  "ScanIdentifierOrKeyword lx =
     (case take_while (\<lambda>c. is_alnum c \<or> c = CHR ''_'') lx of (value, lx') \<Rightarrow>
        let upper_value = map to_upper value
        in if upper_value \<in> set GetKeywords then (MakeToken lx Keyword upper_value, lx')
           else (MakeToken lx Identifier value, lx'))"

definition ScanOperator :: "lexer \<Rightarrow> token \<times> lexer" where
  "ScanOperator lx =
     (let first = Peek lx; lx1 = Advance lx
      in if (first = CHR ''='' \<or> first = CHR ''!'' \<or> first = CHR ''<'' \<or> first = CHR ''>'')
            \<and> Peek lx1 = CHR ''=''
         then (MakeToken lx Operator [first, Peek lx1], Advance lx1)
         else (MakeToken lx Operator [first], lx1))"

definition ScanPunctuation :: "lexer \<Rightarrow> token \<times> lexer" where
  "ScanPunctuation lx = (MakeToken lx Punctuation [Peek lx], Advance lx)"

definition NextToken :: "lexer \<Rightarrow> token \<times> lexer" where
  "NextToken lx0 =
     (let lx = SkipWhitespace lx0; current = Peek lx
      in if IsAtEnd lx then (MakeToken lx EndOfFile [], lx)
         else if current = QUOTE then ScanStringLiteral lx
         else if IsDigit current then ScanNumber lx
         else if IsAlpha current \<or> current = CHR ''_'' then ScanIdentifierOrKeyword lx
         else if IsOperatorChar current then ScanOperator lx
         else if IsPunctuationChar current then ScanPunctuation lx
         else (MakeToken lx Invalid [current], Advance lx))"

definition HasNext :: "lexer \<Rightarrow> bool" where
  "HasNext lx \<longleftrightarrow> \<not> list_all is_space (source lx)"

section \<open>The whole source\<close>

lemma Advance_source [simp]: "source (Advance lx) = tl (source lx)"
  by (simp add: Advance_def)

lemma take_while_eq [simp]:
  "fst (take_while p lx) = takeWhile p (source lx)"
  "source (snd (take_while p lx)) = dropWhile p (source lx)"
proof (induction p lx rule: take_while.induct)
  case (1 p lx)
  show "fst (take_while p lx) = takeWhile p (source lx)"
    using 1(1) by (subst take_while.simps) (cases "source lx"; auto simp: IsAtEnd_def Peek_def split: prod.split)
  show "source (snd (take_while p lx)) = dropWhile p (source lx)"
    using 1(2) by (subst take_while.simps) (cases "source lx"; auto simp: IsAtEnd_def Peek_def split: prod.split)
qed

lemma take_while_pair:
  "take_while p lx = (v, lx') \<Longrightarrow> v = takeWhile p (source lx) \<and> source lx' = dropWhile p (source lx)"
  using take_while_eq [of p lx] by simp

lemma IsAtEnd_iff [simp]: "IsAtEnd lx \<longleftrightarrow> source lx = []"
  by (simp add: IsAtEnd_def)

lemma Peek_Cons [simp]: "source lx = c # cs \<Longrightarrow> Peek lx = c"
  by (simp add: Peek_def)

lemma SkipWhitespace_source [simp]: "source (SkipWhitespace lx) = dropWhile is_space (source lx)"
  by (simp add: SkipWhitespace_def)

lemma token_of_MakeToken [simp]:
  "tok_type (MakeToken lx ty v) = ty" "tok_value (MakeToken lx ty v) = v"
  by (simp_all add: MakeToken_def mk_token_def)

text \<open>What each scanner takes from a source that begins with its character.\<close>

lemma scan_source:
  assumes "source lx = c # cs"
  shows "source (snd (ScanNumber lx)) = dropWhile IsDigit (c # cs)"
    and "source (snd (ScanIdentifierOrKeyword lx)) = dropWhile (\<lambda>c. is_alnum c \<or> c = CHR ''_'') (c # cs)"
    and "source (snd (ScanStringLiteral lx)) = tl (dropWhile (\<lambda>c. c \<noteq> QUOTE) cs)"
    and "source (snd (ScanPunctuation lx)) = cs"
  using assms take_while_eq(2) [of "\<lambda>c. c \<noteq> QUOTE" "Advance lx"] take_while_eq(2) [of IsDigit lx]
    take_while_eq(2) [of "\<lambda>c. is_alnum c \<or> c = CHR ''_''" lx]
  by (auto simp: ScanNumber_def ScanIdentifierOrKeyword_def ScanStringLiteral_def ScanPunctuation_def Let_def
      split: prod.splits simp del: take_while_eq)

lemma ScanOperator_source:
  "source lx = c # cs \<Longrightarrow> source (snd (ScanOperator lx)) = cs \<or> source (snd (ScanOperator lx)) = tl cs"
  by (simp add: ScanOperator_def Let_def)

lemma dropWhile_shorter: "p c \<Longrightarrow> length (dropWhile p (c # cs)) < Suc (length cs)"
  by (simp add: length_dropWhile_le less_Suc_eq_le)

lemma NextToken_progress:
  assumes "source (SkipWhitespace lx) = c # cs"
  shows "length (source (snd (NextToken lx))) < length (source lx)"
proof -
  let ?lx = "SkipWhitespace lx"
  have le: "Suc (length cs) \<le> length (source lx)"
    using arg_cong [OF assms, of length] length_dropWhile_le [of is_space "source lx"] by simp
  have tl: "length (tl xs) \<le> length xs" for xs :: string by simp
  have "length (source (snd (NextToken lx))) < Suc (length cs)"
    using scan_source [OF assms] ScanOperator_source [OF assms] assms dropWhile_shorter [of IsDigit c cs]
      dropWhile_shorter [of "\<lambda>c. is_alnum c \<or> c = CHR ''_''" c cs] tl [of cs]
      length_dropWhile_le [of "\<lambda>c. c \<noteq> QUOTE" cs]
    by (auto simp: NextToken_def Let_def is_alnum_def simp del: dropWhile.simps SkipWhitespace_source)
  then show ?thesis using le by simp
qed

function Tokenize :: "lexer \<Rightarrow> token list" where
  "Tokenize lx =
     (case NextToken lx of (tk, lx') \<Rightarrow> if tok_type tk = EndOfFile then [tk] else tk # Tokenize lx')"
  by pat_completeness auto
termination
proof (relation "measure (\<lambda>lx. length (source lx))", simp)
  fix lx tk lx'
  assume a: "(tk, lx') = NextToken lx" "tok_type tk \<noteq> EndOfFile"
  have "source (SkipWhitespace lx) \<noteq> []"
  proof
    assume "source (SkipWhitespace lx) = []"
    then have "fst (NextToken lx) = MakeToken (SkipWhitespace lx) EndOfFile []" by (simp add: NextToken_def Let_def)
    then show False using a by (metis fst_conv token_of_MakeToken(1))
  qed
  then obtain c cs where "source (SkipWhitespace lx) = c # cs" by (meson list.exhaust)
  from NextToken_progress [OF this] show "(lx', lx) \<in> measure (\<lambda>lx. length (source lx))"
    using a(1) by (metis in_measure snd_conv)
qed

declare Tokenize.simps [simp del]

section \<open>Lexing what was printed\<close>

text \<open>The text of a token, and the token values that the lexer can produce.\<close>

fun token_text :: "token_type \<times> string \<Rightarrow> string" where
  "token_text (ty, v) = (if ty = StringLiteral then QUOTE # v @ [QUOTE] else v)"

definition word_char :: "char \<Rightarrow> bool" where
  "word_char c \<longleftrightarrow> is_alnum c \<or> c = CHR ''_''"

definition operator_texts :: "string list" where
  "operator_texts = [''='', ''!'', ''<'', ''>'', ''*'', ''=='', ''!='', ''<='', ''>='']"

definition punctuation_texts :: "string list" where
  "punctuation_texts = [''('', '')'', '','', '';'', ''.'', ''-'', '':'']"

fun lexable :: "token_type \<times> string \<Rightarrow> bool" where
  "lexable (Keyword, v) \<longleftrightarrow> v \<in> set GetKeywords"
| "lexable (Identifier, v) \<longleftrightarrow> v \<noteq> [] \<and> \<not> IsDigit (hd v) \<and> list_all word_char v
     \<and> map to_upper v \<notin> set GetKeywords"
| "lexable (StringLiteral, v) \<longleftrightarrow> QUOTE \<notin> set v"
| "lexable (IntegerLiteral, v) \<longleftrightarrow> v \<noteq> [] \<and> list_all IsDigit v"
| "lexable (Operator, v) \<longleftrightarrow> v \<in> set operator_texts"
| "lexable (Punctuation, v) \<longleftrightarrow> v \<in> set punctuation_texts"
| "lexable _ \<longleftrightarrow> False"

text \<open>Tokens are printed with a blank after each.\<close>

definition print_tokens :: "(token_type \<times> string) list \<Rightarrow> string" where
  "print_tokens ts = concat (map (\<lambda>t. token_text t @ '' '') ts)"

definition kind_value :: "token \<Rightarrow> token_type \<times> string" where
  "kind_value t = (tok_type t, tok_value t)"

lemma keyword_word:
  assumes "v \<in> set GetKeywords"
  shows "v \<noteq> []" "list_all word_char v" "IsAlpha (hd v)" "map to_upper v = v"
proof -
  have "list_all (\<lambda>v. v \<noteq> [] \<and> list_all word_char v \<and> IsAlpha (hd v) \<and> map to_upper v = v) GetKeywords"
    by code_simp
  then show "v \<noteq> []" "list_all word_char v" "IsAlpha (hd v)" "map to_upper v = v"
    using assms by (auto simp: list_all_iff)
qed

lemma char_classes [simp]:
  "\<not> is_space QUOTE" "\<not> IsDigit QUOTE" "\<not> IsAlpha QUOTE" "is_space CHR '' ''" "\<not> word_char CHR '' ''"
  "\<not> IsDigit CHR '' ''" "QUOTE \<noteq> CHR ''_''"
  by code_simp+

lemma digit_classes: "IsDigit c \<Longrightarrow> \<not> is_space c \<and> c \<noteq> QUOTE"
  by (auto simp: IsDigit_def is_space_def byte_in_def QUOTE_def)

lemma word_classes: "word_char c \<Longrightarrow> \<not> is_space c \<and> c \<noteq> QUOTE"
  by (auto simp: IsDigit_def IsAlpha_def is_alnum_def word_char_def is_space_def byte_in_def QUOTE_def)

lemma takeWhile_all: "list_all p v \<Longrightarrow> \<not> p c \<Longrightarrow> takeWhile p (v @ c # cs) = v \<and> dropWhile p (v @ c # cs) = c # cs"
  by (induction v) auto

lemma scan_word:
  assumes "source lx = v @ CHR '' '' # rest" "list_all word_char v"
  shows "source (snd (ScanIdentifierOrKeyword lx)) = CHR '' '' # rest"
    and "kind_value (fst (ScanIdentifierOrKeyword lx)) =
      (if map to_upper v \<in> set GetKeywords then (Keyword, map to_upper v) else (Identifier, v))"
  using takeWhile_all [OF assms(2), of "CHR '' ''" rest] assms(1)
  by (auto simp: ScanIdentifierOrKeyword_def Let_def kind_value_def word_char_def [symmetric] dest!: take_while_pair
      split: prod.splits)

lemma scan_number:
  assumes "source lx = v @ CHR '' '' # rest" "list_all IsDigit v"
  shows "source (snd (ScanNumber lx)) = CHR '' '' # rest" "kind_value (fst (ScanNumber lx)) = (IntegerLiteral, v)"
  using takeWhile_all [OF assms(2), of "CHR '' ''" rest] assms(1)
  by (auto simp: ScanNumber_def kind_value_def dest!: take_while_pair split: prod.splits)

lemma scan_string:
  assumes "source lx = QUOTE # v @ QUOTE # rest" "QUOTE \<notin> set v"
  shows "source (snd (ScanStringLiteral lx)) = rest" "kind_value (fst (ScanStringLiteral lx)) = (StringLiteral, v)"
proof -
  have "list_all (\<lambda>c. c \<noteq> QUOTE) v" using assms(2) by (auto simp: list_all_iff)
  from takeWhile_all [OF this, of QUOTE rest]
  have "takeWhile (\<lambda>c. c \<noteq> QUOTE) (source (Advance lx)) = v"
    "dropWhile (\<lambda>c. c \<noteq> QUOTE) (source (Advance lx)) = QUOTE # rest" using assms(1) by simp_all
  then show "source (snd (ScanStringLiteral lx)) = rest" "kind_value (fst (ScanStringLiteral lx)) = (StringLiteral, v)"
    by (auto simp: ScanStringLiteral_def kind_value_def dest!: take_while_pair split: prod.splits)
qed

lemma operator_text:
  assumes "v \<in> set operator_texts"
  shows "v \<noteq> []" "IsOperatorChar (hd v)" "\<not> is_space (hd v)"
proof -
  have "list_all (\<lambda>v. v \<noteq> [] \<and> IsOperatorChar (hd v) \<and> \<not> is_space (hd v)) operator_texts" by code_simp
  then show "v \<noteq> []" "IsOperatorChar (hd v)" "\<not> is_space (hd v)" using assms by (auto simp: list_all_iff)
qed

lemma punctuation_text:
  assumes "v \<in> set punctuation_texts"
  shows "v \<noteq> []" "tl v = []" "IsPunctuationChar (hd v)" "\<not> is_space (hd v)"
proof -
  have "list_all (\<lambda>v. v \<noteq> [] \<and> tl v = [] \<and> IsPunctuationChar (hd v) \<and> \<not> is_space (hd v)) punctuation_texts"
    by code_simp
  then show "v \<noteq> []" "tl v = []" "IsPunctuationChar (hd v)" "\<not> is_space (hd v)"
    using assms by (auto simp: list_all_iff)
qed

lemma scan_operator:
  assumes "v \<in> set operator_texts" "source lx = v @ CHR '' '' # rest"
  shows "source (snd (ScanOperator lx)) = CHR '' '' # rest" "kind_value (fst (ScanOperator lx)) = (Operator, v)"
  using assms unfolding operator_texts_def
  by (auto simp: ScanOperator_def Let_def Peek_def kind_value_def)

lemma NextToken_cases:
  assumes "source (SkipWhitespace lx) = c # cs"
  shows "c = QUOTE \<Longrightarrow> NextToken lx = ScanStringLiteral (SkipWhitespace lx)"
    and "IsDigit c \<Longrightarrow> NextToken lx = ScanNumber (SkipWhitespace lx)"
    and "word_char c \<Longrightarrow> \<not> IsDigit c \<Longrightarrow> NextToken lx = ScanIdentifierOrKeyword (SkipWhitespace lx)"
    and "IsOperatorChar c \<Longrightarrow> NextToken lx = ScanOperator (SkipWhitespace lx)"
    and "IsPunctuationChar c \<Longrightarrow> NextToken lx = ScanPunctuation (SkipWhitespace lx)"
proof -
  have cls: "word_char c \<Longrightarrow> \<not> IsDigit c \<Longrightarrow> c \<noteq> QUOTE \<and> (IsAlpha c \<or> c = CHR ''_'')"
    using word_classes [of c] by (auto simp: word_char_def is_alnum_def)
  have op: "IsOperatorChar c \<Longrightarrow> c \<noteq> QUOTE \<and> \<not> IsDigit c \<and> \<not> IsAlpha c \<and> c \<noteq> CHR ''_''"
    by (auto simp: IsOperatorChar_def QUOTE_def IsDigit_def IsAlpha_def byte_in_def)
  have pu: "IsPunctuationChar c \<Longrightarrow> c \<noteq> QUOTE \<and> \<not> IsDigit c \<and> \<not> IsAlpha c \<and> c \<noteq> CHR ''_'' \<and> \<not> IsOperatorChar c"
    by (auto simp: IsOperatorChar_def IsPunctuationChar_def QUOTE_def IsDigit_def IsAlpha_def byte_in_def)
  have pk: "Peek (SkipWhitespace lx) = c" "\<not> IsAtEnd (SkipWhitespace lx)" using assms by (simp_all del: SkipWhitespace_source)
  show "c = QUOTE \<Longrightarrow> NextToken lx = ScanStringLiteral (SkipWhitespace lx)"
    "IsDigit c \<Longrightarrow> NextToken lx = ScanNumber (SkipWhitespace lx)"
    "word_char c \<Longrightarrow> \<not> IsDigit c \<Longrightarrow> NextToken lx = ScanIdentifierOrKeyword (SkipWhitespace lx)"
    "IsOperatorChar c \<Longrightarrow> NextToken lx = ScanOperator (SkipWhitespace lx)"
    "IsPunctuationChar c \<Longrightarrow> NextToken lx = ScanPunctuation (SkipWhitespace lx)"
    using digit_classes [of c] cls op pu pk by (auto simp: NextToken_def Let_def simp del: IsAtEnd_iff)
qed

lemma NextToken_printed:
  assumes lex: "lexable t" and src: "source lx = ws @ token_text t @ CHR '' '' # rest" and ws: "list_all is_space ws"
  shows "source (snd (NextToken lx)) = CHR '' '' # rest" "kind_value (fst (NextToken lx)) = t"
proof -
  let ?lx = "SkipWhitespace lx"
  obtain ty v where t: "t = (ty, v)" by (cases t)
  have skip: "source ?lx = token_text t @ CHR '' '' # rest" if "\<not> is_space (hd (token_text t))" "token_text t \<noteq> []"
    using that src ws by (cases "token_text t") (auto simp: dropWhile_append2 list_all_iff)
  have goal: "source (snd (NextToken lx)) = CHR '' '' # rest \<and> kind_value (fst (NextToken lx)) = t"
  proof (cases ty)
    case Keyword
    note kw = keyword_word [of v]
    have v: "v \<in> set GetKeywords" using lex t Keyword by simp
    obtain c cs where c: "v = c # cs" using kw(1) [OF v] by (cases v) auto
    have wc: "word_char c" "\<not> IsDigit c" using kw(2,3) [OF v] c
      by (auto simp: IsDigit_def IsAlpha_def byte_in_def)
    have s: "source ?lx = v @ CHR '' '' # rest"
      using skip t Keyword word_classes [OF wc(1)] c by simp
    show ?thesis using NextToken_cases(3) [of lx c] wc s c scan_word [OF s kw(2) [OF v]] kw(4) [OF v] v t Keyword
      by (simp del: SkipWhitespace_source)
  next
    case Identifier
    have v: "v \<noteq> []" "\<not> IsDigit (hd v)" "list_all word_char v" "map to_upper v \<notin> set GetKeywords"
      using lex t Identifier by simp_all
    obtain c cs where c: "v = c # cs" using v(1) by (cases v) auto
    have wc: "word_char c" "\<not> IsDigit c" using v(2,3) c by auto
    have s: "source ?lx = v @ CHR '' '' # rest"
      using skip t Identifier word_classes [OF wc(1)] c by simp
    show ?thesis using NextToken_cases(3) [of lx c] wc s c scan_word [OF s v(3)] v(4) t Identifier
      by (simp del: SkipWhitespace_source)
  next
    case StringLiteral
    have s: "source ?lx = QUOTE # v @ QUOTE # CHR '' '' # rest" using skip t StringLiteral by simp
    show ?thesis using NextToken_cases(1) [OF s] scan_string [OF s] lex t StringLiteral by simp
  next
    case IntegerLiteral
    have v: "v \<noteq> []" "list_all IsDigit v" using lex t IntegerLiteral by simp_all
    obtain c cs where c: "v = c # cs" using v(1) by (cases v) auto
    have s: "source ?lx = v @ CHR '' '' # rest"
      using skip t IntegerLiteral digit_classes [of c] c v(2) by simp
    show ?thesis using NextToken_cases(2) [of lx c] s c scan_number [OF s v(2)] v(2) t IntegerLiteral
      by (simp del: SkipWhitespace_source)
  next
    case Operator
    have v: "v \<in> set operator_texts" using lex t Operator by simp
    obtain c cs where c: "v = c # cs" "IsOperatorChar c" "\<not> is_space c"
      using operator_text [OF v] by (cases v rule: list.exhaust) auto
    have s: "source ?lx = v @ CHR '' '' # rest" using skip t Operator c by simp
    show ?thesis using NextToken_cases(4) [of lx c] c s scan_operator [OF v s] t Operator
      by (simp del: SkipWhitespace_source)
  next
    case Punctuation
    have v: "v \<in> set punctuation_texts" using lex t Punctuation by simp
    obtain c where c: "v = [c]" "IsPunctuationChar c" "\<not> is_space c"
      using punctuation_text [OF v] by (cases v rule: list.exhaust) auto
    have s: "source ?lx = c # CHR '' '' # rest" using skip t Punctuation c by simp
    show ?thesis using NextToken_cases(5) [OF s] c(2) scan_source(4) [OF s] s t Punctuation c(1)
      by (simp add: ScanPunctuation_def kind_value_def del: SkipWhitespace_source)
  qed (use lex t in simp_all)
  then show "source (snd (NextToken lx)) = CHR '' '' # rest" "kind_value (fst (NextToken lx)) = t" by simp_all
qed

lemma NextToken_end:
  "list_all is_space (source lx) \<Longrightarrow> kind_value (fst (NextToken lx)) = (EndOfFile, [])"
  by (simp add: NextToken_def Let_def kind_value_def list_all_iff)

lemma Tokenize_printed:
  assumes "list_all lexable ts" "source lx = ws @ print_tokens ts" "list_all is_space ws"
  shows "map kind_value (Tokenize lx) = ts @ [(EndOfFile, [])]"
  using assms
proof (induction ts arbitrary: lx ws)
  case Nil
  then have e: "kind_value (fst (NextToken lx)) = (EndOfFile, [])" by (intro NextToken_end) (simp add: print_tokens_def)
  show ?case using e by (subst Tokenize.simps) (auto simp: kind_value_def split: prod.split)
next
  case (Cons t ts)
  have src: "source lx = ws @ token_text t @ CHR '' '' # print_tokens ts" using Cons.prems(2) by (simp add: print_tokens_def)
  have lex: "lexable t" using Cons.prems(1) by simp
  note nt = NextToken_printed [OF lex src Cons.prems(3)]
  obtain tk lx' where n: "NextToken lx = (tk, lx')" by (cases "NextToken lx")
  have "tok_type tk \<noteq> EndOfFile" using nt(2) n lex by (cases t) (auto simp: kind_value_def)
  moreover have "map kind_value (Tokenize lx') = ts @ [(EndOfFile, [])]"
    using Cons.IH [of lx' "'' ''"] Cons.prems(1) nt(1) n by simp
  ultimately show ?case using nt(2) n by (subst Tokenize.simps) simp
qed

section \<open>Positions\<close>

text \<open>The line and column after a text, and what a token says about the source from there on.\<close>

fun step_pos :: "char \<Rightarrow> nat \<times> nat \<Rightarrow> nat \<times> nat" where
  "step_pos ch (l, c) = (if ch = CHR 0x0A then (l + 1, 1) else (l, c + 1))"

definition pos_after :: "string \<Rightarrow> nat \<times> nat" where
  "pos_after pre = fold step_pos pre (1, 1)"

fun begins :: "token_type \<Rightarrow> string \<Rightarrow> string \<Rightarrow> bool" where
  "begins EndOfFile v post \<longleftrightarrow> post = []"
| "begins StringLiteral v post \<longleftrightarrow> (\<exists>r. post = QUOTE # v @ QUOTE # r)"
| "begins Keyword v post \<longleftrightarrow> (\<exists>w r. post = w @ r \<and> map to_upper w = v)"
| "begins Invalid v post \<longleftrightarrow> post = QUOTE # v \<or> (\<exists>r. post = v @ r)"
| "begins _ v post \<longleftrightarrow> (\<exists>r. post = v @ r)"

definition at_text :: "string \<Rightarrow> lexer \<Rightarrow> bool" where
  "at_text s lx \<longleftrightarrow> (\<exists>pre. s = pre @ source lx \<and> pos_after pre = (lex_line lx, lex_column lx))"

definition token_in :: "string \<Rightarrow> token \<Rightarrow> bool" where
  "token_in s tk \<longleftrightarrow> (\<exists>pre post. s = pre @ post \<and> pos_after pre = (tok_line tk, tok_column tk)
     \<and> begins (tok_type tk) (tok_value tk) post)"

lemma at_text_new: "at_text s (new_lexer s)"
  by (simp add: at_text_def new_lexer_def pos_after_def)

lemma at_text_Advance: "at_text s lx \<Longrightarrow> source lx \<noteq> [] \<Longrightarrow> at_text s (Advance lx)"
proof -
  assume a: "at_text s lx" "source lx \<noteq> []"
  then obtain pre c cs where p: "s = pre @ c # cs" "source lx = c # cs" "pos_after pre = (lex_line lx, lex_column lx)"
    by (auto simp: at_text_def neq_Nil_conv)
  then have "s = (pre @ [c]) @ source (Advance lx)" by simp
  moreover have "pos_after (pre @ [c]) = (lex_line (Advance lx), lex_column (Advance lx))"
    using p(2,3) by (simp add: pos_after_def Advance_def)
  ultimately show ?thesis unfolding at_text_def by blast
qed

lemma at_text_take_while: "at_text s lx \<Longrightarrow> at_text s (snd (take_while p lx))"
proof (induction p lx rule: take_while.induct)
  case (1 p lx)
  then show ?case using at_text_Advance [OF 1(2)]
    by (subst take_while.simps) (auto split: prod.splits)
qed

lemma token_inI: "at_text s lx \<Longrightarrow> begins ty v (source lx) \<Longrightarrow> token_in s (MakeToken lx ty v)"
  by (auto simp: at_text_def token_in_def MakeToken_def mk_token_def)

lemma at_text_pair: "at_text s lx \<Longrightarrow> take_while p lx = (v, lx') \<Longrightarrow> at_text s lx'"
  using at_text_take_while [of s lx p] by simp

lemma scan_positions:
  assumes at: "at_text s lx" and src: "source lx = c # cs"
  shows "token_in s (fst (ScanNumber lx)) \<and> at_text s (snd (ScanNumber lx))"
    and "token_in s (fst (ScanIdentifierOrKeyword lx)) \<and> at_text s (snd (ScanIdentifierOrKeyword lx))"
    and "c = QUOTE \<Longrightarrow> token_in s (fst (ScanStringLiteral lx)) \<and> at_text s (snd (ScanStringLiteral lx))"
    and "token_in s (fst (ScanOperator lx)) \<and> at_text s (snd (ScanOperator lx))"
    and "token_in s (fst (ScanPunctuation lx)) \<and> at_text s (snd (ScanPunctuation lx))"
proof -
  have ad: "at_text s (Advance lx)" using at_text_Advance [OF at] src by simp
  show "token_in s (fst (ScanPunctuation lx)) \<and> at_text s (snd (ScanPunctuation lx))"
    using ad src by (auto simp: ScanPunctuation_def intro!: token_inI [OF at])
  show "token_in s (fst (ScanNumber lx)) \<and> at_text s (snd (ScanNumber lx))"
    by (auto simp: ScanNumber_def at_text_pair [OF at] split: prod.split intro!: token_inI [OF at]
        dest!: take_while_pair) (metis takeWhile_dropWhile_id)
  show "token_in s (fst (ScanIdentifierOrKeyword lx)) \<and> at_text s (snd (ScanIdentifierOrKeyword lx))"
    by (auto simp: ScanIdentifierOrKeyword_def Let_def at_text_pair [OF at] split: prod.split intro!: token_inI [OF at]
        dest!: take_while_pair) (metis takeWhile_dropWhile_id)+
  show "token_in s (fst (ScanOperator lx)) \<and> at_text s (snd (ScanOperator lx))"
  proof (cases cs)
    case Nil
    then show ?thesis using ad src by (auto simp: ScanOperator_def Let_def Peek_def intro!: token_inI [OF at])
  next
    case (Cons d ds)
    have "at_text s (Advance (Advance lx))" using at_text_Advance [OF ad] src Cons by simp
    then show ?thesis using ad src Cons
      by (auto simp: ScanOperator_def Let_def Peek_def intro!: token_inI [OF at])
  qed
  show "token_in s (fst (ScanStringLiteral lx)) \<and> at_text s (snd (ScanStringLiteral lx))" if q: "c = QUOTE"
  proof -
    obtain v lx' where t: "take_while (\<lambda>c. c \<noteq> QUOTE) (Advance lx) = (v, lx')" by fastforce
    have e: "v = takeWhile (\<lambda>c. c \<noteq> QUOTE) cs" "source lx' = dropWhile (\<lambda>c. c \<noteq> QUOTE) cs"
      using take_while_pair [OF t] src by simp_all
    have at': "at_text s lx'" by (rule at_text_pair [OF ad t])
    show ?thesis
    proof (cases "source lx'")
      case Nil
      then have "cs = v" using e takeWhile_dropWhile_id [of "\<lambda>c. c \<noteq> QUOTE" cs] by (metis append_Nil2)
      then show ?thesis using t Nil at' src q
        by (auto simp: ScanStringLiteral_def intro!: token_inI [OF at])
    next
      case (Cons d ds)
      then have "d = QUOTE" 
        using e(2) hd_dropWhile [of "\<lambda>c. c \<noteq> QUOTE" cs] by (simp del: hd_dropWhile)
      then have "cs = v @ QUOTE # ds" using e Cons takeWhile_dropWhile_id [of "\<lambda>c. c \<noteq> QUOTE" cs] by metis
      then show ?thesis using t Cons at_text_Advance [OF at'] src q
        by (auto simp: ScanStringLiteral_def intro!: token_inI [OF at])
    qed
  qed
qed

lemma NextToken_position:
  assumes "at_text s lx"
  shows "token_in s (fst (NextToken lx)) \<and> at_text s (snd (NextToken lx))"
proof -
  let ?lx = "SkipWhitespace lx"
  have at: "at_text s ?lx" unfolding SkipWhitespace_def by (rule at_text_take_while [OF assms])
  show ?thesis
  proof (cases "source ?lx")
    case Nil
    then show ?thesis using at token_inI [OF at, of EndOfFile] by (simp add: NextToken_def Let_def)
  next
    case (Cons c cs)
    note sp = scan_positions [OF at Cons]
    have "token_in s (MakeToken ?lx Invalid [c])" using Cons by (intro token_inI [OF at]) simp
    moreover have "at_text s (Advance ?lx)" using at_text_Advance [OF at] Cons by (simp del: SkipWhitespace_source)
    ultimately show ?thesis using sp Cons by (simp add: NextToken_def Let_def del: SkipWhitespace_source)
  qed
qed

lemma Tokenize_positions: "at_text s lx \<Longrightarrow> list_all (token_in s) (Tokenize lx)"
proof (induction lx rule: Tokenize.induct)
  case (1 lx)
  obtain tk lx' where n: "NextToken lx = (tk, lx')" by (cases "NextToken lx")
  then have "token_in s tk" "at_text s lx'" using NextToken_position [OF 1(2)] by simp_all
  then show ?case using 1(1) n by (subst Tokenize.simps) simp
qed

end
