(* ===== verification/Sql_Ast.thy ===== *)
theory Sql_Ast
  imports Qdb_Prelude
begin

text \<open>
  The abstract syntax of the SQL dialect, \<open>apps/server/include/qdb/server/ast.h\<close>. A class hierarchy
  with a \<open>KindOf\<close> is a datatype with one constructor per kind; a \<open>unique_ptr\<close> that may be empty is
  an option.
\<close>

section \<open>Literals, expressions, conditions\<close>

datatype literal_type = StringLit | IntegerLit | NullLit

datatype sql_literal = Literal (LiteralType: literal_type) (LitValue: string)

datatype aggregate = AggSum | AggCount | AggAvg

datatype expression =
    IdentifierExpr string
  | LiteralExpr sql_literal
  | AggregateExpr aggregate string

datatype comparison =
    OpEqual | OpNotEqual | OpLess | OpGreater | OpLessEqual | OpGreaterEqual

datatype condition =
    ComparisonCondition expression comparison expression
  | BetweenCondition expression expression expression
  | LikeCondition expression string
  | AndCondition condition condition
  | OrCondition condition condition

section \<open>Tables and statements\<close>

record table_ref =
  RefDatabase :: string
  RefTable :: string

text \<open>The constructor with one argument leaves the database empty.\<close>

definition TableRef :: "string \<Rightarrow> string \<Rightarrow> table_ref" where
  "TableRef db tab = \<lparr>RefDatabase = db, RefTable = tab\<rparr>"

datatype def_type = IntDef | StringDef

record column_def =
  DefName :: string
  DefType :: def_type
  DefNotNull :: bool
  DefIndexed :: bool
  DefDefault :: "sql_literal option"

datatype select_item = SelectItem (ItemExpr: expression) (ItemAlias: string)

datatype statement =
    CreateDatabaseStmt string
  | DropDatabaseStmt string
  | UseDatabaseStmt string
  | CreateUserStmt string string
  | GrantStmt "string list" table_ref string
  | RevokeStmt "string list" table_ref string
  | RevertStmt table_ref string
  | CreateTableStmt table_ref "column_def list"
  | DropTableStmt table_ref
  | InsertStmt table_ref "string list" "sql_literal list list"
  | UpdateStmt table_ref "(string \<times> expression) list" "condition option"
  | DeleteStmt table_ref "condition option"
  | SelectStmt bool "select_item list" table_ref "condition option"

end
