(* ===== verification/Sql_Parser.thy ===== *)
theory Sql_Parser
  imports Sql_Lexer Sql_Ast
begin

text \<open>
  The recursive-descent parser, \<open>apps/server/src/parser.cpp\<close>. The state \<open>tokens_\<close> and \<open>pos_\<close> is the
  list of the tokens from \<open>pos_\<close> on; a parsing function returns its value and the tokens left, or the
  \<open>ParseError\<close> it throws. A loop has a bound on its rounds: each round consumes a token, and the bound
  is the number of tokens left, so \<open>no_end\<close> is never the result.
\<close>

section \<open>The token stream\<close>

type_synonym 'a parser = "token list \<Rightarrow> ('a \<times> token list) result"

definition no_end :: exn where
  "no_end = Undefined_Behaviour ''the loop does not end''"

definition eof_token :: token where
  "eof_token = mk_token EndOfFile [] 0 0"

definition P_Peek :: "token list \<Rightarrow> token" where
  "P_Peek ts = (case ts of [] \<Rightarrow> eof_token | t # _ \<Rightarrow> t)"

definition P_IsAtEnd :: "token list \<Rightarrow> bool" where
  "P_IsAtEnd ts \<longleftrightarrow> ts = [] \<or> tok_type (P_Peek ts) = EndOfFile"

definition P_Advance :: "token list \<Rightarrow> token list" where
  "P_Advance ts = (if P_IsAtEnd ts then ts else tl ts)"

text \<open>\<open>Advance().value\<close>\<close>

definition AdvanceValue :: "token list \<Rightarrow> string \<times> token list" where
  "AdvanceValue ts = (if P_IsAtEnd ts then ([], ts) else (tok_value (hd ts), tl ts))"

text \<open>\<open>Match\<close> with no value, and with one; a value that is empty is not compared.\<close>

definition MatchType :: "token_type \<Rightarrow> token list \<Rightarrow> bool" where
  "MatchType ty ts \<longleftrightarrow> \<not> P_IsAtEnd ts \<and> tok_type (P_Peek ts) = ty"

definition Match :: "token_type \<Rightarrow> string \<Rightarrow> token list \<Rightarrow> bool" where
  "Match ty v ts \<longleftrightarrow> MatchType ty ts \<and> (v \<noteq> [] \<longrightarrow> tok_value (P_Peek ts) = v)"

definition got :: "string \<Rightarrow> token list \<Rightarrow> exn" where
  "got what ts = Parse_Error (what @ '', got: '' @ tok_value (P_Peek ts))"

definition ExpectPunctuation :: "string \<Rightarrow> token list \<Rightarrow> token list result" where
  "ExpectPunctuation v ts =
     (if \<not> Match Punctuation v ts then Inl (got (''Expected '' @ quoted v) ts) else Inr (P_Advance ts))"

definition ExpectOperator :: "string \<Rightarrow> token list \<Rightarrow> token list result" where
  "ExpectOperator v ts =
     (if \<not> Match Operator v ts then Inl (got (''Expected operator '' @ quoted v) ts) else Inr (P_Advance ts))"

definition ExpectKeyword :: "string \<Rightarrow> token list \<Rightarrow> token list result" where
  "ExpectKeyword v ts =
     (if \<not> Match Keyword v ts then Inl (got (''Expected keyword '' @ quoted v) ts) else Inr (P_Advance ts))"

definition ParseIdentifier :: "string parser" where
  "ParseIdentifier ts =
     (if \<not> MatchType Identifier ts then Inl (got ''Expected identifier'' ts) else Inr (AdvanceValue ts))"

text \<open>The loop \<open>while (Match(Punctuation, ",")) { Advance(); ... }\<close> after a first element.\<close>

fun more_items :: "nat \<Rightarrow> 'a parser \<Rightarrow> 'a list parser" where
  "more_items n p ts =
     (if Match Punctuation '','' ts
      then (case n of 0 \<Rightarrow> Inl no_end
            | Suc m \<Rightarrow> rbind (p (P_Advance ts)) (\<lambda>(x, ts1).
                rbind (more_items m p ts1) (\<lambda>(xs, ts2). Inr (x # xs, ts2))))
      else Inr ([], ts))"

declare more_items.simps [simp del]

definition comma_list :: "'a parser \<Rightarrow> 'a list parser" where
  "comma_list p ts =
     rbind (p ts) (\<lambda>(x, ts1). rbind (more_items (length ts) p ts1) (\<lambda>(xs, ts2). Inr (x # xs, ts2)))"

section \<open>Names, scopes, permissions, timestamps\<close>

definition ParseTableRef :: "table_ref parser" where
  "ParseTableRef ts =
     rbind (ParseIdentifier ts) (\<lambda>(first, ts1).
       if Match Punctuation ''.'' ts1
       then rbind (ParseIdentifier (P_Advance ts1)) (\<lambda>(second, ts2). Inr (TableRef first second, ts2))
       else Inr (TableRef [] first, ts1))"

definition parse_part :: "string parser" where
  "parse_part ts =
     (if Match Operator ''*'' ts then Inr (''*'', P_Advance ts) else ParseIdentifier ts)"

definition ParseAccessScope :: "table_ref parser" where
  "ParseAccessScope ts =
     rbind (parse_part ts) (\<lambda>(first, ts1).
       if Match Punctuation ''.'' ts1
       then rbind (parse_part (P_Advance ts1)) (\<lambda>(second, ts2). Inr (TableRef first second, ts2))
       else Inr (TableRef first ''*'', ts1))"

definition parse_permission :: "string parser" where
  "parse_permission ts =
     (if \<not> Match Keyword ''READ'' ts \<and> \<not> Match Keyword ''WRITE'' ts \<and> \<not> Match Keyword ''CREATE'' ts
         \<and> \<not> Match Keyword ''DELETE'' ts
      then Inl (Parse_Error ''Expected permission READ, WRITE, CREATE, or DELETE'')
      else Inr (AdvanceValue ts))"

definition ParsePermissions :: "string list parser" where
  "ParsePermissions = comma_list parse_permission"

definition ParseTimestampPart :: "string \<Rightarrow> nat \<Rightarrow> string parser" where
  "ParseTimestampPart name expected_length ts =
     (if \<not> MatchType IntegerLiteral ts then Inl (got (''Expected '' @ name @ '' in timestamp'') ts)
      else (case AdvanceValue ts of (value, ts1) \<Rightarrow>
        if length value \<noteq> expected_length
        then Inl (Parse_Error (''Expected '' @ show_nat expected_length @ '' digits for '' @ name
                    @ '' in timestamp''))
        else Inr (value, ts1)))"

text \<open>The parts of a timestamp, each but the first after its separator.\<close>

definition timestamp_parts :: "(string \<times> string \<times> nat) list" where
  "timestamp_parts =
     [(''.'', ''month'', 2), (''.'', ''day'', 2), (''-'', ''hour'', 2), ('':'', ''minute'', 2),
      ('':'', ''second'', 2), (''.'', ''millisecond'', 3)]"

fun parse_parts :: "(string \<times> string \<times> nat) list \<Rightarrow> string parser" where
  "parse_parts [] ts = Inr ([], ts)"
| "parse_parts ((sep, name, n) # ps) ts =
     rbind (ExpectPunctuation sep ts) (\<lambda>ts1.
       rbind (ParseTimestampPart name n ts1) (\<lambda>(v, ts2).
         rbind (parse_parts ps ts2) (\<lambda>(r, ts3). Inr (sep @ v @ r, ts3))))"

definition ParseTimestamp :: "string parser" where
  "ParseTimestamp ts =
     rbind (ParseTimestampPart ''year'' 4 ts) (\<lambda>(v, ts1).
       rbind (parse_parts timestamp_parts ts1) (\<lambda>(r, ts2). Inr (v @ r, ts2)))"

section \<open>Expressions\<close>

definition ParseLiteral :: "sql_literal parser" where
  "ParseLiteral ts =
     (let current = P_Peek ts
      in if tok_type current = StringLiteral then Inr (Literal StringLit (tok_value current), P_Advance ts)
         else if tok_type current = IntegerLiteral then Inr (Literal IntegerLit (tok_value current), P_Advance ts)
         else if Match Keyword ''NULL'' ts then Inr (Literal NullLit ''NULL'', P_Advance ts)
         else Inl (got ''Expected literal'' ts))"

definition ParseValue :: "expression parser" where
  "ParseValue ts =
     (if tok_type (P_Peek ts) = Identifier
      then (case AdvanceValue ts of (v, ts1) \<Rightarrow> Inr (IdentifierExpr v, ts1))
      else rbind (ParseLiteral ts) (\<lambda>(l, ts1). Inr (LiteralExpr l, ts1)))"

definition ParseAggregateFunction :: "string \<Rightarrow> aggregate result" where
  "ParseAggregateFunction f =
     (if f = ''SUM'' then Inr AggSum else if f = ''COUNT'' then Inr AggCount
      else if f = ''AVG'' then Inr AggAvg else Inl (Parse_Error (''Unknown aggregate function: '' @ f)))"

definition ParseExpression :: "expression parser" where
  "ParseExpression ts =
     (if Match Keyword ''SUM'' ts \<or> Match Keyword ''COUNT'' ts \<or> Match Keyword ''AVG'' ts
      then (case AdvanceValue ts of (func, ts1) \<Rightarrow>
        rbind (ExpectPunctuation ''('' ts1) (\<lambda>ts2.
          rbind (ParseIdentifier ts2) (\<lambda>(col, ts3).
            rbind (ExpectPunctuation '')'' ts3) (\<lambda>ts4.
              rbind (ParseAggregateFunction func) (\<lambda>f. Inr (AggregateExpr f col, ts4))))))
      else ParseValue ts)"

section \<open>Conditions\<close>

definition ParseComparisonOperator :: "string \<Rightarrow> comparison result" where
  "ParseComparisonOperator op =
     (if op = ''=='' then Inr OpEqual else if op = ''!='' then Inr OpNotEqual
      else if op = ''<'' then Inr OpLess else if op = ''>'' then Inr OpGreater
      else if op = ''<='' then Inr OpLessEqual else if op = ''>='' then Inr OpGreaterEqual
      else Inl (Parse_Error (''Unknown operator: '' @ op)))"

text \<open>The part of \<open>ParsePredicate\<close> after its parenthesis case.\<close>

definition parse_comparison :: "condition parser" where
  "parse_comparison ts =
     rbind (ParseValue ts) (\<lambda>(value, ts1).
       if Match Keyword ''BETWEEN'' ts1 then
         rbind (ParseValue (P_Advance ts1)) (\<lambda>(lower, ts2).
           rbind (ExpectKeyword ''AND'' ts2) (\<lambda>ts3.
             rbind (ParseValue ts3) (\<lambda>(upper, ts4). Inr (BetweenCondition value lower upper, ts4))))
       else if Match Keyword ''LIKE'' ts1 then
         (if \<not> MatchType StringLiteral (P_Advance ts1)
          then Inl (Parse_Error ''Expected string literal after LIKE'')
          else (case AdvanceValue (P_Advance ts1) of (pat, ts2) \<Rightarrow> Inr (LikeCondition value pat, ts2)))
       else if MatchType Operator ts1 then
         (case AdvanceValue ts1 of (op, ts2) \<Rightarrow>
            rbind (ParseValue ts2) (\<lambda>(right, ts3).
              rbind (ParseComparisonOperator op) (\<lambda>c. Inr (ComparisonCondition value c right, ts3))))
       else Inl (Parse_Error ''Expected comparison operator, BETWEEN, or LIKE''))"

text \<open>The loop of \<open>ParseOrCondition\<close> and \<open>ParseAndCondition\<close>: it associates to the left.\<close>

fun operands :: "nat \<Rightarrow> string \<Rightarrow> (condition \<Rightarrow> condition \<Rightarrow> condition) \<Rightarrow> condition parser \<Rightarrow>
    condition \<Rightarrow> condition parser" where
  "operands n kw con p left ts =
     (if Match Keyword kw ts
      then (case n of 0 \<Rightarrow> Inl no_end
            | Suc m \<Rightarrow> rbind (p (P_Advance ts)) (\<lambda>(right, ts1). operands m kw con p (con left right) ts1))
      else Inr (left, ts))"

declare operands.simps [simp del]

definition ParseAndCondition :: "condition parser \<Rightarrow> condition parser" where
  "ParseAndCondition predicate ts =
     rbind (predicate ts) (\<lambda>(left, ts1). operands (length ts) ''AND'' AndCondition predicate left ts1)"

definition ParseOrCondition :: "condition parser \<Rightarrow> condition parser" where
  "ParseOrCondition predicate ts =
     rbind (ParseAndCondition predicate ts) (\<lambda>(left, ts1).
       operands (length ts) ''OR'' OrCondition (ParseAndCondition predicate) left ts1)"

text \<open>Parentheses nest at most as deep as there are tokens.\<close>

fun ParsePredicate :: "nat \<Rightarrow> condition parser" where
  "ParsePredicate n ts =
     (if Match Punctuation ''('' ts
      then (case n of 0 \<Rightarrow> Inl no_end
            | Suc m \<Rightarrow> rbind (ParseOrCondition (ParsePredicate m) (P_Advance ts)) (\<lambda>(c, ts1).
                rbind (ExpectPunctuation '')'' ts1) (\<lambda>ts2. Inr (c, ts2))))
      else parse_comparison ts)"

declare ParsePredicate.simps [simp del]

definition ParseCondition :: "condition parser" where
  "ParseCondition ts = ParseOrCondition (ParsePredicate (length ts)) ts"

section \<open>Statements\<close>

definition ParseColumnDefinition :: "column_def parser" where
  "ParseColumnDefinition ts =
     rbind (ParseIdentifier ts) (\<lambda>(name, ts1).
       if \<not> Match Keyword ''INT'' ts1 \<and> \<not> Match Keyword ''STRING'' ts1
       then Inl (Parse_Error ''Expected column type (INT or STRING)'')
       else (case AdvanceValue ts1 of (type_str, ts2) \<Rightarrow>
         let nn = Match Keyword ''NOT_NULL'' ts2;
             ts3 = (if nn then P_Advance ts2 else ts2);
             ix = Match Keyword ''INDEXED'' ts3;
             ts4 = (if ix then P_Advance ts3 else ts3);
             def = \<lparr>DefName = name, DefType = (if type_str = ''INT'' then IntDef else StringDef),
                    DefNotNull = nn, DefIndexed = ix, DefDefault = None\<rparr>
         in if Match Keyword ''DEFAULT'' ts4
            then rbind (ParseLiteral (P_Advance ts4)) (\<lambda>(l, ts5). Inr (def\<lparr>DefDefault := Some l\<rparr>, ts5))
            else Inr (def, ts4)))"

definition ParseCreateStatement :: "statement parser" where
  "ParseCreateStatement ts =
     rbind (ExpectKeyword ''CREATE'' ts) (\<lambda>ts1.
       if Match Keyword ''DATABASE'' ts1 then
         rbind (ParseIdentifier (P_Advance ts1)) (\<lambda>(db, ts2). Inr (CreateDatabaseStmt db, ts2))
       else if Match Keyword ''USER'' ts1 then
         rbind (ParseIdentifier (P_Advance ts1)) (\<lambda>(username, ts2).
           rbind (ExpectKeyword ''PASSWORD'' ts2) (\<lambda>ts3.
             if \<not> MatchType StringLiteral ts3 then Inl (Parse_Error ''Expected password string literal'')
             else (case AdvanceValue ts3 of (pw, ts4) \<Rightarrow> Inr (CreateUserStmt username pw, ts4))))
       else if Match Keyword ''TABLE'' ts1 then
         rbind (ParseTableRef (P_Advance ts1)) (\<lambda>(tab, ts2).
           rbind (ExpectPunctuation ''('' ts2) (\<lambda>ts3.
             rbind (comma_list ParseColumnDefinition ts3) (\<lambda>(cols, ts4).
               rbind (ExpectPunctuation '')'' ts4) (\<lambda>ts5. Inr (CreateTableStmt tab cols, ts5)))))
       else Inl (Parse_Error ''Expected DATABASE or TABLE after CREATE''))"

text \<open>\<open>ParseGrantStatement\<close> and \<open>ParseRevokeStatement\<close>, which differ in two keywords.\<close>

definition parse_access :: "string \<Rightarrow> string \<Rightarrow> (string list \<Rightarrow> table_ref \<Rightarrow> string \<Rightarrow> statement) \<Rightarrow> statement parser" where
  "parse_access kw direction con ts =
     rbind (ExpectKeyword kw ts) (\<lambda>ts1.
       rbind (ParsePermissions ts1) (\<lambda>(perms, ts2).
         rbind (ExpectKeyword ''ON'' ts2) (\<lambda>ts3.
           rbind (ParseAccessScope ts3) (\<lambda>(scope, ts4).
             rbind (ExpectKeyword direction ts4) (\<lambda>ts5.
               rbind (ParseIdentifier ts5) (\<lambda>(username, ts6). Inr (con perms scope username, ts6)))))))"

definition ParseGrantStatement :: "statement parser" where
  "ParseGrantStatement = parse_access ''GRANT'' ''TO'' GrantStmt"

definition ParseRevokeStatement :: "statement parser" where
  "ParseRevokeStatement = parse_access ''REVOKE'' ''FROM'' RevokeStmt"

definition ParseDropStatement :: "statement parser" where
  "ParseDropStatement ts =
     rbind (ExpectKeyword ''DROP'' ts) (\<lambda>ts1.
       if Match Keyword ''DATABASE'' ts1 then
         rbind (ParseIdentifier (P_Advance ts1)) (\<lambda>(db, ts2). Inr (DropDatabaseStmt db, ts2))
       else if Match Keyword ''TABLE'' ts1 then
         rbind (ParseTableRef (P_Advance ts1)) (\<lambda>(tab, ts2). Inr (DropTableStmt tab, ts2))
       else Inl (Parse_Error ''Expected DATABASE or TABLE after DROP''))"

definition ParseUseStatement :: "statement parser" where
  "ParseUseStatement ts =
     rbind (ExpectKeyword ''USE'' ts) (\<lambda>ts1.
       rbind (ParseIdentifier ts1) (\<lambda>(db, ts2). Inr (UseDatabaseStmt db, ts2)))"

definition ParseRevertStatement :: "statement parser" where
  "ParseRevertStatement ts =
     rbind (ExpectKeyword ''REVERT'' ts) (\<lambda>ts1.
       rbind (ParseTableRef ts1) (\<lambda>(tab, ts2).
         rbind (ParseTimestamp ts2) (\<lambda>(time, ts3). Inr (RevertStmt tab time, ts3))))"

definition parse_row :: "sql_literal list parser" where
  "parse_row ts =
     rbind (ExpectPunctuation ''('' ts) (\<lambda>ts1.
       rbind (comma_list ParseLiteral ts1) (\<lambda>(row, ts2).
         rbind (ExpectPunctuation '')'' ts2) (\<lambda>ts3. Inr (row, ts3))))"

text \<open>The \<open>do ... while\<close> loop over the rows skips a comma before each row, the first one included.\<close>

fun parse_rows :: "nat \<Rightarrow> sql_literal list list parser" where
  "parse_rows n ts =
     (let ts1 = (if Match Punctuation '','' ts then P_Advance ts else ts)
      in rbind (parse_row ts1) (\<lambda>(row, ts2).
           if Match Punctuation '','' ts2
           then (case n of 0 \<Rightarrow> Inl no_end
                 | Suc m \<Rightarrow> rbind (parse_rows m ts2) (\<lambda>(rows, ts3). Inr (row # rows, ts3)))
           else Inr ([row], ts2)))"

declare parse_rows.simps [simp del]

definition ParseInsertStatement :: "statement parser" where
  "ParseInsertStatement ts =
     rbind (ExpectKeyword ''INSERT'' ts) (\<lambda>ts1.
       rbind (ExpectKeyword ''INTO'' ts1) (\<lambda>ts2.
         rbind (ParseTableRef ts2) (\<lambda>(tab, ts3).
           rbind (ExpectPunctuation ''('' ts3) (\<lambda>ts4.
             rbind (comma_list ParseIdentifier ts4) (\<lambda>(cols, ts5).
               rbind (ExpectPunctuation '')'' ts5) (\<lambda>ts6.
                 rbind (ExpectKeyword ''VALUE'' ts6) (\<lambda>ts7.
                   rbind (parse_rows (length ts7) ts7) (\<lambda>(rows, ts8).
                     Inr (InsertStmt tab cols rows, ts8)))))))))"

definition parse_assignment :: "(string \<times> expression) parser" where
  "parse_assignment ts =
     rbind (ParseIdentifier ts) (\<lambda>(col, ts1).
       rbind (ExpectOperator ''='' ts1) (\<lambda>ts2.
         rbind (ParseValue ts2) (\<lambda>(value, ts3). Inr ((col, value), ts3))))"

definition ParseUpdateStatement :: "statement parser" where
  "ParseUpdateStatement ts =
     rbind (ExpectKeyword ''UPDATE'' ts) (\<lambda>ts1.
       rbind (ParseTableRef ts1) (\<lambda>(tab, ts2).
         rbind (ExpectKeyword ''SET'' ts2) (\<lambda>ts3.
           rbind (comma_list parse_assignment ts3) (\<lambda>(assigns, ts4).
             rbind (ExpectKeyword ''WHERE'' ts4) (\<lambda>ts5.
               rbind (ParseCondition ts5) (\<lambda>(c, ts6). Inr (UpdateStmt tab assigns (Some c), ts6)))))))"

definition ParseDeleteStatement :: "statement parser" where
  "ParseDeleteStatement ts =
     rbind (ExpectKeyword ''DELETE'' ts) (\<lambda>ts1.
       rbind (ExpectKeyword ''FROM'' ts1) (\<lambda>ts2.
         rbind (ParseTableRef ts2) (\<lambda>(tab, ts3).
           rbind (ExpectKeyword ''WHERE'' ts3) (\<lambda>ts4.
             rbind (ParseCondition ts4) (\<lambda>(c, ts5). Inr (DeleteStmt tab (Some c), ts5))))))"

definition parse_item :: "select_item parser" where
  "parse_item ts =
     rbind (ParseExpression ts) (\<lambda>(e, ts1).
       if Match Keyword ''AS'' ts1
       then rbind (ParseIdentifier (P_Advance ts1)) (\<lambda>(alias, ts2). Inr (SelectItem e alias, ts2))
       else Inr (SelectItem e [], ts1))"

definition ParseSelectStatement :: "statement parser" where
  "ParseSelectStatement ts =
     rbind (ExpectKeyword ''SELECT'' ts) (\<lambda>ts1.
       rbind (if Match Operator ''*'' ts1 then Inr ((True, []), P_Advance ts1)
              else rmap (\<lambda>(items, r). ((False, items), r)) (comma_list parse_item ts1))
         (\<lambda>((all, items), ts2).
           rbind (ExpectKeyword ''FROM'' ts2) (\<lambda>ts3.
             rbind (ParseTableRef ts3) (\<lambda>(tab, ts4).
               if Match Keyword ''WHERE'' ts4
               then rbind (ParseCondition (P_Advance ts4)) (\<lambda>(c, ts5). Inr (SelectStmt all items tab (Some c), ts5))
               else Inr (SelectStmt all items tab None, ts4)))))"

definition statement_parser :: "string \<Rightarrow> statement parser" where
  "statement_parser keyword =
     (if keyword = ''CREATE'' then ParseCreateStatement
      else if keyword = ''DROP'' then ParseDropStatement
      else if keyword = ''USE'' then ParseUseStatement
      else if keyword = ''GRANT'' then ParseGrantStatement
      else if keyword = ''REVOKE'' then ParseRevokeStatement
      else if keyword = ''REVERT'' then ParseRevertStatement
      else if keyword = ''INSERT'' then ParseInsertStatement
      else if keyword = ''UPDATE'' then ParseUpdateStatement
      else if keyword = ''DELETE'' then ParseDeleteStatement
      else if keyword = ''SELECT'' then ParseSelectStatement
      else (\<lambda>_. Inl (Parse_Error (''Unknown statement: '' @ keyword))))"

definition ParseStatement :: "token list \<Rightarrow> statement result" where
  "ParseStatement ts =
     (if P_IsAtEnd ts then Inl (Parse_Error ''Unexpected end of input'')
      else if tok_type (P_Peek ts) \<noteq> Keyword
        then Inl (Parse_Error (''Expected statement, got: '' @ tok_value (P_Peek ts)))
      else rbind (statement_parser (tok_value (P_Peek ts)) ts) (\<lambda>(stmt, ts1).
        let ts2 = (if Match Punctuation '';'' ts1 then P_Advance ts1 else ts1)
        in if \<not> P_IsAtEnd ts2
           then Inl (Parse_Error (''Unexpected tokens after statement: '' @ tok_value (P_Peek ts2)))
           else Inr stmt))"

end
