(* ===== verification/Sql_Print.thy ===== *)
theory Sql_Print
  imports Sql_Parser
begin

text \<open>
  Printing a statement as tokens, the specification the parser is proved against, and the round
  trip: the parser gives back every well-formed statement from its tokens, and with the lexer from
  its text.
\<close>

section \<open>Parsing depends on kinds and values only\<close>

type_synonym kv = "token_type \<times> string"

abbreviation kv :: "token list \<Rightarrow> kv list" where
  "kv ts \<equiv> map kind_value ts"

fun typeK :: "kv list \<Rightarrow> token_type" where
  "typeK [] = EndOfFile" | "typeK ((t, v) # k) = t"

fun valueK :: "kv list \<Rightarrow> string" where
  "valueK [] = []" | "valueK ((t, v) # k) = v"

fun advK :: "kv list \<Rightarrow> kv list" where
  "advK [] = []" | "advK ((t, v) # k) = (if t = EndOfFile then (t, v) # k else k)"

definition matchK :: "token_type \<Rightarrow> string \<Rightarrow> kv list \<Rightarrow> bool" where
  "matchK ty v k \<longleftrightarrow> typeK k = ty \<and> ty \<noteq> EndOfFile \<and> (v \<noteq> [] \<longrightarrow> valueK k = v)"

lemma kv_reads [simp]:
  "tok_type (P_Peek ts) = typeK (kv ts)" "tok_value (P_Peek ts) = valueK (kv ts)"
  "P_IsAtEnd ts = (typeK (kv ts) = EndOfFile)" "kv (P_Advance ts) = advK (kv ts)"
  "MatchType ty ts = (typeK (kv ts) = ty \<and> ty \<noteq> EndOfFile)" "Match ty v ts = matchK ty v (kv ts)"
  by (cases ts; auto simp: P_Peek_def P_IsAtEnd_def P_Advance_def MatchType_def Match_def matchK_def
      kind_value_def eof_token_def mk_token_def)+

lemma AdvanceValue_kv [simp]: "typeK (kv ts) \<noteq> EndOfFile \<Longrightarrow> AdvanceValue ts = (valueK (kv ts), P_Advance ts)"
  by (cases ts) (auto simp: AdvanceValue_def P_Advance_def P_IsAtEnd_def P_Peek_def kind_value_def)

lemma matchK_Cons [simp]: "matchK ty v ((t, w) # k) \<longleftrightarrow> t = ty \<and> ty \<noteq> EndOfFile \<and> (v \<noteq> [] \<longrightarrow> w = v)"
  by (auto simp: matchK_def)

lemma matchK_Nil [simp]: "\<not> matchK ty v []"
  by (simp add: matchK_def)

text \<open>\<open>yields r x k\<close>: the parse gave \<open>x\<close> and left the tokens \<open>k\<close>.\<close>

definition yields :: "('a \<times> token list) result \<Rightarrow> 'a \<Rightarrow> kv list \<Rightarrow> bool" where
  "yields r x k \<longleftrightarrow> (\<exists>ts'. r = Inr (x, ts') \<and> kv ts' = k)"

lemma yields_Inr [simp]: "yields (Inr (x, ts)) y k \<longleftrightarrow> x = y \<and> kv ts = k"
  by (auto simp: yields_def)

lemma yields_bind:
  assumes "yields r x k1" "\<And>ts1. kv ts1 = k1 \<Longrightarrow> yields (f (x, ts1)) y k"
  shows "yields (rbind r f) y k"
  using assms by (auto simp: yields_def)

lemma expect_bind:
  "\<lbrakk>kv ts = (Keyword, v) # k1; \<And>ts1. kv ts1 = k1 \<Longrightarrow> yields (f ts1) y k\<rbrakk> \<Longrightarrow> yields (rbind (ExpectKeyword v ts) f) y k"
  "\<lbrakk>kv ts = (Punctuation, v) # k1; \<And>ts1. kv ts1 = k1 \<Longrightarrow> yields (f ts1) y k\<rbrakk> \<Longrightarrow> yields (rbind (ExpectPunctuation v ts) f) y k"
  "\<lbrakk>kv ts = (Operator, v) # k1; \<And>ts1. kv ts1 = k1 \<Longrightarrow> yields (f ts1) y k\<rbrakk> \<Longrightarrow> yields (rbind (ExpectOperator v ts) f) y k"
  by (simp_all add: ExpectKeyword_def ExpectPunctuation_def ExpectOperator_def)

section \<open>Printing\<close>

abbreviation kw :: "string \<Rightarrow> kv" where "kw s \<equiv> (Keyword, s)"
abbreviation pu :: "string \<Rightarrow> kv" where "pu s \<equiv> (Punctuation, s)"

definition ref_toks :: "table_ref \<Rightarrow> kv list" where
  "ref_toks r = (if RefDatabase r = [] then [(Identifier, RefTable r)]
     else [(Identifier, RefDatabase r), pu ''.'', (Identifier, RefTable r)])"

definition part_tok :: "string \<Rightarrow> kv" where
  "part_tok s = (if s = ''*'' then (Operator, s) else (Identifier, s))"

definition scope_toks :: "table_ref \<Rightarrow> kv list" where
  "scope_toks r = [part_tok (RefDatabase r), pu ''.'', part_tok (RefTable r)]"

fun comma_toks :: "('a \<Rightarrow> kv list) \<Rightarrow> 'a list \<Rightarrow> kv list" where
  "comma_toks f [] = []"
| "comma_toks f [x] = f x"
| "comma_toks f (x # xs) = f x @ pu '','' # comma_toks f xs"

fun lit_tok :: "sql_literal \<Rightarrow> kv" where
  "lit_tok (Literal StringLit s) = (StringLiteral, s)"
| "lit_tok (Literal IntegerLit s) = (IntegerLiteral, s)"
| "lit_tok (Literal NullLit s) = kw ''NULL''"

fun agg_name :: "aggregate \<Rightarrow> string" where
  "agg_name AggSum = ''SUM''" | "agg_name AggCount = ''COUNT''" | "agg_name AggAvg = ''AVG''"

fun expr_toks :: "expression \<Rightarrow> kv list" where
  "expr_toks (IdentifierExpr s) = [(Identifier, s)]"
| "expr_toks (LiteralExpr l) = [lit_tok l]"
| "expr_toks (AggregateExpr f c) = [kw (agg_name f), pu ''('', (Identifier, c), pu '')'']"

fun op_text :: "comparison \<Rightarrow> string" where
  "op_text OpEqual = ''==''" | "op_text OpNotEqual = ''!=''" | "op_text OpLess = ''<''"
| "op_text OpGreater = ''>''" | "op_text OpLessEqual = ''<=''" | "op_text OpGreaterEqual = ''>=''"

text \<open>
  A condition at a level: 0 where \<open>OR\<close> may stand, 1 where \<open>AND\<close> may, 2 where only a predicate may.
\<close>

fun paren_if :: "bool \<Rightarrow> kv list \<Rightarrow> kv list" where
  "paren_if b k = (if b then pu ''('' # k @ [pu '')''] else k)"

fun cond_toks :: "nat \<Rightarrow> condition \<Rightarrow> kv list" where
  "cond_toks l (OrCondition a b) = paren_if (0 < l) (cond_toks 0 a @ kw ''OR'' # cond_toks 1 b)"
| "cond_toks l (AndCondition a b) = paren_if (1 < l) (cond_toks 1 a @ kw ''AND'' # cond_toks 2 b)"
| "cond_toks l (ComparisonCondition a op b) = expr_toks a @ (Operator, op_text op) # expr_toks b"
| "cond_toks l (BetweenCondition a lo hi) = expr_toks a @ kw ''BETWEEN'' # expr_toks lo @ kw ''AND'' # expr_toks hi"
| "cond_toks l (LikeCondition a p) = expr_toks a @ [kw ''LIKE'', (StringLiteral, p)]"

definition column_toks :: "column_def \<Rightarrow> kv list" where
  "column_toks c = [(Identifier, DefName c), kw (case DefType c of IntDef \<Rightarrow> ''INT'' | StringDef \<Rightarrow> ''STRING'')]
     @ (if DefNotNull c then [kw ''NOT_NULL''] else []) @ (if DefIndexed c then [kw ''INDEXED''] else [])
     @ (case DefDefault c of None \<Rightarrow> [] | Some l \<Rightarrow> [kw ''DEFAULT'', lit_tok l])"

definition row_toks :: "sql_literal list \<Rightarrow> kv list" where
  "row_toks r = pu ''('' # comma_toks (\<lambda>l. [lit_tok l]) r @ [pu '')'']"

definition item_toks :: "select_item \<Rightarrow> kv list" where
  "item_toks i = expr_toks (ItemExpr i) @ (if ItemAlias i = [] then [] else [kw ''AS'', (Identifier, ItemAlias i)])"

text \<open>A timestamp \<open>yyyy.mm.dd-hh:mm:ss.mmm\<close>, part by part.\<close>

fun part_toks :: "(string \<times> string \<times> nat) list \<Rightarrow> string \<Rightarrow> kv list" where
  "part_toks [] t = []"
| "part_toks ((sep, name, n) # ps) t = pu sep # (IntegerLiteral, take n (drop 1 t)) # part_toks ps (drop (n + 1) t)"

fun parts_shape :: "(string \<times> string \<times> nat) list \<Rightarrow> string \<Rightarrow> bool" where
  "parts_shape [] t \<longleftrightarrow> t = []"
| "parts_shape ((sep, name, n) # ps) t \<longleftrightarrow> take 1 t = sep \<and> n < length t \<and> parts_shape ps (drop (n + 1) t)"

definition time_toks :: "string \<Rightarrow> kv list" where
  "time_toks t = (IntegerLiteral, take 4 t) # part_toks timestamp_parts (drop 4 t)"

fun where_toks :: "condition option \<Rightarrow> kv list" where
  "where_toks None = []" | "where_toks (Some c) = kw ''WHERE'' # cond_toks 0 c"

fun stmt_toks :: "statement \<Rightarrow> kv list" where
  "stmt_toks (CreateDatabaseStmt n) = [kw ''CREATE'', kw ''DATABASE'', (Identifier, n)]"
| "stmt_toks (DropDatabaseStmt n) = [kw ''DROP'', kw ''DATABASE'', (Identifier, n)]"
| "stmt_toks (UseDatabaseStmt n) = [kw ''USE'', (Identifier, n)]"
| "stmt_toks (CreateUserStmt n p) =
     [kw ''CREATE'', kw ''USER'', (Identifier, n), kw ''PASSWORD'', (StringLiteral, p)]"
| "stmt_toks (GrantStmt ps s u) = kw ''GRANT'' # comma_toks (\<lambda>p. [kw p]) ps @ kw ''ON'' # scope_toks s @
     [kw ''TO'', (Identifier, u)]"
| "stmt_toks (RevokeStmt ps s u) = kw ''REVOKE'' # comma_toks (\<lambda>p. [kw p]) ps @ kw ''ON'' # scope_toks s @
     [kw ''FROM'', (Identifier, u)]"
| "stmt_toks (RevertStmt r t) = kw ''REVERT'' # ref_toks r @ time_toks t"
| "stmt_toks (CreateTableStmt r cs) =
     kw ''CREATE'' # kw ''TABLE'' # ref_toks r @ pu ''('' # comma_toks column_toks cs @ [pu '')'']"
| "stmt_toks (DropTableStmt r) = kw ''DROP'' # kw ''TABLE'' # ref_toks r"
| "stmt_toks (InsertStmt r cs rows) = kw ''INSERT'' # kw ''INTO'' # ref_toks r @
     pu ''('' # comma_toks (\<lambda>c. [(Identifier, c)]) cs @ pu '')'' # kw ''VALUE'' # comma_toks row_toks rows"
| "stmt_toks (UpdateStmt r as w) = kw ''UPDATE'' # ref_toks r @
     kw ''SET'' # comma_toks (\<lambda>(c, e). (Identifier, c) # (Operator, ''='') # expr_toks e) as @ where_toks w"
| "stmt_toks (DeleteStmt r w) = kw ''DELETE'' # kw ''FROM'' # ref_toks r @ where_toks w"
| "stmt_toks (SelectStmt all items r w) = kw ''SELECT'' #
     (if all then [(Operator, ''*'')] else comma_toks item_toks items) @ kw ''FROM'' # ref_toks r @ where_toks w"

section \<open>The statements that can be written\<close>

fun wf_literal :: "sql_literal \<Rightarrow> bool" where
  "wf_literal (Literal ty s) \<longleftrightarrow> (ty = NullLit \<longrightarrow> s = ''NULL'')"

fun wf_value :: "expression \<Rightarrow> bool" where
  "wf_value (IdentifierExpr s) \<longleftrightarrow> True"
| "wf_value (LiteralExpr l) \<longleftrightarrow> wf_literal l"
| "wf_value (AggregateExpr f c) \<longleftrightarrow> False"

fun wf_expr :: "expression \<Rightarrow> bool" where
  "wf_expr (AggregateExpr f c) \<longleftrightarrow> True"
| "wf_expr e \<longleftrightarrow> wf_value e"

fun wf_cond :: "condition \<Rightarrow> bool" where
  "wf_cond (OrCondition a b) \<longleftrightarrow> wf_cond a \<and> wf_cond b"
| "wf_cond (AndCondition a b) \<longleftrightarrow> wf_cond a \<and> wf_cond b"
| "wf_cond (ComparisonCondition a op b) \<longleftrightarrow> wf_value a \<and> wf_value b"
| "wf_cond (BetweenCondition a lo hi) \<longleftrightarrow> wf_value a \<and> wf_value lo \<and> wf_value hi"
| "wf_cond (LikeCondition a p) \<longleftrightarrow> wf_value a"

fun wf_where :: "condition option \<Rightarrow> bool" where
  "wf_where None \<longleftrightarrow> False" | "wf_where (Some c) \<longleftrightarrow> wf_cond c"

definition wf_perms :: "string list \<Rightarrow> bool" where
  "wf_perms ps \<longleftrightarrow> ps \<noteq> [] \<and> list_all (\<lambda>p. p \<in> {''READ'', ''WRITE'', ''CREATE'', ''DELETE''}) ps"

fun wf_stmt :: "statement \<Rightarrow> bool" where
  "wf_stmt (GrantStmt ps s u) \<longleftrightarrow> wf_perms ps"
| "wf_stmt (RevokeStmt ps s u) \<longleftrightarrow> wf_perms ps"
| "wf_stmt (RevertStmt r t) \<longleftrightarrow> 4 \<le> length t \<and> parts_shape timestamp_parts (drop 4 t)"
| "wf_stmt (CreateTableStmt r cs) \<longleftrightarrow> cs \<noteq> [] \<and>
     list_all (\<lambda>c. case DefDefault c of None \<Rightarrow> True | Some l \<Rightarrow> wf_literal l) cs"
| "wf_stmt (InsertStmt r cs rows) \<longleftrightarrow> cs \<noteq> [] \<and> rows \<noteq> [] \<and> list_all (\<lambda>w. w \<noteq> [] \<and> list_all wf_literal w) rows"
| "wf_stmt (UpdateStmt r as w) \<longleftrightarrow> as \<noteq> [] \<and> list_all (\<lambda>(c, e). wf_value e) as \<and> wf_where w"
| "wf_stmt (DeleteStmt r w) \<longleftrightarrow> wf_where w"
| "wf_stmt (SelectStmt all items r w) \<longleftrightarrow> (all \<longleftrightarrow> items = []) \<and> list_all (\<lambda>i. wf_expr (ItemExpr i)) items \<and>
     (w = None \<or> wf_where w)"
| "wf_stmt _ \<longleftrightarrow> True"

text \<open>The names are identifiers of the lexer, and no string contains a quote.\<close>

definition writable_stmt :: "statement \<Rightarrow> bool" where
  "writable_stmt s \<longleftrightarrow> wf_stmt s \<and> list_all lexable (stmt_toks s)"

section \<open>Small parsers\<close>

lemma ParseIdentifier_yields: "kv ts = (Identifier, v) # k \<Longrightarrow> yields (ParseIdentifier ts) v k"
  by (simp add: ParseIdentifier_def)

lemma ParseLiteral_yields: "kv ts = lit_tok l # k \<Longrightarrow> wf_literal l \<Longrightarrow> yields (ParseLiteral ts) l k"
  by (cases l rule: lit_tok.cases) (simp_all add: ParseLiteral_def Let_def)

lemma ParseValue_yields: "kv ts = expr_toks e @ k \<Longrightarrow> wf_value e \<Longrightarrow> yields (ParseValue ts) e k"
proof (cases e)
  case (LiteralExpr l)
  assume a: "kv ts = expr_toks e @ k" "wf_value e"
  have "typeK (kv ts) \<noteq> Identifier" using a(1) LiteralExpr by (cases l rule: lit_tok.cases) auto
  moreover have "yields (ParseLiteral ts) l k" using a LiteralExpr by (intro ParseLiteral_yields) auto
  ultimately show ?thesis using LiteralExpr by (auto simp: ParseValue_def yields_def)
qed (simp_all add: ParseValue_def)

lemma ParseExpression_yields: "kv ts = expr_toks e @ k \<Longrightarrow> wf_expr e \<Longrightarrow> yields (ParseExpression ts) e k"
proof (cases e)
  case (AggregateExpr f c)
  assume a: "kv ts = expr_toks e @ k" "wf_expr e"
  have f: "ParseAggregateFunction (agg_name f) = Inr f" by (cases f) (simp_all add: ParseAggregateFunction_def)
  have t: "kv (P_Advance ts) = pu ''('' # (Identifier, c) # pu '')'' # k" using a AggregateExpr by simp
  have "Match Keyword ''SUM'' ts \<or> Match Keyword ''COUNT'' ts \<or> Match Keyword ''AVG'' ts"
    using a AggregateExpr by (cases f) simp_all
  then show ?thesis using a AggregateExpr f t
    by (auto simp: ParseExpression_def intro!: expect_bind yields_bind [OF ParseIdentifier_yields])
next
  case (LiteralExpr l)
  then show "kv ts = expr_toks e @ k \<Longrightarrow> wf_expr e \<Longrightarrow> ?thesis"
    by (cases l rule: lit_tok.cases) (auto simp: ParseExpression_def intro!: ParseValue_yields)
qed (auto simp: ParseExpression_def intro!: ParseValue_yields)

lemma ParseTableRef_yields:
  "kv ts = ref_toks r @ k \<Longrightarrow> \<not> matchK Punctuation ''.'' k \<Longrightarrow> yields (ParseTableRef ts) r k"
  by (auto simp: ParseTableRef_def ref_toks_def TableRef_def split: if_splits
      intro!: yields_bind [OF ParseIdentifier_yields])

lemma parse_part_yields: "kv ts = part_tok v # k \<Longrightarrow> yields (parse_part ts) v k"
  by (auto simp: parse_part_def part_tok_def split: if_splits intro!: ParseIdentifier_yields)

lemma ParseAccessScope_yields: "kv ts = scope_toks r @ k \<Longrightarrow> yields (ParseAccessScope ts) r k"
  by (auto simp: ParseAccessScope_def scope_toks_def TableRef_def intro!: yields_bind [OF parse_part_yields])

section \<open>Lists between commas\<close>

text \<open>\<open>follows\<close> says which tokens may come after an element.\<close>

lemma comma_toks_Cons: "comma_toks f (x # xs) = f x @ concat (map (\<lambda>y. pu '','' # f y) xs)"
  by (induction xs arbitrary: x) simp_all

lemma more_items_yields:
  assumes "\<And>ts x k. x \<in> set xs \<Longrightarrow> kv ts = f x @ k \<Longrightarrow> follows k \<Longrightarrow> yields (p ts) x k"
    and "\<And>k. follows (pu '','' # k)" "follows k" "\<not> matchK Punctuation '','' k"
    and "kv ts = concat (map (\<lambda>y. pu '','' # f y) xs) @ k" "length xs \<le> n"
  shows "yields (more_items n p ts) xs k"
  using assms
proof (induction xs arbitrary: n ts)
  case Nil
  then show ?case by (subst more_items.simps) simp
next
  case (Cons x xs)
  obtain m where n: "n = Suc m" "length xs \<le> m" using Cons.prems(6) by (cases n) auto
  let ?k = "concat (map (\<lambda>y. pu '','' # f y) xs) @ k"
  have "follows ?k" using Cons.prems(2,3) by (cases xs) simp_all
  then have p: "yields (p (P_Advance ts)) x ?k" using Cons.prems(5) by (intro Cons.prems(1)) simp_all
  have "Match Punctuation '','' ts" using Cons.prems(5) by simp
  moreover have q: "yields (more_items m p ts1) xs k" if "kv ts1 = ?k" for ts1
    using Cons.prems(1) that n(2) by (intro Cons.IH [OF _ Cons.prems(2-4)]) simp_all
  ultimately show ?case
    by (subst more_items.simps) (auto simp: n(1) intro!: yields_bind [OF p] yields_bind [OF q])
qed

lemma comma_list_yields:
  assumes "\<And>ts x k. x \<in> set xs \<Longrightarrow> kv ts = f x @ k \<Longrightarrow> follows k \<Longrightarrow> yields (p ts) x k"
    and "\<And>k. follows (pu '','' # k)" "follows k" "\<not> matchK Punctuation '','' k"
    and "kv ts = comma_toks f xs @ k" "xs \<noteq> []"
  shows "yields (comma_list p ts) xs k"
proof -
  obtain y ys where xs: "xs = y # ys" using assms(6) by (cases xs) auto
  let ?k = "concat (map (\<lambda>y. pu '','' # f y) ys) @ k"
  have "follows ?k" using assms(2,3) by (cases ys) simp_all
  then have p: "yields (p ts) y ?k" using assms(5) xs by (intro assms(1)) (simp_all add: comma_toks_Cons)
  have "length ys \<le> length (concat (map (\<lambda>y. pu '','' # f y) ys))" by (induction ys) simp_all
  then have len: "length ys \<le> length ts"
    using arg_cong [OF assms(5), of length] by (simp add: xs comma_toks_Cons)
  have q: "yields (more_items (length ts) p ts1) ys k" if "kv ts1 = ?k" for ts1
    using assms(1) xs that len by (intro more_items_yields [OF _ assms(2-4)]) simp_all
  show ?thesis unfolding comma_list_def xs by (auto intro!: yields_bind [OF p] yields_bind [OF q])
qed

lemma parse_permission_yields:
  "kv ts = [kw v] @ k \<Longrightarrow> v \<in> {''READ'', ''WRITE'', ''CREATE'', ''DELETE''} \<Longrightarrow> yields (parse_permission ts) v k"
  by (auto simp: parse_permission_def)

lemma ParsePermissions_yields:
  assumes "kv ts = comma_toks (\<lambda>p. [kw p]) ps @ k" "wf_perms ps" "\<not> matchK Punctuation '','' k"
  shows "yields (ParsePermissions ts) ps k"
  unfolding ParsePermissions_def
proof (rule comma_list_yields [where follows = "\<lambda>_. True", OF _ _ _ assms(3,1)])
  show "yields (parse_permission ts) x k" if "x \<in> set ps" "kv ts = [kw x] @ k" for ts x k
    using assms(2) that by (intro parse_permission_yields) (auto simp: wf_perms_def list_all_iff)
qed (use assms(2) in \<open>simp_all add: wf_perms_def\<close>)

lemma parse_row_yields:
  assumes "kv ts = row_toks r @ k" "r \<noteq> []" "list_all wf_literal r"
  shows "yields (parse_row ts) r k"
proof -
  have q: "yields (comma_list ParseLiteral ts1) r (pu '')'' # k)"
    if "kv ts1 = comma_toks (\<lambda>l. [lit_tok l]) r @ pu '')'' # k" for ts1
  proof (rule comma_list_yields [where follows = "\<lambda>_. True", OF _ _ _ _ that assms(2)])
    show "yields (ParseLiteral ts) x k" if "x \<in> set r" "kv ts = [lit_tok x] @ k" for ts x k
      using assms(3) that by (intro ParseLiteral_yields) (auto simp: list_all_iff)
  qed simp_all
  show ?thesis using assms(1)
    by (auto simp: parse_row_def row_toks_def simp del: map_eq_Cons_conv intro!: expect_bind yields_bind [OF q])
qed

lemma parse_rows_yields:
  assumes "rows \<noteq> []" "list_all (\<lambda>w. w \<noteq> [] \<and> list_all wf_literal w) rows"
    and "kv ts = comma_toks row_toks rows @ k \<or> kv ts = pu '','' # comma_toks row_toks rows @ k"
    and "\<not> matchK Punctuation '','' k" "length rows \<le> Suc n"
  shows "yields (parse_rows n ts) rows k"
  using assms
proof (induction rows arbitrary: n ts)
  case (Cons r rows)
  let ?k = "(if rows = [] then [] else pu '','' # comma_toks row_toks rows) @ k"
  define ts1 where "ts1 = (if Match Punctuation '','' ts then P_Advance ts else ts)"
  have t: "comma_toks row_toks (r # rows) @ k = row_toks r @ ?k" by (cases rows) simp_all
  have "kv ts1 = row_toks r @ ?k" using Cons.prems(3) unfolding t by (auto simp: ts1_def row_toks_def)
  then have p: "yields (parse_row ts1) r ?k" using Cons.prems(2) by (intro parse_row_yields) simp_all
  show ?case
  proof (cases "rows = []")
    case True
    then show ?thesis using Cons.prems(4) p
      by (subst parse_rows.simps) (unfold Let_def ts1_def [symmetric], rule yields_bind [OF p], auto)
  next
    case False
    then obtain m where n: "n = Suc m" using Cons.prems(5) by (cases n) auto
    have q: "yields (parse_rows m ts2) rows k" if "kv ts2 = pu '','' # comma_toks row_toks rows @ k" for ts2
      using Cons.prems(2,4,5) that n by (intro Cons.IH [OF False]) simp_all
    show ?thesis using False
      by (subst parse_rows.simps) (unfold Let_def ts1_def [symmetric] n, rule yields_bind [OF p],
        auto intro!: yields_bind [OF q])
  qed
qed simp

lemma ParseColumnDefinition_yields:
  assumes "kv ts = column_toks c @ k" "case DefDefault c of None \<Rightarrow> True | Some l \<Rightarrow> wf_literal l" "typeK k \<noteq> Keyword"
  shows "yields (ParseColumnDefinition ts) c k"
proof -
  have m: "\<not> matchK Keyword v k" for v using assms(3) by (simp add: matchK_def)
  have lit: "yields (ParseLiteral (P_Advance ts4)) l k" if "DefDefault c = Some l" "kv ts4 = kw ''DEFAULT'' # lit_tok l # k" for ts4 l
    using that assms(2) by (intro ParseLiteral_yields) simp_all
  show ?thesis using assms(1) m
    unfolding ParseColumnDefinition_def column_toks_def
    by (cases "DefType c"; cases "DefNotNull c"; cases "DefIndexed c"; cases "DefDefault c")
      (auto simp: Let_def intro!: yields_bind [OF ParseIdentifier_yields] yields_bind [OF lit])
qed

lemma parse_item_yields:
  assumes "kv ts = item_toks i @ k" "wf_expr (ItemExpr i)" "\<not> matchK Keyword ''AS'' k"
  shows "yields (parse_item ts) i k"
  using assms
  by (cases i) (auto simp: parse_item_def item_toks_def split: if_splits
      intro!: yields_bind [OF ParseExpression_yields] yields_bind [OF ParseIdentifier_yields])

lemma parse_assignment_yields:
  "kv ts = ((Identifier, c) # (Operator, ''='') # expr_toks e) @ k \<Longrightarrow> wf_value e \<Longrightarrow> yields (parse_assignment ts) (c, e) k"
  by (auto simp: parse_assignment_def intro!: yields_bind [OF ParseIdentifier_yields] expect_bind
      yields_bind [OF ParseValue_yields])

section \<open>Timestamps\<close>

lemma ParseTimestampPart_yields:
  "kv ts = (IntegerLiteral, v) # k \<Longrightarrow> length v = n \<Longrightarrow> yields (ParseTimestampPart name n ts) v k"
  by (simp add: ParseTimestampPart_def)

lemma parse_parts_yields:
  "kv ts = part_toks ps t @ k \<Longrightarrow> parts_shape ps t \<Longrightarrow> yields (parse_parts ps ts) t k"
proof (induction ps arbitrary: t ts)
  case (Cons p ps)
  obtain sep name n where p: "p = (sep, name, n)" by (cases p)
  let ?v = "take n (drop 1 t)" and ?r = "drop (n + 1) t"
  have s: "take 1 t = sep" "n < length t" "parts_shape ps ?r" using Cons.prems(2) p by simp_all
  have "t = sep @ ?v @ ?r" using s(1) by (metis append_take_drop_id drop_drop)
  then have "yields (rbind (ParseTimestampPart name n ts1) (\<lambda>(v, ts2).
      rbind (parse_parts ps ts2) (\<lambda>(r, ts3). Inr (sep @ v @ r, ts3)))) t k"
    if "kv ts1 = (IntegerLiteral, ?v) # part_toks ps ?r @ k" for ts1
    using that s by (auto intro!: yields_bind [OF ParseTimestampPart_yields] yields_bind [OF Cons.IH])
  then show ?case using Cons.prems(1) p by (auto intro!: expect_bind)
qed simp

lemma ParseTimestamp_yields:
  assumes "kv ts = time_toks t @ k" "4 \<le> length t" "parts_shape timestamp_parts (drop 4 t)"
  shows "yields (ParseTimestamp ts) t k"
  using assms
  by (auto simp: ParseTimestamp_def time_toks_def intro!: yields_bind [OF ParseTimestampPart_yields]
      yields_bind [OF parse_parts_yields])

section \<open>Conditions\<close>

text \<open>
  The three levels: after the condition, \<open>ParseAndCondition\<close> and \<open>ParseOrCondition\<close> are in their loop
  with it as the left operand and at least as many rounds left as there are tokens.
\<close>

definition in_loop :: "string \<Rightarrow> (condition \<Rightarrow> condition \<Rightarrow> condition) \<Rightarrow> condition parser \<Rightarrow>
    (condition \<times> token list) result \<Rightarrow> condition \<Rightarrow> kv list \<Rightarrow> bool" where
  "in_loop w con p r c k \<longleftrightarrow> (\<exists>m ts'. r = operands m w con p c ts' \<and> kv ts' = k \<and> length k \<le> m)"

abbreviation pred_parses :: "nat \<Rightarrow> condition \<Rightarrow> bool" where
  "pred_parses l c \<equiv> (\<forall>n ts k. length ts \<le> n \<longrightarrow> kv ts = cond_toks l c @ k \<longrightarrow> yields (ParsePredicate n ts) c k)"

abbreviation and_parses :: "nat \<Rightarrow> condition \<Rightarrow> bool" where
  "and_parses l c \<equiv> (\<forall>n ts k. length ts \<le> n \<longrightarrow> kv ts = cond_toks l c @ k \<longrightarrow>
     in_loop ''AND'' AndCondition (ParsePredicate n) (ParseAndCondition (ParsePredicate n) ts) c k)"

abbreviation or_parses :: "condition \<Rightarrow> bool" where
  "or_parses c \<equiv> (\<forall>n ts k. length ts \<le> n \<longrightarrow> kv ts = cond_toks 0 c @ k \<longrightarrow> \<not> matchK Keyword ''AND'' k \<longrightarrow>
     in_loop ''OR'' OrCondition (ParseAndCondition (ParsePredicate n)) (ParseOrCondition (ParsePredicate n) ts) c k)"

lemma in_loop_done: "in_loop w con p r c k \<Longrightarrow> \<not> matchK Keyword w k \<Longrightarrow> yields r c k"
  by (auto simp: in_loop_def operands.simps)

lemma in_loop_step:
  assumes "in_loop w con p r a (kw w # k1)" "\<And>ts. kv ts = k1 \<Longrightarrow> yields (p ts) b k" "length k \<le> length k1"
  shows "in_loop w con p r (con a b) k"
proof -
  obtain m ts' where r: "r = operands m w con p a ts'" "kv ts' = kw w # k1" "Suc (length k1) \<le> m"
    using assms(1) by (auto simp: in_loop_def)
  then obtain n where m: "m = Suc n" "length k1 \<le> n" by (cases m) auto
  have "kv (P_Advance ts') = k1" using r(2) by simp
  from assms(2) [OF this] obtain ts2 where t: "p (P_Advance ts') = Inr (b, ts2)" "kv ts2 = k" by (auto simp: yields_def)
  have "r = operands n w con p (con a b) ts2" using r(1,2) m(1) t(1) by (subst (asm) operands.simps) simp
  then show ?thesis using t(2) m(2) assms(3) unfolding in_loop_def by (intro exI [of _ n] exI [of _ ts2]) simp
qed

lemma and_of_pred:
  assumes "pred_parses 2 c" "cond_toks l c = cond_toks 2 c"
  shows "and_parses l c"
proof (intro allI impI)
  fix n ts k assume a: "length ts \<le> n" "kv ts = cond_toks l c @ k"
  then have "yields (ParsePredicate n ts) c k" using assms by metis
  then obtain ts' where t: "ParsePredicate n ts = Inr (c, ts')" "kv ts' = k" by (auto simp: yields_def)
  have "length k \<le> length ts" using arg_cong [OF a(2), of length] by simp
  then show "in_loop ''AND'' AndCondition (ParsePredicate n) (ParseAndCondition (ParsePredicate n) ts) c k"
    using t by (auto simp: in_loop_def ParseAndCondition_def)
qed

lemma or_of_and:
  assumes "and_parses l c" "cond_toks l c = cond_toks 0 c"
  shows "or_parses c"
proof (intro allI impI)
  fix n ts k assume a: "length ts \<le> n" "kv ts = cond_toks 0 c @ k" "\<not> matchK Keyword ''AND'' k"
  then have "in_loop ''AND'' AndCondition (ParsePredicate n) (ParseAndCondition (ParsePredicate n) ts) c k"
    using assms by metis
  then have "yields (ParseAndCondition (ParsePredicate n) ts) c k" using a(3) by (rule in_loop_done)
  then obtain ts' where t: "ParseAndCondition (ParsePredicate n) ts = Inr (c, ts')" "kv ts' = k" by (auto simp: yields_def)
  have "length k \<le> length ts" using arg_cong [OF a(2), of length] by simp
  then show "in_loop ''OR'' OrCondition (ParseAndCondition (ParsePredicate n)) (ParseOrCondition (ParsePredicate n) ts) c k"
    using t by (auto simp: in_loop_def ParseOrCondition_def)
qed

lemma pred_of_paren:
  assumes "or_parses c" "cond_toks 2 c = pu ''('' # cond_toks 0 c @ [pu '')'']"
  shows "pred_parses 2 c"
proof (intro allI impI)
  fix n ts k assume a: "length ts \<le> n" "kv ts = cond_toks 2 c @ k"
  have len: "length ts = Suc (Suc (length (cond_toks 0 c) + length k))"
    using arg_cong [OF a(2), of length] assms(2) by simp
  then obtain m where n: "n = Suc m" using a(1) by (cases n) auto
  have adv: "kv (P_Advance ts) = cond_toks 0 c @ pu '')'' # k" using a(2) assms(2) by simp
  have "length (P_Advance ts) = length (kv (P_Advance ts))" by (simp only: length_map)
  then have "length (P_Advance ts) \<le> m" using len a(1) n unfolding adv by simp
  then have "in_loop ''OR'' OrCondition (ParseAndCondition (ParsePredicate m))
      (ParseOrCondition (ParsePredicate m) (P_Advance ts)) c (pu '')'' # k)"
    using assms(1) adv by simp
  then have p: "yields (ParseOrCondition (ParsePredicate m) (P_Advance ts)) c (pu '')'' # k)"
    by (rule in_loop_done) simp
  have "Match Punctuation ''('' ts" using a(2) assms(2) by simp
  then show "yields (ParsePredicate n ts) c k"
    by (subst ParsePredicate.simps) (auto simp: n intro!: yields_bind [OF p] expect_bind)
qed

lemma pred_of_comparison:
  assumes "\<And>ts k. kv ts = cond_toks 2 c @ k \<Longrightarrow> yields (parse_comparison ts) c k" "typeK (cond_toks 2 c) \<noteq> Punctuation"
    "cond_toks 2 c \<noteq> []"
  shows "pred_parses 2 c"
proof (intro allI impI)
  fix n ts k assume a: "kv ts = cond_toks 2 c @ k"
  have "\<not> Match Punctuation ''('' ts" using assms(2,3) a by (cases "cond_toks 2 c") (auto simp: matchK_def)
  then show "yields (ParsePredicate n ts) c k" using assms(1) [OF a] by (subst ParsePredicate.simps) simp
qed

lemma expr_toks_first:
  "wf_value e \<Longrightarrow> expr_toks e \<noteq> [] \<and> typeK (expr_toks e @ k) \<noteq> Punctuation"
proof (cases e)
  case (LiteralExpr l)
  then show ?thesis by (cases l rule: lit_tok.cases) simp_all
qed simp_all

lemma parse_comparison_yields:
  assumes "wf_cond c" "kv ts = cond_toks 2 c @ k" "\<And>a b. c \<noteq> OrCondition a b \<and> c \<noteq> AndCondition a b"
  shows "yields (parse_comparison ts) c k"
proof (cases c)
  case (ComparisonCondition a op b)
  have "ParseComparisonOperator (op_text op) = Inr op" by (cases op) (simp_all add: ParseComparisonOperator_def)
  then show ?thesis using assms ComparisonCondition
    by (auto simp: parse_comparison_def intro!: yields_bind [OF ParseValue_yields])
qed (use assms in \<open>auto simp: parse_comparison_def intro!: yields_bind [OF ParseValue_yields] expect_bind\<close>)

lemma condition_levels: "wf_cond c \<Longrightarrow> or_parses c \<and> and_parses 1 c \<and> pred_parses 2 c"
proof (induction c)
  case (OrCondition a b)
  have "or_parses (OrCondition a b)"
  proof (intro allI impI)
    fix n ts k
    assume l: "length ts \<le> n" and t: "kv ts = cond_toks 0 (OrCondition a b) @ k" and k: "\<not> matchK Keyword ''AND'' k"
    let ?k = "cond_toks 1 b @ k"
    have "in_loop ''OR'' OrCondition (ParseAndCondition (ParsePredicate n)) (ParseOrCondition (ParsePredicate n) ts) a (kw ''OR'' # ?k)"
      using OrCondition l t by simp
    then show "in_loop ''OR'' OrCondition (ParseAndCondition (ParsePredicate n)) (ParseOrCondition (ParsePredicate n) ts) (OrCondition a b) k"
    proof (rule in_loop_step)
      fix ts' assume u: "kv ts' = ?k"
      have "length ts' \<le> n" using arg_cong [OF u, of length] arg_cong [OF t, of length] l by simp
      then have "in_loop ''AND'' AndCondition (ParsePredicate n) (ParseAndCondition (ParsePredicate n) ts') b k"
        using OrCondition u by simp
      then show "yields (ParseAndCondition (ParsePredicate n) ts') b k" using k by (rule in_loop_done)
    qed simp
  qed
  moreover from this have "pred_parses 2 (OrCondition a b)" by (rule pred_of_paren) simp
  moreover from this have "and_parses 1 (OrCondition a b)" by (rule and_of_pred) simp
  ultimately show ?case by blast
next
  case (AndCondition a b)
  have "and_parses 1 (AndCondition a b)"
  proof (intro allI impI)
    fix n ts k
    assume l: "length ts \<le> n" and t: "kv ts = cond_toks 1 (AndCondition a b) @ k"
    let ?k = "cond_toks 2 b @ k"
    have "in_loop ''AND'' AndCondition (ParsePredicate n) (ParseAndCondition (ParsePredicate n) ts) a (kw ''AND'' # ?k)"
      using AndCondition l t by simp
    then show "in_loop ''AND'' AndCondition (ParsePredicate n) (ParseAndCondition (ParsePredicate n) ts) (AndCondition a b) k"
    proof (rule in_loop_step)
      fix ts' assume u: "kv ts' = ?k"
      have "length ts' \<le> n" using arg_cong [OF u, of length] arg_cong [OF t, of length] l by simp
      then show "yields (ParsePredicate n ts') b k" using AndCondition u by simp
    qed simp
  qed
  moreover from this have "or_parses (AndCondition a b)" by (rule or_of_and) simp
  moreover from this have "pred_parses 2 (AndCondition a b)" by (rule pred_of_paren) simp
  ultimately show ?case by blast
next
  case (ComparisonCondition a op b)
  have "pred_parses 2 (ComparisonCondition a op b)"
    using ComparisonCondition expr_toks_first by (intro pred_of_comparison parse_comparison_yields) auto
  moreover from this have "and_parses 1 (ComparisonCondition a op b)" by (rule and_of_pred) simp
  moreover from this have "or_parses (ComparisonCondition a op b)" by (rule or_of_and) simp
  ultimately show ?case by blast
next
  case (BetweenCondition a lo hi)
  have "pred_parses 2 (BetweenCondition a lo hi)"
    using BetweenCondition expr_toks_first by (intro pred_of_comparison parse_comparison_yields) auto
  moreover from this have "and_parses 1 (BetweenCondition a lo hi)" by (rule and_of_pred) simp
  moreover from this have "or_parses (BetweenCondition a lo hi)" by (rule or_of_and) simp
  ultimately show ?case by blast
next
  case (LikeCondition a p)
  have "pred_parses 2 (LikeCondition a p)"
    using LikeCondition expr_toks_first by (intro pred_of_comparison parse_comparison_yields) auto
  moreover from this have "and_parses 1 (LikeCondition a p)" by (rule and_of_pred) simp
  moreover from this have "or_parses (LikeCondition a p)" by (rule or_of_and) simp
  ultimately show ?case by blast
qed

lemma ParseCondition_yields:
  assumes "kv ts = cond_toks 0 c @ k" "wf_cond c" "typeK k \<noteq> Keyword"
  shows "yields (ParseCondition ts) c k"
proof -
  have "\<not> matchK Keyword w k" for w using assms(3) by (simp add: matchK_def)
  then have "in_loop ''OR'' OrCondition (ParseAndCondition (ParsePredicate (length ts)))
      (ParseOrCondition (ParsePredicate (length ts)) ts) c k" "\<not> matchK Keyword ''OR'' k"
    using condition_levels [OF assms(2)] assms(1) by blast+
  then show ?thesis unfolding ParseCondition_def by (rule in_loop_done)
qed

section \<open>Statements\<close>

text \<open>What may come after a statement: nothing of it.\<close>

definition stops :: "kv list \<Rightarrow> bool" where
  "stops k \<longleftrightarrow> typeK k \<noteq> Keyword \<and> \<not> matchK Punctuation ''.'' k \<and> \<not> matchK Punctuation '','' k"

lemma stopsD [simp]:
  "stops k \<Longrightarrow> \<not> matchK Keyword v k" "stops k \<Longrightarrow> \<not> matchK Punctuation ''.'' k" "stops k \<Longrightarrow> \<not> matchK Punctuation '','' k"
  "stops k \<Longrightarrow> typeK k \<noteq> Keyword"
  by (auto simp: stops_def matchK_def)

lemma columns_yields:
  assumes "kv ts = comma_toks column_toks cs @ pu '')'' # k" "cs \<noteq> []"
    "list_all (\<lambda>c. case DefDefault c of None \<Rightarrow> True | Some l \<Rightarrow> wf_literal l) cs"
  shows "yields (comma_list ParseColumnDefinition ts) cs (pu '')'' # k)"
proof (rule comma_list_yields [where follows = "\<lambda>k. typeK k \<noteq> Keyword", OF _ _ _ _ assms(1,2)])
  show "yields (ParseColumnDefinition ts) x k" if "x \<in> set cs" "kv ts = column_toks x @ k" "typeK k \<noteq> Keyword" for ts x k
    using assms(3) that by (intro ParseColumnDefinition_yields) (auto simp: list_all_iff)
qed simp_all

lemma names_yields:
  assumes "kv ts = comma_toks (\<lambda>c. [(Identifier, c)]) cs @ pu '')'' # k" "cs \<noteq> []"
  shows "yields (comma_list ParseIdentifier ts) cs (pu '')'' # k)"
  by (rule comma_list_yields [where follows = "\<lambda>_. True", OF _ _ _ _ assms]) (simp_all add: ParseIdentifier_yields)

lemma assignments_yields:
  assumes "kv ts = comma_toks (\<lambda>(c, e). (Identifier, c) # (Operator, ''='') # expr_toks e) as @ kw ''WHERE'' # k"
    "as \<noteq> []" "list_all (\<lambda>(c, e). wf_value e) as"
  shows "yields (comma_list parse_assignment ts) as (kw ''WHERE'' # k)"
proof (rule comma_list_yields [where follows = "\<lambda>_. True", OF _ _ _ _ assms(1,2)])
  show "yields (parse_assignment ts) x k"
    if "x \<in> set as" "kv ts = (case x of (c, e) \<Rightarrow> (Identifier, c) # (Operator, ''='') # expr_toks e) @ k" for ts x k
    using assms(3) that by (cases x) (auto simp: list_all_iff intro!: parse_assignment_yields)
qed simp_all

lemma items_yields:
  assumes "kv ts = comma_toks item_toks items @ kw ''FROM'' # k" "items \<noteq> []" "list_all (\<lambda>i. wf_expr (ItemExpr i)) items"
  shows "yields (comma_list parse_item ts) items (kw ''FROM'' # k)"
proof (rule comma_list_yields [where follows = "\<lambda>k. \<not> matchK Keyword ''AS'' k", OF _ _ _ _ assms(1,2)])
  show "yields (parse_item ts) x k" if "x \<in> set items" "kv ts = item_toks x @ k" "\<not> matchK Keyword ''AS'' k" for ts x k
    using assms(3) that by (intro parse_item_yields) (auto simp: list_all_iff)
qed simp_all

lemma rows_yields:
  assumes "kv ts = comma_toks row_toks rows @ k" "rows \<noteq> []" "list_all (\<lambda>w. w \<noteq> [] \<and> list_all wf_literal w) rows" "stops k"
  shows "yields (parse_rows (length ts) ts) rows k"
proof (rule parse_rows_yields [OF assms(2,3)])
  have "length rows \<le> length (comma_toks row_toks rows)"
    by (induction row_toks rows rule: comma_toks.induct) (simp_all add: row_toks_def)
  then show "length rows \<le> Suc (length ts)" using arg_cong [OF assms(1), of length] by simp
qed (use assms in simp_all)

text \<open>Each statement starts with its keyword, which selects its parser.\<close>

lemma first_keyword: "\<exists>w r. stmt_toks s = kw w # r \<and> w \<noteq> []"
  by (cases s) simp_all

lemma where_yields:
  assumes "kv ts = where_toks w @ k" "w = Some c" "wf_where w" "stops k"
  shows "yields (ParseCondition (P_Advance ts)) c k"
  using assms by (intro ParseCondition_yields) simp_all

lemmas statement_defs = ParseCreateStatement_def ParseGrantStatement_def ParseRevokeStatement_def
  ParseDropStatement_def ParseUseStatement_def ParseRevertStatement_def ParseInsertStatement_def
  ParseUpdateStatement_def ParseDeleteStatement_def ParseSelectStatement_def parse_access_def

lemma time_toks_first [simp]: "\<not> matchK Punctuation v (time_toks t @ k)"
  by (simp add: time_toks_def)

lemmas yields_parts = expect_bind yields_bind [OF ParseIdentifier_yields] yields_bind [OF ParseTableRef_yields]
  yields_bind [OF ParsePermissions_yields] yields_bind [OF ParseAccessScope_yields]
  yields_bind [OF ParseTimestamp_yields] yields_bind [OF columns_yields] yields_bind [OF names_yields]
  yields_bind [OF assignments_yields] yields_bind [OF rows_yields] yields_bind [OF ParseCondition_yields]

lemma select_head_yields:
  assumes "kv ts = (if all then [(Operator, ''*'')] else comma_toks item_toks items) @ kw ''FROM'' # k"
    "all \<longleftrightarrow> items = []" "list_all (\<lambda>i. wf_expr (ItemExpr i)) items"
  shows "yields (if Match Operator ''*'' ts then Inr ((True, []), P_Advance ts)
    else rmap (\<lambda>(items, r). ((False, items), r)) (comma_list parse_item ts)) (all, items) (kw ''FROM'' # k)"
proof (cases all)
  case False
  then obtain i rest where i: "items = i # rest" using assms(2) by (cases items) auto
  have "wf_expr (ItemExpr i)" using assms(3) i by simp
  then have "typeK (expr_toks (ItemExpr i) @ j) \<noteq> Operator" for j
  proof (cases "ItemExpr i")
    case (LiteralExpr l)
    then show ?thesis by (cases l rule: lit_tok.cases) simp_all
  qed simp_all
  then have "\<not> Match Operator ''*'' ts" using assms(1) False i
    by (cases rest) (simp_all add: matchK_def item_toks_def)
  moreover have "yields (comma_list parse_item ts) items (kw ''FROM'' # k)"
    using assms False i by (intro items_yields) simp_all
  ultimately show ?thesis using False by (auto simp: yields_def)
qed (use assms in simp)

lemma select_tail_yields:
  assumes "kv ts = kw ''FROM'' # ref_toks r @ where_toks w @ k" "stops k" "w = None \<or> wf_where w"
  shows "yields (rbind (ExpectKeyword ''FROM'' ts) (\<lambda>ts3. rbind (ParseTableRef ts3) (\<lambda>(tab, ts4).
      if Match Keyword ''WHERE'' ts4
      then rbind (ParseCondition (P_Advance ts4)) (\<lambda>(c, ts5). Inr (SelectStmt all items tab (Some c), ts5))
      else Inr (SelectStmt all items tab None, ts4)))) (SelectStmt all items r w) k"
proof (cases w)
  case None
  then show ?thesis using assms by (auto intro!: expect_bind yields_bind [OF ParseTableRef_yields])
next
  case (Some c)
  then show ?thesis using assms
    by (auto intro!: expect_bind yields_bind [OF ParseTableRef_yields [of _ r "kw ''WHERE'' # cond_toks 0 c @ k"]]
        yields_bind [OF ParseCondition_yields])
qed

lemma select_yields:
  assumes "kv ts = stmt_toks (SelectStmt all items r w) @ k" "wf_stmt (SelectStmt all items r w)" "stops k"
  shows "yields (ParseSelectStatement ts) (SelectStmt all items r w) k"
  unfolding ParseSelectStatement_def
proof (rule expect_bind(1))
  let ?k = "ref_toks r @ where_toks w @ k"
  show "kv ts = kw ''SELECT'' # (if all then [(Operator, ''*'')] else comma_toks item_toks items) @ kw ''FROM'' # ?k"
    using assms(1) by simp
  fix ts1 assume t: "kv ts1 = (if all then [(Operator, ''*'')] else comma_toks item_toks items) @ kw ''FROM'' # ?k"
  have h: "all \<longleftrightarrow> items = []" "list_all (\<lambda>i. wf_expr (ItemExpr i)) items" "w = None \<or> wf_where w"
    using assms(2) by simp_all
  show "yields (rbind (if Match Operator ''*'' ts1 then Inr ((True, []), P_Advance ts1)
      else rmap (\<lambda>(items, r). ((False, items), r)) (comma_list parse_item ts1))
    (\<lambda>((all, items), ts2). rbind (ExpectKeyword ''FROM'' ts2) (\<lambda>ts3. rbind (ParseTableRef ts3) (\<lambda>(tab, ts4).
      if Match Keyword ''WHERE'' ts4
      then rbind (ParseCondition (P_Advance ts4)) (\<lambda>(c, ts5). Inr (SelectStmt all items tab (Some c), ts5))
      else Inr (SelectStmt all items tab None, ts4))))) (SelectStmt all items r w) k"
    unfolding prod.case
    by (rule yields_bind [OF select_head_yields [OF t h(1,2)]], unfold prod.case, rule select_tail_yields [OF _ assms(3) h(3)])
qed

lemma statement_yields:
  assumes "kv ts = stmt_toks s @ k" "wf_stmt s" "stops k"
  shows "yields (statement_parser (valueK (stmt_toks s)) ts) s k"
proof (cases s)
  case (SelectStmt all items r w)
  then show ?thesis using select_yields assms by (simp add: statement_parser_def)
next
  case (UpdateStmt r as w)
  then obtain c where "w = Some c" using assms(2) by (cases w) auto
  then show ?thesis using assms UpdateStmt
    by (auto simp: statement_parser_def statement_defs simp del: map_eq_Cons_conv map_eq_append_conv intro!: yields_parts)
next
  case (DeleteStmt r w)
  then obtain c where "w = Some c" using assms(2) by (cases w) auto
  then show ?thesis using assms DeleteStmt
    by (auto simp: statement_parser_def statement_defs simp del: map_eq_Cons_conv map_eq_append_conv intro!: yields_parts)
qed (use assms in \<open>auto simp: statement_parser_def statement_defs simp del: map_eq_Cons_conv map_eq_append_conv intro!: yields_parts\<close>)

lemma ParseStatement_kv:
  assumes "kv ts = stmt_toks s @ k" "wf_stmt s" "k = [(EndOfFile, v)] \<or> k = [pu '';'', (EndOfFile, v)]"
  shows "ParseStatement ts = Inr s"
proof -
  obtain w r where w: "stmt_toks s = kw w # r" using first_keyword [of s] by (elim exE conjE)
  have k: "stops k" using assms(3) unfolding stops_def by (elim disjE) (simp_all del: stopsD)
  have "yields (statement_parser w ts) s k" using statement_yields [OF assms(1,2) k] unfolding w by simp
  then obtain ts' where t: "statement_parser w ts = Inr (s, ts')" "kv ts' = k" by (auto simp: yields_def)
  have "typeK (kv ts) = Keyword" "valueK (kv ts) = w" unfolding assms(1) w by simp_all
  then have "ParseStatement ts = (let ts2 = (if Match Punctuation '';'' ts' then P_Advance ts' else ts')
      in if \<not> P_IsAtEnd ts2 then Inl (Parse_Error (''Unexpected tokens after statement: '' @ tok_value (P_Peek ts2)))
         else Inr s)"
    using t(1) by (simp add: ParseStatement_def)
  then show ?thesis using assms(3) t(2) by (elim disjE) (simp_all add: Let_def)
qed

end
