(* ===== verification/Sql_Total.thy ===== *)
theory Sql_Total
  imports Sql_Parser
begin

text \<open>
  The loops of the parser end: with the bounds that the model gives them, \<open>no_end\<close> is never a result,
  because every parsing function consumes at least one token when it succeeds.
\<close>

section \<open>Consuming parsers\<close>

definition consumes :: "('a \<times> token list) result \<Rightarrow> nat \<Rightarrow> bool" where
  "consumes r n \<longleftrightarrow> r \<noteq> Inl no_end \<and> (\<forall>x ts'. r = Inr (x, ts') \<longrightarrow> length ts' < n)"

text \<open>\<open>consumer m p\<close>: the parser \<open>p\<close> consumes a token of every input of at most \<open>m\<close> tokens.\<close>

definition consumer :: "nat \<Rightarrow> 'a parser \<Rightarrow> bool" where
  "consumer m p \<longleftrightarrow> (\<forall>ts n. length ts \<le> m \<longrightarrow> length ts \<le> n \<longrightarrow> consumes (p ts) n)"

lemma consumes_simps [simp]:
  "consumes (Inr (x, ts)) n \<longleftrightarrow> length ts < n" "consumes (Inl (Parse_Error e)) n" "consumes (Inl (got e ts)) n"
  by (auto simp: consumes_def no_end_def got_def)

lemma consumes_bind:
  assumes "consumes r n" "\<And>x ts1. length ts1 < n \<Longrightarrow> consumes (f (x, ts1)) n"
  shows "consumes (rbind r f) n"
  using assms by (cases r) (auto simp: consumes_def)

lemma consumes_rmap: "consumes r n \<Longrightarrow> consumes (rmap (\<lambda>(x, ts). (g x, ts)) r) n"
  by (cases r) (auto simp: consumes_def)

lemma advance_shorter:
  "\<not> P_IsAtEnd ts \<Longrightarrow> length (P_Advance ts) < length ts" "length (P_Advance ts) \<le> length ts"
  "\<not> P_IsAtEnd ts \<Longrightarrow> AdvanceValue ts = (tok_value (hd ts), P_Advance ts)"
  by (auto simp: P_Advance_def P_IsAtEnd_def AdvanceValue_def)

lemma Match_inside: "Match ty v ts \<Longrightarrow> \<not> P_IsAtEnd ts" "MatchType ty ts \<Longrightarrow> \<not> P_IsAtEnd ts"
  by (auto simp: Match_def MatchType_def)

lemma Match_advance:
  "Match ty v ts \<Longrightarrow> length ts \<le> n \<Longrightarrow> length (P_Advance ts) < n"
  "MatchType ty ts \<Longrightarrow> length ts \<le> n \<Longrightarrow> length (P_Advance ts) < n"
  using Match_inside advance_shorter(1) by (meson order_less_le_trans)+

lemma expect_consumes:
  assumes "length ts \<le> n" "\<And>ts1. length ts1 < n \<Longrightarrow> consumes (f ts1) n"
  shows "consumes (rbind (ExpectKeyword v ts) f) n" "consumes (rbind (ExpectPunctuation v ts) f) n"
    "consumes (rbind (ExpectOperator v ts) f) n"
  using assms Match_advance(1) [of _ v ts n]
  by (simp_all add: ExpectKeyword_def ExpectPunctuation_def ExpectOperator_def)

lemma consumerI: "(\<And>ts n. length ts \<le> m \<Longrightarrow> length ts \<le> n \<Longrightarrow> consumes (p ts) n) \<Longrightarrow> consumer m p"
  by (simp add: consumer_def)

lemma consumerD: "consumer m p \<Longrightarrow> length ts \<le> m \<Longrightarrow> length ts \<le> n \<Longrightarrow> consumes (p ts) n"
  by (simp add: consumer_def)

lemma advance_le: "length ts < n \<Longrightarrow> length (P_Advance ts) \<le> n" "length ts < n \<Longrightarrow> length (P_Advance ts) < n"
  using advance_shorter(2) [of ts] by simp_all

section \<open>Loops\<close>

lemma more_items_consumes:
  "consumer m p \<Longrightarrow> length ts \<le> m \<Longrightarrow> length ts \<le> f \<Longrightarrow> length ts < n \<Longrightarrow> consumes (more_items f p ts) n"
proof (induction f arbitrary: ts)
  case 0
  then show ?case by (subst more_items.simps) (simp add: Match_def MatchType_def P_IsAtEnd_def)
next
  case (Suc f)
  show ?case
  proof (cases "Match Punctuation '','' ts")
    case True
    have l: "length (P_Advance ts) < length ts" by (rule Match_advance(1) [OF True]) simp
    have p: "consumes (p (P_Advance ts)) (length (P_Advance ts))"
      using Suc.prems(2) l by (intro consumerD [OF Suc.prems(1)]) linarith+
    have "consumes (more_items f p ts1) n" if "length ts1 < length (P_Advance ts)" for ts1
      using Suc.prems l that by (intro Suc.IH) simp_all
    then have "consumes (rbind (more_items f p ts1) (\<lambda>(xs, ts2). Inr (x # xs, ts2))) n"
      if "length ts1 < length (P_Advance ts)" for x ts1
      using that by (auto intro!: consumes_bind)
    then show ?thesis using True p
      by (subst more_items.simps) (cases "p (P_Advance ts)"; auto simp: consumes_def)
  qed (use Suc.prems in \<open>subst more_items.simps, simp\<close>)
qed

lemma comma_list_consumes: "consumer m p \<Longrightarrow> consumer m (comma_list p)"
proof (rule consumerI)
  fix ts :: "token list" and n assume a: "consumer m p" "length ts \<le> m" "length ts \<le> n"
  have p: "consumes (p ts) (length ts)" using a by (intro consumerD) simp_all
  have "consumes (rbind (more_items (length ts) p ts1) (\<lambda>(xs, ts2). Inr (x # xs, ts2))) n"
    if "length ts1 < length ts" for x ts1
    using a that by (intro consumes_bind [OF more_items_consumes [of m]]) auto
  then show "consumes (comma_list p ts) n" using p
    unfolding comma_list_def by (cases "p ts") (auto simp: consumes_def)
qed

lemma operands_consumes:
  "consumer m p \<Longrightarrow> length ts \<le> m \<Longrightarrow> length ts \<le> f \<Longrightarrow> length ts < n \<Longrightarrow> consumes (operands f w con p left ts) n"
proof (induction f arbitrary: ts left)
  case 0
  then show ?case by (subst operands.simps) (simp add: Match_def MatchType_def P_IsAtEnd_def)
next
  case (Suc f)
  show ?case
  proof (cases "Match Keyword w ts")
    case True
    have l: "length (P_Advance ts) < length ts" by (rule Match_advance(1) [OF True]) simp
    have p: "consumes (p (P_Advance ts)) (length (P_Advance ts))"
      using Suc.prems(2) l by (intro consumerD [OF Suc.prems(1)]) linarith+
    have "consumes (operands f w con p (con left x) ts1) n" if "length ts1 < length (P_Advance ts)" for x ts1
      using Suc.prems l that by (intro Suc.IH) simp_all
    then show ?thesis using True p
      by (subst operands.simps) (cases "p (P_Advance ts)"; auto simp: consumes_def)
  qed (use Suc.prems in \<open>subst operands.simps, simp\<close>)
qed

lemma left_assoc_consumes:
  assumes "consumer m p" "consumer m q"
  shows "consumer m (\<lambda>ts. rbind (p ts) (\<lambda>(left, ts1). operands (length ts) w con q left ts1))"
proof (rule consumerI)
  fix ts :: "token list" and n assume a: "length ts \<le> m" "length ts \<le> n"
  have p: "consumes (p ts) (length ts)" using a assms(1) by (intro consumerD) simp_all
  have "consumes (operands (length ts) w con q left ts1) n" if "length ts1 < length ts" for left ts1
    using a that by (intro operands_consumes [OF assms(2)]) simp_all
  then show "consumes (rbind (p ts) (\<lambda>(left, ts1). operands (length ts) w con q left ts1)) n"
    using p by (cases "p ts") (auto simp: consumes_def)
qed

section \<open>Every parsing function\<close>

lemma ParseIdentifier_consumes: "length ts \<le> n \<Longrightarrow> consumes (ParseIdentifier ts) n"
  using Match_advance(2) [of Identifier ts n] by (auto simp: ParseIdentifier_def advance_shorter(3) Match_inside(2))

lemma ParseLiteral_consumes: "length ts \<le> n \<Longrightarrow> consumes (ParseLiteral ts) n"
  using advance_shorter(1) [of ts] Match_advance(1) [of Keyword "''NULL''" ts n]
  by (auto simp: ParseLiteral_def Let_def P_IsAtEnd_def P_Peek_def eof_token_def mk_token_def split: list.splits)

lemma ParseValue_consumes: "length ts \<le> n \<Longrightarrow> consumes (ParseValue ts) n"
proof -
  assume l: "length ts \<le> n"
  show ?thesis
  proof (cases "tok_type (P_Peek ts) = Identifier")
    case True
    then have "\<not> P_IsAtEnd ts" by (cases ts) (auto simp: P_IsAtEnd_def P_Peek_def eof_token_def mk_token_def)
    then show ?thesis using True l advance_shorter(1) [of ts] by (simp add: ParseValue_def advance_shorter(3))
  qed (use l in \<open>auto simp: ParseValue_def intro!: consumes_bind [OF ParseLiteral_consumes]\<close>)
qed

lemma ParseTableRef_consumes: "length ts \<le> n \<Longrightarrow> consumes (ParseTableRef ts) n"
  by (auto simp: ParseTableRef_def intro!: consumes_bind [OF ParseIdentifier_consumes] advance_le)

lemma parse_part_consumes: "length ts \<le> n \<Longrightarrow> consumes (parse_part ts) n"
  using Match_advance(1) by (auto simp: parse_part_def intro!: ParseIdentifier_consumes)

lemma ParseAccessScope_consumes: "length ts \<le> n \<Longrightarrow> consumes (ParseAccessScope ts) n"
  by (auto simp: ParseAccessScope_def intro!: consumes_bind [OF parse_part_consumes] advance_le)

lemma AdvanceValue_consumes:
  "Match ty v ts \<Longrightarrow> length ts \<le> n \<Longrightarrow> consumes (Inr (AdvanceValue ts)) n"
  using Match_advance(1) [of ty v ts n] by (simp add: advance_shorter(3) Match_inside(1))

lemma parse_permission_consumes: "length ts \<le> n \<Longrightarrow> consumes (parse_permission ts) n"
  by (auto simp: parse_permission_def AdvanceValue_consumes)

lemma ParseTimestampPart_consumes: "length ts \<le> n \<Longrightarrow> consumes (ParseTimestampPart name k ts) n"
  using Match_advance(2) [of IntegerLiteral ts n]
  by (auto simp: ParseTimestampPart_def advance_shorter(3) Match_inside(2))

lemma parse_parts_consumes: "length ts < n \<Longrightarrow> consumes (parse_parts ps ts) n"
proof (induction ps arbitrary: ts)
  case (Cons p ps)
  obtain sep name k where p: "p = (sep, name, k)" by (cases p)
  show ?case using Cons.prems unfolding p
    by (auto intro!: expect_consumes(2) consumes_bind [OF ParseTimestampPart_consumes] consumes_bind [OF Cons.IH])
qed simp

lemma ParseTimestamp_consumes: "length ts \<le> n \<Longrightarrow> consumes (ParseTimestamp ts) n"
  by (auto simp: ParseTimestamp_def intro!: consumes_bind [OF ParseTimestampPart_consumes]
      consumes_bind [OF parse_parts_consumes])

lemma ParseExpression_consumes:
  assumes "length ts \<le> n"
  shows "consumes (ParseExpression ts) n"
proof (cases "Match Keyword ''SUM'' ts \<or> Match Keyword ''COUNT'' ts \<or> Match Keyword ''AVG'' ts")
  case True
  then have i: "\<not> P_IsAtEnd ts" using Match_inside by blast
  have "consumes (rbind (ParseAggregateFunction f) (\<lambda>g. Inr (AggregateExpr g c, ts4))) n" if "length ts4 < n" for f c ts4
    using that by (simp add: ParseAggregateFunction_def)
  then show ?thesis using True i assms advance_shorter(2) [of ts]
    by (auto simp: ParseExpression_def advance_shorter(3)
        intro!: expect_consumes(2) consumes_bind [OF ParseIdentifier_consumes])
qed (use assms in \<open>auto simp: ParseExpression_def intro!: ParseValue_consumes\<close>)

lemma parse_comparison_consumes: "length ts \<le> n \<Longrightarrow> consumes (parse_comparison ts) n"
proof -
  assume l: "length ts \<le> n"
  have op: "consumes (rbind (ParseComparisonOperator o') (\<lambda>c. Inr (ComparisonCondition v c r, ts3))) n"
    if "length ts3 < n" for o' v r ts3
    using that by (simp add: ParseComparisonOperator_def)
  have adv: "MatchType ty ts1 \<Longrightarrow> AdvanceValue ts1 = (tok_value (hd ts1), P_Advance ts1)" for ty ts1
    by (simp add: advance_shorter(3) Match_inside(2))
  show ?thesis using l unfolding parse_comparison_def
    by (auto simp: adv split del: if_split
        intro!: consumes_bind [OF ParseValue_consumes] expect_consumes(1) op advance_le split: if_split)
qed

lemma ParsePredicate_consumer: "consumer m (ParsePredicate m)"
proof (induction m)
  case 0
  show ?case by (rule consumerI, subst ParsePredicate.simps)
      (auto simp: Match_def MatchType_def P_IsAtEnd_def intro!: parse_comparison_consumes)
next
  case (Suc m)
  show ?case
  proof (rule consumerI)
    fix ts :: "token list" and n assume l: "length ts \<le> Suc m" "length ts \<le> n"
    show "consumes (ParsePredicate (Suc m) ts) n"
    proof (cases "Match Punctuation ''('' ts")
      case True
      have a: "length (P_Advance ts) < length ts" by (rule Match_advance(1) [OF True]) simp
      have "consumer m (ParseAndCondition (ParsePredicate m))"
        unfolding ParseAndCondition_def by (rule left_assoc_consumes [OF Suc Suc])
      then have "consumer m (ParseOrCondition (ParsePredicate m))"
        unfolding ParseOrCondition_def by (intro left_assoc_consumes)
      then have "consumes (ParseOrCondition (ParsePredicate m) (P_Advance ts)) n"
        by (rule consumerD) (use a l in linarith)+
      then show ?thesis using True
        by (subst ParsePredicate.simps) (auto intro!: consumes_bind expect_consumes(2))
    qed (use l in \<open>subst ParsePredicate.simps, auto intro!: parse_comparison_consumes\<close>)
  qed
qed

lemma ParseCondition_consumes: "length ts \<le> n \<Longrightarrow> consumes (ParseCondition ts) n"
proof -
  have "consumer (length ts) (ParseAndCondition (ParsePredicate (length ts)))"
    unfolding ParseAndCondition_def by (rule left_assoc_consumes [OF ParsePredicate_consumer ParsePredicate_consumer])
  then have "consumer (length ts) (ParseOrCondition (ParsePredicate (length ts)))"
    unfolding ParseOrCondition_def by (intro left_assoc_consumes)
  from consumerD [OF this] show "length ts \<le> n \<Longrightarrow> ?thesis" unfolding ParseCondition_def by simp
qed

section \<open>Statements\<close>

lemmas consumes_parts = expect_consumes consumes_bind [OF ParseIdentifier_consumes]
  consumes_bind [OF ParseLiteral_consumes] consumes_bind [OF ParseValue_consumes]
  consumes_bind [OF ParseExpression_consumes] consumes_bind [OF ParseTableRef_consumes]
  consumes_bind [OF ParseAccessScope_consumes] consumes_bind [OF ParseTimestamp_consumes]
  consumes_bind [OF ParseCondition_consumes]

lemma optional_advance: "length ts < n \<Longrightarrow> length (if b then P_Advance ts else ts) < n"
  using advance_le(2) by simp

lemma ParseColumnDefinition_consumer: "consumer m ParseColumnDefinition"
proof (rule consumerI)
  fix ts :: "token list" and n assume l: "length ts \<le> n"
  have adv: "Match ty v ts1 \<Longrightarrow> AdvanceValue ts1 = (tok_value (hd ts1), P_Advance ts1)" for ty v ts1
    by (simp add: advance_shorter(3) Match_inside(1))
  show "consumes (ParseColumnDefinition ts) n" using l
    by (auto simp: ParseColumnDefinition_def Let_def adv intro!: consumes_parts optional_advance advance_le
        simp del: if_split split: if_split)
qed

lemma simple_consumers:
  "consumer m parse_permission" "consumer m ParseIdentifier" "consumer m ParseLiteral" "consumer m parse_assignment"
  "consumer m parse_item"
  by (auto simp: parse_assignment_def parse_item_def intro!: consumerI consumes_parts advance_le
      parse_permission_consumes ParseIdentifier_consumes ParseLiteral_consumes)

lemma list_consumes:
  assumes "length ts \<le> n"
  shows "consumes (ParsePermissions ts) n" "consumes (comma_list ParseColumnDefinition ts) n"
    "consumes (comma_list ParseIdentifier ts) n" "consumes (comma_list ParseLiteral ts) n"
    "consumes (comma_list parse_assignment ts) n" "consumes (comma_list parse_item ts) n"
  unfolding ParsePermissions_def
  by (rule consumerD [OF comma_list_consumes assms assms], rule simple_consumers ParseColumnDefinition_consumer)+

lemma parse_row_consumes: "length ts \<le> n \<Longrightarrow> consumes (parse_row ts) n"
  by (auto simp: parse_row_def intro!: expect_consumes(2) consumes_bind [OF list_consumes(4)])

lemma parse_rows_consumes: "length ts \<le> f \<Longrightarrow> length ts \<le> n \<Longrightarrow> consumes (parse_rows f ts) n"
proof (induction f arbitrary: ts)
  case 0
  then have "P_IsAtEnd ts" by (simp add: P_IsAtEnd_def)
  then show ?case using 0
    by (subst parse_rows.simps)
      (auto simp: parse_row_def ExpectPunctuation_def Match_def MatchType_def)
next
  case (Suc f)
  define ts1 where "ts1 = (if Match Punctuation '','' ts then P_Advance ts else ts)"
  have l: "length ts1 \<le> length ts" using advance_shorter(2) by (simp add: ts1_def)
  then have p: "consumes (parse_row ts1) (length ts)" by (rule parse_row_consumes)
  have "consumes (rbind (parse_rows f ts2) (\<lambda>(rows, ts3). Inr (row # rows, ts3))) n"
    if "length ts2 < length ts" for row ts2
    using Suc.prems that by (intro consumes_bind [OF Suc.IH]) auto
  then have body: "consumes (if Match Punctuation '','' ts2
      then rbind (parse_rows f ts2) (\<lambda>(rows, ts3). Inr (row # rows, ts3)) else Inr ([row], ts2)) n"
    if "length ts2 < length ts" for row ts2
    using that Suc.prems by simp
  show ?case unfolding parse_rows.simps [of "Suc f" ts] Let_def ts1_def [symmetric] nat.case
    using p body by (cases "parse_row ts1") (auto simp: consumes_def)
qed

lemma statement_consumes: "length ts \<le> n \<Longrightarrow> consumes (statement_parser w ts) n"
proof -
  assume l: "length ts \<le> n"
  have adv: "MatchType ty ts1 \<Longrightarrow> AdvanceValue ts1 = (tok_value (hd ts1), P_Advance ts1)" for ty ts1
    by (simp add: advance_shorter(3) Match_inside(2))
  note parts = consumes_parts advance_le consumes_bind [OF list_consumes(1)] consumes_bind [OF list_consumes(2)]
    consumes_bind [OF list_consumes(3)] consumes_bind [OF list_consumes(5)] consumes_bind [OF parse_rows_consumes]
  have "consumes (ParseCreateStatement ts) n" using l
    by (auto simp: ParseCreateStatement_def adv intro!: parts)
  moreover have "consumes (parse_access kw d con ts) n" for kw d con using l
    by (auto simp: parse_access_def intro!: parts)
  moreover have "consumes (ParseDropStatement ts) n" "consumes (ParseUseStatement ts) n"
    "consumes (ParseRevertStatement ts) n" "consumes (ParseInsertStatement ts) n"
    "consumes (ParseUpdateStatement ts) n" "consumes (ParseDeleteStatement ts) n" using l
    by (auto simp: ParseDropStatement_def ParseUseStatement_def ParseRevertStatement_def ParseInsertStatement_def
        ParseUpdateStatement_def ParseDeleteStatement_def intro!: parts)
  moreover have "consumes (ParseSelectStatement ts) n"
  proof -
    have "consumes (if Match Operator ''*'' ts1 then Inr ((True, []), P_Advance ts1)
        else rmap (\<lambda>(items, r). ((False, items), r)) (comma_list parse_item ts1)) n" if "length ts1 < n" for ts1
      using that list_consumes(6) [of ts1 n] by (auto intro!: advance_le consumes_rmap)
    note head = consumes_bind [OF this]
    show ?thesis unfolding ParseSelectStatement_def
      by (rule expect_consumes(1) [OF l], rule head, assumption) (auto intro!: parts)
  qed
  ultimately show ?thesis
    by (simp add: statement_parser_def ParseGrantStatement_def ParseRevokeStatement_def)
qed

lemma ParseStatement_ends: "ParseStatement ts \<noteq> Inl no_end"
proof -
  have "consumes (statement_parser (tok_value (P_Peek ts)) ts) (length ts)" by (rule statement_consumes) simp
  then show ?thesis
    by (auto simp: ParseStatement_def consumes_def Let_def rbind_Inl_iff no_end_def split: if_splits)
qed

end
