(* ===== verification/Sql_Analyzer.thy ===== *)
theory Sql_Analyzer
  imports Sql_Ast
begin

text \<open>
  The semantic checks made on the server before a statement is sent to a shard,
  \<open>apps/server/src/analyzer.cpp\<close>.
\<close>

section \<open>Checks\<close>

definition SemanticError :: "string \<Rightarrow> exn" where
  "SemanticError message = Runtime_Error (''SEMANTIC_ERROR: '' @ message)"

text \<open>The checks of one column's default.\<close>

definition check_default :: "column_def \<Rightarrow> unit result" where
  "check_default c =
     (case DefDefault c of
        None \<Rightarrow> Inr ()
      | Some l \<Rightarrow>
          if LiteralType l = NullLit then
            (if DefNotNull c
             then Inl (SemanticError (''column '' @ quoted (DefName c) @ '' cannot be NOT_NULL with DEFAULT NULL''))
             else Inr ())
          else
            let int_default = (LiteralType l = IntegerLit)
            in if DefType c = IntDef \<and> \<not> int_default
               then Inl (SemanticError (''column '' @ quoted (DefName c) @ '' expects INT default''))
               else if DefType c = StringDef \<and> int_default
               then Inl (SemanticError (''column '' @ quoted (DefName c) @ '' expects STRING default''))
               else Inr ())"

text \<open>The loop over the columns with the set of the names so far.\<close>

fun check_columns :: "string set \<Rightarrow> column_def list \<Rightarrow> unit result" where
  "check_columns names [] = Inr ()"
| "check_columns names (c # cs) =
     (if DefName c \<in> names then Inl (SemanticError (''duplicate column '' @ quoted (DefName c)))
      else rbind (check_default c) (\<lambda>_. check_columns (insert (DefName c) names) cs))"

definition ValidateCreateTable :: "column_def list \<Rightarrow> unit result" where
  "ValidateCreateTable cs = check_columns {} cs"

fun check_insert_columns :: "string set \<Rightarrow> string list \<Rightarrow> unit result" where
  "check_insert_columns names [] = Inr ()"
| "check_insert_columns names (c # cs) =
     (if c \<in> names then Inl (SemanticError (''duplicate insert column '' @ quoted c))
      else check_insert_columns (insert c names) cs)"

fun check_rows :: "nat \<Rightarrow> sql_literal list list \<Rightarrow> unit result" where
  "check_rows n [] = Inr ()"
| "check_rows n (row # rows) =
     (if length row \<noteq> n then Inl (SemanticError ''INSERT values count does not match columns count'')
      else check_rows n rows)"

definition ValidateInsert :: "string list \<Rightarrow> sql_literal list list \<Rightarrow> unit result" where
  "ValidateInsert cols rows =
     rbind (check_insert_columns {} cols) (\<lambda>_. check_rows (length cols) rows)"

fun ValidateStatement :: "statement \<Rightarrow> unit result" where
  "ValidateStatement (CreateTableStmt tab cs) = ValidateCreateTable cs"
| "ValidateStatement (InsertStmt tab cols rows) = ValidateInsert cols rows"
| "ValidateStatement _ = Inr ()"

fun TableFromStatement :: "statement \<Rightarrow> table_ref option" where
  "TableFromStatement (CreateTableStmt tab cs) = Some tab"
| "TableFromStatement (DropTableStmt tab) = Some tab"
| "TableFromStatement (InsertStmt tab cols rows) = Some tab"
| "TableFromStatement (UpdateStmt tab as w) = Some tab"
| "TableFromStatement (DeleteStmt tab w) = Some tab"
| "TableFromStatement (SelectStmt all items tab w) = Some tab"
| "TableFromStatement (RevertStmt tab time) = Some tab"
| "TableFromStatement _ = None"

section \<open>What passes\<close>

definition default_fits :: "column_def \<Rightarrow> bool" where
  "default_fits c \<longleftrightarrow> (case DefDefault c of None \<Rightarrow> True
     | Some l \<Rightarrow> (case LiteralType l of NullLit \<Rightarrow> \<not> DefNotNull c | IntegerLit \<Rightarrow> DefType c = IntDef
                  | StringLit \<Rightarrow> DefType c = StringDef))"

lemma check_default_ok: "check_default c = Inr () \<longleftrightarrow> default_fits c"
  by (cases "DefType c") (auto simp: check_default_def default_fits_def Let_def split: option.split literal_type.split)

lemma check_columns_ok:
  "check_columns names cs = Inr () \<longleftrightarrow>
   distinct (map DefName cs) \<and> set (map DefName cs) \<inter> names = {} \<and> list_all default_fits cs"
proof (induction cs arbitrary: names)
  case (Cons c cs)
  show ?case using Cons [of "insert (DefName c) names"] check_default_ok [of c]
    by (auto simp: result_iff)
qed simp

lemma check_insert_columns_ok:
  "check_insert_columns names cs = Inr () \<longleftrightarrow> distinct cs \<and> set cs \<inter> names = {}"
  by (induction cs arbitrary: names) auto

lemma check_rows_ok: "check_rows n rows = Inr () \<longleftrightarrow> list_all (\<lambda>r. length r = n) rows"
  by (induction rows) auto

fun statement_valid :: "statement \<Rightarrow> bool" where
  "statement_valid (CreateTableStmt tab cs) \<longleftrightarrow> distinct (map DefName cs) \<and> list_all default_fits cs"
| "statement_valid (InsertStmt tab cols rows) \<longleftrightarrow> distinct cols \<and> list_all (\<lambda>r. length r = length cols) rows"
| "statement_valid _ \<longleftrightarrow> True"

lemma ValidateStatement_ok: "ValidateStatement s = Inr () \<longleftrightarrow> statement_valid s"
  by (cases s) (simp_all add: ValidateCreateTable_def ValidateInsert_def check_columns_ok result_iff
      check_insert_columns_ok check_rows_ok)

end
