(* ===== verification/Sql_Properties.thy ===== *)
theory Sql_Properties
  imports Sql_Print Sql_Total Sql_Analyzer
begin

text \<open>The properties of the SQL front end: lexer, parser and semantic checks.\<close>

section \<open>Examples\<close>

text \<open>A statement with an alias, an aggregate, and a condition that needs parentheses.\<close>

definition example_select :: statement where
  "example_select = SelectStmt False
     [SelectItem (IdentifierExpr ''a'') ''n'', SelectItem (AggregateExpr AggSum ''b'') []]
     (TableRef ''shop'' ''items'')
     (Some (AndCondition
        (OrCondition (ComparisonCondition (IdentifierExpr ''a'') OpEqual (LiteralExpr (Literal IntegerLit ''1'')))
           (LikeCondition (IdentifierExpr ''b'') ''x.*''))
        (BetweenCondition (IdentifierExpr ''c'') (LiteralExpr (Literal IntegerLit ''2''))
           (LiteralExpr (Literal NullLit ''NULL'')))))"

lemma example_select_writable: "writable_stmt example_select"
  by code_simp

section \<open>Properties\<close>

text \<open>
  C11: reading back what was written: for every well-formed statement, the lexer and the parser applied
  to its text give exactly the statement. The text has the parentheses that the precedence and the
  left associativity of \<open>AND\<close> and \<open>OR\<close> require, so both are as the grammar says.
\<close>

theorem parse_printed_statement:
  assumes "writable_stmt s"
  shows "ParseStatement (Tokenize (new_lexer (print_tokens (stmt_toks s)))) = Inr s"
proof (rule ParseStatement_kv)
  have "map kind_value (Tokenize (new_lexer (print_tokens (stmt_toks s)))) = stmt_toks s @ [(EndOfFile, [])]"
    using assms by (intro Tokenize_printed [where ws = "[]"]) (simp_all add: writable_stmt_def new_lexer_def)
  then show "map kind_value (Tokenize (new_lexer (print_tokens (stmt_toks s)))) = stmt_toks s @ [(EndOfFile, [])]" .
qed (use assms in \<open>simp_all add: writable_stmt_def\<close>)

theorem parse_printed_statement_witness:
  "ParseStatement (Tokenize (new_lexer (print_tokens (stmt_toks example_select)))) = Inr example_select"
  by (rule parse_printed_statement [OF example_select_writable])

text \<open>
  C30: the parser always ends, on every list of tokens: none of its loops and no nesting of parentheses
  can exceed the number of tokens, so its result is a statement or one of its errors.
\<close>

theorem parser_terminates: "ParseStatement ts \<noteq> Inl no_end"
  by (rule ParseStatement_ends)

text \<open>
  Every token carries the line and the column of its first character in the source, and its value
  is what stands there.
\<close>

theorem token_positions: "list_all (token_in s) (Tokenize (new_lexer s))"
  by (rule Tokenize_positions [OF at_text_new])


end
