(* ===== verification/Effects.thy ===== *)
theory Effects
  imports Qdb_Prelude
begin

text \<open>
  Calls that change a state and may throw: the state that the call leaves behind is part of the
  result also when it throws, as in the code, where nothing is rolled back.
\<close>

section \<open>The combinators\<close>

type_synonym ('s, 'a) st = "'s \<Rightarrow> 'a result \<times> 's"

definition sret :: "'a \<Rightarrow> ('s, 'a) st" where
  "sret x s = (Inr x, s)"

definition sthrow :: "exn \<Rightarrow> ('s, 'a) st" where
  "sthrow e s = (Inl e, s)"

definition slift :: "'a result \<Rightarrow> ('s, 'a) st" where
  "slift r s = (r, s)"

definition sbind :: "('s, 'a) st \<Rightarrow> ('a \<Rightarrow> ('s, 'b) st) \<Rightarrow> ('s, 'b) st" where
  "sbind m f s = (case m s of (Inl e, s') \<Rightarrow> (Inl e, s') | (Inr x, s') \<Rightarrow> f x s')"

definition sget :: "('s \<Rightarrow> 'a) \<Rightarrow> ('s, 'a) st" where
  "sget f s = (Inr (f s), s)"

definition supd :: "('s \<Rightarrow> 's) \<Rightarrow> ('s, unit) st" where
  "supd f s = (Inr (), f s)"

text \<open>A call on a component of the state.\<close>

definition on_part :: "('s \<Rightarrow> 'p) \<Rightarrow> ('p \<Rightarrow> 's \<Rightarrow> 's) \<Rightarrow> ('p, 'a) st \<Rightarrow> ('s, 'a) st" where
  "on_part get put m s = (case m (get s) of (r, p) \<Rightarrow> (r, put p s))"

lemma sbind_cong [fundef_cong]:
  "s = s' \<Longrightarrow> m s' = m' s' \<Longrightarrow> (\<And>x t. m' s' = (Inr x, t) \<Longrightarrow> f x t = g x t) \<Longrightarrow> sbind m f s = sbind m' g s'"
  by (auto simp: sbind_def split: prod.split sum.split)

fun smap :: "('a \<Rightarrow> ('s, 'b) st) \<Rightarrow> 'a list \<Rightarrow> ('s, 'b list) st" where
  "smap f [] = sret []"
| "smap f (x # xs) = sbind (f x) (\<lambda>y. sbind (smap f xs) (\<lambda>ys. sret (y # ys)))"

fun siter :: "('a \<Rightarrow> ('s, unit) st) \<Rightarrow> 'a list \<Rightarrow> ('s, unit) st" where
  "siter f [] = sret ()"
| "siter f (x # xs) = sbind (f x) (\<lambda>_. siter f xs)"

text \<open>The loop that keeps the elements for which a test holds.\<close>

fun sfilter :: "('a \<Rightarrow> ('s, bool) st) \<Rightarrow> 'a list \<Rightarrow> ('s, 'a list) st" where
  "sfilter f [] = sret []"
| "sfilter f (x # xs) = sbind (f x) (\<lambda>b. sbind (sfilter f xs) (\<lambda>ys. sret (if b then x # ys else ys)))"

section \<open>Rewriting\<close>

named_theorems st_simps

lemma st_simps_basic [st_simps]:
  "sret x s = (Inr x, s)" "sthrow e s = (Inl e, s)" "slift r s = (r, s)" "sget f s = (Inr (f s), s)"
  "supd g s = (Inr (), g s)"
  by (simp_all add: sret_def sthrow_def slift_def sget_def supd_def)

lemma sbind_step [st_simps]:
  "m s = (Inr x, t) \<Longrightarrow> sbind m f s = f x t" "m s = (Inl e, t) \<Longrightarrow> sbind m f s = (Inl e, t)"
  by (simp_all add: sbind_def)

lemma sbind_basic [st_simps]:
  "sbind (sret x) f = f x" "sbind (sthrow e) f1 = sthrow e" "sbind (sget h) f2 = (\<lambda>s. f2 (h s) s)"
  "sbind (supd g) f3 = (\<lambda>s. f3 () (g s))"
  by (auto simp: sbind_def sret_def sthrow_def sget_def supd_def)

lemma sbind_Inr_iff: "sbind m f s = (Inr y, u) \<longleftrightarrow> (\<exists>x t. m s = (Inr x, t) \<and> f x t = (Inr y, u))"
  by (auto simp: sbind_def split: prod.split sum.split)

lemma on_part_Inr_iff: "on_part get put m s = (r, u) \<longleftrightarrow> (\<exists>p. m (get s) = (r, p) \<and> u = put p s)"
  by (auto simp: on_part_def split: prod.split)

lemma sbind_assoc: "sbind (sbind m f) g = sbind m (\<lambda>x. sbind (f x) g)"
  by (rule ext) (simp add: sbind_def split: prod.split sum.split)

lemma sbind_unit: "sbind m sret = m"
  by (rule ext) (simp add: sbind_def sret_def split: prod.split sum.split)

lemmas st_ok_iff = sbind_Inr_iff on_part_Inr_iff st_simps_basic prod.inject sum.inject

section \<open>Invariants\<close>

text \<open>\<open>keeps P m\<close>: the call \<open>m\<close> preserves \<open>P\<close>, whether it throws or not.\<close>

definition keeps :: "('s \<Rightarrow> bool) \<Rightarrow> ('s, 'a) st \<Rightarrow> bool" where
  "keeps P m \<longleftrightarrow> (\<forall>s. P s \<longrightarrow> P (snd (m s)))"

named_theorems keeps_rules

lemma keeps_basic [keeps_rules]: "keeps P (sret x)" "keeps P (sthrow e)" "keeps P (slift r)" "keeps P (sget f)"
  by (simp_all add: keeps_def st_simps)

lemma keeps_bind [keeps_rules]: "keeps P m \<Longrightarrow> (\<And>x. keeps P (f x)) \<Longrightarrow> keeps P (sbind m f)"
  by (simp add: keeps_def sbind_def split: prod.split sum.split) (metis snd_conv)

lemma keeps_supd: "(\<And>s. P s \<Longrightarrow> P (g s)) \<Longrightarrow> keeps P (supd g)"
  by (simp add: keeps_def st_simps)

lemma keeps_smap [keeps_rules]: "(\<And>x. keeps P (f x)) \<Longrightarrow> keeps P (smap f xs)"
  by (induction xs) (auto intro!: keeps_rules)

lemma keeps_siter [keeps_rules]: "(\<And>x. keeps P (f x)) \<Longrightarrow> keeps P (siter f xs)"
  by (induction xs) (auto intro!: keeps_rules)

lemma keeps_sfilter [keeps_rules]: "(\<And>x. keeps P (f x)) \<Longrightarrow> keeps P (sfilter f xs)"
  by (induction xs) (auto intro!: keeps_rules)

lemma keeps_if [keeps_rules]: "keeps P m \<Longrightarrow> keeps P n \<Longrightarrow> keeps P (if b then m else n)"
  by simp

end
