(* ===== verification/Index_Set.thy ===== *)
theory Index_Set
  imports Effects Schema_Codec Key_Index
begin

text \<open>
  The secondary indexes of a table, \<open>apps/storage/src/index_set.cpp\<close>: for every indexed column a tree
  from the column's values to the addresses of the records. A call of a tree that throws leaves the
  tree of the model as it was before the call; what such a call leaves on the pages is not modelled,
  and no property speaks of the state after it.
\<close>

section \<open>State\<close>

type_synonym address_tree_int = "(int, record_address) tree"
type_synonym address_tree_string = "(string_id, record_address) tree"

text \<open>\<open>IndexSet::Tree\<close>. The keys of the first are \<open>int32_t\<close>, kept as the integers they denote.\<close>

datatype index_tree = Int_Index address_tree_int | String_Index address_tree_string

type_synonym index_set = "string \<rightharpoonup> index_tree"

definition int_params :: "int tree_params" where
  "int_params = \<lparr>geom = index_geometry, key0 = 0\<rparr>"

definition string_params :: "string_id tree_params" where
  "string_params = \<lparr>geom = index_geometry, key0 = StringId 0\<rparr>"

text \<open>
  The index files in the table's directory, by column, and the memory from which the nodes of a new
  tree are made.
\<close>

record index_files =
  int_index_files :: "string \<rightharpoonup> address_tree_int"
  string_index_files :: "string \<rightharpoonup> address_tree_string"
  int_garbage :: "nat \<Rightarrow> (int, record_address) node"
  string_garbage :: "nat \<Rightarrow> (string_id, record_address) node"

section \<open>Opening\<close>

definition open_index :: "index_files \<Rightarrow> column \<Rightarrow> index_tree option" where
  "open_index fs c =
     (if \<not> IsIndexed c then None
      else if Column_IsInt c then
        Some (Int_Index (case int_index_files fs (col_name c) of Some t \<Rightarrow> t | None \<Rightarrow> new_tree (int_garbage fs)))
      else if Column_IsString c then
        Some (String_Index (case string_index_files fs (col_name c) of Some t \<Rightarrow> t | None \<Rightarrow> new_tree (string_garbage fs)))
      else None)"

definition IndexSet_Open :: "index_files \<Rightarrow> schema \<Rightarrow> index_set" where
  "IndexSet_Open fs sc =
     fold (\<lambda>c ixs. case open_index fs c of None \<Rightarrow> ixs | Some t \<Rightarrow> emplace ixs (col_name c) t) (columns sc) Map.empty"

text \<open>Closing writes nothing: every change of a tree goes to its file. Dropping removes the files.\<close>

definition IndexSet_Close :: "index_set \<Rightarrow> index_files \<Rightarrow> index_files" where
  "IndexSet_Close ixs fs = fs
     \<lparr>int_index_files := (\<lambda>c. case ixs c of Some (Int_Index t) \<Rightarrow> Some t | _ \<Rightarrow> int_index_files fs c),
      string_index_files := (\<lambda>c. case ixs c of Some (String_Index t) \<Rightarrow> Some t | _ \<Rightarrow> string_index_files fs c)\<rparr>"

definition IndexSet_Drop :: "index_set \<Rightarrow> index_files \<Rightarrow> index_files" where
  "IndexSet_Drop ixs fs = fs
     \<lparr>int_index_files := (\<lambda>c. if ixs c = None then int_index_files fs c else None),
      string_index_files := (\<lambda>c. if ixs c = None then string_index_files fs c else None)\<rparr>"

section \<open>One tree\<close>

definition index_search :: "index_tree \<Rightarrow> sql_value \<Rightarrow> record_address list result" where
  "index_search ix v =
     (case ix of
        Int_Index t \<Rightarrow> rbind (AsInt v) (\<lambda>i. tree_search t (sint i))
      | String_Index t \<Rightarrow> rbind (AsString v) (\<lambda>s. tree_search t s))"

definition index_insert :: "sql_value \<Rightarrow> record_address \<Rightarrow> index_tree \<Rightarrow> index_tree result" where
  "index_insert v a ix =
     (case ix of
        Int_Index t \<Rightarrow> rbind (AsInt v) (\<lambda>i. rmap Int_Index (tree_insert int_params t (sint i) a))
      | String_Index t \<Rightarrow> rbind (AsString v) (\<lambda>s. rmap String_Index (tree_insert string_params t s a)))"

definition index_remove :: "sql_value \<Rightarrow> index_tree \<Rightarrow> index_tree result" where
  "index_remove v ix =
     (case ix of
        Int_Index t \<Rightarrow> rbind (AsInt v) (\<lambda>i. rmap (Int_Index \<circ> snd) (tree_remove int_params t (sint i)))
      | String_Index t \<Rightarrow> rbind (AsString v) (\<lambda>s. rmap (String_Index \<circ> snd) (tree_remove string_params t s)))"

section \<open>Operations\<close>

definition unknown_column :: "string \<Rightarrow> exn" where
  "unknown_column name = Runtime_Error (''Unknown column: '' @ name)"

definition no_index :: "string \<Rightarrow> exn" where
  "no_index name = Runtime_Error (''Index not found for column '' @ name @ ''.'')"

definition index_of :: "index_set \<Rightarrow> string \<Rightarrow> index_tree result" where
  "index_of ixs name = (case ixs name of Some t \<Rightarrow> Inr t | None \<Rightarrow> Inl (no_index name))"

definition IndexSet_Find :: "index_set \<Rightarrow> schema \<Rightarrow> string \<Rightarrow> sql_value \<Rightarrow> record_address list option result" where
  "IndexSet_Find ixs sc name v =
     (let column_index = ColumnIndex sc name in
      if column_index < 0 then Inl (unknown_column name)
      else let c = columns sc ! nat column_index in
        if \<not> IsIndexed c \<or> IsNull v then Inr None
        else if Column_IsInt c \<and> \<not> IsInt v \<or> Column_IsString c \<and> \<not> IsString v then Inr None
        else rbind (index_of ixs name) (\<lambda>t. rmap Some (index_search t v)))"

text \<open>\<open>ForEach\<close>: the visitor may change the tree of its column.\<close>

definition visit_column ::
  "schema \<Rightarrow> db_record \<Rightarrow> (nat \<Rightarrow> column \<Rightarrow> sql_value \<Rightarrow> (index_tree, unit) st) \<Rightarrow> nat \<Rightarrow> (index_set, unit) st" where
  "visit_column sc r visitor i =
     (let c = columns sc ! i in
      if \<not> IsIndexed c then sret ()
      else sbind (slift (field_of r i)) (\<lambda>v.
        if IsNull v then sret ()
        else (\<lambda>ixs. case index_of ixs (col_name c) of
            Inl e \<Rightarrow> (Inl e, ixs)
          | Inr t \<Rightarrow> on_part (\<lambda>_. t) (\<lambda>t' ixs. ixs(col_name c \<mapsto> t')) (visitor i c v) ixs)))"

definition IndexSet_ForEach ::
  "schema \<Rightarrow> db_record \<Rightarrow> (nat \<Rightarrow> column \<Rightarrow> sql_value \<Rightarrow> (index_tree, unit) st) \<Rightarrow> (index_set, unit) st" where
  "IndexSet_ForEach sc r visitor = siter (visit_column sc r visitor) [0..<length (columns sc)]"

text \<open>A visitor that replaces the tree, and keeps it when it throws.\<close>

definition tree_step :: "(index_tree \<Rightarrow> index_tree result) \<Rightarrow> (index_tree, unit) st" where
  "tree_step f t = (case f t of Inl e \<Rightarrow> (Inl e, t) | Inr t' \<Rightarrow> (Inr (), t'))"

definition IndexSet_Insert :: "schema \<Rightarrow> db_record \<Rightarrow> (index_set, unit) st" where
  "IndexSet_Insert sc r =
     IndexSet_ForEach sc r (\<lambda>i c v. tree_step (\<lambda>t. rbind (Address r) (\<lambda>a. index_insert v a t)))"

definition IndexSet_Remove :: "schema \<Rightarrow> db_record \<Rightarrow> (index_set, unit) st" where
  "IndexSet_Remove sc r = IndexSet_ForEach sc r (\<lambda>i c v. tree_step (index_remove v))"

text \<open>\<open>HasDuplicate\<close> with the table's reader. The trees are not changed.\<close>

fun find_duplicate ::
  "(record_address \<Rightarrow> db_record option result) \<Rightarrow> db_record \<Rightarrow> nat \<Rightarrow> sql_value \<Rightarrow> record_address list \<Rightarrow> bool result" where
  "find_duplicate reader r i v [] = Inr False"
| "find_duplicate reader r i v (a # as) =
     (if rec_addr r = Some a then find_duplicate reader r i v as
      else rbind (reader a) (\<lambda>existing.
        case existing of
          None \<Rightarrow> find_duplicate reader r i v as
        | Some e \<Rightarrow> rbind (field_of e i) (\<lambda>w. if StrictEq w v then Inr True else find_duplicate reader r i v as)))"

fun duplicate_loop ::
  "(record_address \<Rightarrow> db_record option result) \<Rightarrow> index_set \<Rightarrow> schema \<Rightarrow> db_record \<Rightarrow> nat \<Rightarrow> sql_value \<Rightarrow> nat list \<Rightarrow>
   bool \<Rightarrow> bool result" where
  "duplicate_loop reader ixs sc r column_index v [] found = Inr found"
| "duplicate_loop reader ixs sc r column_index v (i # is) found =
     (let c = columns sc ! i in
      if \<not> IsIndexed c then duplicate_loop reader ixs sc r column_index v is found
      else rbind (field_of r i) (\<lambda>w.
        if IsNull w then duplicate_loop reader ixs sc r column_index v is found
        else rbind (index_of ixs (col_name c)) (\<lambda>t.
          if i \<noteq> column_index then duplicate_loop reader ixs sc r column_index v is found
          else rbind (index_search t w) (\<lambda>as. rbind (find_duplicate reader r column_index v as) (\<lambda>f.
            duplicate_loop reader ixs sc r column_index v is f)))))"

definition HasDuplicate ::
  "(record_address \<Rightarrow> db_record option result) \<Rightarrow> index_set \<Rightarrow> schema \<Rightarrow> db_record \<Rightarrow> nat \<Rightarrow> sql_value \<Rightarrow> bool result" where
  "HasDuplicate reader ixs sc r column_index v =
     duplicate_loop reader ixs sc r column_index v [0..<length (columns sc)] False"

definition update_tree :: "sql_value \<Rightarrow> sql_value \<Rightarrow> db_record \<Rightarrow> (index_tree, unit) st" where
  "update_tree ov nv new_r =
     sbind (if IsNull ov then sret () else tree_step (index_remove ov)) (\<lambda>_.
       if IsNull nv then sret () else tree_step (\<lambda>t. rbind (Address new_r) (\<lambda>a. index_insert nv a t)))"

text \<open>
  \<open>Update\<close>. The condition and the insertion read the addresses, which throw when a record has none.
\<close>

definition update_column :: "schema \<Rightarrow> db_record \<Rightarrow> db_record \<Rightarrow> nat \<Rightarrow> (index_set, unit) st" where
  "update_column sc old_r new_r i =
     (let c = columns sc ! i in
      if \<not> IsIndexed c then sret ()
      else (\<lambda>ixs. case index_of ixs (col_name c) of
          Inl e \<Rightarrow> (Inl e, ixs)
        | Inr t \<Rightarrow>
            sbind (slift (rbind (field_of old_r i) (\<lambda>ov. rbind (field_of new_r i) (\<lambda>nv.
                if \<not> StrictEq ov nv then Inr (ov, nv, True)
                else rbind (Address old_r) (\<lambda>oa. rbind (Address new_r) (\<lambda>na. Inr (ov, nv, oa \<noteq> na)))))))
              (\<lambda>(ov, nv, changed).
                 if \<not> changed then sret ()
                 else on_part (\<lambda>_. t) (\<lambda>t' ixs. ixs(col_name c \<mapsto> t')) (update_tree ov nv new_r))
              ixs))"

definition IndexSet_Update :: "schema \<Rightarrow> db_record \<Rightarrow> db_record \<Rightarrow> (index_set, unit) st" where
  "IndexSet_Update sc old_r new_r = siter (update_column sc old_r new_r) [0..<length (columns sc)]"

end
