(* ===== verification/Undo_Journal.thy ===== *)
theory Undo_Journal
  imports Effects Record_Codec
begin

text \<open>
  The undo journal of a table, \<open>apps/storage/src/journal.cpp\<close>: a file of tracks, each with its own
  length at the end, so that the last one can be found from the end. Reverting moves a position
  towards the front; the tracks behind it are cut off by the next write. The time, which the code
  takes from the clock, is an argument.
\<close>

section \<open>State and tracks\<close>

record journal =
  jnl_file :: "byte list"
  jnl_pos :: nat

definition TIME_LEN :: nat where "TIME_LEN = 23"

text \<open>\<open>Track::Type\<close>, a \<open>uint8_t\<close>.\<close>

definition DELETE_TRACK :: byte where "DELETE_TRACK = 0"
definition UPDATE_TRACK :: byte where "UPDATE_TRACK = 1"
definition INSERT_TRACK :: byte where "INSERT_TRACK = 2"

lemmas track_defs = DELETE_TRACK_def UPDATE_TRACK_def INSERT_TRACK_def

record revert_result =
  rv_time :: string
  rv_type :: byte
  rv_record :: db_record

text \<open>The journal on an existing file, and on none.\<close>

definition open_journal :: "byte list option \<Rightarrow> journal" where
  "open_journal file =
     (let f = (case file of Some f \<Rightarrow> f | None \<Rightarrow> []) in \<lparr>jnl_file = f, jnl_pos = length f\<rparr>)"

section \<open>Operations\<close>

definition truncate_to_last :: "journal \<Rightarrow> journal" where
  "truncate_to_last j = j\<lparr>jnl_file := take (jnl_pos j) (jnl_file j) @ replicate (jnl_pos j - length (jnl_file j)) 0\<rparr>"

definition journal_close :: "journal \<Rightarrow> journal" where
  "journal_close j = (if jnl_pos j \<noteq> length (jnl_file j) then truncate_to_last j else j)"

definition track_bytes :: "string \<Rightarrow> byte \<Rightarrow> 32 word \<Rightarrow> byte list \<Rightarrow> byte list" where
  "track_bytes time ty rid dat =
     (let sz = word_of_nat (TIME_LEN + 4 + 1 + 4) + (if dat \<noteq> [] then word_of_nat (4 + length dat) else 0) :: 32 word
      in bytes_of (take TIME_LEN time) @ enc32 rid @ [ty]
           @ (if dat \<noteq> [] then enc32 (word_of_nat (length dat)) @ dat else []) @ enc32 sz)"

definition write_track :: "string \<Rightarrow> byte \<Rightarrow> 32 word \<Rightarrow> byte list \<Rightarrow> journal \<Rightarrow> journal" where
  "write_track time ty rid dat j =
     (let j1 = (if jnl_pos j \<noteq> length (jnl_file j) then truncate_to_last j else j);
          f = jnl_file j1 @ track_bytes time ty rid dat
      in \<lparr>jnl_file = f, jnl_pos = length f\<rparr>)"

definition save_insertion :: "string \<Rightarrow> db_record \<Rightarrow> (journal, unit) st" where
  "save_insertion time r = supd (write_track time DELETE_TRACK (rec_id r) [])"

definition save_updation :: "string \<Rightarrow> db_record \<Rightarrow> (journal, unit) st" where
  "save_updation time r = sbind (slift (Serialize r)) (\<lambda>d. supd (write_track time UPDATE_TRACK (rec_id r) d))"

definition save_deletion :: "string \<Rightarrow> db_record \<Rightarrow> (journal, unit) st" where
  "save_deletion time r = sbind (slift (Serialize r)) (\<lambda>d. supd (write_track time INSERT_TRACK (rec_id r) d))"

definition no_track :: "revert_result" where
  "no_track = \<lparr>rv_time = [], rv_type = INSERT_TRACK, rv_record = \<lparr>rec_id = 0, rec_fields = [VNull], rec_addr = None\<rparr>\<rparr>"

definition bad_journal :: exn where
  "bad_journal = Undefined_Behaviour ''malformed journal''"

text \<open>
  \<open>revert_last\<close>: the position is already moved when the record cannot be decoded. A file that does
  not hold what is read from it is \<open>bad_journal\<close>: the code would go on with what the variables hold.
\<close>

definition read_track_record :: "byte \<Rightarrow> 32 word \<Rightarrow> byte list \<Rightarrow> nat \<Rightarrow> interner \<Rightarrow> db_record result" where
  "read_track_record ty rid s schema_size it =
     (if ty = INSERT_TRACK \<or> ty = UPDATE_TRACK then
        (case read_u32 s of
           None \<Rightarrow> Inl bad_journal
         | Some (data_size, s1) \<Rightarrow>
             (case read_bytes (unat data_size) s1 of
                None \<Rightarrow> Inl bad_journal
              | Some (d, _) \<Rightarrow> FromBinary d data_size rid schema_size it))
      else Inr \<lparr>rec_id = rid, rec_fields = [VNull], rec_addr = None\<rparr>)"

definition revert_last :: "string \<Rightarrow> nat \<Rightarrow> interner \<Rightarrow> (journal, revert_result) st" where
  "revert_last time schema_size it j =
     (if jnl_pos j = 0 then (Inr no_track, j)
      else case read_u32 (drop (jnl_pos j - 4) (jnl_file j)) of
        None \<Rightarrow> (Inl bad_journal, j)
      | Some (track_size, _) \<Rightarrow>
          if jnl_pos j < unat track_size then (Inl bad_journal, j)
          else let p = jnl_pos j - unat track_size; j1 = j\<lparr>jnl_pos := p\<rparr>
          in (case read_bytes TIME_LEN (drop p (jnl_file j)) of
            None \<Rightarrow> (Inl bad_journal, j1)
          | Some (tb, s1) \<Rightarrow>
              if text_less (string_of tb) time then (Inr no_track, j)
              else (case read_u32 s1 of
                None \<Rightarrow> (Inl bad_journal, j1)
              | Some (rid, s2) \<Rightarrow>
                  (case read_u8 s2 of
                     None \<Rightarrow> (Inl bad_journal, j1)
                   | Some (ty, s3) \<Rightarrow>
                       (rmap (\<lambda>r. \<lparr>rv_time = string_of tb, rv_type = ty, rv_record = r\<rparr>)
                          (read_track_record ty rid s3 schema_size it), j1)))))"

section \<open>The journal is a stack of tracks\<close>

record track =
  trk_time :: string
  trk_type :: byte
  trk_id :: "32 word"
  trk_data :: "byte list"

definition encode_track :: "track \<Rightarrow> byte list" where
  "encode_track t = track_bytes (trk_time t) (trk_type t) (trk_id t) (trk_data t)"

definition wf_track :: "track \<Rightarrow> bool" where
  "wf_track t \<longleftrightarrow> length (trk_time t) = TIME_LEN \<and> length (trk_data t) + 100 < 2 ^ 32"

definition holds_tracks :: "journal \<Rightarrow> track list \<Rightarrow> bool" where
  "holds_tracks j ts \<longleftrightarrow> list_all wf_track ts \<and> jnl_pos j \<le> length (jnl_file j) \<and>
     take (jnl_pos j) (jnl_file j) = concat (map encode_track ts)"


lemma length_encode_track:
  "wf_track t \<Longrightarrow> length (encode_track t) = 32 + (if trk_data t = [] then 0 else 4 + length (trk_data t))"
  by (simp add: encode_track_def track_bytes_def Let_def wf_track_def TIME_LEN_def)

lemma encode_track_size:
  assumes "wf_track t"
  shows "\<exists>body. encode_track t = body @ enc32 (word_of_nat (length (encode_track t)))"
proof -
  let ?sz = "word_of_nat (TIME_LEN + 4 + 1 + 4) + (if trk_data t \<noteq> [] then word_of_nat (4 + length (trk_data t)) else 0) :: 32 word"
  have sz: "(word_of_nat (length (encode_track t)) :: 32 word) = ?sz"
    by (simp add: length_encode_track [OF assms] TIME_LEN_def)
  have "\<exists>body. encode_track t = body @ enc32 ?sz"
    unfolding encode_track_def track_bytes_def Let_def append_assoc [symmetric] by blast
  then show ?thesis by (simp only: sz)
qed

lemma encode_track_read:
  assumes "wf_track t"
  shows "encode_track t @ rest = bytes_of (trk_time t) @ enc32 (trk_id t) @ trk_type t #
    (if trk_data t \<noteq> [] then enc32 (word_of_nat (length (trk_data t))) @ trk_data t else []) @
    drop (length (encode_track t) - 4) (encode_track t) @ rest"
  using assms by (auto simp: length_encode_track encode_track_def track_bytes_def Let_def wf_track_def TIME_LEN_def)

lemma wf_track_length: "wf_track t \<Longrightarrow> unat (word_of_nat (length (encode_track t)) :: 32 word) = length (encode_track t)"
  by (auto simp: length_encode_track unat_of_nat wf_track_def simp del: of_nat_add of_nat_Suc)

lemma holds_tracks_open: "holds_tracks (open_journal None) []"
  by (simp add: holds_tracks_def open_journal_def)

lemma write_track_holds:
  assumes "holds_tracks j ts" "wf_track \<lparr>trk_time = time, trk_type = ty, trk_id = rid, trk_data = d\<rparr>"
  shows "holds_tracks (write_track time ty rid d j) (ts @ [\<lparr>trk_time = time, trk_type = ty, trk_id = rid, trk_data = d\<rparr>])"
  using assms by (auto simp: holds_tracks_def write_track_def truncate_to_last_def encode_track_def Let_def)

lemma holds_tracks_close: "holds_tracks j ts \<Longrightarrow> holds_tracks (open_journal (Some (jnl_file (journal_close j)))) ts"
  by (auto simp: holds_tracks_def journal_close_def truncate_to_last_def open_journal_def Let_def)

lemma holds_last:
  assumes "holds_tracks j (ts @ [t])"
  shows "length (encode_track t) \<le> jnl_pos j"
    and "holds_tracks (j\<lparr>jnl_pos := jnl_pos j - length (encode_track t)\<rparr>) ts"
    and "\<exists>rest. drop (jnl_pos j - length (encode_track t)) (jnl_file j) = encode_track t @ rest"
    and "\<exists>rest. drop (jnl_pos j - 4) (jnl_file j) = enc32 (word_of_nat (length (encode_track t))) @ rest"
proof -
  let ?b = "concat (map encode_track ts)"
  have tk: "take (jnl_pos j) (jnl_file j) = ?b @ encode_track t" and pos: "jnl_pos j \<le> length (jnl_file j)"
    and wf: "list_all wf_track ts" "wf_track t" using assms by (auto simp: holds_tracks_def)
  have len: "jnl_pos j = length ?b + length (encode_track t)" using arg_cong [OF tk, of length] pos by simp
  then show "length (encode_track t) \<le> jnl_pos j" by simp
  obtain rest where whole: "jnl_file j = ?b @ encode_track t @ rest"
    using tk append_take_drop_id [of "jnl_pos j" "jnl_file j"] by (metis append.assoc)
  show "holds_tracks (j\<lparr>jnl_pos := jnl_pos j - length (encode_track t)\<rparr>) ts"
    using len pos wf by (simp add: holds_tracks_def whole)
  show "\<exists>rest. drop (jnl_pos j - length (encode_track t)) (jnl_file j) = encode_track t @ rest"
    by (simp add: len whole)
  obtain body where body: "encode_track t = body @ enc32 (word_of_nat (length (encode_track t)))"
    using encode_track_size [OF wf(2)] by blast
  let ?e = "enc32 (word_of_nat (length (encode_track t)))"
  have blen: "length body + 4 = length (encode_track t)" using arg_cong [OF body, of length] by simp
  have "drop (length (?b @ body)) ((?b @ body) @ ?e @ rest) = ?e @ rest" by simp
  moreover have "jnl_file j = (?b @ body) @ ?e @ rest" unfolding whole by (subst body) simp
  moreover have "jnl_pos j - 4 = length (?b @ body)" using len blen by simp
  ultimately show "\<exists>rest. drop (jnl_pos j - 4) (jnl_file j) = ?e @ rest" by metis
qed

text \<open>What reverting the last track gives.\<close>

definition track_record :: "track \<Rightarrow> nat \<Rightarrow> interner \<Rightarrow> db_record result" where
  "track_record t schema_size it =
     (if trk_type t = INSERT_TRACK \<or> trk_type t = UPDATE_TRACK
      then FromBinary (trk_data t) (word_of_nat (length (trk_data t))) (trk_id t) schema_size it
      else Inr \<lparr>rec_id = trk_id t, rec_fields = [VNull], rec_addr = None\<rparr>)"

lemma revert_last_empty: "holds_tracks j [] \<Longrightarrow> revert_last time n it j = (Inr no_track, j)"
  by (auto simp: holds_tracks_def revert_last_def)

lemma revert_last_last:
  assumes "holds_tracks j (ts @ [t])" "trk_type t = DELETE_TRACK \<or> trk_data t \<noteq> []"
  shows "revert_last time n it j =
    (if text_less (trk_time t) time then (Inr no_track, j)
     else (rmap (\<lambda>r. \<lparr>rv_time = trk_time t, rv_type = trk_type t, rv_record = r\<rparr>) (track_record t n it),
           j\<lparr>jnl_pos := jnl_pos j - length (encode_track t)\<rparr>))"
proof -
  have wf: "wf_track t" using assms(1) by (simp add: holds_tracks_def)
  note h = holds_last [OF assms(1)] and len = wf_track_length [OF wf]
  obtain r4 where r4: "drop (jnl_pos j - 4) (jnl_file j) = enc32 (word_of_nat (length (encode_track t))) @ r4"
    using h(4) by blast
  obtain rt where rt: "drop (jnl_pos j - length (encode_track t)) (jnl_file j) = encode_track t @ rt" using h(3) by blast
  have pos: "jnl_pos j \<noteq> 0" using h(1) length_encode_track [OF wf] by auto
  have time: "length (bytes_of (trk_time t)) = TIME_LEN" using wf by (simp add: wf_track_def)
  have dlen: "unat (word_of_nat (length (trk_data t)) :: 32 word) = length (trk_data t)"
    using wf by (auto simp: wf_track_def unat_of_nat)
  show ?thesis
    using pos h(1) len time assms(2)
    by (auto simp: revert_last_def r4 rt encode_track_read [OF wf] read_bytes_append Let_def read_track_record_def
        track_record_def dlen track_defs)
qed

end
