(* ===== verification/Table_Store.thy ===== *)
theory Table_Store
  imports Index_Set Undo_Journal Slotted_Page
begin

text \<open>
  A table, \<open>apps/storage/src/table.cpp\<close>: the data pages, the interner of the strings, the schema and
  its file, the journal, the tree from identifiers to addresses and the secondary indexes. The
  operations are state transformers that may throw; what they have written when they throw stays.
  The system clock that stamps the journal's tracks is a part of the state: \<open>tbl_clock n\<close> is what its
  \<open>n\<close>-th reading gives.
\<close>

section \<open>State\<close>

record table =
  tbl_name :: string
  tbl_pager :: pager
  tbl_interner :: interner
  tbl_schema :: schema
  tbl_schema_file :: "byte list option"
  tbl_journal :: journal
  tbl_ids :: "(32 word, record_address) tree"
  tbl_indexes :: index_set
  tbl_clock :: "nat \<Rightarrow> string"
  tbl_now :: nat

definition id_params :: "32 word tree_params" where
  "id_params = \<lparr>geom = index_geometry, key0 = 0\<rparr>"

text \<open>Calls on the parts.\<close>

definition on_pager :: "(pager, 'a) st \<Rightarrow> (table, 'a) st" where
  "on_pager = on_part tbl_pager (\<lambda>p. tbl_pager_update (\<lambda>_. p))"

definition on_interner :: "(interner, 'a) st \<Rightarrow> (table, 'a) st" where
  "on_interner = on_part tbl_interner (\<lambda>p. tbl_interner_update (\<lambda>_. p))"

definition on_journal :: "(journal, 'a) st \<Rightarrow> (table, 'a) st" where
  "on_journal = on_part tbl_journal (\<lambda>p. tbl_journal_update (\<lambda>_. p))"

definition on_indexes :: "(index_set, 'a) st \<Rightarrow> (table, 'a) st" where
  "on_indexes = on_part tbl_indexes (\<lambda>p. tbl_indexes_update (\<lambda>_. p))"

lemmas on_defs = on_pager_def on_interner_def on_journal_def on_indexes_def

definition journal_save :: "(string \<Rightarrow> db_record \<Rightarrow> (journal, unit) st) \<Rightarrow> db_record \<Rightarrow> (table, unit) st" where
  "journal_save f r T = on_journal (f (tbl_clock T (tbl_now T)) r) (T\<lparr>tbl_now := tbl_now T + 1\<rparr>)"

text \<open>A call on the tree of identifiers; the tree is as before when it throws.\<close>

definition on_ids :: "((32 word, record_address) tree \<Rightarrow> ('a \<times> (32 word, record_address) tree) result) \<Rightarrow> (table, 'a) st" where
  "on_ids f T = (case f (tbl_ids T) of Inl e \<Rightarrow> (Inl e, T) | Inr (x, t) \<Rightarrow> (Inr x, T\<lparr>tbl_ids := t\<rparr>))"

definition ids_insert :: "32 word \<Rightarrow> record_address \<Rightarrow> (table, unit) st" where
  "ids_insert i a = on_ids (\<lambda>t. rmap (\<lambda>t'. ((), t')) (tree_insert id_params t i a))"

definition ids_update :: "32 word \<Rightarrow> record_address \<Rightarrow> (table, bool) st" where
  "ids_update i a = on_ids (\<lambda>t. tree_update t i a)"

definition ids_remove :: "32 word \<Rightarrow> (table, bool) st" where
  "ids_remove i = on_ids (\<lambda>t. tree_remove id_params t i)"

definition ids_search :: "32 word \<Rightarrow> (table, record_address list) st" where
  "ids_search i T = (tree_search (tbl_ids T) i, T)"

abbreviation schema_size :: "table \<Rightarrow> nat" where
  "schema_size T \<equiv> length (columns (tbl_schema T))"

text \<open>\<open>*optional\<close> and \<open>vector.back()\<close> on what may be empty.\<close>

definition deref :: "'a option \<Rightarrow> 'a result" where
  "deref x = (case x of Some y \<Rightarrow> Inr y | None \<Rightarrow> Inl (Undefined_Behaviour ''empty optional''))"

definition vec_back :: "'a list \<Rightarrow> 'a result" where
  "vec_back xs = (if xs = [] then Inl (Undefined_Behaviour ''back of an empty vector'') else Inr (last xs))"

definition sassert :: "bool \<Rightarrow> string \<Rightarrow> ('s, unit) st" where
  "sassert b what = (if b then sret () else sthrow (Assert_Failed what))"

section \<open>Reading\<close>

definition Table_read_record :: "table \<Rightarrow> record_address \<Rightarrow> db_record option result" where
  "Table_read_record T a =
     rbind (page_exists (tbl_pager T) (page_index a)) (\<lambda>ex.
       if \<not> ex then Inr None
       else rbind (open_page (tbl_pager T) (page_index a)) (\<lambda>raw.
         rmap (map_option (\<lambda>r. SetAddress r a)) (read_record raw (slot_idx a) (schema_size T) (tbl_interner T))))"

definition read_by_id :: "table \<Rightarrow> 32 word \<Rightarrow> db_record option result" where
  "read_by_id T i =
     rbind (tree_search (tbl_ids T) i) (\<lambda>as. if as = [] then Inr None else Table_read_record T (last as))"

fun records_from :: "table \<Rightarrow> 32 word list \<Rightarrow> db_record list result" where
  "records_from T [] = Inr []"
| "records_from T (i # is) =
     rbind (tree_search (tbl_ids T) i) (\<lambda>as.
       if as = [] then records_from T is
       else rbind (Table_read_record T (last as)) (\<lambda>found. rbind (deref found) (\<lambda>r. rmap ((#) r) (records_from T is))))"

definition records :: "table \<Rightarrow> db_record list result" where
  "records T = records_from T (map word_of_nat [0..<unat (record_id_count (tbl_schema T))])"

fun matching_records :: "table \<Rightarrow> nat \<Rightarrow> sql_value \<Rightarrow> record_address list \<Rightarrow> db_record list result" where
  "matching_records T i v [] = Inr []"
| "matching_records T i v (a # as) =
     rbind (Table_read_record T a) (\<lambda>r.
       case r of
         None \<Rightarrow> matching_records T i v as
       | Some r \<Rightarrow> rbind (field_of r i) (\<lambda>w.
           rmap (if StrictEq w v then (#) r else id) (matching_records T i v as)))"

definition find_by_index :: "table \<Rightarrow> string \<Rightarrow> sql_value \<Rightarrow> db_record list option result" where
  "find_by_index T name v =
     (let column_idx = nat (ColumnIndex (tbl_schema T) name) in
      rbind (IndexSet_Find (tbl_indexes T) (tbl_schema T) name v) (\<lambda>addresses.
        case addresses of
          None \<Rightarrow> Inr None
        | Some as \<Rightarrow> rmap Some (matching_records T column_idx v as)))"

section \<open>Making and checking a record\<close>

fun resolve_column_indices :: "schema \<Rightarrow> string list \<Rightarrow> nat list result" where
  "resolve_column_indices sc [] = Inr []"
| "resolve_column_indices sc (name # names) =
     (let i = ColumnIndex sc name in
      if i = -1 then Inl (unknown_column name)
      else rmap ((#) (nat i)) (resolve_column_indices sc names))"

definition set_field :: "db_record \<Rightarrow> nat \<Rightarrow> sql_value \<Rightarrow> db_record" where
  "set_field r i v = r\<lparr>rec_fields := (rec_fields r)[i := v]\<rparr>"

fun apply_defaults_from :: "column list \<Rightarrow> nat \<Rightarrow> nat list \<Rightarrow> db_record \<Rightarrow> (interner, db_record) st" where
  "apply_defaults_from [] i provided r = sret r"
| "apply_defaults_from (c # cs) i provided r =
     (if HasDefault c \<and> i \<notin> set provided then
        sbind (\<lambda>it. case DefaultValue c it of Inl e \<Rightarrow> (Inl e, it) | Inr (v, it') \<Rightarrow> (Inr v, it'))
          (\<lambda>v. apply_defaults_from cs (i + 1) provided (set_field r i v))
      else apply_defaults_from cs (i + 1) provided r)"

definition apply_defaults :: "schema \<Rightarrow> nat list \<Rightarrow> db_record \<Rightarrow> (interner, db_record) st" where
  "apply_defaults sc provided r = apply_defaults_from (columns sc) 0 provided r"

definition update_columns :: "db_record \<Rightarrow> sql_value list \<Rightarrow> nat list \<Rightarrow> db_record" where
  "update_columns r vs is = fold (\<lambda>(i, v) r. set_field r i v) (zip is vs) r"

definition make_record :: "32 word \<Rightarrow> sql_value list \<Rightarrow> string list \<Rightarrow> (table, db_record) st" where
  "make_record rid vs names T =
     (let sc = tbl_schema T; n = length (columns sc) in
      if names = [] then
        (if length vs \<noteq> n then
           sthrow (Runtime_Error (''Column count mismatch: expected '' @ show_nat n @ '', got '' @ show_nat (length vs)))
         else sret (mk_record rid vs)) T
      else if length vs \<noteq> length names then
        sthrow (Runtime_Error (''Values size and columns size mismatch: '' @ show_nat (length vs) @ '' != ''
          @ show_nat (length names) @ ''.'')) T
      else sbind (slift (resolve_column_indices sc names)) (\<lambda>is.
        sbind (slift (blank_record rid (word_of_nat n))) (\<lambda>r.
          sbind (on_interner (apply_defaults sc is r)) (\<lambda>r'. sret (update_columns r' vs is)))) T)"

definition type_error :: "column \<Rightarrow> string \<Rightarrow> sql_value \<Rightarrow> exn" where
  "type_error c expected v =
     Runtime_Error (''Column '' @ quoted (col_name c) @ '' expects '' @ expected @ '', got '' @ GetTypeName v)"

text \<open>One turn of the loop of \<open>validate_record\<close>.\<close>

definition validate_column :: "table \<Rightarrow> db_record \<Rightarrow> nat \<Rightarrow> unit result" where
  "validate_column T r i =
     (let c = columns (tbl_schema T) ! i in
      rbind (field_of r i) (\<lambda>v.
        if IsNotNull c \<and> IsNull v then
          Inl (Runtime_Error (''Column '' @ quoted (col_name c) @ '' cannot be NULL (NOT_NULL constraint)''))
        else if \<not> IsNull v \<and> Column_IsInt c \<and> \<not> IsInt v then Inl (type_error c ''INT'' v)
        else if \<not> IsNull v \<and> Column_IsString c \<and> \<not> IsString v then Inl (type_error c ''STRING'' v)
        else if \<not> IsIndexed c then Inr ()
        else rbind (HasDuplicate (Table_read_record T) (tbl_indexes T) (tbl_schema T) r i v) (\<lambda>duplicate.
          if \<not> duplicate then Inr ()
          else rbind (case v of VString s \<Rightarrow> View (tbl_interner T) s | _ \<Rightarrow> Inr (Value_ToString v)) (\<lambda>text.
            Inl (Runtime_Error (''Duplicate value for indexed column '' @ quoted (col_name c) @ '': '' @ text))))))"

definition validate_record :: "table \<Rightarrow> db_record \<Rightarrow> unit result" where
  "validate_record T r = rfold (\<lambda>_ i. validate_column T r i) () [0..<schema_size T]"

section \<open>Writing\<close>

text \<open>
  \<open>save_schema\<close> writes a temporary file and renames it. When the schema cannot be written only the
  temporary file is touched.
\<close>

definition save_schema :: "(table, unit) st" where
  "save_schema T =
     (case Schema_ToBinary (tbl_schema T) of
        None \<Rightarrow> (Inl (Runtime_Error ''Cannot write schema to file.''), T)
      | Some b \<Rightarrow> (Inr (), T\<lparr>tbl_schema_file := Some b\<rparr>))"

definition DATA_PAGE_WITH :: nat where "DATA_PAGE_WITH = 1"

text \<open>The first page of a list in which a record of \<open>free_space\<close> bytes fits.\<close>

fun first_fit :: "pager \<Rightarrow> 32 word \<Rightarrow> 32 word list \<Rightarrow> byte list option result" where
  "first_fit pg free_space [] = Inr None"
| "first_fit pg free_space (i # is) =
     rbind (open_page pg i) (\<lambda>raw.
       if is_record_fit raw free_space then rmap Some (open_page pg (hdr_page_id raw))
       else first_fit pg free_space is)"

definition find_enough_free_page :: "32 word \<Rightarrow> 32 word \<Rightarrow> (pager, byte list) st" where
  "find_enough_free_page free_space prefer_page_id pg =
     (if MAX_RECORD_SIZE < unat free_space then (Inl (Runtime_Error ''free_space > TablePage::MAX_RECORD_SIZE.''), pg)
      else sbind (slift (get_total_pages pg)) (\<lambda>total_pages.
        let prefer = (if 0 < prefer_page_id \<and> prefer_page_id < total_pages then [prefer_page_id] else []);
            candidates = prefer @ map word_of_nat [DATA_PAGE_WITH..<unat total_pages]
        in sbind (slift (first_fit pg free_space candidates)) (\<lambda>found.
          case found of
            Some raw \<Rightarrow> sret raw
          | None \<Rightarrow> (\<lambda>pg. case create_page pg of Inl e \<Rightarrow> (Inl e, case append_new_page pg of (pid, pg1) \<Rightarrow> write_page pg1 pid (fresh_page pid)) | Inr (raw, pg') \<Rightarrow> (Inr raw, pg')))) pg)"

text \<open>
  The part of \<open>write_record_to_disk\<close> that works on the pages: the address of the new cell. The slot
  number of a failed insertion would be \<open>-1\<close>, converted to 32 bits.
\<close>

definition store_bytes :: "32 word \<Rightarrow> byte list \<Rightarrow> 32 word \<Rightarrow> (pager, record_address) st" where
  "store_bytes rid dat prefer_page_id =
     sbind (find_enough_free_page (word_of_nat (length dat)) prefer_page_id) (\<lambda>raw pg.
       case insert_record pg raw rid dat of
         (slot, raw', pg') \<Rightarrow> (Inr \<lparr>page_index = hdr_page_id raw', slot_idx = word_of_int slot\<rparr>, pg'))"

definition write_record_to_disk :: "db_record \<Rightarrow> 32 word \<Rightarrow> (table, db_record) st" where
  "write_record_to_disk r prefer_page_id =
     sbind (slift (Serialize r)) (\<lambda>dat.
       sbind (on_pager (store_bytes (rec_id r) dat prefer_page_id)) (\<lambda>a. sret (SetAddress r a)))"

definition delete_at :: "record_address \<Rightarrow> (pager, unit) st" where
  "delete_at a pg =
     (case open_page pg (page_index a) of
        Inl e \<Rightarrow> (Inl e, pg)
      | Inr raw \<Rightarrow> (case delete_record pg raw (slot_idx a) of Inl e \<Rightarrow> (Inl e, pg) | Inr (_, pg') \<Rightarrow> (Inr (), pg')))"

section \<open>Changing the table\<close>

definition Table_insert_record :: "sql_value list \<Rightarrow> string list \<Rightarrow> (table, db_record) st" where
  "Table_insert_record vs names =
     sbind (sget (\<lambda>T. record_id_count (tbl_schema T))) (\<lambda>rid.
     sbind (make_record rid vs names) (\<lambda>r.
     sbind (\<lambda>T. (validate_record T r, T)) (\<lambda>_.
     sbind (journal_save save_insertion r) (\<lambda>_.
     sbind (supd (tbl_schema_update IncrementRecordIdCount)) (\<lambda>_.
     sbind save_schema (\<lambda>_.
     sbind (write_record_to_disk r 0) (\<lambda>r'.
     sbind (\<lambda>T. on_indexes (IndexSet_Insert (tbl_schema T) r') T) (\<lambda>_.
     sbind (slift (Address r')) (\<lambda>a.
     sbind (ids_insert (rec_id r') a) (\<lambda>_. sret r'))))))))))"

definition insert_multiple :: "sql_value list list \<Rightarrow> string list \<Rightarrow> (table, db_record list) st" where
  "insert_multiple rows names = smap (\<lambda>vs. Table_insert_record vs names) rows"

definition update_record :: "db_record \<Rightarrow> (table, db_record) st" where
  "update_record r =
     sbind (\<lambda>T. (validate_record T r, T)) (\<lambda>_.
     sbind (slift (Address r)) (\<lambda>a.
     sbind (\<lambda>T. (rbind (Table_read_record T a) deref, T)) (\<lambda>old_r.
     sbind (journal_save save_updation old_r) (\<lambda>_.
     sbind (on_pager (delete_at a)) (\<lambda>_.
     sbind (write_record_to_disk r (page_index a)) (\<lambda>r'.
     sbind (\<lambda>T. on_indexes (IndexSet_Update (tbl_schema T) old_r r') T) (\<lambda>_.
     sbind (slift (Address r')) (\<lambda>a'.
     sbind (ids_update (rec_id r') a') (\<lambda>_. sret r')))))))))"

text \<open>\<open>update_multiple\<close> goes on after an exception and collects the messages.\<close>

fun what_of :: "exn \<Rightarrow> string" where
  "what_of (Runtime_Error s) = s"
| "what_of (Out_Of_Range s) = s"
| "what_of (Invalid_Argument s) = s"
| "what_of (Parse_Error s) = s"
| "what_of (Json_Error s) = s"
| "what_of (Assert_Failed s) = s"
| "what_of (Undefined_Behaviour s) = s"

text \<open>A failed assertion ends the process and is not caught.\<close>

fun catchable :: "exn \<Rightarrow> bool" where
  "catchable (Assert_Failed _) = False"
| "catchable (Undefined_Behaviour _) = False"
| "catchable _ = True"

fun update_multiple :: "nat \<Rightarrow> db_record list \<Rightarrow> (table, (nat \<times> string) list) st" where
  "update_multiple i [] T = (Inr [], T)"
| "update_multiple i (r # rs) T =
     (case update_record r T of
        (Inr _, T') \<Rightarrow> update_multiple (i + 1) rs T'
      | (Inl e, T') \<Rightarrow>
          if catchable e then sbind (update_multiple (i + 1) rs) (\<lambda>es. sret ((i, what_of e) # es)) T' else (Inl e, T'))"

definition Table_delete_record :: "db_record \<Rightarrow> (table, unit) st" where
  "Table_delete_record r =
     sbind (journal_save save_deletion r) (\<lambda>_.
     sbind (slift (Address r)) (\<lambda>a.
     sbind (on_pager (delete_at a)) (\<lambda>_.
     sbind (\<lambda>T. on_indexes (IndexSet_Remove (tbl_schema T) r) T) (\<lambda>_.
     sbind (ids_remove (rec_id r)) (\<lambda>_. sret ())))))"

definition delete_multiple :: "db_record list \<Rightarrow> (table, unit) st" where
  "delete_multiple rs = siter Table_delete_record rs"

section \<open>Reverting\<close>

text \<open>One turn of the loop of \<open>revert\<close>, by the kind of the track.\<close>

definition revert_insert :: "db_record \<Rightarrow> (table, unit) st" where
  "revert_insert r =
     sbind (write_record_to_disk r 0) (\<lambda>r'.
     sbind (\<lambda>T. on_indexes (IndexSet_Insert (tbl_schema T) r') T) (\<lambda>_.
     sbind (slift (Address r')) (\<lambda>a. ids_insert (rec_id r') a)))"

definition revert_update :: "db_record \<Rightarrow> (table, unit) st" where
  "revert_update r =
     sbind (ids_search (rec_id r)) (\<lambda>as.
     sbind (sassert (length as = 1) ''_id_to_addr.search(record.Id()).size() == 1'') (\<lambda>_.
     sbind (slift (vec_back as)) (\<lambda>a.
     sbind (\<lambda>T. (rbind (Table_read_record T a) deref, T)) (\<lambda>current.
     sbind (on_pager (delete_at a)) (\<lambda>_.
     sbind (write_record_to_disk (SetAddress r a) (page_index a)) (\<lambda>r'.
     sbind (\<lambda>T. on_indexes (IndexSet_Update (tbl_schema T) current r') T) (\<lambda>_.
     sbind (slift (Address r')) (\<lambda>a'.
     sbind (ids_update (rec_id r') a') (\<lambda>_. sret ())))))))))"

definition revert_delete :: "db_record \<Rightarrow> (table, unit) st" where
  "revert_delete r =
     sbind (ids_search (rec_id r)) (\<lambda>as.
     sbind (sassert (length as = 1) ''_id_to_addr.search(record.Id()).size() == 1'') (\<lambda>_.
     sbind (slift (vec_back as)) (\<lambda>a.
     sbind (\<lambda>T. (rbind (open_page (tbl_pager T) (page_index a)) (\<lambda>raw.
       rbind (read_record raw (slot_idx a) (schema_size T) (tbl_interner T)) deref), T)) (\<lambda>real.
     sbind (on_pager (delete_at a)) (\<lambda>_.
     sbind (\<lambda>T. on_indexes (IndexSet_Remove (tbl_schema T) real) T) (\<lambda>_.
     sbind (ids_remove (rec_id r)) (\<lambda>_.
     sbind (\<lambda>T. sassert (rec_id r + 1 = record_id_count (tbl_schema T)) ''record.Id() + 1 == _schema.RecordIdCount()'' T) (\<lambda>_.
     supd (tbl_schema_update DecrementRecordIdCount)))))))))"

definition revert_track :: "byte \<Rightarrow> db_record \<Rightarrow> (table, unit) st" where
  "revert_track ty r =
     (if ty = INSERT_TRACK then revert_insert r
      else if ty = UPDATE_TRACK then revert_update r
      else if ty = DELETE_TRACK then revert_delete r
      else sret ())"

definition next_track :: "string \<Rightarrow> (table, revert_result) st" where
  "next_track time T = on_journal (revert_last time (schema_size T) (tbl_interner T)) T"

text \<open>
  The loop. Every turn moves the journal's position towards the front, by at least the 32 bytes of a
  track, so the position bounds the number of turns; a malformed journal may stop it earlier.
\<close>

fun revert_loop :: "nat \<Rightarrow> string \<Rightarrow> (table, unit) st" where
  "revert_loop 0 time = sthrow no_return"
| "revert_loop (Suc fuel) time =
     sbind (next_track time) (\<lambda>d.
       if rv_time d = [] then sret ()
       else sbind (revert_track (rv_type d) (rv_record d)) (\<lambda>_. revert_loop fuel time))"

definition Table_revert :: "string \<Rightarrow> (table, unit) st" where
  "Table_revert time =
     sbind (\<lambda>T. revert_loop (Suc (jnl_pos (tbl_journal T))) time T) (\<lambda>_. save_schema)"

end
