(* ===== verification/Data_Heap.thy ===== *)
theory Data_Heap
  imports Table_Store
begin

text \<open>
  The data pages of a table as a heap of records: \<open>record_heap\<close> is the contract on which the table
  relies, and the pager with its slotted pages provides it. The proofs about tables use only the
  contract.
\<close>

section \<open>The interface\<close>

locale record_heap =
  fixes ok :: "'h \<Rightarrow> bool"
    and pages :: "'h \<Rightarrow> nat"
    and meta :: "'h \<Rightarrow> 'm"
    and live :: "'h \<Rightarrow> 'a \<Rightarrow> 'r option"
    and fits :: "'r \<Rightarrow> bool"
    and put :: "'r \<Rightarrow> 'p \<Rightarrow> ('h, 'a) st"
    and del :: "'a \<Rightarrow> ('h, unit) st"
  assumes put_live: "ok h \<Longrightarrow> fits r \<Longrightarrow> pages h + 1 < 2 ^ 32 \<Longrightarrow>
      \<exists>a h'. put r p h = (Inr a, h') \<and> ok h' \<and> live h a = None \<and> live h' = (live h)(a \<mapsto> r) \<and> pages h' \<le> pages h + 1 \<and>
        meta h' = meta h"
    and del_live: "ok h \<Longrightarrow> live h a = Some r \<Longrightarrow>
      \<exists>h'. del a h = (Inr (), h') \<and> ok h' \<and> live h' = (live h)(a := None) \<and> pages h' = pages h \<and> meta h' = meta h"
begin

text \<open>Moving a record: what an update does to the heap.\<close>

lemma move_live:
  assumes "ok h" "live h a = Some r" "fits r'" "pages h + 1 < 2 ^ 32"
  shows "\<exists>b h1 h'. del a h = (Inr (), h1) \<and> put r' p h1 = (Inr b, h') \<and> ok h' \<and>
    live h' = (live h)(a := None, b \<mapsto> r') \<and> pages h' \<le> pages h + 1 \<and> (b = a \<or> live h b = None) \<and> meta h' = meta h"
proof -
  obtain h1 where h1: "del a h = (Inr (), h1)" "ok h1" "live h1 = (live h)(a := None)" "pages h1 = pages h"
    "meta h1 = meta h" using del_live [OF assms(1,2)] by blast
  obtain b h' where h': "put r' p h1 = (Inr b, h')" "ok h'" "live h1 b = None" "live h' = (live h1)(b \<mapsto> r')"
    "pages h' \<le> pages h1 + 1" "meta h' = meta h1"
    using put_live [OF h1(2) assms(3), of p] assms(4) h1(4) by auto
  have "b = a \<or> live h b = None" using h'(3) h1(3) by (auto split: if_splits)
  then show ?thesis using h1 h' by auto
qed

text \<open>Removing what was just put gives back the records that were there.\<close>

lemma put_del_live:
  assumes "ok h" "fits r" "pages h + 1 < 2 ^ 32"
  shows "\<exists>a h1 h'. put r p h = (Inr a, h1) \<and> del a h1 = (Inr (), h') \<and> ok h' \<and> live h' = live h"
proof -
  obtain a h1 where h1: "put r p h = (Inr a, h1)" "ok h1" "live h a = None" "live h1 = (live h)(a \<mapsto> r)"
    using put_live [OF assms, of p] by blast
  obtain h' where "del a h1 = (Inr (), h')" "ok h'" "live h' = (live h1)(a := None)"
    using del_live [OF h1(2), of a r] h1(4) by auto
  moreover have "(live h1)(a := None) = live h" using h1(3,4) by (auto simp: fun_eq_iff)
  ultimately show ?thesis using h1(1) by auto
qed

end

section \<open>The pages provide it\<close>

definition data_page :: "pager \<Rightarrow> 32 word \<Rightarrow> bool" where
  "data_page pg i \<longleftrightarrow> i \<noteq> 0 \<and> unat i < pager_total pg"

definition heap_ok :: "pager \<Rightarrow> bool" where
  "heap_ok pg \<longleftrightarrow> pager_inv pg \<and> page_size pg = PAGE_SIZE \<and> 1 \<le> pager_total pg \<and>
     (\<forall>i. data_page pg i \<longrightarrow> (\<exists>raw. open_page pg i = Inr raw \<and> page_inv raw))"

definition live :: "pager \<Rightarrow> record_address \<Rightarrow> (32 word \<times> byte list) option" where
  "live pg a =
     (if \<not> data_page pg (page_index a) then None
      else case open_page pg (page_index a) of
        Inl _ \<Rightarrow> None
      | Inr raw \<Rightarrow>
          if unat (slot_idx a) < length (cells raw) \<and> \<not> cdeleted (cells raw ! unat (slot_idx a))
          then Some (cid (cells raw ! unat (slot_idx a)), cdata (cells raw ! unat (slot_idx a))) else None)"

definition heap_put :: "32 word \<times> byte list \<Rightarrow> 32 word \<Rightarrow> (pager, record_address) st" where
  "heap_put x p = store_bytes (fst x) (snd x) p"

definition heap_fits :: "32 word \<times> byte list \<Rightarrow> bool" where
  "heap_fits x \<longleftrightarrow> length (snd x) \<le> MAX_RECORD_SIZE"

lemma open_page_facts: "open_page pg i = Inr raw \<Longrightarrow> read_page pg i = Inr raw \<and> hdr_page_id raw = i"
  by (auto simp: open_page_def result_iff split: if_splits)

lemma heap_ok_facts:
  assumes "heap_ok pg"
  shows "pager_inv pg" "page_size pg = PAGE_SIZE" "1 \<le> pager_total pg"
  using assms by (simp_all add: heap_ok_def)

lemma heap_page:
  assumes "heap_ok pg" "data_page pg i"
  obtains raw where "open_page pg i = Inr raw" "page_inv raw" "hdr_page_id raw = i"
  using assms open_page_facts unfolding heap_ok_def by blast

text \<open>Replacing one page, and what it means for the records.\<close>

lemma heap_write:
  assumes ok: "heap_ok pg" and i: "data_page pg i" and raw: "page_inv raw" "hdr_page_id raw = i"
  shows "heap_ok (write_page pg i raw)" "pager_total (write_page pg i raw) = pager_total pg"
    and "read_page (write_page pg i raw) 0 = read_page pg 0"
    and "open_page (write_page pg i raw) j = (if j = i then Inr raw else open_page pg j)"
proof -
  have inside: "unat i < pager_total pg" using i by (simp add: data_page_def)
  have fits: "pager_fits pg raw" using raw(1) heap_ok_facts(2) [OF ok] by (simp add: pager_fits_def page_inv_def)
  note inv = heap_ok_facts(1) [OF ok]
  show "read_page (write_page pg i raw) 0 = read_page pg 0"
    using pg.rd_wr [OF inv inside fits, of 0] i by (simp add: data_page_def)
  show op: "open_page (write_page pg i raw) j = (if j = i then Inr raw else open_page pg j)" for j
    using pg.rd_wr [OF inv inside fits] raw(2) by (simp add: open_page_def)
  show tot: "pager_total (write_page pg i raw) = pager_total pg" by (rule pg.wr_total [OF inv inside fits])
  have dp: "data_page (write_page pg i raw) j = data_page pg j" for j by (simp add: data_page_def tot)
  have "pager_inv (write_page pg i raw)" by (rule pg.wr_inv [OF inv inside fits])
  moreover have "page_size (write_page pg i raw) = PAGE_SIZE" using heap_ok_facts(2) [OF ok] by (simp add: write_page_def Let_def)
  ultimately show "heap_ok (write_page pg i raw)" using ok raw(1) by (auto simp: heap_ok_def op tot dp)
qed

lemma live_write:
  assumes "heap_ok pg" "data_page pg i" "page_inv raw" "hdr_page_id raw = i"
  shows "live (write_page pg i raw) a =
    (if page_index a = i then
       (if unat (slot_idx a) < length (cells raw) \<and> \<not> cdeleted (cells raw ! unat (slot_idx a))
        then Some (cid (cells raw ! unat (slot_idx a)), cdata (cells raw ! unat (slot_idx a))) else None)
     else live pg a)"
  using assms(2) by (simp add: live_def data_page_def heap_write(2,4) [OF assms])

lemma live_page:
  assumes "heap_ok pg" "open_page pg (page_index a) = Inr raw" "data_page pg (page_index a)"
  shows "live pg a = (if unat (slot_idx a) < length (cells raw) \<and> \<not> cdeleted (cells raw ! unat (slot_idx a))
    then Some (cid (cells raw ! unat (slot_idx a)), cdata (cells raw ! unat (slot_idx a))) else None)"
  using assms by (simp add: live_def)

lemma first_fit_result:
  assumes "heap_ok pg" "\<forall>i \<in> set is. data_page pg i"
  shows "first_fit pg n is = Inr None \<or>
    (\<exists>i raw. data_page pg i \<and> open_page pg i = Inr raw \<and> is_record_fit raw n \<and> first_fit pg n is = Inr (Some raw))"
  using assms(2)
proof (induction "is")
  case (Cons i "is")
  obtain raw where raw: "open_page pg i = Inr raw" "hdr_page_id raw = i"
    using heap_page [OF assms(1)] Cons.prems by (metis list.set_intros(1))
  then show ?case using Cons by (cases "is_record_fit raw n") auto
qed simp

lemma fit_space:
  assumes "page_inv raw" "is_record_fit raw (word_of_nat (length dat))" "length dat \<le> MAX_RECORD_SIZE"
  shows "sizeof_PageHeader + cells_space (cells raw) + sizeof_Cell + length dat \<le> PAGE_SIZE"
proof -
  have len: "unat (word_of_nat (length dat) :: 32 word) = length dat"
    using assms(3) by (simp add: unat_of_nat MAX_RECORD_SIZE_def layout_defs)
  have nf: "unat (next_free_offset raw) \<le> 4096" using assms(1) by (simp add: page_inv_def PAGE_SIZE_def)
  then have "unat (get_full_free_space_size raw) = 4096 - unat (next_free_offset raw)"
    by (simp add: get_full_free_space_size_def PAGE_SIZE_def unat_sub word_le_nat_alt)
  then show ?thesis
    using assms(2) len nf page_space [OF assms(1)] by (simp add: is_record_fit_def PAGE_SIZE_def)
qed

text \<open>A new page at the end, with nothing in it.\<close>

lemma create_page_heap:
  assumes ok: "heap_ok pg" and tot: "pager_total pg + 1 < 2 ^ 32"
  shows "\<exists>raw pg' i. create_page pg = Inr (raw, pg') \<and> heap_ok pg' \<and> data_page pg' i \<and> open_page pg' i = Inr raw \<and>
    cells raw = [] \<and> page_inv raw \<and> live pg' = live pg \<and> pager_total pg' = pager_total pg + 1 \<and>
    read_page pg' 0 = read_page pg 0 \<and> (\<forall>a. page_index a = i \<longrightarrow> live pg a = None)"
proof -
  obtain i pg1 where app: "append_new_page pg = (i, pg1)" by (cases "append_new_page pg")
  let ?raw = "fresh_page i" and ?pg = "write_page pg1 i (fresh_page i)"
  note inv = heap_ok_facts(1) [OF ok]
  have fits: "pager_fits pg ?raw" using heap_ok_facts(2) [OF ok] by (simp add: pager_fits_def fresh_page_fields)
  note aw = pg.append_write [OF inv tot app fits]
  have i: "unat i = pager_total pg" using pg.app_inv [OF inv tot app] by simp
  have op: "open_page ?pg i = Inr ?raw" using aw(3) by (simp add: open_page_def fresh_page_fields)
  have old: "open_page ?pg j = open_page pg j" if "unat j < pager_total pg" for j
    using aw(4) [OF that] by (simp add: open_page_def)
  have "read_page ?pg 0 = read_page pg 0" using aw(4) [of 0] heap_ok_facts(3) [OF ok] by simp
  moreover have dp: "data_page ?pg j \<longleftrightarrow> data_page pg j \<or> j = i" for j
    using i heap_ok_facts(3) [OF ok] by (auto simp: data_page_def aw(2) less_Suc_eq word_unat_eq_iff)
  moreover have nd: "\<not> data_page pg i" using i by (simp add: data_page_def)
  moreover have ps: "page_size ?pg = PAGE_SIZE"
    using app heap_ok_facts(2) [OF ok] by (auto simp: append_new_page_def write_page_def Let_def)
  moreover have "heap_ok ?pg"
    using ok aw(1,2) ps op fresh_page_inv(1) [of i] old by (auto simp: heap_ok_def dp) (auto simp: data_page_def)
  moreover have "live ?pg = live pg"
  proof
    fix a
    show "live ?pg a = live pg a"
      using op nd old by (auto simp: live_def dp fresh_page_inv(2)) (auto simp: data_page_def)
  qed
  moreover have "create_page pg = Inr (?raw, ?pg)" using app op by (simp add: create_page_def Let_def)
  ultimately show ?thesis
    using op dp aw(2) fresh_page_inv [of i] nd by (intro exI [of _ ?raw] exI [of _ ?pg] exI [of _ i]) (auto simp: live_def)
qed

section \<open>Putting and deleting\<close>

text \<open>A record goes to a page with room for it.\<close>

lemma put_on_page:
  assumes ok: "heap_ok pg" and raw: "data_page pg i" "open_page pg i = Inr raw"
    and space: "sizeof_PageHeader + cells_space (cells raw) + sizeof_Cell + length dat \<le> PAGE_SIZE"
    and len: "length dat \<le> MAX_RECORD_SIZE"
  shows "\<exists>slot raw' pg'. insert_record pg raw rid dat = (slot, raw', pg') \<and> hdr_page_id raw' = i \<and> heap_ok pg' \<and>
    live pg \<lparr>page_index = i, slot_idx = word_of_int slot\<rparr> = None \<and>
    live pg' = (live pg)(\<lparr>page_index = i, slot_idx = word_of_int slot\<rparr> \<mapsto> (rid, dat)) \<and> pager_total pg' = pager_total pg \<and>
    read_page pg' 0 = read_page pg 0"
proof -
  obtain slot raw' pg' where ins: "insert_record pg raw rid dat = (slot, raw', pg')" using prod_cases3 by blast
  have inv: "page_inv raw" "hdr_page_id raw = i"
    using heap_page [OF ok raw(1)] raw(2) by auto
  have e: "slot = int (length (cells raw))" "page_inv raw'" "hdr_page_id raw' = i"
    "cells raw' = cells raw @ [\<lparr>cid = rid, cdeleted = False, cdata = dat\<rparr>]" "pg' = write_page pg i raw'"
    using insert_record_cases [OF inv(1) len ins] space inv(2) by auto
  let ?a = "\<lparr>page_index = i, slot_idx = word_of_int slot\<rparr>"
  have s: "unat (word_of_int slot :: 32 word) = length (cells raw)" by (simp add: e(1))
  have "live pg ?a = None" using live_page [OF ok, of ?a raw] raw s by simp
  moreover have "live pg' = (live pg)(?a \<mapsto> (rid, dat))"
  proof
    fix a
    have pa: "live pg a = (if unat (slot_idx a) < length (cells raw) \<and> \<not> cdeleted (cells raw ! unat (slot_idx a))
        then Some (cid (cells raw ! unat (slot_idx a)), cdata (cells raw ! unat (slot_idx a))) else None)"
      if "page_index a = i" using that live_page [OF ok, of a raw] raw by simp
    have eq: "a = ?a \<longleftrightarrow> page_index a = i \<and> unat (slot_idx a) = length (cells raw)"
      using s by (cases a) (auto simp: word_unat_eq_iff)
    show "live pg' a = ((live pg)(?a \<mapsto> (rid, dat))) a"
      unfolding e(5) live_write [OF ok raw(1) e(2,3)] fun_upd_apply eq e(4)
      using pa by (auto simp: nth_append less_Suc_eq)
  qed
  ultimately show ?thesis using ins e(3,5) heap_write(1-3) [OF ok raw(1) e(2,3)] by auto
qed

lemma heap_put_live:
  assumes ok: "heap_ok pg" and fits: "heap_fits x" and tot: "pager_total pg + 1 < 2 ^ 32"
  shows "\<exists>a pg'. heap_put x p pg = (Inr a, pg') \<and> heap_ok pg' \<and> live pg a = None \<and> live pg' = (live pg)(a \<mapsto> x) \<and>
    pager_total pg' \<le> pager_total pg + 1 \<and> read_page pg' 0 = read_page pg 0"
proof -
  obtain rid dat where x: "x = (rid, dat)" by (cases x)
  have len: "length dat \<le> MAX_RECORD_SIZE" using fits x by (simp add: heap_fits_def)
  let ?n = "word_of_nat (length dat) :: 32 word"
  have n: "unat ?n = length dat" using len by (simp add: unat_of_nat MAX_RECORD_SIZE_def layout_defs)
  note t = get_total_pages_total [OF heap_ok_facts(1) [OF ok]]
  let ?pre = "if 0 < p \<and> p < word_of_nat (pager_total pg) then [p] else []"
  let ?is = "?pre @ map word_of_nat [DATA_PAGE_WITH..<pager_total pg]"
  have cand: "\<forall>i \<in> set ?is. data_page pg i"
  proof
    fix i assume "i \<in> set ?is"
    then consider "i = p" "0 < p" "p < word_of_nat (pager_total pg)" | k where "i = word_of_nat k" "1 \<le> k" "k < pager_total pg"
      by (auto simp: DATA_PAGE_WITH_def split: if_splits)
    then show "data_page pg i"
    proof cases
      case 1
      then show ?thesis using t(2) by (auto simp: data_page_def word_less_nat_alt)
    next
      case 2
      have "unat (word_of_nat k :: 32 word) = k" using 2(3) tot by (simp add: unat_of_nat)
      then show ?thesis using 2 by (auto simp: data_page_def)
    qed
  qed
  have "\<exists>raw pg1 i. find_enough_free_page ?n p pg = (Inr raw, pg1) \<and> heap_ok pg1 \<and> data_page pg1 i \<and>
      open_page pg1 i = Inr raw \<and> live pg1 = live pg \<and> pager_total pg1 \<le> pager_total pg + 1 \<and> read_page pg1 0 = read_page pg 0 \<and>
      sizeof_PageHeader + cells_space (cells raw) + sizeof_Cell + length dat \<le> PAGE_SIZE"
    using first_fit_result [OF ok cand, of ?n]
  proof (elim disjE exE conjE)
    assume none: "first_fit pg ?n ?is = Inr None"
    obtain raw pg1 i where c: "create_page pg = Inr (raw, pg1)" "heap_ok pg1" "data_page pg1 i" "open_page pg1 i = Inr raw"
      "cells raw = []" "live pg1 = live pg" "pager_total pg1 = pager_total pg + 1" "read_page pg1 0 = read_page pg 0"
      using create_page_heap [OF ok tot] by blast
    have "find_enough_free_page ?n p pg = (Inr raw, pg1)"
      using len n t none c(1) by (simp add: find_enough_free_page_def sbind_def st_simps_basic Let_def)
    moreover have "sizeof_PageHeader + cells_space (cells raw) + sizeof_Cell + length dat \<le> PAGE_SIZE"
      using c(5) len by (simp add: MAX_RECORD_SIZE_def layout_defs)
    ultimately show ?thesis using c by (intro exI [of _ raw] exI [of _ pg1] exI [of _ i]) simp
  next
    fix i raw
    assume f: "data_page pg i" "open_page pg i = Inr raw" "is_record_fit raw ?n" "first_fit pg ?n ?is = Inr (Some raw)"
    have inv: "page_inv raw" using heap_page [OF ok f(1)] f(2) by auto
    have "find_enough_free_page ?n p pg = (Inr raw, pg)"
      using len n t f(4) by (simp add: find_enough_free_page_def sbind_def st_simps_basic Let_def)
    then show ?thesis using ok f(1,2) fit_space [OF inv f(3) len] by (intro exI [of _ raw] exI [of _ pg] exI [of _ i]) simp
  qed
  then obtain raw pg1 i where f: "find_enough_free_page ?n p pg = (Inr raw, pg1)" "heap_ok pg1" "data_page pg1 i"
    "open_page pg1 i = Inr raw" "live pg1 = live pg" "pager_total pg1 \<le> pager_total pg + 1" "read_page pg1 0 = read_page pg 0"
    "sizeof_PageHeader + cells_space (cells raw) + sizeof_Cell + length dat \<le> PAGE_SIZE" by blast
  obtain slot raw' pg' where g: "insert_record pg1 raw rid dat = (slot, raw', pg')" "hdr_page_id raw' = i" "heap_ok pg'"
    "live pg1 \<lparr>page_index = i, slot_idx = word_of_int slot\<rparr> = None"
    "live pg' = (live pg1)(\<lparr>page_index = i, slot_idx = word_of_int slot\<rparr> \<mapsto> (rid, dat))" "pager_total pg' = pager_total pg1"
    "read_page pg' 0 = read_page pg1 0" using put_on_page [OF f(2-4,8) len, of rid] by blast
  have "heap_put x p pg = (Inr \<lparr>page_index = i, slot_idx = word_of_int slot\<rparr>, pg')"
    using f(1) g(1,2) x by (simp add: heap_put_def store_bytes_def sbind_def)
  then show ?thesis using g f(5-7) x by auto
qed

lemma heap_del_live:
  assumes ok: "heap_ok pg" and l: "live pg a = Some x"
  shows "\<exists>pg'. delete_at a pg = (Inr (), pg') \<and> heap_ok pg' \<and> live pg' = (live pg)(a := None) \<and> pager_total pg' = pager_total pg \<and>
    read_page pg' 0 = read_page pg 0"
proof -
  have dp: "data_page pg (page_index a)" using l by (auto simp: live_def split: if_splits)
  obtain raw where raw: "open_page pg (page_index a) = Inr raw" "page_inv raw" "hdr_page_id raw = page_index a"
    using heap_page [OF ok dp] by blast
  have s: "unat (slot_idx a) < unat (record_count raw)" "\<not> cdeleted (cells raw ! unat (slot_idx a))"
    using l live_page [OF ok raw(1) dp] by (auto split: if_splits)
  define raw' where "raw' = put_bytes raw (unat (CellAt raw (unat (slot_idx a))) + 8) [1]"
  note del = delete_refines [OF raw(2) s(1), folded raw'_def]
  have live_cell: "\<not> cell_deleted raw (unat (CellAt raw (unat (slot_idx a))))"
    using s page_inv_bounds(2) [OF raw(2), of "unat (slot_idx a)"] by (simp add: cells_def nth_cells_from cell_at_def)
  have h: "hdr_page_id raw' = page_index a" using del(2) raw(3) by simp
  have "delete_record pg raw (slot_idx a) = Inr (raw', write_page pg (page_index a) raw')"
    using s(1) live_cell h by (simp add: delete_record_def word_le_nat_alt save_to_disk_def raw'_def Let_def)
  then have d: "delete_at a pg = (Inr (), write_page pg (page_index a) raw')" using raw(1) by (simp add: delete_at_def)
  have "live (write_page pg (page_index a) raw') b = ((live pg)(a := None)) b" for b
  proof -
    have eq: "b = a \<longleftrightarrow> page_index b = page_index a \<and> unat (slot_idx b) = unat (slot_idx a)"
      by (cases a; cases b) (auto simp: word_unat_eq_iff)
    have pb: "live pg b = (if unat (slot_idx b) < length (cells raw) \<and> \<not> cdeleted (cells raw ! unat (slot_idx b))
        then Some (cid (cells raw ! unat (slot_idx b)), cdata (cells raw ! unat (slot_idx b))) else None)"
      if "page_index b = page_index a" using that live_page [OF ok, of b raw] raw(1) dp by simp
    show ?thesis unfolding live_write [OF ok dp del(1) h] fun_upd_apply eq del(3)
      using pb s(1) by (auto simp: nth_list_update)
  qed
  then show ?thesis using d heap_write(1-3) [OF ok dp del(1) h] by auto
qed

interpretation hp: record_heap heap_ok pager_total "\<lambda>pg. read_page pg 0" live heap_fits heap_put delete_at
proof (unfold_locales, goal_cases)
  case 1 then show ?case by (rule heap_put_live)
next
  case 2 then show ?case by (rule heap_del_live)
qed

section \<open>Reading\<close>

lemma live_bound: "live pg a \<noteq> None \<Longrightarrow> unat (page_index a) < pager_total pg"
  by (auto simp: live_def data_page_def split: if_splits)

lemma Table_read_live:
  assumes ok: "heap_ok (tbl_pager T)" and l: "live (tbl_pager T) a = Some (rid, payload vs)"
    and vs: "length vs = schema_size T" "\<forall>v \<in> set vs. known_value (tbl_interner T) v"
  shows "Table_read_record T a = Inr (Some (SetAddress (mk_record rid vs) a))"
proof -
  have dp: "data_page (tbl_pager T) (page_index a)" using l by (auto simp: live_def split: if_splits)
  obtain raw where raw: "open_page (tbl_pager T) (page_index a) = Inr raw" "page_inv raw"
    using heap_page [OF ok dp] by blast
  have s: "unat (slot_idx a) < length (cells raw)"
    "cells raw ! unat (slot_idx a) = \<lparr>cid = rid, cdeleted = False, cdata = payload vs\<rparr>"
    using l live_page [OF ok raw(1) dp] by (auto split: if_splits)
  have "page_exists (tbl_pager T) (page_index a) = Inr True"
    using get_total_pages_total [OF heap_ok_facts(1) [OF ok]] live_bound [of "tbl_pager T" a] l
    by (simp add: page_exists_def word_less_nat_alt)
  then show ?thesis
    using raw(1) read_record_payload [OF raw(2) s vs(2)] vs(1) by (simp add: Table_read_record_def)
qed

end
