(* ===== verification/Index_Facts.thy ===== *)
theory Index_Facts
  imports Index_Set
begin

text \<open>
  The secondary indexes as maps from values to addresses, one per indexed column, by way of the
  contract of \<open>Key_Index\<close>.
\<close>

section \<open>One index\<close>

definition LEAF_KEYS :: nat where "LEAF_KEYS = 337"
definition ROOT_KEYS :: nat where "ROOT_KEYS = 506"

lemma index_geometry_limits:
  "MAX_KEYS_LEAF index_geometry = LEAF_KEYS" "MAX_KEYS_INTERNAL index_geometry = ROOT_KEYS"
  by (simp_all add: capacity_defs index_geometry_def LEAF_KEYS_def ROOT_KEYS_def)

lemma params_geom [simp]: "geom int_params = index_geometry" "geom string_params = index_geometry"
  by (simp_all add: int_params_def string_params_def)

fun itree_rep :: "index_tree \<Rightarrow> (sql_value \<rightharpoonup> record_address) \<Rightarrow> nat \<Rightarrow> bool" where
  "itree_rep (Int_Index t) M n \<longleftrightarrow>
     (\<exists>m. index_rep int_params t m n \<and> dom m \<subseteq> range (sint :: 32 word \<Rightarrow> int) \<and>
       M = (\<lambda>v. case v of VInt w \<Rightarrow> m (sint w) | _ \<Rightarrow> None))"
| "itree_rep (String_Index t) M n \<longleftrightarrow>
     (\<exists>m. index_rep string_params t m n \<and> M = (\<lambda>v. case v of VString s \<Rightarrow> m s | _ \<Rightarrow> None))"

fun index_accepts :: "index_tree \<Rightarrow> sql_value \<Rightarrow> bool" where
  "index_accepts (Int_Index t) v \<longleftrightarrow> IsInt v"
| "index_accepts (String_Index t) v \<longleftrightarrow> IsString v"

lemma index_rep_finite: "index_rep P t m n \<Longrightarrow> finite (dom m)"
  by (auto simp: index_rep_def stores_def tree_map_def finite_dom_map_of)

text \<open>The keys of the tree and the values of the index are equally many.\<close>

lemma int_keys_card:
  assumes "finite (dom m)" "dom m \<subseteq> range (sint :: 32 word \<Rightarrow> int)"
  shows "card (dom m) = card (dom (\<lambda>v. case v of VInt w \<Rightarrow> m (sint w) | _ \<Rightarrow> None))"
proof -
  let ?D = "(sint :: 32 word \<Rightarrow> int) -` dom m"
  have inj: "inj (sint :: 32 word \<Rightarrow> int)" by (intro injI) (simp add: signed_eq_iff)
  have "x \<in> dom (\<lambda>v. case v of VInt w \<Rightarrow> m (sint w) | _ \<Rightarrow> None) \<longleftrightarrow> x \<in> VInt ` ?D" for x
    by (cases x) (auto simp: dom_def)
  then have "dom (\<lambda>v. case v of VInt w \<Rightarrow> m (sint w) | _ \<Rightarrow> None) = VInt ` ?D" by blast
  moreover have "card (VInt ` ?D) = card ?D" by (intro card_image) (auto simp: inj_on_def)
  moreover have "card (sint ` ?D) = card ?D" using inj by (intro card_image) (auto simp: inj_on_def)
  moreover have "sint ` ?D = dom m" using assms(2) by auto
  ultimately show ?thesis by simp
qed

lemma string_keys_card: "card (dom m) = card (dom (\<lambda>v. case v of VString s \<Rightarrow> m s | _ \<Rightarrow> None))"
proof -
  have "x \<in> dom (\<lambda>v. case v of VString s \<Rightarrow> m s | _ \<Rightarrow> None) \<longleftrightarrow> x \<in> VString ` dom m" for x
    by (cases x) auto
  then have "dom (\<lambda>v. case v of VString s \<Rightarrow> m s | _ \<Rightarrow> None) = VString ` dom m" by blast
  moreover have "card (VString ` dom m) = card (dom m)" by (intro card_image) (auto simp: inj_on_def)
  ultimately show ?thesis by simp
qed

lemma itree_search:
  assumes "itree_rep t M n" "index_accepts t v"
  shows "index_search t v = Inr (case M v of None \<Rightarrow> [] | Some a \<Rightarrow> [a])"
proof (cases t)
  case (Int_Index u)
  then obtain w where "v = VInt w" using assms(2) by (cases v) auto
  then show ?thesis using assms(1) Int_Index ix.lookup_rep by (fastforce simp: index_search_def)
next
  case (String_Index u)
  then obtain s where "v = VString s" using assms(2) by (cases v) auto
  then show ?thesis using assms(1) String_Index ix.lookup_rep by (fastforce simp: index_search_def)
qed

lemma itree_insert:
  assumes "itree_rep t M n" "index_accepts t v" "M v = None" "n \<le> ROOT_KEYS"
  shows "\<exists>t' n'. index_insert v a t = Inr t' \<and> itree_rep t' (M(v \<mapsto> a)) n' \<and> n' \<le> max 1 n + 1 \<and>
    (card (dom M) < LEAF_KEYS \<longrightarrow> n' \<le> max 1 n) \<and> index_accepts t' = index_accepts t"
proof (cases t)
  case (Int_Index u)
  then obtain w where v: "v = VInt w" using assms(2) by (cases v) auto
  obtain m where m: "index_rep int_params u m n" "dom m \<subseteq> range (sint :: 32 word \<Rightarrow> int)"
    "M = (\<lambda>v. case v of VInt w \<Rightarrow> m (sint w) | _ \<Rightarrow> None)" using assms(1) Int_Index by auto
  have "m (sint w) = None" using assms(3) m(3) v by simp
  from ix.ins_rep [OF m(1) this, of a] assms(4) obtain u' n' where
    u': "tree_insert int_params u (sint w) a = Inr u'" "index_rep int_params u' (m(sint w \<mapsto> a)) n'" "n' \<le> max 1 n + 1"
    "card (dom m) < LEAF_KEYS \<longrightarrow> n' \<le> max 1 n" by (auto simp: index_geometry_limits)
  have M': "M(v \<mapsto> a) = (\<lambda>v. case v of VInt w' \<Rightarrow> (m(sint w \<mapsto> a)) (sint w') | _ \<Rightarrow> None)"
    using m(3) v by (auto simp: signed_eq_iff fun_eq_iff split: sql_value.splits)
  have "dom (m(sint w \<mapsto> a)) \<subseteq> range (sint :: 32 word \<Rightarrow> int)" using m(2) by auto
  then have "itree_rep (Int_Index u') (M(v \<mapsto> a)) n'"
    unfolding itree_rep.simps M' using u'(2) by blast
  moreover have "index_insert v a t = Inr (Int_Index u')" using Int_Index v u'(1) by (simp add: index_insert_def)
  moreover have "card (dom M) = card (dom m)" unfolding m(3) by (rule int_keys_card [OF index_rep_finite [OF m(1)] m(2), symmetric])
  moreover have "index_accepts (Int_Index u') = index_accepts t" using Int_Index by (simp add: fun_eq_iff)
  ultimately show ?thesis using u'(3,4) by metis
next
  case (String_Index u)
  then obtain s where v: "v = VString s" using assms(2) by (cases v) auto
  obtain m where m: "index_rep string_params u m n"
    "M = (\<lambda>v. case v of VString s \<Rightarrow> m s | _ \<Rightarrow> None)" using assms(1) String_Index by auto
  have "m s = None" using assms(3) m(2) v by simp
  from ix.ins_rep [OF m(1) this, of a] assms(4) obtain u' n' where
    u': "tree_insert string_params u s a = Inr u'" "index_rep string_params u' (m(s \<mapsto> a)) n'" "n' \<le> max 1 n + 1"
    "card (dom m) < LEAF_KEYS \<longrightarrow> n' \<le> max 1 n" by (auto simp: index_geometry_limits)
  have M': "M(v \<mapsto> a) = (\<lambda>v. case v of VString s' \<Rightarrow> (m(s \<mapsto> a)) s' | _ \<Rightarrow> None)"
    using m(2) v by (auto simp: fun_eq_iff split: sql_value.splits)
  have "itree_rep (String_Index u') (M(v \<mapsto> a)) n'" unfolding itree_rep.simps M' using u'(2) by blast
  moreover have "index_insert v a t = Inr (String_Index u')" using String_Index v u'(1) by (simp add: index_insert_def)
  moreover have "card (dom M) = card (dom m)" unfolding m(2) by (rule string_keys_card [symmetric])
  moreover have "index_accepts (String_Index u') = index_accepts t" using String_Index by (simp add: fun_eq_iff)
  ultimately show ?thesis using u'(3,4) by metis
qed

lemma itree_remove:
  assumes "itree_rep t M n" "index_accepts t v" "n \<le> 1"
  shows "\<exists>t' n'. index_remove v t = Inr t' \<and> itree_rep t' (M(v := None)) n' \<and> n' \<le> 1 \<and> index_accepts t' = index_accepts t"
proof (cases t)
  case (Int_Index u)
  then obtain w where v: "v = VInt w" using assms(2) by (cases v) auto
  obtain m where m: "index_rep int_params u m n" "dom m \<subseteq> range (sint :: 32 word \<Rightarrow> int)"
    "M = (\<lambda>v. case v of VInt w \<Rightarrow> m (sint w) | _ \<Rightarrow> None)" using assms(1) Int_Index by auto
  from ix.del_rep [OF m(1) assms(3)] obtain u' n' where
    u': "tree_remove int_params u (sint w) = Inr (m (sint w) \<noteq> None, u')"
    "index_rep int_params u' (m(sint w := None)) n'" "n' \<le> 1" by blast
  have M': "M(v := None) = (\<lambda>v. case v of VInt w' \<Rightarrow> (m(sint w := None)) (sint w') | _ \<Rightarrow> None)"
    using m(3) v by (auto simp: signed_eq_iff fun_eq_iff split: sql_value.splits)
  have "dom (m(sint w := None)) \<subseteq> range (sint :: 32 word \<Rightarrow> int)" using m(2) by auto
  then have "itree_rep (Int_Index u') (M(v := None)) n'"
    unfolding itree_rep.simps M' using u'(2) by blast
  moreover have "index_remove v t = Inr (Int_Index u')" using Int_Index v u'(1) by (simp add: index_remove_def)
  moreover have "index_accepts (Int_Index u') = index_accepts t" using Int_Index by (simp add: fun_eq_iff)
  ultimately show ?thesis using u'(3) by metis
next
  case (String_Index u)
  then obtain s where v: "v = VString s" using assms(2) by (cases v) auto
  obtain m where m: "index_rep string_params u m n"
    "M = (\<lambda>v. case v of VString s \<Rightarrow> m s | _ \<Rightarrow> None)" using assms(1) String_Index by auto
  from ix.del_rep [OF m(1) assms(3)] obtain u' n' where
    u': "tree_remove string_params u s = Inr (m s \<noteq> None, u')" "index_rep string_params u' (m(s := None)) n'" "n' \<le> 1" by blast
  have M': "M(v := None) = (\<lambda>v. case v of VString s' \<Rightarrow> (m(s := None)) s' | _ \<Rightarrow> None)"
    using m(2) v by (auto simp: fun_eq_iff split: sql_value.splits)
  then have "itree_rep (String_Index u') (M(v := None)) n'"
    unfolding itree_rep.simps using u'(2) by blast
  moreover have "index_remove v t = Inr (String_Index u')" using String_Index v u'(1) by (simp add: index_remove_def)
  moreover have "index_accepts (String_Index u') = index_accepts t" using String_Index by (simp add: fun_eq_iff)
  ultimately show ?thesis using u'(3) by metis
qed

section \<open>The indexes of a table\<close>

definition column_takes :: "column \<Rightarrow> sql_value \<Rightarrow> bool" where
  "column_takes c v \<longleftrightarrow> Column_IsInt c \<and> IsInt v \<or> Column_IsString c \<and> IsString v"

definition index_at :: "column \<Rightarrow> (sql_value \<rightharpoonup> record_address) \<Rightarrow> nat \<Rightarrow> index_tree \<Rightarrow> bool" where
  "index_at c m L t \<longleftrightarrow> (\<exists>n. itree_rep t m n \<and> n \<le> L) \<and> index_accepts t = column_takes c"

definition indexes_rep ::
  "column list \<Rightarrow> index_set \<Rightarrow> (nat \<Rightarrow> sql_value \<rightharpoonup> record_address) \<Rightarrow> nat \<Rightarrow> bool" where
  "indexes_rep cs ixs M L \<longleftrightarrow>
     (\<forall>i < length cs. IsIndexed (cs ! i) \<longrightarrow> (\<exists>t. ixs (col_name (cs ! i)) = Some t \<and> index_at (cs ! i) (M i) L t))"

lemma indexes_repD:
  assumes "indexes_rep cs ixs M L" "i < length cs" "IsIndexed (cs ! i)"
  obtains t n where "ixs (col_name (cs ! i)) = Some t" "itree_rep t (M i) n" "n \<le> L" "index_accepts t = column_takes (cs ! i)"
  using assms by (auto simp: indexes_rep_def index_at_def)

lemma indexes_rep_mono: "indexes_rep cs ixs M L \<Longrightarrow> L \<le> L' \<Longrightarrow> indexes_rep cs ixs M L'"
  unfolding indexes_rep_def index_at_def by (meson le_trans)

lemma siter_snoc: "siter f (xs @ [x]) s = sbind (siter f xs) (\<lambda>_. f x) s"
proof (induction xs arbitrary: s)
  case (Cons y ys)
  then show ?case by (simp add: sbind_def split: prod.split sum.split)
qed (auto simp: st_simps sbind_def split: prod.split sum.split)

text \<open>A loop over the columns that replaces the tree of each indexed column.\<close>

lemma each_column:
  assumes dist: "distinct (map col_name cs)"
    and init: "\<And>i. i < length cs \<Longrightarrow> IsIndexed (cs ! i) \<Longrightarrow> \<exists>t. ixs (col_name (cs ! i)) = Some t \<and> R i t"
    and skip: "\<And>i x. i < length cs \<Longrightarrow> \<not> IsIndexed (cs ! i) \<Longrightarrow> step i x = (Inr (), x)"
    and visit: "\<And>i x t. i < length cs \<Longrightarrow> IsIndexed (cs ! i) \<Longrightarrow> x (col_name (cs ! i)) = Some t \<Longrightarrow> R i t \<Longrightarrow>
      \<exists>t'. step i x = (Inr (), x(col_name (cs ! i) \<mapsto> t')) \<and> Q i t'"
  shows "\<exists>ixs'. siter step [0..<length cs] ixs = (Inr (), ixs') \<and>
    (\<forall>i < length cs. IsIndexed (cs ! i) \<longrightarrow> (\<exists>t. ixs' (col_name (cs ! i)) = Some t \<and> Q i t))"
proof -
  have "\<exists>ixs'. siter step [0..<k] ixs = (Inr (), ixs') \<and>
    (\<forall>i < length cs. IsIndexed (cs ! i) \<longrightarrow>
       (\<exists>t. ixs' (col_name (cs ! i)) = Some t \<and> (if i < k then Q i t else R i t)))"
    if "k \<le> length cs" for k
    using that
  proof (induction k)
    case 0
    then show ?case using init by (simp add: st_simps)
  next
    case (Suc k)
    then obtain x where x: "siter step [0..<k] ixs = (Inr (), x)"
      "\<And>i. i < length cs \<Longrightarrow> IsIndexed (cs ! i) \<Longrightarrow>
        \<exists>t. x (col_name (cs ! i)) = Some t \<and> (if i < k then Q i t else R i t)" by auto
    have app: "siter step [0..<Suc k] ixs = step k x" using x(1) by (simp add: siter_snoc sbind_def)
    have k: "k < length cs" using Suc.prems by simp
    show ?case
    proof (cases "IsIndexed (cs ! k)")
      case True
      have names: "col_name (cs ! i) = col_name (cs ! k) \<longleftrightarrow> i = k" if "i < length cs" for i
        using dist that k nth_eq_iff_index_eq [of "map col_name cs" i k] by simp
      obtain t where "x (col_name (cs ! k)) = Some t" "R k t" using x(2) [OF k True] by auto
      from visit [OF k True, of x t, OF this] obtain t' where t': "step k x = (Inr (), x(col_name (cs ! k) \<mapsto> t'))" "Q k t'" by blast
      have "\<exists>t. (x(col_name (cs ! k) \<mapsto> t')) (col_name (cs ! i)) = Some t \<and> (if i < Suc k then Q i t else R i t)"
        if "i < length cs" "IsIndexed (cs ! i)" for i
        using x(2) [OF that] names [OF that(1)] t'(2) by (cases "i = k") (auto simp: less_Suc_eq)
      then show ?thesis using app t'(1) by auto
    next
      case False
      have "\<exists>t. x (col_name (cs ! i)) = Some t \<and> (if i < Suc k then Q i t else R i t)"
        if "i < length cs" "IsIndexed (cs ! i)" for i
        using x(2) [OF that] that(2) False by (cases "i = k") (auto simp: less_Suc_eq)
      then show ?thesis using app skip [OF k False] by auto
    qed
  qed
  from this [of "length cs"] show ?thesis by auto
qed

text \<open>A record whose values the indexes of the columns take.\<close>

definition fits_indexes :: "column list \<Rightarrow> sql_value list \<Rightarrow> bool" where
  "fits_indexes cs vs \<longleftrightarrow> length vs = length cs \<and> (\<forall>i < length cs. IsIndexed (cs ! i) \<longrightarrow> column_takes (cs ! i) (vs ! i))"

lemma fits_indexesD:
  assumes "fits_indexes cs vs" "i < length cs" "IsIndexed (cs ! i)"
  shows "column_takes (cs ! i) (vs ! i)" "\<not> IsNull (vs ! i)" "i < length vs"
  using assms by (auto simp: fits_indexes_def column_takes_def) (metis IsInt.simps IsNull.elims(2) IsString.simps)+

definition indexes_small :: "column list \<Rightarrow> (nat \<Rightarrow> sql_value \<rightharpoonup> record_address) \<Rightarrow> bool" where
  "indexes_small cs M \<longleftrightarrow> (\<forall>i < length cs. IsIndexed (cs ! i) \<longrightarrow> card (dom (M i)) < LEAF_KEYS)"

lemma indexes_insert:
  assumes ix: "indexes_rep (columns sc) ixs M L" and dist: "distinct (map col_name (columns sc))"
    and r: "fits_indexes (columns sc) (rec_fields r)" "rec_addr r = Some a" and L: "L \<le> ROOT_KEYS"
    and new: "\<And>i. i < length (columns sc) \<Longrightarrow> IsIndexed (columns sc ! i) \<Longrightarrow> M i (rec_fields r ! i) = None"
    and L': "L' = (if indexes_small (columns sc) M then max 1 L else max 1 L + 1)"
  shows "\<exists>ixs'. IndexSet_Insert sc r ixs = (Inr (), ixs') \<and>
    indexes_rep (columns sc) ixs' (\<lambda>i. (M i)(rec_fields r ! i \<mapsto> a)) L'"
  unfolding IndexSet_Insert_def IndexSet_ForEach_def indexes_rep_def
proof (rule each_column [OF dist, where R = "\<lambda>i. index_at (columns sc ! i) (M i) L"], goal_cases)
  case (1 i)
  then show ?case using ix by (simp add: indexes_rep_def)
next
  case (2 i x)
  then show ?case by (simp add: visit_column_def st_simps)
next
  case (3 i x t)
  note f = fits_indexesD [OF r(1) 3(1,2)]
  obtain n where n: "itree_rep t (M i) n" "n \<le> L" "index_accepts t = column_takes (columns sc ! i)"
    using 3(4) by (auto simp: index_at_def)
  have "index_accepts t (rec_fields r ! i)" "n \<le> ROOT_KEYS" using n f(1) L by auto
  from itree_insert [OF n(1) this(1) new [OF 3(1,2)] this(2), of a] obtain t' n' where
    t': "index_insert (rec_fields r ! i) a t = Inr t'" "itree_rep t' ((M i)(rec_fields r ! i \<mapsto> a)) n'" "n' \<le> max 1 n + 1"
    "card (dom (M i)) < LEAF_KEYS \<longrightarrow> n' \<le> max 1 n" "index_accepts t' = index_accepts t" by blast
  have "n' \<le> L'" using t'(3,4) n(2) 3(1,2) unfolding L' indexes_small_def by (auto simp: le_max_iff_disj max_def split: if_splits)
  moreover have "visit_column sc r (\<lambda>i c v. tree_step (\<lambda>t. rbind (Address r) (\<lambda>a. index_insert v a t))) i x =
      (Inr (), x(col_name (columns sc ! i) \<mapsto> t'))"
    using 3(2,3) f(2,3) t'(1) r(2)
    by (simp add: visit_column_def Let_def field_of_def st_simps index_of_def on_part_def tree_step_def Address_def)
  ultimately show ?case using t'(2,5) n(3) by (auto simp: index_at_def)
qed


lemma itree_rep_finite: "itree_rep t M n \<Longrightarrow> finite (dom M)"
proof (cases t)
  case (Int_Index u)
  assume "itree_rep t M n"
  then obtain m where m: "index_rep int_params u m n" "M = (\<lambda>v. case v of VInt w \<Rightarrow> m (sint w) | _ \<Rightarrow> None)"
    using Int_Index by auto
  have "x \<in> dom M \<longrightarrow> x \<in> VInt ` UNIV" for x unfolding m(2) by (cases x) auto
  then have "dom M \<subseteq> VInt ` UNIV" by blast
  then show ?thesis by (rule finite_subset) simp
next
  case (String_Index u)
  assume "itree_rep t M n"
  then obtain m where m: "index_rep string_params u m n" "M = (\<lambda>v. case v of VString s \<Rightarrow> m s | _ \<Rightarrow> None)"
    using String_Index by auto
  have "x \<in> dom M \<longrightarrow> x \<in> VString ` dom m" for x unfolding m(2) by (cases x) auto
  then have "dom M \<subseteq> VString ` dom m" by blast
  then show ?thesis by (rule finite_subset) (simp add: index_rep_finite [OF m(1)])
qed

lemma indexes_remove:
  assumes ix: "indexes_rep (columns sc) ixs M 1" and dist: "distinct (map col_name (columns sc))"
    and r: "fits_indexes (columns sc) (rec_fields r)"
  shows "\<exists>ixs'. IndexSet_Remove sc r ixs = (Inr (), ixs') \<and>
    indexes_rep (columns sc) ixs' (\<lambda>i. (M i)(rec_fields r ! i := None)) 1"
  unfolding IndexSet_Remove_def IndexSet_ForEach_def indexes_rep_def
proof (rule each_column [OF dist, where R = "\<lambda>i. index_at (columns sc ! i) (M i) 1"], goal_cases)
  case (1 i)
  then show ?case using ix by (simp add: indexes_rep_def)
next
  case (2 i x)
  then show ?case by (simp add: visit_column_def st_simps)
next
  case (3 i x t)
  note f = fits_indexesD [OF r 3(1,2)]
  obtain n where n: "itree_rep t (M i) n" "n \<le> 1" "index_accepts t = column_takes (columns sc ! i)"
    using 3(4) by (auto simp: index_at_def)
  have "index_accepts t (rec_fields r ! i)" using n f(1) by simp
  from itree_remove [OF n(1) this n(2)] obtain t' n' where
    t': "index_remove (rec_fields r ! i) t = Inr t'" "itree_rep t' ((M i)(rec_fields r ! i := None)) n'" "n' \<le> 1"
    "index_accepts t' = index_accepts t" by blast
  have "visit_column sc r (\<lambda>i c v. tree_step (index_remove v)) i x = (Inr (), x(col_name (columns sc ! i) \<mapsto> t'))"
    using 3(2,3) f(2,3) t'(1)
    by (simp add: visit_column_def Let_def field_of_def st_simps index_of_def on_part_def tree_step_def)
  then show ?case using t' n(3) by (auto simp: index_at_def)
qed

text \<open>
  Updating. A column whose value stays, in a record that stays where it is, keeps its tree; every other
  entry is removed and entered anew.
\<close>

lemma update_tree_rep:
  assumes t: "itree_rep t M n" "n \<le> 1" and v: "index_accepts t v" "index_accepts t w" "\<not> IsNull v" "\<not> IsNull w"
    and old: "M v \<noteq> None" and new: "M w = None \<or> w = v" and card: "card (dom M) \<le> LEAF_KEYS" and r: "rec_addr r = Some a"
  shows "\<exists>t' n'. update_tree v w r t = (Inr (), t') \<and> itree_rep t' (M(v := None, w \<mapsto> a)) n' \<and> n' \<le> 1 \<and>
    index_accepts t' = index_accepts t"
proof -
  obtain t1 n1 where t1: "index_remove v t = Inr t1" "itree_rep t1 (M(v := None)) n1" "n1 \<le> 1"
    "index_accepts t1 = index_accepts t" using itree_remove [OF t(1) v(1) t(2)] by blast
  have fin: "finite (dom M)" by (rule itree_rep_finite [OF t(1)])
  have "v \<in> dom M" using old by blast
  then have "card (dom M - {v}) < card (dom M)" using fin by (intro psubset_card_mono) auto
  then have small: "card (dom (M(v := None))) < LEAF_KEYS" using card by simp
  have acc: "index_accepts t1 w" using v(2) t1(4) by simp
  have free: "(M(v := None)) w = None" using new by auto
  have cap: "n1 \<le> ROOT_KEYS" using t1(3) by (simp add: ROOT_KEYS_def)
  from itree_insert [OF t1(2) acc free cap, of a] obtain t2 n2 where
    t2: "index_insert w a t1 = Inr t2" "itree_rep t2 (M(v := None, w \<mapsto> a)) n2"
    "card (dom (M(v := None))) < LEAF_KEYS \<longrightarrow> n2 \<le> max 1 n1" "index_accepts t2 = index_accepts t1" by blast
  have "n2 \<le> 1" using t2(3) small t1(3) by simp
  moreover have "update_tree v w r t = (Inr (), t2)"
    using v(3,4) t1(1) t2(1) r by (simp add: update_tree_def sbind_def tree_step_def Address_def)
  ultimately show ?thesis using t2(2,4) t1(4) by auto
qed

lemma indexes_update:
  assumes ix: "indexes_rep (columns sc) ixs M 1" and dist: "distinct (map col_name (columns sc))"
    and r: "fits_indexes (columns sc) (rec_fields old)" "fits_indexes (columns sc) (rec_fields r)"
      "rec_addr old = Some oa" "rec_addr r = Some a"
    and old: "\<And>i. i < length (columns sc) \<Longrightarrow> IsIndexed (columns sc ! i) \<Longrightarrow> M i (rec_fields old ! i) = Some oa"
    and new: "\<And>i. i < length (columns sc) \<Longrightarrow> IsIndexed (columns sc ! i) \<Longrightarrow>
      M i (rec_fields r ! i) = None \<or> rec_fields r ! i = rec_fields old ! i"
    and card: "\<And>i. i < length (columns sc) \<Longrightarrow> IsIndexed (columns sc ! i) \<Longrightarrow> card (dom (M i)) \<le> LEAF_KEYS"
  shows "\<exists>ixs'. IndexSet_Update sc old r ixs = (Inr (), ixs') \<and>
    indexes_rep (columns sc) ixs' (\<lambda>i. (M i)(rec_fields old ! i := None, rec_fields r ! i \<mapsto> a)) 1"
  unfolding IndexSet_Update_def indexes_rep_def
proof (rule each_column [OF dist, where R = "\<lambda>i. index_at (columns sc ! i) (M i) 1"], goal_cases)
  case (1 i)
  then show ?case using ix by (simp add: indexes_rep_def)
next
  case (2 i x)
  then show ?case by (simp add: update_column_def st_simps)
next
  case (3 i x t)
  let ?v = "rec_fields old ! i" and ?w = "rec_fields r ! i"
  note f = fits_indexesD [OF r(1) 3(1,2)] and g = fits_indexesD [OF r(2) 3(1,2)]
  obtain n where n: "itree_rep t (M i) n" "n \<le> 1" "index_accepts t = column_takes (columns sc ! i)"
    using 3(4) by (auto simp: index_at_def)
  have read: "field_of old i = Inr ?v" "field_of r i = Inr ?w" "Address old = Inr oa" "Address r = Inr a"
    using f(3) g(3) r(3,4) by (simp_all add: field_of_def Address_def)
  show ?case
  proof (cases "?v = ?w \<and> oa = a")
    case True
    have "update_column sc old r i x = (Inr (), x)"
      using True read 3(2,3) by (simp add: update_column_def Let_def st_simps index_of_def StrictEq_iff del: StrictEq.simps)
    moreover have "(M i)(?v := None, ?w \<mapsto> a) = M i" using old [OF 3(1,2)] True by (auto simp: fun_eq_iff)
    moreover have "x = x(col_name (columns sc ! i) \<mapsto> t)" using 3(3) by (auto simp: fun_eq_iff)
    ultimately show ?thesis using 3(4) by metis
  next
    case False
    have acc: "index_accepts t ?v" "index_accepts t ?w" using n(3) f(1) g(1) by simp_all
    have here: "M i ?v \<noteq> None" using old [OF 3(1,2)] by simp
    from update_tree_rep [OF n(1,2) acc f(2) g(2) here new [OF 3(1,2)] card [OF 3(1,2)] r(4)] obtain t' n' where
      t': "update_tree ?v ?w r t = (Inr (), t')" "itree_rep t' ((M i)(?v := None, ?w \<mapsto> a)) n'" "n' \<le> 1"
      "index_accepts t' = index_accepts t" by blast
    have "update_column sc old r i x = (Inr (), x(col_name (columns sc ! i) \<mapsto> t'))"
      using False read 3(2,3) t'(1) by (auto simp: update_column_def Let_def st_simps index_of_def StrictEq_iff on_part_def simp del: StrictEq.simps)
    then show ?thesis using t'(2-4) n(3) by (auto simp: index_at_def)
  qed
qed

text \<open>The check for duplicates asks whether another record has the value.\<close>

lemma duplicate_loop_other:
  assumes "column_index \<notin> set is" "\<And>i. i \<in> set is \<Longrightarrow> i < length (columns sc)"
    and "length (rec_fields r) = length (columns sc)" "indexes_rep (columns sc) ixs M L"
  shows "duplicate_loop reader ixs sc r column_index v is found = Inr found"
  using assms(1,2)
proof (induction "is")
  case (Cons i "is")
  have rest: "duplicate_loop reader ixs sc r column_index v is found = Inr found" using Cons by simp
  have i: "i < length (columns sc)" "i \<noteq> column_index" using Cons.prems by auto
  have read: "field_of r i = Inr (rec_fields r ! i)" using i(1) assms(3) by (simp add: field_of_def)
  show ?case
  proof (cases "IsIndexed (columns sc ! i)")
    case True
    then obtain t where "ixs (col_name (columns sc ! i)) = Some t" using indexes_repD [OF assms(4) i(1)] by metis
    then show ?thesis using rest read i(2) by (simp add: Let_def index_of_def)
  next
    case False
    then show ?thesis using rest by (simp add: Let_def)
  qed
qed simp

lemma duplicate_loop_append:
  "duplicate_loop reader ixs sc r k v (is @ js) found =
   rbind (duplicate_loop reader ixs sc r k v is found) (\<lambda>f. duplicate_loop reader ixs sc r k v js f)"
  by (induction "is" arbitrary: found) (auto intro!: rbind_cong simp: Let_def rbind_assoc)

lemma has_duplicate:
  assumes ix: "indexes_rep (columns sc) ixs M L" and len: "length (rec_fields r) = length (columns sc)"
    and takes: "column_takes (columns sc ! i) (rec_fields r ! i)"
    and i: "i < length (columns sc)" "IsIndexed (columns sc ! i)"
    and reader: "\<And>a. M i (rec_fields r ! i) = Some a \<Longrightarrow>
      \<exists>e. reader a = Inr (Some e) \<and> i < length (rec_fields e) \<and> rec_fields e ! i = rec_fields r ! i"
  shows "HasDuplicate reader ixs sc r i (rec_fields r ! i) =
    Inr (case M i (rec_fields r ! i) of None \<Rightarrow> False | Some a \<Rightarrow> rec_addr r \<noteq> Some a)"
proof -
  let ?cs = "columns sc" and ?v = "rec_fields r ! i"
  obtain t n where t: "ixs (col_name (?cs ! i)) = Some t" "itree_rep t (M i) n" "index_accepts t = column_takes (?cs ! i)"
    by (rule indexes_repD [OF ix i])
  have acc: "index_accepts t ?v" using t(3) takes by simp
  have f: "\<not> IsNull ?v" "i < length (rec_fields r)" using takes len i(1) by (auto simp: column_takes_def elim!: IsNull.elims)
  have split: "[0..<length ?cs] = [0..<i] @ i # [Suc i..<length ?cs]"
    using i(1) by (metis append_Cons less_imp_le_nat upt_conv_Cons upt_add_eq_append le0 le_add_diff_inverse)
  have pre: "duplicate_loop reader ixs sc r i ?v [0..<i] g = Inr g" for g
    using i(1) by (intro duplicate_loop_other [OF _ _ len ix]) auto
  have post: "duplicate_loop reader ixs sc r i ?v [Suc i..<length ?cs] g = Inr g" for g
    by (intro duplicate_loop_other [OF _ _ len ix]) auto
  have "rbind (index_search t ?v) (find_duplicate reader r i ?v) =
      Inr (case M i ?v of None \<Rightarrow> False | Some a \<Rightarrow> rec_addr r \<noteq> Some a)"
    using itree_search [OF t(2) acc] reader by (cases "M i ?v") (auto simp: field_of_def StrictEq_iff simp del: StrictEq.simps)
  then have "rbind (index_search t ?v) (\<lambda>as. rbind (find_duplicate reader r i ?v as) g) =
      g (case M i ?v of None \<Rightarrow> False | Some a \<Rightarrow> rec_addr r \<noteq> Some a)" for g :: "bool \<Rightarrow> bool result"
    by (metis rbind_assoc rbind.simps(2))
  then show ?thesis
    using i(2) t(1) f post
    by (auto simp: HasDuplicate_def split duplicate_loop_append pre Let_def field_of_def index_of_def)
qed

end
