(* ===== verification/Table_Facts.thy ===== *)
theory Table_Facts
  imports Data_Heap Index_Facts
begin

text \<open>
  What a table promises: its pages, its trees and its schema together hold a map from identifiers to
  rows. \<open>table_rep\<close> is the representation, and each operation of \<open>Table_Store\<close> is shown to change
  the map as its name says. The pages enter through the contract \<open>record_heap\<close>, the trees through
  \<open>key_index\<close>.
\<close>

section \<open>The representation\<close>

type_synonym rows = "32 word \<rightharpoonup> sql_value list"

text \<open>What \<open>validate_record\<close> checks of a value and of a row.\<close>

definition value_fits :: "column \<Rightarrow> sql_value \<Rightarrow> bool" where
  "value_fits c v \<longleftrightarrow> (if IsNull v then \<not> IsNotNull c else (Column_IsInt c \<longrightarrow> IsInt v) \<and> (Column_IsString c \<longrightarrow> IsString v))"

definition row_typed :: "column list \<Rightarrow> sql_value list \<Rightarrow> bool" where
  "row_typed cs vs \<longleftrightarrow> list_all2 value_fits cs vs"

definition fresh_values :: "column list \<Rightarrow> rows \<Rightarrow> 32 word \<Rightarrow> sql_value list \<Rightarrow> bool" where
  "fresh_values cs R k vs \<longleftrightarrow>
     (\<forall>i < length cs. IsIndexed (cs ! i) \<longrightarrow> (\<forall>k' ws. R k' = Some ws \<longrightarrow> k' \<noteq> k \<longrightarrow> ws ! i \<noteq> vs ! i))"

definition column_sound :: "column \<Rightarrow> bool" where
  "column_sound c \<longleftrightarrow> (Column_IsInt c \<or> Column_IsString c) \<and> (IsIndexed c \<longrightarrow> IsNotNull c)"

text \<open>The records of such a schema always fit on a page.\<close>

definition schema_sound :: "schema \<Rightarrow> bool" where
  "schema_sound sc \<longleftrightarrow> columns_to_binary (columns sc) \<noteq> None \<and> distinct (map col_name (columns sc)) \<and>
     columns sc \<noteq> [] \<and> 5 * length (columns sc) \<le> MAX_RECORD_SIZE \<and> (\<forall>c \<in> set (columns sc). column_sound c)"

definition points_to ::
  "column list \<Rightarrow> rows \<Rightarrow> (32 word \<rightharpoonup> record_address) \<Rightarrow> (nat \<Rightarrow> sql_value \<rightharpoonup> record_address) \<Rightarrow> bool" where
  "points_to cs R A M \<longleftrightarrow>
     (\<forall>i < length cs. IsIndexed (cs ! i) \<longrightarrow>
        (\<forall>v a. M i v = Some a \<longleftrightarrow> (\<exists>k vs. R k = Some vs \<and> A k = Some a \<and> vs ! i = v)))"

text \<open>
  \<open>table_rep T R A L\<close>: the table holds the rows \<open>R\<close>, each at its address in \<open>A\<close>, and no tree has more
  than \<open>L\<close> leaves. The live cells of the pages are exactly the rows.
\<close>

definition rows_ok :: "table \<Rightarrow> rows \<Rightarrow> bool" where
  "rows_ok T R \<longleftrightarrow>
     (\<forall>k vs. R k = Some vs \<longrightarrow> k < record_id_count (tbl_schema T) \<and> row_typed (columns (tbl_schema T)) vs \<and>
        (\<forall>v \<in> set vs. known_value (tbl_interner T) v))"

definition cells_ok :: "pager \<Rightarrow> rows \<Rightarrow> (32 word \<rightharpoonup> record_address) \<Rightarrow> bool" where
  "cells_ok pg R A \<longleftrightarrow> heap_ok pg \<and> dom A = dom R \<and>
     (\<forall>a x. live pg a = Some x \<longleftrightarrow> (\<exists>k vs. A k = Some a \<and> R k = Some vs \<and> x = (k, payload vs)))"

definition trees_ok :: "table \<Rightarrow> rows \<Rightarrow> (32 word \<rightharpoonup> record_address) \<Rightarrow> nat \<Rightarrow> bool" where
  "trees_ok T R A L \<longleftrightarrow> (\<exists>n \<le> L. index_rep id_params (tbl_ids T) A n) \<and>
     (\<exists>M. points_to (columns (tbl_schema T)) R A M \<and> indexes_rep (columns (tbl_schema T)) (tbl_indexes T) M L)"

definition table_rep :: "table \<Rightarrow> rows \<Rightarrow> (32 word \<rightharpoonup> record_address) \<Rightarrow> nat \<Rightarrow> bool" where
  "table_rep T R A L \<longleftrightarrow> interner_rep (tbl_interner T) \<and> schema_sound (tbl_schema T) \<and> rows_ok T R \<and>
     cells_ok (tbl_pager T) R A \<and> trees_ok T R A L"

lemma table_repD:
  assumes "table_rep T R A L"
  shows "interner_rep (tbl_interner T)" "schema_sound (tbl_schema T)" "rows_ok T R" "cells_ok (tbl_pager T) R A"
    "trees_ok T R A L" "heap_ok (tbl_pager T)" "dom A = dom R"
  using assms by (simp_all add: table_rep_def cells_ok_def)

text \<open>Typed rows.\<close>

lemma row_typed_length: "row_typed cs vs \<Longrightarrow> length vs = length cs"
  by (simp add: row_typed_def list_all2_lengthD)

lemma row_typed_iff: "row_typed cs vs \<longleftrightarrow> length vs = length cs \<and> (\<forall>i < length cs. value_fits (cs ! i) (vs ! i))"
  by (auto simp: row_typed_def list_all2_conv_all_nth)

lemma not_null_cases: "IsInt v \<Longrightarrow> \<not> IsNull v" "IsString v \<Longrightarrow> \<not> IsNull v"
  by (cases v; simp)+

lemma value_takes:
  assumes "column_sound c" "IsIndexed c" "value_fits c v"
  shows "column_takes c v"
  using assms by (auto simp: column_sound_def value_fits_def column_takes_def split: if_splits)

lemma row_typed_fits:
  assumes "schema_sound sc" "row_typed (columns sc) vs"
  shows "fits_indexes (columns sc) vs"
  using assms value_takes unfolding fits_indexes_def row_typed_iff schema_sound_def by auto

text \<open>Records are small enough for a page and are written as their payload.\<close>

lemma row_size:
  assumes "schema_sound sc" "length vs = length (columns sc)"
  shows "length (payload vs) \<le> MAX_RECORD_SIZE" "heap_fits (k, payload vs)"
    and "rec_fields r = vs \<Longrightarrow> Serialize r = Inr (payload vs)" "payload vs \<noteq> []"
proof -
  show len: "length (payload vs) \<le> MAX_RECORD_SIZE"
    using assms length_payload [of vs] by (simp add: schema_sound_def)
  then show "heap_fits (k, payload vs)" by (simp add: heap_fits_def)
  show "rec_fields r = vs \<Longrightarrow> Serialize r = Inr (payload vs)"
    using Serialize_payload [of r] len by (simp add: MAX_RECORD_SIZE_def layout_defs)
  have "vs \<noteq> []" using assms by (auto simp: schema_sound_def)
  then show "payload vs \<noteq> []" using length_AppendValue by (cases vs; cases "hd vs") auto
qed

section \<open>Reading\<close>

lemma live_row:
  assumes "cells_ok pg R A" "A k = Some a"
  obtains vs where "R k = Some vs" "live pg a = Some (k, payload vs)"
proof -
  have "k \<in> dom R" using assms by (auto simp: cells_ok_def)
  then obtain vs where "R k = Some vs" by blast
  then show thesis using that assms by (auto simp: cells_ok_def)
qed

lemma address_inj:
  assumes "cells_ok pg R A" "A k = Some a" "A k' = Some a"
  shows "k = k'"
  using live_row [OF assms(1,2)] live_row [OF assms(1,3)] by (metis option.inject prod.inject)

lemma read_row:
  assumes "table_rep T R A L" "A k = Some a" "R k = Some vs"
  shows "Table_read_record T a = Inr (Some (SetAddress (mk_record k vs) a))"
proof -
  have "live (tbl_pager T) a = Some (k, payload vs)"
    using live_row [OF table_repD(4) [OF assms(1)] assms(2)] assms(3) by (metis option.inject)
  then show ?thesis
    using table_repD(3) [OF assms(1)] assms(3)
    by (intro Table_read_live [OF table_repD(6) [OF assms(1)]]) (auto simp: rows_ok_def row_typed_length)
qed

lemma id_lookup:
  assumes "table_rep T R A L"
  shows "tree_search (tbl_ids T) k = Inr (case A k of None \<Rightarrow> [] | Some a \<Rightarrow> [a])"
  using table_repD(5) [OF assms] ix.lookup_rep unfolding trees_ok_def by blast

theorem read_by_id_row:
  assumes "table_rep T R A L"
  shows "read_by_id T k =
    Inr (case R k of None \<Rightarrow> None | Some vs \<Rightarrow> Some (SetAddress (mk_record k vs) (the (A k))))"
proof (cases "A k")
  case None
  then have "k \<notin> dom R" using table_repD(7) [OF assms] by blast
  then have "R k = None" by blast
  then show ?thesis using None id_lookup [OF assms, of k] by (simp add: read_by_id_def)
next
  case (Some a)
  obtain vs where "R k = Some vs" using live_row [OF table_repD(4) [OF assms] Some] by blast
  then show ?thesis using Some id_lookup [OF assms, of k] read_row [OF assms Some] by (simp add: read_by_id_def)
qed


text \<open>A full scan gives the rows in the order of their identifiers.\<close>

definition row_record :: "rows \<Rightarrow> (32 word \<rightharpoonup> record_address) \<Rightarrow> 32 word \<Rightarrow> db_record option" where
  "row_record R A k = (case (R k, A k) of (Some vs, Some a) \<Rightarrow> Some (SetAddress (mk_record k vs) a) | _ \<Rightarrow> None)"

lemma records_from_rows:
  assumes "table_rep T R A L"
  shows "records_from T ks = Inr (List.map_filter (row_record R A) ks)"
proof (induction ks)
  case (Cons k ks)
  show ?case
  proof (cases "A k")
    case None
    then show ?thesis using Cons id_lookup [OF assms, of k] by (simp add: row_record_def map_filter_simps split: option.splits)
  next
    case (Some a)
    obtain vs where "R k = Some vs" using live_row [OF table_repD(4) [OF assms] Some] by blast
    then show ?thesis using Cons Some id_lookup [OF assms, of k] read_row [OF assms Some]
      by (simp add: row_record_def map_filter_simps deref_def)
  qed
qed (simp add: map_filter_simps)

lemma records_rows:
  assumes "table_rep T R A L"
  shows "records T = Inr (List.map_filter (row_record R A) (map word_of_nat [0..<unat (record_id_count (tbl_schema T))]))"
  using records_from_rows [OF assms] by (simp add: records_def)

section \<open>Checking a record\<close>

text \<open>A check that passes or throws \<open>std::runtime_error\<close>.\<close>

definition checks :: "unit result \<Rightarrow> bool \<Rightarrow> bool" where
  "checks m b \<longleftrightarrow> (if b then m = Inr () else (\<exists>s. m = Inl (Runtime_Error s)))"

lemma checks_all:
  assumes "\<And>x. x \<in> set xs \<Longrightarrow> checks (f x) (P x)"
  shows "checks (rfold (\<lambda>_. f) () xs) (\<forall>x \<in> set xs. P x)"
  using assms
proof (induction xs)
  case (Cons x xs)
  have "checks (f x) (P x)" "checks (rfold (\<lambda>_. f) () xs) (\<forall>x \<in> set xs. P x)" using Cons by simp_all
  then show ?case by (cases "P x") (auto simp: checks_def)
qed (simp add: checks_def)

definition fresh_at :: "rows \<Rightarrow> 32 word \<Rightarrow> nat \<Rightarrow> sql_value \<Rightarrow> bool" where
  "fresh_at R k i v \<longleftrightarrow> (\<forall>k' ws. R k' = Some ws \<longrightarrow> k' \<noteq> k \<longrightarrow> ws ! i \<noteq> v)"

lemma duplicate_row:
  assumes T: "table_rep T R A L" and r: "length (rec_fields r) = schema_size T" "rec_addr r = A k"
    and i: "i < schema_size T" "IsIndexed (columns (tbl_schema T) ! i)"
    and fits: "value_fits (columns (tbl_schema T) ! i) (rec_fields r ! i)"
  shows "HasDuplicate (Table_read_record T) (tbl_indexes T) (tbl_schema T) r i (rec_fields r ! i) =
    Inr (\<not> fresh_at R k i (rec_fields r ! i))"
proof -
  let ?cs = "columns (tbl_schema T)" and ?v = "rec_fields r ! i"
  note cells = table_repD(4) [OF T]
  obtain M where M: "points_to ?cs R A M" "indexes_rep ?cs (tbl_indexes T) M L"
    using table_repD(5) [OF T] by (auto simp: trees_ok_def)
  have sound: "column_sound (?cs ! i)" using table_repD(2) [OF T] i(1) by (simp add: schema_sound_def)
  have pt: "M i ?v = Some a \<longleftrightarrow> (\<exists>k vs. R k = Some vs \<and> A k = Some a \<and> vs ! i = ?v)" for a
    using M(1) i by (simp add: points_to_def)
  have "HasDuplicate (Table_read_record T) (tbl_indexes T) (tbl_schema T) r i ?v =
    Inr (case M i ?v of None \<Rightarrow> False | Some a \<Rightarrow> rec_addr r \<noteq> Some a)"
  proof (rule has_duplicate [OF M(2) r(1) value_takes [OF sound i(2) fits] i], goal_cases)
    case (1 a)
    then obtain k' vs where k': "R k' = Some vs" "A k' = Some a" "vs ! i = ?v" using pt by blast
    have "length vs = schema_size T" using table_repD(3) [OF T] k'(1) row_typed_length by (auto simp: rows_ok_def)
    then show ?case using read_row [OF T k'(2,1)] k'(3) i(1) by (simp add: SetAddress_def mk_record_def)
  qed
  moreover have "(case M i ?v of None \<Rightarrow> False | Some a \<Rightarrow> rec_addr r \<noteq> Some a) \<longleftrightarrow> \<not> fresh_at R k i ?v"
  proof (cases "M i ?v")
    case None
    have "fresh_at R k i ?v" unfolding fresh_at_def
    proof (intro allI impI notI)
      fix k' ws assume k': "R k' = Some ws" "k' \<noteq> k" "ws ! i = ?v"
      have "k' \<in> dom A" using k'(1) table_repD(7) [OF T] by auto
      then obtain a where "A k' = Some a" by blast
      then have "M i ?v = Some a" using pt k' by blast
      then show False using None by simp
    qed
    then show ?thesis using None by simp
  next
    case (Some a)
    then obtain k' vs where k': "R k' = Some vs" "A k' = Some a" "vs ! i = ?v" using pt by blast
    have only: "q = k'" if "R q = Some ws" "ws ! i = ?v" for q ws
    proof -
      have "q \<in> dom A" using that(1) table_repD(7) [OF T] by auto
      then obtain b where b: "A q = Some b" by blast
      then have "M i ?v = Some b" using pt that by blast
      then show ?thesis using Some address_inj [OF cells b] k'(2) by simp
    qed
    have "fresh_at R k i ?v \<longleftrightarrow> k' = k" using only k'(1,3) unfolding fresh_at_def by metis
    moreover have "rec_addr r = Some a \<longleftrightarrow> k' = k" using r(2) k'(2) address_inj [OF cells] by metis
    ultimately show ?thesis using Some by simp
  qed
  ultimately show ?thesis by simp
qed

lemma column_checks:
  assumes T: "table_rep T R A L" and r: "length (rec_fields r) = schema_size T" "rec_addr r = A k"
    and known: "\<forall>v \<in> set (rec_fields r). known_value (tbl_interner T) v" and i: "i < schema_size T"
  shows "checks (validate_column T r i) (value_fits (columns (tbl_schema T) ! i) (rec_fields r ! i) \<and>
    (IsIndexed (columns (tbl_schema T) ! i) \<longrightarrow> fresh_at R k i (rec_fields r ! i)))"
proof -
  let ?c = "columns (tbl_schema T) ! i" and ?v = "rec_fields r ! i"
  have read: "field_of r i = Inr ?v" using r(1) i by (simp add: field_of_def)
  show ?thesis
  proof (cases "value_fits ?c ?v \<and> IsIndexed ?c")
    case True
    have "known_value (tbl_interner T) ?v" using known r(1) i by simp
    then have "\<exists>t. (case ?v of VString s \<Rightarrow> View (tbl_interner T) s | _ \<Rightarrow> Inr (Value_ToString ?v)) = Inr t"
      by (cases ?v) (auto simp: View_def)
    then show ?thesis
      using True duplicate_row [OF T r i] by (auto simp: checks_def validate_column_def read value_fits_def split: if_splits)
  next
    case False
    then show ?thesis by (auto simp: checks_def validate_column_def read value_fits_def type_error_def Let_def)
  qed
qed

lemma record_checks:
  assumes T: "table_rep T R A L" and r: "length (rec_fields r) = schema_size T" "rec_addr r = A k"
    and known: "\<forall>v \<in> set (rec_fields r). known_value (tbl_interner T) v"
  shows "checks (validate_record T r)
    (row_typed (columns (tbl_schema T)) (rec_fields r) \<and> fresh_values (columns (tbl_schema T)) R k (rec_fields r))"
proof -
  have "checks (validate_record T r) (\<forall>i \<in> set [0..<schema_size T].
      value_fits (columns (tbl_schema T) ! i) (rec_fields r ! i) \<and>
      (IsIndexed (columns (tbl_schema T) ! i) \<longrightarrow> fresh_at R k i (rec_fields r ! i)))"
    unfolding validate_record_def using column_checks [OF T r known] by (intro checks_all) simp
  moreover have "(\<forall>i \<in> set [0..<schema_size T].
      value_fits (columns (tbl_schema T) ! i) (rec_fields r ! i) \<and>
      (IsIndexed (columns (tbl_schema T) ! i) \<longrightarrow> fresh_at R k i (rec_fields r ! i))) \<longleftrightarrow>
    row_typed (columns (tbl_schema T)) (rec_fields r) \<and> fresh_values (columns (tbl_schema T)) R k (rec_fields r)"
    using r(1) by (auto simp: row_typed_iff fresh_values_def fresh_at_def)
  ultimately show ?thesis by simp
qed


section \<open>Rows coming and going\<close>

lemma cells_iff:
  "cells_ok pg R A \<Longrightarrow> live pg a = Some x \<longleftrightarrow> (\<exists>k vs. A k = Some a \<and> R k = Some vs \<and> x = (k, payload vs))"
  unfolding cells_ok_def by blast

lemma cells_dom: "cells_ok pg R A \<Longrightarrow> dom A = dom R"
  unfolding cells_ok_def by blast

lemma cells_put:
  assumes "cells_ok pg R A" "R k = None" "live pg a = None" "heap_ok pg'" "live pg' = (live pg)(a \<mapsto> (k, payload vs))"
  shows "cells_ok pg' (R(k \<mapsto> vs)) (A(k \<mapsto> a))"
proof -
  note dom = cells_dom [OF assms(1)] and l = cells_iff [OF assms(1)]
  have "k \<notin> dom A" unfolding dom using assms(2) by blast
  then have k: "A k = None" by blast
  have a: "A q \<noteq> Some a" for q
  proof
    assume q: "A q = Some a"
    then obtain ws where "live pg a = Some (q, payload ws)" using live_row [OF assms(1) q] by metis
    then show False using assms(3) by simp
  qed
  have "live pg' b = Some x \<longleftrightarrow>
      (\<exists>q ws. (A(k \<mapsto> a)) q = Some b \<and> (R(k \<mapsto> vs)) q = Some ws \<and> x = (q, payload ws))" for b x
  proof (cases "b = a")
    case True
    then show ?thesis using assms(5) a by auto
  next
    case False
    have "live pg' b = Some x \<longleftrightarrow> (\<exists>k vs. A k = Some b \<and> R k = Some vs \<and> x = (k, payload vs))"
      using False assms(5) l by simp
    moreover have "(A(k \<mapsto> a)) q = Some b \<longleftrightarrow> A q = Some b" for q using False k by simp
    moreover have "A q = Some b \<Longrightarrow> (R(k \<mapsto> vs)) q = R q" for q using k by auto
    ultimately show ?thesis by metis
  qed
  then show ?thesis using assms(4) dom by (simp add: cells_ok_def)
qed

lemma cells_del:
  assumes "cells_ok pg R A" "A k = Some a" "heap_ok pg'" "live pg' = (live pg)(a := None)"
  shows "cells_ok pg' (R(k := None)) (A(k := None))"
proof -
  note dom = cells_dom [OF assms(1)] and l = cells_iff [OF assms(1)]
  have inj: "A q = Some a \<longleftrightarrow> q = k" for q using address_inj [OF assms(1,2)] assms(2) by metis
  have "live pg' b = Some x \<longleftrightarrow>
      (\<exists>q ws. (A(k := None)) q = Some b \<and> (R(k := None)) q = Some ws \<and> x = (q, payload ws))" for b x
  proof (cases "b = a")
    case True
    then show ?thesis using assms(4) inj by auto
  next
    case False
    have "A q = Some b \<Longrightarrow> q \<noteq> k" for q using False assms(2) by auto
    then have "(\<exists>q ws. (A(k := None)) q = Some b \<and> (R(k := None)) q = Some ws \<and> x = (q, payload ws)) \<longleftrightarrow>
        (\<exists>q ws. A q = Some b \<and> R q = Some ws \<and> x = (q, payload ws))" by auto
    then show ?thesis using l [of b x] False assms(4) by simp
  qed
  then show ?thesis using assms(3) dom by (auto simp: cells_ok_def)
qed

lemma points_to_None:
  assumes "points_to cs R A M" "dom A = dom R" "i < length cs" "IsIndexed (cs ! i)" "fresh_at R k i v" "R k = None"
  shows "M i v = None"
proof (rule ccontr)
  assume "M i v \<noteq> None"
  then obtain q ws where "R q = Some ws" "ws ! i = v" using assms(1,3,4) unfolding points_to_def by blast
  then show False using assms(5,6) by (cases "q = k") (auto simp: fresh_at_def)
qed

lemma points_add:
  assumes "points_to cs R A M" "R k = None" "A k = None" "fresh_values cs R k vs"
  shows "points_to cs (R(k \<mapsto> vs)) (A(k \<mapsto> a)) (\<lambda>i. (M i)(vs ! i \<mapsto> a))"
  unfolding points_to_def
proof (intro allI impI)
  fix i v b assume i: "i < length cs" "IsIndexed (cs ! i)"
  have M: "M i v = Some b \<longleftrightarrow> (\<exists>k vs. R k = Some vs \<and> A k = Some b \<and> vs ! i = v)" using assms(1) i by (simp add: points_to_def)
  have fresh: "ws ! i \<noteq> vs ! i" if "R q = Some ws" "q \<noteq> k" for q ws
    using assms(4) i that by (simp add: fresh_values_def)
  show "((M i)(vs ! i \<mapsto> a)) v = Some b \<longleftrightarrow> (\<exists>q ws. (R(k \<mapsto> vs)) q = Some ws \<and> (A(k \<mapsto> a)) q = Some b \<and> ws ! i = v)"
  proof (cases "v = vs ! i")
    case True
    then show ?thesis using fresh by (auto split: if_splits)
  next
    case False
    then show ?thesis using M assms(2,3) by (auto split: if_splits) (metis option.distinct(1))
  qed
qed

lemma points_del:
  assumes M: "points_to cs R A M" and cells: "cells_ok pg R A" and k: "R k = Some vs"
  shows "points_to cs (R(k := None)) (A(k := None)) (\<lambda>i. (M i)(vs ! i := None))"
    and "i < length cs \<Longrightarrow> IsIndexed (cs ! i) \<Longrightarrow> M i (vs ! i) = A k"
proof -
  have "k \<in> dom A" using k cells by (auto simp: cells_ok_def)
  then obtain a where a: "A k = Some a" by blast
  have pt: "M i v = Some b \<longleftrightarrow> (\<exists>k vs. R k = Some vs \<and> A k = Some b \<and> vs ! i = v)"
    if "i < length cs" "IsIndexed (cs ! i)" for i v b using M that by (simp add: points_to_def)
  have here: "M i (vs ! i) = Some a" if "i < length cs" "IsIndexed (cs ! i)" for i using pt [OF that] k a by blast
  then show "i < length cs \<Longrightarrow> IsIndexed (cs ! i) \<Longrightarrow> M i (vs ! i) = A k" using a by simp
  have only: "q = k" if i: "i < length cs" "IsIndexed (cs ! i)" and q: "R q = Some ws" "A q = Some b" "ws ! i = vs ! i" for i q ws b
  proof -
    have "M i (vs ! i) = Some b" using pt [OF i] q by blast
    then show ?thesis using here [OF i] address_inj [OF cells q(2)] a by simp
  qed
  show "points_to cs (R(k := None)) (A(k := None)) (\<lambda>i. (M i)(vs ! i := None))"
    unfolding points_to_def
  proof (intro allI impI)
    fix i v b assume i: "i < length cs" "IsIndexed (cs ! i)"
    show "((M i)(vs ! i := None)) v = Some b \<longleftrightarrow> (\<exists>q ws. (R(k := None)) q = Some ws \<and> (A(k := None)) q = Some b \<and> ws ! i = v)"
    proof (cases "v = vs ! i")
      case True
      then show ?thesis using only [OF i] by (auto split: if_splits)
    next
      case False
      have "R q = Some ws \<Longrightarrow> ws ! i = v \<Longrightarrow> q \<noteq> k" for q ws using False k by auto
      then have "(\<exists>q ws. (R(k := None)) q = Some ws \<and> (A(k := None)) q = Some b \<and> ws ! i = v) \<longleftrightarrow>
          (\<exists>q ws. R q = Some ws \<and> A q = Some b \<and> ws ! i = v)" by auto
      then show ?thesis using pt [OF i, of v b] False by simp
    qed
  qed
qed

lemma points_card:
  assumes "points_to cs R A M" "i < length cs" "IsIndexed (cs ! i)"
  shows "card (dom (M i)) \<le> card (dom R)"
proof -
  have "dom (M i) \<subseteq> (\<lambda>k. the (R k) ! i) ` dom R"
  proof
    fix v assume "v \<in> dom (M i)"
    then obtain a where "M i v = Some a" by blast
    then obtain k vs where "R k = Some vs" "vs ! i = v" using assms unfolding points_to_def by blast
    then show "v \<in> (\<lambda>k. the (R k) ! i) ` dom R" by force
  qed
  then show ?thesis by (meson card_image_le card_mono finite finite_imageI le_trans)
qed

lemma rows_ok_upd:
  assumes "rows_ok T R" "k < record_id_count (tbl_schema T)" "row_typed (columns (tbl_schema T)) vs"
    "\<forall>v \<in> set vs. known_value (tbl_interner T) v"
  shows "rows_ok T (R(k \<mapsto> vs))"
  using assms by (simp add: rows_ok_def)

lemma rows_ok_del: "rows_ok T R \<Longrightarrow> rows_ok T (R(k := None))"
  by (simp add: rows_ok_def)

end
