(* ===== verification/Table_Ops.thy ===== *)
theory Table_Ops
  imports Table_Facts
begin

text \<open>
  The operations of a table on its representation: inserting, updating and deleting a row, and what
  each leaves of the rest of the table.
\<close>

section \<open>The common ends\<close>

text \<open>
  The last steps of inserting, updating and deleting are those of reverting the opposite: a record
  is written and entered in the trees, moved, or dropped.
\<close>

definition store_row :: "db_record \<Rightarrow> (table, db_record) st" where
  "store_row r =
     sbind (write_record_to_disk r 0) (\<lambda>r'.
     sbind (\<lambda>T. on_indexes (IndexSet_Insert (tbl_schema T) r') T) (\<lambda>_.
     sbind (slift (Address r')) (\<lambda>a.
     sbind (ids_insert (rec_id r') a) (\<lambda>_. sret r'))))"

definition move_row :: "record_address \<Rightarrow> db_record \<Rightarrow> db_record \<Rightarrow> (table, db_record) st" where
  "move_row a old r =
     sbind (on_pager (delete_at a)) (\<lambda>_.
     sbind (write_record_to_disk r (page_index a)) (\<lambda>r'.
     sbind (\<lambda>T. on_indexes (IndexSet_Update (tbl_schema T) old r') T) (\<lambda>_.
     sbind (slift (Address r')) (\<lambda>a'.
     sbind (ids_update (rec_id r') a') (\<lambda>_. sret r')))))"

definition drop_row :: "record_address \<Rightarrow> db_record \<Rightarrow> 32 word \<Rightarrow> (table, unit) st" where
  "drop_row a r k =
     sbind (on_pager (delete_at a)) (\<lambda>_.
     sbind (\<lambda>T. on_indexes (IndexSet_Remove (tbl_schema T) r) T) (\<lambda>_.
     sbind (ids_remove k) (\<lambda>_. sret ())))"

lemma Table_insert_record_ends:
  "Table_insert_record vs names =
     sbind (sget (\<lambda>T. record_id_count (tbl_schema T))) (\<lambda>rid.
     sbind (make_record rid vs names) (\<lambda>r.
     sbind (\<lambda>T. (validate_record T r, T)) (\<lambda>_.
     sbind (journal_save save_insertion r) (\<lambda>_.
     sbind (supd (tbl_schema_update IncrementRecordIdCount)) (\<lambda>_.
     sbind save_schema (\<lambda>_. store_row r))))))"
  by (simp add: Table_insert_record_def store_row_def)

lemma revert_insert_ends: "revert_insert r = sbind (store_row r) (\<lambda>_. sret ())"
  by (simp add: revert_insert_def store_row_def sbind_assoc sbind_unit sbind_basic)

lemma update_record_ends:
  "update_record r =
     sbind (\<lambda>T. (validate_record T r, T)) (\<lambda>_.
     sbind (slift (Address r)) (\<lambda>a.
     sbind (\<lambda>T. (rbind (Table_read_record T a) deref, T)) (\<lambda>old_r.
     sbind (journal_save save_updation old_r) (\<lambda>_. move_row a old_r r))))"
  by (simp add: update_record_def move_row_def)

lemma revert_update_ends:
  "revert_update r =
     sbind (ids_search (rec_id r)) (\<lambda>as.
     sbind (sassert (length as = 1) ''_id_to_addr.search(record.Id()).size() == 1'') (\<lambda>_.
     sbind (slift (vec_back as)) (\<lambda>a.
     sbind (\<lambda>T. (rbind (Table_read_record T a) deref, T)) (\<lambda>current.
     sbind (move_row a current (SetAddress r a)) (\<lambda>_. sret ())))))"
  by (simp add: revert_update_def move_row_def sbind_assoc sbind_basic)

lemma Table_delete_record_ends:
  "Table_delete_record r =
     sbind (journal_save save_deletion r) (\<lambda>_.
     sbind (slift (Address r)) (\<lambda>a. drop_row a r (rec_id r)))"
  by (simp add: Table_delete_record_def drop_row_def)

lemma revert_delete_ends:
  "revert_delete r =
     sbind (ids_search (rec_id r)) (\<lambda>as.
     sbind (sassert (length as = 1) ''_id_to_addr.search(record.Id()).size() == 1'') (\<lambda>_.
     sbind (slift (vec_back as)) (\<lambda>a.
     sbind (\<lambda>T. (rbind (open_page (tbl_pager T) (page_index a)) (\<lambda>raw.
       rbind (read_record raw (slot_idx a) (schema_size T) (tbl_interner T)) deref), T)) (\<lambda>real.
     sbind (drop_row a real (rec_id r)) (\<lambda>_.
     sbind (\<lambda>T. sassert (rec_id r + 1 = record_id_count (tbl_schema T)) ''record.Id() + 1 == _schema.RecordIdCount()'' T) (\<lambda>_.
     supd (tbl_schema_update DecrementRecordIdCount)))))))"
  by (simp add: revert_delete_def drop_row_def sbind_assoc sbind_basic)

section \<open>Writing a record\<close>

text \<open>What may change while rows come and go.\<close>

definition parts_changed :: "table \<Rightarrow> table \<Rightarrow> bool" where
  "parts_changed T T' \<longleftrightarrow>
     T' = T\<lparr>tbl_pager := tbl_pager T', tbl_ids := tbl_ids T', tbl_indexes := tbl_indexes T'\<rparr> \<and>
     pager_total (tbl_pager T') \<le> pager_total (tbl_pager T) + 1 \<and>
     read_page (tbl_pager T') 0 = read_page (tbl_pager T) 0"

lemma write_row:
  assumes "schema_sound (tbl_schema T)" "length (rec_fields r) = schema_size T" "heap_ok (tbl_pager T)"
    and "pager_total (tbl_pager T) + 1 < 2 ^ 32"
  shows "\<exists>a pg. write_record_to_disk r p T = (Inr (SetAddress r a), T\<lparr>tbl_pager := pg\<rparr>) \<and> heap_ok pg \<and>
    live (tbl_pager T) a = None \<and> live pg = (live (tbl_pager T))(a \<mapsto> (rec_id r, payload (rec_fields r))) \<and>
    pager_total pg \<le> pager_total (tbl_pager T) + 1 \<and> read_page pg 0 = read_page (tbl_pager T) 0"
proof -
  note sz = row_size [OF assms(1,2)]
  obtain a pg where "heap_put (rec_id r, payload (rec_fields r)) p (tbl_pager T) = (Inr a, pg)" "heap_ok pg"
    "live (tbl_pager T) a = None" "live pg = (live (tbl_pager T))(a \<mapsto> (rec_id r, payload (rec_fields r)))"
    "pager_total pg \<le> pager_total (tbl_pager T) + 1" "read_page pg 0 = read_page (tbl_pager T) 0"
    using hp.put_live [OF assms(3) sz(2) assms(4)] by blast
  then show ?thesis
    using sz(3) [OF refl] by (auto simp: write_record_to_disk_def st_simps on_pager_def on_part_def heap_put_def sbind_def)
qed


lemma Address_SetAddress [simp]: "Address (SetAddress r a) = Inr a"
  by (simp add: Address_def SetAddress_def)

lemma SetAddress_fields [simp]:
  "rec_id (SetAddress r a) = rec_id r" "rec_fields (SetAddress r a) = rec_fields r" "rec_addr (SetAddress r a) = Some a"
  by (simp_all add: SetAddress_def)

lemma mk_record_fields [simp]: "rec_id (mk_record k vs) = k" "rec_fields (mk_record k vs) = vs" "rec_addr (mk_record k vs) = None"
  by (simp_all add: mk_record_def)

lemma rows_ok_cong:
  "tbl_schema T' = tbl_schema T \<Longrightarrow> tbl_interner T' = tbl_interner T \<Longrightarrow> rows_ok T' R = rows_ok T R"
  by (simp add: rows_ok_def)

lemma id_params_limits: "MAX_KEYS_LEAF (geom id_params) = LEAF_KEYS" "MAX_KEYS_INTERNAL (geom id_params) = ROOT_KEYS"
  by (simp_all add: id_params_def index_geometry_limits)

definition more_leaves :: "rows \<Rightarrow> nat \<Rightarrow> nat" where
  "more_leaves R L = (if card (dom R) < LEAF_KEYS then max 1 L else max 1 L + 1)"

lemma store_row_rep:
  assumes T: "table_rep T R A L" and k: "R k = None" "k < record_id_count (tbl_schema T)"
    and vs: "row_typed (columns (tbl_schema T)) vs" "\<forall>v \<in> set vs. known_value (tbl_interner T) v"
      "fresh_values (columns (tbl_schema T)) R k vs"
    and r: "rec_id r = k" "rec_fields r = vs"
    and room: "L \<le> ROOT_KEYS" "pager_total (tbl_pager T) + 1 < 2 ^ 32"
  shows "\<exists>a T'. store_row r T = (Inr (SetAddress r a), T') \<and> table_rep T' (R(k \<mapsto> vs)) (A(k \<mapsto> a)) (more_leaves R L) \<and>
    parts_changed T T'"
proof -
  let ?cs = "columns (tbl_schema T)"
  note rep = table_repD [OF T]
  have len: "length (rec_fields r) = schema_size T" using row_typed_length [OF vs(1)] r(2) by simp
  obtain a pg where w: "write_record_to_disk r 0 T = (Inr (SetAddress r a), T\<lparr>tbl_pager := pg\<rparr>)" "heap_ok pg"
    "live (tbl_pager T) a = None" "live pg = (live (tbl_pager T))(a \<mapsto> (k, payload vs))"
    "pager_total pg \<le> pager_total (tbl_pager T) + 1" "read_page pg 0 = read_page (tbl_pager T) 0"
    using write_row [OF rep(2) len rep(6) room(2), of 0] r by auto
  obtain n M where tr: "n \<le> L" "index_rep id_params (tbl_ids T) A n" "points_to ?cs R A M" "indexes_rep ?cs (tbl_indexes T) M L"
    using rep(5) by (auto simp: trees_ok_def)
  have "k \<notin> dom A" using rep(7) k(1) by auto
  then have Ak: "A k = None" by blast
  have fit: "fits_indexes ?cs (rec_fields (SetAddress r a))" using row_typed_fits [OF rep(2) vs(1)] r(2) by simp
  have dist: "distinct (map col_name ?cs)" using rep(2) by (simp add: schema_sound_def)
  have new: "M i (rec_fields (SetAddress r a) ! i) = None" if i: "i < length ?cs" "IsIndexed (?cs ! i)" for i
    using points_to_None [OF tr(3) rep(7) i _ k(1)] vs(3) i r(2) by (simp add: fresh_values_def fresh_at_def)
  let ?L = "if indexes_small ?cs M then max 1 L else max 1 L + 1"
  obtain ixs where ins: "IndexSet_Insert (tbl_schema T) (SetAddress r a) (tbl_indexes T) = (Inr (), ixs)"
    "indexes_rep ?cs ixs (\<lambda>i. (M i)(vs ! i \<mapsto> a)) ?L"
    using indexes_insert [OF tr(4) dist fit _ room(1) new refl] r(2) by auto
  have cap: "n \<le> MAX_KEYS_INTERNAL (geom id_params)" using tr(1) room(1) by (simp add: id_params_limits)
  from ix.ins_rep [OF tr(2) Ak cap, of a] obtain t n' where t: "tree_insert id_params (tbl_ids T) k a = Inr t"
    "index_rep id_params t (A(k \<mapsto> a)) n'" "n' \<le> max 1 n + 1" "card (dom A) < LEAF_KEYS \<longrightarrow> n' \<le> max 1 n"
    by (auto simp: id_params_limits)
  let ?T = "T\<lparr>tbl_pager := pg, tbl_indexes := ixs, tbl_ids := t\<rparr>"
  have run: "store_row r T = (Inr (SetAddress r a), ?T)"
    using w(1) ins(1) t(1) r(1)
    by (simp add: store_row_def sbind_def on_indexes_def on_part_def st_simps_basic ids_insert_def on_ids_def)
  have small: "indexes_small ?cs M" if "card (dom R) < LEAF_KEYS"
    using points_card [OF tr(3)] that le_less_trans unfolding indexes_small_def by blast
  have "n' \<le> more_leaves R L" using t(3,4) tr(1) rep(7) by (auto simp: more_leaves_def max_def split: if_splits)
  moreover have "indexes_rep ?cs ixs (\<lambda>i. (M i)(vs ! i \<mapsto> a)) (more_leaves R L)"
    using ins(2) small by (auto simp: more_leaves_def elim!: indexes_rep_mono split: if_splits)
  moreover have "points_to ?cs (R(k \<mapsto> vs)) (A(k \<mapsto> a)) (\<lambda>i. (M i)(vs ! i \<mapsto> a))"
    by (rule points_add [OF tr(3) k(1) Ak vs(3)])
  ultimately have "trees_ok ?T (R(k \<mapsto> vs)) (A(k \<mapsto> a)) (more_leaves R L)" using t(2) by (auto simp: trees_ok_def)
  moreover have "cells_ok pg (R(k \<mapsto> vs)) (A(k \<mapsto> a))" by (rule cells_put [OF rep(4) k(1) w(3,2,4)])
  moreover have "rows_ok ?T (R(k \<mapsto> vs))"
    using rows_ok_upd [OF rep(3) k(2) vs(1,2)] rows_ok_cong [of ?T T] by simp
  ultimately have "table_rep ?T (R(k \<mapsto> vs)) (A(k \<mapsto> a)) (more_leaves R L)" using rep(1,2) by (simp add: table_rep_def)
  then show ?thesis using run w(5,6) by (auto simp: parts_changed_def)
qed


lemma move_row_rep:
  assumes T: "table_rep T R A 1" and k: "R k = Some ws" "A k = Some a"
    and old: "rec_fields old = ws" "rec_addr old = Some a"
    and vs: "row_typed (columns (tbl_schema T)) vs" "\<forall>v \<in> set vs. known_value (tbl_interner T) v"
      "fresh_values (columns (tbl_schema T)) R k vs"
    and r: "rec_id r = k" "rec_fields r = vs"
    and room: "card (dom R) \<le> LEAF_KEYS" "pager_total (tbl_pager T) + 1 < 2 ^ 32"
  shows "\<exists>b T'. move_row a old r T = (Inr (SetAddress r b), T') \<and> table_rep T' (R(k \<mapsto> vs)) (A(k \<mapsto> b)) 1 \<and>
    parts_changed T T'"
proof -
  let ?cs = "columns (tbl_schema T)"
  note rep = table_repD [OF T]
  have ws: "row_typed ?cs ws" "k < record_id_count (tbl_schema T)" using rep(3) k(1) by (auto simp: rows_ok_def)
  have len: "length (rec_fields r) = schema_size T" using row_typed_length [OF vs(1)] r(2) by simp
  have cell: "live (tbl_pager T) a = Some (k, payload ws)" using cells_iff [OF rep(4)] k by blast
  obtain pg1 where del: "delete_at a (tbl_pager T) = (Inr (), pg1)" "heap_ok pg1"
    "live pg1 = (live (tbl_pager T))(a := None)" "pager_total pg1 = pager_total (tbl_pager T)"
    "read_page pg1 0 = read_page (tbl_pager T) 0" using hp.del_live [OF rep(6) cell] by blast
  let ?T1 = "T\<lparr>tbl_pager := pg1\<rparr>"
  have pages: "pager_total (tbl_pager ?T1) + 1 < 2 ^ 32" using del(4) room(2) by simp
  obtain b pg where w: "write_record_to_disk r (page_index a) ?T1 = (Inr (SetAddress r b), T\<lparr>tbl_pager := pg\<rparr>)" "heap_ok pg"
    "live pg1 b = None" "live pg = (live pg1)(b \<mapsto> (k, payload vs))" "pager_total pg \<le> pager_total (tbl_pager T) + 1"
    "read_page pg 0 = read_page (tbl_pager T) 0"
    using write_row [of ?T1 r "page_index a"] rep(2) len del(2,4,5) pages r by auto
  obtain n M where tr: "n \<le> 1" "index_rep id_params (tbl_ids T) A n" "points_to ?cs R A M" "indexes_rep ?cs (tbl_indexes T) M 1"
    using rep(5) by (auto simp: trees_ok_def)
  have dist: "distinct (map col_name ?cs)" using rep(2) by (simp add: schema_sound_def)
  note here = points_del [OF tr(3) rep(4) k(1)]
  have fits: "fits_indexes ?cs (rec_fields old)" "fits_indexes ?cs (rec_fields (SetAddress r b))"
    using row_typed_fits [OF rep(2)] vs(1) ws(1) old(1) r(2) by simp_all
  have new: "M i (rec_fields (SetAddress r b) ! i) = None \<or> rec_fields (SetAddress r b) ! i = rec_fields old ! i"
    if i: "i < length ?cs" "IsIndexed (?cs ! i)" for i
  proof (rule disjCI)
    assume ne: "rec_fields (SetAddress r b) ! i \<noteq> rec_fields old ! i"
    show "M i (rec_fields (SetAddress r b) ! i) = None"
    proof (rule ccontr)
      assume "M i (rec_fields (SetAddress r b) ! i) \<noteq> None"
      then obtain q us where "R q = Some us" "us ! i = vs ! i"
        using tr(3) i r(2) unfolding points_to_def by (metis SetAddress_fields(2) not_None_eq)
      then show False using vs(3) i k(1) ne r(2) old(1) by (cases "q = k") (auto simp: fresh_values_def)
    qed
  qed
  have cur: "M i (rec_fields old ! i) = Some a" "card (dom (M i)) \<le> LEAF_KEYS"
    if "i < length ?cs" "IsIndexed (?cs ! i)" for i
    using here(2) [OF that] k(2) old(1) points_card [OF tr(3) that] room(1) by simp_all
  from indexes_update [OF tr(4) dist fits old(2) SetAddress_fields(3) cur(1) new cur(2)] obtain ixs where
    upd: "IndexSet_Update (tbl_schema T) old (SetAddress r b) (tbl_indexes T) = (Inr (), ixs)"
    "indexes_rep ?cs ixs (\<lambda>i. (M i)(ws ! i := None, vs ! i \<mapsto> b)) 1"
    using old(1) r(2) by auto
  obtain t where t: "tree_update (tbl_ids T) k b = Inr (True, t)" "index_rep id_params t (A(k \<mapsto> b)) n"
    using ix.upd_rep [OF tr(2), of k b] k(2) by auto
  let ?T = "T\<lparr>tbl_pager := pg, tbl_indexes := ixs, tbl_ids := t\<rparr>"
  have run: "move_row a old r T = (Inr (SetAddress r b), ?T)"
    using del(1) w(1) upd(1) t(1) r(1)
    by (simp add: move_row_def sbind_def on_pager_def on_indexes_def on_part_def st_simps_basic ids_update_def on_ids_def)
  have gone: "R(k := None, k \<mapsto> vs) = R(k \<mapsto> vs)" "A(k := None, k \<mapsto> b) = A(k \<mapsto> b)" by simp_all
  have "fresh_values ?cs (R(k := None)) k vs" using vs(3) by (simp add: fresh_values_def)
  then have "points_to ?cs (R(k \<mapsto> vs)) (A(k \<mapsto> b)) (\<lambda>i. (M i)(ws ! i := None, vs ! i \<mapsto> b))"
    using points_add [OF here(1), of k vs b] by (simp add: gone)
  then have "trees_ok ?T (R(k \<mapsto> vs)) (A(k \<mapsto> b)) 1" using t(2) upd(2) tr(1) by (auto simp: trees_ok_def)
  moreover have "cells_ok pg (R(k \<mapsto> vs)) (A(k \<mapsto> b))"
    using cells_put [OF cells_del [OF rep(4) k(2) del(2,3)], of k b pg vs] w(2-4) by (simp add: gone)
  moreover have "rows_ok ?T (R(k \<mapsto> vs))"
    using rows_ok_upd [OF rep(3) ws(2) vs(1,2)] rows_ok_cong [of ?T T] by simp
  ultimately have "table_rep ?T (R(k \<mapsto> vs)) (A(k \<mapsto> b)) 1" using rep(1,2) by (simp add: table_rep_def)
  then show ?thesis using run w(5,6) by (auto simp: parts_changed_def)
qed

lemma drop_row_rep:
  assumes T: "table_rep T R A 1" and k: "R k = Some ws" "A k = Some a" and r: "rec_fields r = ws"
  shows "\<exists>T'. drop_row a r k T = (Inr (), T') \<and> table_rep T' (R(k := None)) (A(k := None)) 1 \<and> parts_changed T T'"
proof -
  let ?cs = "columns (tbl_schema T)"
  note rep = table_repD [OF T]
  have ws: "row_typed ?cs ws" using rep(3) k(1) by (auto simp: rows_ok_def)
  have cell: "live (tbl_pager T) a = Some (k, payload ws)" using cells_iff [OF rep(4)] k by blast
  obtain pg where del: "delete_at a (tbl_pager T) = (Inr (), pg)" "heap_ok pg"
    "live pg = (live (tbl_pager T))(a := None)" "pager_total pg = pager_total (tbl_pager T)"
    "read_page pg 0 = read_page (tbl_pager T) 0" using hp.del_live [OF rep(6) cell] by blast
  obtain n M where tr: "n \<le> 1" "index_rep id_params (tbl_ids T) A n" "points_to ?cs R A M" "indexes_rep ?cs (tbl_indexes T) M 1"
    using rep(5) by (auto simp: trees_ok_def)
  have dist: "distinct (map col_name ?cs)" using rep(2) by (simp add: schema_sound_def)
  have "fits_indexes ?cs (rec_fields r)" using row_typed_fits [OF rep(2) ws] r by simp
  from indexes_remove [OF tr(4) dist this] obtain ixs where
    rem: "IndexSet_Remove (tbl_schema T) r (tbl_indexes T) = (Inr (), ixs)"
    "indexes_rep ?cs ixs (\<lambda>i. (M i)(ws ! i := None)) 1" using r by auto
  obtain t n' where t: "tree_remove id_params (tbl_ids T) k = Inr (A k \<noteq> None, t)" "index_rep id_params t (A(k := None)) n'" "n' \<le> 1"
    using ix.del_rep [OF tr(2,1), of k] by blast
  let ?T = "T\<lparr>tbl_pager := pg, tbl_indexes := ixs, tbl_ids := t\<rparr>"
  have run: "drop_row a r k T = (Inr (), ?T)"
    using del(1) rem(1) t(1)
    by (simp add: drop_row_def sbind_def on_pager_def on_indexes_def on_part_def st_simps_basic ids_remove_def on_ids_def)
  have "trees_ok ?T (R(k := None)) (A(k := None)) 1"
    using t(2,3) rem(2) points_del(1) [OF tr(3) rep(4) k(1)] by (auto simp: trees_ok_def)
  moreover have "cells_ok pg (R(k := None)) (A(k := None))" by (rule cells_del [OF rep(4) k(2) del(2,3)])
  moreover have "rows_ok ?T (R(k := None))" using rows_ok_del [OF rep(3)] rows_ok_cong [of ?T T] by simp
  ultimately have "table_rep ?T (R(k := None)) (A(k := None)) 1" using rep(1,2) by (simp add: table_rep_def)
  then show ?thesis using run del(4,5) by (auto simp: parts_changed_def)
qed


section \<open>The operations\<close>

lemma record_count_fresh:
  assumes "table_rep T R A L"
  shows "R (record_id_count (tbl_schema T)) = None"
  using table_repD(3) [OF assms] by (auto simp: rows_ok_def intro: ccontr)

text \<open>The table with a track in the journal, stamped with the clock.\<close>

definition with_track :: "byte \<Rightarrow> 32 word \<Rightarrow> byte list \<Rightarrow> table \<Rightarrow> table" where
  "with_track ty k d T = T\<lparr>tbl_now := tbl_now T + 1,
     tbl_journal := write_track (tbl_clock T (tbl_now T)) ty k d (tbl_journal T)\<rparr>"

definition counted :: "table \<Rightarrow> table" where
  "counted T = T\<lparr>tbl_schema := IncrementRecordIdCount (tbl_schema T),
     tbl_schema_file := Schema_ToBinary (IncrementRecordIdCount (tbl_schema T))\<rparr>"

lemma journal_insertion: "journal_save save_insertion r T = (Inr (), with_track DELETE_TRACK (rec_id r) [] T)"
  by (simp add: journal_save_def save_insertion_def on_journal_def on_part_def st_simps_basic with_track_def)

lemma journal_updation:
  "Serialize r = Inr d \<Longrightarrow> journal_save save_updation r T = (Inr (), with_track UPDATE_TRACK (rec_id r) d T)"
  by (simp add: journal_save_def save_updation_def on_journal_def on_part_def st_simps_basic sbind_def with_track_def)

lemma journal_deletion:
  "Serialize r = Inr d \<Longrightarrow> journal_save save_deletion r T = (Inr (), with_track INSERT_TRACK (rec_id r) d T)"
  by (simp add: journal_save_def save_deletion_def on_journal_def on_part_def st_simps_basic sbind_def with_track_def)

lemma counting:
  assumes "schema_sound (tbl_schema T)"
  shows "sbind (supd (tbl_schema_update IncrementRecordIdCount)) (\<lambda>_. sbind save_schema f) T = f () (counted T)"
proof -
  obtain b where b: "columns_to_binary (columns (tbl_schema T)) = Some b" using assms by (auto simp: schema_sound_def)
  then show ?thesis
    by (cases T) (simp add: sbind_def st_simps_basic save_schema_def counted_def Schema_ToBinary_def IncrementRecordIdCount_def b)
qed

lemma table_rep_cong:
  assumes "table_rep T R A L" "tbl_pager T' = tbl_pager T" "tbl_interner T' = tbl_interner T" "tbl_schema T' = tbl_schema T"
    "tbl_ids T' = tbl_ids T" "tbl_indexes T' = tbl_indexes T"
  shows "table_rep T' R A L"
  using assms by (simp add: table_rep_def rows_ok_def trees_ok_def)

lemma with_track_rep: "table_rep T R A L \<Longrightarrow> table_rep (with_track ty k d T) R A L"
  by (erule table_rep_cong) (simp_all add: with_track_def)

lemma counted_rep:
  assumes "table_rep T R A L" "unat (record_id_count (tbl_schema T)) + 1 < 2 ^ 32"
  shows "table_rep (counted T) R A L" "record_id_count (tbl_schema T) < record_id_count (tbl_schema (counted T))"
proof -
  let ?c = "record_id_count (tbl_schema T)"
  have up: "?c < ?c + 1" using assms(2) by (simp add: word_less_nat_alt unat_word_ariths)
  then show "?c < record_id_count (tbl_schema (counted T))" by (simp add: counted_def IncrementRecordIdCount_def)
  have "rows_ok (counted T) R"
    using table_repD(3) [OF assms(1)] up by (auto simp: rows_ok_def counted_def IncrementRecordIdCount_def dest: less_trans)
  then show "table_rep (counted T) R A L"
    using assms(1) by (simp add: table_rep_def trees_ok_def schema_sound_def counted_def IncrementRecordIdCount_def)
qed

lemma insert_made:
  assumes made: "make_record (record_id_count (tbl_schema T)) vs names T = (Inr r, T0)" and T0: "table_rep T0 R A L"
    and c: "record_id_count (tbl_schema T) = c" "record_id_count (tbl_schema T0) = c"
    and r: "rec_id r = c" "rec_addr r = None" "length (rec_fields r) = schema_size T0"
      "\<forall>v \<in> set (rec_fields r). known_value (tbl_interner T0) v"
    and room: "L \<le> ROOT_KEYS" "pager_total (tbl_pager T0) + 1 < 2 ^ 32" "unat c + 1 < 2 ^ 32"
  defines "good \<equiv> row_typed (columns (tbl_schema T0)) (rec_fields r) \<and> fresh_values (columns (tbl_schema T0)) R c (rec_fields r)"
  shows "good \<Longrightarrow> \<exists>a T'. Table_insert_record vs names T = (Inr (SetAddress r a), T') \<and>
      table_rep T' (R(c \<mapsto> rec_fields r)) (A(c \<mapsto> a)) (more_leaves R L) \<and>
      parts_changed (counted (with_track DELETE_TRACK c [] T0)) T'"
    and "\<not> good \<Longrightarrow> \<exists>msg. Table_insert_record vs names T = (Inl (Runtime_Error msg), T0)"
proof -
  have Rc: "R c = None" using record_count_fresh [OF T0] c by simp
  have "c \<notin> dom A" using table_repD(7) [OF T0] Rc by auto
  then have "A c = None" by blast
  then have "rec_addr r = A c" using r(2) by simp
  from record_checks [OF T0 r(3) this r(4)] have ck: "checks (validate_record T0 r) good" by (simp add: good_def)
  let ?T1 = "counted (with_track DELETE_TRACK c [] T0)"
  show "\<exists>msg. Table_insert_record vs names T = (Inl (Runtime_Error msg), T0)" if "\<not> good"
    using ck that made by (auto simp: Table_insert_record_ends sbind_def st_simps_basic checks_def)
  assume good
  then have v: "validate_record T0 r = Inr ()" using ck by (simp add: checks_def)
  have wt: "table_rep (with_track DELETE_TRACK c [] T0) R A L" by (rule with_track_rep [OF T0])
  have sch: "tbl_schema (with_track DELETE_TRACK c [] T0) = tbl_schema T0" "tbl_interner ?T1 = tbl_interner T0"
    "columns (tbl_schema ?T1) = columns (tbl_schema T0)" "tbl_pager ?T1 = tbl_pager T0"
    by (simp_all add: with_track_def counted_def IncrementRecordIdCount_def)
  have rep1: "table_rep ?T1 R A L" "c < record_id_count (tbl_schema ?T1)"
    using counted_rep [OF wt] room(3) c by (simp_all add: sch)
  obtain a T' where st: "store_row r ?T1 = (Inr (SetAddress r a), T')"
    "table_rep T' (R(c \<mapsto> rec_fields r)) (A(c \<mapsto> a)) (more_leaves R L)" "parts_changed ?T1 T'"
    using store_row_rep [OF rep1(1) Rc rep1(2), of "rec_fields r" r] \<open>good\<close> r(1,4) room(1,2) by (auto simp: sch good_def)
  have "sbind (supd (tbl_schema_update IncrementRecordIdCount)) (\<lambda>_. sbind save_schema (\<lambda>_. store_row r))
      (with_track DELETE_TRACK c [] T0) = (Inr (SetAddress r a), T')"
    using trans [OF counting [OF table_repD(2) [OF wt], of "\<lambda>_. store_row r"] st(1)] .
  then have "Table_insert_record vs names T = (Inr (SetAddress r a), T')"
    using made v r(1) by (simp add: Table_insert_record_ends sbind_def [of "sget _"] sbind_def [of "make_record _ _ _"]
        sbind_def [of "\<lambda>T. (validate_record T r, T)"] sbind_def [of "journal_save _ _"] st_simps_basic journal_insertion)
  then show "\<exists>a T'. Table_insert_record vs names T = (Inr (SetAddress r a), T') \<and>
      table_rep T' (R(c \<mapsto> rec_fields r)) (A(c \<mapsto> a)) (more_leaves R L) \<and> parts_changed ?T1 T'" using st by blast
qed

lemma update_row:
  assumes T: "table_rep T R A 1" and k: "R k = Some ws" "A k = Some a"
    and r: "rec_id r = k" "rec_addr r = Some a" "length (rec_fields r) = schema_size T"
      "\<forall>v \<in> set (rec_fields r). known_value (tbl_interner T) v"
    and room: "card (dom R) \<le> LEAF_KEYS" "pager_total (tbl_pager T) + 1 < 2 ^ 32"
  defines "good \<equiv> row_typed (columns (tbl_schema T)) (rec_fields r) \<and> fresh_values (columns (tbl_schema T)) R k (rec_fields r)"
  shows "good \<Longrightarrow> \<exists>b T'. update_record r T = (Inr (SetAddress r b), T') \<and>
      table_rep T' (R(k \<mapsto> rec_fields r)) (A(k \<mapsto> b)) 1 \<and> parts_changed (with_track UPDATE_TRACK k (payload ws) T) T'"
    and "\<not> good \<Longrightarrow> \<exists>msg. update_record r T = (Inl (Runtime_Error msg), T)"
proof -
  have ck: "checks (validate_record T r) good" using record_checks [OF T r(3) _ r(4), of k] r(2) k(2) by (simp add: good_def)
  show "\<exists>msg. update_record r T = (Inl (Runtime_Error msg), T)" if "\<not> good"
    using ck that by (auto simp: update_record_ends sbind_def checks_def)
  assume good
  then have v: "validate_record T r = Inr ()" using ck by (simp add: checks_def)
  let ?old = "SetAddress (mk_record k ws) a" and ?T1 = "with_track UPDATE_TRACK k (payload ws) T"
  have ws: "length ws = schema_size T" using table_repD(3) [OF T] k(1) row_typed_length by (auto simp: rows_ok_def)
  have ser: "Serialize ?old = Inr (payload ws)" using row_size(3) [OF table_repD(2) [OF T] ws, of ?old] by simp
  have same: "tbl_schema ?T1 = tbl_schema T" "tbl_interner ?T1 = tbl_interner T" "tbl_pager ?T1 = tbl_pager T"
    by (simp_all add: with_track_def)
  obtain b T' where mv: "move_row a ?old r ?T1 = (Inr (SetAddress r b), T')"
    "table_rep T' (R(k \<mapsto> rec_fields r)) (A(k \<mapsto> b)) 1" "parts_changed ?T1 T'"
    using move_row_rep [OF with_track_rep [OF T] k, of ?old UPDATE_TRACK k "payload ws" "rec_fields r" r] \<open>good\<close> r(1,4) room
    by (auto simp: same good_def)
  have "update_record r T = (Inr (SetAddress r b), T')"
    using v r(2) read_row [OF T k(2,1)] journal_updation [OF ser, of T] mv(1)
    by (simp add: update_record_ends sbind_def st_simps_basic Address_def deref_def)
  then show "\<exists>b T'. update_record r T = (Inr (SetAddress r b), T') \<and>
      table_rep T' (R(k \<mapsto> rec_fields r)) (A(k \<mapsto> b)) 1 \<and> parts_changed ?T1 T'" using mv by blast
qed

lemma delete_row:
  assumes T: "table_rep T R A 1" and k: "R k = Some ws" "A k = Some a"
  shows "\<exists>T'. Table_delete_record (SetAddress (mk_record k ws) a) T = (Inr (), T') \<and>
      table_rep T' (R(k := None)) (A(k := None)) 1 \<and> parts_changed (with_track INSERT_TRACK k (payload ws) T) T'"
proof -
  let ?r = "SetAddress (mk_record k ws) a" and ?T1 = "with_track INSERT_TRACK k (payload ws) T"
  have ws: "length ws = schema_size T" using table_repD(3) [OF T] k(1) row_typed_length by (auto simp: rows_ok_def)
  have ser: "Serialize ?r = Inr (payload ws)" using row_size(3) [OF table_repD(2) [OF T] ws, of ?r] by simp
  obtain T' where d: "drop_row a ?r k ?T1 = (Inr (), T')" "table_rep T' (R(k := None)) (A(k := None)) 1" "parts_changed ?T1 T'"
    using drop_row_rep [OF with_track_rep [OF T] k, of ?r INSERT_TRACK k "payload ws"] by auto
  have "Table_delete_record ?r T = (Inr (), T')"
    using journal_deletion [OF ser, of T] d(1) by (simp add: Table_delete_record_ends sbind_def st_simps_basic)
  then show ?thesis using d by blast
qed

end
