(* ===== verification/Table_History.thy ===== *)
theory Table_History
  imports Table_Ops
begin

text \<open>
  The journal and the rows together: every operation pushes a track that undoes it, so that
  \<open>REVERT\<close> takes the table back to the rows it held at a given time. \<open>table_at\<close> is the invariant
  of a table with its history; inserting, updating and deleting extend the history, reverting cuts
  it.
\<close>

section \<open>The history\<close>

text \<open>A moment: the time of an operation, and the rows and the identifier count before it.\<close>

type_synonym moment = "string \<times> rows \<times> 32 word"

text \<open>\<open>undoes cs it t R c R' c'\<close>: the track \<open>t\<close> takes the rows \<open>R'\<close> back to \<open>R\<close>.\<close>

definition undoes ::
  "column list \<Rightarrow> interner \<Rightarrow> track \<Rightarrow> rows \<Rightarrow> 32 word \<Rightarrow> rows \<Rightarrow> 32 word \<Rightarrow> bool" where
  "undoes cs it t R c R' c' \<longleftrightarrow> card (dom R) \<le> LEAF_KEYS \<and>
     (let k = trk_id t in
      if trk_type t = DELETE_TRACK then R k = None \<and> R' k \<noteq> None \<and> R = R'(k := None) \<and> c = k \<and> c' = k + 1
      else (trk_type t = UPDATE_TRACK \<or> trk_type t = INSERT_TRACK) \<and> c' = c \<and> k < c \<and>
        (\<exists>ws. R = R'(k \<mapsto> ws) \<and> (R' k = None \<longleftrightarrow> trk_type t = INSERT_TRACK) \<and> trk_data t = payload ws \<and>
           row_typed cs ws \<and> (\<forall>v \<in> set ws. known_value it v) \<and> fresh_values cs R' k ws))"

text \<open>Tracks and moments, the newest first.\<close>

fun logged :: "column list \<Rightarrow> interner \<Rightarrow> track list \<Rightarrow> moment list \<Rightarrow> rows \<Rightarrow> 32 word \<Rightarrow> bool" where
  "logged cs it [] [] R c \<longleftrightarrow> True"
| "logged cs it (t # ts) ((time, R0, c0) # H) R c \<longleftrightarrow>
     trk_time t = time \<and> undoes cs it t R0 c0 R c \<and> logged cs it ts H R0 c0"
| "logged cs it _ _ R c \<longleftrightarrow> False"

text \<open>The rows at a time: those before the first operation that is not earlier.\<close>

fun rows_at :: "string \<Rightarrow> moment list \<Rightarrow> rows \<Rightarrow> 32 word \<Rightarrow> rows \<times> 32 word" where
  "rows_at time [] R c = (R, c)"
| "rows_at time ((t, R0, c0) # H) R c = (if text_less t time then (R, c) else rows_at time H R0 c0)"

fun history_at :: "string \<Rightarrow> moment list \<Rightarrow> moment list" where
  "history_at time [] = []"
| "history_at time ((t, R0, c0) # H) = (if text_less t time then (t, R0, c0) # H else history_at time H)"

definition clock_ok :: "table \<Rightarrow> bool" where
  "clock_ok T \<longleftrightarrow> (\<forall>n. length (tbl_clock T n) = TIME_LEN)"

definition table_at :: "table \<Rightarrow> rows \<Rightarrow> moment list \<Rightarrow> bool" where
  "table_at T R H \<longleftrightarrow> (\<exists>A. table_rep T R A 1) \<and> card (dom R) \<le> LEAF_KEYS \<and> clock_ok T \<and>
     (\<exists>ts. holds_tracks (tbl_journal T) (rev ts) \<and>
        logged (columns (tbl_schema T)) (tbl_interner T) ts H R (record_id_count (tbl_schema T)))"

lemma undoes_grown:
  assumes "undoes cs it t R c R' c'" "\<And>v. known_value it v \<Longrightarrow> known_value it' v"
  shows "undoes cs it' t R c R' c'"
  using assms unfolding undoes_def Let_def by (auto split: if_splits)

lemma logged_grown:
  assumes "logged cs it ts H R c" "\<And>v. known_value it v \<Longrightarrow> known_value it' v"
  shows "logged cs it' ts H R c"
  using assms by (induction cs it ts H R c rule: logged.induct) (auto intro: undoes_grown)

section \<open>Pushing\<close>

lemma track_pushed:
  assumes "holds_tracks (tbl_journal T) (rev ts)" "clock_ok T" "length d + 100 < 2 ^ 32"
  shows "holds_tracks (tbl_journal (with_track ty k d T))
    (rev (\<lparr>trk_time = tbl_clock T (tbl_now T), trk_type = ty, trk_id = k, trk_data = d\<rparr> # ts))"
  using write_track_holds [OF assms(1), of "tbl_clock T (tbl_now T)" ty k d] assms(2,3)
  by (simp add: with_track_def wf_track_def clock_ok_def)

lemma parts_changed_facts:
  assumes "parts_changed T T'"
  shows "tbl_schema T' = tbl_schema T" "tbl_interner T' = tbl_interner T" "tbl_journal T' = tbl_journal T"
    "tbl_clock T' = tbl_clock T" "tbl_now T' = tbl_now T" "tbl_schema_file T' = tbl_schema_file T" "tbl_name T' = tbl_name T"
    "pager_total (tbl_pager T') \<le> pager_total (tbl_pager T) + 1" "read_page (tbl_pager T') 0 = read_page (tbl_pager T) 0"
proof -
  let ?U = "T\<lparr>tbl_pager := tbl_pager T', tbl_ids := tbl_ids T', tbl_indexes := tbl_indexes T'\<rparr>"
  have "T' = ?U" using assms by (simp add: parts_changed_def)
  then have "tbl_schema T' = tbl_schema ?U" "tbl_interner T' = tbl_interner ?U" "tbl_journal T' = tbl_journal ?U"
    "tbl_clock T' = tbl_clock ?U" "tbl_now T' = tbl_now ?U" "tbl_schema_file T' = tbl_schema_file ?U"
    "tbl_name T' = tbl_name ?U" by presburger+
  then show "tbl_schema T' = tbl_schema T" "tbl_interner T' = tbl_interner T" "tbl_journal T' = tbl_journal T"
    "tbl_clock T' = tbl_clock T" "tbl_now T' = tbl_now T" "tbl_schema_file T' = tbl_schema_file T" "tbl_name T' = tbl_name T"
    by simp_all
  show "pager_total (tbl_pager T') \<le> pager_total (tbl_pager T) + 1" "read_page (tbl_pager T') 0 = read_page (tbl_pager T) 0"
    using assms by (simp_all add: parts_changed_def)
qed

lemma row_payload_small:
  assumes "schema_sound sc" "length ws = length (columns sc)"
  shows "length (payload ws) + 100 < 2 ^ 32"
  using row_size(1) [OF assms] by (simp add: MAX_RECORD_SIZE_def layout_defs)

text \<open>The values of a row are fresh for its own identifier.\<close>

lemma row_fresh:
  assumes T: "table_rep T R A L" and k: "R k = Some ws"
  shows "fresh_values (columns (tbl_schema T)) R k ws"
  unfolding fresh_values_def
proof (intro allI impI notI)
  fix i q us assume i: "i < schema_size T" "IsIndexed (columns (tbl_schema T) ! i)" and q: "R q = Some us" "q \<noteq> k" "us ! i = ws ! i"
  note cells = table_repD(4) [OF T]
  obtain M where M: "points_to (columns (tbl_schema T)) R A M" using table_repD(5) [OF T] by (auto simp: trees_ok_def)
  have "k \<in> dom A" "q \<in> dom A" using k q(1) table_repD(7) [OF T] by auto
  then obtain a b where ab: "A k = Some a" "A q = Some b" by blast
  have "M i (ws ! i) = Some a" "M i (ws ! i) = Some b" using M i k q ab unfolding points_to_def by metis+
  then show False using address_inj [OF cells ab(1)] ab(2) q(2) by simp
qed

lemma card_le_upd: "card (dom (R(k := None))) \<le> card (dom (R :: rows))"
  by (intro card_mono) auto

lemma push_delete:
  assumes T: "table_at T R H" and k: "R k = Some ws"
    and T': "table_rep T' (R(k := None)) A' 1" "parts_changed (with_track INSERT_TRACK k (payload ws) T) T'"
  shows "table_at T' (R(k := None)) ((tbl_clock T (tbl_now T), R, record_id_count (tbl_schema T)) # H)"
proof -
  obtain A ts where h: "table_rep T R A 1" "card (dom R) \<le> LEAF_KEYS" "clock_ok T" "holds_tracks (tbl_journal T) (rev ts)"
    "logged (columns (tbl_schema T)) (tbl_interner T) ts H R (record_id_count (tbl_schema T))"
    using T by (auto simp: table_at_def)
  note pc = parts_changed_facts [OF T'(2)]
  have row: "row_typed (columns (tbl_schema T)) ws" "k < record_id_count (tbl_schema T)" "\<forall>v \<in> set ws. known_value (tbl_interner T) v"
    using table_repD(3) [OF h(1)] k by (auto simp: rows_ok_def)
  note small = row_payload_small [OF table_repD(2) [OF h(1)] row_typed_length [OF row(1)]]
  have "fresh_values (columns (tbl_schema T)) (R(k := None)) k ws" using row_fresh [OF h(1) k] by (simp add: fresh_values_def)
  then have "logged (columns (tbl_schema T)) (tbl_interner T)
      (\<lparr>trk_time = tbl_clock T (tbl_now T), trk_type = INSERT_TRACK, trk_id = k, trk_data = payload ws\<rparr> # ts)
      ((tbl_clock T (tbl_now T), R, record_id_count (tbl_schema T)) # H) (R(k := None)) (record_id_count (tbl_schema T))"
    using h(2,5) row k by (auto simp: undoes_def track_defs Let_def fun_eq_iff intro!: exI [of _ ws])
  moreover have "card (dom (R(k := None))) \<le> LEAF_KEYS" using card_le_upd [of R k] h(2) by simp
  ultimately show ?thesis
    unfolding table_at_def using T'(1) track_pushed [OF h(4,3) small, of INSERT_TRACK k] h(3) pc
    by (auto simp: with_track_def clock_ok_def intro!: exI [of _ "_ # ts"])
qed

lemma push_update:
  assumes T: "table_at T R H" and k: "R k = Some ws"
    and T': "table_rep T' (R(k \<mapsto> vs)) A' 1" "parts_changed (with_track UPDATE_TRACK k (payload ws) T) T'"
  shows "table_at T' (R(k \<mapsto> vs)) ((tbl_clock T (tbl_now T), R, record_id_count (tbl_schema T)) # H)"
proof -
  obtain A ts where h: "table_rep T R A 1" "card (dom R) \<le> LEAF_KEYS" "clock_ok T" "holds_tracks (tbl_journal T) (rev ts)"
    "logged (columns (tbl_schema T)) (tbl_interner T) ts H R (record_id_count (tbl_schema T))"
    using T by (auto simp: table_at_def)
  note pc = parts_changed_facts [OF T'(2)]
  have row: "row_typed (columns (tbl_schema T)) ws" "k < record_id_count (tbl_schema T)" "\<forall>v \<in> set ws. known_value (tbl_interner T) v"
    using table_repD(3) [OF h(1)] k by (auto simp: rows_ok_def)
  note small = row_payload_small [OF table_repD(2) [OF h(1)] row_typed_length [OF row(1)]]
  have "fresh_values (columns (tbl_schema T)) (R(k \<mapsto> vs)) k ws" using row_fresh [OF h(1) k] by (simp add: fresh_values_def)
  then have "logged (columns (tbl_schema T)) (tbl_interner T)
      (\<lparr>trk_time = tbl_clock T (tbl_now T), trk_type = UPDATE_TRACK, trk_id = k, trk_data = payload ws\<rparr> # ts)
      ((tbl_clock T (tbl_now T), R, record_id_count (tbl_schema T)) # H) (R(k \<mapsto> vs)) (record_id_count (tbl_schema T))"
    using h(2,5) row k by (auto simp: undoes_def track_defs Let_def fun_eq_iff intro!: exI [of _ ws])
  moreover have "dom (R(k \<mapsto> vs)) = dom R" using k by auto
  ultimately show ?thesis
    unfolding table_at_def using T'(1) track_pushed [OF h(4,3) small, of UPDATE_TRACK k] h(2,3) pc
    by (auto simp: with_track_def clock_ok_def intro!: exI [of _ "_ # ts"])
qed

lemma push_insert:
  assumes T: "table_at T R H" and c: "record_id_count (tbl_schema T) = c" and small: "card (dom R) < LEAF_KEYS"
    and T': "table_rep T' (R(c \<mapsto> vs)) A' 1" "parts_changed (counted (with_track DELETE_TRACK c [] T)) T'"
  shows "table_at T' (R(c \<mapsto> vs)) ((tbl_clock T (tbl_now T), R, c) # H)"
proof -
  obtain A ts where h: "table_rep T R A 1" "card (dom R) \<le> LEAF_KEYS" "clock_ok T" "holds_tracks (tbl_journal T) (rev ts)"
    "logged (columns (tbl_schema T)) (tbl_interner T) ts H R c"
    using T c by (auto simp: table_at_def)
  note pc = parts_changed_facts [OF T'(2)]
  have Rc: "R c = None" using record_count_fresh [OF h(1)] c by simp
  have "logged (columns (tbl_schema T)) (tbl_interner T)
      (\<lparr>trk_time = tbl_clock T (tbl_now T), trk_type = DELETE_TRACK, trk_id = c, trk_data = []\<rparr> # ts)
      ((tbl_clock T (tbl_now T), R, c) # H) (R(c \<mapsto> vs)) (c + 1)"
    using h(2,5) Rc by (auto simp: undoes_def track_defs Let_def fun_eq_iff)
  moreover have "card (dom (R(c \<mapsto> vs))) \<le> LEAF_KEYS" using small Rc by (simp add: card_insert_if)
  ultimately show ?thesis
    unfolding table_at_def using T'(1) track_pushed [OF h(4,3), of "[]" DELETE_TRACK c] h(3) pc c
    by (auto simp: with_track_def counted_def IncrementRecordIdCount_def clock_ok_def intro!: exI [of _ "_ # ts"])
qed


section \<open>Popping\<close>

lemma read_cell:
  assumes T: "table_rep T R A L" and k: "A k = Some a" "R k = Some ws"
  shows "\<exists>r. rbind (open_page (tbl_pager T) (page_index a)) (\<lambda>raw.
      rbind (read_record raw (slot_idx a) (schema_size T) (tbl_interner T)) deref) = Inr r \<and> rec_fields r = ws"
proof -
  have "Table_read_record T a = Inr (Some (SetAddress (mk_record k ws) a))" by (rule read_row [OF T k])
  then obtain raw r where "open_page (tbl_pager T) (page_index a) = Inr raw"
    "read_record raw (slot_idx a) (schema_size T) (tbl_interner T) = Inr (Some r)"
    "SetAddress r a = SetAddress (mk_record k ws) a"
    by (auto simp: Table_read_record_def result_iff split: if_splits)
  moreover have "rec_fields r = ws" using calculation(3) by (metis SetAddress_fields(2) mk_record_fields(2))
  ultimately show ?thesis by (simp add: deref_def)
qed

lemma id_found:
  assumes T: "table_rep T R A L" and k: "A k = Some a"
  shows "sbind (ids_search k) (\<lambda>as. sbind (sassert (length as = 1) what) (\<lambda>_. sbind (slift (vec_back as)) f)) T = f a T"
  using id_lookup [OF T, of k] k by (simp add: sbind_def ids_search_def sassert_def vec_back_def st_simps_basic)

definition discounted :: "table \<Rightarrow> table" where
  "discounted T = tbl_schema_update DecrementRecordIdCount T"

lemma discounted_fields [simp]:
  "tbl_pager (discounted T) = tbl_pager T" "tbl_interner (discounted T) = tbl_interner T" "tbl_ids (discounted T) = tbl_ids T"
  "tbl_indexes (discounted T) = tbl_indexes T" "tbl_journal (discounted T) = tbl_journal T" "tbl_clock (discounted T) = tbl_clock T"
  "columns (tbl_schema (discounted T)) = columns (tbl_schema T)"
  "record_id_count (tbl_schema (discounted T)) = record_id_count (tbl_schema T) - 1"
  by (simp_all add: discounted_def DecrementRecordIdCount_def)

lemma unat_plus_one: "k < k + 1 \<Longrightarrow> unat (k + 1 :: 32 word) = unat k + 1"
  by (simp add: word_less_nat_alt unat_plus_if' split: if_splits)

lemma undo_insertion:
  assumes T: "table_rep T R A 1" and k: "R k \<noteq> None" "record_id_count (tbl_schema T) = k + 1" and r: "rec_id r = k"
  shows "\<exists>T' A'. revert_delete r T = (Inr (), discounted T') \<and> parts_changed T T' \<and> table_rep (discounted T') (R(k := None)) A' 1"
proof -
  obtain ws where ws: "R k = Some ws" using k(1) by blast
  have "k \<in> dom A" using ws table_repD(7) [OF T] by auto
  then obtain a where a: "A k = Some a" by blast
  obtain rr where rr: "rbind (open_page (tbl_pager T) (page_index a)) (\<lambda>raw.
      rbind (read_record raw (slot_idx a) (schema_size T) (tbl_interner T)) deref) = Inr rr" "rec_fields rr = ws"
    using read_cell [OF T a ws] by blast
  obtain T' where d: "drop_row a rr k T = (Inr (), T')" "table_rep T' (R(k := None)) (A(k := None)) 1" "parts_changed T T'"
    using drop_row_rep [OF T ws a rr(2)] by blast
  note pc = parts_changed_facts [OF d(3)]
  have run: "revert_delete r T = (Inr (), discounted T')"
    unfolding revert_delete_ends r id_found [OF T a] using rr(1) d(1) k(2) pc(1)
    by (simp add: sbind_def st_simps_basic sassert_def discounted_def)
  have up: "k < k + 1" using table_repD(3) [OF T] ws k(2) by (auto simp: rows_ok_def)
  have "rows_ok (discounted T') (R(k := None))"
    unfolding rows_ok_def
  proof (intro allI impI)
    fix q vs assume q: "(R(k := None)) q = Some vs"
    have "q < k + 1" "row_typed (columns (tbl_schema T')) vs" "\<forall>v \<in> set vs. known_value (tbl_interner T') v"
      using table_repD(3) [OF d(2)] q k(2) pc(1) by (auto simp: rows_ok_def)
    moreover have "q \<noteq> k" using q by auto
    moreover have "unat (k + 1) = unat k + 1" by (rule unat_plus_one [OF up])
    ultimately have "q < k" by (simp add: word_less_nat_alt less_Suc_eq word_unat_eq_iff)
    then show "q < record_id_count (tbl_schema (discounted T')) \<and> row_typed (columns (tbl_schema (discounted T'))) vs \<and>
        (\<forall>v \<in> set vs. known_value (tbl_interner (discounted T')) v)"
      using \<open>row_typed _ vs\<close> \<open>\<forall>v \<in> set vs. _\<close> k(2) pc(1) by simp
  qed
  then have "table_rep (discounted T') (R(k := None)) (A(k := None)) 1"
    using d(2) by (simp add: table_rep_def trees_ok_def schema_sound_def)
  then show ?thesis using run d(3) by blast
qed

lemma undo_update:
  assumes T: "table_rep T R A 1" and k: "R k \<noteq> None"
    and ws: "row_typed (columns (tbl_schema T)) ws" "\<forall>v \<in> set ws. known_value (tbl_interner T) v"
      "fresh_values (columns (tbl_schema T)) R k ws"
    and room: "card (dom R) \<le> LEAF_KEYS" "pager_total (tbl_pager T) + 1 < 2 ^ 32"
  shows "\<exists>T' A'. revert_update (mk_record k ws) T = (Inr (), T') \<and> parts_changed T T' \<and> table_rep T' (R(k \<mapsto> ws)) A' 1"
proof -
  obtain vs where vs: "R k = Some vs" using k by blast
  have "k \<in> dom A" using vs table_repD(7) [OF T] by auto
  then obtain a where a: "A k = Some a" by blast
  let ?old = "SetAddress (mk_record k vs) a" and ?r = "SetAddress (mk_record k ws) a"
  obtain b T' where m: "move_row a ?old ?r T = (Inr (SetAddress ?r b), T')" "table_rep T' (R(k \<mapsto> ws)) (A(k \<mapsto> b)) 1"
    "parts_changed T T'"
    using move_row_rep [OF T vs a, of ?old ws ?r] ws room by auto
  have "revert_update (mk_record k ws) T = (Inr (), T')"
    unfolding revert_update_ends mk_record_fields id_found [OF T a] using read_row [OF T a vs] m(1)
    by (simp add: sbind_def st_simps_basic deref_def)
  then show ?thesis using m(2,3) by blast
qed

lemma undo_deletion:
  assumes T: "table_rep T R A 1" and k: "R k = None" "k < record_id_count (tbl_schema T)"
    and ws: "row_typed (columns (tbl_schema T)) ws" "\<forall>v \<in> set ws. known_value (tbl_interner T) v"
      "fresh_values (columns (tbl_schema T)) R k ws"
    and room: "card (dom R) < LEAF_KEYS" "pager_total (tbl_pager T) + 1 < 2 ^ 32"
  shows "\<exists>T' A'. revert_insert (mk_record k ws) T = (Inr (), T') \<and> parts_changed T T' \<and> table_rep T' (R(k \<mapsto> ws)) A' 1"
proof -
  have "(1::nat) \<le> ROOT_KEYS" by (simp add: ROOT_KEYS_def)
  then obtain a T' where s: "store_row (mk_record k ws) T = (Inr (SetAddress (mk_record k ws) a), T')"
    "table_rep T' (R(k \<mapsto> ws)) (A(k \<mapsto> a)) (more_leaves R 1)" "parts_changed T T'"
    using store_row_rep [OF T k ws, of "mk_record k ws"] room(2) by auto
  then show ?thesis using room(1) by (auto simp: revert_insert_ends sbind_def st_simps_basic more_leaves_def)
qed


section \<open>Reverting\<close>

text \<open>What a step of the loop leaves alone.\<close>

definition same_frame :: "nat \<Rightarrow> table \<Rightarrow> table \<Rightarrow> bool" where
  "same_frame n T T' \<longleftrightarrow> columns (tbl_schema T') = columns (tbl_schema T) \<and> tbl_interner T' = tbl_interner T \<and>
     tbl_clock T' = tbl_clock T \<and> tbl_now T' = tbl_now T \<and> tbl_name T' = tbl_name T \<and>
     pager_total (tbl_pager T') \<le> pager_total (tbl_pager T) + n \<and>
     read_page (tbl_pager T') 0 = read_page (tbl_pager T) 0"

lemma same_frame_trans: "same_frame m T T1 \<Longrightarrow> same_frame n T1 T2 \<Longrightarrow> same_frame (m + n) T T2"
  by (simp add: same_frame_def)

lemma parts_changed_frame: "parts_changed T T' \<Longrightarrow> same_frame 1 T T'"
  using parts_changed_facts [of T T'] by (simp add: same_frame_def)

lemma track_popped:
  assumes j: "holds_tracks (tbl_journal T) (rev (t # ts))" and late: "\<not> text_less (trk_time t) time"
    and d: "trk_type t = DELETE_TRACK \<or> trk_data t \<noteq> []"
    and r: "track_record t (schema_size T) (tbl_interner T) = Inr r"
  shows "\<exists>j'. next_track time T = (Inr \<lparr>rv_time = trk_time t, rv_type = trk_type t, rv_record = r\<rparr>, T\<lparr>tbl_journal := j'\<rparr>) \<and>
    holds_tracks j' (rev ts) \<and> jnl_pos j' < jnl_pos (tbl_journal T) \<and> trk_time t \<noteq> []"
proof -
  have j2: "holds_tracks (tbl_journal T) (rev ts @ [t])" using j by simp
  have wf: "wf_track t" using j2 by (simp add: holds_tracks_def)
  have "0 < length (encode_track t)" using length_encode_track [OF wf] by simp
  then have pos: "jnl_pos (tbl_journal T) - length (encode_track t) < jnl_pos (tbl_journal T)" using holds_last(1) [OF j2] by linarith
  have "trk_time t \<noteq> []" using wf by (auto simp: wf_track_def TIME_LEN_def)
  then show ?thesis
    using revert_last_last [OF j2 d, of time] late r holds_last(1,2) [OF j2] pos
    by (intro exI [of _ "(tbl_journal T)\<lparr>jnl_pos := jnl_pos (tbl_journal T) - length (encode_track t)\<rparr>"])
      (auto simp: next_track_def on_journal_def on_part_def)
qed

lemma text_record: "trk_type t = UPDATE_TRACK \<or> trk_type t = INSERT_TRACK \<Longrightarrow> trk_data t = payload ws \<Longrightarrow>
    length (payload ws) < 2 ^ 32 \<Longrightarrow> \<forall>v \<in> set ws. known_value it v \<Longrightarrow> n = length ws \<Longrightarrow>
    track_record t n it = Inr (mk_record (trk_id t) ws)"
  using FromBinary_payload [of ws it "[]" "trk_id t"] by (auto simp: track_record_def)

lemma revert_step:
  assumes T: "table_rep T R A 1" and small: "card (dom R) \<le> LEAF_KEYS"
    and log: "undoes (columns (tbl_schema T)) (tbl_interner T) t R0 c0 R (record_id_count (tbl_schema T))"
    and j: "holds_tracks (tbl_journal T) (rev (t # ts))" and late: "\<not> text_less (trk_time t) time"
    and room: "pager_total (tbl_pager T) + 1 < 2 ^ 32"
  shows "\<exists>d T1 T' A'. next_track time T = (Inr d, T1) \<and> rv_time d \<noteq> [] \<and>
    revert_track (rv_type d) (rv_record d) T1 = (Inr (), T') \<and> table_rep T' R0 A' 1 \<and>
    record_id_count (tbl_schema T') = c0 \<and> holds_tracks (tbl_journal T') (rev ts) \<and>
    jnl_pos (tbl_journal T') < jnl_pos (tbl_journal T) \<and> same_frame 1 T T'"
proof -
  let ?k = "trk_id t" and ?cs = "columns (tbl_schema T)" and ?it = "tbl_interner T"
  have keep: "table_rep (T\<lparr>tbl_journal := j'\<rparr>) R A 1" for j' by (rule table_rep_cong [OF T]) simp_all
  show ?thesis
  proof (cases "trk_type t = DELETE_TRACK")
    case True
    then have u: "R ?k \<noteq> None" "R0 = R(?k := None)" "c0 = ?k" "record_id_count (tbl_schema T) = ?k + 1"
      using log by (auto simp: undoes_def Let_def)
    let ?r = "\<lparr>rec_id = ?k, rec_fields = [VNull], rec_addr = None\<rparr>"
    have "track_record t (schema_size T) ?it = Inr ?r" using True by (simp add: track_record_def track_defs)
    from track_popped [OF j late _ this] True obtain j' where p:
      "next_track time T = (Inr \<lparr>rv_time = trk_time t, rv_type = trk_type t, rv_record = ?r\<rparr>, T\<lparr>tbl_journal := j'\<rparr>)"
      "holds_tracks j' (rev ts)" "jnl_pos j' < jnl_pos (tbl_journal T)" "trk_time t \<noteq> []" by blast
    let ?T1 = "T\<lparr>tbl_journal := j'\<rparr>"
    obtain T' A' where x: "revert_delete ?r ?T1 = (Inr (), discounted T')" "parts_changed ?T1 T'"
      "table_rep (discounted T') (R(?k := None)) A' 1"
      using undo_insertion [OF keep [of j'] u(1), of ?r] u(4) by auto
    note pc = parts_changed_facts [OF x(2)]
    have "same_frame 1 T (discounted T')"
      using parts_changed_frame [OF x(2)] by (simp add: same_frame_def) (simp add: discounted_def)
    moreover have "revert_track (trk_type t) ?r ?T1 = (Inr (), discounted T')"
      using True x(1) by (simp add: revert_track_def track_defs)
    ultimately show ?thesis using p u x(3) pc(1,3)
      by (intro exI [of _ "\<lparr>rv_time = trk_time t, rv_type = trk_type t, rv_record = ?r\<rparr>"] exI [of _ ?T1]
          exI [of _ "discounted T'"] exI [of _ A']) simp
  next
    case False
    then obtain ws where u: "trk_type t = UPDATE_TRACK \<or> trk_type t = INSERT_TRACK" "c0 = record_id_count (tbl_schema T)" "?k < c0"
      "R0 = R(?k \<mapsto> ws)" "R ?k = None \<longleftrightarrow> trk_type t = INSERT_TRACK" "trk_data t = payload ws" "row_typed ?cs ws"
      "\<forall>v \<in> set ws. known_value ?it v" "fresh_values ?cs R ?k ws" "card (dom R0) \<le> LEAF_KEYS"
      using log by (auto simp: undoes_def Let_def)
    have len: "length ws = schema_size T" by (rule row_typed_length [OF u(7)])
    note sz = row_payload_small [OF table_repD(2) [OF T] len] row_size(4) [OF table_repD(2) [OF T] len]
    have rec: "track_record t (schema_size T) ?it = Inr (mk_record ?k ws)"
      using text_record [OF u(1,6) _ u(8)] sz(1) len by simp
    have "trk_data t \<noteq> []" using sz(2) u(6) by simp
    from track_popped [OF j late _ rec] this obtain j' where p:
      "next_track time T = (Inr \<lparr>rv_time = trk_time t, rv_type = trk_type t, rv_record = mk_record ?k ws\<rparr>, T\<lparr>tbl_journal := j'\<rparr>)"
      "holds_tracks j' (rev ts)" "jnl_pos j' < jnl_pos (tbl_journal T)" "trk_time t \<noteq> []" by blast
    let ?T1 = "T\<lparr>tbl_journal := j'\<rparr>"
    have "\<exists>T' A'. revert_track (trk_type t) (mk_record ?k ws) ?T1 = (Inr (), T') \<and> parts_changed ?T1 T' \<and>
        table_rep T' (R(?k \<mapsto> ws)) A' 1"
    proof (cases "trk_type t = UPDATE_TRACK")
      case True
      then have "R ?k \<noteq> None" using u(5) by (simp add: track_defs)
      from undo_update [OF keep [of j'] this, of ws] u(7-9) small room
      show ?thesis using True by (simp add: revert_track_def track_defs)
    next
      case False
      then have ins: "trk_type t = INSERT_TRACK" "R ?k = None" using u(1,5) by simp_all
      have "card (dom R) < LEAF_KEYS" using u(4,10) ins(2) by (simp add: card_insert_if domIff)
      from undo_deletion [OF keep [of j'] ins(2), of ws] u(2,3,7-9) this room
      show ?thesis using ins(1) by (simp add: revert_track_def track_defs)
    qed
    then obtain T' A' where x: "revert_track (trk_type t) (mk_record ?k ws) ?T1 = (Inr (), T')" "parts_changed ?T1 T'"
      "table_rep T' (R(?k \<mapsto> ws)) A' 1" by blast
    note pc = parts_changed_facts [OF x(2)]
    have "same_frame 1 T T'" using parts_changed_frame [OF x(2)] by (simp add: same_frame_def)
    then show ?thesis using p u(2,4) x(1,3) pc(1,3)
      by (intro exI [of _ "\<lparr>rv_time = trk_time t, rv_type = trk_type t, rv_record = mk_record ?k ws\<rparr>"] exI [of _ ?T1]
          exI [of _ T'] exI [of _ A']) simp
  qed
qed

lemma undoes_small: "undoes cs it t R0 c0 R c \<Longrightarrow> card (dom R0) \<le> LEAF_KEYS"
  by (simp add: undoes_def)

lemma revert_loop_at:
  assumes "table_at T R H" "pager_total (tbl_pager T) + length H < 2 ^ 32" "jnl_pos (tbl_journal T) < fuel"
    and "rows_at time H R (record_id_count (tbl_schema T)) = (R', c')"
  shows "\<exists>T'. revert_loop fuel time T = (Inr (), T') \<and> table_at T' R' (history_at time H) \<and>
    record_id_count (tbl_schema T') = c' \<and> same_frame (length H) T T'"
  using assms
proof (induction H arbitrary: T R fuel)
  case Nil
  obtain f where fuel: "fuel = Suc f" using Nil.prems(3) by (cases fuel) auto
  obtain ts where ts: "holds_tracks (tbl_journal T) (rev ts)"
    "logged (columns (tbl_schema T)) (tbl_interner T) ts [] R (record_id_count (tbl_schema T))"
    using Nil.prems(1) by (auto simp: table_at_def)
  have "ts = []" using ts(2) by (cases ts) auto
  then have "next_track time T = (Inr no_track, T)"
    using revert_last_empty [of "tbl_journal T"] ts(1) by (simp add: next_track_def on_journal_def on_part_def)
  then have "revert_loop fuel time T = (Inr (), T)" by (simp add: fuel sbind_def no_track_def st_simps_basic)
  then show ?case using Nil.prems by (auto simp: same_frame_def)
next
  case (Cons m H)
  let ?c = "record_id_count (tbl_schema T)"
  obtain t0 R0 c0 where m: "m = (t0, R0, c0)" by (cases m)
  obtain A ts1 where at: "table_rep T R A 1" "card (dom R) \<le> LEAF_KEYS" "clock_ok T" "holds_tracks (tbl_journal T) (rev ts1)"
    "logged (columns (tbl_schema T)) (tbl_interner T) ts1 (m # H) R ?c" using Cons.prems(1) by (auto simp: table_at_def)
  then obtain t ts where ts: "ts1 = t # ts" using m by (cases ts1) auto
  have log: "trk_time t = t0" "undoes (columns (tbl_schema T)) (tbl_interner T) t R0 c0 R ?c"
    "logged (columns (tbl_schema T)) (tbl_interner T) ts H R0 c0" using at(5) m ts by auto
  have j: "holds_tracks (tbl_journal T) (rev (t # ts))" using at(4) ts by simp
  obtain f where fuel: "fuel = Suc f" using Cons.prems(3) by (cases fuel) auto
  show ?case
  proof (cases "text_less t0 time")
    case True
    have "trk_type t = DELETE_TRACK \<or> (\<exists>ws. trk_data t = payload ws \<and> row_typed (columns (tbl_schema T)) ws)"
      using log(2) by (auto simp: undoes_def Let_def split: if_splits)
    then have "trk_type t = DELETE_TRACK \<or> trk_data t \<noteq> []"
      using row_size(4) [OF table_repD(2) [OF at(1)]] row_typed_length by metis
    moreover have "holds_tracks (tbl_journal T) (rev ts @ [t])" using j by simp
    ultimately have "next_track time T = (Inr no_track, T)"
      using revert_last_last [of "tbl_journal T" "rev ts" t time] True log(1) by (simp add: next_track_def on_journal_def on_part_def)
    then have "revert_loop fuel time T = (Inr (), T)" by (simp add: fuel sbind_def no_track_def st_simps_basic)
    then show ?thesis using Cons.prems True m by (auto simp: same_frame_def)
  next
    case False
    have late: "\<not> text_less (trk_time t) time" using False log(1) by simp
    have room: "pager_total (tbl_pager T) + 1 < 2 ^ 32" using Cons.prems(2) by simp
    obtain d T1 T2 A2 where st: "next_track time T = (Inr d, T1)" "rv_time d \<noteq> []"
      "revert_track (rv_type d) (rv_record d) T1 = (Inr (), T2)" "table_rep T2 R0 A2 1" "record_id_count (tbl_schema T2) = c0"
      "holds_tracks (tbl_journal T2) (rev ts)" "jnl_pos (tbl_journal T2) < jnl_pos (tbl_journal T)" "same_frame 1 T T2"
      using revert_step [OF at(1,2) log(2) j late room] by blast
    have fr: "columns (tbl_schema T2) = columns (tbl_schema T)" "tbl_interner T2 = tbl_interner T" "tbl_clock T2 = tbl_clock T"
      "pager_total (tbl_pager T2) \<le> pager_total (tbl_pager T) + 1" using st(8) by (simp_all add: same_frame_def)
    have "table_at T2 R0 H"
      unfolding table_at_def using st(4-6) undoes_small [OF log(2)] at(3) log(3) fr by (auto simp: clock_ok_def)
    moreover have "pager_total (tbl_pager T2) + length H < 2 ^ 32" "jnl_pos (tbl_journal T2) < f"
      using Cons.prems(2,3) fr(4) st(7) fuel by simp_all
    moreover have "rows_at time H R0 (record_id_count (tbl_schema T2)) = (R', c')"
      using Cons.prems(4) False m st(5) by simp
    ultimately obtain T' where "revert_loop f time T2 = (Inr (), T')" "table_at T' R' (history_at time H)"
      "record_id_count (tbl_schema T') = c'" "same_frame (length H) T2 T'" using Cons.IH by blast
    then show ?thesis
      using st(1-3) same_frame_trans [OF st(8), of "length H" T'] False m by (simp add: fuel sbind_def)
  qed
qed

text \<open>\<open>REVERT\<close>: back to the rows at the time, and the schema's file follows.\<close>

lemma revert_at:
  assumes T: "table_at T R H" and room: "pager_total (tbl_pager T) + length H < 2 ^ 32"
    and past: "rows_at time H R (record_id_count (tbl_schema T)) = (R', c')"
  shows "\<exists>T'. Table_revert time T = (Inr (), T') \<and> table_at T' R' (history_at time H) \<and>
    record_id_count (tbl_schema T') = c' \<and> tbl_schema_file T' = Schema_ToBinary (tbl_schema T') \<and> same_frame (length H) T T'"
proof -
  obtain T1 where T1: "revert_loop (Suc (jnl_pos (tbl_journal T))) time T = (Inr (), T1)" "table_at T1 R' (history_at time H)"
    "record_id_count (tbl_schema T1) = c'" "same_frame (length H) T T1"
    using revert_loop_at [OF T room lessI past] by blast
  obtain A1 where rep: "table_rep T1 R' A1 1" using T1(2) by (auto simp: table_at_def)
  obtain b where b: "Schema_ToBinary (tbl_schema T1) = Some b"
    using table_repD(2) [OF rep] by (auto simp: schema_sound_def Schema_ToBinary_def)
  let ?T = "T1\<lparr>tbl_schema_file := Some b\<rparr>"
  have "Table_revert time T = (Inr (), ?T)" using T1(1) b by (simp add: Table_revert_def sbind_def save_schema_def)
  moreover have "table_at ?T R' (history_at time H)"
    using T1(2) table_rep_cong [of T1 _ _ _ ?T] by (fastforce simp: table_at_def clock_ok_def)
  ultimately show ?thesis using T1(3,4) b by (intro exI [of _ ?T]) (simp add: same_frame_def)
qed

end
