(* ===== verification/Sql_Eval.thy ===== *)
theory Sql_Eval
  imports Effects Sql_Lexer Sql_Ast Schema_Codec
begin

text \<open>
  The evaluation of literals, expressions and conditions on a stored record,
  \<open>apps/storage/src/executor.cpp\<close>. Evaluating a string literal interns it, so the state is the
  interner. The ECMAScript matcher of \<open>std::regex\<close> is the parameter \<open>rx\<close>: given a pattern and a text
  it says whether the whole text matches, or throws.
\<close>

section \<open>Integers in text\<close>

text \<open>\<open>std::stoi\<close> in base 10: white space, a sign, the longest run of digits; the rest is ignored.\<close>

definition digits_value :: "string \<Rightarrow> int" where
  "digits_value ds = foldl (\<lambda>n c. 10 * n + (of_char c - 48)) 0 ds"

definition stoi_sign :: "string \<Rightarrow> bool \<times> string" where
  "stoi_sign s = (case s of [] \<Rightarrow> (False, [])
     | c # r \<Rightarrow> if c = CHR ''-'' then (True, r) else if c = CHR ''+'' then (False, r) else (False, s))"

definition stoi :: "string \<Rightarrow> (32 word) result" where
  "stoi s =
     (case stoi_sign (dropWhile is_space s) of (neg, t) \<Rightarrow>
        let ds = takeWhile IsDigit t; v = (if neg then - digits_value ds else digits_value ds)
        in if ds = [] then Inl (Invalid_Argument ''stoi'')
           else if v < - (2 ^ 31) \<or> 2 ^ 31 \<le> v then Inl (Out_Of_Range ''stoi'')
           else Inr (word_of_int v))"

section \<open>Values of literals and expressions\<close>

definition LiteralValue :: "sql_literal \<Rightarrow> (interner, sql_value) st" where
  "LiteralValue l =
     (case LiteralType l of
        NullLit \<Rightarrow> sret VNull
      | IntegerLit \<Rightarrow> slift (rmap VInt (stoi (LitValue l)))
      | StringLit \<Rightarrow> (\<lambda>it. case Intern it (LitValue l) of (v, it') \<Rightarrow> (Inr v, it')))"

definition ExpressionValue :: "expression \<Rightarrow> schema \<Rightarrow> db_record \<Rightarrow> (interner, sql_value) st" where
  "ExpressionValue e sc r =
     (case e of
        LiteralExpr l \<Rightarrow> LiteralValue l
      | IdentifierExpr name \<Rightarrow>
          (let index = ColumnIndex sc name
           in if index < 0
              then sthrow (Runtime_Error (''[ERROR in qdb::storage::ExpressionValue]: Unknown column '' @ quoted name @ ''!''))
              else slift (field_of r (nat index)))
      | AggregateExpr f c \<Rightarrow>
          sthrow (Runtime_Error ''[ERROR in qdb::storage::ExpressionValue]: Unsupported expression!''))"

section \<open>Conditions\<close>

fun CompareStrings :: "string \<Rightarrow> string \<Rightarrow> comparison \<Rightarrow> sql_bool" where
  "CompareStrings left right OpEqual = of_bool_sql (left = right)"
| "CompareStrings left right OpNotEqual = of_bool_sql (left \<noteq> right)"
| "CompareStrings left right OpLess = of_bool_sql (text_less left right)"
| "CompareStrings left right OpGreater = of_bool_sql (text_less right left)"
| "CompareStrings left right OpLessEqual = of_bool_sql (\<not> text_less right left)"
| "CompareStrings left right OpGreaterEqual = of_bool_sql (\<not> text_less left right)"

fun compare_values :: "comparison \<Rightarrow> sql_value \<Rightarrow> sql_value \<Rightarrow> sql_bool result" where
  "compare_values OpEqual a b = value_eq a b"
| "compare_values OpNotEqual a b = value_ne a b"
| "compare_values OpLess a b = value_less a b"
| "compare_values OpGreater a b = value_gt a b"
| "compare_values OpLessEqual a b = value_le a b"
| "compare_values OpGreaterEqual a b = value_ge a b"

definition eval_comparison :: "comparison \<Rightarrow> sql_value \<Rightarrow> sql_value \<Rightarrow> (interner, sql_bool) st" where
  "eval_comparison op left right =
     (if IsNull left \<or> IsNull right then sret SqlUnknown
      else case (left, right) of
        (VString a, VString b) \<Rightarrow>
          (\<lambda>it. (rbind (View it a) (\<lambda>l. rbind (View it b) (\<lambda>r. Inr (CompareStrings l r op))), it))
      | _ \<Rightarrow> slift (compare_values op left right))"

definition eval_like :: "(string \<Rightarrow> string \<Rightarrow> bool result) \<Rightarrow> string \<Rightarrow> sql_value \<Rightarrow> (interner, sql_bool) st" where
  "eval_like rx pat value =
     (case value of
        VNull \<Rightarrow> sret SqlUnknown
      | VInt _ \<Rightarrow> sthrow (Runtime_Error ''[ERROR in qdb::storage::EvaluateCondition]: LIKE expects string value!'')
      | VString s \<Rightarrow> (\<lambda>it. (rbind (View it s) (\<lambda>t. rmap of_bool_sql (rx pat t)), it)))"

text \<open>The operands of the overloaded \<open>&&\<close> and \<open>||\<close> are both evaluated, the left one first.\<close>

fun EvaluateCondition :: "(string \<Rightarrow> string \<Rightarrow> bool result) \<Rightarrow> condition \<Rightarrow> schema \<Rightarrow> db_record \<Rightarrow>
    (interner, sql_bool) st" where
  "EvaluateCondition rx (ComparisonCondition l op r) sc rec =
     sbind (ExpressionValue l sc rec) (\<lambda>left.
       sbind (ExpressionValue r sc rec) (\<lambda>right. eval_comparison op left right))"
| "EvaluateCondition rx (BetweenCondition v lo hi) sc rec =
     sbind (ExpressionValue v sc rec) (\<lambda>value.
       sbind (ExpressionValue lo sc rec) (\<lambda>lower.
         sbind (slift (value_ge value lower)) (\<lambda>a.
           sbind (ExpressionValue hi sc rec) (\<lambda>upper.
             sbind (slift (value_le value upper)) (\<lambda>b. sret (sql_and a b))))))"
| "EvaluateCondition rx (LikeCondition v pat) sc rec =
     sbind (ExpressionValue v sc rec) (\<lambda>value. eval_like rx pat value)"
| "EvaluateCondition rx (AndCondition l r) sc rec =
     sbind (EvaluateCondition rx l sc rec) (\<lambda>a.
       sbind (EvaluateCondition rx r sc rec) (\<lambda>b. sret (sql_and a b)))"
| "EvaluateCondition rx (OrCondition l r) sc rec =
     sbind (EvaluateCondition rx l sc rec) (\<lambda>a.
       sbind (EvaluateCondition rx r sc rec) (\<lambda>b. sret (sql_or a b)))"

section \<open>The specification\<close>

text \<open>
  Values as SQL sees them: a string is its text. \<open>row_value\<close> is the value of a column in a row given
  as a map from names; \<open>sql_sem\<close> is the meaning of a condition, with \<open>None\<close> where SQL has an error.
\<close>

datatype plain = PNull | PInt int | PText string

fun plain_of :: "interner \<Rightarrow> sql_value \<Rightarrow> plain" where
  "plain_of it VNull = PNull"
| "plain_of it (VInt w) = PInt (sint w)"
| "plain_of it (VString s) = (case id_to_view it (sid_value s) of Some t \<Rightarrow> PText t | None \<Rightarrow> PNull)"

fun literal_sem :: "sql_literal \<Rightarrow> plain option" where
  "literal_sem (Literal NullLit s) = Some PNull"
| "literal_sem (Literal IntegerLit s) = (case stoi s of Inr w \<Rightarrow> Some (PInt (sint w)) | Inl _ \<Rightarrow> None)"
| "literal_sem (Literal StringLit s) = Some (PText s)"

fun expr_sem :: "(string \<rightharpoonup> plain) \<Rightarrow> expression \<Rightarrow> plain option" where
  "expr_sem row (LiteralExpr l) = literal_sem l"
| "expr_sem row (IdentifierExpr name) = row name"
| "expr_sem row (AggregateExpr f c) = None"

text \<open>One order on integers and one on texts.\<close>

fun plain_cmp :: "comparison \<Rightarrow> bool \<Rightarrow> bool \<Rightarrow> sql_bool" where
  "plain_cmp OpEqual lt gt = of_bool_sql (\<not> lt \<and> \<not> gt)"
| "plain_cmp OpNotEqual lt gt = of_bool_sql (lt \<or> gt)"
| "plain_cmp OpLess lt gt = of_bool_sql lt"
| "plain_cmp OpGreater lt gt = of_bool_sql gt"
| "plain_cmp OpLessEqual lt gt = of_bool_sql (\<not> gt)"
| "plain_cmp OpGreaterEqual lt gt = of_bool_sql (\<not> lt)"

fun cmp_sem :: "comparison \<Rightarrow> plain \<Rightarrow> plain \<Rightarrow> sql_bool option" where
  "cmp_sem op (PInt a) (PInt b) = Some (plain_cmp op (a < b) (b < a))"
| "cmp_sem op (PText a) (PText b) = Some (plain_cmp op (text_less a b) (text_less b a))"
| "cmp_sem op a b = (if a = PNull \<or> b = PNull then Some SqlUnknown else None)"

fun opt2 :: "('a \<Rightarrow> 'b \<Rightarrow> 'c option) \<Rightarrow> 'a option \<Rightarrow> 'b option \<Rightarrow> 'c option" where
  "opt2 f (Some a) (Some b) = f a b"
| "opt2 f _ _ = None"

fun like_sem :: "(string \<Rightarrow> string \<Rightarrow> bool result) \<Rightarrow> string \<Rightarrow> plain \<Rightarrow> sql_bool option" where
  "like_sem rx pat PNull = Some SqlUnknown"
| "like_sem rx pat (PInt _) = None"
| "like_sem rx pat (PText t) = (case rx pat t of Inr b \<Rightarrow> Some (of_bool_sql b) | Inl _ \<Rightarrow> None)"

fun sql_sem :: "(string \<Rightarrow> string \<Rightarrow> bool result) \<Rightarrow> (string \<rightharpoonup> plain) \<Rightarrow> condition \<Rightarrow> sql_bool option" where
  "sql_sem rx row (ComparisonCondition l op r) = opt2 (cmp_sem op) (expr_sem row l) (expr_sem row r)"
| "sql_sem rx row (BetweenCondition v lo hi) =
     opt2 (\<lambda>a b. Some (sql_and a b)) (opt2 (cmp_sem OpGreaterEqual) (expr_sem row v) (expr_sem row lo))
       (opt2 (cmp_sem OpLessEqual) (expr_sem row v) (expr_sem row hi))"
| "sql_sem rx row (LikeCondition v pat) = Option.bind (expr_sem row v) (like_sem rx pat)"
| "sql_sem rx row (AndCondition l r) = opt2 (\<lambda>a b. Some (sql_and a b)) (sql_sem rx row l) (sql_sem rx row r)"
| "sql_sem rx row (OrCondition l r) = opt2 (\<lambda>a b. Some (sql_or a b)) (sql_sem rx row l) (sql_sem rx row r)"

text \<open>No \<open>BETWEEN\<close> on a string: its value is not a text in this row.\<close>

fun between_on_ints :: "(string \<rightharpoonup> plain) \<Rightarrow> condition \<Rightarrow> bool" where
  "between_on_ints row (BetweenCondition v lo hi) \<longleftrightarrow> (case expr_sem row v of Some (PText _) \<Rightarrow> False | _ \<Rightarrow> True)"
| "between_on_ints row (AndCondition l r) \<longleftrightarrow> between_on_ints row l \<and> between_on_ints row r"
| "between_on_ints row (OrCondition l r) \<longleftrightarrow> between_on_ints row l \<and> between_on_ints row r"
| "between_on_ints row _ \<longleftrightarrow> True"

definition row_of :: "interner \<Rightarrow> schema \<Rightarrow> db_record \<Rightarrow> string \<rightharpoonup> plain" where
  "row_of it sc rec name =
     (let i = ColumnIndex sc name
      in if 0 \<le> i \<and> nat i < length (rec_fields rec) then Some (plain_of it (rec_fields rec ! nat i)) else None)"

section \<open>Evaluation implements the specification\<close>

text \<open>The interner after at most \<open>n\<close> more strings: everything it knew is as before.\<close>

definition grown :: "nat \<Rightarrow> interner \<Rightarrow> interner \<Rightarrow> bool" where
  "grown n it it' \<longleftrightarrow> interner_rep it' \<and> length (string_storage it') \<le> length (string_storage it) + n \<and>
     (\<forall>i s. id_to_view it i = Some s \<longrightarrow> id_to_view it' i = Some s)"

definition room :: "nat \<Rightarrow> interner \<Rightarrow> bool" where
  "room n it \<longleftrightarrow> interner_rep it \<and> length (string_storage it) + n + 1 < 2 ^ 32"

lemma grown_refl: "interner_rep it \<Longrightarrow> grown n it it"
  by (simp add: grown_def)

lemma grown_trans: "grown m it it1 \<Longrightarrow> grown n it1 it2 \<Longrightarrow> grown (m + n) it it2"
  by (simp add: grown_def)

lemma room_grown: "room (m + n) it \<Longrightarrow> grown m it it1 \<Longrightarrow> room n it1"
  by (simp add: room_def grown_def)

lemma grown_plain: "grown n it it' \<Longrightarrow> known_value it v \<Longrightarrow> plain_of it' v = plain_of it v \<and> known_value it' v"
  by (cases v) (auto simp: grown_def)

definition known_record :: "interner \<Rightarrow> db_record \<Rightarrow> bool" where
  "known_record it r \<longleftrightarrow> list_all (known_value it) (rec_fields r)"

lemma grown_record:
  assumes "grown n it it'" "known_record it r"
  shows "known_record it' r" "row_of it' sc r = row_of it sc r"
proof -
  show "known_record it' r" using assms grown_plain by (auto simp: known_record_def list_all_iff)
  have "plain_of it' (rec_fields r ! k) = plain_of it (rec_fields r ! k)" if "k < length (rec_fields r)" for k
    using assms grown_plain that by (auto simp: known_record_def list_all_length)
  then show "row_of it' sc r = row_of it sc r" by (auto simp: row_of_def Let_def fun_eq_iff)
qed

lemma Intern_grown:
  assumes "room 1 it"
  shows "\<exists>sid it'. Intern it s = (VString sid, it') \<and> id_to_view it' (sid_value sid) = Some s \<and> grown 1 it it'"
proof -
  have r: "interner_rep it" "length (string_storage it) + 2 < 2 ^ 32" using assms by (simp_all add: room_def)
  obtain sid it' where i: "Intern it s = (VString sid, it')" "View it' sid = Inr s"
    using Intern_views(1) [OF r, of s] by (metis prod.collapse)
  moreover have "interner_rep it'" using Intern_rep [OF r, of s] i by simp
  moreover have "length (string_storage it') \<le> length (string_storage it) + 1" using Intern_length [OF r(1), of s] i by simp
  moreover have "id_to_view it' j = Some t" if "id_to_view it j = Some t" for j t
    using Intern_views(2) [OF r, of "StringId j" t s] that i by (simp add: View_def split: option.splits)
  ultimately show ?thesis by (auto simp: grown_def View_def split: option.splits)
qed

lemma ExpressionValue_sem:
  assumes "room 1 it" "known_record it r" "expr_sem (row_of it sc r) e = Some p"
  shows "\<exists>v it'. ExpressionValue e sc r it = (Inr v, it') \<and> plain_of it' v = p \<and> known_value it' v \<and> grown 1 it it'"
proof (cases e)
  case (IdentifierExpr name)
  then show ?thesis using assms
    by (auto simp: ExpressionValue_def row_of_def Let_def st_simps field_of_def known_record_def list_all_length
        room_def grown_refl split: if_splits)
next
  case (LiteralExpr l)
  obtain ty t where l: "l = Literal ty t" by (cases l)
  have it: "interner_rep it" using assms(1) by (simp add: room_def)
  show ?thesis
  proof (cases ty)
    case StringLit
    obtain sid it' where "Intern it t = (VString sid, it')" "id_to_view it' (sid_value sid) = Some t" "grown 1 it it'"
      using Intern_grown [OF assms(1)] by blast
    then show ?thesis using LiteralExpr l StringLit assms(3) by (simp add: ExpressionValue_def LiteralValue_def)
  next
    case IntegerLit
    then show ?thesis using LiteralExpr l assms(3) it
      by (auto simp: ExpressionValue_def LiteralValue_def st_simps grown_refl split: sum.splits)
  next
    case NullLit
    then show ?thesis using LiteralExpr l assms(3) it
      by (auto simp: ExpressionValue_def LiteralValue_def st_simps grown_refl)
  qed
qed (use assms in simp)

lemma CompareStrings_plain: "CompareStrings a b op = plain_cmp op (text_less a b) (text_less b a)"
  using text_less_total [of a b] text_less_irrefl text_less_asym [of a b] by (cases op; cases "a = b") auto

lemma compare_ints: "compare_values op (VInt a) (VInt b) = Inr (plain_cmp op (sint a < sint b) (sint b < sint a))"
  by (cases op) (auto simp: value_cmp_defs intro!: arg_cong [where f = of_bool_sql])

lemma eval_comparison_sem:
  assumes "known_value it a" "known_value it b" "cmp_sem op (plain_of it a) (plain_of it b) = Some r"
  shows "eval_comparison op a b it = (Inr r, it)"
  using assms by (cases a; cases b)
    (auto simp: eval_comparison_def st_simps View_def compare_ints CompareStrings_plain split: option.splits)

lemma between_sem:
  assumes "known_value it a" "known_value it b" "cmp_sem op (plain_of it a) (plain_of it b) = Some r"
    and "\<And>t. plain_of it a \<noteq> PText t"
  shows "compare_values op a b = Inr r"
proof (cases "\<exists>i j. a = VInt i \<and> b = VInt j")
  case True
  then show ?thesis using assms compare_ints by auto
next
  case False
  then have "IsNull a \<or> IsNull b" "r = SqlUnknown" using assms by (cases a; cases b; auto)+
  then show ?thesis using value_cmp_null by (cases op) auto
qed

fun cond_weight :: "condition \<Rightarrow> nat" where
  "cond_weight (ComparisonCondition l op r) = 2"
| "cond_weight (BetweenCondition v lo hi) = 3"
| "cond_weight (LikeCondition v pat) = 1"
| "cond_weight (AndCondition l r) = cond_weight l + cond_weight r"
| "cond_weight (OrCondition l r) = cond_weight l + cond_weight r"

lemma opt2_Some: "opt2 f x y = Some z \<longleftrightarrow> (\<exists>a b. x = Some a \<and> y = Some b \<and> f a b = Some z)"
  by (cases x; cases y) auto

lemma room_mono: "room n it \<Longrightarrow> m \<le> n \<Longrightarrow> room m it"
  by (simp add: room_def)

lemma EvaluateCondition_sem:
  assumes "room (cond_weight c) it" "known_record it r" "sql_sem rx (row_of it sc r) c = Some b"
    and "between_on_ints (row_of it sc r) c"
  shows "\<exists>it'. EvaluateCondition rx c sc r it = (Inr b, it') \<and> grown (cond_weight c) it it'"
  using assms
proof (induction c arbitrary: it b)
  case (ComparisonCondition el op er)
  obtain p q where s: "expr_sem (row_of it sc r) el = Some p" "expr_sem (row_of it sc r) er = Some q" "cmp_sem op p q = Some b"
    using ComparisonCondition.prems(3) by (auto simp: opt2_Some)
  have r2: "room (1 + 1) it" using ComparisonCondition.prems(1) by (simp add: numeral_2_eq_2)
  obtain v it1 where v: "ExpressionValue el sc r it = (Inr v, it1)" "plain_of it1 v = p" "known_value it1 v" "grown 1 it it1"
    using ExpressionValue_sem [OF room_mono [OF r2] ComparisonCondition.prems(2) s(1)] by auto
  note g = grown_record [OF v(4) ComparisonCondition.prems(2)]
  obtain w it2 where w: "ExpressionValue er sc r it1 = (Inr w, it2)" "plain_of it2 w = q" "known_value it2 w" "grown 1 it1 it2"
    using ExpressionValue_sem [OF room_grown [OF r2 v(4)] g(1)] s(2) g(2) [of sc] by metis
  have "eval_comparison op v w it2 = (Inr b, it2)"
    using grown_plain [OF w(4) v(3)] v(2) w(2,3) s(3) by (intro eval_comparison_sem) auto
  then show ?case using v(1) w(1) grown_trans [OF v(4) w(4)] by (simp add: st_simps numeral_2_eq_2)
next
  case (BetweenCondition e lo hi)
  obtain p q q' a a' where s: "expr_sem (row_of it sc r) e = Some p" "expr_sem (row_of it sc r) lo = Some q"
    "expr_sem (row_of it sc r) hi = Some q'" "cmp_sem OpGreaterEqual p q = Some a" "cmp_sem OpLessEqual p q' = Some a'"
    "b = sql_and a a'"
    using BetweenCondition.prems(3) by (auto simp: opt2_Some)
  have np: "p \<noteq> PText t" for t using BetweenCondition.prems(4) s(1) by auto
  have r3: "room (1 + (1 + 1)) it" using BetweenCondition.prems(1) by (simp add: numeral_3_eq_3)
  obtain v it1 where v: "ExpressionValue e sc r it = (Inr v, it1)" "plain_of it1 v = p" "known_value it1 v" "grown 1 it it1"
    using ExpressionValue_sem [OF room_mono [OF r3] BetweenCondition.prems(2) s(1)] by auto
  note r2 = room_grown [OF r3 v(4)] and g1 = grown_record [OF v(4) BetweenCondition.prems(2)]
  obtain w it2 where w: "ExpressionValue lo sc r it1 = (Inr w, it2)" "plain_of it2 w = q" "known_value it2 w" "grown 1 it1 it2"
    using ExpressionValue_sem [OF room_mono [OF r2] g1(1)] s(2) g1(2) [of sc] by (metis le_add1)
  note g2 = grown_record [OF w(4) g1(1)] and v2 = grown_plain [OF w(4) v(3)]
  obtain w' it3 where w': "ExpressionValue hi sc r it2 = (Inr w', it3)" "plain_of it3 w' = q'" "known_value it3 w'" "grown 1 it2 it3"
    using ExpressionValue_sem [OF room_grown [OF r2 w(4)] g2(1)] s(3) g1(2) [of sc] g2(2) [of sc] by metis
  have v3: "plain_of it3 v = p" "known_value it3 v" using grown_plain [OF w'(4), of v] v2 v(2) by auto
  have "value_ge v w = Inr a" using between_sem [of it2 v w OpGreaterEqual a] v2 v(2) w(2,3) s(4) np by simp
  moreover have "value_le v w' = Inr a'" using between_sem [of it3 v w' OpLessEqual a'] v3 w'(2,3) s(5) np by simp
  moreover have "grown 3 it it3" using grown_trans [OF v(4) grown_trans [OF w(4) w'(4)]] by (simp add: numeral_3_eq_3)
  ultimately show ?case using v(1) w(1) w'(1) s(6) by (simp add: st_simps)
next
  case (LikeCondition e pat)
  obtain p where s: "expr_sem (row_of it sc r) e = Some p" "like_sem rx pat p = Some b"
    using LikeCondition.prems(3) by (auto simp: bind_eq_Some_conv)
  obtain v it1 where v: "ExpressionValue e sc r it = (Inr v, it1)" "plain_of it1 v = p" "known_value it1 v" "grown 1 it it1"
    using ExpressionValue_sem [OF _ LikeCondition.prems(2) s(1)] LikeCondition.prems(1) by auto
  have "eval_like rx pat v it1 = (Inr b, it1)"
    using v(2,3) s(2) by (cases v) (auto simp: eval_like_def st_simps View_def split: option.splits sum.splits)
  then show ?case using v(1,4) by (simp add: st_simps)
next
  case (AndCondition l c)
  obtain x y where s: "sql_sem rx (row_of it sc r) l = Some x" "sql_sem rx (row_of it sc r) c = Some y" "b = sql_and x y"
    using AndCondition.prems(3) by (auto simp: opt2_Some)
  have room: "room (cond_weight l + cond_weight c) it" using AndCondition.prems(1) by simp
  obtain it1 where i1: "EvaluateCondition rx l sc r it = (Inr x, it1)" "grown (cond_weight l) it it1"
    using AndCondition.IH(1) [OF room_mono [OF room] AndCondition.prems(2) s(1)] AndCondition.prems(4) by auto
  note g = grown_record [OF i1(2) AndCondition.prems(2)]
  obtain it2 where i2: "EvaluateCondition rx c sc r it1 = (Inr y, it2)" "grown (cond_weight c) it1 it2"
    using AndCondition.IH(2) [OF room_grown [OF room i1(2)] g(1), of y] s(2) g(2) [of sc] AndCondition.prems(4) by auto
  show ?case using i1(1) i2(1) grown_trans [OF i1(2) i2(2)] s(3) by (simp add: st_simps)
next
  case (OrCondition l c)
  obtain x y where s: "sql_sem rx (row_of it sc r) l = Some x" "sql_sem rx (row_of it sc r) c = Some y" "b = sql_or x y"
    using OrCondition.prems(3) by (auto simp: opt2_Some)
  have room: "room (cond_weight l + cond_weight c) it" using OrCondition.prems(1) by simp
  obtain it1 where i1: "EvaluateCondition rx l sc r it = (Inr x, it1)" "grown (cond_weight l) it it1"
    using OrCondition.IH(1) [OF room_mono [OF room] OrCondition.prems(2) s(1)] OrCondition.prems(4) by auto
  note g = grown_record [OF i1(2) OrCondition.prems(2)]
  obtain it2 where i2: "EvaluateCondition rx c sc r it1 = (Inr y, it2)" "grown (cond_weight c) it1 it2"
    using OrCondition.IH(2) [OF room_grown [OF room i1(2)] g(1), of y] s(2) g(2) [of sc] OrCondition.prems(4) by auto
  show ?case using i1(1) i2(1) grown_trans [OF i1(2) i2(2)] s(3) by (simp add: st_simps)
qed

end
