(* ===== verification/Table_Make.thy ===== *)
theory Table_Make
  imports Table_History Sql_Eval
begin

text \<open>
  Making a record from the values of an \<open>INSERT\<close>: given by position, or by name with the defaults
  of the columns that are not named. Defaults may intern strings; nothing that was known is lost.
\<close>

section \<open>Values by position\<close>

lemma make_by_position:
  "length vs = schema_size T \<Longrightarrow> make_record rid vs [] T = (Inr (mk_record rid vs), T)"
  by (simp add: make_record_def st_simps)

section \<open>Values by name\<close>

text \<open>The value a column gets when it is not named.\<close>

definition default_value :: "interner \<Rightarrow> column \<Rightarrow> sql_value \<Rightarrow> bool" where
  "default_value it c v \<longleftrightarrow>
     (case col_default c of
        DEFAULT_NONE \<Rightarrow> v = VNull
      | DEFAULT_NULL \<Rightarrow> v = VNull
      | DEFAULT_INT \<Rightarrow> v = VInt (col_default_int c)
      | DEFAULT_STRING \<Rightarrow> \<exists>sid. v = VString sid \<and> View it sid = Inr (col_default_string c))"

definition value_given :: "string list \<Rightarrow> sql_value list \<Rightarrow> interner \<Rightarrow> column \<Rightarrow> sql_value \<Rightarrow> bool" where
  "value_given names vs it c v \<longleftrightarrow>
     (case map_of (rev (zip names vs)) (col_name c) of Some w \<Rightarrow> v = w | None \<Rightarrow> default_value it c v)"

lemma default_value_known: "default_value it c v \<Longrightarrow> known_value it v"
  by (cases v) (auto simp: default_value_def View_def split: default_type.splits option.splits)

lemma grown_view: "grown n it it' \<Longrightarrow> View it sid = Inr s \<Longrightarrow> View it' sid = Inr s"
  by (auto simp: grown_def View_def split: option.splits)

lemma default_value_grown: "grown n it it' \<Longrightarrow> default_value it c v \<Longrightarrow> default_value it' c v"
  using grown_view by (fastforce simp: default_value_def split: default_type.splits)

lemma grown_known: "grown n it it' \<Longrightarrow> known_value it v \<Longrightarrow> known_value it' v"
  using grown_plain by blast

lemma DefaultValue_grown:
  assumes "room 1 it" "HasDefault c"
  shows "\<exists>v it'. DefaultValue c it = Inr (v, it') \<and> default_value it' c v \<and> grown 1 it it'"
proof (cases "col_default c")
  case DEFAULT_STRING
  obtain sid it' where "Intern it (col_default_string c) = (VString sid, it')"
    "id_to_view it' (sid_value sid) = Some (col_default_string c)" "grown 1 it it'" using Intern_grown [OF assms(1)] by blast
  then show ?thesis using DEFAULT_STRING by (simp add: DefaultValue_def default_value_def View_def)
qed (use assms in \<open>auto simp: HasDefault_def DefaultValue_def default_value_def room_def intro: grown_refl [unfolded grown_def]
      simp: grown_def\<close>)

text \<open>The loop over the columns from the \<open>i\<close>-th on.\<close>

lemma apply_defaults_from_sem:
  assumes "room (length cs) it" "i + length cs = length (rec_fields r)"
    and "\<And>j. i \<le> j \<Longrightarrow> j < length (rec_fields r) \<Longrightarrow> rec_fields r ! j = VNull"
  shows "\<exists>r' it'. apply_defaults_from cs i provided r it = (Inr r', it') \<and> grown (length cs) it it' \<and>
    rec_id r' = rec_id r \<and> rec_addr r' = rec_addr r \<and> length (rec_fields r') = length (rec_fields r) \<and>
    (\<forall>j < i. rec_fields r' ! j = rec_fields r ! j) \<and>
    (\<forall>j < length cs. if i + j \<in> set provided then rec_fields r' ! (i + j) = VNull
       else default_value it' (cs ! j) (rec_fields r' ! (i + j)))"
  using assms
proof (induction cs arbitrary: i r it)
  case Nil
  then show ?case by (auto simp: st_simps_basic room_def intro!: grown_refl)
next
  case (Cons c cs)
  show ?case
  proof (cases "HasDefault c \<and> i \<notin> set provided")
    case True
    have "room 1 it" using Cons.prems(1) by (simp add: room_def)
    from DefaultValue_grown [OF this] True obtain v it1 where
      v: "DefaultValue c it = Inr (v, it1)" "default_value it1 c v" "grown 1 it it1" by blast
    let ?r = "set_field r i v"
    have r: "length (rec_fields ?r) = length (rec_fields r)" "rec_fields ?r ! i = v" "rec_id ?r = rec_id r" "rec_addr ?r = rec_addr r"
      "\<And>j. j \<noteq> i \<Longrightarrow> rec_fields ?r ! j = rec_fields r ! j" using Cons.prems(2) by (simp_all add: set_field_def)
    have "room (length cs) it1" using room_grown [OF _ v(3), of "length cs"] Cons.prems(1) by (simp add: add.commute)
    from Cons.IH [OF this, of "i + 1" ?r] Cons.prems(2,3) r obtain r' it' where
      s: "apply_defaults_from cs (i + 1) provided ?r it1 = (Inr r', it')" "grown (length cs) it1 it'"
      "rec_id r' = rec_id r" "rec_addr r' = rec_addr r" "length (rec_fields r') = length (rec_fields r)"
      "\<forall>j < i + 1. rec_fields r' ! j = rec_fields ?r ! j"
      "\<forall>j < length cs. if i + 1 + j \<in> set provided then rec_fields r' ! (i + 1 + j) = VNull
         else default_value it' (cs ! j) (rec_fields r' ! (i + 1 + j))" by auto
    have "default_value it' c (rec_fields r' ! i)" using default_value_grown [OF s(2) v(2)] s(6) r(2) by simp
    moreover have "\<forall>j < i. rec_fields r' ! j = rec_fields r ! j" using s(6) r(5) by simp
    moreover have "apply_defaults_from (c # cs) i provided r it = (Inr r', it')" using True v(1) s(1) by (simp add: sbind_def)
    moreover have "grown (length (c # cs)) it it'" using grown_trans [OF v(3) s(2)] by simp
    ultimately show ?thesis using True s(3-5,7) r(1,3,4) by (auto simp: All_less_Suc2)
  next
    case False
    have "room (length cs) it" using Cons.prems(1) by (simp add: room_def)
    from Cons.IH [OF this, of "i + 1" r] Cons.prems(2,3) obtain r' it' where
      s: "apply_defaults_from cs (i + 1) provided r it = (Inr r', it')" "grown (length cs) it it'"
      "rec_id r' = rec_id r" "rec_addr r' = rec_addr r" "length (rec_fields r') = length (rec_fields r)"
      "\<forall>j < i + 1. rec_fields r' ! j = rec_fields r ! j"
      "\<forall>j < length cs. if i + 1 + j \<in> set provided then rec_fields r' ! (i + 1 + j) = VNull
         else default_value it' (cs ! j) (rec_fields r' ! (i + 1 + j))" by auto
    have null: "rec_fields r' ! i = VNull" using s(6) Cons.prems(2,3) by simp
    have "grown (length (c # cs)) it it'" using s(2) by (auto simp: grown_def)
    moreover have "i \<notin> set provided \<Longrightarrow> default_value it' c (rec_fields r' ! i)"
      using False null by (simp add: default_value_def HasDefault_def)
    moreover have "\<forall>j < i. rec_fields r' ! j = rec_fields r ! j" using s(6) by simp
    moreover have "apply_defaults_from (c # cs) i provided r it = (Inr r', it')" using False s(1) by auto
    ultimately show ?thesis using null s(3-5,7) by (auto simp: All_less_Suc2)
  qed
qed


lemma update_columns_sem:
  "\<forall>j \<in> set is. j < length (rec_fields r) \<Longrightarrow>
   rec_id (update_columns r vs is) = rec_id r \<and> rec_addr (update_columns r vs is) = rec_addr r \<and>
   length (rec_fields (update_columns r vs is)) = length (rec_fields r) \<and>
   (\<forall>i < length (rec_fields r). rec_fields (update_columns r vs is) ! i =
      (case map_of (rev (zip is vs)) i of Some v \<Rightarrow> v | None \<Rightarrow> rec_fields r ! i))"
proof (induction "is" arbitrary: vs r)
  case (Cons j js)
  show ?case
  proof (cases vs)
    case (Cons v ws)
    have "\<forall>i \<in> set js. i < length (rec_fields (set_field r j v))" using Cons.prems by (simp add: set_field_def)
    from Cons.IH [OF this, of ws] show ?thesis using Cons.prems \<open>vs = v # ws\<close>
      by (auto simp: update_columns_def set_field_def map_add_def split: option.splits)
  qed (simp add: update_columns_def)
qed (simp add: update_columns_def)

lemma resolve_columns:
  assumes "set names \<subseteq> set (map col_name (columns sc))"
  shows "\<exists>is. resolve_column_indices sc names = Inr is \<and> length is = length names \<and>
    (\<forall>j < length names. is ! j < length (columns sc) \<and> col_name (columns sc ! (is ! j)) = names ! j)"
  using assms
proof (induction names)
  case (Cons name names)
  then obtain "is" where s: "resolve_column_indices sc names = Inr is" "length is = length names"
    "\<forall>j < length names. is ! j < length (columns sc) \<and> col_name (columns sc ! (is ! j)) = names ! j" by auto
  obtain k where "k < length (columns sc)" "ColumnIndex sc name = int k" "col_name (columns sc ! k) = name"
    using column_index_from_spec [of 0 "columns sc" name] Cons.prems by (auto simp: ColumnIndex_def)
  then show ?case using s by (auto simp: Let_def All_less_Suc2 intro!: exI [of _ "k # is"])
qed simp

text \<open>Looking up a column's position is looking up its name.\<close>

lemma map_of_index:
  fixes vs :: "'v list"
  assumes "distinct (map col_name cs)" "length is = length names"
    and "\<And>j. j < length names \<Longrightarrow> is ! j < length cs \<and> col_name (cs ! (is ! j)) = names ! j" "i < length cs"
  shows "map_of (rev (zip is vs)) i = map_of (rev (zip names vs)) (col_name (cs ! i))"
  using assms(2,3)
proof (induction "is" arbitrary: names vs)
  case (Cons k js all)
  obtain name names where all: "all = name # names" using Cons.prems(1) by (cases all) auto
  note prems = Cons.prems(2) [unfolded all]
  have k: "k < length cs" "col_name (cs ! k) = name" using prems [of 0] by simp_all
  have IH: "map_of (rev (zip js ws)) i = map_of (rev (zip names ws)) (col_name (cs ! i))" for ws :: "'v list"
  proof (rule Cons.IH)
    show "length js = length names" using Cons.prems(1) all by simp
    fix j assume "j < length names"
    then show "js ! j < length cs \<and> col_name (cs ! (js ! j)) = names ! j" using prems [of "Suc j"] by simp
  qed
  have "k = i \<longleftrightarrow> name = col_name (cs ! i)"
    using nth_eq_iff_index_eq [OF assms(1), of k i] k assms(4) by auto
  then show ?case using IH all by (cases vs) (auto simp: map_add_def split: option.splits)
qed simp

lemma make_by_name:
  assumes names: "names \<noteq> []" "length vs = length names" "set names \<subseteq> set (map col_name (columns (tbl_schema T)))"
    and sch: "schema_sound (tbl_schema T)"
    and it: "room (schema_size T) (tbl_interner T)" "\<forall>v \<in> set vs. known_value (tbl_interner T) v"
  shows "\<exists>r it. make_record rid vs names T = (Inr r, T\<lparr>tbl_interner := it\<rparr>) \<and> grown (schema_size T) (tbl_interner T) it \<and>
    rec_id r = rid \<and> rec_addr r = None \<and> length (rec_fields r) = schema_size T \<and>
    (\<forall>v \<in> set (rec_fields r). known_value it v) \<and>
    (\<forall>i < schema_size T. value_given names vs it (columns (tbl_schema T) ! i) (rec_fields r ! i))"
proof -
  let ?sc = "tbl_schema T" and ?cs = "columns (tbl_schema T)"
  obtain "is" where s: "resolve_column_indices ?sc names = Inr is" "length is = length names"
    "\<forall>j < length names. is ! j < length ?cs \<and> col_name (?cs ! (is ! j)) = names ! j" using resolve_columns [OF names(3)] by blast
  have n: "length ?cs < 2 ^ 32" "?cs \<noteq> []" using sch by (auto simp: schema_sound_def MAX_RECORD_SIZE_def layout_defs)
  then have nz: "(word_of_nat (length ?cs) :: 32 word) \<noteq> 0" "unat (word_of_nat (length ?cs) :: 32 word) = length ?cs"
    by (auto simp: word_unat_eq_iff unat_of_nat)
  let ?b = "\<lparr>rec_id = rid, rec_fields = replicate (length ?cs) VNull, rec_addr = None\<rparr>"
  obtain r1 it where d: "apply_defaults_from ?cs 0 is ?b (tbl_interner T) = (Inr r1, it)" "grown (length ?cs) (tbl_interner T) it"
    "rec_id r1 = rid" "rec_addr r1 = None" "length (rec_fields r1) = length ?cs"
    "\<forall>j < length ?cs. if j \<in> set is then rec_fields r1 ! j = VNull else default_value it (?cs ! j) (rec_fields r1 ! j)"
    using apply_defaults_from_sem [OF it(1), of 0 ?b "is", unfolded add_0] by auto
  let ?r = "update_columns r1 vs is"
  have isb: "\<forall>j \<in> set is. j < length (rec_fields r1)" using s(2,3) d(5) by (auto simp: in_set_conv_nth)
  note u = update_columns_sem [OF isb, of vs]
  have run: "make_record rid vs names T = (Inr ?r, T\<lparr>tbl_interner := it\<rparr>)"
    using names(1,2) s(1) nz d(1)
    by (simp add: make_record_def Let_def sbind_def st_simps_basic blank_record_def on_interner_def on_part_def apply_defaults_def)
  have dist: "distinct (map col_name ?cs)" using sch by (simp add: schema_sound_def)
  have val: "value_given names vs it (?cs ! i) (rec_fields ?r ! i)" if i: "i < length ?cs" for i
  proof -
    have look: "map_of (rev (zip is vs)) i = map_of (rev (zip names vs)) (col_name (?cs ! i))"
      using s(2,3) by (intro map_of_index [OF dist _ _ i]) auto
    have f: "rec_fields ?r ! i = (case map_of (rev (zip names vs)) (col_name (?cs ! i)) of Some v \<Rightarrow> v | None \<Rightarrow> rec_fields r1 ! i)"
      using u i d(5) look by simp
    have "i \<notin> set is" if "map_of (rev (zip is vs)) i = None"
    proof
      assume "i \<in> set is"
      then have "i \<in> set (map fst (zip is vs))" using s(2) names(2) by simp
      then show False using that by (simp add: map_of_eq_None_iff)
    qed
    then show ?thesis using f d(6) i look by (auto simp: value_given_def split: option.splits)
  qed
  have "known_value it v" if v: "v \<in> set (rec_fields ?r)" for v
  proof -
    obtain i where i: "i < length ?cs" "v = rec_fields ?r ! i" using v u d(5) by (metis in_set_conv_nth)
    show ?thesis
    proof (cases "map_of (rev (zip names vs)) (col_name (?cs ! i))")
      case None
      then have "default_value it (?cs ! i) v" using val [OF i(1)] i(2) by (simp add: value_given_def)
      then show ?thesis by (rule default_value_known)
    next
      case (Some w)
      have "(col_name (?cs ! i), w) \<in> set (zip names vs)" using map_of_SomeD [OF Some] by simp
      then have "w \<in> set vs" by (rule set_zip_rightD)
      moreover have "v = w" using Some val [OF i(1)] i(2) by (simp add: value_given_def)
      ultimately show ?thesis using it(2) grown_known [OF d(2)] by blast
    qed
  qed
  then show ?thesis using run d(2-5) u val by (intro exI [of _ ?r] exI [of _ it]) auto
qed

section \<open>More strings\<close>

text \<open>New strings change nothing that a table holds.\<close>

lemma grown_table:
  assumes "grown n (tbl_interner T) it"
  shows "table_rep T R A L \<Longrightarrow> table_rep (T\<lparr>tbl_interner := it\<rparr>) R A L"
    and "table_at T R H \<Longrightarrow> table_at (T\<lparr>tbl_interner := it\<rparr>) R H"
proof -
  have rep: "interner_rep it" using assms by (simp add: grown_def)
  show *: "table_rep T R A L \<Longrightarrow> table_rep (T\<lparr>tbl_interner := it\<rparr>) R A L" for A L
    using rep grown_known [OF assms] by (auto simp: table_rep_def rows_ok_def trees_ok_def)
  show "table_at (T\<lparr>tbl_interner := it\<rparr>) R H" if at: "table_at T R H"
  proof -
    obtain A ts where "table_rep T R A 1" "card (dom R) \<le> LEAF_KEYS" "clock_ok T" "holds_tracks (tbl_journal T) (rev ts)"
      "logged (columns (tbl_schema T)) (tbl_interner T) ts H R (record_id_count (tbl_schema T))"
      using at by (auto simp: table_at_def)
    then show ?thesis using * [of A 1] logged_grown [OF _ grown_known [OF assms]]
      by (auto simp: table_at_def clock_ok_def intro!: exI [of _ A] exI [of _ ts])
  qed
qed

end
