(* ===== verification/Table_Files.thy ===== *)
theory Table_Files
  imports Table_Store
begin

text \<open>
  The life of a table on disk, \<open>apps/storage/src/table.cpp\<close>: creating it, opening it again, closing
  and dropping it. \<open>table_files\<close> is what the table's directory holds; a constructor that throws
  leaves behind the files it has made.
\<close>

section \<open>The directory\<close>

record table_files =
  data_file :: "byte list option"
  schema_file :: "byte list option"
  strings_file :: "byte list option"
  journal_bytes :: "byte list option"
  ids_file :: "(32 word, record_address) tree option"
  index_trees :: index_files
  ids_garbage :: "nat \<Rightarrow> (32 word, record_address) node"
  metadata_junk :: "byte list"

definition existing :: "byte list option \<Rightarrow> byte list" where
  "existing f = (case f of Some b \<Rightarrow> b | None \<Rightarrow> [])"

text \<open>The pager, the journal and the tree of identifiers make their files when these are missing.\<close>

definition open_ids :: "table_files \<Rightarrow> (32 word, record_address) tree" where
  "open_ids fs = (case ids_file fs of Some t \<Rightarrow> t | None \<Rightarrow> new_tree (ids_garbage fs))"

definition touch_files :: "table_files \<Rightarrow> table_files" where
  "touch_files fs = fs\<lparr>data_file := Some (existing (data_file fs)), journal_bytes := Some (existing (journal_bytes fs)),
     ids_file := Some (open_ids fs)\<rparr>"

definition TABLE_HEADER :: string where "TABLE_HEADER = ''TABLE''"

text \<open>The metadata page: the header with its final zero, the rest of the page is not initialised.\<close>

definition metadata_page :: "byte list \<Rightarrow> byte list" where
  "metadata_page junk =
     (let h = bytes_of TABLE_HEADER @ [0] in h @ take (PAGE_SIZE - length h) (junk @ replicate PAGE_SIZE 0))"

text \<open>\<open>std::string_view\<close> of a character array: up to the first zero.\<close>

definition c_string :: "byte list \<Rightarrow> string" where
  "c_string bs = string_of (takeWhile (\<lambda>b. b \<noteq> 0) bs)"

section \<open>Creating, opening\<close>

definition already_exists :: "string \<Rightarrow> exn" where
  "already_exists name = Runtime_Error (''Table with name '' @ name @ '' already exists.'')"

text \<open>
  Both constructors start by giving the interner the table's strings. When that throws, the interner
  is left half loaded; the next table starts it afresh, so the model keeps it as it was.
\<close>

definition use_strings :: "(table_files \<times> interner, interner) st" where
  "use_strings = (\<lambda>(fs, it).
     case UseStorage it (strings_file fs) of
       Inl e \<Rightarrow> (Inl e, (fs\<lparr>strings_file := Some (existing (strings_file fs))\<rparr>, it))
     | Inr it' \<Rightarrow> (Inr it', (fs\<lparr>strings_file := Some (existing (strings_file fs))\<rparr>, it')))"

definition new_pager :: "byte list \<Rightarrow> pager" where
  "new_pager f = \<lparr>page_size = PAGE_SIZE, db_file = f\<rparr>"

definition close_table :: "table \<Rightarrow> table_files \<Rightarrow> table_files" where
  "close_table T fs = fs\<lparr>data_file := Some (db_file (tbl_pager T)), schema_file := tbl_schema_file T,
     strings_file := Some (storage_file (tbl_interner T)),
     journal_bytes := Some (jnl_file (journal_close (tbl_journal T))), ids_file := Some (tbl_ids T),
     index_trees := IndexSet_Close (tbl_indexes T) (index_trees fs)\<rparr>"

definition create_table :: "string \<Rightarrow> schema \<Rightarrow> (nat \<Rightarrow> string) \<Rightarrow> (table_files \<times> interner, table) st" where
  "create_table name sc clock =
     sbind (supd (\<lambda>(fs, it). (touch_files fs, it))) (\<lambda>_.
     sbind use_strings (\<lambda>it (fs, _).
       if existing (data_file fs) \<noteq> [] \<or> existing (strings_file fs) \<noteq> [] then (Inl (already_exists name), (fs, it))
       else (case append_new_page (new_pager []) of (page_id, pg1) \<Rightarrow>
         let pg2 = write_page pg1 0 (metadata_page (metadata_junk fs));
             T = \<lparr>tbl_name = name, tbl_pager = pg2, tbl_interner = it, tbl_schema = sc, tbl_schema_file = schema_file fs,
                  tbl_journal = open_journal (journal_bytes fs), tbl_ids = open_ids fs, tbl_indexes = Map.empty,
                  tbl_clock = clock, tbl_now = 0\<rparr>
         in if page_id \<noteq> 0 then (Inl (Assert_Failed ''page_id == METADATA_PAGE_ID''), (fs, it))
            else case save_schema T of
              (Inl e, T') \<Rightarrow> (Inl e, (close_table T' fs, it))
            | (Inr _, T') \<Rightarrow> (Inr (T'\<lparr>tbl_indexes := IndexSet_Open (index_trees fs) sc\<rparr>), (close_table T' fs, it)))))"

definition open_table :: "string \<Rightarrow> (nat \<Rightarrow> string) \<Rightarrow> (table_files \<times> interner, table) st" where
  "open_table name clock =
     sbind (supd (\<lambda>(fs, it). (touch_files fs, it))) (\<lambda>_.
     sbind use_strings (\<lambda>it.
     sbind (\<lambda>(fs, i). (read_page (new_pager (existing (data_file fs))) 0, (fs, i))) (\<lambda>metadata.
       if c_string metadata \<noteq> TABLE_HEADER then
         sthrow (Runtime_Error (''Headers don't match. Read: '' @ c_string metadata @ ''. Expected: '' @ TABLE_HEADER @ ''.''))
       else (\<lambda>(fs, i). case schema_file fs of
           None \<Rightarrow> (Inl (Runtime_Error (''No schema for table with name '' @ name @ ''.'')), (fs, i))
         | Some b \<Rightarrow>
             (case Schema_FromBinary b of
                Inl e \<Rightarrow> (Inl e, (fs, i))
              | Inr None \<Rightarrow> (Inl (Runtime_Error (''Can not read schema for table with name '' @ name @ ''.'')), (fs, i))
              | Inr (Some sc) \<Rightarrow>
                  (Inr \<lparr>tbl_name = name, tbl_pager = new_pager (existing (data_file fs)), tbl_interner = it, tbl_schema = sc,
                     tbl_schema_file = Some b, tbl_journal = open_journal (journal_bytes fs), tbl_ids = open_ids fs,
                     tbl_indexes = IndexSet_Open (index_trees fs) sc, tbl_clock = clock, tbl_now = 0\<rparr>, (fs, i)))))))"

section \<open>Dropping\<close>

definition drop_table :: "table \<Rightarrow> table_files \<Rightarrow> table_files" where
  "drop_table T fs = fs\<lparr>data_file := None, schema_file := None, strings_file := None, journal_bytes := None, ids_file := None,
     index_trees := IndexSet_Drop (tbl_indexes T) (IndexSet_Close (tbl_indexes T) (index_trees fs))\<rparr>"

end
