(* ===== verification/Table_Life.thy ===== *)
theory Table_Life
  imports Table_Make Table_Files
begin

text \<open>
  The life of a table: a new table holds no rows, and closing a table and opening it again gives back
  the rows and the history it had. \<open>durable\<close> is what has to be on disk for that.
\<close>

section \<open>What is on disk\<close>

definition durable :: "table \<Rightarrow> bool" where
  "durable T \<longleftrightarrow> persisted (tbl_interner T) \<and> schema_wf (tbl_schema T) \<and>
     tbl_schema_file T = Schema_ToBinary (tbl_schema T) \<and>
     (\<exists>m. read_page (tbl_pager T) 0 = Inr m \<and> c_string m = TABLE_HEADER)"

lemma schema_wf_count: "columns sc' = columns sc \<Longrightarrow> schema_wf sc' = schema_wf sc"
  by (simp add: schema_wf_def)

lemma durable_cong:
  assumes "durable T" "tbl_interner T' = tbl_interner T" "columns (tbl_schema T') = columns (tbl_schema T)"
    "tbl_schema_file T' = Schema_ToBinary (tbl_schema T')" "read_page (tbl_pager T') 0 = read_page (tbl_pager T) 0"
  shows "durable T'"
  using assms schema_wf_count [of "tbl_schema T'" "tbl_schema T"] by (simp add: durable_def)

section \<open>Creating\<close>

text \<open>An empty directory; what the memory of new nodes holds has the size of a node.\<close>

definition empty_directory :: "table_files \<Rightarrow> bool" where
  "empty_directory fs \<longleftrightarrow> data_file fs = None \<and> schema_file fs = None \<and> strings_file fs = None \<and>
     journal_bytes fs = None \<and> ids_file fs = None \<and> int_index_files (index_trees fs) = Map.empty \<and>
     string_index_files (index_trees fs) = Map.empty \<and> valid index_geometry (new_tree (ids_garbage fs)) \<and>
     valid index_geometry (new_tree (int_garbage (index_trees fs))) \<and>
     valid index_geometry (new_tree (string_garbage (index_trees fs)))"

lemma metadata_page_facts:
  shows "length (metadata_page junk) = PAGE_SIZE" "c_string (metadata_page junk) = TABLE_HEADER"
proof -
  have h: "bytes_of TABLE_HEADER = [84, 65, 66, 76, 69]" by (simp add: TABLE_HEADER_def bytes_of_def byte_of_char_def)
  show "length (metadata_page junk) = PAGE_SIZE" by (simp add: metadata_page_def Let_def h PAGE_SIZE_def)
  have "takeWhile (\<lambda>b. b \<noteq> 0) (metadata_page junk) = bytes_of TABLE_HEADER"
    by (simp add: metadata_page_def Let_def h)
  then show "c_string (metadata_page junk) = TABLE_HEADER" by (simp add: c_string_def)
qed

lemma use_no_strings: "\<exists>it'. UseStorage it None = Inr it' \<and> interner_rep it' \<and> persisted it' \<and> string_storage it' = []"
  by (simp add: UseStorage_def LoadStorage_def Close_def interner_rep_def persisted_def entries_of_def Let_def)

lemma opened_index:
  assumes "distinct (map col_name cs)" "i < length cs" "open_index fs (cs ! i) = Some t"
  shows "fold (\<lambda>c ixs. case open_index fs c of None \<Rightarrow> ixs | Some t \<Rightarrow> emplace ixs (col_name c) t) cs ixs (col_name (cs ! i)) =
    (case ixs (col_name (cs ! i)) of Some t' \<Rightarrow> Some t' | None \<Rightarrow> Some t)"
  using assms
proof (induction cs arbitrary: i ixs)
  case (Cons c cs)
  let ?step = "\<lambda>c ixs. case open_index fs c of None \<Rightarrow> ixs | Some t \<Rightarrow> emplace ixs (col_name c) t"
  have later: "fold ?step ds jxs name = jxs name" if "name \<notin> col_name ` set ds" for ds jxs name
    using that by (induction ds arbitrary: jxs) (auto simp: emplace_def split: option.splits)
  show ?case
  proof (cases i)
    case 0
    have "col_name c \<notin> col_name ` set cs" using Cons.prems(1) by simp
    then show ?thesis using Cons.prems(3) 0 later [of "col_name c" cs] by (auto simp: emplace_def split: option.splits)
  next
    case (Suc j)
    have j: "j < length cs" using Cons.prems(2) Suc by simp
    then have "cs ! j \<in> set cs" by simp
    then have "col_name (cs ! j) \<noteq> col_name c" using Cons.prems(1) by (metis distinct.simps(2) image_eqI list.simps(9) set_map)
    then have "?step c ixs (col_name (cs ! j)) = ixs (col_name (cs ! j))" by (simp add: emplace_def split: option.split)
    then show ?thesis using Cons.IH [OF _ j, of "?step c ixs"] Cons.prems Suc by simp
  qed
qed simp

lemma IndexSet_Open_at:
  assumes "distinct (map col_name (columns sc))" "i < length (columns sc)" "open_index fs (columns sc ! i) = Some t"
  shows "IndexSet_Open fs sc (col_name (columns sc ! i)) = Some t"
  using opened_index [OF assms] by (simp add: IndexSet_Open_def)

lemma new_tree_index:
  "geom P = index_geometry \<Longrightarrow> valid index_geometry (new_tree gar) \<Longrightarrow> index_rep P (new_tree gar) Map.empty 0"
  using new_tree_stores [of index_geometry gar] by (simp add: index_rep_def capacity_defs index_geometry_def)

lemma create_table_at:
  assumes fs: "empty_directory fs" and sc: "schema_sound sc" "schema_wf sc" "record_id_count sc = 0"
    and clock: "\<forall>n. length (clock n) = TIME_LEN"
  shows "\<exists>T fs' it'. create_table name sc clock (fs, it) = (Inr T, (fs', it')) \<and> table_at T Map.empty [] \<and> durable T \<and>
    columns (tbl_schema T) = columns sc \<and> record_id_count (tbl_schema T) = 0 \<and> tbl_interner T = it' \<and>
    pager_total (tbl_pager T) = 1 \<and> string_storage it' = [] \<and> tbl_clock T = clock \<and> tbl_now T = 0"
proof -
  obtain it' where it': "UseStorage it None = Inr it'" "interner_rep it'" "persisted it'" "string_storage it' = []"
    using use_no_strings by blast
  let ?pg0 = "new_pager []"
  have inv0: "pager_inv ?pg0" "pager_total ?pg0 = 0" by (simp_all add: new_pager_def pager_inv_def pager_total_def PAGE_SIZE_def)
  obtain p pg1 where app: "append_new_page ?pg0 = (p, pg1)" by (cases "append_new_page ?pg0")
  have p: "p = 0" "pager_inv pg1" "pager_total pg1 = 1"
    using append_new_page_inv [OF inv0(1) _ app] inv0(2) by (auto simp: word_unat_eq_iff)
  let ?m = "metadata_page (metadata_junk fs)" and ?pg = "write_page pg1 0 (metadata_page (metadata_junk fs))"
  have ps: "page_size pg1 = PAGE_SIZE" using app by (auto simp: append_new_page_def new_pager_def)
  have fits: "pager_fits pg1 ?m" by (simp add: pager_fits_def ps metadata_page_facts)
  have pg: "pager_inv ?pg" "pager_total ?pg = 1" "read_page ?pg 0 = Inr ?m"
    using pg.wr_inv [OF p(2) _ fits, of 0] pg.wr_total [OF p(2) _ fits, of 0] pg.rd_wr [OF p(2) _ fits, of 0 0] p(3) by simp_all
  have pps: "page_size ?pg = PAGE_SIZE" using ps by (simp add: write_page_def Let_def)
  have none: "\<not> data_page ?pg i" for i using pg(2) by (auto simp: data_page_def word_unat_eq_iff)
  have heap: "heap_ok ?pg" using pg(1,2) pps none by (simp add: heap_ok_def)
  have cells: "cells_ok ?pg Map.empty Map.empty" using heap none by (simp add: cells_ok_def live_def)
  obtain b where b: "Schema_ToBinary sc = Some b" using Schema_reload [OF sc(2)] by blast
  let ?T = "\<lparr>tbl_name = name, tbl_pager = ?pg, tbl_interner = it', tbl_schema = sc, tbl_schema_file = Some b,
    tbl_journal = open_journal None, tbl_ids = new_tree (ids_garbage fs), tbl_indexes = IndexSet_Open (index_trees fs) sc,
    tbl_clock = clock, tbl_now = 0\<rparr>"
  have idx: "index_rep id_params (tbl_ids ?T) Map.empty 0"
    using new_tree_index [of id_params "ids_garbage fs"] fs by (simp add: id_params_def empty_directory_def)
  have "indexes_rep (columns sc) (tbl_indexes ?T) (\<lambda>_. Map.empty) 1"
    unfolding indexes_rep_def
  proof (intro allI impI)
    fix i assume i: "i < length (columns sc)" "IsIndexed (columns sc ! i)"
    let ?c = "columns sc ! i"
    have kind: "Column_IsInt ?c \<or> Column_IsString ?c" using sc(1) i(1) by (simp add: schema_sound_def column_sound_def)
    have dist: "distinct (map col_name (columns sc))" using sc(1) by (simp add: schema_sound_def)
    have new: "index_rep int_params (new_tree (int_garbage (index_trees fs))) Map.empty 0"
      "index_rep string_params (new_tree (string_garbage (index_trees fs))) Map.empty 0"
      using new_tree_index [of int_params "int_garbage (index_trees fs)"]
        new_tree_index [of string_params "string_garbage (index_trees fs)"] fs by (simp_all add: empty_directory_def)
    have null: "(\<lambda>v. case v of VInt w \<Rightarrow> (Map.empty :: int \<rightharpoonup> record_address) (sint w) | _ \<Rightarrow> None) = Map.empty"
      "(\<lambda>v. case v of VString s \<Rightarrow> (Map.empty :: string_id \<rightharpoonup> record_address) s | _ \<Rightarrow> None) = Map.empty"
      by (auto simp: fun_eq_iff split: sql_value.split)
    show "\<exists>t. tbl_indexes ?T (col_name ?c) = Some t \<and> index_at ?c Map.empty 1 t"
    proof (cases "Column_IsInt ?c")
      case True
      let ?t = "Int_Index (new_tree (int_garbage (index_trees fs)))"
      have "open_index (index_trees fs) ?c = Some ?t" using True i(2) fs by (simp add: open_index_def empty_directory_def)
      moreover have "itree_rep ?t Map.empty 0"
        using new(1) null(1) by (auto intro!: exI [of _ "Map.empty :: int \<rightharpoonup> record_address"])
      moreover have "index_accepts ?t = column_takes ?c" using True by (auto simp: column_takes_def Column_IsInt_def Column_IsString_def)
      ultimately show ?thesis using IndexSet_Open_at [OF dist i(1)] by (auto simp: index_at_def)
    next
      case False
      then have str: "Column_IsString ?c" using kind by simp
      let ?t = "String_Index (new_tree (string_garbage (index_trees fs)))"
      have "open_index (index_trees fs) ?c = Some ?t" using False str i(2) fs by (simp add: open_index_def empty_directory_def)
      moreover have "itree_rep ?t Map.empty 0"
        using new(2) null(2) by (auto intro!: exI [of _ "Map.empty :: string_id \<rightharpoonup> record_address"])
      moreover have "index_accepts ?t = column_takes ?c" using False str by (auto simp: column_takes_def)
      ultimately show ?thesis using IndexSet_Open_at [OF dist i(1)] by (auto simp: index_at_def)
    qed
  qed
  then have "trees_ok ?T Map.empty Map.empty 1"
    using idx by (auto simp: trees_ok_def points_to_def intro!: exI [of _ "\<lambda>_. Map.empty"] exI [of _ "0::nat"])
  then have "table_rep ?T Map.empty Map.empty 1" using it'(2) sc(1) cells by (simp add: table_rep_def rows_ok_def)
  then have "table_at ?T Map.empty []"
    using clock holds_tracks_open by (auto simp: table_at_def clock_ok_def intro!: exI [of _ "[]"])
  moreover have "durable ?T" using it'(3) sc(2) b pg(3) metadata_page_facts(2) by (simp add: durable_def)
  moreover have "\<exists>fs'. create_table name sc clock (fs, it) = (Inr ?T, (fs', it'))"
    using fs it'(1) app p(1) b
    by (simp add: create_table_def sbind_def st_simps_basic touch_files_def use_strings_def existing_def empty_directory_def
        save_schema_def open_ids_def open_journal_def Let_def)
  ultimately show ?thesis using it'(4) sc(3) pg(2) by fastforce
qed


section \<open>Closing and opening\<close>

lemma reopened_index:
  assumes dist: "distinct (map col_name (columns sc))" and i: "i < length (columns sc)" "IsIndexed (columns sc ! i)"
    and t: "ixs (col_name (columns sc ! i)) = Some t" "index_accepts t = column_takes (columns sc ! i)"
  shows "IndexSet_Open (IndexSet_Close ixs fs) sc (col_name (columns sc ! i)) = Some t"
proof (rule IndexSet_Open_at [OF dist i(1)])
  let ?c = "columns sc ! i"
  show "open_index (IndexSet_Close ixs fs) ?c = Some t"
  proof (cases t)
    case (Int_Index u)
    have "column_takes ?c (VInt 0)" unfolding t(2) [symmetric] Int_Index by simp
    then have "Column_IsInt ?c" by (simp add: column_takes_def)
    then show ?thesis using i(2) t(1) Int_Index by (simp add: open_index_def IndexSet_Close_def)
  next
    case (String_Index u)
    have "column_takes ?c (VString (StringId 0))" unfolding t(2) [symmetric] String_Index by simp
    then have "Column_IsString ?c" "\<not> Column_IsInt ?c" by (auto simp: column_takes_def Column_IsInt_def Column_IsString_def)
    then show ?thesis using i(2) t(1) String_Index by (simp add: open_index_def IndexSet_Close_def)
  qed
qed

lemma reopen_at:
  assumes T: "table_at T R H" and dur: "durable T" and clock: "\<forall>n. length (clock n) = TIME_LEN"
  shows "\<exists>T' fs'. open_table name clock (close_table T fs, it) = (Inr T', (fs', tbl_interner T)) \<and> table_at T' R H \<and> durable T' \<and>
    tbl_schema T' = tbl_schema T \<and> tbl_interner T' = tbl_interner T \<and> tbl_pager T' = tbl_pager T"
proof -
  obtain A ts where at: "table_rep T R A 1" "card (dom R) \<le> LEAF_KEYS" "holds_tracks (tbl_journal T) (rev ts)"
    "logged (columns (tbl_schema T)) (tbl_interner T) ts H R (record_id_count (tbl_schema T))"
    using T by (auto simp: table_at_def)
  note rep = table_repD [OF at(1)]
  obtain m where m: "read_page (tbl_pager T) 0 = Inr m" "c_string m = TABLE_HEADER" using dur by (auto simp: durable_def)
  obtain b where b: "Schema_ToBinary (tbl_schema T) = Some b" "Schema_FromBinary b = Inr (Some (tbl_schema T))"
    using Schema_reload dur by (auto simp: durable_def)
  have pg: "new_pager (db_file (tbl_pager T)) = tbl_pager T"
    using heap_ok_facts(2) [OF rep(6)] by (simp add: new_pager_def pager.equality)
  note use = reload_persisted [OF rep(1), of it]
  let ?j = "open_journal (Some (jnl_file (journal_close (tbl_journal T))))"
  let ?ixs = "IndexSet_Open (IndexSet_Close (tbl_indexes T) (index_trees fs)) (tbl_schema T)"
  let ?T = "\<lparr>tbl_name = name, tbl_pager = tbl_pager T, tbl_interner = tbl_interner T, tbl_schema = tbl_schema T,
    tbl_schema_file = Some b, tbl_journal = ?j, tbl_ids = tbl_ids T, tbl_indexes = ?ixs, tbl_clock = clock, tbl_now = 0\<rparr>"
  have dist: "distinct (map col_name (columns (tbl_schema T)))" using rep(2) by (simp add: schema_sound_def)
  have "indexes_rep (columns (tbl_schema T)) ?ixs M 1" if M: "indexes_rep (columns (tbl_schema T)) (tbl_indexes T) M 1" for M
    unfolding indexes_rep_def
  proof (intro allI impI)
    fix i assume i: "i < schema_size T" "IsIndexed (columns (tbl_schema T) ! i)"
    obtain t where t: "tbl_indexes T (col_name (columns (tbl_schema T) ! i)) = Some t"
      "index_at (columns (tbl_schema T) ! i) (M i) 1 t" using M i unfolding indexes_rep_def by blast
    show "\<exists>t. ?ixs (col_name (columns (tbl_schema T) ! i)) = Some t \<and> index_at (columns (tbl_schema T) ! i) (M i) 1 t"
      using reopened_index [of "tbl_schema T" i "tbl_indexes T" t, OF dist i t(1)] t(2) by (simp add: index_at_def)
  qed
  then have "trees_ok ?T R A 1" using rep(5) by (auto simp: trees_ok_def)
  then have "table_rep ?T R A 1" using at(1) by (simp add: table_rep_def rows_ok_def)
  then have "table_at ?T R H"
    using at(2,4) clock holds_tracks_close [OF at(3)] by (auto simp: table_at_def clock_ok_def)
  moreover have "durable ?T" using dur b(1) by (simp add: durable_def)
  moreover have "\<exists>fs'. open_table name clock (close_table T fs, it) = (Inr ?T, (fs', tbl_interner T))"
    using use dur m b pg
    by (simp add: open_table_def close_table_def sbind_def st_simps_basic touch_files_def use_strings_def existing_def
        durable_def open_ids_def Let_def)
  ultimately show ?thesis by fastforce
qed

end
