(* ===== verification/Table_Machine.thy ===== *)
theory Table_Machine
  imports Table_Life
begin

text \<open>
  A table as a state machine: the calls that the executor and the storage process make on it, in any
  order, failed ones included. \<open>reaches\<close> is what such calls can make of a table.
\<close>

section \<open>Calls\<close>

datatype table_call =
    Call_Insert "sql_value list"
  | Call_Update "32 word" "sql_value list"
  | Call_Delete "32 word"
  | Call_Revert string
  | Call_Intern string
  | Call_Restart "nat \<Rightarrow> string"

text \<open>An update and a deletion are of a record that was read from the table before.\<close>

definition on_record :: "32 word \<Rightarrow> (db_record \<Rightarrow> (table, unit) st) \<Rightarrow> (table, unit) st" where
  "on_record k f T = (case read_by_id T k of Inl e \<Rightarrow> (Inl e, T) | Inr None \<Rightarrow> (Inr (), T) | Inr (Some r) \<Rightarrow> f r T)"

definition restart :: "(nat \<Rightarrow> string) \<Rightarrow> table_files \<Rightarrow> (table, unit) st" where
  "restart clock fs T =
     (case open_table (tbl_name T) clock (close_table T fs, tbl_interner T) of
        (Inl e, _) \<Rightarrow> (Inl e, T)
      | (Inr T', _) \<Rightarrow> (Inr (), T'))"

fun run_call :: "table_files \<Rightarrow> table_call \<Rightarrow> (table, unit) st" where
  "run_call fs (Call_Insert vs) = sbind (Table_insert_record vs []) (\<lambda>_. sret ())"
| "run_call fs (Call_Update k vs) = on_record k (\<lambda>r. sbind (update_record (r\<lparr>rec_fields := vs\<rparr>)) (\<lambda>_. sret ()))"
| "run_call fs (Call_Delete k) = on_record k Table_delete_record"
| "run_call fs (Call_Revert time) = Table_revert time"
| "run_call fs (Call_Intern s) = sbind (on_interner (\<lambda>it. case Intern it s of (v, it') \<Rightarrow> (Inr v, it'))) (\<lambda>_. sret ())"
| "run_call fs (Call_Restart clock) = restart clock fs"

text \<open>
  The limits: identifiers, pages and strings that 32 bits can count, and no more records than one
  leaf of a tree holds.
\<close>

definition in_limits :: "table \<Rightarrow> bool" where
  "in_limits T \<longleftrightarrow> unat (record_id_count (tbl_schema T)) < LEAF_KEYS \<and>
     pager_total (tbl_pager T) + jnl_pos (tbl_journal T) + 1 < 2 ^ 32 \<and>
     length (string_storage (tbl_interner T)) + 2 < 2 ^ 32"

fun call_fits :: "table \<Rightarrow> table_call \<Rightarrow> bool" where
  "call_fits T (Call_Insert vs) \<longleftrightarrow> length vs = schema_size T \<and> (\<forall>v \<in> set vs. known_value (tbl_interner T) v)"
| "call_fits T (Call_Update k vs) \<longleftrightarrow> length vs = schema_size T \<and> (\<forall>v \<in> set vs. known_value (tbl_interner T) v)"
| "call_fits T (Call_Intern s) \<longleftrightarrow> length s < 2 ^ 64"
| "call_fits T (Call_Restart clock) \<longleftrightarrow> (\<forall>n. length (clock n) = TIME_LEN)"
| "call_fits T _ \<longleftrightarrow> True"

inductive reaches :: "table_files \<Rightarrow> table \<Rightarrow> table \<Rightarrow> bool" for fs where
  reaches_start: "reaches fs T T"
| reaches_call: "reaches fs T T1 \<Longrightarrow> in_limits T1 \<Longrightarrow> call_fits T1 c \<Longrightarrow> run_call fs c T1 = (res, T2) \<Longrightarrow> reaches fs T T2"

inductive_cases reaches_callE: "reaches fs T T'"

section \<open>The invariant\<close>

definition table_ok :: "table \<Rightarrow> bool" where
  "table_ok T \<longleftrightarrow> durable T \<and> (\<exists>R H. table_at T R H)"

text \<open>A call that returns or throws \<open>std::runtime_error\<close>, and leaves the table well formed.\<close>

definition orderly :: "'a result \<Rightarrow> bool" where
  "orderly res \<longleftrightarrow> (case res of Inr _ \<Rightarrow> True | Inl e \<Rightarrow> (\<exists>s. e = Runtime_Error s))"

lemma orderly_simps [simp]: "orderly (Inr x)" "orderly (Inl (Runtime_Error s))"
  by (simp_all add: orderly_def)

lemma rows_counted:
  assumes "table_rep T R A L"
  shows "card (dom R) \<le> unat (record_id_count (tbl_schema T))"
proof -
  let ?c = "record_id_count (tbl_schema T)"
  have "unat ` dom R \<subseteq> {..<unat ?c}" using table_repD(3) [OF assms] by (auto simp: rows_ok_def word_less_nat_alt)
  then have "card (unat ` dom R) \<le> unat ?c" using card_mono [of "{..<unat ?c}" "unat ` dom R"] by simp
  moreover have "card (unat ` dom R) = card (dom R)" by (intro card_image inj_onI) (simp add: word_unat_eq_iff)
  ultimately show ?thesis by simp
qed

lemma history_length:
  assumes "table_at T R H"
  shows "length H \<le> jnl_pos (tbl_journal T)"
proof -
  obtain ts where ts: "holds_tracks (tbl_journal T) (rev ts)"
    "logged (columns (tbl_schema T)) (tbl_interner T) ts H R (record_id_count (tbl_schema T))"
    using assms by (auto simp: table_at_def)
  have "length ts = length H" if "logged cs it ts H R c" for cs it ts H R c
    using that by (induction cs it ts H R c rule: logged.induct) auto
  then have len: "length ts = length H" using ts(2) .
  have each: "length us \<le> length (concat (map encode_track us))" if "list_all wf_track us" for us
    using that by (induction us) (auto simp: length_encode_track)
  have "length (rev ts) \<le> length (take (jnl_pos (tbl_journal T)) (jnl_file (tbl_journal T)))"
    using ts(1) each [of "rev ts"] by (simp add: holds_tracks_def)
  then show ?thesis using len by simp
qed

lemma table_ok_durable: "table_ok T \<Longrightarrow> durable T"
  by (simp add: table_ok_def)

lemma durable_track:
  assumes "durable T" "parts_changed (with_track ty k d T) T'"
  shows "durable T'"
proof (rule durable_cong [OF assms(1)])
  note pc = parts_changed_facts [OF assms(2)]
  show "tbl_interner T' = tbl_interner T" "columns (tbl_schema T') = columns (tbl_schema T)"
    "read_page (tbl_pager T') 0 = read_page (tbl_pager T) 0" using pc(1,2,9) by (simp_all add: with_track_def)
  show "tbl_schema_file T' = Schema_ToBinary (tbl_schema T')"
    using pc(1,6) assms(1) by (simp add: with_track_def durable_def)
qed

lemma durable_counted:
  assumes "durable T" "parts_changed (counted (with_track ty k d T)) T'"
  shows "durable T'"
proof (rule durable_cong [OF assms(1)])
  note pc = parts_changed_facts [OF assms(2)]
  show "tbl_interner T' = tbl_interner T" "columns (tbl_schema T') = columns (tbl_schema T)"
    "read_page (tbl_pager T') 0 = read_page (tbl_pager T) 0"
    using pc(1,2,9) by (simp_all add: with_track_def counted_def IncrementRecordIdCount_def)
  show "tbl_schema_file T' = Schema_ToBinary (tbl_schema T')"
    using pc(1,6) by (simp add: with_track_def counted_def)
qed

lemma table_okI: "durable T \<Longrightarrow> table_at T R H \<Longrightarrow> table_ok T"
  by (auto simp: table_ok_def)

lemma ok_insert:
  assumes T: "table_ok T" and lim: "in_limits T" and fits: "call_fits T (Call_Insert vs)"
  shows "orderly (fst (run_call fs (Call_Insert vs) T)) \<and> table_ok (snd (run_call fs (Call_Insert vs) T))"
proof -
  obtain R H A where at: "table_at T R H" "table_rep T R A 1" using T by (auto simp: table_ok_def table_at_def)
  let ?c = "record_id_count (tbl_schema T)"
  have f: "length vs = schema_size T" "\<forall>v \<in> set vs. known_value (tbl_interner T) v" using fits by simp_all
  have small: "card (dom R) < LEAF_KEYS" "unat ?c + 1 < 2 ^ 32" "pager_total (tbl_pager T) + 1 < 2 ^ 32" "(1::nat) \<le> ROOT_KEYS"
    using rows_counted [OF at(2)] lim by (auto simp: in_limits_def LEAF_KEYS_def ROOT_KEYS_def)
  note ins = insert_made [OF make_by_position [OF f(1), of ?c] at(2) refl refl, unfolded mk_record_fields, OF refl refl f small(4,3,2)]
  show ?thesis
  proof (cases "row_typed (columns (tbl_schema T)) vs \<and> fresh_values (columns (tbl_schema T)) R ?c vs")
    case True
    obtain a T' where i: "Table_insert_record vs [] T = (Inr (SetAddress (mk_record ?c vs) a), T')"
      "table_rep T' (R(?c \<mapsto> vs)) (A(?c \<mapsto> a)) (more_leaves R 1)" "parts_changed (counted (with_track DELETE_TRACK ?c [] T)) T'"
      using ins(1) [OF True] by blast
    have "more_leaves R 1 = 1" using small(1) by (simp add: more_leaves_def)
    then have "table_at T' (R(?c \<mapsto> vs)) ((tbl_clock T (tbl_now T), R, ?c) # H)"
      using push_insert [OF at(1) refl small(1) _ i(3)] i(2) by simp
    from table_okI [OF durable_counted [OF table_ok_durable [OF T] i(3)] this]
    show ?thesis using i(1) by (simp add: sbind_def st_simps_basic)
  next
    case False
    then obtain msg where "Table_insert_record vs [] T = (Inl (Runtime_Error msg), T)" using ins(2) by blast
    then show ?thesis using T by (simp add: sbind_def)
  qed
qed

lemma ok_update:
  assumes T: "table_ok T" and lim: "in_limits T" and fits: "call_fits T (Call_Update k vs)"
  shows "orderly (fst (run_call fs (Call_Update k vs) T)) \<and> table_ok (snd (run_call fs (Call_Update k vs) T))"
proof -
  obtain R H A where at: "table_at T R H" "table_rep T R A 1" using T by (auto simp: table_ok_def table_at_def)
  have f: "length vs = schema_size T" "\<forall>v \<in> set vs. known_value (tbl_interner T) v" using fits by simp_all
  have small: "card (dom R) \<le> LEAF_KEYS" "pager_total (tbl_pager T) + 1 < 2 ^ 32"
    using rows_counted [OF at(2)] lim by (auto simp: in_limits_def)
  show ?thesis
  proof (cases "R k")
    case None
    then show ?thesis using read_by_id_row [OF at(2), of k] T by (simp add: on_record_def)
  next
    case (Some ws)
    have "k \<in> dom A" using Some table_repD(7) [OF at(2)] by auto
    then obtain a where a: "A k = Some a" by blast
    let ?r = "(SetAddress (mk_record k ws) a)\<lparr>rec_fields := vs\<rparr>"
    have r: "rec_id ?r = k" "rec_addr ?r = Some a" "rec_fields ?r = vs" by simp_all
    have read: "read_by_id T k = Inr (Some (SetAddress (mk_record k ws) a))" using read_by_id_row [OF at(2), of k] Some a by simp
    note upd = update_row [OF at(2) Some a r(1,2), unfolded r(3), OF f small]
    show ?thesis
    proof (cases "row_typed (columns (tbl_schema T)) vs \<and> fresh_values (columns (tbl_schema T)) R k vs")
      case True
      then obtain b T' where u: "update_record ?r T = (Inr (SetAddress ?r b), T')" "table_rep T' (R(k \<mapsto> vs)) (A(k \<mapsto> b)) 1"
        "parts_changed (with_track UPDATE_TRACK k (payload ws) T) T'" using upd(1) by blast
      from table_okI [OF durable_track [OF table_ok_durable [OF T] u(3)] push_update [OF at(1) Some u(2,3)]]
      show ?thesis using u(1) read by (simp add: on_record_def sbind_def st_simps_basic)
    next
      case False
      then obtain msg where "update_record ?r T = (Inl (Runtime_Error msg), T)" using upd(2) by blast
      then show ?thesis using T read by (simp add: on_record_def sbind_def)
    qed
  qed
qed

lemma ok_delete:
  assumes T: "table_ok T" and lim: "in_limits T"
  shows "orderly (fst (run_call fs (Call_Delete k) T)) \<and> table_ok (snd (run_call fs (Call_Delete k) T))"
proof -
  obtain R H A where at: "table_at T R H" "table_rep T R A 1" using T by (auto simp: table_ok_def table_at_def)
  show ?thesis
  proof (cases "R k")
    case None
    then show ?thesis using read_by_id_row [OF at(2), of k] T by (simp add: on_record_def)
  next
    case (Some ws)
    have "k \<in> dom A" using Some table_repD(7) [OF at(2)] by auto
    then obtain a where a: "A k = Some a" by blast
    have read: "read_by_id T k = Inr (Some (SetAddress (mk_record k ws) a))" using read_by_id_row [OF at(2), of k] Some a by simp
    obtain T' where d: "Table_delete_record (SetAddress (mk_record k ws) a) T = (Inr (), T')"
      "table_rep T' (R(k := None)) (A(k := None)) 1" "parts_changed (with_track INSERT_TRACK k (payload ws) T) T'"
      using delete_row [OF at(2) Some a] by blast
    from table_okI [OF durable_track [OF table_ok_durable [OF T] d(3)] push_delete [OF at(1) Some d(2,3)]]
    show ?thesis using d(1) read by (simp add: on_record_def)
  qed
qed

lemma ok_revert:
  assumes T: "table_ok T" and lim: "in_limits T"
  shows "orderly (fst (run_call fs (Call_Revert time) T)) \<and> table_ok (snd (run_call fs (Call_Revert time) T))"
proof -
  obtain R H where at: "table_at T R H" using T by (auto simp: table_ok_def)
  have room: "pager_total (tbl_pager T) + length H < 2 ^ 32" using history_length [OF at] lim by (simp add: in_limits_def)
  obtain R' c' where past: "rows_at time H R (record_id_count (tbl_schema T)) = (R', c')" by fastforce
  obtain T' where r: "Table_revert time T = (Inr (), T')" "table_at T' R' (history_at time H)"
    "tbl_schema_file T' = Schema_ToBinary (tbl_schema T')" "same_frame (length H) T T'" using revert_at [OF at room past] by blast
  have "durable T'"
  proof (rule durable_cong [OF table_ok_durable [OF T]])
    show "tbl_interner T' = tbl_interner T" "columns (tbl_schema T') = columns (tbl_schema T)"
      "read_page (tbl_pager T') 0 = read_page (tbl_pager T) 0" using r(4) by (simp_all add: same_frame_def)
    show "tbl_schema_file T' = Schema_ToBinary (tbl_schema T')" by (rule r(3))
  qed
  from table_okI [OF this r(2)] show ?thesis using r(1) by simp
qed

lemma ok_intern:
  assumes T: "table_ok T" and lim: "in_limits T" and fits: "call_fits T (Call_Intern s)"
  shows "orderly (fst (run_call fs (Call_Intern s) T)) \<and> table_ok (snd (run_call fs (Call_Intern s) T))"
proof -
  obtain R H A where at: "table_at T R H" "table_rep T R A 1" using T by (auto simp: table_ok_def table_at_def)
  note it = table_repD(1) [OF at(2)]
  have "room 1 (tbl_interner T)" using it lim by (simp add: room_def in_limits_def)
  then obtain sid it' where i: "Intern (tbl_interner T) s = (VString sid, it')" "grown 1 (tbl_interner T) it'"
    using Intern_grown by blast
  have "persisted it'" using Intern_persisted [OF it, of s] T fits i(1) by (simp add: table_ok_def durable_def)
  then have "durable (T\<lparr>tbl_interner := it'\<rparr>)" using table_ok_durable [OF T] by (simp add: durable_def)
  from table_okI [OF this grown_table(2) [OF i(2) at(1)]]
  show ?thesis using i(1) by (simp add: sbind_def on_interner_def on_part_def st_simps_basic)
qed

lemma ok_restart:
  assumes T: "table_ok T" and fits: "call_fits T (Call_Restart clock)"
  shows "orderly (fst (run_call fs (Call_Restart clock) T)) \<and> table_ok (snd (run_call fs (Call_Restart clock) T))"
proof -
  obtain R H where at: "table_at T R H" "durable T" using T by (auto simp: table_ok_def)
  have "\<forall>n. length (clock n) = TIME_LEN" using fits by simp
  from reopen_at [OF at this, of "tbl_name T" fs "tbl_interner T"] obtain T' fs' where
    "open_table (tbl_name T) clock (close_table T fs, tbl_interner T) = (Inr T', (fs', tbl_interner T))"
    "table_at T' R H" "durable T'" by blast
  then show ?thesis using table_okI by (simp add: restart_def)
qed

lemma ok_call:
  assumes "table_ok T" "in_limits T" "call_fits T c"
  shows "orderly (fst (run_call fs c T)) \<and> table_ok (snd (run_call fs c T))"
  using assms ok_insert ok_update ok_delete ok_revert ok_intern ok_restart by (cases c) blast+

lemma reaches_ok: "reaches fs T T' \<Longrightarrow> table_ok T \<Longrightarrow> table_ok T'"
proof (induction rule: reaches.induct)
  case (reaches_call T T1 c res T2)
  then show ?case using ok_call [of T1 c fs] by simp
qed

end
