(* ===== verification/Json_Value.thy ===== *)
theory Json_Value
  imports Qdb_Prelude "HOL-Library.Word"
begin

text \<open>
  JSON values as the code uses them through \<open>nlohmann::json\<close>, whose documented behaviour these
  definitions state: an object is a \<open>std::map\<close>, so its members are sorted by name; a conversion to the
  wrong type throws. \<open>JDouble p q\<close> is the double that dividing \<open>p\<close> by \<open>q\<close> gives; the rounding is not
  modelled.
\<close>

datatype json =
    JNull
  | JBool bool
  | JInt int
  | JDouble int int
  | JString string
  | JArray "json list"
  | JObject "(string \<times> json) list"

section \<open>Objects\<close>

fun jput :: "string \<Rightarrow> json \<Rightarrow> (string \<times> json) list \<Rightarrow> (string \<times> json) list" where
  "jput k v [] = [(k, v)]"
| "jput k v ((k', w) # kvs) =
     (if k = k' then (k, v) # kvs else if text_less k k' then (k, v) # (k', w) # kvs else (k', w) # jput k v kvs)"

text \<open>A braced list of members.\<close>

definition jobj :: "(string \<times> json) list \<Rightarrow> json" where
  "jobj kvs = JObject (fold (\<lambda>(k, v). jput k v) kvs [])"

lemma map_of_jput [simp]: "map_of (jput k v kvs) x = (if x = k then Some v else map_of kvs x)"
  by (induction kvs) auto

lemma map_of_fold_jput: "map_of (fold (\<lambda>(k, v). jput k v) kvs m) x = (case map_of (rev kvs) x of Some v \<Rightarrow> Some v | None \<Rightarrow> map_of m x)"
proof (induction kvs arbitrary: m)
  case (Cons kv kvs)
  obtain k v where "kv = (k, v)" by (cases kv)
  then show ?case using Cons.IH [of "jput k v m"] by (auto split: option.splits)
qed simp

text \<open>\<open>json[key] = v\<close>: a null becomes an object.\<close>

fun jset :: "string \<Rightarrow> json \<Rightarrow> json \<Rightarrow> json result" where
  "jset k v (JObject kvs) = Inr (JObject (jput k v kvs))"
| "jset k v JNull = Inr (JObject [(k, v)])"
| "jset k v _ = Inl (Json_Error ''type_error.305'')"

fun jget :: "json \<Rightarrow> string \<Rightarrow> json option" where
  "jget (JObject kvs) k = map_of kvs k"
| "jget _ k = None"

lemma jget_jobj: "jget (jobj kvs) k = map_of (rev kvs) k"
  by (simp add: jobj_def map_of_fold_jput split: option.split)

definition jcontains :: "json \<Rightarrow> string \<Rightarrow> bool" where
  "jcontains j k \<longleftrightarrow> jget j k \<noteq> None"

section \<open>Kinds\<close>

fun is_object :: "json \<Rightarrow> bool" where "is_object (JObject _) = True" | "is_object _ = False"
fun is_array :: "json \<Rightarrow> bool" where "is_array (JArray _) = True" | "is_array _ = False"
fun is_string :: "json \<Rightarrow> bool" where "is_string (JString _) = True" | "is_string _ = False"
fun is_number_integer :: "json \<Rightarrow> bool" where "is_number_integer (JInt _) = True" | "is_number_integer _ = False"

lemma is_object_jobj [simp]: "is_object (jobj kvs)"
  by (simp add: jobj_def)

section \<open>Conversions\<close>

fun get_string :: "json \<Rightarrow> string result" where
  "get_string (JString s) = Inr s"
| "get_string _ = Inl (Json_Error ''type_error.302'')"

text \<open>\<open>get<int>\<close> of an integer converts without a check.\<close>

fun get_int :: "json \<Rightarrow> (32 word) result" where
  "get_int (JInt i) = Inr (word_of_int i)"
| "get_int (JBool b) = Inr (if b then 1 else 0)"
| "get_int _ = Inl (Json_Error ''type_error.302'')"

fun get_bool :: "json \<Rightarrow> bool result" where
  "get_bool (JBool b) = Inr b"
| "get_bool _ = Inl (Json_Error ''type_error.302'')"

fun rmapM :: "('a \<Rightarrow> 'b result) \<Rightarrow> 'a list \<Rightarrow> 'b list result" where
  "rmapM f [] = Inr []"
| "rmapM f (x # xs) = rbind (f x) (\<lambda>y. rmap ((#) y) (rmapM f xs))"

lemma rmapM_cong [fundef_cong]: "xs = ys \<Longrightarrow> (\<And>x. x \<in> set ys \<Longrightarrow> f x = g x) \<Longrightarrow> rmapM f xs = rmapM g ys"
  by (induction ys arbitrary: xs) auto

lemma rmapM_map: "(\<And>x. x \<in> set xs \<Longrightarrow> f (g x) = Inr x) \<Longrightarrow> rmapM f (map g xs) = Inr xs"
  by (induction xs) simp_all

fun get_strings :: "json \<Rightarrow> string list result" where
  "get_strings (JArray xs) = rmapM get_string xs"
| "get_strings _ = Inl (Json_Error ''type_error.302'')"

text \<open>\<open>json.value(key, default)\<close>, \<open>json.at(key)\<close>, and the loop over the elements.\<close>

definition jvalue :: "(json \<Rightarrow> 'a result) \<Rightarrow> json \<Rightarrow> string \<Rightarrow> 'a \<Rightarrow> 'a result" where
  "jvalue conv j k d =
     (if \<not> is_object j then Inl (Json_Error ''type_error.306'')
      else case jget j k of Some v \<Rightarrow> conv v | None \<Rightarrow> Inr d)"

definition jat :: "json \<Rightarrow> string \<Rightarrow> json result" where
  "jat j k =
     (if \<not> is_object j then Inl (Json_Error ''type_error.304'')
      else case jget j k of Some v \<Rightarrow> Inr v | None \<Rightarrow> Inl (Json_Error ''out_of_range.403''))"

fun jelems :: "json \<Rightarrow> json list" where
  "jelems (JArray xs) = xs"
| "jelems (JObject kvs) = map snd kvs"
| "jelems JNull = []"
| "jelems j = [j]"

lemma jvalue_jobj [simp]: "jvalue conv (jobj kvs) k d = (case map_of (rev kvs) k of Some v \<Rightarrow> conv v | None \<Rightarrow> Inr d)"
  by (simp add: jvalue_def jget_jobj)

lemma jat_jobj [simp]:
  "jat (jobj kvs) k = (case map_of (rev kvs) k of Some v \<Rightarrow> Inr v | None \<Rightarrow> Inl (Json_Error ''out_of_range.403''))"
  by (simp add: jat_def jget_jobj)

lemma jcontains_jobj [simp]: "jcontains (jobj kvs) k \<longleftrightarrow> map_of (rev kvs) k \<noteq> None"
  by (simp add: jcontains_def jget_jobj)

section \<open>Sizes\<close>

text \<open>What lies inside an object is smaller than it.\<close>

lemma jget_size: "jget j k = Some v \<Longrightarrow> size v < size j"
proof (cases j)
  case (JObject kvs)
  assume "jget j k = Some v"
  then have "(k, v) \<in> set kvs" using JObject by (auto dest: map_of_SomeD)
  then have "size v \<le> size_list (size_prod (\<lambda>_. 0) size) kvs"
    by (intro size_list_estimation') auto
  then show ?thesis using JObject by simp
qed simp_all

lemma jat_size: "jat j k = Inr v \<Longrightarrow> size v < size j"
  by (auto simp: jat_def dest: jget_size split: if_splits option.splits)

end
