(* ===== verification/Messages.thy ===== *)
theory Messages
  imports Json_Value
begin

text \<open>
  Requests and responses between client, server and storage, \<open>libs/core/src/request.cpp\<close> and
  \<open>libs/core/src/response.cpp\<close>. Parsing and printing JSON text belongs to the library: \<open>prs\<close> and
  \<open>dump\<close> stand for \<open>json::parse\<close> and \<open>json::dump\<close>.
\<close>

section \<open>Responses\<close>

record response =
  rsp_status :: string
  rsp_message :: string
  rsp_data :: json

definition Response :: "string \<Rightarrow> string \<Rightarrow> json \<Rightarrow> response" where
  "Response status message dat = \<lparr>rsp_status = status, rsp_message = message, rsp_data = dat\<rparr>"

definition Rsp_Success :: "string \<Rightarrow> json \<Rightarrow> response" where
  "Rsp_Success message dat = Response ''success'' message dat"

definition Rsp_Pending :: "string \<Rightarrow> json \<Rightarrow> response" where
  "Rsp_Pending message dat = Response ''pending'' message dat"

definition Rsp_Error :: "string \<Rightarrow> response" where
  "Rsp_Error message = Response ''error'' message (JObject [])"

definition Rsp_ErrorData :: "string \<Rightarrow> json \<Rightarrow> response" where
  "Rsp_ErrorData message dat = Response ''error'' message dat"

definition IsError :: "response \<Rightarrow> bool" where "IsError r \<longleftrightarrow> rsp_status r = ''error''"
definition IsSuccess :: "response \<Rightarrow> bool" where "IsSuccess r \<longleftrightarrow> rsp_status r = ''success''"
definition IsPending :: "response \<Rightarrow> bool" where "IsPending r \<longleftrightarrow> rsp_status r = ''pending''"

definition Response_ToJsonObject :: "response \<Rightarrow> json" where
  "Response_ToJsonObject r =
     jobj [(''status'', JString (rsp_status r)), (''message'', JString (rsp_message r)), (''data'', rsp_data r)]"

definition SuccessJson :: "string \<Rightarrow> json \<Rightarrow> json" where
  "SuccessJson message dat = Response_ToJsonObject (Rsp_Success message dat)"

definition ErrorJson :: "string \<Rightarrow> json" where
  "ErrorJson message = Response_ToJsonObject (Rsp_Error message)"

fun json_what :: "exn \<Rightarrow> string" where
  "json_what (Json_Error s) = s"
| "json_what _ = []"

definition optional_string :: "json \<Rightarrow> string \<Rightarrow> string result" where
  "optional_string j k = (case jget j k of None \<Rightarrow> Inr [] | Some v \<Rightarrow> get_string v)"

definition Response_FromJsonObject :: "json \<Rightarrow> response" where
  "Response_FromJsonObject j =
     (case rbind (optional_string j ''status'') (\<lambda>status.
             rmap (\<lambda>message. Response status message (case jget j ''data'' of None \<Rightarrow> JObject [] | Some d \<Rightarrow> d))
               (optional_string j ''message'')) of
        Inr r \<Rightarrow> r
      | Inl e \<Rightarrow> Rsp_Error (''Failed to parse response object: '' @ json_what e))"

definition Response_FromJson :: "(string \<Rightarrow> json result) \<Rightarrow> string \<Rightarrow> response" where
  "Response_FromJson prs s =
     (case prs s of Inr j \<Rightarrow> Response_FromJsonObject j | Inl e \<Rightarrow> Rsp_Error (''Failed to parse JSON: '' @ json_what e))"

definition Response_ToJson :: "(json \<Rightarrow> string) \<Rightarrow> response \<Rightarrow> string" where
  "Response_ToJson dump r = dump (Response_ToJsonObject r)"

definition GetData :: "(json \<Rightarrow> string) \<Rightarrow> response \<Rightarrow> string" where
  "GetData dump r = (case rsp_data r of JString s \<Rightarrow> s | d \<Rightarrow> dump d)"

section \<open>Requests\<close>

record request =
  req_action :: string
  req_token :: string
  req_data :: json

definition empty_request :: request where
  "empty_request = \<lparr>req_action = [], req_token = [], req_data = JObject []\<rparr>"

definition Request_FromJsonObject :: "json \<Rightarrow> request result" where
  "Request_FromJsonObject j =
     rbind (optional_string j ''action'') (\<lambda>action.
       rmap (\<lambda>token. \<lparr>req_action = action, req_token = token,
              req_data = (case jget j ''data'' of Some (JObject kvs) \<Rightarrow> JObject kvs | _ \<Rightarrow> JObject [])\<rparr>)
         (optional_string j ''token''))"

definition Request_FromJson :: "(string \<Rightarrow> json result) \<Rightarrow> string \<Rightarrow> request" where
  "Request_FromJson prs s =
     (case rbind (prs s) Request_FromJsonObject of Inr r \<Rightarrow> r | Inl _ \<Rightarrow> empty_request)"

definition Request_ToJsonObject :: "request \<Rightarrow> json" where
  "Request_ToJsonObject r =
     jobj ([(''action'', JString (req_action r))] @ (if req_token r = [] then [] else [(''token'', JString (req_token r))])
           @ [(''data'', req_data r)])"

definition Request_ToJson :: "(json \<Rightarrow> string) \<Rightarrow> request \<Rightarrow> string" where
  "Request_ToJson dump r = dump (Request_ToJsonObject r)"

definition Request_Query :: "request \<Rightarrow> string result" where
  "Request_Query r = jvalue get_string (req_data r) ''query'' []"

definition Request_TaskId :: "request \<Rightarrow> string option" where
  "Request_TaskId r = (case jget (req_data r) ''task_id'' of Some (JString s) \<Rightarrow> Some s | _ \<Rightarrow> None)"

text \<open>The builders of \<open>RequestBuilder\<close>.\<close>

definition Request :: "string \<Rightarrow> json \<Rightarrow> request" where
  "Request action dat = \<lparr>req_action = action, req_token = [], req_data = dat\<rparr>"

definition Req_Login :: "string \<Rightarrow> string \<Rightarrow> request" where
  "Req_Login user password = Request ''login'' (jobj [(''username'', JString user), (''password'', JString password)])"

definition Req_CreateSuperuser :: "string \<Rightarrow> string \<Rightarrow> request" where
  "Req_CreateSuperuser user password =
     Request ''login'' (jobj [(''username'', JString user), (''password'', JString password), (''create'', JBool True)])"

definition Req_Handshake :: request where "Req_Handshake = Request ''handshake'' (JObject [])"
definition Req_Query :: "string \<Rightarrow> request" where "Req_Query sql = Request ''query'' (jobj [(''query'', JString sql)])"
definition Req_CheckTask :: "string \<Rightarrow> request" where
  "Req_CheckTask task_id = Request ''check_task'' (jobj [(''task_id'', JString task_id)])"
definition Req_Telemetry :: request where "Req_Telemetry = Request ''telemetry'' (JObject [])"

definition Req_Token :: "string \<Rightarrow> request \<Rightarrow> request" where
  "Req_Token token r = r\<lparr>req_token := token\<rparr>"

section \<open>Round trips\<close>

lemma Response_back: "Response_FromJsonObject (Response_ToJsonObject r) = r"
  by (cases r) (simp add: Response_FromJsonObject_def Response_ToJsonObject_def optional_string_def jget_jobj Response_def)

lemma Request_back: "is_object (req_data r) \<Longrightarrow> Request_FromJsonObject (Request_ToJsonObject r) = Inr r"
  by (cases r; cases "req_data r")
    (auto simp: Request_FromJsonObject_def Request_ToJsonObject_def optional_string_def jget_jobj)

end
