(* ===== verification/Executor.thy ===== *)
theory Executor
  imports Sql_Eval Table_Store Messages
begin

text \<open>
  The execution of a statement on a table, \<open>apps/storage/src/executor.cpp\<close>. \<open>rx\<close> stands for
  \<open>std::regex_match\<close>, as in the evaluation of conditions. The state is the table, whose interner is
  the one the code passes along.
\<close>

section \<open>Results\<close>

fun JsonValue :: "interner \<Rightarrow> sql_value \<Rightarrow> json result" where
  "JsonValue it VNull = Inr JNull"
| "JsonValue it (VInt i) = Inr (JInt (sint i))"
| "JsonValue it (VString s) = rmap JString (View it s)"

definition ResultName :: "select_item \<Rightarrow> aggregate \<Rightarrow> string \<Rightarrow> string" where
  "ResultName item f c =
     (if ItemAlias item = [] then
        (case f of AggSum \<Rightarrow> ''SUM'' | AggCount \<Rightarrow> ''COUNT'' | AggAvg \<Rightarrow> ''AVG'') @ ''('' @ c @ '')''
      else ItemAlias item)"

definition ColumnName :: "select_item \<Rightarrow> string \<Rightarrow> string" where
  "ColumnName item name = (if ItemAlias item = [] then name else ItemAlias item)"

section \<open>Choosing the records\<close>

definition tquery :: "(table \<Rightarrow> 'a result) \<Rightarrow> (table, 'a) st" where
  "tquery f T = (f T, T)"

fun lookup :: "expression \<Rightarrow> expression \<Rightarrow> (table, db_record list option) st" where
  "lookup (IdentifierExpr name) (LiteralExpr l) =
     sbind (on_interner (LiteralValue l)) (\<lambda>v. tquery (\<lambda>T. find_by_index T name v))"
| "lookup _ _ = sret None"

fun IndexedRecords :: "condition \<Rightarrow> (table, db_record list option) st" where
  "IndexedRecords (AndCondition l r) =
     sbind (IndexedRecords l) (\<lambda>found. case found of Some rs \<Rightarrow> sret (Some rs) | None \<Rightarrow> IndexedRecords r)"
| "IndexedRecords (ComparisonCondition l op r) =
     (if op \<noteq> OpEqual then sret None
      else sbind (lookup l r) (\<lambda>found. case found of Some rs \<Rightarrow> sret (Some rs) | None \<Rightarrow> lookup r l))"
| "IndexedRecords _ = sret None"

definition RecordsFor :: "condition option \<Rightarrow> (table, db_record list) st" where
  "RecordsFor w =
     (case w of
        None \<Rightarrow> tquery records
      | Some c \<Rightarrow> sbind (IndexedRecords c) (\<lambda>found.
          case found of Some rs \<Rightarrow> sret rs | None \<Rightarrow> tquery records))"

type_synonym regex = "string \<Rightarrow> string \<Rightarrow> bool result"

definition holds_for :: "regex \<Rightarrow> condition \<Rightarrow> db_record \<Rightarrow> (table, bool) st" where
  "holds_for rx c r T =
     on_interner (sbind (EvaluateCondition rx c (tbl_schema T) r) (\<lambda>b. sret (b = SqlTrue))) T"

definition MatchingRecords :: "regex \<Rightarrow> condition option \<Rightarrow> (table, db_record list) st" where
  "MatchingRecords rx w =
     sbind (RecordsFor w) (\<lambda>rs. case w of None \<Rightarrow> sret rs | Some c \<Rightarrow> sfilter (holds_for rx c) rs)"

section \<open>SELECT\<close>

definition expression_on :: "expression \<Rightarrow> db_record \<Rightarrow> (table, sql_value) st" where
  "expression_on e r T = on_interner (ExpressionValue e (tbl_schema T) r) T"

fun row_all :: "interner \<Rightarrow> column list \<Rightarrow> nat \<Rightarrow> db_record \<Rightarrow> (string \<times> json) list \<Rightarrow> (string \<times> json) list result" where
  "row_all it [] i r row = Inr row"
| "row_all it (c # cs) i r row =
     rbind (rbind (field_of r i) (JsonValue it)) (\<lambda>j. row_all it cs (i + 1) r (jput (col_name c) j row))"

fun row_items :: "select_item list \<Rightarrow> db_record \<Rightarrow> (string \<times> json) list \<Rightarrow> (table, (string \<times> json) list) st" where
  "row_items [] r row = sret row"
| "row_items (item # items) r row =
     (case ItemExpr item of
        IdentifierExpr name \<Rightarrow>
          sbind (expression_on (IdentifierExpr name) r) (\<lambda>v.
            sbind (tquery (\<lambda>T. JsonValue (tbl_interner T) v)) (\<lambda>j.
              row_items items r (jput (ColumnName item name) j row)))
      | _ \<Rightarrow> sthrow (Runtime_Error
          ''[ERROR in qdb::storage::SelectRows]: Only column expressions are supported in SELECT!''))"

definition select_row :: "bool \<Rightarrow> select_item list \<Rightarrow> db_record \<Rightarrow> (table, json) st" where
  "select_row all items r =
     sbind (if all then tquery (\<lambda>T. row_all (tbl_interner T) (columns (tbl_schema T)) 0 r []) else row_items items r [])
       (\<lambda>row. sret (JObject row))"

text \<open>The 64-bit sum and count of an aggregate; \<open>AVG\<close> divides them as doubles.\<close>

fun aggregate_loop :: "aggregate \<Rightarrow> string \<Rightarrow> nat \<Rightarrow> db_record list \<Rightarrow> 64 word \<Rightarrow> 64 word \<Rightarrow> (64 word \<times> 64 word) result" where
  "aggregate_loop f c i [] acc count = Inr (acc, count)"
| "aggregate_loop f c i (r # rs) acc count =
     rbind (field_of r i) (\<lambda>v.
       if f = AggCount then aggregate_loop f c i rs acc (count + (if IsNull v then 0 else 1))
       else case v of
         VNull \<Rightarrow> aggregate_loop f c i rs acc count
       | VInt w \<Rightarrow> aggregate_loop f c i rs (acc + scast w) (count + 1)
       | VString _ \<Rightarrow> Inl (Runtime_Error (''[ERROR in qdb::storage::AggregateSelect]: Aggregate expects INT column ''
           @ quoted c @ ''!'')))"

definition aggregate_json :: "aggregate \<Rightarrow> 64 word \<times> 64 word \<Rightarrow> json" where
  "aggregate_json f sc =
     (case f of
        AggCount \<Rightarrow> JInt (sint (snd sc))
      | AggSum \<Rightarrow> JInt (sint (fst sc))
      | AggAvg \<Rightarrow> if snd sc = 0 then JNull else JDouble (sint (fst sc)) (sint (snd sc)))"

fun aggregate_items :: "schema \<Rightarrow> select_item list \<Rightarrow> db_record list \<Rightarrow> (string \<times> json) list \<Rightarrow> (string \<times> json) list result" where
  "aggregate_items sc [] rs row = Inr row"
| "aggregate_items sc (item # items) rs row =
     (case ItemExpr item of
        AggregateExpr f c \<Rightarrow>
          (let i = ColumnIndex sc c in
           if i < 0 then Inl (Runtime_Error (''[ERROR in qdb::storage::AggregateSelect]: Unknown column '' @ quoted c @ ''!''))
           else rbind (aggregate_loop f c (nat i) rs 0 0) (\<lambda>sums.
             aggregate_items sc items rs (jput (ResultName item f c) (aggregate_json f sums) row)))
      | _ \<Rightarrow> Inl (Runtime_Error ''[ERROR in qdb::storage::AggregateSelect]: Only aggregate SELECT is implemented!''))"

definition AggregateSelect :: "regex \<Rightarrow> select_item list \<Rightarrow> condition option \<Rightarrow> (table, json) st" where
  "AggregateSelect rx items w =
     sbind (MatchingRecords rx w) (\<lambda>rs.
       sbind (tquery (\<lambda>T. aggregate_items (tbl_schema T) items rs [])) (\<lambda>row. sret (JObject row)))"

fun is_aggregate :: "expression \<Rightarrow> bool" where
  "is_aggregate (AggregateExpr _ _) = True"
| "is_aggregate _ = False"

definition SelectRows :: "regex \<Rightarrow> bool \<Rightarrow> select_item list \<Rightarrow> condition option \<Rightarrow> (table, json) st" where
  "SelectRows rx all items w =
     (if list_ex (\<lambda>i. is_aggregate (ItemExpr i)) items
      then sbind (AggregateSelect rx items w) (\<lambda>j. sret (JArray [j]))
      else sbind (MatchingRecords rx w) (\<lambda>rs.
        sbind (smap (select_row all items) rs) (\<lambda>rows. sret (JArray rows))))"

section \<open>Statements\<close>

text \<open>The assignments of an UPDATE on one record, each seeing what the ones before it set.\<close>

fun assign_all :: "(string \<times> expression) list \<Rightarrow> db_record \<Rightarrow> (table, db_record) st" where
  "assign_all [] r = sret r"
| "assign_all ((c, e) # as) r =
     sbind (sget (\<lambda>T. ColumnIndex (tbl_schema T) c)) (\<lambda>i.
       if i < 0 then sthrow (unknown_column c)
       else sbind (expression_on e r) (\<lambda>v. assign_all as (set_field r (nat i) v)))"

definition affected :: "string \<Rightarrow> nat \<Rightarrow> json" where
  "affected message n = SuccessJson message (jobj [(''rows_affected'', JInt (int n))])"

fun Execute :: "regex \<Rightarrow> statement \<Rightarrow> (table, json) st" where
  "Execute rx (InsertStmt t cols rows) =
     sbind (smap (smap (\<lambda>l. on_interner (LiteralValue l))) rows) (\<lambda>vss.
       sbind (insert_multiple vss cols) (\<lambda>_. sret (affected ''Rows inserted'' (length rows))))"
| "Execute rx (UpdateStmt t as w) =
     sbind (MatchingRecords rx w) (\<lambda>rs.
       sbind (smap (assign_all as) rs) (\<lambda>changed.
         sbind (update_multiple 0 changed) (\<lambda>errors.
           if errors \<noteq> [] then sthrow (Runtime_Error (snd (hd errors)))
           else sret (affected ''Rows updated'' (length changed)))))"
| "Execute rx (DeleteStmt t w) =
     sbind (MatchingRecords rx w) (\<lambda>rs.
       sbind (delete_multiple rs) (\<lambda>_. sret (affected ''Rows deleted'' (length rs))))"
| "Execute rx (SelectStmt all items t w) =
     sbind (SelectRows rx all items w) (\<lambda>rows. sret (SuccessJson ''Rows selected'' (jobj [(''result'', rows)])))"
| "Execute rx (RevertStmt t ts) = sbind (Table_revert ts) (\<lambda>_. sret (affected ''Table reverted'' 0))"
| "Execute rx (CreateUserStmt _ _) = sret (ErrorJson ''Storage shard does not manage users or permissions'')"
| "Execute rx (GrantStmt _ _ _) = sret (ErrorJson ''Storage shard does not manage users or permissions'')"
| "Execute rx (RevokeStmt _ _ _) = sret (ErrorJson ''Storage shard does not manage users or permissions'')"
| "Execute rx (CreateDatabaseStmt _) = sret (ErrorJson ''Storage shard does not manage databases'')"
| "Execute rx (DropDatabaseStmt _) = sret (ErrorJson ''Storage shard does not manage databases'')"
| "Execute rx (UseDatabaseStmt _) = sret (ErrorJson ''Storage shard does not manage databases'')"
| "Execute rx (CreateTableStmt t _) =
     sret (ErrorJson (''Storage shard table lifecycle is handled by application: '' @ RefTable t))"
| "Execute rx (DropTableStmt t) =
     sret (ErrorJson (''Storage shard table lifecycle is handled by application: '' @ RefTable t))"

end
