(* ===== verification/Select_Facts.thy ===== *)
theory Select_Facts
  imports Executor
begin

text \<open>
  What SELECT computes from the records it has chosen: the aggregates, whose 64-bit accumulators are
  exact for every table that the 32-bit record identifiers allow.
\<close>

section \<open>Signed arithmetic\<close>

lemma sint_add_exact:
  fixes a b :: "64 word"
  assumes "- (2 ^ 63) \<le> sint a + sint b" "sint a + sint b < 2 ^ 63"
  shows "sint (a + b) = sint a + sint b"
proof -
  have "sint (a + b) = sint (word_of_int (sint a + sint b) :: 64 word)" by simp
  also have "\<dots> = signed_take_bit 63 (sint a + sint b)" unfolding signed_of_int by simp
  also have "\<dots> = sint a + sint b" using assms by (simp add: signed_take_bit_int_eq_self)
  finally show ?thesis .
qed

lemma sint_wider: "sint (scast (w :: 32 word) :: 64 word) = sint w"
  by (intro sint_up_scast) (simp add: is_up)

lemma sint_32_range: "- (2 ^ 31) \<le> sint (w :: 32 word)" "sint (w :: 32 word) < 2 ^ 31"
  using sint_greater_eq [of w] sint_less [of w] by simp_all

section \<open>Aggregates\<close>

text \<open>The value of a column in a record, and the integers among them.\<close>

definition column_values :: "nat \<Rightarrow> db_record list \<Rightarrow> sql_value list" where
  "column_values i rs = map (\<lambda>r. rec_fields r ! i) rs"

fun ints_of :: "sql_value list \<Rightarrow> int list" where
  "ints_of [] = []"
| "ints_of (VInt w # vs) = sint w # ints_of vs"
| "ints_of (_ # vs) = ints_of vs"

definition non_nulls :: "sql_value list \<Rightarrow> sql_value list" where
  "non_nulls vs = filter (\<lambda>v. \<not> IsNull v) vs"

lemma aggregate_loop_exact:
  assumes "aggregate_loop f c i rs acc n = Inr (s, m)"
    and "\<bar>sint acc\<bar> \<le> 2 ^ 31 * k" "\<bar>sint n\<bar> \<le> k" "k + int (length rs) < 2 ^ 32"
  shows "sint s = sint acc + (if f = AggCount then 0 else sum_list (ints_of (column_values i rs))) \<and>
    sint m = sint n + int (length (non_nulls (column_values i rs)))"
  using assms
proof (induction rs arbitrary: acc n k)
  case Nil
  then show ?case by (simp add: column_values_def non_nulls_def)
next
  case (Cons r rs)
  obtain v where v: "field_of r i = Inr v" "rec_fields r ! i = v"
    using Cons.prems(1) by (auto simp: result_iff field_of_def split: if_splits)
  have k: "0 \<le> k" "k + 1 + int (length rs) < 2 ^ 32" using Cons.prems(2-4) by auto
  have n1: "sint (n + 1) = sint n + 1" "\<bar>sint (n + 1)\<bar> \<le> k + 1"
    using sint_add_exact [of n 1] Cons.prems(3) k by auto
  have count: ?case if "f = AggCount"
  proof (cases "IsNull v")
    case True
    then show ?thesis
      using Cons.IH [of acc n "k + 1"] Cons.prems that v k by (simp add: column_values_def non_nulls_def)
  next
    case False
    then show ?thesis
      using Cons.IH [of acc "n + 1" "k + 1"] Cons.prems that v k n1 by (simp add: column_values_def non_nulls_def)
  qed
  show ?case
  proof (cases v)
    case VNull
    then show ?thesis
      using count Cons.IH [of acc n "k + 1"] Cons.prems v k by (cases "f = AggCount") (simp_all add: column_values_def non_nulls_def)
  next
    case (VInt w)
    have a: "sint (acc + scast w) = sint acc + sint w"
      using sint_add_exact [of acc "scast w"] sint_32_range [of w] Cons.prems(2) k by (auto simp: sint_wider)
    then have "\<bar>sint (acc + scast w)\<bar> \<le> 2 ^ 31 * (k + 1)"
      using sint_32_range [of w] Cons.prems(2) by auto
    then show ?thesis
      using count Cons.IH [of "acc + scast w" "n + 1" "k + 1"] Cons.prems v k n1 a VInt
      by (cases "f = AggCount") (simp_all add: column_values_def non_nulls_def)
  next
    case (VString s)
    then show ?thesis using count Cons.prems(1) v by (cases "f = AggCount") simp_all
  qed
qed

end
