(* ===== verification/Query_Facts.thy ===== *)
theory Query_Facts
  imports Table_Life Select_Facts
begin

text \<open>
  Queries on a table that holds rows: looking a value up in an index gives the same records as
  scanning the table, and the records of a statement are those on which its condition is true,
  whichever way they are found.
\<close>

section \<open>All records\<close>

text \<open>The records of the rows, in the order of a scan.\<close>

definition all_records :: "rows \<Rightarrow> (32 word \<rightharpoonup> record_address) \<Rightarrow> 32 word \<Rightarrow> db_record list" where
  "all_records R A n = List.map_filter (row_record R A) (map word_of_nat [0..<unat n])"

lemma row_record_Some:
  "row_record R A k = Some r \<longleftrightarrow> (\<exists>vs a. R k = Some vs \<and> A k = Some a \<and> r = SetAddress (mk_record k vs) a)"
  by (auto simp: row_record_def split: option.splits)

lemma scan_ids: "k \<in> set (map word_of_nat [0..<unat n]) \<longleftrightarrow> k < (n :: 32 word)" "distinct (map (word_of_nat :: nat \<Rightarrow> 32 word) [0..<unat n])"
proof -
  have inv: "unat (word_of_nat i :: 32 word) = i" if "i < unat n" for i
  proof -
    have "i < 2 ^ 32" using less_trans [OF that unsigned_less [of n]] by simp
    then show ?thesis by (simp add: unat_of_nat)
  qed
  show "k \<in> set (map word_of_nat [0..<unat n]) \<longleftrightarrow> k < n"
  proof
    assume "k \<in> set (map word_of_nat [0..<unat n])"
    then show "k < n" using inv by (auto simp: word_less_nat_alt)
  next
    assume "k < n"
    then have "unat k \<in> set [0..<unat n]" by (simp add: word_less_nat_alt)
    then have "word_of_nat (unat k) \<in> set (map (word_of_nat :: nat \<Rightarrow> 32 word) [0..<unat n])" unfolding set_map by (rule imageI)
    then show "k \<in> set (map word_of_nat [0..<unat n])" by simp
  qed
  have "inj_on (word_of_nat :: nat \<Rightarrow> 32 word) (set [0..<unat n])"
    by (intro inj_onI) (metis inv atLeastLessThan_iff set_upt)
  then show "distinct (map (word_of_nat :: nat \<Rightarrow> 32 word) [0..<unat n])" by (simp add: distinct_map)
qed

lemma map_filter_id: "List.map_filter f xs = map (the \<circ> f) (filter (\<lambda>x. f x \<noteq> None) xs)"
  by (simp add: List.map_filter_def)

lemma map_filter_set: "y \<in> set (List.map_filter f xs) \<longleftrightarrow> (\<exists>x \<in> set xs. f x = Some y)"
  by (induction xs) (auto simp: map_filter_simps split: option.splits)

lemma all_records_set:
  assumes "table_rep T R A L"
  shows "r \<in> set (all_records R A (record_id_count (tbl_schema T))) \<longleftrightarrow>
    (\<exists>k vs a. R k = Some vs \<and> A k = Some a \<and> r = SetAddress (mk_record k vs) a)"
proof -
  have "k < record_id_count (tbl_schema T)" if "R k = Some vs" for k vs
    using that table_repD(3) [OF assms] by (simp add: rows_ok_def)
  then show ?thesis
    unfolding all_records_def map_filter_set Bex_def scan_ids(1) row_record_Some by blast
qed

lemma all_records_distinct: "distinct (map rec_id (all_records R A n))"
proof -
  have "map rec_id (all_records R A n) = filter (\<lambda>k. row_record R A k \<noteq> None) (map word_of_nat [0..<unat n])"
    unfolding all_records_def map_filter_id map_map
    by (intro map_idI) (auto simp: row_record_def split: option.splits)
  then show ?thesis using scan_ids(2) [of n] by simp
qed

lemma distinct_map_rec: "distinct (map f xs) \<Longrightarrow> distinct xs"
  by (simp add: distinct_map)

lemma records_all: "table_rep T R A L \<Longrightarrow> records T = Inr (all_records R A (record_id_count (tbl_schema T)))"
  by (simp add: records_rows all_records_def)

text \<open>A list without repetition of which one element passes.\<close>

lemma filter_one:
  assumes "distinct xs" "x \<in> set xs" "\<And>y. y \<in> set xs \<Longrightarrow> P y \<longleftrightarrow> y = x"
  shows "filter P xs = [x]"
  using assms
proof (induction xs)
  case (Cons z zs)
  show ?case
  proof (cases "z = x")
    case True
    then have "\<forall>y \<in> set zs. \<not> P y" using Cons.prems by auto
    then show ?thesis using True Cons.prems(3) by simp
  next
    case False
    then show ?thesis using Cons by auto
  qed
qed simp

section \<open>The index and the scan\<close>

lemma column_position:
  assumes "ColumnIndex sc name = int i \<or> name \<in> set (map col_name (columns sc))"
  obtains j where "ColumnIndex sc name = int j" "j < length (columns sc)" "col_name (columns sc ! j) = name"
  using assms column_index_from_spec [of 0 "columns sc" name] by (auto simp: ColumnIndex_def)

lemma find_by_index_scan:
  assumes T: "table_rep T R A L" and name: "name \<in> set (map col_name (columns (tbl_schema T)))"
  shows "find_by_index T name v = Inr None \<or>
    find_by_index T name v = Inr (Some (filter (\<lambda>r. rec_fields r ! nat (ColumnIndex (tbl_schema T) name) = v)
      (all_records R A (record_id_count (tbl_schema T)))))"
proof -
  let ?cs = "columns (tbl_schema T)" and ?all = "all_records R A (record_id_count (tbl_schema T))"
  obtain i where i: "ColumnIndex (tbl_schema T) name = int i" "i < length ?cs" "col_name (?cs ! i) = name"
    using column_position [of "tbl_schema T" name] name by blast
  let ?c = "?cs ! i"
  have sound: "column_sound ?c" using table_repD(2) [OF T] i(2) by (simp add: schema_sound_def)
  show ?thesis
  proof (cases "IsIndexed ?c \<and> \<not> IsNull v \<and> column_takes ?c v")
    case False
    then have "find_by_index T name v = Inr None"
      using i(1) sound by (cases v) (auto simp: find_by_index_def IndexSet_Find_def Let_def column_takes_def column_sound_def)
    then show ?thesis by simp
  next
    case True
    obtain M where M: "points_to ?cs R A M" "indexes_rep ?cs (tbl_indexes T) M L"
      using table_repD(5) [OF T] by (auto simp: trees_ok_def)
    obtain t n where t: "tbl_indexes T (col_name ?c) = Some t" "itree_rep t (M i) n" "index_accepts t = column_takes ?c"
      using indexes_repD [OF M(2) i(2)] True by metis
    have acc: "index_accepts t v" using t(3) True by simp
    have kind: "\<not> (Column_IsInt ?c \<and> \<not> IsInt v \<or> Column_IsString ?c \<and> \<not> IsString v)"
      using True sound by (cases v) (auto simp: column_takes_def Column_IsInt_def Column_IsString_def)
    have find: "IndexSet_Find (tbl_indexes T) (tbl_schema T) name v = Inr (Some (case M i v of None \<Rightarrow> [] | Some a \<Rightarrow> [a]))"
      using i True kind t(1) itree_search [OF t(2) acc] by (simp add: IndexSet_Find_def Let_def index_of_def)
    have pt: "M i v = Some a \<longleftrightarrow> (\<exists>k vs. R k = Some vs \<and> A k = Some a \<and> vs ! i = v)" for a
      using M(1) i(2) True by (simp add: points_to_def)
    note inall = all_records_set [OF T]
    have "find_by_index T name v = Inr (Some (filter (\<lambda>r. rec_fields r ! i = v) ?all))"
    proof (cases "M i v")
      case None
      have "rec_fields r ! i \<noteq> v" if "r \<in> set ?all" for r
        using that None pt unfolding inall by (metis SetAddress_fields(2) mk_record_fields(2) option.distinct(1))
      then have "filter (\<lambda>r. rec_fields r ! i = v) ?all = []" by (simp add: filter_empty_conv)
      then show ?thesis using None find by (simp add: find_by_index_def Let_def)
    next
      case (Some a)
      then obtain k vs where k: "R k = Some vs" "A k = Some a" "vs ! i = v" using pt by blast
      let ?r = "SetAddress (mk_record k vs) a"
      have len: "length vs = length ?cs" using table_repD(3) [OF T] k(1) row_typed_length by (auto simp: rows_ok_def)
      have "filter (\<lambda>r. rec_fields r ! i = v) ?all = [?r]"
      proof (rule filter_one)
        show "distinct ?all" using all_records_distinct by (rule distinct_map_rec)
        show "?r \<in> set ?all" unfolding inall using k by blast
        show "rec_fields y ! i = v \<longleftrightarrow> y = ?r" if y_in: "y \<in> set ?all" for y
        proof -
          obtain q us b where y: "R q = Some us" "A q = Some b" "y = SetAddress (mk_record q us) b" using y_in unfolding inall by blast
          have "q = k" if "us ! i = v"
          proof -
            have "M i v = Some b" using pt y that by blast
            then show ?thesis using Some address_inj [OF table_repD(4) [OF T] y(2)] k(2) by simp
          qed
          show ?thesis
          proof
            assume "rec_fields y ! i = v"
            then have "q = k" using \<open>us ! i = v \<Longrightarrow> q = k\<close> y(3) by simp
            then show "y = ?r" using y k(1,2) by simp
          next
            assume "y = ?r"
            then show "rec_fields y ! i = v" using k(3) by simp
          qed
        qed
      qed
      moreover have "matching_records T i v [a] = Inr [?r]"
        using read_row [OF T k(2,1)] len i(2) k(3) by (simp add: field_of_def StrictEq_iff del: StrictEq.simps)
      ultimately show ?thesis using Some find i(1) by (simp add: find_by_index_def Let_def)
    qed
    then show ?thesis using i(1) by simp
  qed
qed


section \<open>The records of a condition\<close>

text \<open>Literals that can be read, and names that are columns.\<close>

fun expr_ok :: "schema \<Rightarrow> expression \<Rightarrow> bool" where
  "expr_ok sc (IdentifierExpr name) \<longleftrightarrow> name \<in> set (map col_name (columns sc))"
| "expr_ok sc (LiteralExpr l) \<longleftrightarrow> literal_sem l \<noteq> None"
| "expr_ok sc (AggregateExpr _ _) \<longleftrightarrow> False"

fun cond_ok :: "schema \<Rightarrow> condition \<Rightarrow> bool" where
  "cond_ok sc (ComparisonCondition l op r) \<longleftrightarrow> expr_ok sc l \<and> expr_ok sc r"
| "cond_ok sc (BetweenCondition v lo hi) \<longleftrightarrow> expr_ok sc v \<and> expr_ok sc lo \<and> expr_ok sc hi"
| "cond_ok sc (LikeCondition v pat) \<longleftrightarrow> expr_ok sc v"
| "cond_ok sc (AndCondition l r) \<longleftrightarrow> cond_ok sc l \<and> cond_ok sc r"
| "cond_ok sc (OrCondition l r) \<longleftrightarrow> cond_ok sc l \<and> cond_ok sc r"

lemma plain_inject:
  assumes "interner_rep it" "known_value it v" "known_value it w" "plain_of it v = plain_of it w"
  shows "v = w"
proof -
  have "sid_value s = sid_value t" if "id_to_view it (sid_value s) = Some x" "id_to_view it (sid_value t) = Some x" for s t x
    using that assms(1) view_of_inj by (metis interner_rep_def)
  then show ?thesis using assms(2-4)
    by (cases v; cases w) (auto simp: signed_eq_iff string_id.expand split: option.splits)
qed

lemma LiteralValue_sem:
  assumes "room 1 it" "literal_sem l = Some p"
  shows "\<exists>v it'. LiteralValue l it = (Inr v, it') \<and> plain_of it' v = p \<and> known_value it' v \<and> grown 1 it it'"
proof -
  have "ExpressionValue (LiteralExpr l) sc r it = LiteralValue l it" for sc r by (simp add: ExpressionValue_def)
  moreover have "\<exists>v it'. ExpressionValue (LiteralExpr l) \<lparr>columns = [], record_id_count = 0\<rparr> (mk_record 0 []) it = (Inr v, it') \<and>
      plain_of it' v = p \<and> known_value it' v \<and> grown 1 it it'"
    using assms by (intro ExpressionValue_sem) (simp_all add: known_record_def)
  ultimately show ?thesis by simp
qed

text \<open>
  A list of records that has all those on which a condition is true: what an index may give.
\<close>

definition covers :: "(db_record \<Rightarrow> bool) \<Rightarrow> db_record list \<Rightarrow> db_record list \<Rightarrow> bool" where
  "covers P all rs \<longleftrightarrow> (\<exists>Q. rs = filter Q all \<and> (\<forall>r \<in> set all. P r \<longrightarrow> Q r))"

lemma covers_filter: "covers P all rs \<Longrightarrow> filter P rs = filter P all"
proof -
  assume "covers P all rs"
  then obtain Q where Q: "rs = filter Q all" "\<And>r. r \<in> set all \<Longrightarrow> P r \<Longrightarrow> Q r" by (auto simp: covers_def)
  have "filter (\<lambda>x. Q x \<and> P x) all = filter P all" using Q(2) by (intro filter_cong) auto
  then show ?thesis unfolding Q(1) filter_filter .
qed

lemma covers_mono: "covers P all rs \<Longrightarrow> (\<And>r. r \<in> set all \<Longrightarrow> P' r \<Longrightarrow> P r) \<Longrightarrow> covers P' all rs"
  unfolding covers_def by blast

definition is_true :: "regex \<Rightarrow> interner \<Rightarrow> schema \<Rightarrow> condition \<Rightarrow> db_record \<Rightarrow> bool" where
  "is_true rx it sc c r \<longleftrightarrow> sql_sem rx (row_of it sc r) c = Some SqlTrue"

lemma sql_and_true: "sql_and a b = SqlTrue \<longleftrightarrow> a = SqlTrue \<and> b = SqlTrue"
  by (cases a; cases b) auto

lemma cmp_equal_true: "cmp_sem OpEqual p q = Some SqlTrue \<Longrightarrow> p = q"
  by (cases p; cases q) (auto simp: of_bool_sql_def text_less_total split: if_splits dest: text_less_total)

lemma all_known:
  assumes "table_rep T R A L" "r \<in> set (all_records R A (record_id_count (tbl_schema T)))"
  shows "known_record (tbl_interner T) r" "length (rec_fields r) = schema_size T"
  using assms(2) table_repD(3) [OF assms(1)] row_typed_length unfolding all_records_set [OF assms(1)]
  by (auto simp: rows_ok_def known_record_def list_all_iff)

lemma lookup_covers:
  assumes T: "table_rep T R A L" and ok: "expr_ok (tbl_schema T) e" "expr_ok (tbl_schema T) e'" and rm: "room 1 (tbl_interner T)"
  defines "all \<equiv> all_records R A (record_id_count (tbl_schema T))"
  shows "\<exists>found it. lookup e e' T = (Inr found, T\<lparr>tbl_interner := it\<rparr>) \<and> grown 1 (tbl_interner T) it \<and>
    (found = None \<or> (\<exists>rs. found = Some rs \<and> (\<exists>n l. e = IdentifierExpr n \<and> e' = LiteralExpr l) \<and>
      covers (\<lambda>r. expr_sem (row_of (tbl_interner T) (tbl_schema T) r) e = expr_sem (row_of (tbl_interner T) (tbl_schema T) r) e') all rs))"
proof (cases "\<exists>n l. e = IdentifierExpr n \<and> e' = LiteralExpr l")
  case False
  then have "lookup e e' = sret None" by (cases e; cases e') auto
  then show ?thesis using grown_refl [of "tbl_interner T" 1] rm
    by (auto simp: st_simps_basic room_def intro!: exI [of _ "tbl_interner T"])
next
  case True
  then obtain name l where e: "e = IdentifierExpr name" "e' = LiteralExpr l" by blast
  obtain p where p: "literal_sem l = Some p" using ok(2) e by auto
  obtain v it where v: "LiteralValue l (tbl_interner T) = (Inr v, it)" "plain_of it v = p" "known_value it v"
    "grown 1 (tbl_interner T) it" using LiteralValue_sem [OF rm p] by blast
  let ?T = "T\<lparr>tbl_interner := it\<rparr>"
  have T': "table_rep ?T R A L" by (rule grown_table(1) [OF v(4) T])
  have name: "name \<in> set (map col_name (columns (tbl_schema T)))" using ok(1) e by simp
  have run: "lookup e e' T = (find_by_index ?T name v, ?T)"
    using v(1) e by (simp add: sbind_def on_interner_def on_part_def tquery_def)
  obtain i where i: "ColumnIndex (tbl_schema T) name = int i" "i < schema_size T"
    using column_position [of "tbl_schema T" name] name by blast
  have "covers (\<lambda>r. expr_sem (row_of (tbl_interner T) (tbl_schema T) r) e = expr_sem (row_of (tbl_interner T) (tbl_schema T) r) e') all
      (filter (\<lambda>r. rec_fields r ! i = v) all)"
    unfolding covers_def
  proof (intro exI conjI ballI impI)
    fix r assume r: "r \<in> set all" and eq: "expr_sem (row_of (tbl_interner T) (tbl_schema T) r) e = expr_sem (row_of (tbl_interner T) (tbl_schema T) r) e'"
    note kn = all_known [OF T, of r] r [unfolded all_def]
    have f: "known_value (tbl_interner T) (rec_fields r ! i)" using kn i(2) by (simp add: known_record_def list_all_length)
    have "plain_of (tbl_interner T) (rec_fields r ! i) = p" using eq e p i kn by (simp add: row_of_def Let_def)
    then have "plain_of it (rec_fields r ! i) = plain_of it v" using grown_plain [OF v(4) f] v(2) by simp
    then show "rec_fields r ! i = v" using plain_inject [of it] grown_plain [OF v(4) f] v(3,4) by (simp add: grown_def)
  qed simp
  then show ?thesis using run find_by_index_scan [OF T', of name v] name i(1) v(4) e by (auto simp: all_def)
qed


definition no_change :: "nat \<Rightarrow> table \<Rightarrow> table \<Rightarrow> bool" where
  "no_change n T T' \<longleftrightarrow> (\<exists>it. T' = T\<lparr>tbl_interner := it\<rparr> \<and> grown n (tbl_interner T) it)"

lemma no_change_refl: "room n (tbl_interner T) \<Longrightarrow> no_change m T T"
  unfolding no_change_def by (intro exI [of _ "tbl_interner T"]) (simp add: grown_refl room_def)

lemma no_change_trans:
  assumes "no_change m T T1" "no_change n T1 T2"
  shows "no_change (m + n) T T2"
proof -
  obtain it where "T1 = T\<lparr>tbl_interner := it\<rparr>" "grown m (tbl_interner T) it" using assms(1) by (auto simp: no_change_def)
  moreover from this obtain it' where "T2 = T1\<lparr>tbl_interner := it'\<rparr>" "grown n it it'" using assms(2) by (auto simp: no_change_def)
  ultimately show ?thesis using grown_trans by (auto simp: no_change_def)
qed

lemma no_change_facts:
  assumes "no_change n T T'"
  shows "tbl_schema T' = tbl_schema T" "tbl_pager T' = tbl_pager T" "grown n (tbl_interner T) (tbl_interner T')"
    "table_rep T R A L \<Longrightarrow> table_rep T' R A L" "table_at T R H \<Longrightarrow> table_at T' R H"
    "room (m + n) (tbl_interner T) \<Longrightarrow> room m (tbl_interner T')"
    "tbl_clock T' = tbl_clock T" "tbl_now T' = tbl_now T"
proof -
  obtain it where it: "T' = T\<lparr>tbl_interner := it\<rparr>" "grown n (tbl_interner T) it" using assms by (auto simp: no_change_def)
  then show "tbl_schema T' = tbl_schema T" "tbl_pager T' = tbl_pager T" "grown n (tbl_interner T) (tbl_interner T')"
    "tbl_clock T' = tbl_clock T" "tbl_now T' = tbl_now T" by simp_all
  show "table_rep T R A L \<Longrightarrow> table_rep T' R A L" "table_at T R H \<Longrightarrow> table_at T' R H"
    using grown_table [OF it(2)] it(1) by simp_all
  show "room (m + n) (tbl_interner T) \<Longrightarrow> room m (tbl_interner T')"
    using room_grown [of n m] it by (simp add: add.commute)
qed

lemma no_change_mono: "no_change m T T' \<Longrightarrow> m \<le> n \<Longrightarrow> no_change n T T'"
  unfolding no_change_def grown_def by fastforce

text \<open>Conditions mean the same after more strings.\<close>

lemma is_true_grown:
  assumes "grown n it it'" "known_record it r"
  shows "is_true rx it' sc c r \<longleftrightarrow> is_true rx it sc c r"
  using grown_record(2) [OF assms] by (simp add: is_true_def)

lemma IndexedRecords_covers:
  assumes "table_rep T R A L" "cond_ok (tbl_schema T) c" "room (cond_weight c) (tbl_interner T)"
  shows "\<exists>found T'. IndexedRecords c T = (Inr found, T') \<and> no_change (cond_weight c) T T' \<and>
    (found = None \<or> (\<exists>rs. found = Some rs \<and>
      covers (is_true rx (tbl_interner T) (tbl_schema T) c) (all_records R A (record_id_count (tbl_schema T))) rs))"
  using assms
proof (induction c arbitrary: T)
  case (ComparisonCondition l op r)
  show ?case
  proof (cases "op = OpEqual")
    case False
    then show ?thesis using no_change_refl [OF ComparisonCondition.prems(3)] by (auto simp: st_simps_basic)
  next
    case True
    have ok: "expr_ok (tbl_schema T) l" "expr_ok (tbl_schema T) r" using ComparisonCondition.prems(2) by simp_all
    have rm: "room 1 (tbl_interner T)" "room (1 + 1) (tbl_interner T)"
      using room_mono [OF ComparisonCondition.prems(3)] by (simp_all add: numeral_2_eq_2)
    have eqs: "is_true rx (tbl_interner T) (tbl_schema T) (ComparisonCondition l op r) x \<Longrightarrow>
        expr_sem (row_of (tbl_interner T) (tbl_schema T) x) l = expr_sem (row_of (tbl_interner T) (tbl_schema T) x) r" for x
      using True cmp_equal_true by (auto simp: is_true_def opt2_Some)
    from lookup_covers [OF ComparisonCondition.prems(1) ok rm(1)] obtain found it where
      f: "lookup l r T = (Inr found, T\<lparr>tbl_interner := it\<rparr>)" "grown 1 (tbl_interner T) it"
      "found = None \<or> (\<exists>rs. found = Some rs \<and> (\<exists>n k. l = IdentifierExpr n \<and> r = LiteralExpr k) \<and>
        covers (\<lambda>x. expr_sem (row_of (tbl_interner T) (tbl_schema T) x) l = expr_sem (row_of (tbl_interner T) (tbl_schema T) x) r)
          (all_records R A (record_id_count (tbl_schema T))) rs)" by blast
    have n1: "no_change 1 T (T\<lparr>tbl_interner := it\<rparr>)" using f(2) by (auto simp: no_change_def)
    show ?thesis
    proof (cases found)
      case (Some rs)
      have "no_change 2 T (T\<lparr>tbl_interner := it\<rparr>)" using no_change_mono [OF n1] by simp
      then show ?thesis using True f(1,3) Some covers_mono [OF _ eqs] by (auto simp: sbind_def st_simps_basic)
    next
      case None
      let ?T = "T\<lparr>tbl_interner := it\<rparr>"
      note nf = no_change_facts [OF n1]
      have T1: "table_rep ?T R A L" by (rule nf(4) [OF ComparisonCondition.prems(1)])
      have rm1: "room 1 (tbl_interner ?T)" by (rule nf(6) [OF rm(2)])
      from lookup_covers [OF T1, of r l] ok rm1 obtain found2 it2 where
        g: "lookup r l ?T = (Inr found2, ?T\<lparr>tbl_interner := it2\<rparr>)" "grown 1 it it2"
        "found2 = None \<or> (\<exists>rs. found2 = Some rs \<and> (\<exists>n k. r = IdentifierExpr n \<and> l = LiteralExpr k) \<and>
          covers (\<lambda>x. expr_sem (row_of it (tbl_schema T) x) r = expr_sem (row_of it (tbl_schema T) x) l)
            (all_records R A (record_id_count (tbl_schema T))) rs)" by auto
      have "no_change 1 ?T (?T\<lparr>tbl_interner := it2\<rparr>)" using g(2) by (auto simp: no_change_def)
      from no_change_trans [OF n1 this] have n2: "no_change 2 T (?T\<lparr>tbl_interner := it2\<rparr>)" by (simp add: numeral_2_eq_2)
      have eqs2: "expr_sem (row_of it (tbl_schema T) x) r = expr_sem (row_of it (tbl_schema T) x) l"
        if "x \<in> set (all_records R A (record_id_count (tbl_schema T)))"
          "is_true rx (tbl_interner T) (tbl_schema T) (ComparisonCondition l op r) x" for x
        using eqs [OF that(2)] grown_record(2) [OF f(2) all_known(1) [OF ComparisonCondition.prems(1) that(1)]] by simp
      show ?thesis using True f(1) None g(1,3) n2 covers_mono [OF _ eqs2]
        by (fastforce simp: sbind_def st_simps_basic split: option.splits)
    qed
  qed
next
  case (AndCondition l r)
  have rl: "room (cond_weight l) (tbl_interner T)" "room (cond_weight r + cond_weight l) (tbl_interner T)"
    using room_mono [OF AndCondition.prems(3)] by simp_all
  from AndCondition.IH(1) [OF AndCondition.prems(1) _ rl(1)] AndCondition.prems(2) obtain found T1 where
    f: "IndexedRecords l T = (Inr found, T1)" "no_change (cond_weight l) T T1"
    "found = None \<or> (\<exists>rs. found = Some rs \<and>
      covers (is_true rx (tbl_interner T) (tbl_schema T) l) (all_records R A (record_id_count (tbl_schema T))) rs)" by auto
  note nf = no_change_facts [OF f(2)]
  have both: "is_true rx (tbl_interner T) (tbl_schema T) (AndCondition l r) x \<Longrightarrow>
      is_true rx (tbl_interner T) (tbl_schema T) l x \<and> is_true rx (tbl_interner T) (tbl_schema T) r x" for x
    by (auto simp: is_true_def opt2_Some sql_and_true simp del: sql_and.simps)
  show ?case
  proof (cases found)
    case (Some rs)
    have "no_change (cond_weight (AndCondition l r)) T T1" using no_change_mono [OF f(2)] by simp
    then show ?thesis using Some f(1,3) covers_mono [of _ _ _ "is_true rx (tbl_interner T) (tbl_schema T) (AndCondition l r)"] both
      by (fastforce simp: sbind_def st_simps_basic)
  next
    case None
    have ok: "cond_ok (tbl_schema T1) r" using AndCondition.prems(2) nf(1) by simp
    from AndCondition.IH(2) [OF nf(4) [OF AndCondition.prems(1)] ok nf(6) [OF rl(2)]] obtain found2 T2 where
      g: "IndexedRecords r T1 = (Inr found2, T2)" "no_change (cond_weight r) T1 T2"
      "found2 = None \<or> (\<exists>rs. found2 = Some rs \<and>
        covers (is_true rx (tbl_interner T1) (tbl_schema T1) r) (all_records R A (record_id_count (tbl_schema T1))) rs)" by blast
    have right: "is_true rx (tbl_interner T1) (tbl_schema T1) r x"
      if "x \<in> set (all_records R A (record_id_count (tbl_schema T)))" "is_true rx (tbl_interner T) (tbl_schema T) (AndCondition l r) x" for x
      using both [OF that(2)] is_true_grown [OF nf(3) all_known(1) [OF AndCondition.prems(1) that(1)]] nf(1) by simp
    have "no_change (cond_weight (AndCondition l r)) T T2" using no_change_trans [OF f(2) g(2)] by simp
    then show ?thesis using f(1) None g(1,3) nf(1) covers_mono [OF _ right]
      by (fastforce simp: sbind_def st_simps_basic)
  qed
qed (use no_change_refl in \<open>fastforce simp: st_simps_basic\<close>)+


lemma holds_for_sem:
  assumes "room (cond_weight c) (tbl_interner T)" "known_record (tbl_interner T) r"
    and "sql_sem rx (row_of (tbl_interner T) (tbl_schema T) r) c \<noteq> None" "between_on_ints (row_of (tbl_interner T) (tbl_schema T) r) c"
  shows "\<exists>T'. holds_for rx c r T = (Inr (is_true rx (tbl_interner T) (tbl_schema T) c r), T') \<and> no_change (cond_weight c) T T'"
proof -
  obtain b where b: "sql_sem rx (row_of (tbl_interner T) (tbl_schema T) r) c = Some b" using assms(3) by blast
  obtain it where "EvaluateCondition rx c (tbl_schema T) r (tbl_interner T) = (Inr b, it)" "grown (cond_weight c) (tbl_interner T) it"
    using EvaluateCondition_sem [OF assms(1,2) b assms(4)] by blast
  then show ?thesis using b
    by (auto simp: holds_for_def on_interner_def on_part_def sbind_def st_simps_basic is_true_def no_change_def)
qed

text \<open>A condition that has a value on every record of a list.\<close>

definition cond_total :: "regex \<Rightarrow> interner \<Rightarrow> schema \<Rightarrow> condition \<Rightarrow> db_record \<Rightarrow> bool" where
  "cond_total rx it sc c r \<longleftrightarrow> sql_sem rx (row_of it sc r) c \<noteq> None \<and> between_on_ints (row_of it sc r) c"

lemma filter_records:
  assumes "room (length rs * cond_weight c) (tbl_interner T)"
    and "\<And>r. r \<in> set rs \<Longrightarrow> known_record (tbl_interner T) r \<and> cond_total rx (tbl_interner T) (tbl_schema T) c r"
  shows "\<exists>T'. sfilter (holds_for rx c) rs T = (Inr (filter (is_true rx (tbl_interner T) (tbl_schema T) c) rs), T') \<and>
    no_change (length rs * cond_weight c) T T'"
  using assms
proof (induction rs arbitrary: T)
  case Nil
  then show ?case using no_change_refl by (auto simp: st_simps_basic)
next
  case (Cons r rs)
  have rm: "room (cond_weight c) (tbl_interner T)" "room (length rs * cond_weight c + cond_weight c) (tbl_interner T)"
    using Cons.prems(1) room_mono by (simp_all add: add.commute)
  obtain T1 where h: "holds_for rx c r T = (Inr (is_true rx (tbl_interner T) (tbl_schema T) c r), T1)" "no_change (cond_weight c) T T1"
    using holds_for_sem [OF rm(1), of r rx] Cons.prems(2) [of r] by (auto simp: cond_total_def)
  note nf = no_change_facts [OF h(2)]
  have same: "known_record (tbl_interner T1) x" "is_true rx (tbl_interner T1) (tbl_schema T1) c x = is_true rx (tbl_interner T) (tbl_schema T) c x"
    "cond_total rx (tbl_interner T1) (tbl_schema T1) c x" if "x \<in> set rs" for x
    using Cons.prems(2) [of x] that grown_record [OF nf(3)] nf(1) by (simp_all add: is_true_def cond_total_def)
  obtain T2 where f: "sfilter (holds_for rx c) rs T1 = (Inr (filter (is_true rx (tbl_interner T1) (tbl_schema T1) c) rs), T2)"
    "no_change (length rs * cond_weight c) T1 T2" using Cons.IH [OF nf(6) [OF rm(2)]] same by blast
  have "filter (is_true rx (tbl_interner T1) (tbl_schema T1) c) rs = filter (is_true rx (tbl_interner T) (tbl_schema T) c) rs"
    using same(2) by (intro filter_cong) auto
  moreover have "no_change (length (r # rs) * cond_weight c) T T2" using no_change_trans [OF h(2) f(2)] by simp
  ultimately show ?case using h(1) f(1) by (auto simp: sbind_def st_simps_basic)
qed

lemma covers_subset: "covers P all rs \<Longrightarrow> set rs \<subseteq> set all \<and> length rs \<le> length all"
  by (auto simp: covers_def)

text \<open>The records of a statement: those on which its condition is true, however they are found.\<close>

lemma MatchingRecords_sem:
  assumes T: "table_rep T R A L" and c: "cond_ok (tbl_schema T) c"
    and rm: "room ((length (all_records R A (record_id_count (tbl_schema T))) + 1) * cond_weight c) (tbl_interner T)"
    and total: "\<And>r. r \<in> set (all_records R A (record_id_count (tbl_schema T))) \<Longrightarrow> cond_total rx (tbl_interner T) (tbl_schema T) c r"
  shows "\<exists>T'. MatchingRecords rx (Some c) T =
      (Inr (filter (is_true rx (tbl_interner T) (tbl_schema T) c) (all_records R A (record_id_count (tbl_schema T)))), T') \<and>
    no_change ((length (all_records R A (record_id_count (tbl_schema T))) + 1) * cond_weight c) T T'"
proof -
  let ?all = "all_records R A (record_id_count (tbl_schema T))" and ?P = "is_true rx (tbl_interner T) (tbl_schema T) c"
  have rm1: "room (cond_weight c) (tbl_interner T)" "room (length ?all * cond_weight c + cond_weight c) (tbl_interner T)"
    using rm room_mono by (simp_all add: add.commute)
  obtain found T1 where f: "IndexedRecords c T = (Inr found, T1)" "no_change (cond_weight c) T T1"
    "found = None \<or> (\<exists>rs. found = Some rs \<and> covers ?P ?all rs)" using IndexedRecords_covers [OF T c rm1(1)] by blast
  note nf = no_change_facts [OF f(2)]
  have T1: "table_rep T1 R A L" by (rule nf(4) [OF T])
  obtain rs where rs: "RecordsFor (Some c) T = (Inr rs, T1)" "covers ?P ?all rs"
  proof (cases found)
    case None
    have "covers ?P ?all ?all" unfolding covers_def by (intro exI [of _ "\<lambda>_. True"]) simp
    then show thesis using that [of ?all] f(1) None records_all [OF T1] nf(1) by (simp add: RecordsFor_def sbind_def tquery_def)
  next
    case (Some rs)
    then show thesis using that [of rs] f(1,3) by (simp add: RecordsFor_def sbind_def st_simps_basic)
  qed
  have sub: "set rs \<subseteq> set ?all" "length rs \<le> length ?all" using covers_subset [OF rs(2)] by simp_all
  have rm2: "room (length rs * cond_weight c) (tbl_interner T1)"
    using room_mono [OF nf(6) [OF rm1(2)]] sub(2) by simp
  have kn: "known_record (tbl_interner T1) r" "is_true rx (tbl_interner T1) (tbl_schema T1) c r = ?P r"
    "cond_total rx (tbl_interner T1) (tbl_schema T1) c r" if "r \<in> set rs" for r
    using all_known(1) [OF T, of r] total [of r] that sub(1) grown_record [OF nf(3)] nf(1)
    by (auto simp: is_true_def cond_total_def)
  obtain T2 where g: "sfilter (holds_for rx c) rs T1 = (Inr (filter (is_true rx (tbl_interner T1) (tbl_schema T1) c) rs), T2)"
    "no_change (length rs * cond_weight c) T1 T2" using filter_records [OF rm2] kn by blast
  have "filter (is_true rx (tbl_interner T1) (tbl_schema T1) c) rs = filter ?P rs" using kn(2) by (intro filter_cong) auto
  also have "\<dots> = filter ?P ?all" by (rule covers_filter [OF rs(2)])
  finally have "MatchingRecords rx (Some c) T = (Inr (filter ?P ?all), T2)"
    using rs(1) g(1) by (simp add: MatchingRecords_def sbind_def)
  moreover have "no_change ((length ?all + 1) * cond_weight c) T T2"
    using no_change_mono [OF no_change_trans [OF f(2) g(2)]] sub(2) by simp
  ultimately show ?thesis by blast
qed

section \<open>DELETE\<close>

text \<open>Deleting records one after the other takes their rows, and logs each.\<close>

fun deletions :: "(nat \<Rightarrow> string) \<Rightarrow> nat \<Rightarrow> db_record list \<Rightarrow> rows \<Rightarrow> 32 word \<Rightarrow> moment list \<Rightarrow> moment list" where
  "deletions clock n [] R c H = H"
| "deletions clock n (r # rs) R c H = deletions clock (n + 1) rs (R(rec_id r := None)) c ((clock n, R, c) # H)"

lemma delete_records:
  assumes "table_at T R H" "\<exists>A. table_rep T R A 1 \<and> (\<forall>r \<in> set rs. \<exists>k vs a. R k = Some vs \<and> A k = Some a \<and> r = SetAddress (mk_record k vs) a)"
    and "distinct (map rec_id rs)"
  shows "\<exists>T'. delete_multiple rs T = (Inr (), T') \<and> table_at T' (R |` (- rec_id ` set rs))
      (deletions (tbl_clock T) (tbl_now T) rs R (record_id_count (tbl_schema T)) H) \<and>
    tbl_schema T' = tbl_schema T \<and> tbl_interner T' = tbl_interner T"
  using assms
proof (induction rs arbitrary: T R H)
  case Nil
  then show ?case by (auto simp: delete_multiple_def st_simps_basic restrict_map_def)
next
  case (Cons r rs)
  obtain A where A: "table_rep T R A 1" "\<forall>r \<in> set (r # rs). \<exists>k vs a. R k = Some vs \<and> A k = Some a \<and> r = SetAddress (mk_record k vs) a"
    using Cons.prems(2) by blast
  then obtain k vs a where k: "R k = Some vs" "A k = Some a" "r = SetAddress (mk_record k vs) a" by auto
  obtain T1 where d: "Table_delete_record r T = (Inr (), T1)" "table_rep T1 (R(k := None)) (A(k := None)) 1"
    "parts_changed (with_track INSERT_TRACK k (payload vs) T) T1" using delete_row [OF A(1) k(1,2)] k(3) by blast
  note pc = parts_changed_facts [OF d(3)]
  have at: "table_at T1 (R(k := None)) ((tbl_clock T (tbl_now T), R, record_id_count (tbl_schema T)) # H)"
    by (rule push_delete [OF Cons.prems(1) k(1) d(2,3)])
  have "\<exists>A. table_rep T1 (R(k := None)) A 1 \<and>
      (\<forall>x \<in> set rs. \<exists>q us b. (R(k := None)) q = Some us \<and> A q = Some b \<and> x = SetAddress (mk_record q us) b)"
  proof (intro exI [of _ "A(k := None)"] conjI ballI)
    show "table_rep T1 (R(k := None)) (A(k := None)) 1" by (rule d(2))
    fix x assume x: "x \<in> set rs"
    then obtain q us b where q: "R q = Some us" "A q = Some b" "x = SetAddress (mk_record q us) b" using A(2) by auto
    have "q \<noteq> k" using Cons.prems(3) x q(3) k(3) by (auto simp: image_iff)
    then show "\<exists>q us b. (R(k := None)) q = Some us \<and> (A(k := None)) q = Some b \<and> x = SetAddress (mk_record q us) b"
      using q by auto
  qed
  moreover have "distinct (map rec_id rs)" using Cons.prems(3) by simp
  ultimately obtain T' where r: "delete_multiple rs T1 = (Inr (), T')"
    "table_at T' ((R(k := None)) |` (- rec_id ` set rs)) (deletions (tbl_clock T1) (tbl_now T1) rs (R(k := None))
      (record_id_count (tbl_schema T1)) ((tbl_clock T (tbl_now T), R, record_id_count (tbl_schema T)) # H))"
    "tbl_schema T' = tbl_schema T1" "tbl_interner T' = tbl_interner T1" using Cons.IH [OF at] by blast
  have "(R(k := None)) |` (- rec_id ` set rs) = R |` (- rec_id ` set (r # rs))"
    using k(3) by (auto simp: restrict_map_def fun_eq_iff)
  then show ?case using d(1) r pc k(3)
    by (auto simp: delete_multiple_def sbind_def with_track_def)
qed

end
