(* ===== verification/Table_Properties.thy ===== *)
theory Table_Properties
  imports Table_Machine Query_Facts
begin

text \<open>
  The properties of tables: every operation refines the change of a map from identifiers to rows that
  its name promises, the journal takes the table back in time, a restart changes nothing, and the
  records of a statement do not depend on the indexes. The examples live in a new table with one
  indexed \<open>INT\<close> column.
\<close>

section \<open>An example\<close>

definition sample_column :: column where
  "sample_column = \<lparr>col_name = ''a'', col_type = INT_COLUMN, col_flags = 3, col_default = DEFAULT_NONE,
     col_default_int = 0, col_default_string = []\<rparr>"

definition sample_schema :: schema where
  "sample_schema = \<lparr>columns = [sample_column], record_id_count = 0\<rparr>"

definition sample_clock :: "nat \<Rightarrow> string" where
  "sample_clock n = replicate 23 CHR ''0''"

definition no_match :: regex where
  "no_match pat text = Inr False"

definition no_address :: record_address where
  "no_address = \<lparr>page_index = 0, slot_idx = 0\<rparr>"

definition empty_node :: "'k \<Rightarrow> ('k, record_address) node" where
  "empty_node k = \<lparr>node_id = 0, is_leaf = False, keys_size = 0, deleted = False,
     ikeys = replicate (PHYS_KEYS_INTERNAL index_geometry) k, ichildren = replicate (CHILDREN_SIZE index_geometry) 0,
     lkeys = replicate (PHYS_SIZE_LEAF index_geometry) k, lvals = replicate (PHYS_SIZE_LEAF index_geometry) no_address,
     next_leaf = 0\<rparr>"

definition sample_files :: table_files where
  "sample_files = \<lparr>data_file = None, schema_file = None, strings_file = None, journal_bytes = None, ids_file = None,
     index_trees = \<lparr>int_index_files = Map.empty, string_index_files = Map.empty, int_garbage = \<lambda>_. empty_node 0,
       string_garbage = \<lambda>_. empty_node (StringId 0)\<rparr>,
     ids_garbage = \<lambda>_. empty_node 0, metadata_junk = []\<rparr>"

lemma empty_node_valid: "valid index_geometry (new_tree (\<lambda>_. empty_node k))"
  by (simp add: valid_def new_tree_def empty_node_def)

lemma sample_files_empty: "empty_directory sample_files"
  by (simp add: empty_directory_def sample_files_def empty_node_valid)

lemma sample_column_facts:
  "IsIndexed sample_column" "IsNotNull sample_column" "Column_IsInt sample_column" "\<not> Column_IsString sample_column"
  "col_name sample_column = ''a''"
  by (simp_all add: sample_column_def IsIndexed_def IsNotNull_def INDEXED_FLAG_def NOT_NULL_FLAG_def Column_IsInt_def
      Column_IsString_def)

lemma sample_schema_facts: "schema_sound sample_schema" "schema_wf sample_schema"
proof -
  show wf: "schema_wf sample_schema"
    by (simp add: schema_wf_def sample_schema_def column_checked_def sample_column_facts)
      (simp add: sample_column_def column_storable_def ValidateDefault_def MAX_SERIALIZED_STRING_SIZE_def)
  obtain b where "Schema_ToBinary sample_schema = Some b" using Schema_reload [OF wf] by blast
  then have "columns_to_binary (columns sample_schema) \<noteq> None" by (auto simp: Schema_ToBinary_def)
  then show "schema_sound sample_schema"
    by (simp add: schema_sound_def sample_schema_def column_sound_def sample_column_facts MAX_RECORD_SIZE_def layout_defs)
qed

definition sample_table :: "table \<Rightarrow> bool" where
  "sample_table T \<longleftrightarrow> durable T \<and> columns (tbl_schema T) = [sample_column] \<and> tbl_clock T = sample_clock \<and>
     pager_total (tbl_pager T) \<le> 2 \<and> string_storage (tbl_interner T) = []"

lemma sample_new: "\<exists>T. sample_table T \<and> table_at T Map.empty [] \<and> record_id_count (tbl_schema T) = 0 \<and> pager_total (tbl_pager T) = 1"
proof -
  have cl: "\<forall>n. length (sample_clock n) = TIME_LEN" by (simp add: sample_clock_def TIME_LEN_def)
  have c0: "record_id_count sample_schema = 0" by (simp add: sample_schema_def)
  obtain T where T: "table_at T Map.empty []" "durable T" "columns (tbl_schema T) = columns sample_schema"
    "record_id_count (tbl_schema T) = 0" "pager_total (tbl_pager T) = 1" "string_storage (tbl_interner T) = []"
    "tbl_clock T = sample_clock"
    using create_table_at [OF sample_files_empty sample_schema_facts c0 cl, of "''t''" new_interner] by blast
  then show ?thesis by (intro exI [of _ T]) (simp add: sample_table_def sample_schema_def)
qed

lemma sample_row: "row_typed [sample_column] [VInt w]"
  by (simp add: row_typed_def value_fits_def sample_column_facts)

lemma table_at_rep: "table_at T R H \<Longrightarrow> \<exists>A. table_rep T R A 1"
  by (auto simp: table_at_def)

text \<open>INSERT by position, as it is used below.\<close>

lemma insert_at:
  assumes at: "table_at T R H" and c: "record_id_count (tbl_schema T) = c"
    and vs: "length vs = schema_size T" "\<forall>v \<in> set vs. known_value (tbl_interner T) v"
    and room: "card (dom R) < LEAF_KEYS" "pager_total (tbl_pager T) + 1 < 2 ^ 32" "unat c + 1 < 2 ^ 32"
  shows "row_typed (columns (tbl_schema T)) vs \<Longrightarrow> fresh_values (columns (tbl_schema T)) R c vs \<Longrightarrow>
      \<exists>a T'. Table_insert_record vs [] T = (Inr (SetAddress (mk_record c vs) a), T') \<and>
        table_at T' (R(c \<mapsto> vs)) ((tbl_clock T (tbl_now T), R, c) # H) \<and>
        parts_changed (counted (with_track DELETE_TRACK c [] T)) T'"
    and "\<not> (row_typed (columns (tbl_schema T)) vs \<and> fresh_values (columns (tbl_schema T)) R c vs) \<Longrightarrow>
      \<exists>msg. Table_insert_record vs [] T = (Inl (Runtime_Error msg), T)"
proof -
  obtain A where A: "table_rep T R A 1" using table_at_rep [OF at] by blast
  have one: "(1::nat) \<le> ROOT_KEYS" by (simp add: ROOT_KEYS_def)
  note ins = insert_made [OF make_by_position [OF vs(1)] A c c, unfolded mk_record_fields c, OF refl refl vs one room(2,3)]
  show "\<exists>msg. Table_insert_record vs [] T = (Inl (Runtime_Error msg), T)"
    if "\<not> (row_typed (columns (tbl_schema T)) vs \<and> fresh_values (columns (tbl_schema T)) R c vs)"
    using ins(2) that by blast
  assume "row_typed (columns (tbl_schema T)) vs" "fresh_values (columns (tbl_schema T)) R c vs"
  then obtain a T' where i: "Table_insert_record vs [] T = (Inr (SetAddress (mk_record c vs) a), T')"
    "table_rep T' (R(c \<mapsto> vs)) (A(c \<mapsto> a)) (more_leaves R 1)" "parts_changed (counted (with_track DELETE_TRACK c [] T)) T'"
    using ins(1) by blast
  have "more_leaves R 1 = 1" using room(1) by (simp add: more_leaves_def)
  then show "\<exists>a T'. Table_insert_record vs [] T = (Inr (SetAddress (mk_record c vs) a), T') \<and>
      table_at T' (R(c \<mapsto> vs)) ((tbl_clock T (tbl_now T), R, c) # H) \<and>
      parts_changed (counted (with_track DELETE_TRACK c [] T)) T'"
    using i push_insert [OF at c room(1) _ i(3)] by metis
qed

definition sample_rows :: rows where "sample_rows = [0 \<mapsto> [VInt 5]]"

definition sample_past :: "moment list" where "sample_past = [(sample_clock 0, Map.empty, 0)]"

lemma sample_filled: "\<exists>T. sample_table T \<and> table_at T sample_rows sample_past \<and> record_id_count (tbl_schema T) = 1"
proof -
  obtain T where T: "sample_table T" "table_at T Map.empty []" "record_id_count (tbl_schema T) = 0" "pager_total (tbl_pager T) = 1"
    using sample_new by blast
  have cs: "columns (tbl_schema T) = [sample_column]" using T(1) by (simp add: sample_table_def)
  obtain a T' where i: "table_at T' (Map.empty(0 \<mapsto> [VInt 5])) ((tbl_clock T (tbl_now T), Map.empty, 0) # [])"
    "parts_changed (counted (with_track DELETE_TRACK 0 [] T)) T'"
    using insert_at(1) [OF T(2,3), of "[VInt 5]"] cs T(4) sample_row by (auto simp: LEAF_KEYS_def fresh_values_def)
  note pc = parts_changed_facts [OF i(2)]
  have "durable T'" using durable_counted [OF _ i(2)] T(1) by (simp add: sample_table_def)
  moreover have "record_id_count (tbl_schema T') = 1" "columns (tbl_schema T') = [sample_column]" "tbl_clock T' = sample_clock"
    "pager_total (tbl_pager T') \<le> 2" "string_storage (tbl_interner T') = []"
    using pc T by (simp_all add: counted_def with_track_def IncrementRecordIdCount_def sample_table_def)
  moreover have "tbl_clock T (tbl_now T) = sample_clock 0" using T(1) by (simp add: sample_table_def sample_clock_def)
  ultimately show ?thesis using i(1) by (auto simp: sample_table_def sample_rows_def sample_past_def)
qed


section \<open>Rows coming, changing, going\<close>

text \<open>
  C1: \<open>insert_record\<close> refines the update of the map from identifiers to rows. The row gets the next
  identifier; the table, its trees and its journal then represent the larger map with one more moment
  of history. A row of the wrong types, or with a value that an indexed column already has, is
  refused with a \<open>runtime_error\<close> and leaves the table as it was.
\<close>

theorem insert_refines_map_update:
  assumes "table_at T R H" "record_id_count (tbl_schema T) = c"
    and "length vs = length (columns (tbl_schema T))" "\<forall>v \<in> set vs. known_value (tbl_interner T) v"
    and "card (dom R) < 337" "pager_total (tbl_pager T) + 1 < 2 ^ 32" "unat c + 1 < 2 ^ 32"
  shows "if row_typed (columns (tbl_schema T)) vs \<and> fresh_values (columns (tbl_schema T)) R c vs
    then \<exists>a T'. Table_insert_record vs [] T = (Inr (SetAddress (mk_record c vs) a), T') \<and>
      table_at T' (R(c \<mapsto> vs)) ((tbl_clock T (tbl_now T), R, c) # H) \<and>
      record_id_count (tbl_schema T') = c + 1 \<and> read_by_id T' c = Inr (Some (SetAddress (mk_record c vs) a))
    else \<exists>msg. Table_insert_record vs [] T = (Inl (Runtime_Error msg), T)"
proof -
  have small: "card (dom R) < LEAF_KEYS" using assms(5) by (simp add: LEAF_KEYS_def)
  note ins = insert_at [OF assms(1-4) small assms(6,7)]
  show ?thesis
  proof (cases "row_typed (columns (tbl_schema T)) vs \<and> fresh_values (columns (tbl_schema T)) R c vs")
    case True
    then obtain a T' where i: "Table_insert_record vs [] T = (Inr (SetAddress (mk_record c vs) a), T')"
      "table_at T' (R(c \<mapsto> vs)) ((tbl_clock T (tbl_now T), R, c) # H)"
      "parts_changed (counted (with_track DELETE_TRACK c [] T)) T'" using ins(1) by blast
    obtain A' where A': "table_rep T' (R(c \<mapsto> vs)) A' 1" using table_at_rep [OF i(2)] by blast
    obtain A where A: "table_rep T R A 1" using table_at_rep [OF assms(1)] by blast
    obtain a2 T2 where s: "Table_insert_record vs [] T = (Inr (SetAddress (mk_record c vs) a2), T2)"
      "table_rep T2 (R(c \<mapsto> vs)) (A(c \<mapsto> a2)) (more_leaves R 1)"
      using insert_made(1) [OF make_by_position [OF assms(3)] A assms(2,2), unfolded mk_record_fields assms(2),
          OF refl refl assms(3,4) _ assms(6,7) True] by (auto simp: ROOT_KEYS_def)
    have "T2 = T'" "SetAddress (mk_record c vs) a2 = SetAddress (mk_record c vs) a" using s(1) i(1) by simp_all
    then have "read_by_id T' c = Inr (Some (SetAddress (mk_record c vs) a))" using read_by_id_row [OF s(2), of c] by simp
    moreover have "record_id_count (tbl_schema T') = c + 1"
      using parts_changed_facts(1) [OF i(3)] assms(2) by (simp add: counted_def with_track_def IncrementRecordIdCount_def)
    ultimately show ?thesis using True i by auto
  next
    case False
    show ?thesis unfolding if_not_P [OF False] by (rule ins(2) [OF False])
  qed
qed

theorem insert_refines_map_update_witness:
  "\<exists>T a T' U msg. table_at T Map.empty [] \<and> Table_insert_record [VInt 5] [] T = (Inr (SetAddress (mk_record 0 [VInt 5]) a), T') \<and>
    read_by_id T' 0 = Inr (Some (SetAddress (mk_record 0 [VInt 5]) a)) \<and>
    table_at U sample_rows sample_past \<and> Table_insert_record [VInt 5] [] U = (Inl (Runtime_Error msg), U)"
proof -
  obtain T where T: "sample_table T" "table_at T Map.empty []" "record_id_count (tbl_schema T) = 0" using sample_new by blast
  then have cs: "columns (tbl_schema T) = [sample_column]" "pager_total (tbl_pager T) \<le> 2" by (simp_all add: sample_table_def)
  obtain a T' where i: "Table_insert_record [VInt 5] [] T = (Inr (SetAddress (mk_record 0 [VInt 5]) a), T')"
    "read_by_id T' 0 = Inr (Some (SetAddress (mk_record 0 [VInt 5]) a))"
    using insert_refines_map_update [OF T(2,3), of "[VInt 5]"] cs sample_row by (auto simp: fresh_values_def)
  obtain U where U: "sample_table U" "table_at U sample_rows sample_past" "record_id_count (tbl_schema U) = 1" using sample_filled by blast
  then have cu: "columns (tbl_schema U) = [sample_column]" "pager_total (tbl_pager U) \<le> 2" by (simp_all add: sample_table_def)
  have "\<not> fresh_values [sample_column] sample_rows 1 [VInt 5]"
    by (auto simp: fresh_values_def sample_rows_def sample_column_facts)
  then obtain msg where "Table_insert_record [VInt 5] [] U = (Inl (Runtime_Error msg), U)"
    using insert_refines_map_update [OF U(2,3), of "[VInt 5]"] cu by (auto simp: sample_rows_def)
  then show ?thesis using T(2) i U(2) by blast
qed

text \<open>
  C8: an \<open>INSERT\<close> that names its columns gives every named column its value (the last one, if a name
  is repeated) and every other column its default: nothing or \<open>NULL\<close> is \<open>NULL\<close>, an integer default is
  that integer, a string default is a string whose text is the default. The record has the requested
  identifier and as many values as the table has columns, and the table's rows stay as they were.
\<close>

theorem make_record_by_name:
  assumes "names \<noteq> []" "length vs = length names" "set names \<subseteq> set (map col_name (columns (tbl_schema T)))"
    and "schema_sound (tbl_schema T)" "room (length (columns (tbl_schema T))) (tbl_interner T)"
    and "\<forall>v \<in> set vs. known_value (tbl_interner T) v" "table_at T R H"
  shows "\<exists>r T'. make_record rid vs names T = (Inr r, T') \<and> rec_id r = rid \<and> rec_addr r = None \<and>
    list_all2 (value_given names vs (tbl_interner T')) (columns (tbl_schema T)) (rec_fields r) \<and> table_at T' R H"
proof -
  obtain r it where m: "make_record rid vs names T = (Inr r, T\<lparr>tbl_interner := it\<rparr>)"
    "grown (length (columns (tbl_schema T))) (tbl_interner T) it" "rec_id r = rid" "rec_addr r = None"
    "length (rec_fields r) = length (columns (tbl_schema T))"
    "\<forall>i < length (columns (tbl_schema T)). value_given names vs it (columns (tbl_schema T) ! i) (rec_fields r ! i)"
    using make_by_name [OF assms(1-6), of rid] by blast
  then show ?thesis using grown_table(2) [OF m(2) assms(7)] by (auto simp: list_all2_conv_all_nth)
qed

theorem make_record_by_name_witness:
  "\<exists>T r T'. table_at T sample_rows sample_past \<and> make_record 1 [VInt 7] [''a''] T = (Inr r, T') \<and>
     value_given [''a''] [VInt 7] (tbl_interner T') sample_column (rec_fields r ! 0)"
proof -
  obtain T where T: "sample_table T" "table_at T sample_rows sample_past" using sample_filled by blast
  obtain A where A: "table_rep T sample_rows A 1" using table_at_rep [OF T(2)] by blast
  have cs: "columns (tbl_schema T) = [sample_column]" using T(1) by (simp add: sample_table_def)
  have rm: "room (length (columns (tbl_schema T))) (tbl_interner T)"
    using table_repD(1) [OF A] T(1) cs by (simp add: room_def sample_table_def)
  have nm: "set [''a''] \<subseteq> set (map col_name (columns (tbl_schema T)))" using cs by (simp add: sample_column_facts)
  obtain r T' where "make_record 1 [VInt 7] [''a''] T = (Inr r, T')"
    "list_all2 (value_given [''a''] [VInt 7] (tbl_interner T')) (columns (tbl_schema T)) (rec_fields r)"
    using make_record_by_name [OF _ _ nm table_repD(2) [OF A] rm _ T(2), of "[VInt 7]" 1] by auto
  then show ?thesis using T(2) cs by (auto simp: list_all2_Cons1)
qed

text \<open>
  C13: \<open>update_record\<close> refines the update of the map at the record's identifier. A record that was read
  from the table, with new values of the right types that no other row has in an indexed column,
  replaces its row, wherever on the pages it ends up; any other is refused and changes nothing.
\<close>

theorem update_refines_map_update:
  assumes "table_at T R H" "R k = Some ws" "read_by_id T k = Inr (Some r)"
    and "length vs = length (columns (tbl_schema T))" "\<forall>v \<in> set vs. known_value (tbl_interner T) v"
    and "pager_total (tbl_pager T) + 1 < 2 ^ 32"
  shows "if row_typed (columns (tbl_schema T)) vs \<and> fresh_values (columns (tbl_schema T)) R k vs
    then \<exists>r' T'. update_record (r\<lparr>rec_fields := vs\<rparr>) T = (Inr r', T') \<and> rec_fields r' = vs \<and>
      table_at T' (R(k \<mapsto> vs)) ((tbl_clock T (tbl_now T), R, record_id_count (tbl_schema T)) # H) \<and>
      record_id_count (tbl_schema T') = record_id_count (tbl_schema T)
    else \<exists>msg. update_record (r\<lparr>rec_fields := vs\<rparr>) T = (Inl (Runtime_Error msg), T)"
proof -
  obtain A where A: "table_rep T R A 1" using table_at_rep [OF assms(1)] by blast
  have "k \<in> dom A" using assms(2) table_repD(7) [OF A] by auto
  then obtain a where a: "A k = Some a" by blast
  have r: "r = SetAddress (mk_record k ws) a" using read_by_id_row [OF A, of k] assms(2,3) a by simp
  have small: "card (dom R) \<le> LEAF_KEYS" using assms(1) by (simp add: table_at_def)
  let ?r = "r\<lparr>rec_fields := vs\<rparr>"
  have f: "rec_id ?r = k" "rec_addr ?r = Some a" "rec_fields ?r = vs" using r by simp_all
  note upd = update_row [OF A assms(2) a f(1,2), unfolded f(3), OF assms(4,5) small assms(6)]
  show ?thesis
  proof (cases "row_typed (columns (tbl_schema T)) vs \<and> fresh_values (columns (tbl_schema T)) R k vs")
    case True
    then obtain b T' where u: "update_record ?r T = (Inr (SetAddress ?r b), T')" "table_rep T' (R(k \<mapsto> vs)) (A(k \<mapsto> b)) 1"
      "parts_changed (with_track UPDATE_TRACK k (payload ws) T) T'" using upd(1) by blast
    have "record_id_count (tbl_schema T') = record_id_count (tbl_schema T)"
      using parts_changed_facts(1) [OF u(3)] by (simp add: with_track_def)
    then show ?thesis using True u(1) push_update [OF assms(1,2) u(2,3)] f(3) by auto
  next
    case False
    show ?thesis unfolding if_not_P [OF False] by (rule upd(2) [OF False])
  qed
qed

theorem update_refines_map_update_witness:
  "\<exists>T r r' T'. table_at T sample_rows sample_past \<and> read_by_id T 0 = Inr (Some r) \<and>
     update_record (r\<lparr>rec_fields := [VInt 8]\<rparr>) T = (Inr r', T') \<and> rec_fields r' = [VInt 8]"
proof -
  obtain T where T: "sample_table T" "table_at T sample_rows sample_past" using sample_filled by blast
  obtain A where A: "table_rep T sample_rows A 1" using table_at_rep [OF T(2)] by blast
  have cs: "columns (tbl_schema T) = [sample_column]" "pager_total (tbl_pager T) \<le> 2" using T(1) by (simp_all add: sample_table_def)
  obtain r where r: "read_by_id T 0 = Inr (Some r)" using read_by_id_row [OF A, of 0] by (simp add: sample_rows_def)
  have "fresh_values [sample_column] sample_rows 0 [VInt 8]" by (auto simp: fresh_values_def sample_rows_def)
  moreover have "sample_rows 0 = Some [VInt 5]" by (simp add: sample_rows_def)
  ultimately show ?thesis
    using update_refines_map_update [OF T(2) _ r, of "[VInt 5]" "[VInt 8]"] cs sample_row T(2) r by fastforce
qed


section \<open>Queries\<close>

text \<open>
  C4: the records of a statement do not depend on the indexes. \<open>MatchingRecords\<close> may look a value up in
  an index or scan the table; either way it returns, in the order of the identifiers, exactly the
  records of the full scan on which the condition is true in the sense of SQL, and leaves the rows as
  they are. This holds for every condition that has a truth value on every record.
\<close>

theorem matching_records_are_the_true_ones:
  assumes "table_at T R H" "records T = Inr rs" "cond_ok (tbl_schema T) c"
    and "room ((length rs + 1) * cond_weight c) (tbl_interner T)"
    and "\<forall>r \<in> set rs. cond_total rx (tbl_interner T) (tbl_schema T) c r"
  shows "\<exists>T'. MatchingRecords rx (Some c) T =
      (Inr (filter (\<lambda>r. sql_sem rx (row_of (tbl_interner T) (tbl_schema T) r) c = Some SqlTrue) rs), T') \<and> table_at T' R H"
proof -
  obtain A where A: "table_rep T R A 1" using table_at_rep [OF assms(1)] by blast
  have rs: "rs = all_records R A (record_id_count (tbl_schema T))" using records_all [OF A] assms(2) by simp
  obtain T' where m: "MatchingRecords rx (Some c) T =
      (Inr (filter (is_true rx (tbl_interner T) (tbl_schema T) c) rs), T')" "no_change ((length rs + 1) * cond_weight c) T T'"
    using MatchingRecords_sem [OF A assms(3)] assms(4,5) unfolding rs by blast
  have "is_true rx (tbl_interner T) (tbl_schema T) c = (\<lambda>r. sql_sem rx (row_of (tbl_interner T) (tbl_schema T) r) c = Some SqlTrue)"
    by (simp add: is_true_def fun_eq_iff)
  then show ?thesis using m no_change_facts(5) [OF m(2) assms(1)] by auto
qed

definition sample_condition :: condition where
  "sample_condition = ComparisonCondition (IdentifierExpr ''a'') OpEqual (LiteralExpr (Literal IntegerLit ''5''))"

lemma stoi_5: "stoi ''5'' = Inr 5"
  by (simp add: stoi_def stoi_sign_def is_space_def IsDigit_def digits_value_def byte_in_def)

lemma sample_query:
  assumes "sample_table T" "table_at T sample_rows sample_past" "record_id_count (tbl_schema T) = 1"
  shows "\<exists>a. records T = Inr [SetAddress (mk_record 0 [VInt 5]) a]" "cond_ok (tbl_schema T) sample_condition"
    and "rec_fields r = [VInt 5] \<Longrightarrow>
      sql_sem rx (row_of (tbl_interner T) (tbl_schema T) r) sample_condition = Some SqlTrue"
    and "room 100 (tbl_interner T)"
proof -
  have cs: "columns (tbl_schema T) = [sample_column]" using assms(1) by (simp add: sample_table_def)
  obtain A where A: "table_rep T sample_rows A 1" using table_at_rep [OF assms(2)] by blast
  have "0 \<in> dom A" using table_repD(7) [OF A] by (simp add: sample_rows_def)
  then obtain a where a: "A 0 = Some a" by blast
  have "all_records sample_rows A 1 = [SetAddress (mk_record 0 [VInt 5]) a]"
    using a by (simp add: all_records_def map_filter_simps row_record_def sample_rows_def)
  then show "\<exists>a. records T = Inr [SetAddress (mk_record 0 [VInt 5]) a]" using records_all [OF A] assms(3) by auto
  show "cond_ok (tbl_schema T) sample_condition"
    using cs by (simp add: sample_condition_def sample_column_facts stoi_5)
  show "sql_sem rx (row_of (tbl_interner T) (tbl_schema T) r) sample_condition = Some SqlTrue" if "rec_fields r = [VInt 5]"
    using that cs by (simp add: sample_condition_def stoi_5 row_of_def ColumnIndex_def sample_column_facts)
  show "room 100 (tbl_interner T)" using table_repD(1) [OF A] assms(1) by (simp add: room_def sample_table_def)
qed

theorem matching_records_are_the_true_ones_witness:
  "\<exists>T a T'. table_at T sample_rows sample_past \<and>
    MatchingRecords no_match (Some sample_condition) T = (Inr [SetAddress (mk_record 0 [VInt 5]) a], T')"
proof -
  obtain T where T: "sample_table T" "table_at T sample_rows sample_past" "record_id_count (tbl_schema T) = 1"
    using sample_filled by blast
  obtain a where a: "records T = Inr [SetAddress (mk_record 0 [VInt 5]) a]" using sample_query(1) [OF T] by blast
  note q = sample_query(2-4) [OF T]
  have "\<forall>r \<in> set [SetAddress (mk_record 0 [VInt 5]) a]. cond_total no_match (tbl_interner T) (tbl_schema T) sample_condition r"
    using q(2) [of _ no_match] by (simp add: cond_total_def) (simp add: sample_condition_def)
  then obtain T' where "MatchingRecords no_match (Some sample_condition) T = (Inr (filter (\<lambda>r. sql_sem no_match
      (row_of (tbl_interner T) (tbl_schema T) r) sample_condition = Some SqlTrue) [SetAddress (mk_record 0 [VInt 5]) a]), T')"
    using matching_records_are_the_true_ones [OF T(2) a q(1), of no_match] room_mono [OF q(3)] by (auto simp: sample_condition_def)
  then show ?thesis using T(2) q(2) [of _ no_match] by auto
qed

text \<open>
  C9: a \<open>DELETE\<close> statement removes exactly the rows on which its condition is true, keeps the others,
  logs every removal, and answers with the number of rows removed.
\<close>

theorem delete_statement_removes_the_true_rows:
  assumes "table_at T R H" "records T = Inr rs" "cond_ok (tbl_schema T) c"
    and "room ((length rs + 1) * cond_weight c) (tbl_interner T)"
    and "\<forall>r \<in> set rs. cond_total rx (tbl_interner T) (tbl_schema T) c r"
  defines "gone \<equiv> filter (\<lambda>r. sql_sem rx (row_of (tbl_interner T) (tbl_schema T) r) c = Some SqlTrue) rs"
  shows "\<exists>T' H'. Execute rx (DeleteStmt t (Some c)) T = (Inr (affected ''Rows deleted'' (length gone)), T') \<and>
    table_at T' (\<lambda>k. if k \<in> rec_id ` set gone then None else R k) (H' @ H) \<and> length H' = length gone"
proof -
  obtain A where A: "table_rep T R A 1" using table_at_rep [OF assms(1)] by blast
  have rs: "rs = all_records R A (record_id_count (tbl_schema T))" using records_all [OF A] assms(2) by simp
  have gone: "gone = filter (is_true rx (tbl_interner T) (tbl_schema T) c) rs"
    unfolding gone_def by (intro filter_cong) (simp_all add: is_true_def)
  obtain T1 where m: "MatchingRecords rx (Some c) T = (Inr gone, T1)" "no_change ((length rs + 1) * cond_weight c) T T1"
    using MatchingRecords_sem [OF A assms(3)] assms(4,5) unfolding rs gone by blast
  note nc = no_change_facts [OF m(2)]
  have "\<forall>r \<in> set gone. \<exists>k vs a. R k = Some vs \<and> A k = Some a \<and> r = SetAddress (mk_record k vs) a"
    using all_records_set [OF A] by (auto simp: gone rs)
  moreover have "distinct (map rec_id gone)" unfolding gone rs using all_records_distinct by (intro distinct_map_filter)
  ultimately obtain T' where d: "delete_multiple gone T1 = (Inr (), T')"
    "table_at T' (R |` (- rec_id ` set gone)) (deletions (tbl_clock T1) (tbl_now T1) gone R (record_id_count (tbl_schema T1)) H)"
    using delete_records [OF nc(5) [OF assms(1)]] nc(4) [OF A] by blast
  have "\<exists>H'. deletions clock n us Q q J = H' @ J \<and> length H' = length us" for clock n us Q q J
  proof (induction us arbitrary: n Q J)
    case (Cons u us)
    then obtain H' where "deletions clock (n + 1) us (Q(rec_id u := None)) q ((clock n, Q, q) # J) = H' @ (clock n, Q, q) # J"
      "length H' = length us" by blast
    then show ?case by (intro exI [of _ "H' @ [(clock n, Q, q)]"]) simp
  qed simp
  then obtain H' where H': "deletions (tbl_clock T1) (tbl_now T1) gone R (record_id_count (tbl_schema T1)) H = H' @ H" "length H' = length gone"
    by blast
  have left: "R |` (- rec_id ` set gone) = (\<lambda>k. if k \<in> rec_id ` set gone then None else R k)"
    by (auto simp: restrict_map_def fun_eq_iff)
  have "table_at T' (\<lambda>k. if k \<in> rec_id ` set gone then None else R k) (H' @ H)"
    using d(2) unfolding H'(1) left .
  moreover have "Execute rx (DeleteStmt t (Some c)) T = (Inr (affected ''Rows deleted'' (length gone)), T')"
    using m(1) d(1) by (simp add: sbind_def st_simps_basic)
  ultimately show ?thesis using H'(2) by blast
qed

theorem delete_statement_removes_the_true_rows_witness:
  "\<exists>T T' H'. table_at T sample_rows sample_past \<and>
    Execute no_match (DeleteStmt (TableRef [] ''t'') (Some sample_condition)) T = (Inr (affected ''Rows deleted'' 1), T') \<and>
    table_at T' (\<lambda>k. if k = 0 then None else sample_rows k) (H' @ sample_past)"
proof -
  obtain T where T: "sample_table T" "table_at T sample_rows sample_past" "record_id_count (tbl_schema T) = 1"
    using sample_filled by blast
  obtain a where a: "records T = Inr [SetAddress (mk_record 0 [VInt 5]) a]" using sample_query(1) [OF T] by blast
  note q = sample_query(2-4) [OF T]
  have "\<forall>r \<in> set [SetAddress (mk_record 0 [VInt 5]) a]. cond_total no_match (tbl_interner T) (tbl_schema T) sample_condition r"
    using q(2) [of _ no_match] by (simp add: cond_total_def) (simp add: sample_condition_def)
  then show ?thesis
    using delete_statement_removes_the_true_rows [OF T(2) a q(1), of no_match "TableRef [] ''t''"] room_mono [OF q(3)] q(2) [of _ no_match] T(2)
    by (auto simp: sample_condition_def)
qed

section \<open>Time\<close>

text \<open>
  C3: \<open>REVERT\<close> takes the table back in time. The call returns, and the table then holds the rows and the
  identifier count that it held before the first operation that is not earlier than the given time;
  what came before that operation is still in the history, and the schema's file follows.
\<close>

theorem revert_returns_to_the_past:
  assumes "table_at T R H" "pager_total (tbl_pager T) + length H < 2 ^ 32"
  shows "\<exists>T'. Execute rx (RevertStmt t time) T = (Inr (affected ''Table reverted'' 0), T') \<and>
    table_at T' (fst (rows_at time H R (record_id_count (tbl_schema T)))) (history_at time H) \<and>
    record_id_count (tbl_schema T') = snd (rows_at time H R (record_id_count (tbl_schema T))) \<and>
    tbl_schema_file T' = Schema_ToBinary (tbl_schema T')"
proof -
  obtain T' where "Table_revert time T = (Inr (), T')"
    "table_at T' (fst (rows_at time H R (record_id_count (tbl_schema T)))) (history_at time H)"
    "record_id_count (tbl_schema T') = snd (rows_at time H R (record_id_count (tbl_schema T)))"
    "tbl_schema_file T' = Schema_ToBinary (tbl_schema T')"
    using revert_at [OF assms, of time] by (metis surjective_pairing)
  then show ?thesis by (auto simp: sbind_def st_simps_basic)
qed

theorem revert_returns_to_the_past_witness:
  "\<exists>T T'. table_at T sample_rows sample_past \<and>
    Execute no_match (RevertStmt (TableRef [] ''t'') (sample_clock 0)) T = (Inr (affected ''Table reverted'' 0), T') \<and>
    table_at T' Map.empty []"
proof -
  obtain T where T: "sample_table T" "table_at T sample_rows sample_past" using sample_filled by blast
  then have "pager_total (tbl_pager T) + length sample_past < 2 ^ 32" by (simp add: sample_table_def sample_past_def)
  from revert_returns_to_the_past [OF T(2) this, of no_match "TableRef [] ''t''" "sample_clock 0"]
  show ?thesis using T(2) by (auto simp: sample_past_def)
qed

text \<open>
  C12: a restart loses nothing. Closing a table and opening its files again succeeds and gives a table
  with the same rows, the same history to revert, the same strings, schema and pages.
\<close>

theorem restart_keeps_the_table:
  assumes "table_at T R H" "durable T" "\<forall>n. length (clock n) = TIME_LEN"
  shows "\<exists>T' fs'. open_table name clock (close_table T fs, it) = (Inr T', (fs', tbl_interner T)) \<and> table_at T' R H \<and> durable T' \<and>
    tbl_schema T' = tbl_schema T \<and> tbl_interner T' = tbl_interner T \<and> tbl_pager T' = tbl_pager T"
  by (rule reopen_at [OF assms])

theorem restart_keeps_the_table_witness:
  "\<exists>T T' fs'. table_at T sample_rows sample_past \<and>
    open_table ''t'' sample_clock (close_table T sample_files, new_interner) = (Inr T', (fs', tbl_interner T)) \<and>
    table_at T' sample_rows sample_past"
proof -
  obtain T where T: "sample_table T" "table_at T sample_rows sample_past" using sample_filled by blast
  have "\<forall>n. length (sample_clock n) = TIME_LEN" by (simp add: sample_clock_def TIME_LEN_def)
  then show ?thesis using restart_keeps_the_table [OF T(2), of sample_clock "''t''" sample_files new_interner] T
    by (fastforce simp: sample_table_def)
qed

section \<open>What always holds\<close>

text \<open>
  C2: the invariant of a table. From a new table, any sequence of insertions, updates, deletions,
  reverts, new strings and restarts, failed calls included, leads to a table whose pages, trees,
  journal, schema and strings together represent some rows with their history, and whose files can be
  opened again.
\<close>

theorem table_invariant:
  assumes "empty_directory fs" "schema_sound sc" "schema_wf sc" "record_id_count sc = 0" "\<forall>n. length (clock n) = TIME_LEN"
    and "create_table name sc clock (fs, it) = (Inr T0, files)" "reaches fs' T0 T"
  shows "\<exists>R H. table_at T R H \<and> durable T"
proof -
  have "table_ok T0" using create_table_at [OF assms(1-5), of name it] assms(6) by (auto simp: table_ok_def)
  then have "table_ok T" using reaches_ok [OF assms(7)] by simp
  then show ?thesis by (auto simp: table_ok_def)
qed

theorem table_invariant_witness:
  "\<exists>T0 T files res R H. create_table ''t'' sample_schema sample_clock (sample_files, new_interner) = (Inr T0, files) \<and>
    run_call sample_files (Call_Insert [VInt 5]) T0 = (res, T) \<and> table_at T R H \<and> durable T"
proof -
  have cl: "\<forall>n. length (sample_clock n) = TIME_LEN" by (simp add: sample_clock_def TIME_LEN_def)
  have c0: "record_id_count sample_schema = 0" by (simp add: sample_schema_def)
  obtain T0 fs it where T: "create_table ''t'' sample_schema sample_clock (sample_files, new_interner) = (Inr T0, (fs, it))"
    "table_at T0 Map.empty []" "columns (tbl_schema T0) = columns sample_schema" "record_id_count (tbl_schema T0) = 0"
    "pager_total (tbl_pager T0) = 1" "string_storage it = []" "tbl_interner T0 = it"
    using create_table_at [OF sample_files_empty sample_schema_facts c0 cl, of "''t''" new_interner] by blast
  obtain ts where ts: "holds_tracks (tbl_journal T0) (rev ts)"
    "logged (columns (tbl_schema T0)) (tbl_interner T0) ts [] Map.empty (record_id_count (tbl_schema T0))"
    using T(2) by (auto simp: table_at_def)
  have "ts = []" using ts(2) by (cases ts) auto
  then have "jnl_pos (tbl_journal T0) = 0" using ts(1) by (auto simp: holds_tracks_def)
  then have lim: "in_limits T0" using T(4-7) by (simp add: in_limits_def LEAF_KEYS_def)
  obtain res T' where r: "run_call sample_files (Call_Insert [VInt 5]) T0 = (res, T')" by fastforce
  have "call_fits T0 (Call_Insert [VInt 5])" using T(3) by (simp add: sample_schema_def)
  then have "reaches sample_files T0 T'" using reaches_call [OF reaches_start lim _ r] by blast
  from table_invariant [OF sample_files_empty sample_schema_facts c0 cl T(1) this]
  show ?thesis using T(1) r by blast
qed

end
