(* ===== verification/Json_File.thy ===== *)
theory Json_File
  imports Json_Value Effects
begin

text \<open>
  Files that hold one JSON value, \<open>libs/core/src/json_file.cpp\<close>: the accounts, the access rules and the
  catalog of a server are such files. \<open>None\<close> is a file that is missing or that does not parse; the
  outcomes of the calls to the operating system are given by a record.
\<close>

section \<open>The file and the outcomes of its calls\<close>

record json_file =
  jf_target :: "json option"
  jf_temp :: "json option"

definition no_file :: json_file where "no_file = \<lparr>jf_target = None, jf_temp = None\<rparr>"

text \<open>
  What happens to the text: it reaches the file, the stream reports an error, or it is still in the
  buffer of the stream when the state of the stream is asked and is lost when the stream is closed.
\<close>

datatype written = Text_Written | Text_Refused | Text_Lost

record save_io =
  io_dirs :: bool
  io_open :: bool
  io_text :: written
  io_perms :: bool
  io_rename :: bool

definition good_io :: save_io where
  "good_io = \<lparr>io_dirs = True, io_open = True, io_text = Text_Written, io_perms = True, io_rename = True\<rparr>"

section \<open>Loading and saving\<close>

definition JsonFile_Load :: "json \<Rightarrow> json_file \<Rightarrow> json" where
  "JsonFile_Load fallback f = (case jf_target f of None \<Rightarrow> fallback | Some j \<Rightarrow> j)"

definition JsonFile_Save :: "save_io \<Rightarrow> json \<Rightarrow> json_file \<Rightarrow> bool \<times> json_file" where
  "JsonFile_Save io j f =
     (if \<not> io_dirs io then (False, f)
      else if \<not> io_open io then (False, f)
      else if io_text io = Text_Refused then (False, f\<lparr>jf_temp := None\<rparr>)
      else
        let f = f\<lparr>jf_temp := (if io_text io = Text_Written then Some j else None)\<rparr>
        in if \<not> io_perms io then (False, f\<lparr>jf_temp := None\<rparr>)
           else if \<not> io_rename io then (False, f\<lparr>jf_temp := None\<rparr>)
           else (True, f\<lparr>jf_target := jf_temp f, jf_temp := None\<rparr>))"

lemma save_result:
  assumes "JsonFile_Save io j f = (b, f')"
  shows "\<not> b \<Longrightarrow> jf_target f' = jf_target f"
    and "b \<Longrightarrow> io_text io \<noteq> Text_Lost \<Longrightarrow> jf_target f' = Some j"
    and "b \<Longrightarrow> io_text io = Text_Lost \<Longrightarrow> jf_target f' = None"
  using assms by (cases "io_text io"; auto simp: JsonFile_Save_def Let_def split: if_splits)+

lemma save_good [simp]: "JsonFile_Save good_io j f = (True, \<lparr>jf_target = Some j, jf_temp = None\<rparr>)"
  by (simp add: JsonFile_Save_def good_io_def)

lemma load_saved [simp]: "JsonFile_Load fallback \<lparr>jf_target = Some j, jf_temp = tmp\<rparr> = j"
  by (simp add: JsonFile_Load_def)

end
