(* ===== verification/Ast_Json.thy ===== *)
theory Ast_Json
  imports Json_Value Sql_Eval
begin

text \<open>
  Statements as JSON, the form in which the server sends them to a storage process:
  \<open>apps/server/src/ast.cpp\<close>.
\<close>

section \<open>Names\<close>

fun LiteralTypeName :: "literal_type \<Rightarrow> string" where
  "LiteralTypeName StringLit = ''string''"
| "LiteralTypeName IntegerLit = ''int''"
| "LiteralTypeName NullLit = ''null''"

definition LiteralTypeFromString :: "string \<Rightarrow> literal_type" where
  "LiteralTypeFromString v = (if v = ''int'' then IntegerLit else if v = ''string'' then StringLit else NullLit)"

fun Ast_AggregateName :: "aggregate \<Rightarrow> string" where
  "Ast_AggregateName AggSum = ''SUM''"
| "Ast_AggregateName AggCount = ''COUNT''"
| "Ast_AggregateName AggAvg = ''AVG''"

definition AggregateFromName :: "string \<Rightarrow> aggregate" where
  "AggregateFromName s = (if s = ''SUM'' then AggSum else if s = ''COUNT'' then AggCount else AggAvg)"

fun ComparisonOperatorName :: "comparison \<Rightarrow> string" where
  "ComparisonOperatorName OpEqual = ''=''"
| "ComparisonOperatorName OpNotEqual = ''!=''"
| "ComparisonOperatorName OpLess = ''<''"
| "ComparisonOperatorName OpGreater = ''>''"
| "ComparisonOperatorName OpLessEqual = ''<=''"
| "ComparisonOperatorName OpGreaterEqual = ''>=''"

definition ComparisonOperatorFromName :: "string \<Rightarrow> comparison" where
  "ComparisonOperatorFromName s =
     (if s = ''='' \<or> s = ''=='' then OpEqual else if s = ''!='' then OpNotEqual else if s = ''<'' then OpLess
      else if s = ''>'' then OpGreater else if s = ''<='' then OpLessEqual else OpGreaterEqual)"

definition ColumnTypeName :: "def_type \<Rightarrow> string" where
  "ColumnTypeName t = (case t of IntDef \<Rightarrow> ''int'' | StringDef \<Rightarrow> ''string'')"

definition ColumnTypeFromName :: "string \<Rightarrow> def_type" where
  "ColumnTypeFromName s = (if s = ''int'' then IntDef else StringDef)"

definition TableToString :: "table_ref \<Rightarrow> string" where
  "TableToString t = (if RefDatabase t = [] then RefTable t else RefDatabase t @ ''.'' @ RefTable t)"

definition TableFromString :: "string \<Rightarrow> table_ref" where
  "TableFromString s =
     (case dropWhile (\<lambda>c. c \<noteq> CHR ''.'') s of
        [] \<Rightarrow> TableRef [] s
      | _ # rest \<Rightarrow> TableRef (takeWhile (\<lambda>c. c \<noteq> CHR ''.'') s) rest)"

section \<open>Writing\<close>

definition Ast_LiteralValue :: "sql_literal \<Rightarrow> json result" where
  "Ast_LiteralValue l =
     (case LiteralType l of
        IntegerLit \<Rightarrow> rmap (\<lambda>w. JInt (sint w)) (stoi (LitValue l))
      | NullLit \<Rightarrow> Inr JNull
      | StringLit \<Rightarrow> Inr (JString (LitValue l)))"

definition node_tag :: "string \<Rightarrow> string \<times> json" where
  "node_tag s = (''node_type'', JString s)"

definition literal_json :: "sql_literal \<Rightarrow> json result" where
  "literal_json l =
     rmap (\<lambda>v. jobj [node_tag ''Literal'', (''data_type'', JString (LiteralTypeName (LiteralType l))), (''value'', v)])
       (Ast_LiteralValue l)"

definition identifier_json :: "string \<Rightarrow> json" where
  "identifier_json name = jobj [node_tag ''Identifier'', (''value'', JString name)]"

fun expression_json :: "expression \<Rightarrow> json result" where
  "expression_json (IdentifierExpr name) = Inr (identifier_json name)"
| "expression_json (LiteralExpr l) = literal_json l"
| "expression_json (AggregateExpr f c) =
     Inr (jobj [node_tag ''AggregateFunction'', (''function'', JString (Ast_AggregateName f)), (''argument'', identifier_json c)])"

definition binary_json :: "string \<Rightarrow> json \<Rightarrow> json \<Rightarrow> json" where
  "binary_json op l r = jobj [node_tag ''BinaryExpression'', (''operator'', JString op), (''left'', l), (''right'', r)]"

fun condition_json :: "condition \<Rightarrow> json result" where
  "condition_json (ComparisonCondition l op r) =
     rbind (expression_json l) (\<lambda>a. rbind (expression_json r) (\<lambda>b. Inr (binary_json (ComparisonOperatorName op) a b)))"
| "condition_json (LikeCondition v pat) =
     rbind (expression_json v) (\<lambda>a. rbind (literal_json (Literal StringLit pat)) (\<lambda>b. Inr (binary_json ''LIKE'' a b)))"
| "condition_json (BetweenCondition v lo hi) =
     rbind (expression_json v) (\<lambda>a. rbind (expression_json lo) (\<lambda>b. rbind (expression_json hi) (\<lambda>c.
       Inr (jobj [node_tag ''BetweenExpression'', (''value'', a), (''lower'', b), (''upper'', c)]))))"
| "condition_json (AndCondition l r) =
     rbind (condition_json l) (\<lambda>a. rbind (condition_json r) (\<lambda>b. Inr (binary_json ''AND'' a b)))"
| "condition_json (OrCondition l r) =
     rbind (condition_json l) (\<lambda>a. rbind (condition_json r) (\<lambda>b. Inr (binary_json ''OR'' a b)))"

definition column_json :: "column_def \<Rightarrow> json result" where
  "column_json c =
     (let kvs = [(''name'', JString (DefName c)), (''data_type'', JString (ColumnTypeName (DefType c))),
        (''modifiers'', JArray ((if DefIndexed c then [JString ''INDEXED''] else []) @
                             (if DefNotNull c then [JString ''NOT_NULL''] else [])))]
      in case DefDefault c of
           None \<Rightarrow> Inr (jobj kvs)
         | Some l \<Rightarrow> rmap (\<lambda>d. jobj (kvs @ [(''default_value'', d)])) (literal_json l))"

definition with_where :: "(string \<times> json) list \<Rightarrow> condition option \<Rightarrow> json result" where
  "with_where kvs w =
     (case w of None \<Rightarrow> Inr (jobj kvs) | Some c \<Rightarrow> rmap (\<lambda>j. jobj (kvs @ [(''where_clause'', j)])) (condition_json c))"

definition table_member :: "table_ref \<Rightarrow> string \<times> json" where
  "table_member t = (''table'', JString (TableToString t))"

definition item_json :: "select_item \<Rightarrow> json result" where
  "item_json it =
     rbind (expression_json (ItemExpr it)) (\<lambda>j.
       if ItemAlias it = [] then Inr j else jset ''alias'' (JString (ItemAlias it)) j)"

definition permissions_json :: "string \<Rightarrow> string list \<Rightarrow> table_ref \<Rightarrow> string \<Rightarrow> json" where
  "permissions_json ty ps scope user =
     jobj [node_tag ty, (''permissions'', JArray (map JString ps)), (''scope'', JString (TableToString scope)), (''username'', JString user)]"

fun SerializeAst :: "statement \<Rightarrow> json result" where
  "SerializeAst (CreateDatabaseStmt d) = Inr (jobj [node_tag ''CreateDatabaseStatement'', (''database'', JString d)])"
| "SerializeAst (DropDatabaseStmt d) = Inr (jobj [node_tag ''DropDatabaseStatement'', (''database'', JString d)])"
| "SerializeAst (UseDatabaseStmt d) = Inr (jobj [node_tag ''UseDatabaseStatement'', (''database'', JString d)])"
| "SerializeAst (CreateUserStmt u p) = Inr (jobj [node_tag ''CreateUserStatement'', (''username'', JString u)])"
| "SerializeAst (GrantStmt ps scope u) = Inr (permissions_json ''GrantStatement'' ps scope u)"
| "SerializeAst (RevokeStmt ps scope u) = Inr (permissions_json ''RevokeStatement'' ps scope u)"
| "SerializeAst (CreateTableStmt t cs) =
     rmap (\<lambda>js. jobj [node_tag ''CreateTableStatement'', table_member t, (''columns'', JArray js)]) (rmapM column_json cs)"
| "SerializeAst (SelectStmt all items t w) =
     rbind (if all then Inr [jobj [node_tag ''Wildcard'']] else rmapM item_json items) (\<lambda>ps.
       with_where [node_tag ''SelectStatement'', table_member t, (''projections'', JArray ps)] w)"
| "SerializeAst (RevertStmt t ts) =
     Inr (jobj [node_tag ''RevertStatement'', table_member t, (''target_timestamp'', JString ts)])"
| "SerializeAst (InsertStmt t cols rows) =
     rmap (\<lambda>js. jobj [node_tag ''InsertStatement'', table_member t, (''columns'', JArray (map JString cols)),
            (''values'', JArray (map JArray js))])
       (rmapM (rmapM literal_json) rows)"
| "SerializeAst (UpdateStmt t as w) =
     rbind (rmapM (\<lambda>(c, e). rmap (\<lambda>j. jobj [(''column'', JString c), (''value'', j)]) (expression_json e)) as) (\<lambda>js.
       with_where [node_tag ''UpdateStatement'', table_member t, (''assignments'', JArray js)] w)"
| "SerializeAst (DeleteStmt t w) = with_where [node_tag ''DeleteStatement'', table_member t] w"
| "SerializeAst (DropTableStmt t) = Inr (jobj [node_tag ''DropTableStatement'', table_member t])"

section \<open>Reading\<close>

definition LiteralFromJson :: "json \<Rightarrow> sql_literal result" where
  "LiteralFromJson j =
     (if \<not> is_object j then
        (if j = JNull then Inr (Literal NullLit ''NULL'')
         else if is_number_integer j then rmap (\<lambda>w. Literal IntegerLit (show_int (sint w))) (get_int j)
         else rmap (Literal StringLit) (get_string j))
      else rbind (jvalue get_string j ''data_type'' ''string'') (\<lambda>data_type.
        case LiteralTypeFromString data_type of
          NullLit \<Rightarrow> Inr (Literal NullLit ''NULL'')
        | IntegerLit \<Rightarrow>
            (case jget j ''value'' of
               Some (JInt i) \<Rightarrow> rmap (\<lambda>w. Literal IntegerLit (show_int (sint w))) (get_int (JInt i))
             | _ \<Rightarrow> rmap (Literal IntegerLit) (jvalue get_string j ''value'' ''0''))
        | StringLit \<Rightarrow> rmap (Literal StringLit) (jvalue get_string j ''value'' '''')))"

definition ExpressionFromJson :: "json \<Rightarrow> expression result" where
  "ExpressionFromJson j =
     rbind (jvalue get_string j ''node_type'' '''') (\<lambda>ty.
       if ty = ''Identifier'' then rmap IdentifierExpr (jvalue get_string j ''value'' '''')
       else if ty = ''AggregateFunction'' then
         rbind (jvalue get_string j ''function'' ''SUM'') (\<lambda>f.
           rbind (jvalue Inr j ''argument'' (JObject [])) (\<lambda>arg.
             rmap (AggregateExpr (AggregateFromName f)) (jvalue get_string arg ''value'' '''')))
       else rmap LiteralExpr (LiteralFromJson j))"

definition expression_at :: "json \<Rightarrow> string \<Rightarrow> expression result" where
  "expression_at j k = rbind (jat j k) ExpressionFromJson"

function ConditionFromJson :: "json \<Rightarrow> condition result" where
  "ConditionFromJson j =
     rbind (jvalue get_string j ''node_type'' '''') (\<lambda>ty.
       if ty = ''BetweenExpression'' then
         rbind (expression_at j ''value'') (\<lambda>v. rbind (expression_at j ''lower'') (\<lambda>lo.
           rbind (expression_at j ''upper'') (\<lambda>hi. Inr (BetweenCondition v lo hi))))
       else if ty = ''BinaryExpression'' then
         rbind (jvalue get_string j ''operator'' '''') (\<lambda>op.
           if op = ''AND'' \<or> op = ''OR'' then
             rbind (jat j ''left'') (\<lambda>jl. rbind (ConditionFromJson jl) (\<lambda>l.
               rbind (jat j ''right'') (\<lambda>jr. rbind (ConditionFromJson jr) (\<lambda>r.
                 Inr (if op = ''AND'' then AndCondition l r else OrCondition l r)))))
           else if op = ''LIKE'' then
             rbind (jat j ''right'') (\<lambda>jr. rbind (LiteralFromJson jr) (\<lambda>pat.
               rbind (expression_at j ''left'') (\<lambda>v. Inr (LikeCondition v (LitValue pat)))))
           else rbind (expression_at j ''left'') (\<lambda>l. rbind (expression_at j ''right'') (\<lambda>r.
             Inr (ComparisonCondition l (ComparisonOperatorFromName op) r))))
       else rbind (expression_at j ''left'') (\<lambda>l. rbind (expression_at j ''right'') (\<lambda>r.
         Inr (ComparisonCondition l OpEqual r))))"
  by pat_completeness auto
termination
  by (relation "measure size") (auto dest: jat_size)

declare ConditionFromJson.simps [simp del]

fun apply_modifiers :: "json list \<Rightarrow> column_def \<Rightarrow> column_def result" where
  "apply_modifiers [] c = Inr c"
| "apply_modifiers (m # ms) c =
     rbind (get_string m) (\<lambda>v. apply_modifiers ms
       (c\<lparr>DefNotNull := DefNotNull c \<or> v = ''NOT_NULL'', DefIndexed := DefIndexed c \<or> v = ''INDEXED''\<rparr>))"

definition array_at :: "json \<Rightarrow> string \<Rightarrow> json list" where
  "array_at j k = (case jget j k of Some (JArray xs) \<Rightarrow> xs | _ \<Rightarrow> [])"

definition ColumnFromJson :: "json \<Rightarrow> column_def result" where
  "ColumnFromJson j =
     rbind (jvalue get_string j ''name'' '''') (\<lambda>name.
     rbind (jvalue get_string j ''data_type'' ''string'') (\<lambda>ty.
     rbind (apply_modifiers (array_at j ''modifiers'')
         \<lparr>DefName = name, DefType = ColumnTypeFromName ty, DefNotNull = False, DefIndexed = False, DefDefault = None\<rparr>) (\<lambda>c.
       case jget j ''default_value'' of
         None \<Rightarrow> Inr c
       | Some d \<Rightarrow> rmap (\<lambda>l. c\<lparr>DefDefault := Some l\<rparr>) (LiteralFromJson d))))"

definition SelectItemFromJson :: "json \<Rightarrow> select_item result" where
  "SelectItemFromJson j =
     rbind (ExpressionFromJson j) (\<lambda>e. rmap (SelectItem e) (jvalue get_string j ''alias'' ''''))"

fun projections_from :: "json list \<Rightarrow> (bool \<times> select_item list) result" where
  "projections_from [] = Inr (False, [])"
| "projections_from (p # ps) =
     rbind (jvalue get_string p ''node_type'' '''') (\<lambda>ty.
       if ty = ''Wildcard'' then rmap (\<lambda>(_, items). (True, items)) (projections_from ps)
       else rbind (SelectItemFromJson p) (\<lambda>item. rmap (\<lambda>(all, items). (all, item # items)) (projections_from ps)))"

definition where_from :: "json \<Rightarrow> condition option result" where
  "where_from j = (case jget j ''where_clause'' of None \<Rightarrow> Inr None | Some w \<Rightarrow> rmap Some (ConditionFromJson w))"

definition table_from :: "json \<Rightarrow> table_ref result" where
  "table_from j = rmap TableFromString (jvalue get_string j ''table'' '''')"

definition assignment_from :: "json \<Rightarrow> (string \<times> expression) result" where
  "assignment_from j =
     rbind (jvalue get_string j ''column'' '''') (\<lambda>c. rbind (expression_at j ''value'') (\<lambda>e. Inr (c, e)))"

definition permissions_from :: "(string list \<Rightarrow> table_ref \<Rightarrow> string \<Rightarrow> statement) \<Rightarrow> json \<Rightarrow> statement result" where
  "permissions_from con j =
     rbind (jvalue get_strings j ''permissions'' []) (\<lambda>ps.
       rbind (jvalue get_string j ''scope'' ''*.*'') (\<lambda>scope.
         rmap (con ps (TableFromString scope)) (jvalue get_string j ''username'' '''')))"

text \<open>The arguments of a constructor call are read from left to right; the order is unspecified in C++.\<close>

definition DeserializeAst :: "json \<Rightarrow> statement result" where
  "DeserializeAst j =
     rbind (jvalue get_string j ''node_type'' '''') (\<lambda>ty.
       if ty = ''CreateDatabaseStatement'' then rmap CreateDatabaseStmt (jvalue get_string j ''database'' '''')
       else if ty = ''DropDatabaseStatement'' then rmap DropDatabaseStmt (jvalue get_string j ''database'' '''')
       else if ty = ''UseDatabaseStatement'' then rmap UseDatabaseStmt (jvalue get_string j ''database'' '''')
       else if ty = ''CreateUserStatement'' then rmap (\<lambda>u. CreateUserStmt u []) (jvalue get_string j ''username'' '''')
       else if ty = ''GrantStatement'' then permissions_from GrantStmt j
       else if ty = ''RevokeStatement'' then permissions_from RevokeStmt j
       else if ty = ''CreateTableStatement'' then
         rbind (rmapM ColumnFromJson (array_at j ''columns'')) (\<lambda>cs. rmap (\<lambda>t. CreateTableStmt t cs) (table_from j))
       else if ty = ''SelectStatement'' then
         rbind (projections_from (array_at j ''projections'')) (\<lambda>(all, items). rbind (where_from j) (\<lambda>w.
           rmap (\<lambda>t. SelectStmt all items t w) (table_from j)))
       else if ty = ''RevertStatement'' then
         rbind (table_from j) (\<lambda>t. rmap (RevertStmt t) (jvalue get_string j ''target_timestamp'' ''''))
       else if ty = ''InsertStatement'' then
         rbind (rmapM (\<lambda>row. rmapM LiteralFromJson (jelems row)) (array_at j ''values'')) (\<lambda>rows.
           rbind (table_from j) (\<lambda>t. rmap (\<lambda>cols. InsertStmt t cols rows) (jvalue get_strings j ''columns'' [])))
       else if ty = ''UpdateStatement'' then
         rbind (rmapM assignment_from (array_at j ''assignments'')) (\<lambda>as. rbind (where_from j) (\<lambda>w.
           rmap (\<lambda>t. UpdateStmt t as w) (table_from j)))
       else if ty = ''DeleteStatement'' then
         rbind (where_from j) (\<lambda>w. rmap (\<lambda>t. DeleteStmt t w) (table_from j))
       else if ty = ''DropTableStatement'' then rmap DropTableStmt (table_from j)
       else Inr (SelectStmt False [] (TableRef [] []) None))"

end
