(* ===== verification/Catalog_Store.thy ===== *)
theory Catalog_Store
  imports Json_File Ast_Json
begin

text \<open>
  The catalog of databases and tables, \<open>apps/server/src/catalog.cpp\<close>, kept as a JSON value and saved on
  every change. The specification is a map from databases to their tables.
\<close>

section \<open>References into a JSON value\<close>

text \<open>
  \<open>j[k1][k2]...\<close> of a value that may change: missing members are created as null, a null becomes an
  object, anything else throws.
\<close>

fun jmodify :: "string list \<Rightarrow> (json \<Rightarrow> json result) \<Rightarrow> json \<Rightarrow> json result" where
  "jmodify [] f j = f j"
| "jmodify (k # ks) f (JObject kvs) =
     rmap (\<lambda>v. JObject (jput k v kvs)) (jmodify ks f (case map_of kvs k of None \<Rightarrow> JNull | Some v \<Rightarrow> v))"
| "jmodify (k # ks) f JNull = rmap (\<lambda>v. JObject [(k, v)]) (jmodify ks f JNull)"
| "jmodify (k # ks) f j = Inl (Json_Error ''type_error.305'')"

fun jread :: "string list \<Rightarrow> json \<Rightarrow> json" where
  "jread [] j = j"
| "jread (k # ks) j = jread ks (case jget j k of None \<Rightarrow> JNull | Some v \<Rightarrow> v)"

text \<open>The same of a constant value: a missing member is undefined behaviour.\<close>

fun jconst :: "string list \<Rightarrow> json \<Rightarrow> json result" where
  "jconst [] j = Inr j"
| "jconst (k # ks) (JObject kvs) =
     (case map_of kvs k of None \<Rightarrow> Inl (Undefined_Behaviour ''missing member'') | Some v \<Rightarrow> jconst ks v)"
| "jconst (k # ks) j = Inl (Json_Error ''type_error.305'')"

fun jerase :: "string \<Rightarrow> json \<Rightarrow> json result" where
  "jerase k (JObject kvs) = Inr (JObject (filter (\<lambda>(k', _). k' \<noteq> k) kvs))"
| "jerase k j = Inl (Json_Error ''type_error.307'')"

text \<open>The keys that \<open>items()\<close> gives.\<close>

fun jkeys :: "json \<Rightarrow> string list" where
  "jkeys (JObject kvs) = map fst kvs"
| "jkeys (JArray xs) = map (\<lambda>i. show_int (int i)) [0..<length xs]"
| "jkeys JNull = []"
| "jkeys _ = [[]]"

section \<open>The catalog\<close>

record catalog =
  ct_data :: json
  ct_file :: json_file

definition no_databases :: json where
  "no_databases = jobj [(''databases'', JObject [])]"

definition Catalog :: "json_file \<Rightarrow> catalog" where
  "Catalog f =
     (let j = JsonFile_Load no_databases f
      in \<lparr>ct_data = (if is_object j \<and> jcontains j ''databases'' then j else no_databases), ct_file = f\<rparr>)"

text \<open>The result of saving is ignored.\<close>

definition Catalog_Save :: "save_io \<Rightarrow> catalog \<Rightarrow> catalog" where
  "Catalog_Save io c = c\<lparr>ct_file := snd (JsonFile_Save io (ct_data c) (ct_file c))\<rparr>"

definition cmodify :: "string list \<Rightarrow> (json \<Rightarrow> json result) \<Rightarrow> (catalog, unit) st" where
  "cmodify ks f c = (case jmodify ks f (ct_data c) of Inl e \<Rightarrow> (Inl e, c) | Inr j \<Rightarrow> (Inr (), c\<lparr>ct_data := j\<rparr>))"

definition HasDatabase :: "catalog \<Rightarrow> string \<Rightarrow> bool" where
  "HasDatabase c name \<longleftrightarrow> jcontains (ct_data c) ''databases'' \<and> jcontains (jread [''databases''] (ct_data c)) name"

definition Cat_CreateDatabase :: "save_io \<Rightarrow> string \<Rightarrow> (catalog, bool) st" where
  "Cat_CreateDatabase io name =
     sbind (cmodify [''databases''] Inr) (\<lambda>_.
       sbind (sget (\<lambda>c. jcontains (jread [''databases''] (ct_data c)) name)) (\<lambda>known.
         if known then sret False
         else sbind (cmodify [''databases''] (jset name (jobj [(''tables'', JObject [])]))) (\<lambda>_.
           sbind (supd (Catalog_Save io)) (\<lambda>_. sret True))))"

definition Cat_DropDatabase :: "save_io \<Rightarrow> string \<Rightarrow> (catalog, table_ref list) st" where
  "Cat_DropDatabase io name =
     sbind (cmodify [''databases''] Inr) (\<lambda>_.
       sbind (sget (\<lambda>c. jcontains (jread [''databases''] (ct_data c)) name)) (\<lambda>known.
         if \<not> known then sret []
         else sbind (cmodify [''databases'', name, ''tables''] Inr) (\<lambda>_.
           sbind (sget (\<lambda>c. map (TableRef name) (jkeys (jread [''databases'', name, ''tables''] (ct_data c))))) (\<lambda>tables.
             sbind (cmodify [''databases''] (jerase name)) (\<lambda>_.
               sbind (supd (Catalog_Save io)) (\<lambda>_. sret tables))))))"

definition ResolveTable :: "catalog \<Rightarrow> table_ref \<Rightarrow> table_ref option result" where
  "ResolveTable c t =
     (if \<not> HasDatabase c (RefDatabase t) then Inr None
      else rmap (\<lambda>tables. if jcontains tables (RefTable t) then Some (TableRef (RefDatabase t) (RefTable t)) else None)
        (jconst [''databases'', RefDatabase t, ''tables''] (ct_data c)))"

definition HasTable :: "catalog \<Rightarrow> table_ref \<Rightarrow> bool result" where
  "HasTable c t = rmap (\<lambda>r. r \<noteq> None) (ResolveTable c t)"

text \<open>The new member is created after its value has been computed.\<close>

definition Cat_CreateTable :: "save_io \<Rightarrow> table_ref \<Rightarrow> column_def list \<Rightarrow> (catalog, bool) st" where
  "Cat_CreateTable io t cs =
     (let path = [''databases'', RefDatabase t, ''tables'']
      in sbind (sget (\<lambda>c. HasDatabase c (RefDatabase t))) (\<lambda>known.
        if \<not> known then sret False
        else sbind (cmodify path Inr) (\<lambda>_.
          sbind (sget (\<lambda>c. jcontains (jread path (ct_data c)) (RefTable t))) (\<lambda>taken.
            if taken then sret False
            else sbind (slift (SerializeAst (CreateTableStmt t cs))) (\<lambda>j.
              sbind (cmodify path (jset (RefTable t) j)) (\<lambda>_.
                sbind (supd (Catalog_Save io)) (\<lambda>_. sret True)))))))"

definition Cat_DropTable :: "save_io \<Rightarrow> table_ref \<Rightarrow> (catalog, bool) st" where
  "Cat_DropTable io t =
     sbind (\<lambda>c. (ResolveTable c t, c)) (\<lambda>resolved.
       case resolved of
         None \<Rightarrow> sret False
       | Some r \<Rightarrow> sbind (cmodify [''databases'', RefDatabase r, ''tables''] (jerase (RefTable r))) (\<lambda>_.
           sbind (supd (Catalog_Save io)) (\<lambda>_. sret True)))"

section \<open>The specification: databases and their tables\<close>

type_synonym directory = "string \<rightharpoonup> string \<rightharpoonup> json"

definition directory_of :: "json \<Rightarrow> directory" where
  "directory_of j db =
     (case jget (jread [''databases''] j) db of None \<Rightarrow> None | Some d \<Rightarrow> Some (jget (jread [''tables''] d)))"

definition catalog_wf :: "json \<Rightarrow> bool" where
  "catalog_wf j \<longleftrightarrow>
     (\<exists>kvs dbs. j = JObject kvs \<and> map_of kvs ''databases'' = Some (JObject dbs) \<and>
       (\<forall>db d. map_of dbs db = Some d \<longrightarrow> (\<exists>ms ts. d = JObject ms \<and> map_of ms ''tables'' = Some (JObject ts))))"

text \<open>The catalog holds the directory \<open>D\<close>, and so does its file once something was saved.\<close>

definition catalog_at :: "catalog \<Rightarrow> directory \<Rightarrow> bool" where
  "catalog_at c D \<longleftrightarrow> catalog_wf (ct_data c) \<and> directory_of (ct_data c) = D"

lemma catalog_wf_cases:
  assumes "catalog_wf j"
  obtains kvs dbs where "j = JObject kvs" "map_of kvs ''databases'' = Some (JObject dbs)"
    "\<And>db d. map_of dbs db = Some d \<Longrightarrow> \<exists>ms ts. d = JObject ms \<and> map_of ms ''tables'' = Some (JObject ts)"
  using assms by (auto simp: catalog_wf_def)

lemma jget_sim [simp]: "jget (JObject kvs) = map_of kvs"
  by (rule ext) simp

lemma map_of_without: "map_of (filter (\<lambda>(k', _). k' \<noteq> k) kvs) = (map_of kvs)(k := None)"
  by (rule ext) (induction kvs; auto)

lemma Catalog_Save_data [simp]: "ct_data (Catalog_Save io c) = ct_data c"
  by (simp add: Catalog_Save_def)

lemma no_databases_wf: "catalog_wf no_databases" "directory_of no_databases = Map.empty"
  by (auto simp: catalog_wf_def no_databases_def jobj_def directory_of_def fun_eq_iff)

text \<open>The members of a list of databases, and what changing them does to the directory.\<close>

definition dbs_ok :: "(string \<times> json) list \<Rightarrow> bool" where
  "dbs_ok dbs \<longleftrightarrow> (\<forall>db d. map_of dbs db = Some d \<longrightarrow> (\<exists>ms ts. d = JObject ms \<and> map_of ms ''tables'' = Some (JObject ts)))"

definition dbs_directory :: "(string \<times> json) list \<Rightarrow> directory" where
  "dbs_directory dbs db = map_option (\<lambda>d. jget (jread [''tables''] d)) (map_of dbs db)"

lemma wf_databases:
  assumes "catalog_wf j"
  obtains dbs where "jread [''databases''] j = JObject dbs" "jcontains j ''databases''" "dbs_ok dbs" "directory_of j = dbs_directory dbs"
    "\<And>f dbs'. f (JObject dbs) = Inr (JObject dbs') \<Longrightarrow> dbs_ok dbs' \<Longrightarrow>
       \<exists>j'. jmodify [''databases''] f j = Inr j' \<and> catalog_wf j' \<and> directory_of j' = dbs_directory dbs' \<and>
         jread [''databases''] j' = JObject dbs'"
proof -
  obtain kvs dbs where j: "j = JObject kvs" "map_of kvs ''databases'' = Some (JObject dbs)" "dbs_ok dbs"
    using assms by (auto simp: catalog_wf_def dbs_ok_def)
  have dir: "directory_of (JObject kvs') = dbs_directory dbs'" if "map_of kvs' ''databases'' = Some (JObject dbs')" for kvs' dbs'
    using that by (auto simp: directory_of_def dbs_directory_def fun_eq_iff split: option.split)
  show thesis
  proof (rule that)
    show "jread [''databases''] j = JObject dbs" "jcontains j ''databases''" "dbs_ok dbs" "directory_of j = dbs_directory dbs"
      using j dir by (simp_all add: jcontains_def)
    fix f :: "json \<Rightarrow> json result" and dbs' assume f: "f (JObject dbs) = Inr (JObject dbs')" "dbs_ok dbs'"
    let ?j = "JObject (jput ''databases'' (JObject dbs') kvs)"
    have "jmodify [''databases''] f j = Inr ?j" using j f(1) by simp
    moreover have "catalog_wf ?j" using f(2) by (auto simp: catalog_wf_def dbs_ok_def)
    moreover have "directory_of ?j = dbs_directory dbs'" by (rule dir) simp
    moreover have "jread [''databases''] ?j = JObject dbs'" by simp
    ultimately show "\<exists>j'. jmodify [''databases''] f j = Inr j' \<and> catalog_wf j' \<and> directory_of j' = dbs_directory dbs' \<and>
      jread [''databases''] j' = JObject dbs'" by blast
  qed
qed

lemma jmodify_deeper: "jmodify (k # ks @ ms) f j = jmodify (k # ks) (jmodify ms f) j"
proof -
  have "jmodify (ks @ ms) f j = jmodify ks (jmodify ms f) j" for ks j
  proof (induction ks arbitrary: j)
    case (Cons k ks)
    then show ?case by (cases j) simp_all
  qed simp
  from this [of "k # ks"] show ?thesis by simp
qed

text \<open>The tables of a database.\<close>

lemma wf_tables:
  assumes "catalog_wf j" "directory_of j db = Some T"
  obtains ts where "jread [''databases'', db, ''tables''] j = JObject ts" "T = map_of ts"
    "jconst [''databases'', db, ''tables''] j = Inr (JObject ts)"
    "\<And>f ts'. f (JObject ts) = Inr (JObject ts') \<Longrightarrow>
       \<exists>j'. jmodify [''databases'', db, ''tables''] f j = Inr j' \<and> catalog_wf j' \<and>
         directory_of j' = (directory_of j)(db \<mapsto> map_of ts') \<and> jread [''databases'', db, ''tables''] j' = JObject ts'"
proof -
  obtain dbs where d: "jread [''databases''] j = JObject dbs" "jcontains j ''databases''" "dbs_ok dbs" "directory_of j = dbs_directory dbs"
    and modify: "\<And>f dbs'. f (JObject dbs) = Inr (JObject dbs') \<Longrightarrow> dbs_ok dbs' \<Longrightarrow>
       \<exists>j'. jmodify [''databases''] f j = Inr j' \<and> catalog_wf j' \<and> directory_of j' = dbs_directory dbs' \<and>
         jread [''databases''] j' = JObject dbs'"
    using wf_databases [OF assms(1)] by blast
  obtain ms ts where m: "map_of dbs db = Some (JObject ms)" "map_of ms ''tables'' = Some (JObject ts)"
    using assms(2) d(3,4) by (fastforce simp: dbs_directory_def dbs_ok_def)
  obtain kvs where j: "j = JObject kvs" using assms(1) by (auto simp: catalog_wf_def)
  show thesis
  proof (rule that)
    show "jread [''databases'', db, ''tables''] j = JObject ts" using d(1) m by (simp split: option.splits)
    show "T = map_of ts" using assms(2) d(4) m by (simp add: dbs_directory_def)
    show "jconst [''databases'', db, ''tables''] j = Inr (JObject ts)"
      using d(1,2) m j by (auto simp: jcontains_def split: option.splits)
    fix f :: "json \<Rightarrow> json result" and ts' assume f: "f (JObject ts) = Inr (JObject ts')"
    let ?dbs = "jput db (JObject (jput ''tables'' (JObject ts') ms)) dbs"
    have step: "jmodify [db, ''tables''] f (JObject dbs) = Inr (JObject ?dbs)" using f m by simp
    have "dbs_ok ?dbs" using d(3) by (auto simp: dbs_ok_def)
    then obtain j' where j': "jmodify [''databases''] (jmodify [db, ''tables''] f) j = Inr j'" "catalog_wf j'"
      "directory_of j' = dbs_directory ?dbs" "jread [''databases''] j' = JObject ?dbs"
      using modify [of "jmodify [db, ''tables''] f" ?dbs] step by blast
    have "dbs_directory ?dbs = (dbs_directory dbs)(db \<mapsto> map_of ts')" by (auto simp: dbs_directory_def fun_eq_iff)
    moreover have "jread [''databases'', db, ''tables''] j' = JObject ts'" using j'(4) by (simp split: option.splits)
    ultimately show "\<exists>j'. jmodify [''databases'', db, ''tables''] f j = Inr j' \<and> catalog_wf j' \<and>
      directory_of j' = (directory_of j)(db \<mapsto> map_of ts') \<and> jread [''databases'', db, ''tables''] j' = JObject ts'"
      using j'(1-3) jmodify_deeper [of "''databases''" "[]" "[db, ''tables'']" f j] d(4) by auto
  qed
qed

section \<open>The operations\<close>

lemma HasDatabase_at: "catalog_at c D \<Longrightarrow> HasDatabase c db \<longleftrightarrow> D db \<noteq> None"
  unfolding catalog_at_def
  by (elim conjE, erule wf_databases) (auto simp: HasDatabase_def jcontains_def dbs_directory_def)

lemma cmodify_databases:
  assumes "catalog_at c D"
  obtains dbs where "jread [''databases''] (ct_data c) = JObject dbs" "dbs_ok dbs" "D = dbs_directory dbs"
    "\<And>f dbs'. f (JObject dbs) = Inr (JObject dbs') \<Longrightarrow> dbs_ok dbs' \<Longrightarrow>
       \<exists>c'. cmodify [''databases''] f c = (Inr (), c') \<and> catalog_at c' (dbs_directory dbs') \<and>
         jread [''databases''] (ct_data c') = JObject dbs'"
proof -
  have wf: "catalog_wf (ct_data c)" and D: "directory_of (ct_data c) = D" using assms by (simp_all add: catalog_at_def)
  obtain dbs where d: "jread [''databases''] (ct_data c) = JObject dbs" "jcontains (ct_data c) ''databases''" "dbs_ok dbs"
    "directory_of (ct_data c) = dbs_directory dbs"
    and m: "\<And>f dbs'. f (JObject dbs) = Inr (JObject dbs') \<Longrightarrow> dbs_ok dbs' \<Longrightarrow>
       \<exists>j'. jmodify [''databases''] f (ct_data c) = Inr j' \<and> catalog_wf j' \<and> directory_of j' = dbs_directory dbs' \<and>
         jread [''databases''] j' = JObject dbs'"
    using wf_databases [OF wf] by blast
  show thesis
  proof (rule that [OF d(1,3)])
    show "D = dbs_directory dbs" using d(4) D by simp
    fix f :: "json \<Rightarrow> json result" and dbs' assume f: "f (JObject dbs) = Inr (JObject dbs')" "dbs_ok dbs'"
    then obtain j' where "jmodify [''databases''] f (ct_data c) = Inr j'" "catalog_wf j'" "directory_of j' = dbs_directory dbs'"
      "jread [''databases''] j' = JObject dbs'" using m by blast
    then show "\<exists>c'. cmodify [''databases''] f c = (Inr (), c') \<and> catalog_at c' (dbs_directory dbs') \<and>
      jread [''databases''] (ct_data c') = JObject dbs'"
      by (intro exI [of _ "c\<lparr>ct_data := j'\<rparr>"]) (simp add: cmodify_def catalog_at_def del: jmodify.simps jread.simps)
  qed
qed

lemma cmodify_tables:
  assumes "catalog_at c D" "D db = Some T"
  obtains ts where "jread [''databases'', db, ''tables''] (ct_data c) = JObject ts" "T = map_of ts"
    "jconst [''databases'', db, ''tables''] (ct_data c) = Inr (JObject ts)"
    "\<And>f ts'. f (JObject ts) = Inr (JObject ts') \<Longrightarrow>
       \<exists>c'. cmodify [''databases'', db, ''tables''] f c = (Inr (), c') \<and> catalog_at c' (D(db \<mapsto> map_of ts')) \<and>
         jread [''databases'', db, ''tables''] (ct_data c') = JObject ts'"
proof -
  have wf: "catalog_wf (ct_data c)" and D: "directory_of (ct_data c) = D" using assms by (simp_all add: catalog_at_def)
  have T: "directory_of (ct_data c) db = Some T" using assms(2) D by simp
  obtain ts where t: "jread [''databases'', db, ''tables''] (ct_data c) = JObject ts" "T = map_of ts"
    "jconst [''databases'', db, ''tables''] (ct_data c) = Inr (JObject ts)"
    and m: "\<And>f ts'. f (JObject ts) = Inr (JObject ts') \<Longrightarrow>
       \<exists>j'. jmodify [''databases'', db, ''tables''] f (ct_data c) = Inr j' \<and> catalog_wf j' \<and>
         directory_of j' = (directory_of (ct_data c))(db \<mapsto> map_of ts') \<and> jread [''databases'', db, ''tables''] j' = JObject ts'"
    using wf_tables [OF wf T] by blast
  show thesis
  proof (rule that [OF t])
    fix f :: "json \<Rightarrow> json result" and ts' assume f: "f (JObject ts) = Inr (JObject ts')"
    then obtain j' where "jmodify [''databases'', db, ''tables''] f (ct_data c) = Inr j'" "catalog_wf j'"
      "directory_of j' = D(db \<mapsto> map_of ts')" "jread [''databases'', db, ''tables''] j' = JObject ts'" using m D by metis
    then show "\<exists>c'. cmodify [''databases'', db, ''tables''] f c = (Inr (), c') \<and> catalog_at c' (D(db \<mapsto> map_of ts')) \<and>
      jread [''databases'', db, ''tables''] (ct_data c') = JObject ts'"
      by (intro exI [of _ "c\<lparr>ct_data := j'\<rparr>"]) (simp add: cmodify_def catalog_at_def del: jmodify.simps jread.simps)
  qed
qed

lemma Catalog_Save_at: "catalog_at c D \<Longrightarrow> catalog_at (Catalog_Save io c) D"
  by (simp add: catalog_at_def)

lemma Cat_CreateDatabase_at:
  assumes "catalog_at c D"
  shows "\<exists>c'. Cat_CreateDatabase io name c = (Inr (D name = None), c') \<and>
    catalog_at c' (if D name = None then D(name \<mapsto> Map.empty) else D)"
proof -
  obtain dbs where d: "dbs_ok dbs" "D = dbs_directory dbs" and m: "\<And>f dbs'. f (JObject dbs) = Inr (JObject dbs') \<Longrightarrow> dbs_ok dbs' \<Longrightarrow>
       \<exists>c'. cmodify [''databases''] f c = (Inr (), c') \<and> catalog_at c' (dbs_directory dbs') \<and>
         jread [''databases''] (ct_data c') = JObject dbs'"
    using cmodify_databases [OF assms] by metis
  obtain c1 where c1: "cmodify [''databases''] Inr c = (Inr (), c1)" "catalog_at c1 D" "jread [''databases''] (ct_data c1) = JObject dbs"
    using m [of Inr dbs] d by auto
  have known: "jcontains (jread [''databases''] (ct_data c1)) name \<longleftrightarrow> D name \<noteq> None"
    using c1(3) d(2) by (simp add: jcontains_def dbs_directory_def)
  show ?thesis
  proof (cases "D name = None")
    case False
    then show ?thesis using c1(1,2) known by (auto simp: Cat_CreateDatabase_def st_simps simp del: jread.simps)
  next
    case True
    obtain dbs1 where e: "jread [''databases''] (ct_data c1) = JObject dbs1" "dbs_ok dbs1" "D = dbs_directory dbs1"
      and m1: "\<And>f dbs'. f (JObject dbs1) = Inr (JObject dbs') \<Longrightarrow> dbs_ok dbs' \<Longrightarrow>
       \<exists>c'. cmodify [''databases''] f c1 = (Inr (), c') \<and> catalog_at c' (dbs_directory dbs') \<and>
         jread [''databases''] (ct_data c') = JObject dbs'"
      using cmodify_databases [OF c1(2)] by metis
    let ?new = "jobj [(''tables'', JObject [])]"
    have "dbs_ok (jput name ?new dbs1)" using e(2) by (auto simp: dbs_ok_def jobj_def)
    then obtain c2 where c2: "cmodify [''databases''] (jset name ?new) c1 = (Inr (), c2)" "catalog_at c2 (dbs_directory (jput name ?new dbs1))"
      using m1 [of "jset name ?new" "jput name ?new dbs1"] by auto
    have "dbs_directory (jput name ?new dbs1) = D(name \<mapsto> Map.empty)"
      using e(3) by (auto simp: dbs_directory_def jobj_def fun_eq_iff)
    then show ?thesis using c1(1) c2 known True Catalog_Save_at [of c2]
      by (simp add: Cat_CreateDatabase_def st_simps del: jread.simps)
  qed
qed

lemma Cat_DropDatabase_at:
  assumes "catalog_at c D"
  shows "\<exists>ts c'. Cat_DropDatabase io name c = (Inr ts, c') \<and> catalog_at c' (D(name := None)) \<and>
    set ts = (case D name of None \<Rightarrow> {} | Some T \<Rightarrow> TableRef name ` dom T)"
proof -
  obtain dbs where d: "dbs_ok dbs" "D = dbs_directory dbs" and m: "\<And>f dbs'. f (JObject dbs) = Inr (JObject dbs') \<Longrightarrow> dbs_ok dbs' \<Longrightarrow>
       \<exists>c'. cmodify [''databases''] f c = (Inr (), c') \<and> catalog_at c' (dbs_directory dbs') \<and>
         jread [''databases''] (ct_data c') = JObject dbs'"
    using cmodify_databases [OF assms] by metis
  obtain c1 where c1: "cmodify [''databases''] Inr c = (Inr (), c1)" "catalog_at c1 D" "jread [''databases''] (ct_data c1) = JObject dbs"
    using m [of Inr dbs] d by auto
  have known: "jcontains (jread [''databases''] (ct_data c1)) name \<longleftrightarrow> D name \<noteq> None"
    using c1(3) d(2) by (simp add: jcontains_def dbs_directory_def)
  show ?thesis
  proof (cases "D name")
    case None
    then have "D(name := None) = D" by auto
    then show ?thesis using c1(1,2) known None by (auto simp: Cat_DropDatabase_def st_simps simp del: jread.simps)
  next
    case (Some T)
    obtain ts where t: "T = map_of ts" and mt: "\<And>f ts'. f (JObject ts) = Inr (JObject ts') \<Longrightarrow>
       \<exists>c'. cmodify [''databases'', name, ''tables''] f c1 = (Inr (), c') \<and> catalog_at c' (D(name \<mapsto> map_of ts')) \<and>
         jread [''databases'', name, ''tables''] (ct_data c') = JObject ts'"
      using cmodify_tables [OF c1(2) Some] by metis
    have "D(name \<mapsto> map_of ts) = D" using t Some by auto
    then obtain c2 where c2: "cmodify [''databases'', name, ''tables''] Inr c1 = (Inr (), c2)" "catalog_at c2 D"
      "jread [''databases'', name, ''tables''] (ct_data c2) = JObject ts"
      using mt [of Inr ts] by auto
    obtain dbs2 where e: "dbs_ok dbs2" "D = dbs_directory dbs2"
      and m2: "\<And>f dbs'. f (JObject dbs2) = Inr (JObject dbs') \<Longrightarrow> dbs_ok dbs' \<Longrightarrow>
       \<exists>c'. cmodify [''databases''] f c2 = (Inr (), c') \<and> catalog_at c' (dbs_directory dbs') \<and>
         jread [''databases''] (ct_data c') = JObject dbs'"
      using cmodify_databases [OF c2(2)] by metis
    let ?left = "filter (\<lambda>(k', _). k' \<noteq> name) dbs2"
    have "dbs_ok ?left" using e(1) by (auto simp: dbs_ok_def map_of_without)
    then obtain c3 where c3: "cmodify [''databases''] (jerase name) c2 = (Inr (), c3)" "catalog_at c3 (dbs_directory ?left)"
      using m2 [of "jerase name" ?left] by auto
    have "dbs_directory ?left = D(name := None)" using e(2) by (auto simp: dbs_directory_def map_of_without fun_eq_iff)
    moreover have "set (map (TableRef name) (map fst ts)) = TableRef name ` dom T" by (simp add: t dom_map_of_conv_image_fst image_image)
    ultimately show ?thesis using c1(1) c2(1,3) c3 known Some Catalog_Save_at [of c3]
      by (auto simp: Cat_DropDatabase_def st_simps simp del: jread.simps)
  qed
qed

lemma ResolveTable_at:
  assumes "catalog_at c D"
  shows "ResolveTable c t = Inr (case D (RefDatabase t) of None \<Rightarrow> None | Some T \<Rightarrow> if T (RefTable t) \<noteq> None then Some t else None)"
proof (cases "D (RefDatabase t)")
  case None
  then show ?thesis using HasDatabase_at [OF assms] by (simp add: ResolveTable_def)
next
  case (Some T)
  obtain ts where ts: "T = map_of ts" "jconst [''databases'', RefDatabase t, ''tables''] (ct_data c) = Inr (JObject ts)"
    using cmodify_tables [OF assms Some] by metis
  then show ?thesis using Some HasDatabase_at [OF assms]
    by (cases t) (simp add: ResolveTable_def TableRef_def jcontains_def del: jconst.simps)
qed

lemma HasTable_at:
  assumes "catalog_at c D"
  shows "HasTable c t = Inr (\<exists>T. D (RefDatabase t) = Some T \<and> RefTable t \<in> dom T)"
  by (auto simp: HasTable_def ResolveTable_at [OF assms] split: option.splits)

lemma Cat_CreateTable_at:
  assumes "catalog_at c D" "SerializeAst (CreateTableStmt t cs) = Inr j"
  shows "\<exists>c'. Cat_CreateTable io t cs c = (Inr (\<exists>T. D (RefDatabase t) = Some T \<and> RefTable t \<notin> dom T), c') \<and>
    catalog_at c' (case D (RefDatabase t) of None \<Rightarrow> D
      | Some T \<Rightarrow> if RefTable t \<in> dom T then D else D(RefDatabase t \<mapsto> T(RefTable t \<mapsto> j)))"
proof (cases "D (RefDatabase t)")
  case None
  then show ?thesis using HasDatabase_at [OF assms(1), of "RefDatabase t"] assms(1) by (simp add: Cat_CreateTable_def st_simps Let_def)
next
  case (Some T)
  let ?path = "[''databases'', RefDatabase t, ''tables'']"
  have known: "HasDatabase c (RefDatabase t)" using HasDatabase_at [OF assms(1)] Some by simp
  obtain ts where ts: "T = map_of ts" and m: "\<And>f ts'. f (JObject ts) = Inr (JObject ts') \<Longrightarrow>
       \<exists>c'. cmodify ?path f c = (Inr (), c') \<and> catalog_at c' (D(RefDatabase t \<mapsto> map_of ts')) \<and> jread ?path (ct_data c') = JObject ts'"
    using cmodify_tables [OF assms(1) Some] by metis
  have same: "D(RefDatabase t \<mapsto> map_of ts) = D" using ts Some by auto
  then obtain c1 where c1: "cmodify ?path Inr c = (Inr (), c1)" "catalog_at c1 D" "jread ?path (ct_data c1) = JObject ts"
    using m [of Inr ts] by auto
  have taken: "jcontains (jread ?path (ct_data c1)) (RefTable t) \<longleftrightarrow> RefTable t \<in> dom T"
    using c1(3) ts by (auto simp: jcontains_def simp del: jread.simps)
  show ?thesis
  proof (cases "RefTable t \<in> dom T")
    case True
    then show ?thesis using Some known c1(1,2) taken
      by (simp add: Cat_CreateTable_def st_simps Let_def del: jread.simps)
  next
    case False
    obtain ts1 where ts1: "T = map_of ts1" and m1: "\<And>f ts'. f (JObject ts1) = Inr (JObject ts') \<Longrightarrow>
       \<exists>c'. cmodify ?path f c1 = (Inr (), c') \<and> catalog_at c' (D(RefDatabase t \<mapsto> map_of ts')) \<and> jread ?path (ct_data c') = JObject ts'"
      using cmodify_tables [OF c1(2) Some] by metis
    obtain c2 where c2: "cmodify ?path (jset (RefTable t) j) c1 = (Inr (), c2)"
      "catalog_at c2 (D(RefDatabase t \<mapsto> map_of (jput (RefTable t) j ts1)))"
      using m1 [of "jset (RefTable t) j" "jput (RefTable t) j ts1"] by auto
    have "map_of (jput (RefTable t) j ts1) = T(RefTable t \<mapsto> j)" using ts1 by (auto simp: fun_eq_iff)
    then show ?thesis using Some known c1(1) c2 taken False assms(2) Catalog_Save_at [of c2]
      by (simp add: Cat_CreateTable_def st_simps Let_def sbind_def del: jread.simps)
  qed
qed

lemma Cat_DropTable_at:
  assumes "catalog_at c D"
  shows "\<exists>c'. Cat_DropTable io t c = (Inr (\<exists>T. D (RefDatabase t) = Some T \<and> RefTable t \<in> dom T), c') \<and>
    catalog_at c' (case D (RefDatabase t) of None \<Rightarrow> D | Some T \<Rightarrow> D(RefDatabase t \<mapsto> T(RefTable t := None)))"
proof (cases "\<exists>T. D (RefDatabase t) = Some T \<and> RefTable t \<in> dom T")
  case False
  then have "ResolveTable c t = Inr None" using ResolveTable_at [OF assms] by (auto split: option.splits)
  moreover have "D(RefDatabase t \<mapsto> T(RefTable t := None)) = D" if "D (RefDatabase t) = Some T" for T
    using False that by (metis domIff fun_upd_triv)
  ultimately show ?thesis using assms False by (auto simp: Cat_DropTable_def st_simps sbind_def split: option.split)
next
  case True
  then obtain T where T: "D (RefDatabase t) = Some T" "RefTable t \<in> dom T" by blast
  let ?path = "[''databases'', RefDatabase t, ''tables'']"
  obtain ts where ts: "T = map_of ts" and m: "\<And>f ts'. f (JObject ts) = Inr (JObject ts') \<Longrightarrow>
       \<exists>c'. cmodify ?path f c = (Inr (), c') \<and> catalog_at c' (D(RefDatabase t \<mapsto> map_of ts')) \<and> jread ?path (ct_data c') = JObject ts'"
    using cmodify_tables [OF assms T(1)] by metis
  let ?left = "filter (\<lambda>(k', _). k' \<noteq> RefTable t) ts"
  obtain c1 where c1: "cmodify ?path (jerase (RefTable t)) c = (Inr (), c1)" "catalog_at c1 (D(RefDatabase t \<mapsto> map_of ?left))"
    using m [of "jerase (RefTable t)" ?left] by auto
  have "map_of ?left = T(RefTable t := None)" using ts by (simp add: map_of_without)
  moreover have "ResolveTable c t = Inr (Some t)" using ResolveTable_at [OF assms, of t] T by (auto split: option.splits)
  ultimately show ?thesis using c1 T True Catalog_Save_at [of c1]
    by (simp add: Cat_DropTable_def st_simps sbind_def)
qed

text \<open>A statement with a literal that has no JSON form throws and leaves the directory as it was.\<close>

lemma Cat_CreateTable_throws:
  assumes "catalog_at c D" "SerializeAst (CreateTableStmt t cs) = Inl e"
  shows "\<exists>c'. catalog_at c' D \<and> (Cat_CreateTable io t cs c = (Inr False, c') \<or> Cat_CreateTable io t cs c = (Inl e, c'))"
proof (cases "D (RefDatabase t)")
  case None
  then show ?thesis using HasDatabase_at [OF assms(1), of "RefDatabase t"] assms(1) by (simp add: Cat_CreateTable_def st_simps Let_def)
next
  case (Some T)
  let ?path = "[''databases'', RefDatabase t, ''tables'']"
  have known: "HasDatabase c (RefDatabase t)" using HasDatabase_at [OF assms(1)] Some by simp
  obtain ts where ts: "T = map_of ts" and m: "\<And>f ts'. f (JObject ts) = Inr (JObject ts') \<Longrightarrow>
       \<exists>c'. cmodify ?path f c = (Inr (), c') \<and> catalog_at c' (D(RefDatabase t \<mapsto> map_of ts')) \<and> jread ?path (ct_data c') = JObject ts'"
    using cmodify_tables [OF assms(1) Some] by metis
  have "D(RefDatabase t \<mapsto> map_of ts) = D" using ts Some by auto
  then obtain c1 where c1: "cmodify ?path Inr c = (Inr (), c1)" "catalog_at c1 D"
    using m [of Inr ts] by auto
  then show ?thesis using known assms(2)
    by (cases "jcontains (jread ?path (ct_data c1)) (RefTable t)")
      (auto simp: Cat_CreateTable_def st_simps Let_def sbind_def simp del: jread.simps)
qed

end
