(* ===== verification/Storage_Registry.thy ===== *)
theory Storage_Registry
  imports Sql_Lexer Effects "HOL-Library.Word"
begin

text \<open>
  The registry of storage processes, \<open>apps/server/src/registry.cpp\<close>: which process serves which table,
  on which port, and whether it is up. Starting a process belongs to the operating system: its outcome is
  an argument. \<open>rg_alive\<close> holds the processes that were started and not yet killed.
\<close>

section \<open>Directories\<close>

definition path_char :: "char \<Rightarrow> char" where
  "path_char c = (if is_alnum c \<or> c = CHR ''_'' \<or> c = CHR ''-'' then c else CHR ''_'')"

definition path_part :: "string \<Rightarrow> string" where
  "path_part part = (if part = [] then ''_'' else part)"

text \<open>A path is the list of its parts.\<close>

fun sanitize :: "string \<Rightarrow> string \<Rightarrow> string list \<Rightarrow> string list" where
  "sanitize [] part path = path @ [path_part part]"
| "sanitize (c # cs) part path =
     (if c = CHR ''.'' then sanitize cs [] (path @ [path_part part]) else sanitize cs (part @ [path_char c]) path)"

definition SanitizedPath :: "string \<Rightarrow> string list" where
  "SanitizedPath value = sanitize value [] []"

section \<open>Nodes\<close>

datatype storage_state = Node_Down | Node_Up | Node_Unknown

record storage_node =
  nd_host :: string
  nd_port :: "32 word"
  nd_state :: storage_state

definition StorageNode :: "string \<Rightarrow> 32 word \<Rightarrow> storage_state \<Rightarrow> storage_node" where
  "StorageNode host port state = \<lparr>nd_host = host, nd_port = port, nd_state = state\<rparr>"

text \<open>A storage identifier is the key of a table; the nodes are listed in some order.\<close>

record registry =
  rg_nodes :: "(string \<times> storage_node) list"
  rg_processes :: "string \<rightharpoonup> int"
  rg_alive :: "int set"
  rg_next_port :: "32 word"
  rg_auto_start :: bool
  rg_binary :: string
  rg_root :: "string list"

definition Registry :: "bool \<Rightarrow> string \<Rightarrow> string list \<Rightarrow> registry" where
  "Registry auto_start binary root = \<lparr>rg_nodes = [], rg_processes = Map.empty, rg_alive = {}, rg_next_port = 9001,
     rg_auto_start = auto_start, rg_binary = binary, rg_root = root\<rparr>"

section \<open>Processes\<close>

text \<open>
  What the system answers: whether the default binary is there, whether the directory can be created,
  the identifier of the child if \<open>fork\<close> succeeds, and at which attempts the child accepts a connection.
\<close>

record start_outcome =
  so_default_binary :: bool
  so_directory :: bool
  so_child :: "int option"
  so_ready :: "nat \<Rightarrow> bool"

definition DataDirFor :: "registry \<Rightarrow> string \<Rightarrow> string list" where
  "DataDirFor rg k = rg_root rg @ SanitizedPath k"

definition ResolveStorageBinary :: "start_outcome \<Rightarrow> registry \<Rightarrow> string" where
  "ResolveStorageBinary os rg =
     (if rg_binary rg \<noteq> [] then rg_binary rg else if so_default_binary os then ''qdb-storage'' else [])"

fun ready_within :: "(nat \<Rightarrow> bool) \<Rightarrow> nat \<Rightarrow> nat \<Rightarrow> bool" where
  "ready_within ready i 0 = False"
| "ready_within ready i (Suc n) = (if ready i then True else ready_within ready (i + 1) n)"

definition WaitUntilReady :: "start_outcome \<Rightarrow> bool" where
  "WaitUntilReady os = ready_within (so_ready os) 0 40"

text \<open>A process that does not end on \<open>SIGTERM\<close> is killed: in both cases it is gone.\<close>

definition StopProcess :: "string \<Rightarrow> registry \<Rightarrow> registry" where
  "StopProcess k rg =
     (case rg_processes rg k of
        None \<Rightarrow> rg
      | Some pid \<Rightarrow> rg\<lparr>rg_processes := (rg_processes rg)(k := None), rg_alive := rg_alive rg - {pid}\<rparr>)"

definition StartProcess :: "start_outcome \<Rightarrow> string \<Rightarrow> (registry, bool) st" where
  "StartProcess os k rg =
     (if ResolveStorageBinary os rg = [] then (Inr False, rg)
      else if \<not> so_directory os then (Inl (Runtime_Error ''filesystem error''), rg)
      else case so_child os of
        None \<Rightarrow> (Inr False, rg)
      | Some pid \<Rightarrow>
          let rg = rg\<lparr>rg_processes := (rg_processes rg)(k \<mapsto> pid), rg_alive := insert pid (rg_alive rg)\<rparr>
          in if WaitUntilReady os then (Inr True, rg) else (Inr False, StopProcess k rg))"

section \<open>Operations\<close>

definition HasNode :: "registry \<Rightarrow> string \<Rightarrow> bool" where
  "HasNode rg k \<longleftrightarrow> map_of (rg_nodes rg) k \<noteq> None"

definition GetNode :: "registry \<Rightarrow> string \<Rightarrow> storage_node option" where
  "GetNode rg k = map_of (rg_nodes rg) k"

definition GetNodes :: "registry \<Rightarrow> (string \<times> storage_node) list" where
  "GetNodes rg = rg_nodes rg"

definition set_state :: "string \<Rightarrow> storage_state \<Rightarrow> registry \<Rightarrow> registry" where
  "set_state k s rg = rg\<lparr>rg_nodes := map (\<lambda>(k', n). (k', if k' = k then n\<lparr>nd_state := s\<rparr> else n)) (rg_nodes rg)\<rparr>"

definition CreateNode :: "start_outcome \<Rightarrow> string \<Rightarrow> (registry, bool) st" where
  "CreateNode os k rg =
     (if HasNode rg k then (Inr True, rg)
      else
        let node = StorageNode ''127.0.0.1'' (rg_next_port rg) Node_Unknown;
            rg = rg\<lparr>rg_next_port := rg_next_port rg + 1\<rparr>;
            add = (\<lambda>rg. rg\<lparr>rg_nodes := (k, node) # rg_nodes rg\<rparr>)
        in if \<not> rg_auto_start rg then (Inr True, add rg)
           else case StartProcess os k rg of
             (Inr True, rg) \<Rightarrow> (Inr True, add rg)
           | (Inr False, rg) \<Rightarrow> (Inr False, rg)
           | (Inl e, rg) \<Rightarrow> (Inl e, rg))"

definition UpdateNode :: "string \<Rightarrow> storage_state \<Rightarrow> registry \<Rightarrow> bool \<times> registry" where
  "UpdateNode k s rg = (if \<not> HasNode rg k then (False, rg) else (True, set_state k s rg))"

definition RestartNode :: "start_outcome \<Rightarrow> string \<Rightarrow> (registry, bool) st" where
  "RestartNode os k rg =
     (if \<not> HasNode rg k then (Inr False, rg)
      else
        let rg = StopProcess k rg
        in if \<not> rg_auto_start rg then (Inr False, set_state k Node_Down rg)
           else case StartProcess os k rg of
             (Inr True, rg) \<Rightarrow> (Inr True, set_state k Node_Up rg)
           | (Inr False, rg) \<Rightarrow> (Inr False, set_state k Node_Down rg)
           | (Inl e, rg) \<Rightarrow> (Inl e, rg))"

definition DropNode :: "string \<Rightarrow> registry \<Rightarrow> bool \<times> registry" where
  "DropNode k rg =
     (if \<not> HasNode rg k then (False, rg)
      else (True, (StopProcess k rg)\<lparr>rg_nodes := filter (\<lambda>(k', _). k' \<noteq> k) (rg_nodes rg)\<rparr>))"

text \<open>The destructor.\<close>

definition close_registry :: "registry \<Rightarrow> registry" where
  "close_registry rg = fold (\<lambda>(k, _). StopProcess k) (rg_nodes rg) rg"

section \<open>The invariant\<close>

text \<open>
  Every node has its own 16-bit port as long as fewer than \<open>2 ^ 16 - 9001\<close> nodes were created, the
  processes that run are those of the nodes, one for each at most.
\<close>

definition registry_ok :: "registry \<Rightarrow> bool" where
  "registry_ok rg \<longleftrightarrow>
     distinct (map fst (rg_nodes rg)) \<and>
     distinct (map (nd_port \<circ> snd) (rg_nodes rg)) \<and>
     (\<forall>(k, n) \<in> set (rg_nodes rg). nd_port n < rg_next_port rg) \<and>
     dom (rg_processes rg) \<subseteq> fst ` set (rg_nodes rg) \<and>
     inj_on (rg_processes rg) (dom (rg_processes rg)) \<and>
     rg_alive rg = ran (rg_processes rg)"

text \<open>A child gets an identifier that no running process has.\<close>

definition new_child :: "start_outcome \<Rightarrow> registry \<Rightarrow> bool" where
  "new_child os rg \<longleftrightarrow> (\<forall>pid. so_child os = Some pid \<longrightarrow> pid \<notin> rg_alive rg)"

lemma Registry_ok: "registry_ok (Registry auto binary root)"
  by (simp add: registry_ok_def Registry_def)

text \<open>The part of the invariant that concerns the processes.\<close>

definition processes_ok :: "registry \<Rightarrow> bool" where
  "processes_ok rg \<longleftrightarrow> inj_on (rg_processes rg) (dom (rg_processes rg)) \<and> rg_alive rg = ran (rg_processes rg)"

lemma inj_without: "inj_on m (dom m) \<Longrightarrow> inj_on (m(k := None)) (dom (m(k := None)))"
  by (rule inj_onI) (auto dest: inj_onD split: if_splits)

lemma inj_with:
  assumes "inj_on m (dom m)" "v \<notin> ran m"
  shows "inj_on (m(k \<mapsto> v)) (dom (m(k \<mapsto> v)))"
proof (rule inj_onI)
  fix x y assume xy: "x \<in> dom (m(k \<mapsto> v))" "y \<in> dom (m(k \<mapsto> v))" "(m(k \<mapsto> v)) x = (m(k \<mapsto> v)) y"
  have "m z \<noteq> Some v" for z using assms(2) by (auto simp: ran_def)
  then show "x = y" using xy inj_onD [OF assms(1), of x y] by (metis domIff fun_upd_other fun_upd_same)
qed

lemma StopProcess_frame [simp]:
  "rg_nodes (StopProcess k rg) = rg_nodes rg" "rg_next_port (StopProcess k rg) = rg_next_port rg"
  "rg_auto_start (StopProcess k rg) = rg_auto_start rg" "rg_binary (StopProcess k rg) = rg_binary rg"
  by (simp_all add: StopProcess_def split: option.split)

lemma StopProcess_processes:
  assumes "processes_ok rg"
  shows "rg_processes (StopProcess k rg) = (rg_processes rg)(k := None)" "processes_ok (StopProcess k rg)"
    "rg_alive (StopProcess k rg) \<subseteq> rg_alive rg"
proof -
  show p: "rg_processes (StopProcess k rg) = (rg_processes rg)(k := None)"
    by (auto simp: StopProcess_def split: option.split)
  show "rg_alive (StopProcess k rg) \<subseteq> rg_alive rg" by (auto simp: StopProcess_def split: option.split)
  show "processes_ok (StopProcess k rg)"
  proof (cases "rg_processes rg k")
    case None
    then show ?thesis using assms by (simp add: StopProcess_def)
  next
    case (Some pid)
    have only: "k' = k" if "rg_processes rg k' = Some pid" for k'
      using assms Some that unfolding processes_ok_def by (metis domI inj_onD)
    have "ran ((rg_processes rg)(k := None)) = {v. \<exists>k'. k' \<noteq> k \<and> rg_processes rg k' = Some v}"
      by (rule set_eqI) (auto simp: ran_def)
    also have "\<dots> = ran (rg_processes rg) - {pid}"
    proof (intro equalityI subsetI)
      fix v assume "v \<in> {v. \<exists>k'. k' \<noteq> k \<and> rg_processes rg k' = Some v}"
      then obtain k' where "k' \<noteq> k" "rg_processes rg k' = Some v" by blast
      then show "v \<in> ran (rg_processes rg) - {pid}" using only by (blast intro: ranI)
    next
      fix v assume "v \<in> ran (rg_processes rg) - {pid}"
      then obtain k' where "rg_processes rg k' = Some v" "v \<noteq> pid" by (auto simp: ran_def)
      moreover from this have "k' \<noteq> k" using Some by auto
      ultimately show "v \<in> {v. \<exists>k'. k' \<noteq> k \<and> rg_processes rg k' = Some v}" by blast
    qed
    finally have "ran ((rg_processes rg)(k := None)) = ran (rg_processes rg) - {pid}" .
    moreover have "inj_on ((rg_processes rg)(k := None)) (dom ((rg_processes rg)(k := None)))"
      using assms unfolding processes_ok_def by (blast intro: inj_without)
    ultimately show ?thesis using assms Some by (simp add: processes_ok_def StopProcess_def)
  qed
qed

lemma StartProcess_processes:
  assumes "processes_ok rg" "new_child os rg" "rg_processes rg k = None" "StartProcess os k rg = (r, rg')"
  shows "processes_ok rg'" "rg_nodes rg' = rg_nodes rg" "rg_next_port rg' = rg_next_port rg" "rg_auto_start rg' = rg_auto_start rg"
    "\<exists>pid. rg_processes rg' = (rg_processes rg)(k := pid) \<and> (r = Inr True \<longleftrightarrow> pid \<noteq> None)"
proof -
  define rg1 where "rg1 pid = rg\<lparr>rg_processes := (rg_processes rg)(k \<mapsto> pid), rg_alive := insert pid (rg_alive rg)\<rparr>" for pid
  have ok1: "processes_ok (rg1 pid)" if "so_child os = Some pid" for pid
  proof -
    have new: "pid \<notin> ran (rg_processes rg)" using assms(1,2) that by (simp add: new_child_def processes_ok_def)
    then have "inj_on ((rg_processes rg)(k \<mapsto> pid)) (dom ((rg_processes rg)(k \<mapsto> pid)))"
      using assms(1) unfolding processes_ok_def by (blast intro: inj_with)
    then show ?thesis using assms(1,3) by (simp add: processes_ok_def rg1_def ran_map_upd)
  qed
  have stopped: "processes_ok (StopProcess k (rg1 pid)) \<and> rg_processes (StopProcess k (rg1 pid)) = (rg_processes rg)(k := None)"
    if "so_child os = Some pid" for pid
    using StopProcess_processes [OF ok1 [OF that], of k] by (simp add: rg1_def)
  have same: "(rg_processes rg)(k := None) = rg_processes rg" using assms(3) by auto
  note run = assms(4) [unfolded StartProcess_def Let_def, folded rg1_def]
  show "processes_ok rg'" using run assms(1) ok1 stopped by (auto split: if_splits option.splits)
  show "rg_nodes rg' = rg_nodes rg" "rg_next_port rg' = rg_next_port rg" "rg_auto_start rg' = rg_auto_start rg"
    using run by (auto simp: rg1_def split: if_splits option.splits)
  show "\<exists>pid. rg_processes rg' = (rg_processes rg)(k := pid) \<and> (r = Inr True \<longleftrightarrow> pid \<noteq> None)"
  proof (cases "r = Inr True")
    case True
    then obtain pid where "rg' = rg1 pid" using run by (auto split: if_splits option.splits)
    then show ?thesis using True by (intro exI [of _ "Some pid"]) (simp add: rg1_def)
  next
    case False
    then have "rg_processes rg' = (rg_processes rg)(k := None)"
      using run stopped same by (auto split: if_splits option.splits)
    then show ?thesis using False by (intro exI [of _ None]) simp
  qed
qed

definition nodes_ok :: "(string \<times> storage_node) list \<Rightarrow> 32 word \<Rightarrow> bool" where
  "nodes_ok ns next \<longleftrightarrow> distinct (map fst ns) \<and> distinct (map (nd_port \<circ> snd) ns) \<and> (\<forall>(k, n) \<in> set ns. nd_port n < next)"

lemma registry_ok_parts:
  "registry_ok rg \<longleftrightarrow> nodes_ok (rg_nodes rg) (rg_next_port rg) \<and> dom (rg_processes rg) \<subseteq> fst ` set (rg_nodes rg) \<and> processes_ok rg"
  by (auto simp: registry_ok_def nodes_ok_def processes_ok_def)

lemma HasNode_set: "HasNode rg k \<longleftrightarrow> k \<in> fst ` set (rg_nodes rg)"
  by (simp add: HasNode_def map_of_eq_None_iff)

lemma set_state_frame [simp]:
  "map fst (rg_nodes (set_state k s rg)) = map fst (rg_nodes rg)"
  "map (nd_port \<circ> snd) (rg_nodes (set_state k s rg)) = map (nd_port \<circ> snd) (rg_nodes rg)"
  "rg_processes (set_state k s rg) = rg_processes rg" "rg_alive (set_state k s rg) = rg_alive rg"
  "rg_next_port (set_state k s rg) = rg_next_port rg" "rg_auto_start (set_state k s rg) = rg_auto_start rg"
  by (auto simp: set_state_def)

lemma set_state_ok: "registry_ok rg \<Longrightarrow> registry_ok (set_state k s rg)"
proof -
  assume ok: "registry_ok rg"
  have "fst ` set (rg_nodes (set_state k s rg)) = fst ` set (rg_nodes rg)"
    using set_state_frame(1) [of k s rg] by (metis set_map)
  moreover have "\<forall>(k, n) \<in> set (rg_nodes (set_state k s rg)). nd_port n < rg_next_port rg"
    using ok by (auto simp: set_state_def registry_ok_parts nodes_ok_def)
  ultimately show ?thesis
    using ok unfolding registry_ok_parts nodes_ok_def processes_ok_def set_state_frame by simp
qed

lemma set_state_node:
  "GetNode (set_state k s rg) k' = (if k' = k then map_option (nd_state_update (\<lambda>_. s)) (GetNode rg k) else GetNode rg k')"
proof -
  have "map_of (map (\<lambda>(k', n). (k', if k' = k then n\<lparr>nd_state := s\<rparr> else n)) ns) k' =
    (if k' = k then map_option (nd_state_update (\<lambda>_. s)) (map_of ns k) else map_of ns k')" for ns
    by (induction ns) auto
  from this [of "rg_nodes rg"] show ?thesis by (cases "k' = k") (simp_all add: GetNode_def set_state_def)
qed

lemma StopProcess_ok: "registry_ok rg \<Longrightarrow> registry_ok (StopProcess k rg)"
  using StopProcess_processes [of rg k] by (auto simp: registry_ok_parts)

lemma CreateNode_ok:
  assumes "registry_ok rg" "new_child os rg" "unat (rg_next_port rg) + 1 < 2 ^ 32" "CreateNode os k rg = (r, rg')"
  shows "registry_ok rg'"
    and "r = Inr True \<Longrightarrow> HasNode rg' k" "r \<noteq> Inr True \<Longrightarrow> rg_nodes rg' = rg_nodes rg \<and> \<not> HasNode rg k"
    and "k' \<noteq> k \<Longrightarrow> GetNode rg' k' = GetNode rg k'"
proof -
  let ?node = "StorageNode ''127.0.0.1'' (rg_next_port rg) Node_Unknown"
  let ?rg = "rg\<lparr>rg_next_port := rg_next_port rg + 1\<rparr>"
  have n: "nodes_ok (rg_nodes rg) (rg_next_port rg)" "dom (rg_processes rg) \<subseteq> fst ` set (rg_nodes rg)" "processes_ok rg"
    using assms(1) by (simp_all add: registry_ok_parts)
  have up: "rg_next_port rg < rg_next_port rg + 1"
    using assms(3) by (simp add: word_less_nat_alt unat_word_ariths)
  have later: "nodes_ok (rg_nodes rg) (rg_next_port rg + 1)" using n(1) up by (auto simp: nodes_ok_def)
  have more: "nodes_ok ((k, ?node) # rg_nodes rg) (rg_next_port rg + 1)" if "\<not> HasNode rg k"
    using n(1) up that by (auto simp: nodes_ok_def HasNode_set StorageNode_def image_iff)
  have start: "processes_ok rg1 \<and> rg_nodes rg1 = rg_nodes rg \<and> rg_next_port rg1 = rg_next_port rg + 1 \<and>
      dom (rg_processes rg1) \<subseteq> insert k (dom (rg_processes rg)) \<and> (b \<noteq> Inr True \<longrightarrow> dom (rg_processes rg1) \<subseteq> dom (rg_processes rg))"
    if "StartProcess os k ?rg = (b, rg1)" "\<not> HasNode rg k" for b rg1
  proof -
    have "rg_processes ?rg k = None" using n(2) that(2) by (auto simp: HasNode_set)
    moreover have "processes_ok ?rg" "new_child os ?rg" using n(3) assms(2) by (simp_all add: processes_ok_def new_child_def)
    ultimately have st: "processes_ok rg1" "rg_nodes rg1 = rg_nodes rg" "rg_next_port rg1 = rg_next_port rg + 1"
      "\<exists>pid. rg_processes rg1 = (rg_processes rg)(k := pid) \<and> (b = Inr True \<longleftrightarrow> pid \<noteq> None)"
      using StartProcess_processes [of ?rg os k b rg1] that(1) by simp_all
    then obtain pid where pid: "rg_processes rg1 = (rg_processes rg)(k := pid)" "b = Inr True \<longleftrightarrow> pid \<noteq> None" by blast
    have "dom (rg_processes rg1) \<subseteq> insert k (dom (rg_processes rg))" unfolding pid(1) by (auto split: if_splits)
    moreover have "dom (rg_processes rg1) \<subseteq> dom (rg_processes rg)" if "b \<noteq> Inr True"
      using that unfolding pid(1) pid(2) by (auto split: if_splits)
    ultimately show ?thesis using st(1-3) by blast
  qed
  have "registry_ok rg' \<and> (r = Inr True \<longrightarrow> HasNode rg' k) \<and> (r \<noteq> Inr True \<longrightarrow> rg_nodes rg' = rg_nodes rg \<and> \<not> HasNode rg k) \<and>
    (k' \<noteq> k \<longrightarrow> GetNode rg' k' = GetNode rg k')"
  proof (cases "HasNode rg k")
    case True
    then show ?thesis using assms(1,4) by (simp add: CreateNode_def)
  next
    case False
    show ?thesis
    proof (cases "rg_auto_start rg")
      case noauto: False
      then have "r = Inr True" "rg' = ?rg\<lparr>rg_nodes := (k, ?node) # rg_nodes rg\<rparr>"
        using assms(4) False by (simp_all add: CreateNode_def Let_def)
      then show ?thesis using more [OF False] n(2,3)
        by (auto simp: registry_ok_parts processes_ok_def HasNode_set GetNode_def)
    next
      case True
      obtain b rg1 where s: "StartProcess os k ?rg = (b, rg1)" by fastforce
      note st = start [OF s False]
      have "r = b" "rg' = (if b = Inr True then rg1\<lparr>rg_nodes := (k, ?node) # rg_nodes rg1\<rparr> else rg1)"
        using assms(4) False True s by (auto simp: CreateNode_def Let_def split: sum.splits bool.splits)
      moreover have "dom (rg_processes rg1) \<subseteq> insert k (fst ` set (rg_nodes rg))"
        "b \<noteq> Inr True \<Longrightarrow> dom (rg_processes rg1) \<subseteq> fst ` set (rg_nodes rg)" using st n(2) by blast+
      ultimately show ?thesis using st more [OF False] later False
        by (cases "b = Inr True") (simp_all add: registry_ok_parts processes_ok_def HasNode_set GetNode_def)
    qed
  qed
  then show "registry_ok rg'" "r = Inr True \<Longrightarrow> HasNode rg' k" "r \<noteq> Inr True \<Longrightarrow> rg_nodes rg' = rg_nodes rg \<and> \<not> HasNode rg k"
    "k' \<noteq> k \<Longrightarrow> GetNode rg' k' = GetNode rg k'"
    by blast+
qed

lemma DropNode_ok:
  assumes "registry_ok rg" "DropNode k rg = (b, rg')"
  shows "registry_ok rg'" "\<not> HasNode rg' k" "k' \<noteq> k \<Longrightarrow> GetNode rg' k' = GetNode rg k'" "rg_next_port rg' = rg_next_port rg"
    and "rg_alive rg' \<subseteq> rg_alive rg" "k' \<noteq> k \<Longrightarrow> HasNode rg' k' = HasNode rg k'"
proof -
  have n: "nodes_ok (rg_nodes rg) (rg_next_port rg)" "dom (rg_processes rg) \<subseteq> fst ` set (rg_nodes rg)" "processes_ok rg"
    using assms(1) by (simp_all add: registry_ok_parts)
  note stop = StopProcess_processes [OF n(3), of k]
  have without: "map_of (filter (\<lambda>(k', _). k' \<noteq> k) ns) k' = (if k' = k then None else map_of ns k')" for ns k'
    by (induction ns) auto
  have fewer: "nodes_ok (filter (\<lambda>(k', _). k' \<noteq> k) (rg_nodes rg)) (rg_next_port rg)"
    using n(1) by (auto simp: nodes_ok_def intro: distinct_map_filter)
  show "registry_ok rg'"
  proof (cases "HasNode rg k")
    case True
    then have "rg' = (StopProcess k rg)\<lparr>rg_nodes := filter (\<lambda>(k', _). k' \<noteq> k) (rg_nodes rg)\<rparr>" using assms(2) by (simp add: DropNode_def)
    moreover have "dom ((rg_processes rg)(k := None)) \<subseteq> fst ` set (filter (\<lambda>(k', _). k' \<noteq> k) (rg_nodes rg))"
    proof
      fix j assume "j \<in> dom ((rg_processes rg)(k := None))"
      then have "j \<noteq> k" "j \<in> fst ` set (rg_nodes rg)" using n(2) by (auto split: if_splits)
      then show "j \<in> fst ` set (filter (\<lambda>(k', _). k' \<noteq> k) (rg_nodes rg))" by force
    qed
    ultimately show ?thesis using fewer stop by (simp add: registry_ok_parts processes_ok_def)
  next
    case False
    then show ?thesis using assms by (simp add: DropNode_def)
  qed
  show "\<not> HasNode rg' k" "k' \<noteq> k \<Longrightarrow> GetNode rg' k' = GetNode rg k'" "k' \<noteq> k \<Longrightarrow> HasNode rg' k' = HasNode rg k'"
    "rg_next_port rg' = rg_next_port rg" "rg_alive rg' \<subseteq> rg_alive rg"
    using assms(2) stop(3) by (auto simp: DropNode_def HasNode_def GetNode_def without split: if_splits)
qed

lemma RestartNode_ok:
  assumes "registry_ok rg" "new_child os rg" "RestartNode os k rg = (r, rg')"
  shows "registry_ok rg'" "HasNode rg' k' = HasNode rg k'" "k' \<noteq> k \<Longrightarrow> GetNode rg' k' = GetNode rg k'"
    and "r = Inr True \<Longrightarrow> \<exists>n. GetNode rg' k = Some n \<and> nd_state n = Node_Up \<and> rg_processes rg' k \<noteq> None"
    and "r = Inr False \<Longrightarrow> HasNode rg k \<Longrightarrow> \<exists>n. GetNode rg' k = Some n \<and> nd_state n = Node_Down \<and> rg_processes rg' k = None"
    and "rg_next_port rg' = rg_next_port rg" "rg_auto_start rg' = rg_auto_start rg"
proof -
  have p: "processes_ok rg" "dom (rg_processes rg) \<subseteq> fst ` set (rg_nodes rg)" using assms(1) by (simp_all add: registry_ok_parts)
  note stop = StopProcess_processes [OF p(1), of k]
  have has: "HasNode (set_state k s q) k' = HasNode q k'" for s q k' by (simp add: HasNode_set flip: set_map)
  let ?goal = "registry_ok rg' \<and> (\<forall>k'. HasNode rg' k' = HasNode rg k') \<and> (\<forall>k'. k' \<noteq> k \<longrightarrow> GetNode rg' k' = GetNode rg k') \<and>
    (r = Inr True \<longrightarrow> (\<exists>n. GetNode rg' k = Some n \<and> nd_state n = Node_Up \<and> rg_processes rg' k \<noteq> None)) \<and>
    (r = Inr False \<longrightarrow> HasNode rg k \<longrightarrow> (\<exists>n. GetNode rg' k = Some n \<and> nd_state n = Node_Down \<and> rg_processes rg' k = None)) \<and>
    rg_next_port rg' = rg_next_port rg \<and> rg_auto_start rg' = rg_auto_start rg"
  have ?goal
  proof (cases "HasNode rg k")
    case False
    then show ?thesis using assms by (auto simp: RestartNode_def)
  next
    case True
    then obtain n where n: "GetNode rg k = Some n" by (auto simp: HasNode_def GetNode_def)
    let ?rg = "StopProcess k rg"
    have ok1: "registry_ok ?rg" using StopProcess_ok assms(1) .
    have none: "rg_processes ?rg k = None" using stop(1) by simp
    have nodes: "GetNode q k' = GetNode rg k'" "HasNode q k' = HasNode rg k'" if "rg_nodes q = rg_nodes rg" for q k'
      using that by (simp_all add: GetNode_def HasNode_def)
    show ?thesis
    proof (cases "rg_auto_start rg")
      case False
      then have "r = Inr False" "rg' = set_state k Node_Down ?rg"
        using assms(3) True by (simp_all add: RestartNode_def Let_def)
      then show ?thesis using set_state_ok [OF ok1] has nodes [of ?rg] none n by (simp add: set_state_node)
    next
      case auto: True
      obtain b rg1 where s: "StartProcess os k ?rg = (b, rg1)" by fastforce
      have new: "new_child os ?rg" using assms(2) stop(3) by (auto simp: new_child_def)
      note st = StartProcess_processes [OF stop(2) new none s]
      obtain pid where pid: "rg_processes rg1 = (rg_processes ?rg)(k := pid)" "b = Inr True \<longleftrightarrow> pid \<noteq> None" using st(5) by blast
      have n1: "rg_nodes rg1 = rg_nodes rg" using st(2) by simp
      have "dom (rg_processes rg1) \<subseteq> fst ` set (rg_nodes rg1)"
        using p(2) True unfolding pid(1) stop(1) n1 HasNode_set by (auto split: if_splits)
      then have ok2: "registry_ok rg1" using st(1,2,3) assms(1) by (simp add: registry_ok_parts)
      have r: "r = b" "rg' = (case b of Inr True \<Rightarrow> set_state k Node_Up rg1 | Inr False \<Rightarrow> set_state k Node_Down rg1 | Inl _ \<Rightarrow> rg1)"
        using assms(3) True auto s by (auto simp: RestartNode_def Let_def split: sum.splits bool.splits)
      show ?thesis using r set_state_ok [OF ok2] ok2 has nodes [OF n1] pid n st(3,4)
        by (auto simp: set_state_node split: sum.splits bool.splits)
    qed
  qed
  then show "registry_ok rg'" "HasNode rg' k' = HasNode rg k'" "k' \<noteq> k \<Longrightarrow> GetNode rg' k' = GetNode rg k'"
    "r = Inr True \<Longrightarrow> \<exists>n. GetNode rg' k = Some n \<and> nd_state n = Node_Up \<and> rg_processes rg' k \<noteq> None"
    "r = Inr False \<Longrightarrow> HasNode rg k \<Longrightarrow> \<exists>n. GetNode rg' k = Some n \<and> nd_state n = Node_Down \<and> rg_processes rg' k = None"
    "rg_next_port rg' = rg_next_port rg" "rg_auto_start rg' = rg_auto_start rg"
    by blast+
qed

text \<open>The ports of 16 bits, which is what a socket has, are distinct while the counter has not passed \<open>2 ^ 16\<close>.\<close>

lemma socket_ports_distinct:
  assumes "registry_ok rg" "unat (rg_next_port rg) \<le> 2 ^ 16" "GetNode rg k = Some n" "GetNode rg k' = Some n'"
    and "(ucast (nd_port n) :: 16 word) = ucast (nd_port n')"
  shows "k = k'"
proof -
  have mem: "(k, n) \<in> set (rg_nodes rg)" "(k', n') \<in> set (rg_nodes rg)"
    using assms(3,4) by (auto simp: GetNode_def dest: map_of_SomeD)
  then have "unat (nd_port n) < 2 ^ 16" "unat (nd_port n') < 2 ^ 16"
    using assms(1,2) by (auto simp: registry_ok_def word_less_nat_alt)
  moreover have "unat (ucast (nd_port n) :: 16 word) = unat (ucast (nd_port n') :: 16 word)" using assms(5) by simp
  ultimately have "unat (nd_port n) = unat (nd_port n')" by (simp add: unsigned_ucast_eq take_bit_nat_eq_self)
  then have "nd_port n = nd_port n'" by (rule unsigned_word_eqI)
  moreover have "inj_on (nd_port \<circ> snd) (set (rg_nodes rg))" using assms(1) by (simp add: registry_ok_def distinct_map)
  ultimately have "(k, n) = (k', n')" using mem by (metis comp_apply inj_onD snd_conv)
  then show ?thesis by simp
qed

lemma CreateNode_nodes:
  assumes "registry_ok rg" "new_child os rg" "unat (rg_next_port rg) + 1 < 2 ^ 32" "CreateNode os k rg = (r, rg')"
  shows "fst ` set (rg_nodes rg') = (if r = Inr True then insert k (fst ` set (rg_nodes rg)) else fst ` set (rg_nodes rg))"
proof -
  note c = CreateNode_ok [OF assms]
  have "x \<in> fst ` set (rg_nodes rg') \<longleftrightarrow> x \<in> fst ` set (rg_nodes rg)" if "x \<noteq> k" for x
    using c(4) [OF that] HasNode_set [of rg x] HasNode_set [of rg' x] by (simp add: HasNode_def GetNode_def)
  then show ?thesis using c(2,3) by (auto simp: HasNode_set)
qed

lemma CreateNode_returns:
  assumes "so_directory os" "CreateNode os k rg = (r, rg')"
  shows "\<exists>b. r = Inr b"
  using assms by (auto simp: CreateNode_def StartProcess_def Let_def split: if_splits option.splits)

end
