(* ===== verification/Statement_Router.thy ===== *)
theory Statement_Router
  imports Catalog_Store Storage_Registry Sql_Analyzer Messages
begin

text \<open>
  The router, \<open>apps/server/src/router.cpp\<close>: a statement changes the catalog and the registry, and goes
  to the storage process of its table. The network is a parameter: connecting to an address, and sending
  a request there and waiting for the answer, each of which changes the world behind the network.
\<close>

section \<open>The network\<close>

datatype reply = Not_Sent | No_Reply | Answer response

record 'w network =
  net_connect :: "string \<Rightarrow> 32 word \<Rightarrow> 'w \<Rightarrow> bool \<times> 'w"
  net_exchange :: "string \<Rightarrow> 32 word \<Rightarrow> request \<Rightarrow> 'w \<Rightarrow> reply \<times> 'w"

section \<open>The router\<close>

record 'w router =
  ro_catalog :: catalog
  ro_registry :: registry
  ro_world :: 'w

definition on_catalog :: "(catalog, 'a) st \<Rightarrow> ('w router, 'a) st" where
  "on_catalog = on_part ro_catalog (\<lambda>c. ro_catalog_update (\<lambda>_. c))"

definition on_registry :: "(registry, 'a) st \<Rightarrow> ('w router, 'a) st" where
  "on_registry = on_part ro_registry (\<lambda>r. ro_registry_update (\<lambda>_. r))"

definition on_world :: "('w \<Rightarrow> 'a \<times> 'w) \<Rightarrow> ('w router, 'a) st" where
  "on_world f s = (case f (ro_world s) of (x, w) \<Rightarrow> (Inr x, s\<lparr>ro_world := w\<rparr>))"

definition drop_node :: "string \<Rightarrow> ('w router, unit) st" where
  "drop_node k = supd (\<lambda>s. s\<lparr>ro_registry := snd (DropNode k (ro_registry s))\<rparr>)"

definition TableKey :: "table_ref \<Rightarrow> string" where
  "TableKey t = (if RefDatabase t = [] then RefTable t else RefDatabase t @ ''.'' @ RefTable t)"

definition storage_data :: "string \<Rightarrow> json" where
  "storage_data k = jobj [(''storage_id'', JString k)]"

definition address_data :: "string \<Rightarrow> storage_node \<Rightarrow> json" where
  "address_data k n = jobj [(''storage_id'', JString k), (''host'', JString (nd_host n)), (''port'', JInt (uint (nd_port n)))]"

definition ast_request :: "json \<Rightarrow> request" where
  "ast_request ast = Request ''execute_ast'' (jobj [(''ast_root'', ast)])"

definition SendToStorage :: "'w network \<Rightarrow> string \<Rightarrow> statement \<Rightarrow> ('w router, response) st" where
  "SendToStorage net k stmt =
     sbind (sget (\<lambda>s. GetNode (ro_registry s) k)) (\<lambda>found.
       case found of
         None \<Rightarrow> sret (Rsp_ErrorData ''Storage node is not registered'' (storage_data k))
       | Some node \<Rightarrow>
           if nd_state node = Node_Down then sret (Rsp_ErrorData ''Storage node is down'' (address_data k node))
           else sbind (on_world (net_connect net (nd_host node) (nd_port node))) (\<lambda>connected.
             if \<not> connected then sret (Rsp_ErrorData ''Failed to connect to storage node'' (address_data k node))
             else sbind (slift (SerializeAst stmt)) (\<lambda>ast.
               sbind (on_world (net_exchange net (nd_host node) (nd_port node) (ast_request ast))) (\<lambda>r.
                 case r of
                   Not_Sent \<Rightarrow> sret (Rsp_ErrorData ''Failed to send request to storage'' (storage_data k))
                 | No_Reply \<Rightarrow> sret (Rsp_ErrorData ''Failed to receive response from storage'' (storage_data k))
                 | Answer r \<Rightarrow> sret r))))"

text \<open>\<open>ios\<close>: the outcomes of the saves of the catalog; \<open>os\<close>: of starting a process.\<close>

definition drop_tables :: "'w network \<Rightarrow> table_ref list \<Rightarrow> ('w router, unit) st" where
  "drop_tables net ts =
     siter (\<lambda>t. sbind (SendToStorage net (TableKey t) (DropTableStmt t)) (\<lambda>_. drop_node (TableKey t))) ts"

definition Route_CreateTable ::
    "(nat \<Rightarrow> save_io) \<Rightarrow> start_outcome \<Rightarrow> 'w network \<Rightarrow> table_ref \<Rightarrow> column_def list \<Rightarrow> ('w router, response) st" where
  "Route_CreateTable ios os net t cs =
     sbind (on_catalog (Cat_CreateTable (ios 0) t cs)) (\<lambda>created.
       if \<not> created then sret (Rsp_Error ''Table already exists or database not found'')
       else sbind (on_registry (CreateNode os (TableKey t))) (\<lambda>started.
         if \<not> started then
           sbind (on_catalog (Cat_DropTable (ios 1) t)) (\<lambda>_. sret (Rsp_Error ''Failed to create storage node in registry''))
         else sbind (SendToStorage net (TableKey t) (CreateTableStmt t cs)) (\<lambda>r.
           if IsError r then
             sbind (drop_node (TableKey t)) (\<lambda>_. sbind (on_catalog (Cat_DropTable (ios 1) t)) (\<lambda>_. sret r))
           else sret r)))"

definition Route_DropTable :: "(nat \<Rightarrow> save_io) \<Rightarrow> 'w network \<Rightarrow> table_ref \<Rightarrow> ('w router, response) st" where
  "Route_DropTable ios net t =
     sbind (\<lambda>s. (HasTable (ro_catalog s) t, s)) (\<lambda>known.
       if \<not> known then sret (Rsp_Error (''Table not found: '' @ TableKey t))
       else sbind (SendToStorage net (TableKey t) (DropTableStmt t)) (\<lambda>r.
         if IsSuccess r then
           sbind (on_catalog (Cat_DropTable (ios 0) t)) (\<lambda>_. sbind (drop_node (TableKey t)) (\<lambda>_. sret r))
         else sret r))"

definition Route_table :: "'w network \<Rightarrow> statement \<Rightarrow> ('w router, response) st" where
  "Route_table net stmt =
     (case TableFromStatement stmt of
        None \<Rightarrow> sret (Rsp_Error ''Cannot determine table from statement'')
      | Some t \<Rightarrow>
          sbind (\<lambda>s. (HasTable (ro_catalog s) t, s)) (\<lambda>known.
            if \<not> known then sret (Rsp_Error (''Table not found: '' @ TableKey t))
            else SendToStorage net (TableKey t) stmt))"

fun Route :: "(nat \<Rightarrow> save_io) \<Rightarrow> start_outcome \<Rightarrow> 'w network \<Rightarrow> statement \<Rightarrow> ('w router, response) st" where
  "Route ios os net (CreateDatabaseStmt name) =
     sbind (on_catalog (Cat_CreateDatabase (ios 0) name)) (\<lambda>created.
       sret (if created then Rsp_Success ''Database created'' (JObject []) else Rsp_Error (''Database already exists: '' @ name)))"
| "Route ios os net (DropDatabaseStmt name) =
     sbind (on_catalog (Cat_DropDatabase (ios 0) name)) (\<lambda>ts.
       sbind (drop_tables net ts) (\<lambda>_. sret (Rsp_Success ''Database dropped'' (JObject []))))"
| "Route ios os net (UseDatabaseStmt name) =
     sbind (sget (\<lambda>s. HasDatabase (ro_catalog s) name)) (\<lambda>known.
       sret (if known then Rsp_Success ''Database selected'' (JObject []) else Rsp_Error (''Database not found: '' @ name)))"
| "Route ios os net (CreateTableStmt t cs) = Route_CreateTable ios os net t cs"
| "Route ios os net (DropTableStmt t) = Route_DropTable ios net t"
| "Route ios os net stmt = Route_table net stmt"

section \<open>The specification: every table has its process\<close>

text \<open>
  The tables of the directory and the nodes of the registry are the same. Databases have names without a
  dot, as the identifiers of the language have, so different tables have different keys.
\<close>

definition plain_name :: "string \<Rightarrow> bool" where
  "plain_name s \<longleftrightarrow> s \<noteq> [] \<and> list_all (\<lambda>c. path_char c = c \<and> c \<noteq> CHR ''.'') s"

fun plain_names :: "statement \<Rightarrow> bool" where
  "plain_names (CreateDatabaseStmt name) \<longleftrightarrow> plain_name name"
| "plain_names (DropDatabaseStmt name) \<longleftrightarrow> plain_name name"
| "plain_names stmt \<longleftrightarrow> (case TableFromStatement stmt of None \<Rightarrow> True | Some t \<Rightarrow> plain_name (RefDatabase t) \<and> plain_name (RefTable t))"

definition tables_of :: "directory \<Rightarrow> (string \<times> string) set" where
  "tables_of D = {(db, t). \<exists>T. D db = Some T \<and> t \<in> dom T}"

definition key_of :: "string \<times> string \<Rightarrow> string" where
  "key_of = (\<lambda>(db, t). db @ ''.'' @ t)"

definition consistent :: "'w router \<Rightarrow> directory \<Rightarrow> bool" where
  "consistent s D \<longleftrightarrow> catalog_at (ro_catalog s) D \<and> registry_ok (ro_registry s) \<and>
     (\<forall>db \<in> dom D. plain_name db) \<and> (\<forall>(db, t) \<in> tables_of D. plain_name t) \<and>
     fst ` set (rg_nodes (ro_registry s)) = key_of ` tables_of D"

lemma split_at_dot:
  assumes "CHR ''.'' \<notin> set a" "CHR ''.'' \<notin> set b" "a @ ''.'' @ x = b @ ''.'' @ y"
  shows "a = b \<and> x = y"
  using assms
proof (induction a arbitrary: b)
  case Nil
  then show ?case by (cases b) auto
next
  case (Cons c a)
  then show ?case by (cases b) auto
qed

lemma plain_no_dot: "plain_name s \<Longrightarrow> CHR ''.'' \<notin> set s"
  by (auto simp: plain_name_def list_all_iff)

lemma key_of_inject:
  assumes "plain_name db" "plain_name db'" "key_of (db, t) = key_of (db', t')"
  shows "db = db' \<and> t = t'"
  using split_at_dot [of db db' t t'] plain_no_dot assms by (auto simp: key_of_def)

lemma TableKey_key: "plain_name (RefDatabase t) \<Longrightarrow> TableKey t = key_of (RefDatabase t, RefTable t)"
  by (simp add: TableKey_def key_of_def plain_name_def)

text \<open>The directory of a table is the one of its database and its name, so no two tables share one.\<close>

lemma sanitize_plain: "list_all (\<lambda>c. path_char c = c \<and> c \<noteq> CHR ''.'') s \<Longrightarrow> sanitize (s @ rest) part path = sanitize rest (part @ s) path"
proof (induction s arbitrary: part)
  case (Cons c s)
  then show ?case by simp
qed simp

lemma data_directory:
  assumes "plain_name db" "plain_name t"
  shows "SanitizedPath (key_of (db, t)) = [db, t]"
proof -
  have "SanitizedPath (key_of (db, t)) = sanitize (''.'' @ t @ []) ([] @ db) []"
    using assms(1) sanitize_plain [of db "''.'' @ t" "[]" "[]"] by (simp add: SanitizedPath_def key_of_def plain_name_def)
  also have "\<dots> = sanitize (t @ []) [] [db]" using assms(1) by (simp add: path_part_def plain_name_def)
  also have "\<dots> = sanitize [] ([] @ t) [db]" using assms(2) by (intro sanitize_plain) (simp add: plain_name_def)
  also have "\<dots> = [db, t]" using assms(2) by (simp add: path_part_def plain_name_def)
  finally show ?thesis .
qed

section \<open>The operations on the specification\<close>

lemma send_both:
  "\<exists>w. snd (SendToStorage net k stmt s) = s\<lparr>ro_world := w\<rparr> \<and>
     (SerializeAst stmt = Inr j \<longrightarrow> (\<exists>x. fst (SendToStorage net k stmt s) = Inr x))"
proof -
  have same: "\<exists>w. s = s\<lparr>ro_world := w\<rparr>" for s :: "'w router" by (intro exI [of _ "ro_world s"]) simp
  show ?thesis
  proof (cases "GetNode (ro_registry s) k")
    case None
    then show ?thesis using same by (simp add: SendToStorage_def st_simps)
  next
    case (Some node)
    obtain b w where c: "net_connect net (nd_host node) (nd_port node) (ro_world s) = (b, w)" by fastforce
    show ?thesis
    proof (cases "nd_state node = Node_Down \<or> \<not> b")
      case True
      then show ?thesis using same Some c by (auto simp: SendToStorage_def st_simps sbind_def on_world_def)
    next
      case False
      then show ?thesis using Some c
        by (cases "SerializeAst stmt")
          (auto simp: SendToStorage_def st_simps sbind_def on_world_def split: prod.splits reply.splits)
    qed
  qed
qed

lemma send_frame:
  assumes "SendToStorage net k stmt s = (r, s')"
  shows "\<exists>w. s' = s\<lparr>ro_world := w\<rparr>"
  using send_both [of net k stmt s] assms by auto

lemma error_responses:
  "IsError (Rsp_Error m)" "IsError (Rsp_ErrorData m d)" "\<not> IsSuccess (Rsp_Error m)" "\<not> IsSuccess (Rsp_ErrorData m d)"
  "IsSuccess (Rsp_Success m d)" "\<not> IsError (Rsp_Success m d)" "IsPending (Rsp_Pending m d)" "\<not> IsSuccess (Rsp_Pending m d)"
  by (simp_all add: IsError_def IsSuccess_def IsPending_def Rsp_Error_def Rsp_ErrorData_def Rsp_Success_def Rsp_Pending_def Response_def)

lemma drop_serializes: "\<exists>j. SerializeAst (DropTableStmt t) = Inr j"
  by simp

lemma send_answers:
  assumes "SerializeAst stmt = Inr j"
  shows "\<exists>r w. SendToStorage net k stmt s = (Inr r, s\<lparr>ro_world := w\<rparr>)"
  using send_both [of net k stmt s j] assms by (cases "SendToStorage net k stmt s") auto

lemma DropNode_keys: "fst ` set (rg_nodes (snd (DropNode k rg))) = fst ` set (rg_nodes rg) - {k}"
  by (auto simp: DropNode_def HasNode_set)

lemma drop_tables_nodes:
  fixes s :: "'w router"
  assumes "registry_ok (ro_registry s)"
  shows "\<exists>s'. drop_tables net ts s = (Inr (), s') \<and> ro_catalog s' = ro_catalog s \<and> registry_ok (ro_registry s') \<and>
    fst ` set (rg_nodes (ro_registry s')) = fst ` set (rg_nodes (ro_registry s)) - TableKey ` set ts"
  using assms
proof (induction ts arbitrary: s)
  case Nil
  then show ?case by (simp add: drop_tables_def st_simps)
next
  case (Cons t ts)
  obtain j where j: "SerializeAst (DropTableStmt t) = Inr j" using drop_serializes by blast
  obtain r w where r: "SendToStorage net (TableKey t) (DropTableStmt t) s = (Inr r, s\<lparr>ro_world := w\<rparr>)"
    using send_answers [OF j, of net "TableKey t" s] by (elim exE)
  let ?s = "s\<lparr>ro_world := w, ro_registry := snd (DropNode (TableKey t) (ro_registry s))\<rparr>"
  have ok: "registry_ok (ro_registry ?s)" using DropNode_ok(1) [OF Cons.prems] by (metis prod.collapse router.simps(2) router.surjective router.update_convs(2))
  obtain s' where s': "drop_tables net ts ?s = (Inr (), s')" "ro_catalog s' = ro_catalog ?s" "registry_ok (ro_registry s')"
    "fst ` set (rg_nodes (ro_registry s')) = fst ` set (rg_nodes (ro_registry ?s)) - TableKey ` set ts"
    using Cons.IH [OF ok] by blast
  have "drop_tables net (t # ts) s = drop_tables net ts ?s"
    using r by (simp add: drop_tables_def sbind_def drop_node_def st_simps)
  then show ?case using s' DropNode_keys by auto
qed

lemma consistentD:
  assumes "consistent s D"
  shows "catalog_at (ro_catalog s) D" "registry_ok (ro_registry s)" "db \<in> dom D \<Longrightarrow> plain_name db"
    "(db, t) \<in> tables_of D \<Longrightarrow> plain_name db \<and> plain_name t" "fst ` set (rg_nodes (ro_registry s)) = key_of ` tables_of D"
  using assms by (auto simp: consistent_def tables_of_def)

lemma consistent_world [simp]: "consistent (s\<lparr>ro_world := w\<rparr>) D = consistent s D"
  by (simp add: consistent_def)

lemma tables_of_upd: "tables_of (D(db \<mapsto> T)) = (tables_of D - {db} \<times> UNIV) \<union> {db} \<times> dom T"
  by (auto simp: tables_of_def split: if_splits)

lemma tables_of_drop: "tables_of (D(db := None)) = tables_of D - {db} \<times> UNIV"
  by (auto simp: tables_of_def split: if_splits)

lemma key_image_diff:
  assumes "\<And>db t. (db, t) \<in> A \<union> B \<Longrightarrow> plain_name db"
  shows "key_of ` (A - B) = key_of ` A - key_of ` B"
proof -
  have "inj_on key_of (A \<union> B)" using assms key_of_inject by (intro inj_onI) (metis surj_pair)
  then show ?thesis by (intro inj_on_image_set_diff [of _ "A \<union> B"]) auto
qed

lemma consistentI:
  assumes "catalog_at (ro_catalog s) D" "registry_ok (ro_registry s)" "\<forall>db \<in> dom D. plain_name db" "\<forall>(db, t) \<in> tables_of D. plain_name t"
    "fst ` set (rg_nodes (ro_registry s)) = key_of ` tables_of D"
  shows "consistent s D"
  using assms by (simp add: consistent_def)

text \<open>A router whose catalog and registry are given.\<close>

lemma on_catalog_run: "Cat c = (x, c') \<Longrightarrow> ro_catalog s = c \<Longrightarrow> on_catalog Cat s = (x, s\<lparr>ro_catalog := c'\<rparr>)"
  by (simp add: on_catalog_def on_part_def)

lemma on_registry_run: "Reg g = (x, g') \<Longrightarrow> ro_registry s = g \<Longrightarrow> on_registry Reg s = (x, s\<lparr>ro_registry := g'\<rparr>)"
  by (simp add: on_registry_def on_part_def)

lemma new_key:
  assumes "consistent s D" "plain_name db" "(db, t) \<notin> tables_of D"
  shows "key_of (db, t) \<notin> key_of ` tables_of D"
proof
  assume "key_of (db, t) \<in> key_of ` tables_of D"
  then obtain db' t' where "(db', t') \<in> tables_of D" "key_of (db, t) = key_of (db', t')" by auto
  then show False using key_of_inject [of db db' t t'] consistentD(4) [OF assms(1)] assms(2,3) by blast
qed

lemma create_table_consistent:
  fixes s :: "'w router"
  assumes c: "consistent s D" and plain: "plain_name (RefDatabase t)" "plain_name (RefTable t)"
    and sys: "new_child os (ro_registry s)" "so_directory os" "unat (rg_next_port (ro_registry s)) + 1 < 2 ^ 32"
    and run: "Route_CreateTable ios os net t cs s = (r, s')"
  shows "\<exists>D'. consistent s' D' \<and> (D' = D \<and> (\<forall>x. r = Inr x \<longrightarrow> IsError x) \<or>
    (\<exists>T j x. D (RefDatabase t) = Some T \<and> RefTable t \<notin> dom T \<and> r = Inr x \<and> \<not> IsError x \<and>
      D' = D(RefDatabase t \<mapsto> T(RefTable t \<mapsto> j))))"
proof -
  note cat = consistentD(1) [OF c] and reg = consistentD(2) [OF c]
  let ?c = "ro_catalog s" and ?db = "RefDatabase t" and ?t = "RefTable t"
  have unchanged: "consistent (s\<lparr>ro_catalog := c'\<rparr>) D" if "catalog_at c' D" for c'
    using c that by (simp add: consistent_def)
  show ?thesis
  proof (cases "SerializeAst (CreateTableStmt t cs)")
    case (Inl e)
    obtain c' where c': "catalog_at c' D" "Cat_CreateTable (ios 0) t cs ?c = (Inr False, c') \<or> Cat_CreateTable (ios 0) t cs ?c = (Inl e, c')"
      using Cat_CreateTable_throws [OF cat Inl] by blast
    then have "s' = s\<lparr>ro_catalog := c'\<rparr>" "\<forall>x. r = Inr x \<longrightarrow> IsError x" using run
      by (auto simp: Route_CreateTable_def sbind_def on_catalog_def on_part_def sret_def error_responses)
    then show ?thesis using unchanged [OF c'(1)] by blast
  next
    case (Inr j)
    show ?thesis
    proof (cases "\<exists>T. D ?db = Some T \<and> ?t \<notin> dom T")
      case False
      obtain c' where c': "Cat_CreateTable (ios 0) t cs ?c = (Inr False, c')" "catalog_at c' D"
        using Cat_CreateTable_at [OF cat Inr, of "ios 0"] False by (auto split: option.splits if_splits)
      then have "s' = s\<lparr>ro_catalog := c'\<rparr>" "\<forall>x. r = Inr x \<longrightarrow> IsError x" using run
        by (auto simp: Route_CreateTable_def sbind_def on_catalog_def on_part_def sret_def error_responses)
      then show ?thesis using unchanged [OF c'(2)] by blast
    next
      case True
      then obtain T where T: "D ?db = Some T" "?t \<notin> dom T" by blast
      let ?D = "D(?db \<mapsto> T(?t \<mapsto> j))"
      obtain c1 where c1: "Cat_CreateTable (ios 0) t cs ?c = (Inr True, c1)" "catalog_at c1 ?D"
        using Cat_CreateTable_at [OF cat Inr, of "ios 0"] T by auto
      obtain b rg1 where n: "CreateNode os (TableKey t) (ro_registry s) = (Inr b, rg1)"
        using CreateNode_returns [OF sys(2)] by (metis surj_pair)
      note nodes = CreateNode_nodes [OF reg sys(1,3) n] and ok1 = CreateNode_ok(1) [OF reg sys(1,3) n]
      have restored: "D(?db \<mapsto> (T(?t \<mapsto> j))(?t := None)) = D" using T by auto
      have undone: "\<exists>c2. Cat_DropTable (ios 1) t c1 = (Inr True, c2) \<and> catalog_at c2 D"
        using Cat_DropTable_at [OF c1(2), of "ios 1" t] T(1) restored by simp
      then obtain c2 where c2: "Cat_DropTable (ios 1) t c1 = (Inr True, c2)" "catalog_at c2 D" by blast
      have key: "TableKey t = key_of (?db, ?t)" using TableKey_key plain(1) .
      have fresh: "(?db, ?t) \<notin> tables_of D" using T by (simp add: tables_of_def)
      have "tables_of D = (tables_of D - {?db} \<times> UNIV) \<union> {?db} \<times> dom T" using tables_of_upd [of D ?db T] T(1) by (simp add: fun_upd_idem)
      then have tabs: "tables_of ?D = insert (?db, ?t) (tables_of D)" unfolding tables_of_upd by auto
      show ?thesis
      proof (cases b)
        case False
        then have s': "s' = s\<lparr>ro_catalog := c2, ro_registry := rg1\<rparr>" "\<forall>x. r = Inr x \<longrightarrow> IsError x" using run c1 c2(1) n
          by (auto simp: Route_CreateTable_def sbind_def on_catalog_def on_registry_def on_part_def sret_def error_responses)
        then have "consistent s' D" using c2(2) ok1 nodes False c by (auto simp: consistent_def)
        then show ?thesis using s'(2) by blast
      next
        case True
        let ?s1 = "s\<lparr>ro_catalog := c1, ro_registry := rg1\<rparr>"
        obtain x w where x: "SendToStorage net (TableKey t) (CreateTableStmt t cs) ?s1 = (Inr x, ?s1\<lparr>ro_world := w\<rparr>)"
          using send_answers [OF Inr, of net "TableKey t" ?s1] by (elim exE)
        show ?thesis
        proof (cases "IsError x")
          case err: True
          let ?rg = "snd (DropNode (TableKey t) rg1)"
          have s': "s' = s\<lparr>ro_catalog := c2, ro_registry := ?rg, ro_world := w\<rparr>" "r = Inr x" using run c1(1) c2(1) n x True err
            by (auto simp: Route_CreateTable_def sbind_def on_catalog_def on_registry_def on_part_def sret_def drop_node_def supd_def)
          moreover have "registry_ok ?rg" using DropNode_ok(1) [OF ok1] by (metis prod.collapse)
          moreover have "fst ` set (rg_nodes ?rg) = key_of ` tables_of D"
            using DropNode_keys nodes True new_key [OF c plain(1) fresh] consistentD(5) [OF c] key by auto
          ultimately have "consistent s' D" using c2(2) c by (simp add: consistent_def)
          then show ?thesis using s'(2) err by blast
        next
          case False
          then have s': "r = Inr x" "s' = ?s1\<lparr>ro_world := w\<rparr>" using run c1(1) n x True
            by (auto simp: Route_CreateTable_def sbind_def on_catalog_def on_registry_def on_part_def sret_def)
          have "fst ` set (rg_nodes rg1) = key_of ` tables_of ?D" using nodes True consistentD(5) [OF c] key tabs by simp
          then have "consistent s' ?D" using s'(2) c1(2) ok1 c plain T(1) tabs by (auto simp: consistent_def)
          then show ?thesis using T s'(1) False by blast
        qed
      qed
    qed
  qed
qed

lemma drop_table_consistent:
  fixes s :: "'w router"
  assumes c: "consistent s D" and plain: "plain_name (RefDatabase t)" "plain_name (RefTable t)"
    and run: "Route_DropTable ios net t s = (r, s')"
  shows "\<exists>D'. consistent s' D' \<and> (D' = D \<and> (\<forall>x. r = Inr x \<longrightarrow> \<not> IsSuccess x) \<or>
    (\<exists>T x. D (RefDatabase t) = Some T \<and> RefTable t \<in> dom T \<and> r = Inr x \<and> IsSuccess x \<and>
      D' = D(RefDatabase t \<mapsto> T(RefTable t := None))))"
proof -
  note cat = consistentD(1) [OF c] and reg = consistentD(2) [OF c]
  let ?db = "RefDatabase t" and ?t = "RefTable t"
  show ?thesis
  proof (cases "\<exists>T. D ?db = Some T \<and> ?t \<in> dom T")
    case False
    then have "HasTable (ro_catalog s) t = Inr False" using HasTable_at [OF cat] by auto
    then have "s' = s" "\<forall>x. r = Inr x \<longrightarrow> \<not> IsSuccess x" using run by (auto simp: Route_DropTable_def sbind_def sret_def error_responses)
    then show ?thesis using c by blast
  next
    case True
    then obtain T where T: "D ?db = Some T" "?t \<in> dom T" by blast
    then have known: "HasTable (ro_catalog s) t = Inr True" using HasTable_at [OF cat] by auto
    obtain j where j: "SerializeAst (DropTableStmt t) = Inr j" using drop_serializes by blast
    obtain x w where x: "SendToStorage net (TableKey t) (DropTableStmt t) s = (Inr x, s\<lparr>ro_world := w\<rparr>)"
      using send_answers [OF j, of net "TableKey t" s] by (elim exE)
    show ?thesis
    proof (cases "IsSuccess x")
      case False
      then have "s' = s\<lparr>ro_world := w\<rparr>" "r = Inr x" using run known x by (auto simp: Route_DropTable_def sbind_def sret_def)
      then show ?thesis using c False by (intro exI [of _ D]) simp
    next
      case ok: True
      let ?D = "D(?db \<mapsto> T(?t := None))" and ?rg = "snd (DropNode (TableKey t) (ro_registry s))"
      obtain c1 where c1: "Cat_DropTable (ios 0) t (ro_catalog s) = (Inr True, c1)" "catalog_at c1 ?D"
        using Cat_DropTable_at [OF cat, of "ios 0" t] T by auto
      have "Route_DropTable ios net t s = (Inr x, s\<lparr>ro_catalog := c1, ro_registry := ?rg, ro_world := w\<rparr>)"
        by (simp add: Route_DropTable_def sbind_def on_catalog_def on_part_def sret_def drop_node_def supd_def known x ok c1(1))
      then have s': "r = Inr x" "s' = s\<lparr>ro_catalog := c1, ro_registry := ?rg, ro_world := w\<rparr>" using run by simp_all
      have tabs: "tables_of ?D = tables_of D - {(?db, ?t)}"
        using T(1) by (auto simp: tables_of_def split: if_splits)
      have "key_of ` tables_of ?D = key_of ` tables_of D - {key_of (?db, ?t)}"
        unfolding tabs using key_image_diff [of "tables_of D" "{(?db, ?t)}"] consistentD(4) [OF c] plain(1) by auto
      then have "fst ` set (rg_nodes ?rg) = key_of ` tables_of ?D"
        using DropNode_keys consistentD(5) [OF c] TableKey_key [OF plain(1)] by simp
      moreover have "registry_ok ?rg" using DropNode_ok(1) [OF reg] by (metis prod.collapse)
      ultimately have "consistent s' ?D" using s'(2) c1(2) c plain T(1) tabs by (auto simp: consistent_def)
      then show ?thesis using T s'(1) ok by blast
    qed
  qed
qed

lemma drop_database_consistent:
  fixes s :: "'w router"
  assumes c: "consistent s D" and plain: "plain_name name"
    and run: "Route ios os net (DropDatabaseStmt name) s = (r, s')"
  shows "consistent s' (D(name := None))" "r = Inr (Rsp_Success ''Database dropped'' (JObject []))"
proof -
  note cat = consistentD(1) [OF c] and reg = consistentD(2) [OF c]
  obtain ts c1 where d: "Cat_DropDatabase (ios 0) name (ro_catalog s) = (Inr ts, c1)" "catalog_at c1 (D(name := None))"
    "set ts = (case D name of None \<Rightarrow> {} | Some T \<Rightarrow> TableRef name ` dom T)"
    using Cat_DropDatabase_at [OF cat] by blast
  let ?s1 = "s\<lparr>ro_catalog := c1\<rparr>"
  have "registry_ok (ro_registry ?s1)" using reg by simp
  from drop_tables_nodes [OF this, of net ts] obtain s2 where s2: "drop_tables net ts ?s1 = (Inr (), s2)" "ro_catalog s2 = c1" "registry_ok (ro_registry s2)"
    "fst ` set (rg_nodes (ro_registry s2)) = fst ` set (rg_nodes (ro_registry s)) - TableKey ` set ts"
    by auto
  have "r = Inr (Rsp_Success ''Database dropped'' (JObject [])) \<and> s' = s2"
    using run d(1) s2(1) by (simp add: sbind_def on_catalog_def on_part_def sret_def)
  then show r: "r = Inr (Rsp_Success ''Database dropped'' (JObject []))" and "consistent s' (D(name := None))"
  proof -
    have keys: "TableKey ` set ts = key_of ` (tables_of D \<inter> {name} \<times> UNIV)"
    proof (cases "D name")
      case None
      then show ?thesis using d(3) by (auto simp: tables_of_def)
    next
      case (Some T)
      have "tables_of D \<inter> {name} \<times> UNIV = Pair name ` dom T" using Some by (auto simp: tables_of_def)
      moreover have "TableKey (TableRef name t) = key_of (name, t)" for t
        using TableKey_key [of "TableRef name t"] plain by (simp add: TableRef_def)
      ultimately show ?thesis using d(3) Some by (simp add: image_image)
    qed
    have "tables_of (D(name := None)) = tables_of D - (tables_of D \<inter> {name} \<times> UNIV)" unfolding tables_of_drop by blast
    then have "key_of ` tables_of (D(name := None)) = key_of ` tables_of D - key_of ` (tables_of D \<inter> {name} \<times> UNIV)"
      using key_image_diff [of "tables_of D" "tables_of D \<inter> {name} \<times> UNIV"] consistentD(4) [OF c] by auto
    then have "fst ` set (rg_nodes (ro_registry s2)) = key_of ` tables_of (D(name := None))"
      using s2(4) keys consistentD(5) [OF c] by simp
    moreover assume "r = Inr (Rsp_Success ''Database dropped'' (JObject [])) \<and> s' = s2"
    ultimately show "consistent s' (D(name := None))"
      using s2(2,3) d(2) c by (auto simp: consistent_def tables_of_drop)
  qed simp
qed

end
