(* ===== verification/Storage_App.thy ===== *)
theory Storage_App
  imports Executor Table_Files Ast_Json
begin

text \<open>
  The storage process, \<open>apps/storage/src/application.cpp\<close>: one directory, at most one open table, and
  the requests that change them. The sockets of \<open>Run\<close> are not modelled: \<open>serve\<close> is its inner loop on a
  list of requests.
\<close>

section \<open>State\<close>

record storage =
  st_files :: table_files
  st_interner :: interner
  st_table :: "table option"
  st_clock :: "nat \<Rightarrow> string"

section \<open>The schema of a new table\<close>

definition column_flags :: "column_def \<Rightarrow> byte" where
  "column_flags c = (if DefNotNull c then NOT_NULL_FLAG else 0) OR (if DefIndexed c then INDEXED_FLAG else 0)"

definition ToColumn :: "column_def \<Rightarrow> column result" where
  "ToColumn c =
     (let ty = (case DefType c of IntDef \<Rightarrow> INT_COLUMN | StringDef \<Rightarrow> STRING_COLUMN)
      in case DefDefault c of
           None \<Rightarrow> mk_column (DefName c) ty (column_flags c) DEFAULT_NONE 0 []
         | Some l \<Rightarrow>
             (case LiteralType l of
                IntegerLit \<Rightarrow> rbind (stoi (LitValue l)) (\<lambda>i. mk_column (DefName c) ty (column_flags c) DEFAULT_INT i [])
              | StringLit \<Rightarrow> mk_column (DefName c) ty (column_flags c) DEFAULT_STRING 0 (LitValue l)
              | NullLit \<Rightarrow> mk_column (DefName c) ty (column_flags c) DEFAULT_NULL 0 []))"

definition ToSchema :: "column_def list \<Rightarrow> schema result" where
  "ToSchema cs = rbind (rmapM ToColumn cs) (\<lambda>cols. mk_schema cols 0)"

section \<open>The life of the table\<close>

definition rows_none :: json where "rows_none = jobj [(''rows_affected'', JInt 0)]"

text \<open>The state of a process while a table is open is in the table.\<close>

definition run_table :: "(table_files \<times> interner, table) st \<Rightarrow> (storage, unit) st" where
  "run_table m s =
     (case m (st_files s, st_interner s) of
        (Inl e, (fs, it)) \<Rightarrow> (Inl e, s\<lparr>st_files := fs, st_interner := it\<rparr>)
      | (Inr T, (fs, it)) \<Rightarrow> (Inr (), s\<lparr>st_files := fs, st_interner := it, st_table := Some T\<rparr>))"

definition App_CreateTable :: "table_ref \<Rightarrow> column_def list \<Rightarrow> (storage, response) st" where
  "App_CreateTable t cs =
     sbind (sget st_table) (\<lambda>tab.
       if tab \<noteq> None then sret (Rsp_Error ''Table shard is already initialized'')
       else sbind (slift (ToSchema cs)) (\<lambda>sc.
         sbind (\<lambda>s. run_table (create_table (RefTable t) sc (st_clock s)) s) (\<lambda>_.
           sret (Rsp_Success ''Table shard created'' rows_none))))"

definition App_DropTable :: "table_ref \<Rightarrow> (storage, response) st" where
  "App_DropTable t s =
     (case st_table s of
        Some T \<Rightarrow>
          if tbl_name T \<noteq> RefTable t then (Inr (Rsp_Error (''Table not found: '' @ RefTable t)), s)
          else (Inr (Rsp_Success ''Table shard dropped'' rows_none),
                s\<lparr>st_files := drop_table T (st_files s), st_interner := tbl_interner T, st_table := None\<rparr>)
      | None \<Rightarrow> (Inr (Rsp_Error (''Table not found: '' @ RefTable t)), s))"

text \<open>\<open>OpenExistingTable\<close>: \<open>names\<close> are the stems of the schema files in the order of the directory.\<close>

definition OpenExistingTable :: "string list \<Rightarrow> (storage, unit) st" where
  "OpenExistingTable names s =
     (case names of
        [] \<Rightarrow> (Inr (), s)
      | name # _ \<Rightarrow> run_table (open_table name (st_clock s)) s)"

section \<open>Requests\<close>

definition on_table :: "(table, 'a) st \<Rightarrow> (storage, 'a) st" where
  "on_table = on_part (the \<circ> st_table) (\<lambda>T. st_table_update (\<lambda>_. Some T))"

text \<open>The dispatch of \<open>ExecuteAst\<close> on a statement, before the exceptions are turned into responses.\<close>

fun dispatch :: "regex \<Rightarrow> statement \<Rightarrow> (storage, response) st" where
  "dispatch rx (CreateTableStmt t cs) = App_CreateTable t cs"
| "dispatch rx (DropTableStmt t) = App_DropTable t"
| "dispatch rx (CreateDatabaseStmt _) = sret (Rsp_Error ''Storage shard does not manage databases'')"
| "dispatch rx (DropDatabaseStmt _) = sret (Rsp_Error ''Storage shard does not manage databases'')"
| "dispatch rx (UseDatabaseStmt _) = sret (Rsp_Error ''Storage shard does not manage databases'')"
| "dispatch rx stmt =
     sbind (sget st_table) (\<lambda>tab.
       if tab = None then sret (Rsp_Error ''Table shard is not initialized'')
       else sbind (on_table (Execute rx stmt)) (\<lambda>j. sret (Response_FromJsonObject j)))"

text \<open>\<open>std::exception\<close>s become error responses; a failed assertion ends the process.\<close>

definition caught :: "('s, response) st \<Rightarrow> ('s, response) st" where
  "caught m s =
     (case m s of
        (Inl e, s') \<Rightarrow> if catchable e then (Inr (Rsp_Error (what_of e)), s') else (Inl e, s')
      | (Inr r, s') \<Rightarrow> (Inr r, s'))"

definition ExecuteAst :: "regex \<Rightarrow> json \<Rightarrow> (storage, response) st" where
  "ExecuteAst rx ast = caught (sbind (slift (DeserializeAst ast)) (dispatch rx))"

definition ProcessRequest :: "regex \<Rightarrow> request \<Rightarrow> (storage, response) st" where
  "ProcessRequest rx req =
     (if req_action req = ''ping'' then sret (Rsp_Success ''pong'' (JObject []))
      else if req_action req \<noteq> ''execute_ast'' then sret (Rsp_Error ''Unknown action'')
      else case jget (req_data req) ''ast_root'' of
        None \<Rightarrow> sret (Rsp_Error ''Missing ast_root'')
      | Some ast \<Rightarrow> ExecuteAst rx ast)"

definition serve :: "regex \<Rightarrow> request list \<Rightarrow> (storage, response list) st" where
  "serve rx reqs = smap (ProcessRequest rx) reqs"

text \<open>Stopping the process closes the table; starting it again opens the table that is there.\<close>

definition shutdown :: "storage \<Rightarrow> table_files" where
  "shutdown s = (case st_table s of Some T \<Rightarrow> close_table T (st_files s) | None \<Rightarrow> st_files s)"

end
