(* ===== verification/Ast_Roundtrip.thy ===== *)
theory Ast_Roundtrip
  imports Ast_Json
begin

text \<open>
  A statement that is written as JSON and read again is the same statement, when its integers are
  written canonically and fit an \<open>int\<close>, and it does not carry a password.
\<close>

section \<open>Canonical statements\<close>

definition canonical_literal :: "sql_literal \<Rightarrow> bool" where
  "canonical_literal l \<longleftrightarrow>
     (case LiteralType l of
        StringLit \<Rightarrow> True
      | NullLit \<Rightarrow> LitValue l = ''NULL''
      | IntegerLit \<Rightarrow> (case stoi (LitValue l) of Inr w \<Rightarrow> show_int (sint w) = LitValue l | Inl _ \<Rightarrow> False))"

fun canonical_expr :: "expression \<Rightarrow> bool" where
  "canonical_expr (LiteralExpr l) \<longleftrightarrow> canonical_literal l"
| "canonical_expr _ \<longleftrightarrow> True"

fun canonical_cond :: "condition \<Rightarrow> bool" where
  "canonical_cond (ComparisonCondition l op r) \<longleftrightarrow> canonical_expr l \<and> canonical_expr r"
| "canonical_cond (BetweenCondition v lo hi) \<longleftrightarrow> canonical_expr v \<and> canonical_expr lo \<and> canonical_expr hi"
| "canonical_cond (LikeCondition v pat) \<longleftrightarrow> canonical_expr v"
| "canonical_cond (AndCondition l r) \<longleftrightarrow> canonical_cond l \<and> canonical_cond r"
| "canonical_cond (OrCondition l r) \<longleftrightarrow> canonical_cond l \<and> canonical_cond r"

definition canonical_ref :: "table_ref \<Rightarrow> bool" where
  "canonical_ref t \<longleftrightarrow> CHR ''.'' \<notin> set (RefDatabase t) \<and> (RefDatabase t = [] \<longrightarrow> CHR ''.'' \<notin> set (RefTable t))"

definition canonical_column :: "column_def \<Rightarrow> bool" where
  "canonical_column c \<longleftrightarrow> (case DefDefault c of None \<Rightarrow> True | Some l \<Rightarrow> canonical_literal l)"

definition canonical_where :: "condition option \<Rightarrow> bool" where
  "canonical_where w \<longleftrightarrow> (case w of None \<Rightarrow> True | Some c \<Rightarrow> canonical_cond c)"

fun canonical_stmt :: "statement \<Rightarrow> bool" where
  "canonical_stmt (CreateUserStmt u p) \<longleftrightarrow> p = []"
| "canonical_stmt (GrantStmt ps scope u) \<longleftrightarrow> canonical_ref scope"
| "canonical_stmt (RevokeStmt ps scope u) \<longleftrightarrow> canonical_ref scope"
| "canonical_stmt (RevertStmt t ts) \<longleftrightarrow> canonical_ref t"
| "canonical_stmt (CreateTableStmt t cs) \<longleftrightarrow> canonical_ref t \<and> list_all canonical_column cs"
| "canonical_stmt (DropTableStmt t) \<longleftrightarrow> canonical_ref t"
| "canonical_stmt (InsertStmt t cols rows) \<longleftrightarrow> canonical_ref t \<and> list_all (list_all canonical_literal) rows"
| "canonical_stmt (UpdateStmt t as w) \<longleftrightarrow> canonical_ref t \<and> list_all (\<lambda>(c, e). canonical_expr e) as \<and> canonical_where w"
| "canonical_stmt (DeleteStmt t w) \<longleftrightarrow> canonical_ref t \<and> canonical_where w"
| "canonical_stmt (SelectStmt all items t w) \<longleftrightarrow> canonical_ref t \<and> canonical_where w \<and>
     (if all then items = [] else list_all (\<lambda>i. canonical_expr (ItemExpr i)) items)"
| "canonical_stmt _ \<longleftrightarrow> True"

section \<open>Names\<close>

lemma names_back [simp]:
  "LiteralTypeFromString (LiteralTypeName t) = t" "AggregateFromName (Ast_AggregateName f) = f"
  "ComparisonOperatorFromName (ComparisonOperatorName op) = op" "ColumnTypeFromName (ColumnTypeName ct) = ct"
proof -
  show "LiteralTypeFromString (LiteralTypeName t) = t" by (cases t) (simp_all add: LiteralTypeFromString_def)
  show "AggregateFromName (Ast_AggregateName f) = f" by (cases f) (simp_all add: AggregateFromName_def)
  show "ComparisonOperatorFromName (ComparisonOperatorName op) = op"
    by (cases op) (simp_all add: ComparisonOperatorFromName_def)
  show "ColumnTypeFromName (ColumnTypeName ct) = ct" by (cases ct) (simp_all add: ColumnTypeFromName_def ColumnTypeName_def)
qed

lemma comparison_name [simp]:
  "ComparisonOperatorName op \<noteq> ''AND''" "ComparisonOperatorName op \<noteq> ''OR''" "ComparisonOperatorName op \<noteq> ''LIKE''"
  by (cases op; simp)+

lemma table_back: "canonical_ref t \<Longrightarrow> TableFromString (TableToString t) = t"
proof (cases "RefDatabase t = []")
  case True
  assume "canonical_ref t"
  then have "CHR ''.'' \<notin> set (RefTable t)" using True by (simp add: canonical_ref_def)
  then have "dropWhile (\<lambda>c. c \<noteq> CHR ''.'') (RefTable t) = []" by (auto simp: dropWhile_eq_Nil_conv)
  then show ?thesis using True by (simp add: TableToString_def TableFromString_def TableRef_def del: dropWhile_eq_Nil_conv)
next
  case False
  assume "canonical_ref t"
  then have n: "CHR ''.'' \<notin> set (RefDatabase t)" by (simp add: canonical_ref_def)
  have "dropWhile (\<lambda>c. c \<noteq> CHR ''.'') (RefDatabase t @ ''.'' @ RefTable t) = ''.'' @ RefTable t"
    "takeWhile (\<lambda>c. c \<noteq> CHR ''.'') (RefDatabase t @ ''.'' @ RefTable t) = RefDatabase t"
    using n by (simp_all add: dropWhile_append takeWhile_append)
  then show ?thesis using False by (simp add: TableToString_def TableFromString_def TableRef_def)
qed

lemma jset_jobj [simp]: "jset k v (jobj kvs) = Inr (jobj (kvs @ [(k, v)]))"
  by (simp add: jobj_def)

section \<open>Literals and expressions\<close>

text \<open>\<open>reads j x\<close> for the members an expression may have besides its own: none, or an alias.\<close>

definition alias_only :: "(string \<times> json) list \<Rightarrow> bool" where
  "alias_only kvs \<longleftrightarrow> kvs = [] \<or> (\<exists>a. kvs = [(''alias'', JString a)])"

lemma literal_back:
  assumes "canonical_literal l"
  shows "\<exists>v. literal_json l = Inr (jobj [node_tag ''Literal'', (''data_type'', JString (LiteralTypeName (LiteralType l))), (''value'', v)]) \<and>
    (\<forall>m. alias_only m \<longrightarrow>
      LiteralFromJson (jobj ([node_tag ''Literal'', (''data_type'', JString (LiteralTypeName (LiteralType l))), (''value'', v)] @ m)) = Inr l)"
proof -
  obtain ty t where l: "l = Literal ty t" by (cases l)
  have "\<exists>v. Ast_LiteralValue l = Inr v \<and> (ty = StringLit \<longrightarrow> v = JString t) \<and>
    (ty = IntegerLit \<longrightarrow> (\<exists>w :: 32 word. v = JInt (sint w) \<and> show_int (sint w) = t))"
    using assms l by (cases ty) (auto intro!: exI simp: Ast_LiteralValue_def canonical_literal_def split: sum.splits)
  then obtain v where v: "Ast_LiteralValue l = Inr v"
    "ty = StringLit \<Longrightarrow> v = JString t" "ty = IntegerLit \<Longrightarrow> \<exists>w :: 32 word. v = JInt (sint w) \<and> show_int (sint w) = t" by blast
  let ?kvs = "[node_tag ''Literal'', (''data_type'', JString (LiteralTypeName ty)), (''value'', v)]"
  have "LiteralFromJson (jobj (?kvs @ m)) = Inr l" if "alias_only m" for m
  proof -
    define j where "j = jobj (?kvs @ m)"
    have j: "is_object j" "jget j ''data_type'' = Some (JString (LiteralTypeName ty))" "jget j ''value'' = Some v"
      using that by (auto simp: j_def jget_jobj alias_only_def node_tag_def)
    have "LiteralFromJson j = Inr l"
      using j v(2,3) l assms
      by (cases ty) (auto simp: LiteralFromJson_def jvalue_def canonical_literal_def simp del: LiteralTypeName.simps)
    then show ?thesis by (simp add: j_def)
  qed
  then show ?thesis using v(1) l by (intro exI [of _ v]) (simp add: literal_json_def)
qed

lemma literal_from:
  assumes "canonical_literal l"
  shows "\<exists>kvs. literal_json l = Inr (jobj kvs) \<and> LiteralFromJson (jobj kvs) = Inr l"
  using literal_back [OF assms] by (auto simp: alias_only_def)

lemma expression_back:
  assumes "canonical_expr e"
  shows "\<exists>kvs. expression_json e = Inr (jobj kvs) \<and> map_of (rev kvs) ''alias'' = None \<and>
    map_of (rev kvs) ''node_type'' \<noteq> Some (JString ''Wildcard'') \<and>
    (\<forall>m. alias_only m \<longrightarrow> ExpressionFromJson (jobj (kvs @ m)) = Inr e)"
proof (cases e)
  case (LiteralExpr l)
  from literal_back [of l] assms LiteralExpr obtain v where
    v: "literal_json l = Inr (jobj [node_tag ''Literal'', (''data_type'', JString (LiteralTypeName (LiteralType l))), (''value'', v)])"
    "\<forall>m. alias_only m \<longrightarrow> LiteralFromJson (jobj ([node_tag ''Literal'',
      (''data_type'', JString (LiteralTypeName (LiteralType l))), (''value'', v)] @ m)) = Inr l" by auto
  show ?thesis
    by (rule exI [of _ "[node_tag ''Literal'', (''data_type'', JString (LiteralTypeName (LiteralType l))), (''value'', v)]"])
      (use v LiteralExpr in \<open>auto simp: ExpressionFromJson_def alias_only_def node_tag_def\<close>)
next
  case (IdentifierExpr name)
  then show ?thesis
    by (intro exI [of _ "[node_tag ''Identifier'', (''value'', JString name)]"])
      (auto simp: identifier_json_def ExpressionFromJson_def alias_only_def node_tag_def)
next
  case (AggregateExpr f c)
  then show ?thesis
    by (intro exI [of _ "[node_tag ''AggregateFunction'', (''function'', JString (Ast_AggregateName f)), (''argument'', identifier_json c)]"])
      (auto simp: identifier_json_def ExpressionFromJson_def alias_only_def node_tag_def)
qed

lemma expression_from:
  "canonical_expr e \<Longrightarrow> \<exists>kvs. expression_json e = Inr (jobj kvs) \<and> ExpressionFromJson (jobj kvs) = Inr e"
  using expression_back [of e] by (auto simp: alias_only_def)

section \<open>Conditions\<close>

lemma condition_back: "canonical_cond c \<Longrightarrow> \<exists>kvs. condition_json c = Inr (jobj kvs) \<and> ConditionFromJson (jobj kvs) = Inr c"
proof (induction c)
  case (ComparisonCondition l op r)
  then obtain a b where "expression_json l = Inr (jobj a)" "ExpressionFromJson (jobj a) = Inr l"
    "expression_json r = Inr (jobj b)" "ExpressionFromJson (jobj b) = Inr r"
    using expression_from [of l] expression_from [of r] by auto
  then show ?case
    by (auto simp: binary_json_def node_tag_def expression_at_def ConditionFromJson.simps [of "jobj _"])
next
  case (BetweenCondition v lo hi)
  then obtain a b d where "expression_json v = Inr (jobj a)" "ExpressionFromJson (jobj a) = Inr v"
    "expression_json lo = Inr (jobj b)" "ExpressionFromJson (jobj b) = Inr lo"
    "expression_json hi = Inr (jobj d)" "ExpressionFromJson (jobj d) = Inr hi"
    using expression_from [of v] expression_from [of lo] expression_from [of hi] by auto
  then show ?case
    by (auto simp: node_tag_def expression_at_def ConditionFromJson.simps [of "jobj _"])
next
  case (LikeCondition v pat)
  then obtain a where "expression_json v = Inr (jobj a)" "ExpressionFromJson (jobj a) = Inr v"
    using expression_from [of v] by auto
  moreover obtain b where "literal_json (Literal StringLit pat) = Inr (jobj b)"
    "LiteralFromJson (jobj b) = Inr (Literal StringLit pat)"
    using literal_from [of "Literal StringLit pat"] by (auto simp: canonical_literal_def)
  ultimately show ?case
    by (auto simp: binary_json_def node_tag_def expression_at_def ConditionFromJson.simps [of "jobj _"])
next
  case (AndCondition l r)
  then obtain a b where "condition_json l = Inr (jobj a)" "ConditionFromJson (jobj a) = Inr l"
    "condition_json r = Inr (jobj b)" "ConditionFromJson (jobj b) = Inr r" by auto
  then show ?case
    by (auto simp: binary_json_def node_tag_def ConditionFromJson.simps [of "jobj (_ # _)"])
next
  case (OrCondition l r)
  then obtain a b where "condition_json l = Inr (jobj a)" "ConditionFromJson (jobj a) = Inr l"
    "condition_json r = Inr (jobj b)" "ConditionFromJson (jobj b) = Inr r" by auto
  then show ?case
    by (auto simp: binary_json_def node_tag_def ConditionFromJson.simps [of "jobj (_ # _)"])
qed

section \<open>Statements\<close>

lemma literals_from:
  "list_all canonical_literal ls \<Longrightarrow> \<exists>js. rmapM literal_json ls = Inr js \<and> rmapM LiteralFromJson js = Inr ls"
proof (induction ls)
  case (Cons l ls)
  then show ?case using literal_from [of l] by auto
qed simp

lemma rows_from:
  "list_all (list_all canonical_literal) rows \<Longrightarrow>
   \<exists>js. rmapM (rmapM literal_json) rows = Inr js \<and> rmapM (\<lambda>row. rmapM LiteralFromJson (jelems row)) (map JArray js) = Inr rows"
proof (induction rows)
  case (Cons row rows)
  then show ?case using literals_from [of row] by auto
qed simp

lemma column_from:
  assumes "canonical_column c"
  shows "\<exists>j. column_json c = Inr j \<and> ColumnFromJson j = Inr c"
proof (cases "DefDefault c")
  case None
  then show ?thesis
    by (cases c) (auto simp: column_json_def ColumnFromJson_def array_at_def jget_jobj)
next
  case (Some l)
  then obtain kvs where "literal_json l = Inr (jobj kvs)" "LiteralFromJson (jobj kvs) = Inr l"
    using literal_from [of l] assms by (auto simp: canonical_column_def)
  then show ?thesis using Some
    by (cases c) (auto simp: column_json_def ColumnFromJson_def array_at_def jget_jobj)
qed

lemma columns_from:
  "list_all canonical_column cs \<Longrightarrow> \<exists>js. rmapM column_json cs = Inr js \<and> rmapM ColumnFromJson js = Inr cs"
proof (induction cs)
  case (Cons c cs)
  then show ?case using column_from [of c] by auto
qed simp

lemma item_from:
  assumes "canonical_expr (ItemExpr i)"
  shows "\<exists>j ty. item_json i = Inr j \<and> jvalue get_string j ''node_type'' [] = Inr ty \<and> ty \<noteq> ''Wildcard'' \<and>
    SelectItemFromJson j = Inr i"
proof -
  obtain e a where i: "i = SelectItem e a" by (cases i)
  from expression_back [of e] assms i obtain kvs where k: "expression_json e = Inr (jobj kvs)"
    "map_of (rev kvs) ''alias'' = None" "map_of (rev kvs) ''node_type'' \<noteq> Some (JString ''Wildcard'')"
    "\<And>m. alias_only m \<Longrightarrow> ExpressionFromJson (jobj (kvs @ m)) = Inr e" by auto
  define m where "m = (if a = [] then [] else [(''alias'', JString a)])"
  have m: "alias_only m" "item_json i = Inr (jobj (kvs @ m))" using k(1) i by (auto simp: m_def alias_only_def item_json_def)
  have e: "ExpressionFromJson (jobj (kvs @ m)) = Inr e" by (rule k(4) [OF m(1)])
  then obtain ty where ty: "jvalue get_string (jobj (kvs @ m)) ''node_type'' [] = Inr ty"
    by (auto simp: ExpressionFromJson_def result_iff simp del: jvalue_jobj)
  moreover have "ty \<noteq> ''Wildcard''"
  proof
    assume "ty = ''Wildcard''"
    moreover have "map_of (rev (kvs @ m)) ''node_type'' = map_of (rev kvs) ''node_type''" by (simp add: m_def)
    ultimately have "(case map_of (rev kvs) ''node_type'' of Some v \<Rightarrow> get_string v | None \<Rightarrow> Inr []) = Inr ''Wildcard''"
      using ty unfolding jvalue_jobj by simp
    then show False using k(3) by (auto split: option.splits elim!: get_string.elims)
  qed
  moreover have "jvalue get_string (jobj (kvs @ m)) ''alias'' [] = Inr a" using k(2) by (simp add: m_def)
  ultimately show ?thesis using m(2) e i by (auto simp: SelectItemFromJson_def simp del: jvalue_jobj)
qed

lemma items_from:
  "list_all (\<lambda>i. canonical_expr (ItemExpr i)) items \<Longrightarrow>
   \<exists>js. rmapM item_json items = Inr js \<and> projections_from js = Inr (False, items)"
proof (induction items)
  case (Cons i items)
  then show ?case using item_from [of i] by fastforce
qed simp

lemma assignments_from:
  "list_all (\<lambda>(c, e). canonical_expr e) as \<Longrightarrow>
   \<exists>js. rmapM (\<lambda>(c, e). rmap (\<lambda>j. jobj [(''column'', JString c), (''value'', j)]) (expression_json e)) as = Inr js \<and>
     rmapM assignment_from js = Inr as"
proof (induction as)
  case (Cons a as)
  obtain c e where a: "a = (c, e)" by (cases a)
  obtain kvs where "expression_json e = Inr (jobj kvs)" "ExpressionFromJson (jobj kvs) = Inr e"
    using expression_from [of e] Cons.prems a by auto
  then show ?case using Cons a by (auto simp: assignment_from_def expression_at_def)
qed simp

text \<open>A statement's members, and the optional condition after them.\<close>

lemma where_back:
  assumes "canonical_where w" "map_of (rev kvs) ''where_clause'' = None"
  shows "\<exists>j. with_where kvs w = Inr j \<and> is_object j \<and> where_from j = Inr w \<and>
    list_all (\<lambda>k. jget j k = map_of (rev kvs) k) [''node_type'', ''table'', ''projections'', ''assignments'']"
proof (cases w)
  case None
  then show ?thesis using assms by (auto simp: with_where_def where_from_def jget_jobj)
next
  case (Some c)
  then obtain cs where "condition_json c = Inr (jobj cs)" "ConditionFromJson (jobj cs) = Inr c"
    using condition_back [of c] assms(1) by (auto simp: canonical_where_def)
  then show ?thesis using Some by (auto simp: with_where_def where_from_def jget_jobj)
qed

lemma get_strings_back [simp]: "get_strings (JArray (map JString xs)) = Inr xs"
  by (simp add: rmapM_map)

lemmas deserialize_defs = DeserializeAst_def table_from_def table_member_def node_tag_def array_at_def jget_jobj table_back

lemma DeserializeAst_SerializeAst: "canonical_stmt s \<Longrightarrow> \<exists>j. SerializeAst s = Inr j \<and> DeserializeAst j = Inr s"
proof (induction s)
  case (InsertStmt t cols rows)
  then show ?case using rows_from [of rows] by (auto simp: deserialize_defs simp del: get_strings.simps)
next
  case (CreateTableStmt t cs)
  then show ?case using columns_from [of cs] by (auto simp: deserialize_defs)
next
  case (SelectStmt all items t w)
  obtain ps where ps: "(if all then Inr [jobj [node_tag ''Wildcard'']] else rmapM item_json items) = Inr ps"
    "projections_from ps = Inr (all, items)"
    using SelectStmt items_from [of items] by (cases all) (auto simp: node_tag_def)
  show ?case
    using where_back [of w "[node_tag ''SelectStatement'', table_member t, (''projections'', JArray ps)]"] ps SelectStmt
    by (auto simp: deserialize_defs jvalue_def)
next
  case (UpdateStmt t as w)
  then obtain js where js: "rmapM (\<lambda>(c, e). rmap (\<lambda>j. jobj [(''column'', JString c), (''value'', j)]) (expression_json e)) as = Inr js"
    "rmapM assignment_from js = Inr as" using assignments_from [of as] by auto
  show ?case
    using where_back [of w "[node_tag ''UpdateStatement'', table_member t, (''assignments'', JArray js)]"] js UpdateStmt
    by (auto simp: deserialize_defs jvalue_def)
next
  case (DeleteStmt t w)
  then show ?case
    using where_back [of w "[node_tag ''DeleteStatement'', table_member t]"] by (auto simp: deserialize_defs jvalue_def)
next
  case (GrantStmt ps scope u)
  then show ?case by (auto simp: deserialize_defs permissions_json_def permissions_from_def simp del: get_strings.simps)
next
  case (RevokeStmt ps scope u)
  then show ?case by (auto simp: deserialize_defs permissions_json_def permissions_from_def simp del: get_strings.simps)
qed (auto simp: deserialize_defs)

end
