(* ===== verification/Cluster_Properties.thy ===== *)
theory Cluster_Properties
  imports Statement_Router Storage_App Ast_Roundtrip Table_Properties
begin

text \<open>
  The properties of a cluster: a statement that the router sends is the statement that the storage
  process of its table executes, every table has its process and its directory, and what a restart of
  the server does to this.
\<close>

section \<open>A network of storage processes\<close>

text \<open>
  The world behind the network is the storage process on each port. A request and its answer travel as
  JSON; an exception that is not caught ends the process.
\<close>

definition storage_net :: "regex \<Rightarrow> (32 word \<rightharpoonup> storage) network" where
  "storage_net rx = \<lparr>
     net_connect = (\<lambda>host port w. (w port \<noteq> None, w)),
     net_exchange = (\<lambda>host port req w.
       case w port of
         None \<Rightarrow> (Not_Sent, w)
       | Some sg \<Rightarrow>
           (case Request_FromJsonObject (Request_ToJsonObject req) of
              Inl e \<Rightarrow> (No_Reply, w(port := None))
            | Inr req' \<Rightarrow>
                (case ProcessRequest rx req' sg of
                   (Inl e, _) \<Rightarrow> (No_Reply, w(port := None))
                 | (Inr r, sg') \<Rightarrow> (Answer (Response_FromJsonObject (Response_ToJsonObject r)), w(port \<mapsto> sg')))))\<rparr>"

text \<open>
  C15: a canonical statement that the router sends to a node arrives there unchanged: the storage process
  executes exactly this statement, the client gets exactly the response of the process, and no other
  process is touched.
\<close>

theorem statement_reaches_storage:
  assumes "canonical_stmt stmt" "GetNode (ro_registry s) k = Some n" "nd_state n \<noteq> Node_Down"
    and "ro_world s (nd_port n) = Some sg" "caught (dispatch rx stmt) sg = (Inr r, sg')"
  shows "SendToStorage (storage_net rx) k stmt s = (Inr r, s\<lparr>ro_world := (ro_world s)(nd_port n \<mapsto> sg')\<rparr>)"
proof -
  obtain j where j: "SerializeAst stmt = Inr j" "DeserializeAst j = Inr stmt"
    using DeserializeAst_SerializeAst [OF assms(1)] by blast
  have req: "Request_FromJsonObject (Request_ToJsonObject (ast_request j)) = Inr (ast_request j)"
    by (rule Request_back) (simp add: ast_request_def Request_def)
  have "ProcessRequest rx (ast_request j) sg = ExecuteAst rx j sg"
    by (simp add: ProcessRequest_def ast_request_def Request_def jget_jobj)
  also have "\<dots> = (Inr r, sg')" using j(2) assms(5) by (simp add: ExecuteAst_def caught_def sbind_def slift_def)
  finally have "net_exchange (storage_net rx) (nd_host n) (nd_port n) (ast_request j) (ro_world s) =
    (Answer r, (ro_world s)(nd_port n \<mapsto> sg'))"
    using assms(4) req by (simp add: storage_net_def Response_back)
  moreover have "net_connect (storage_net rx) (nd_host n) (nd_port n) (ro_world s) = (True, ro_world s)"
    using assms(4) by (simp add: storage_net_def)
  ultimately show ?thesis
    using assms(2,3) j(1) by (simp add: SendToStorage_def sbind_def sget_def slift_def sret_def on_world_def)
qed

text \<open>An empty storage process, and the statement that creates the sample table.\<close>

definition sample_storage :: storage where
  "sample_storage = \<lparr>st_files = sample_files, st_interner = new_interner, st_table = None, st_clock = sample_clock\<rparr>"

definition sample_create :: statement where
  "sample_create = CreateTableStmt (TableRef ''d'' ''t'')
     [\<lparr>DefName = ''a'', DefType = IntDef, DefNotNull = True, DefIndexed = True, DefDefault = None\<rparr>]"

lemma sample_create_runs:
  "\<exists>sg. caught (dispatch rx sample_create) sample_storage = (Inr (Rsp_Success ''Table shard created'' rows_none), sg)"
proof -
  have cl: "\<forall>n. length (sample_clock n) = TIME_LEN" by (simp add: sample_clock_def TIME_LEN_def)
  have c0: "record_id_count sample_schema = 0" by (simp add: sample_schema_def)
  obtain T fs it where T: "create_table ''t'' sample_schema sample_clock (sample_files, new_interner) = (Inr T, (fs, it))"
    using create_table_at [OF sample_files_empty sample_schema_facts c0 cl, of "''t''" new_interner] by blast
  have "mk_column ''a'' INT_COLUMN (NOT_NULL_FLAG OR INDEXED_FLAG) DEFAULT_NONE 0 [] = Inr sample_column"
    by (simp add: mk_column_def Let_def sample_column_def NOT_NULL_FLAG_def INDEXED_FLAG_def ValidateDefault_def)
  then have "ToSchema [\<lparr>DefName = ''a'', DefType = IntDef, DefNotNull = True, DefIndexed = True, DefDefault = None\<rparr>] = Inr sample_schema"
    by (simp add: ToSchema_def ToColumn_def column_flags_def mk_schema_def sample_schema_def)
  then show ?thesis using T
    by (simp add: caught_def sample_create_def App_CreateTable_def sbind_def sget_def slift_def sret_def run_table_def
        sample_storage_def TableRef_def)
qed

definition cluster_at :: "registry \<Rightarrow> catalog \<Rightarrow> (32 word \<rightharpoonup> storage) router" where
  "cluster_at rg c = \<lparr>ro_catalog = c, ro_registry = rg, ro_world = [9001 \<mapsto> sample_storage]\<rparr>"

theorem statement_reaches_storage_witness:
  "\<exists>s'. SendToStorage (storage_net no_match) ''d.t'' sample_create
     (cluster_at (snd (CreateNode undefined ''d.t'' (Registry False [] []))) (Catalog no_file)) =
     (Inr (Rsp_Success ''Table shard created'' rows_none), s')"
proof -
  let ?n = "StorageNode ''127.0.0.1'' 9001 Node_Unknown"
  have n: "GetNode (snd (CreateNode undefined ''d.t'' (Registry False [] []))) ''d.t'' = Some ?n" "nd_state ?n \<noteq> Node_Down" "nd_port ?n = 9001"
    by (simp_all add: CreateNode_def Registry_def HasNode_def GetNode_def Let_def StorageNode_def)
  obtain sg where sg: "caught (dispatch no_match sample_create) sample_storage = (Inr (Rsp_Success ''Table shard created'' rows_none), sg)"
    using sample_create_runs by blast
  have "canonical_stmt sample_create"
    by (simp add: sample_create_def canonical_ref_def canonical_column_def TableRef_def)
  from statement_reaches_storage [OF this _ n(2) _ sg, of "cluster_at (snd (CreateNode undefined ''d.t'' (Registry False [] []))) (Catalog no_file)" "''d.t''"]
  show ?thesis using n by (simp add: cluster_at_def)
qed

section \<open>Every table has its process\<close>

text \<open>What a statement that succeeds does to the tables.\<close>

fun tables_after :: "statement \<Rightarrow> (string \<times> string) set \<Rightarrow> (string \<times> string) set" where
  "tables_after (CreateTableStmt t cs) ts = insert (RefDatabase t, RefTable t) ts"
| "tables_after (DropTableStmt t) ts = ts - {(RefDatabase t, RefTable t)}"
| "tables_after (DropDatabaseStmt name) ts = ts - {name} \<times> UNIV"
| "tables_after _ ts = ts"

lemma route_table_same:
  fixes s :: "'w router"
  assumes "catalog_at (ro_catalog s) D" "Route_table net stmt s = (r, s')"
  shows "\<exists>w. s' = s\<lparr>ro_world := w\<rparr>"
proof -
  have same: "\<exists>w. s = s\<lparr>ro_world := w\<rparr>" by (intro exI [of _ "ro_world s"]) simp
  show ?thesis
  proof (cases "TableFromStatement stmt")
    case None
    then show ?thesis using assms(2) same by (auto simp: Route_table_def sret_def)
  next
    case (Some t)
    show ?thesis
    proof (cases "HasTable (ro_catalog s) t = Inr True")
      case True
      then have "SendToStorage net (TableKey t) stmt s = (r, s')" using assms(2) Some by (simp add: Route_table_def sbind_def)
      then show ?thesis by (rule send_frame)
    next
      case False
      then have "s' = s" using assms Some HasTable_at [OF assms(1), of t] by (auto simp: Route_table_def sbind_def sret_def)
      then show ?thesis using same by simp
    qed
  qed
qed

lemma route_consistent:
  assumes "consistent s D" "plain_names stmt" "new_child os (ro_registry s)" "so_directory os"
    and "unat (rg_next_port (ro_registry s)) + 1 < 2 ^ 32" "Route ios os net stmt s = (r, s')"
  shows "\<exists>D'. consistent s' D' \<and> (\<forall>x. r = Inr x \<longrightarrow>
    (IsSuccess x \<longrightarrow> tables_of D' = tables_after stmt (tables_of D)) \<and> (IsError x \<longrightarrow> tables_of D' = tables_of D))"
proof -
  note cat = consistentD(1) [OF assms(1)]
  have table: ?thesis if at: "Route_table net stmt s = (r, s')" and same: "tables_after stmt = (\<lambda>ts. ts)"
  proof -
    obtain w where "s' = s\<lparr>ro_world := w\<rparr>" using route_table_same [OF cat at] by (elim exE)
    then show ?thesis using assms(1) same by (intro exI [of _ D]) simp
  qed
  show ?thesis
  proof (cases stmt)
    case (CreateDatabaseStmt name)
    obtain c' where c': "Cat_CreateDatabase (ios 0) name (ro_catalog s) = (Inr (D name = None), c')"
      "catalog_at c' (if D name = None then D(name \<mapsto> Map.empty) else D)" using Cat_CreateDatabase_at [OF cat] by blast
    let ?D = "if D name = None then D(name \<mapsto> Map.empty) else D"
    have tabs: "tables_of ?D = tables_of D" by (auto simp: tables_of_def split: if_splits)
    have "s' = s\<lparr>ro_catalog := c'\<rparr>"
      using c'(1) assms(6) CreateDatabaseStmt by (simp add: sbind_def on_catalog_def on_part_def sret_def)
    then have "consistent s' ?D"
      using c'(2) tabs assms(1,2) CreateDatabaseStmt by (simp add: consistent_def)
    then show ?thesis using tabs CreateDatabaseStmt by (intro exI [of _ ?D]) simp
  next
    case (DropDatabaseStmt name)
    have "plain_name name" using assms(2) DropDatabaseStmt by simp
    note d = drop_database_consistent [OF assms(1) this assms(6) [unfolded DropDatabaseStmt]]
    show ?thesis using d DropDatabaseStmt error_responses(6) by (intro exI [of _ "D(name := None)"]) (auto simp: tables_of_drop)
  next
    case (UseDatabaseStmt name)
    then have "s' = s" using assms(6) by (auto simp: sbind_def sget_def sret_def)
    then show ?thesis using assms(1) UseDatabaseStmt by (intro exI [of _ D]) simp
  next
    case (CreateTableStmt t cs)
    have p: "plain_name (RefDatabase t)" "plain_name (RefTable t)" using assms(2) CreateTableStmt by simp_all
    have run: "Route_CreateTable ios os net t cs s = (r, s')" using assms(6) CreateTableStmt by simp
    from create_table_consistent [OF assms(1) p assms(3-5) run] obtain D' where D': "consistent s' D'"
      "D' = D \<and> (\<forall>x. r = Inr x \<longrightarrow> IsError x) \<or> (\<exists>T j x. D (RefDatabase t) = Some T \<and> RefTable t \<notin> dom T \<and> r = Inr x \<and>
        \<not> IsError x \<and> D' = D(RefDatabase t \<mapsto> T(RefTable t \<mapsto> j)))" by blast
    have no: "\<not> (IsError x \<and> IsSuccess x)" for x by (simp add: IsError_def IsSuccess_def)
    have "tables_of (D(RefDatabase t \<mapsto> T(RefTable t \<mapsto> j))) = insert (RefDatabase t, RefTable t) (tables_of D)"
      if "D (RefDatabase t) = Some T" for T j using that by (auto simp: tables_of_def split: if_splits)
    then show ?thesis using D' no CreateTableStmt by (intro exI [of _ D']) auto
  next
    case (DropTableStmt t)
    have p: "plain_name (RefDatabase t)" "plain_name (RefTable t)" using assms(2) DropTableStmt by simp_all
    have run: "Route_DropTable ios net t s = (r, s')" using assms(6) DropTableStmt by simp
    from drop_table_consistent [OF assms(1) p run] obtain D' where D': "consistent s' D'"
      "D' = D \<and> (\<forall>x. r = Inr x \<longrightarrow> \<not> IsSuccess x) \<or> (\<exists>T x. D (RefDatabase t) = Some T \<and> RefTable t \<in> dom T \<and> r = Inr x \<and>
        IsSuccess x \<and> D' = D(RefDatabase t \<mapsto> T(RefTable t := None)))" by blast
    have no: "\<not> (IsError x \<and> IsSuccess x)" for x by (simp add: IsError_def IsSuccess_def)
    have "tables_of (D(RefDatabase t \<mapsto> T(RefTable t := None))) = tables_of D - {(RefDatabase t, RefTable t)}"
      if "D (RefDatabase t) = Some T" for T using that by (auto simp: tables_of_def split: if_splits)
    then show ?thesis using D' no DropTableStmt by (intro exI [of _ D']) auto
  qed (use table assms(6) in \<open>simp_all add: fun_eq_iff\<close>)
qed


definition quiet_start :: start_outcome where
  "quiet_start = \<lparr>so_default_binary = False, so_directory = True, so_child = None, so_ready = \<lambda>_. False\<rparr>"

definition sample_catalog :: catalog where
  "sample_catalog = snd (Cat_CreateDatabase good_io ''d'' (Catalog no_file))"

lemma Catalog_new: "catalog_at (Catalog no_file) Map.empty"
  using no_databases_wf
  by (simp add: Catalog_def JsonFile_Load_def no_file_def catalog_at_def)

lemma sample_catalog_at: "catalog_at sample_catalog [''d'' \<mapsto> Map.empty]"
  using Cat_CreateDatabase_at [OF Catalog_new, of good_io "''d''"] by (auto simp: sample_catalog_def)

lemma sample_consistent: "consistent (cluster_at (Registry False [] []) sample_catalog) [''d'' \<mapsto> Map.empty]"
  using sample_catalog_at Registry_ok
  by (simp add: consistent_def cluster_at_def tables_of_def plain_name_def path_char_def is_alnum_def IsAlpha_def IsDigit_def byte_in_def)
    (auto simp: Registry_def)


text \<open>
  C40: after a restart of the server no table can be reached. The catalog is read back from its file, but
  the registry starts empty and nothing starts the processes of the tables: every statement on a table
  that exists fails, the table cannot be dropped, and it cannot be created again.
\<close>

theorem restart_forgets_the_processes:
  assumes "catalog_at c D" "D (RefDatabase t) = Some T" "RefTable t \<in> dom T" "TableFromStatement stmt = Some t"
    and "ct_file c = \<lparr>jf_target = Some (ct_data c), jf_temp = tmp\<rparr>"
    and "s = \<lparr>ro_catalog = Catalog (ct_file c), ro_registry = Registry auto binary root, ro_world = w\<rparr>"
  shows "\<exists>r s'. Route ios os net stmt s = (r, s') \<and> ro_registry s' = ro_registry s \<and> catalog_at (ro_catalog s') D \<and>
    (case r of Inr x \<Rightarrow> IsError x | Inl _ \<Rightarrow> \<exists>cs. stmt = CreateTableStmt t cs)"
proof -
  have "is_object (ct_data c) \<and> jcontains (ct_data c) ''databases''"
    using assms(1) by (auto simp: catalog_at_def catalog_wf_def jcontains_def)
  then have cat: "catalog_at (ro_catalog s) D"
    using assms(1,5,6) by (simp add: Catalog_def JsonFile_Load_def catalog_at_def Let_def)
  have known: "HasTable (ro_catalog s) t = Inr True" using HasTable_at [OF cat] assms(2,3) by auto
  have send: "SendToStorage net k stmt' s = (Inr (Rsp_ErrorData ''Storage node is not registered'' (storage_data k)), s)" for k stmt'
    using assms(6) by (simp add: SendToStorage_def sbind_def sget_def sret_def GetNode_def Registry_def)
  have table: ?thesis if "Route ios os net stmt s = Route_table net stmt s"
    using that known assms(4) cat send by (simp add: Route_table_def sbind_def error_responses)
  show ?thesis
  proof (cases stmt)
    case (CreateTableStmt t' cs)
    then have t: "t' = t" using assms(4) by simp
    show ?thesis
    proof (cases "SerializeAst (CreateTableStmt t cs)")
      case (Inl e)
      then obtain c' where "catalog_at c' D" "Cat_CreateTable (ios 0) t cs (ro_catalog s) = (Inr False, c') \<or>
        Cat_CreateTable (ios 0) t cs (ro_catalog s) = (Inl e, c')" using Cat_CreateTable_throws [OF cat Inl] by blast
      then show ?thesis using CreateTableStmt t
        by (auto simp: Route_CreateTable_def sbind_def on_catalog_def on_part_def sret_def error_responses)
    next
      case (Inr j)
      obtain c' where "Cat_CreateTable (ios 0) t cs (ro_catalog s) = (Inr False, c')" "catalog_at c' D"
        using Cat_CreateTable_at [OF cat Inr, of "ios 0"] assms(2,3) by auto
      then show ?thesis using CreateTableStmt t
        by (auto simp: Route_CreateTable_def sbind_def on_catalog_def on_part_def sret_def error_responses)
    qed
  next
    case (DropTableStmt t')
    then show ?thesis using assms(4) known cat send
      by (simp add: Route_DropTable_def sbind_def sret_def error_responses)
  qed (use assms(4) table in simp_all)
qed

theorem restart_forgets_the_processes_witness:
  "\<exists>c T r s'. catalog_at c [''d'' \<mapsto> T] \<and> ''t'' \<in> dom T \<and> IsError r \<and>
    Route (\<lambda>_. good_io) quiet_start (storage_net no_match) (DeleteStmt (TableRef ''d'' ''t'') None)
      (cluster_at (Registry True ''qdb-storage'' []) (Catalog (ct_file c))) = (Inr r, s')"
proof -
  let ?t = "TableRef ''d'' ''t''"
  obtain cs where cs: "sample_create = CreateTableStmt ?t cs" by (simp add: sample_create_def)
  have canon: "canonical_stmt sample_create"
    by (simp add: sample_create_def canonical_ref_def canonical_column_def TableRef_def)
  obtain j where j: "SerializeAst (CreateTableStmt ?t cs) = Inr j" using DeserializeAst_SerializeAst [OF canon] cs by auto
  obtain c where c: "Cat_CreateTable good_io ?t cs sample_catalog = (Inr True, c)"
    "catalog_at c ([''d'' \<mapsto> Map.empty](''d'' \<mapsto> [''t'' \<mapsto> j]))"
    using Cat_CreateTable_at [OF sample_catalog_at j, of good_io] by (auto simp: TableRef_def)
  then have at: "catalog_at c [''d'' \<mapsto> [''t'' \<mapsto> j]]" by simp
  have f: "ct_file c = \<lparr>jf_target = Some (ct_data c), jf_temp = None\<rparr>"
    using c(1) j by (auto simp: Cat_CreateTable_def Let_def sbind_def sget_def supd_def sret_def slift_def Catalog_Save_def
        split: if_splits prod.splits sum.splits)
  have "TableFromStatement (DeleteStmt ?t None) = Some ?t" "[''d'' \<mapsto> [''t'' \<mapsto> j]] (RefDatabase ?t) = Some [''t'' \<mapsto> j]"
    "RefTable ?t \<in> dom [''t'' \<mapsto> j]" by (simp_all add: TableRef_def)
  from restart_forgets_the_processes [OF at this(2,3,1) f cluster_at_def, of "\<lambda>_. good_io" quiet_start "storage_net no_match"]
  obtain r s' where "Route (\<lambda>_. good_io) quiet_start (storage_net no_match) (DeleteStmt ?t None)
      (cluster_at (Registry True ''qdb-storage'' []) (Catalog (ct_file c))) = (r, s')"
    "case r of Inr x \<Rightarrow> IsError x | Inl _ \<Rightarrow> \<exists>cs. DeleteStmt ?t None = CreateTableStmt ?t cs"
    by blast
  then obtain x where "Route (\<lambda>_. good_io) quiet_start (storage_net no_match) (DeleteStmt ?t None)
      (cluster_at (Registry True ''qdb-storage'' []) (Catalog (ct_file c))) = (Inr x, s')" "IsError x" by (cases r) auto
  then show ?thesis using at
    by (intro exI [of _ c] exI [of _ "[''t'' \<mapsto> j]"] exI [of _ x] exI [of _ s']) (simp del: Route.simps)
qed

end
