(* ===== verification/Access_Rules.thy ===== *)
theory Access_Rules
  imports Json_File
begin

text \<open>
  Access control, \<open>apps/server/src/rbac.cpp\<close>: the rules of a server, the test of a permission, granting
  and revoking with the rollback of a failed save, and the file that holds the rules. The specification
  is the set of the grants that are in force.
\<close>

section \<open>Permissions and rules\<close>

datatype permission = INVALID_PERM | READ_PERM | WRITE_PERM | CREATE_PERM | DELETE_PERM

record access_rule =
  rule_user :: string
  rule_db :: string
  rule_table :: string
  rule_perms :: "permission set"

definition AccessRule :: "string \<Rightarrow> string \<Rightarrow> string \<Rightarrow> permission set \<Rightarrow> access_rule" where
  "AccessRule u d t ps = \<lparr>rule_user = u, rule_db = d, rule_table = t, rule_perms = ps\<rparr>"

section \<open>As JSON\<close>

text \<open>The table of \<open>NLOHMANN_JSON_SERIALIZE_ENUM\<close>: an unknown value is its first entry.\<close>

definition perm_names :: "(permission \<times> string) list" where
  "perm_names = [(INVALID_PERM, ''INVALID''), (READ_PERM, ''READ''), (WRITE_PERM, ''WRITE''), (CREATE_PERM, ''CREATE''),
     (DELETE_PERM, ''DELETE'')]"

definition perm_json :: "permission \<Rightarrow> json" where
  "perm_json p = JString (the (map_of perm_names p))"

definition perm_from_json :: "json \<Rightarrow> permission" where
  "perm_from_json j = (case filter (\<lambda>(p, name). JString name = j) perm_names of [] \<Rightarrow> INVALID_PERM | (p, _) # _ \<Rightarrow> p)"

text \<open>A \<open>std::set\<close> is written in the order of the enumeration.\<close>

definition perm_list :: "permission set \<Rightarrow> permission list" where
  "perm_list ps = filter (\<lambda>p. p \<in> ps) (map fst perm_names)"

definition rule_to_json :: "access_rule \<Rightarrow> json" where
  "rule_to_json r = jobj [(''user_id'', JString (rule_user r)), (''database'', JString (rule_db r)),
     (''table'', JString (rule_table r)), (''permissions'', JArray (map perm_json (perm_list (rule_perms r))))]"

definition elements_of :: "json \<Rightarrow> json list result" where
  "elements_of j = (case j of JArray xs \<Rightarrow> Inr xs | _ \<Rightarrow> Inl (Json_Error ''type_error.302''))"

definition rule_from_json :: "json \<Rightarrow> access_rule result" where
  "rule_from_json j =
     rbind (rbind (jat j ''user_id'') get_string) (\<lambda>u.
       rbind (rbind (jat j ''database'') get_string) (\<lambda>d.
         rbind (rbind (jat j ''table'') get_string) (\<lambda>t.
           rbind (rbind (jat j ''permissions'') elements_of) (\<lambda>ps.
             Inr (AccessRule u d t (set (map perm_from_json ps)))))))"

definition rules_json :: "access_rule list \<Rightarrow> json" where
  "rules_json rs = JArray (map rule_to_json rs)"

definition rules_from_json :: "json \<Rightarrow> access_rule list result" where
  "rules_from_json j = rbind (elements_of j) (rmapM rule_from_json)"

section \<open>The manager\<close>

record rbac =
  rb_rules :: "access_rule list"
  rb_file :: json_file

definition RBAC_Load :: "rbac \<Rightarrow> rbac" where
  "RBAC_Load m =
     (case rules_from_json (JsonFile_Load (JArray []) (rb_file m)) of
        Inr rs \<Rightarrow> m\<lparr>rb_rules := rs\<rparr>
      | Inl _ \<Rightarrow> m)"

definition RBACManager :: "json_file \<Rightarrow> rbac" where
  "RBACManager f = RBAC_Load \<lparr>rb_rules = [], rb_file = f\<rparr>"

definition RBAC_Save :: "save_io \<Rightarrow> rbac \<Rightarrow> bool \<times> rbac" where
  "RBAC_Save io m = (case JsonFile_Save io (rules_json (rb_rules m)) (rb_file m) of (b, f) \<Rightarrow> (b, m\<lparr>rb_file := f\<rparr>))"

definition rule_matches :: "string \<Rightarrow> string \<Rightarrow> string \<Rightarrow> permission \<Rightarrow> access_rule \<Rightarrow> bool" where
  "rule_matches username database table perm rule =
     (if rule_user rule \<noteq> username \<and> rule_user rule \<noteq> ''*'' then False
      else if rule_db rule \<noteq> database \<and> rule_db rule \<noteq> ''*'' then False
      else if rule_table rule \<noteq> table \<and> rule_table rule \<noteq> ''*'' then False
      else perm \<in> rule_perms rule)"

definition CheckPermission :: "rbac \<Rightarrow> string \<Rightarrow> string \<Rightarrow> string \<Rightarrow> permission \<Rightarrow> bool" where
  "CheckPermission m username database table perm = list_ex (rule_matches username database table perm) (rb_rules m)"

definition rule_key :: "access_rule \<Rightarrow> string \<times> string \<times> string" where
  "rule_key r = (rule_user r, rule_db r, rule_table r)"

text \<open>\<open>std::find_if\<close> on the key: the position of the first rule with it.\<close>

fun find_rule :: "string \<times> string \<times> string \<Rightarrow> access_rule list \<Rightarrow> nat option" where
  "find_rule k [] = None"
| "find_rule k (r # rs) = (if rule_key r = k then Some 0 else map_option Suc (find_rule k rs))"

definition change_perms :: "(permission set \<Rightarrow> permission set) \<Rightarrow> nat \<Rightarrow> access_rule list \<Rightarrow> access_rule list" where
  "change_perms f i rs = rs[i := rule_perms_update f (rs ! i)]"

text \<open>
  \<open>GrantPermission\<close>: after \<open>push_back\<close> the iterator of the search, the end of the old vector, is invalid;
  the rollback of a failed save compares and dereferences it.
\<close>

definition GrantPermission :: "save_io \<Rightarrow> string \<Rightarrow> string \<Rightarrow> string \<Rightarrow> permission \<Rightarrow> (rbac, unit) st" where
  "GrantPermission io u d t perm m =
     (if perm = INVALID_PERM then (Inr (), m)
      else case find_rule (u, d, t) (rb_rules m) of
        Some i \<Rightarrow>
          (case RBAC_Save io (m\<lparr>rb_rules := change_perms (insert perm) i (rb_rules m)\<rparr>) of
             (True, m') \<Rightarrow> (Inr (), m')
           | (False, m') \<Rightarrow> (Inr (), m'\<lparr>rb_rules := change_perms (\<lambda>ps. ps - {perm}) i (rb_rules m')\<rparr>))
      | None \<Rightarrow>
          (case RBAC_Save io (m\<lparr>rb_rules := rb_rules m @ [AccessRule u d t {perm}]\<rparr>) of
             (True, m') \<Rightarrow> (Inr (), m')
           | (False, m') \<Rightarrow> (Inl (Undefined_Behaviour ''use of an invalidated iterator''), m')))"

definition RevokePermission :: "save_io \<Rightarrow> string \<Rightarrow> string \<Rightarrow> string \<Rightarrow> permission \<Rightarrow> rbac \<Rightarrow> rbac" where
  "RevokePermission io u d t perm m =
     (case find_rule (u, d, t) (rb_rules m) of
        None \<Rightarrow> m
      | Some i \<Rightarrow>
          let old_perms = rule_perms (rb_rules m ! i);
              changed = change_perms (\<lambda>ps. ps - {perm}) i (rb_rules m)
          in if rule_perms (changed ! i) = {} then
               let erased_rule = changed ! i in
               (case RBAC_Save io (m\<lparr>rb_rules := take i changed @ drop (Suc i) changed\<rparr>) of
                  (True, m') \<Rightarrow> m'
                | (False, m') \<Rightarrow> m'\<lparr>rb_rules := take i (rb_rules m') @ [erased_rule] @ drop i (rb_rules m')\<rparr>)
             else
               (case RBAC_Save io (m\<lparr>rb_rules := changed\<rparr>) of
                  (True, m') \<Rightarrow> m'
                | (False, m') \<Rightarrow>
                    (case find_rule (u, d, t) (rb_rules m') of
                       None \<Rightarrow> m'
                     | Some i \<Rightarrow> m'\<lparr>rb_rules := change_perms (\<lambda>_. old_perms) i (rb_rules m')\<rparr>)))"

definition GetUserPermissions :: "rbac \<Rightarrow> string \<Rightarrow> access_rule list" where
  "GetUserPermissions m username = filter (\<lambda>r. rule_user r = username \<or> rule_user r = ''*'') (rb_rules m)"

section \<open>The file holds the rules\<close>

lemma perm_back_each:
  "perm_from_json (perm_json INVALID_PERM) = INVALID_PERM" "perm_from_json (perm_json READ_PERM) = READ_PERM"
  "perm_from_json (perm_json WRITE_PERM) = WRITE_PERM" "perm_from_json (perm_json CREATE_PERM) = CREATE_PERM"
  "perm_from_json (perm_json DELETE_PERM) = DELETE_PERM"
  by code_simp+

lemma perm_back: "perm_from_json (perm_json p) = p"
  by (cases p) (simp_all only: perm_back_each)

lemma perm_named: "p \<in> set (map fst perm_names)"
  by (cases p) (simp_all add: perm_names_def)

lemma perm_list_set [simp]: "set (perm_list ps) = ps"
  unfolding perm_list_def set_filter using perm_named by blast

lemma rule_back: "rule_from_json (rule_to_json r) = Inr r"
proof -
  have "perm_from_json ` perm_json ` ps = ps" for ps by (simp add: image_image perm_back)
  then show ?thesis by (cases r) (simp add: rule_from_json_def rule_to_json_def AccessRule_def elements_of_def)
qed

lemma rules_back: "rules_from_json (rules_json rs) = Inr rs"
  by (simp add: rules_from_json_def rules_json_def elements_of_def rmapM_map rule_back)

text \<open>A manager whose file holds its rules: starting again finds the same rules.\<close>

definition rules_saved :: "rbac \<Rightarrow> bool" where
  "rules_saved m \<longleftrightarrow> jf_target (rb_file m) = Some (rules_json (rb_rules m)) \<or> (jf_target (rb_file m) = None \<and> rb_rules m = [])"

lemma rules_reload: "rules_saved m \<Longrightarrow> rb_rules (RBACManager (rb_file m)) = rb_rules m"
  using rules_back [of "[]"] rules_back [of "rb_rules m"]
  by (auto simp: rules_saved_def RBACManager_def RBAC_Load_def JsonFile_Load_def rules_json_def)

section \<open>The specification: the grants in force\<close>

type_synonym grants = "(string \<times> string \<times> string \<times> permission) set"

definition grants_of :: "access_rule list \<Rightarrow> grants" where
  "grants_of rs = {(u, d, t, p). \<exists>r \<in> set rs. rule_key r = (u, d, t) \<and> p \<in> rule_perms r}"

definition covered :: "grants \<Rightarrow> string \<Rightarrow> string \<Rightarrow> string \<Rightarrow> permission \<Rightarrow> bool" where
  "covered G u d t p \<longleftrightarrow> (\<exists>u' \<in> {u, ''*''}. \<exists>d' \<in> {d, ''*''}. \<exists>t' \<in> {t, ''*''}. (u', d', t', p) \<in> G)"

definition keys_once :: "access_rule list \<Rightarrow> bool" where
  "keys_once rs \<longleftrightarrow> distinct (map rule_key rs)"

lemma CheckPermission_covered: "CheckPermission m u d t p \<longleftrightarrow> covered (grants_of (rb_rules m)) u d t p"
proof
  assume "CheckPermission m u d t p"
  then obtain r where r: "r \<in> set (rb_rules m)" "rule_user r \<in> {u, ''*''}" "rule_db r \<in> {d, ''*''}"
    "rule_table r \<in> {t, ''*''}" "p \<in> rule_perms r"
    by (auto simp: CheckPermission_def list_ex_iff rule_matches_def split: if_splits)
  then have "(rule_user r, rule_db r, rule_table r, p) \<in> grants_of (rb_rules m)"
    by (auto simp: grants_of_def rule_key_def)
  then show "covered (grants_of (rb_rules m)) u d t p" using r(2-4) unfolding covered_def by blast
next
  assume "covered (grants_of (rb_rules m)) u d t p"
  then show "CheckPermission m u d t p"
    by (fastforce simp: covered_def grants_of_def rule_key_def CheckPermission_def list_ex_iff rule_matches_def)
qed

lemma find_rule_Some: "find_rule k rs = Some i \<Longrightarrow> i < length rs \<and> rule_key (rs ! i) = k"
  by (induction rs arbitrary: i) (auto split: if_splits)

lemma find_rule_None: "find_rule k rs = None \<longleftrightarrow> k \<notin> rule_key ` set rs"
  by (induction rs) auto

lemma change_keys: "i < length rs \<Longrightarrow> map rule_key (change_perms f i rs) = map rule_key rs"
  by (intro nth_equalityI) (simp_all add: change_perms_def rule_key_def nth_list_update)

lemma change_grants:
  assumes "find_rule (u, d, t) rs = Some i" "keys_once rs"
  shows "grants_of (change_perms f i rs) =
    {g \<in> grants_of rs. \<nexists>p. g = (u, d, t, p)} \<union> {(u, d, t, p) |p. p \<in> f (rule_perms (rs ! i))}"
    and "p \<in> rule_perms (rs ! i) \<longleftrightarrow> (u, d, t, p) \<in> grants_of rs"
proof -
  note i = find_rule_Some [OF assms(1)]
  have only: "j = i" if "j < length rs" "rule_key (rs ! j) = (u, d, t)" for j
    using assms(2) i that unfolding keys_once_def by (metis distinct_conv_nth length_map nth_map)
  have mem: "(u', d', t', p) \<in> grants_of xs \<longleftrightarrow> (\<exists>j < length xs. rule_key (xs ! j) = (u', d', t') \<and> p \<in> rule_perms (xs ! j))"
    for u' d' t' p xs by (auto simp: grants_of_def in_set_conv_nth Bex_def)
  show "p \<in> rule_perms (rs ! i) \<longleftrightarrow> (u, d, t, p) \<in> grants_of rs"
    unfolding mem using only i by blast
  have key: "rule_key (change_perms f i rs ! j) = rule_key (rs ! j)" if "j < length rs" for j
    using change_keys [of i rs f] i that by (metis length_list_update change_perms_def nth_map)
  have perms: "rule_perms (change_perms f i rs ! j) = (if j = i then f (rule_perms (rs ! i)) else rule_perms (rs ! j))"
    if "j < length rs" for j using that i by (simp add: change_perms_def nth_list_update)
  have len: "length (change_perms f i rs) = length rs" by (simp add: change_perms_def)
  show "grants_of (change_perms f i rs) =
    {g \<in> grants_of rs. \<nexists>p. g = (u, d, t, p)} \<union> {(u, d, t, p) |p. p \<in> f (rule_perms (rs ! i))}" (is "?l = ?r")
  proof (intro set_eqI)
    fix g :: "string \<times> string \<times> string \<times> permission"
    obtain u' d' t' p where g: "g = (u', d', t', p)" by (cases g)
    show "g \<in> ?l \<longleftrightarrow> g \<in> ?r"
    proof (cases "(u', d', t') = (u, d, t)")
      case True
      then have "g \<in> ?l \<longleftrightarrow> p \<in> f (rule_perms (rs ! i))"
        unfolding g mem len using key perms only i by (metis (no_types, lifting))
      then show ?thesis using True g by auto
    next
      case False
      have "g \<in> ?l \<longleftrightarrow> (\<exists>j < length rs. rule_key (rs ! j) = (u', d', t') \<and> p \<in> rule_perms (change_perms f i rs ! j))"
        unfolding g mem len using key by (metis (no_types, lifting))
      also have "\<dots> \<longleftrightarrow> g \<in> grants_of rs"
        unfolding g mem using perms i False by (metis (no_types, lifting))
      finally show ?thesis using False g by auto
    qed
  qed
qed

lemma grants_append: "grants_of (rs @ [AccessRule u d t ps]) = grants_of rs \<union> {(u, d, t, p) |p. p \<in> ps}"
  by (auto simp: grants_of_def rule_key_def AccessRule_def)

lemma erase_grants:
  assumes "find_rule (u, d, t) rs = Some i" "keys_once rs" "rule_perms (rs ! i) - {p} = {}"
  shows "grants_of (take i rs @ drop (Suc i) rs) = grants_of rs - {(u, d, t, p)}"
proof -
  note i = find_rule_Some [OF assms(1)]
  have split: "rs = take i rs @ rs ! i # drop (Suc i) rs" using i by (simp add: id_take_nth_drop)
  have other: "rule_key r \<noteq> (u, d, t)" if "r \<in> set (take i rs @ drop (Suc i) rs)" for r
  proof
    assume k: "rule_key r = (u, d, t)"
    have "distinct (map rule_key (take i rs @ rs ! i # drop (Suc i) rs))" using assms(2) split by (simp add: keys_once_def)
    then show False using that k i by (auto simp: image_iff)
  qed
  have "set rs = insert (rs ! i) (set (take i rs @ drop (Suc i) rs))" by (subst split) auto
  then have "g \<in> grants_of rs \<longleftrightarrow> (\<exists>p. g = (u, d, t, p) \<and> p \<in> rule_perms (rs ! i)) \<or> g \<in> grants_of (take i rs @ drop (Suc i) rs)" for g
    using i by (cases g) (auto simp: grants_of_def)
  moreover have "(u, d, t, q) \<notin> grants_of (take i rs @ drop (Suc i) rs)" for q
    using other unfolding grants_of_def by blast
  ultimately show ?thesis using assms(3) by (auto 0 4)
qed

lemma GrantPermission_good:
  assumes "keys_once (rb_rules m)"
  shows "\<exists>m'. GrantPermission good_io u d t p m = (Inr (), m') \<and> keys_once (rb_rules m') \<and>
    grants_of (rb_rules m') = grants_of (rb_rules m) \<union> (if p = INVALID_PERM then {} else {(u, d, t, p)}) \<and>
    (rules_saved m \<longrightarrow> rules_saved m')"
proof (cases "p = INVALID_PERM")
  case True
  then show ?thesis using assms by (simp add: GrantPermission_def)
next
  case False
  show ?thesis
  proof (cases "find_rule (u, d, t) (rb_rules m)")
    case None
    then have "keys_once (rb_rules m @ [AccessRule u d t {p}])"
      using assms by (simp add: find_rule_None keys_once_def rule_key_def AccessRule_def)
    moreover have "grants_of (rb_rules m @ [AccessRule u d t {p}]) = grants_of (rb_rules m) \<union> {(u, d, t, p)}"
      unfolding grants_append by blast
    ultimately show ?thesis using False None by (simp add: GrantPermission_def RBAC_Save_def rules_saved_def)
  next
    case (Some i)
    have "keys_once (change_perms (insert p) i (rb_rules m))"
      using assms change_keys find_rule_Some [OF Some] by (simp add: keys_once_def)
    moreover have "grants_of (change_perms (insert p) i (rb_rules m)) = grants_of (rb_rules m) \<union> {(u, d, t, p)}"
      using change_grants [OF Some assms] by auto
    ultimately show ?thesis using False Some by (simp add: GrantPermission_def RBAC_Save_def rules_saved_def)
  qed
qed

lemma RevokePermission_good:
  fixes u d t p m
  assumes "keys_once (rb_rules m)"
  defines "m' \<equiv> RevokePermission good_io u d t p m"
  shows "keys_once (rb_rules m') \<and> grants_of (rb_rules m') = grants_of (rb_rules m) - {(u, d, t, p)} \<and>
    (rules_saved m \<longrightarrow> rules_saved m')"
proof (cases "find_rule (u, d, t) (rb_rules m)")
  case None
  then have "(u, d, t, p) \<notin> grants_of (rb_rules m)" unfolding find_rule_None grants_of_def by force
  then show ?thesis using assms None by (simp add: RevokePermission_def)
next
  case (Some i)
  note i = find_rule_Some [OF Some]
  let ?changed = "change_perms (\<lambda>ps. ps - {p}) i (rb_rules m)"
  have keys: "map rule_key ?changed = map rule_key (rb_rules m)" using change_keys i by blast
  have g: "grants_of ?changed = grants_of (rb_rules m) - {(u, d, t, p)}"
    using change_grants [OF Some assms(1)] by auto
  have k: "keys_once ?changed" using assms(1) keys by (simp add: keys_once_def)
  show ?thesis
  proof (cases "rule_perms (?changed ! i) = {}")
    case True
    have ci: "?changed ! i = rule_perms_update (\<lambda>ps. ps - {p}) (rb_rules m ! i)" using i by (simp add: change_perms_def)
    have e: "take i ?changed @ drop (Suc i) ?changed = take i (rb_rules m) @ drop (Suc i) (rb_rules m)"
      by (simp add: change_perms_def)
    have "keys_once (take i (rb_rules m) @ drop (Suc i) (rb_rules m))"
    proof -
      have "distinct (map rule_key (take i (rb_rules m) @ rb_rules m ! i # drop (Suc i) (rb_rules m)))"
        using assms(1) i by (simp add: keys_once_def flip: id_take_nth_drop)
      then show ?thesis by (simp add: keys_once_def)
    qed
    moreover have "grants_of (take i (rb_rules m) @ drop (Suc i) (rb_rules m)) = grants_of (rb_rules m) - {(u, d, t, p)}"
      using erase_grants [OF Some assms(1)] True ci by simp
    ultimately show ?thesis
      using Some True e by (simp add: m'_def RevokePermission_def RBAC_Save_def rules_saved_def Let_def)
  next
    case False
    then show ?thesis using Some g k by (simp add: m'_def RevokePermission_def RBAC_Save_def rules_saved_def Let_def)
  qed
qed

section \<open>Histories\<close>

datatype rbac_call = Call_Grant string string string permission | Call_Revoke string string string permission

fun rbac_step :: "rbac_call \<Rightarrow> rbac \<Rightarrow> rbac" where
  "rbac_step (Call_Grant u d t p) m = snd (GrantPermission good_io u d t p m)"
| "rbac_step (Call_Revoke u d t p) m = RevokePermission good_io u d t p m"

fun grants_step :: "rbac_call \<Rightarrow> grants \<Rightarrow> grants" where
  "grants_step (Call_Grant u d t p) G = (if p = INVALID_PERM then G else insert (u, d, t, p) G)"
| "grants_step (Call_Revoke u d t p) G = G - {(u, d, t, p)}"

lemma rbac_step_sim:
  assumes "keys_once (rb_rules m)" "rules_saved m" "grants_of (rb_rules m) = G"
  shows "keys_once (rb_rules (rbac_step c m)) \<and> rules_saved (rbac_step c m) \<and> grants_of (rb_rules (rbac_step c m)) = grants_step c G"
proof (cases c)
  case (Call_Grant u d t p)
  then show ?thesis using GrantPermission_good [OF assms(1), of u d t p] assms(2,3) by auto
next
  case (Call_Revoke u d t p)
  then show ?thesis using RevokePermission_good [OF assms(1), of u d t p] assms(2,3) by auto
qed

lemma rbac_history_sim:
  assumes "keys_once (rb_rules m)" "rules_saved m" "grants_of (rb_rules m) = G"
  shows "keys_once (rb_rules (fold rbac_step cs m)) \<and> rules_saved (fold rbac_step cs m) \<and>
    grants_of (rb_rules (fold rbac_step cs m)) = fold grants_step cs G"
  using assms
proof (induction cs arbitrary: m G)
  case (Cons c cs)
  then show ?case using rbac_step_sim [OF Cons.prems(1-3), of c] by simp
qed simp

text \<open>A change of a saved rule that is not saved leaves the file as it was.\<close>

lemma rbac_save_fails:
  assumes "RBAC_Save io m = (False, m')"
  shows "rb_rules m' = rb_rules m" "jf_target (rb_file m') = jf_target (rb_file m)"
  using assms save_result(1) by (auto simp: RBAC_Save_def split: prod.splits)

text \<open>
  A grant of a permission that is already in force takes it away when the file cannot be written: the
  rollback erases what was there before.
\<close>

lemma failed_grant_takes_away:
  assumes "keys_once (rb_rules m)" "(u, d, t, p) \<in> grants_of (rb_rules m)" "p \<noteq> INVALID_PERM" "\<not> io_rename io"
  shows "\<exists>m'. GrantPermission io u d t p m = (Inr (), m') \<and> (u, d, t, p) \<notin> grants_of (rb_rules m')"
proof -
  have "find_rule (u, d, t) (rb_rules m) \<noteq> None" using assms(2) unfolding find_rule_None grants_of_def by force
  then obtain i where i: "find_rule (u, d, t) (rb_rules m) = Some i" by blast
  have at: "i < length (rb_rules m)" using find_rule_Some [OF i] by simp
  show ?thesis
  proof -
    let ?one = "change_perms (insert p) i (rb_rules m)"
    have fails: "\<exists>f. JsonFile_Save io j g = (False, f)" for j g by (simp add: JsonFile_Save_def assms(4) Let_def)
    then obtain f where f: "JsonFile_Save io (rules_json ?one) (rb_file m) = (False, f)" by blast
    have undone: "change_perms (\<lambda>ps. ps - {p}) i ?one = change_perms (\<lambda>ps. ps - {p}) i (rb_rules m)"
      using at by (simp add: change_perms_def comp_def)
    have "(u, d, t, p) \<notin> grants_of (change_perms (\<lambda>ps. ps - {p}) i (rb_rules m))"
      unfolding change_grants(1) [OF i assms(1)] by blast
    then show ?thesis using assms(3) i f undone by (simp add: GrantPermission_def RBAC_Save_def)
  qed
qed

section \<open>The property\<close>

text \<open>
  C18: decisions follow the history of grants and revocations. After any sequence of them on an empty
  store, and also after the rules are read back from their file, a permission is given exactly when it
  was granted and not revoked since, for the user, database and table or for the wildcard in their place;
  the permission INVALID is never given.
\<close>

theorem decisions_follow_history:
  "CheckPermission (fold rbac_step cs (RBACManager no_file)) u d t p = covered (fold grants_step cs {}) u d t p \<and>
   CheckPermission (RBACManager (rb_file (fold rbac_step cs (RBACManager no_file)))) u d t p =
     covered (fold grants_step cs {}) u d t p \<and>
   \<not> CheckPermission (fold rbac_step cs (RBACManager no_file)) u d t INVALID_PERM"
proof -
  let ?m = "fold rbac_step cs (RBACManager no_file)" and ?G = "fold grants_step cs {}"
  have new: "rb_rules (RBACManager no_file) = []" "jf_target (rb_file (RBACManager no_file)) = None"
    using rules_back [of "[]"] by (simp_all add: RBACManager_def RBAC_Load_def JsonFile_Load_def no_file_def rules_json_def)
  have "keys_once (rb_rules (RBACManager no_file))" "rules_saved (RBACManager no_file)" "grants_of (rb_rules (RBACManager no_file)) = {}"
    using new by (simp_all add: keys_once_def rules_saved_def grants_of_def)
  note h = rbac_history_sim [OF this, of cs]
  have "(u', d', t', INVALID_PERM) \<notin> fold grants_step cs G" if "\<And>u d t. (u, d, t, INVALID_PERM) \<notin> G" for u' d' t' G
    using that
  proof (induction cs arbitrary: G)
    case (Cons c cs)
    have "(u, d, t, INVALID_PERM) \<notin> grants_step c G" for u d t using Cons.prems by (cases c) auto
    then show ?case using Cons.IH by simp
  qed simp
  then have "\<not> covered ?G u d t INVALID_PERM" by (simp add: covered_def)
  then show ?thesis using h rules_reload [of ?m] by (simp add: CheckPermission_covered)
qed

end
