(* ===== verification/Accounts.thy ===== *)
theory Accounts
  imports Json_File "HOL-Library.Word"
begin

text \<open>
  Accounts and tokens, \<open>apps/server/src/security.cpp\<close>. The cryptography is not the program's: the random
  bytes of a salt, PBKDF2, the base64 blocks of OpenSSL and the tokens of jwt-cpp are parameters.
\<close>

section \<open>Encodings\<close>

definition hex_digit :: "nat \<Rightarrow> char" where
  "hex_digit n = ''0123456789abcdef'' ! (n mod 16)"

definition hex_byte :: "8 word \<Rightarrow> string" where
  "hex_byte b = [hex_digit (unat b div 16), hex_digit (unat b)]"

definition ToHex :: "8 word list \<Rightarrow> string" where
  "ToHex bs = concat (map hex_byte bs)"

text \<open>\<open>encode\<close> and \<open>decode\<close> are \<open>EVP_EncodeBlock\<close> and \<open>EVP_DecodeBlock\<close>.\<close>

definition url_char :: "char \<Rightarrow> char" where
  "url_char c = (if c = CHR ''+'' then CHR ''-'' else if c = CHR ''/'' then CHR ''_'' else c)"

definition plain_char :: "char \<Rightarrow> char" where
  "plain_char c = (if c = CHR ''-'' then CHR ''+'' else if c = CHR ''_'' then CHR ''/'' else c)"

definition Base64UrlEncode :: "(8 word list \<Rightarrow> string) \<Rightarrow> 8 word list \<Rightarrow> string" where
  "Base64UrlEncode encode bs =
     (let result = map url_char (encode bs);
          kept = rev (dropWhile (\<lambda>c. c = CHR ''='') (rev result))
      in if kept = [] then result else kept)"

definition Base64UrlDecode :: "(string \<Rightarrow> 8 word list option) \<Rightarrow> string \<Rightarrow> 8 word list" where
  "Base64UrlDecode decode input =
     (let normalized = map plain_char input;
          head = takeWhile (\<lambda>c. c \<noteq> CHR ''='') normalized;
          tail = dropWhile (\<lambda>c. c \<noteq> CHR ''='') normalized
      in if list_ex (\<lambda>c. c \<noteq> CHR ''='') tail then []
         else case decode (head @ replicate ((4 - length head mod 4) mod 4) (CHR ''='')) of
           None \<Rightarrow> []
         | Some buf \<Rightarrow> rev (dropWhile (\<lambda>b. b = 0) (rev buf)))"

section \<open>Accounts\<close>

record account =
  acc_username :: string
  acc_password_hash :: string
  acc_salt :: string

definition Account :: "string \<Rightarrow> string \<Rightarrow> string \<Rightarrow> account" where
  "Account u h s = \<lparr>acc_username = u, acc_password_hash = h, acc_salt = s\<rparr>"

definition account_to_json :: "account \<Rightarrow> json" where
  "account_to_json a = jobj [(''username'', JString (acc_username a)), (''password_hash'', JString (acc_password_hash a)),
     (''salt'', JString (acc_salt a))]"

definition account_from_json :: "json \<Rightarrow> account result" where
  "account_from_json j =
     rbind (rbind (jat j ''username'') get_string) (\<lambda>u.
       rbind (rbind (jat j ''password_hash'') get_string) (\<lambda>h.
         rbind (rbind (jat j ''salt'') get_string) (\<lambda>s. Inr (Account u h s))))"

text \<open>A map is a JSON object with its keys as the names of the members.\<close>

definition accounts_json :: "(string \<times> account) list \<Rightarrow> json" where
  "accounts_json as = jobj (map (\<lambda>(u, a). (u, account_to_json a)) as)"

definition accounts_from_json :: "json \<Rightarrow> (string \<times> account) list result" where
  "accounts_from_json j =
     (case j of
        JObject kvs \<Rightarrow> rmapM (\<lambda>(u, v). rmap (Pair u) (account_from_json v)) kvs
      | _ \<Rightarrow> Inl (Json_Error ''type_error.302''))"

record account_store =
  as_accounts :: "(string \<times> account) list"
  as_file :: json_file
  load_ok :: bool

definition Accounts_Load :: "account_store \<Rightarrow> account_store" where
  "Accounts_Load s =
     (case accounts_from_json (JsonFile_Load (JObject []) (as_file s)) of
        Inr as \<Rightarrow> s\<lparr>as_accounts := as, load_ok := True\<rparr>
      | Inl _ \<Rightarrow> s\<lparr>load_ok := False\<rparr>)"

definition AccountStore :: "json_file \<Rightarrow> account_store" where
  "AccountStore f = Accounts_Load \<lparr>as_accounts = [], as_file = f, load_ok = False\<rparr>"

definition Accounts_Save :: "save_io \<Rightarrow> account_store \<Rightarrow> bool \<times> account_store" where
  "Accounts_Save io s =
     (if \<not> load_ok s then (False, s)
      else case JsonFile_Save io (accounts_json (as_accounts s)) (as_file s) of (b, f) \<Rightarrow> (b, s\<lparr>as_file := f\<rparr>))"

text \<open>\<open>random\<close> is what \<open>RAND_bytes\<close> gives, \<open>kdf\<close> is \<open>PKCS5_PBKDF2_HMAC\<close> with the constants of the code.\<close>

definition GenerateSalt :: "8 word list option \<Rightarrow> string" where
  "GenerateSalt random = (case random of None \<Rightarrow> [] | Some bs \<Rightarrow> ToHex bs)"

type_synonym key_derivation = "string \<Rightarrow> string \<Rightarrow> 8 word list option"

definition HashPassword :: "key_derivation \<Rightarrow> string \<Rightarrow> string \<Rightarrow> string" where
  "HashPassword kdf password salt = (case kdf password salt of None \<Rightarrow> [] | Some bs \<Rightarrow> ToHex bs)"

definition HasAccount :: "account_store \<Rightarrow> string \<Rightarrow> bool" where
  "HasAccount s username \<longleftrightarrow> map_of (as_accounts s) username \<noteq> None"

definition Accounts_Empty :: "account_store \<Rightarrow> bool" where
  "Accounts_Empty s \<longleftrightarrow> as_accounts s = []"

definition CreateAccount ::
    "key_derivation \<Rightarrow> 8 word list option \<Rightarrow> save_io \<Rightarrow> string \<Rightarrow> string \<Rightarrow> account_store \<Rightarrow> bool \<times> account_store" where
  "CreateAccount kdf random io username password s =
     (if username = [] \<or> password = [] \<or> username = ''*'' then (False, s)
      else if HasAccount s username then (False, s)
      else
        let salt = GenerateSalt random in
        if salt = [] then (False, s)
        else let hash = HashPassword kdf password salt in
        if hash = [] then (False, s)
        else case Accounts_Save io (s\<lparr>as_accounts := (username, Account username hash salt) # as_accounts s\<rparr>) of
          (True, s') \<Rightarrow> (True, s')
        | (False, s') \<Rightarrow> (False, s'\<lparr>as_accounts := filter (\<lambda>(u, _). u \<noteq> username) (as_accounts s')\<rparr>))"

definition Authenticate_password :: "key_derivation \<Rightarrow> account_store \<Rightarrow> string \<Rightarrow> string \<Rightarrow> bool" where
  "Authenticate_password kdf s username password =
     (case map_of (as_accounts s) username of
        None \<Rightarrow> False
      | Some a \<Rightarrow>
          let computed = HashPassword kdf password (acc_salt a)
          in if length computed \<noteq> length (acc_password_hash a) then False else computed = acc_password_hash a)"

section \<open>Tokens\<close>

text \<open>
  What jwt-cpp offers: signing the claims of a token, reading them, and checking a token with a secret at
  a time in seconds. A token may lack a claim.
\<close>

record claims =
  cl_subject :: "string option"
  cl_issued :: "int option"
  cl_expires :: "int option"

record jwt_lib =
  jwt_sign :: "string \<Rightarrow> claims \<Rightarrow> string"
  jwt_decode :: "string \<Rightarrow> claims option"
  jwt_verify :: "string \<Rightarrow> int \<Rightarrow> string \<Rightarrow> bool"

definition TOKEN_TTL :: int where "TOKEN_TTL = 86400"

definition GenerateToken :: "jwt_lib \<Rightarrow> string \<Rightarrow> int \<Rightarrow> string \<Rightarrow> int \<Rightarrow> string" where
  "GenerateToken lib secret now username ttl =
     (if secret = [] then []
      else jwt_sign lib secret \<lparr>cl_subject = Some username, cl_issued = Some now, cl_expires = Some (now + ttl)\<rparr>)"

definition ValidateToken :: "jwt_lib \<Rightarrow> string \<Rightarrow> int \<Rightarrow> string \<Rightarrow> string option" where
  "ValidateToken lib secret now token =
     (if secret = [] then None
      else case jwt_decode lib token of
        None \<Rightarrow> None
      | Some c \<Rightarrow>
          if cl_expires c = None then None
          else if \<not> jwt_verify lib secret now token then None
          else cl_subject c)"

section \<open>Facts\<close>

lemma account_back: "account_from_json (account_to_json a) = Inr a"
  by (cases a) (simp add: account_from_json_def account_to_json_def Account_def)

lemma hex_digit_inject: "m < 16 \<Longrightarrow> n < 16 \<Longrightarrow> hex_digit m = hex_digit n \<Longrightarrow> m = n"
proof -
  have "distinct ''0123456789abcdef''" by simp
  moreover assume "m < 16" "n < 16" "hex_digit m = hex_digit n"
  ultimately show "m = n" unfolding hex_digit_def by (simp add: nth_eq_iff_index_eq del: nth_Cons_numeral)
qed

lemma hex_byte_inject: "hex_byte a = hex_byte b \<longleftrightarrow> a = b"
proof
  assume h: "hex_byte a = hex_byte b"
  have "unat a < 256" "unat b < 256" using unsigned_less [of a] unsigned_less [of b] by simp_all
  then have "unat a div 16 = unat b div 16"
    using h hex_digit_inject [of "unat a div 16" "unat b div 16"] by (simp add: hex_byte_def)
  moreover have "hex_digit (unat a mod 16) = hex_digit (unat b mod 16)" using h by (simp add: hex_byte_def hex_digit_def)
  then have "unat a mod 16 = unat b mod 16" using hex_digit_inject by simp
  ultimately have "unat a = unat b" by (metis div_mult_mod_eq)
  then show "a = b" by (rule unsigned_word_eqI)
qed simp

text \<open>The hexadecimal text determines the bytes, so equal hashes come from equal keys.\<close>

lemma ToHex_inject: "ToHex as = ToHex bs \<longleftrightarrow> as = bs"
proof (induction as arbitrary: bs)
  case Nil
  show ?case by (cases bs) (simp_all add: ToHex_def hex_byte_def)
next
  case (Cons a as)
  have two: "ToHex (b # bs) = hex_byte b @ ToHex bs" for b bs by (simp add: ToHex_def)
  have len: "length (hex_byte b) = 2" for b by (simp add: hex_byte_def)
  show ?case
  proof (cases bs)
    case Nil
    then show ?thesis by (simp add: ToHex_def hex_byte_def)
  next
    case (Cons b bs')
    then show ?thesis using Cons.IH [of bs'] two len hex_byte_inject by simp
  qed
qed

section \<open>The file holds the accounts\<close>

lemma jput_values: "(x, v) \<in> set (jput k w kvs) \<Longrightarrow> v = w \<or> (x, v) \<in> set kvs"
  by (induction kvs) (auto split: if_splits)

lemma fold_jput_values:
  "(x, v) \<in> set (fold (\<lambda>(k, v). jput k v) kvs m) \<Longrightarrow> v \<in> snd ` set kvs \<or> (x, v) \<in> set m"
proof (induction kvs arbitrary: m)
  case (Cons kw kvs)
  obtain k w where "kw = (k, w)" by (cases kw)
  then show ?case using Cons.IH [of "jput k w m"] Cons.prems jput_values [of x v k w m] by auto
qed simp

lemma read_members:
  assumes "\<And>v. v \<in> snd ` set kvs \<Longrightarrow> dec v = Inr (g v)"
  shows "rmapM (\<lambda>(u, v). rmap (Pair u) (dec v)) kvs = Inr (map (\<lambda>(u, v). (u, g v)) kvs)"
  using assms by (induction kvs) (auto simp: image_iff)

lemma map_of_values: "map_of (map (\<lambda>(u, v). (u, g v)) kvs) u = map_option g (map_of kvs u)"
  by (induction kvs) auto

lemma map_of_rev_distinct: "distinct (map fst kvs) \<Longrightarrow> map_of (rev kvs) = map_of kvs"
proof (intro map_of_eqI ballI)
  fix k assume d: "distinct (map fst kvs)" and "k \<in> set (map fst (rev kvs))"
  then obtain v where v: "(k, v) \<in> set kvs" by auto
  have "map_of kvs k = Some v" "map_of (rev kvs) k = Some v"
    using v d by (auto intro!: map_of_is_SomeI simp flip: rev_map)
  then show "map_of (rev kvs) k = map_of kvs k" by simp
qed auto

definition account_of_json :: "json \<Rightarrow> account" where
  "account_of_json j = (case account_from_json j of Inr a \<Rightarrow> a | Inl _ \<Rightarrow> Account [] [] [])"

lemma accounts_back:
  assumes "distinct (map fst as)"
  shows "\<exists>as'. accounts_from_json (accounts_json as) = Inr as' \<and> map_of as' = map_of as"
proof -
  let ?ms = "map (\<lambda>(u, a). (u, account_to_json a)) as"
  let ?kvs = "fold (\<lambda>(k, v). jput k v) ?ms []"
  have vals: "account_from_json v = Inr (account_of_json v)" if "v \<in> snd ` set ?kvs" for v
  proof -
    obtain xv where "xv \<in> set ?kvs" "v = snd xv" using \<open>v \<in> snd ` set ?kvs\<close> by (rule imageE)
    then have "(fst xv, v) \<in> set ?kvs" by (metis prod.collapse)
    then obtain x where "(x, v) \<in> set ?kvs" by blast
    then have "v \<in> snd ` set ?ms" using fold_jput_values [of x v ?ms "[]"] by simp
    then obtain a where "v = account_to_json a" by auto
    then show ?thesis by (simp add: account_of_json_def account_back)
  qed
  have "map_of (map (\<lambda>(u, v). (u, account_of_json v)) ?kvs) u = map_of as u" for u
  proof -
    have keys: "map fst ?ms = map fst as" by (induction as) auto
    have "distinct (map fst ?ms)" unfolding keys by (rule assms)
    then have "map_of (rev ?ms) u = map_of ?ms u" using map_of_rev_distinct [of ?ms] by simp
    then have "map_of ?kvs u = map_of ?ms u" by (simp add: map_of_fold_jput split: option.split)
    also have "\<dots> = map_option account_to_json (map_of as u)" by (rule map_of_values)
    finally show ?thesis
      unfolding map_of_values by (cases "map_of as u") (simp_all add: account_of_json_def account_back)
  qed
  then show ?thesis using read_members [of ?kvs account_from_json account_of_json] vals
    by (simp add: accounts_from_json_def accounts_json_def jobj_def fun_eq_iff)
qed

definition store_ok :: "account_store \<Rightarrow> bool" where
  "store_ok s \<longleftrightarrow> load_ok s \<and> distinct (map fst (as_accounts s)) \<and>
     (jf_target (as_file s) = Some (accounts_json (as_accounts s)) \<or> jf_target (as_file s) = None \<and> as_accounts s = [])"

lemma store_reload:
  assumes "store_ok s"
  shows "map_of (as_accounts (AccountStore (as_file s))) = map_of (as_accounts s)" "load_ok (AccountStore (as_file s))"
proof -
  obtain as' where "accounts_from_json (accounts_json (as_accounts s)) = Inr as'" "map_of as' = map_of (as_accounts s)"
    using accounts_back assms by (auto simp: store_ok_def)
  then show "map_of (as_accounts (AccountStore (as_file s))) = map_of (as_accounts s)" "load_ok (AccountStore (as_file s))"
    using assms by (auto simp: store_ok_def AccountStore_def Accounts_Load_def JsonFile_Load_def accounts_from_json_def accounts_json_def jobj_def)
qed

lemma CreateAccount_True:
  assumes "CreateAccount kdf random io u p s = (True, s')"
  shows "\<not> HasAccount s u" "u \<noteq> []" "u \<noteq> ''*''" "p \<noteq> []" "HashPassword kdf p (GenerateSalt random) \<noteq> []"
    and "as_accounts s' = (u, Account u (HashPassword kdf p (GenerateSalt random)) (GenerateSalt random)) # as_accounts s"
    and "load_ok s" "load_ok s'" "io_text io \<noteq> Text_Lost \<Longrightarrow> jf_target (as_file s') = Some (accounts_json (as_accounts s'))"
  using assms save_result(2)
  by (auto simp: CreateAccount_def Let_def Accounts_Save_def split: if_splits prod.splits bool.splits)

lemma CreateAccount_False:
  assumes "CreateAccount kdf random io u p s = (False, s')"
  shows "as_accounts s' = as_accounts s" "jf_target (as_file s') = jf_target (as_file s)" "load_ok s' = load_ok s"
proof -
  have keep: "filter (\<lambda>(v, _). v \<noteq> u) (as_accounts s) = as_accounts s" if "\<not> HasAccount s u"
    using that by (intro filter_True) (auto simp: HasAccount_def map_of_eq_None_iff image_iff)
  show "as_accounts s' = as_accounts s" "jf_target (as_file s') = jf_target (as_file s)" "load_ok s' = load_ok s"
    using assms keep save_result(1)
    by (auto simp: CreateAccount_def Let_def Accounts_Save_def split: if_splits prod.splits bool.splits)
qed

lemma HashPassword_eq:
  assumes "HashPassword kdf p salt \<noteq> []"
  shows "HashPassword kdf q salt = HashPassword kdf p salt \<longleftrightarrow> kdf q salt = kdf p salt"
  using assms by (auto simp: HashPassword_def ToHex_inject split: option.splits)

section \<open>The property\<close>

text \<open>
  C26: a new account can log in, with its password only, also after a restart. When an account is created
  and its file is written, the store read back from the file accepts for the new user exactly the
  passwords with the same derived key, and decides for all other users as before; a refused creation
  (empty or reserved name, empty password, known user, no random bytes, file not written) changes nothing.
\<close>

theorem new_account_logs_in:
  assumes "store_ok s" "CreateAccount kdf random io u p s = (b, s')" "io_text io \<noteq> Text_Lost"
  shows "store_ok s' \<and>
    (if b then
       (\<forall>q. Authenticate_password kdf (AccountStore (as_file s')) u q = (kdf q (GenerateSalt random) = kdf p (GenerateSalt random))) \<and>
       (\<forall>v q. v \<noteq> u \<longrightarrow> Authenticate_password kdf (AccountStore (as_file s')) v q = Authenticate_password kdf s v q)
     else \<forall>v q. Authenticate_password kdf (AccountStore (as_file s')) v q = Authenticate_password kdf s v q)"
proof (cases b)
  case True
  then have c: "CreateAccount kdf random io u p s = (True, s')" using assms(2) by simp
  note t = CreateAccount_True [OF c]
  have fresh: "u \<notin> fst ` set (as_accounts s)" using t(1) by (simp add: HasAccount_def map_of_eq_None_iff)
  have ok: "store_ok s'" using assms(1,3) t fresh by (simp add: store_ok_def)
  have m: "map_of (as_accounts (AccountStore (as_file s'))) = map_of (as_accounts s')" by (rule store_reload(1) [OF ok])
  have "Authenticate_password kdf (AccountStore (as_file s')) u q = (kdf q (GenerateSalt random) = kdf p (GenerateSalt random))" for q
  proof -
    have "Authenticate_password kdf (AccountStore (as_file s')) u q =
      (HashPassword kdf q (GenerateSalt random) = HashPassword kdf p (GenerateSalt random))"
      by (auto simp: Authenticate_password_def m t(6) Account_def Let_def)
    then show ?thesis using HashPassword_eq [OF t(5)] by simp
  qed
  moreover have "Authenticate_password kdf (AccountStore (as_file s')) v q = Authenticate_password kdf s v q" if "v \<noteq> u" for v q
    using that by (simp add: Authenticate_password_def m t(6))
  ultimately show ?thesis using ok True by simp
next
  case False
  then have c: "CreateAccount kdf random io u p s = (False, s')" using assms(2) by simp
  note f = CreateAccount_False [OF c]
  have ok: "store_ok s'" using assms(1) f by (simp add: store_ok_def)
  have "Authenticate_password kdf (AccountStore (as_file s')) v q = Authenticate_password kdf s v q" for v q
    using store_reload(1) [OF ok] f(1) by (simp add: Authenticate_password_def)
  then show ?thesis using ok False by simp
qed

definition plain_kdf :: key_derivation where
  "plain_kdf password salt = Some (map (\<lambda>c. of_nat (of_char c)) (password @ salt))"

theorem new_account_logs_in_witness:
  "\<exists>s. CreateAccount plain_kdf (Some [7]) good_io ''ann'' ''pw'' (AccountStore no_file) = (True, s) \<and>
     Authenticate_password plain_kdf (AccountStore (as_file s)) ''ann'' ''pw'' \<and>
     \<not> Authenticate_password plain_kdf (AccountStore (as_file s)) ''ann'' ''px'' \<and>
     \<not> Authenticate_password plain_kdf (AccountStore (as_file s)) ''bob'' ''pw''"
proof -
  have new: "as_accounts (AccountStore no_file) = []" "load_ok (AccountStore no_file)" "jf_target (as_file (AccountStore no_file)) = None"
    by (simp_all add: AccountStore_def Accounts_Load_def JsonFile_Load_def no_file_def accounts_from_json_def)
  then have ok: "store_ok (AccountStore no_file)" by (simp add: store_ok_def)
  have "HashPassword plain_kdf ''pw'' salt \<noteq> []" "GenerateSalt (Some [7]) \<noteq> []" for salt
    by (simp_all add: HashPassword_def plain_kdf_def GenerateSalt_def ToHex_def hex_byte_def)
  then obtain s where s: "CreateAccount plain_kdf (Some [7]) good_io ''ann'' ''pw'' (AccountStore no_file) = (True, s)"
    using new by (simp add: CreateAccount_def HasAccount_def Let_def Accounts_Save_def)
  have "plain_kdf ''px'' salt \<noteq> plain_kdf ''pw'' salt" for salt by (simp add: plain_kdf_def)
  then show ?thesis using new_account_logs_in [OF ok s] s new(1) by (simp add: good_io_def Authenticate_password_def)
qed

end
