(* ===== verification/Task_Queue.thy ===== *)
theory Task_Queue
  imports Sql_Ast Messages Table_Store "HOL-Library.Multiset"
begin

text \<open>
  Background statements: the task processor, \<open>apps/server/src/task_processor.cpp\<close>, on the thread pool,
  \<open>libs/core/src/thread_pool.cpp\<close>. Every operation that holds a mutex is one step; the threads interleave
  in any order. A handler may answer or throw, and what it does is not determined by its statement.
\<close>

section \<open>Tasks\<close>

datatype task_status = Task_Pending | Task_Running | Task_Completed | Task_Failed

record task_result =
  tr_id :: string
  tr_status :: task_status
  tr_response :: "response option"
  tr_error :: "string option"

type_synonym tasks = "string \<rightharpoonup> task_result"

definition new_task :: "string \<Rightarrow> task_result" where
  "new_task k = \<lparr>tr_id = k, tr_status = Task_Pending, tr_response = None, tr_error = None\<rparr>"

definition Task_Update :: "string \<Rightarrow> task_status \<Rightarrow> response option \<Rightarrow> string option \<Rightarrow> tasks \<Rightarrow> tasks" where
  "Task_Update k status r err ts =
     (case ts k of
        None \<Rightarrow> ts
      | Some t \<Rightarrow> if tr_status t = Task_Failed then ts
                  else ts(k \<mapsto> t\<lparr>tr_status := status, tr_response := r, tr_error := err\<rparr>))"

definition Task_Get :: "tasks \<Rightarrow> string \<Rightarrow> task_result option" where
  "Task_Get ts k = ts k"

definition Task_Cancel :: "string \<Rightarrow> tasks \<Rightarrow> bool \<times> tasks" where
  "Task_Cancel k ts =
     (case ts k of
        None \<Rightarrow> (False, ts)
      | Some t \<Rightarrow> if tr_status t = Task_Completed then (False, ts)
                  else (True, ts(k \<mapsto> t\<lparr>tr_status := Task_Failed, tr_error := Some ''cancelled''\<rparr>)))"

section \<open>The pool\<close>

text \<open>
  A worker waits, holds a job it has taken from the queue, runs it, or has left its loop. A submission is
  in progress between the entry in the map and the push to the queue; a refused one until it is marked.
\<close>

type_synonym job = "string \<times> statement"

datatype worker = Idle | Took job | Runs job | Exited

record pool =
  pl_tasks :: tasks
  pl_submits :: "job list"
  pl_refused :: "job list"
  pl_queue :: "job list"
  pl_stopped :: bool
  pl_workers :: "worker list"

definition ThreadPool :: "nat \<Rightarrow> pool" where
  "ThreadPool workers = \<lparr>pl_tasks = Map.empty, pl_submits = [], pl_refused = [], pl_queue = [], pl_stopped = False,
     pl_workers = replicate (if workers = 0 then 1 else workers) Idle\<rparr>"

definition Pool_Submit :: "job \<Rightarrow> pool \<Rightarrow> bool \<times> pool" where
  "Pool_Submit j p = (if pl_stopped p then (False, p) else (True, p\<lparr>pl_queue := pl_queue p @ [j]\<rparr>))"

definition Pool_Stop :: "pool \<Rightarrow> pool" where
  "Pool_Stop p = p\<lparr>pl_stopped := True\<rparr>"

text \<open>The wait in the loop of a worker ends when the pool is stopped or the queue holds a job.\<close>

definition worker_next :: "pool \<Rightarrow> (worker \<times> pool) option" where
  "worker_next p =
     (if pl_stopped p \<and> pl_queue p = [] then Some (Exited, p)
      else case pl_queue p of
        [] \<Rightarrow> None
      | j # q \<Rightarrow> Some (Took j, p\<lparr>pl_queue := q\<rparr>))"

definition run_begin :: "job \<Rightarrow> pool \<Rightarrow> pool" where
  "run_begin j p = p\<lparr>pl_tasks := Task_Update (fst j) Task_Running None None (pl_tasks p)\<rparr>"

definition run_end :: "job \<Rightarrow> response result \<Rightarrow> pool \<Rightarrow> pool" where
  "run_end j outcome p =
     p\<lparr>pl_tasks := (case outcome of
        Inr r \<Rightarrow> Task_Update (fst j) Task_Completed (Some r) None (pl_tasks p)
      | Inl e \<Rightarrow> Task_Update (fst j) Task_Failed None (Some (what_of e)) (pl_tasks p))\<rparr>"

definition submit_begin :: "job \<Rightarrow> pool \<Rightarrow> pool" where
  "submit_begin j p = p\<lparr>pl_tasks := (pl_tasks p)(fst j \<mapsto> new_task (fst j)), pl_submits := j # pl_submits p\<rparr>"

definition submit_push :: "job \<Rightarrow> pool \<Rightarrow> pool" where
  "submit_push j p =
     (case Pool_Submit j (p\<lparr>pl_submits := remove1 j (pl_submits p)\<rparr>) of
        (True, p) \<Rightarrow> p
      | (False, p) \<Rightarrow> p\<lparr>pl_refused := j # pl_refused p\<rparr>)"

definition submit_refused :: "job \<Rightarrow> pool \<Rightarrow> pool" where
  "submit_refused j p =
     p\<lparr>pl_refused := remove1 j (pl_refused p),
       pl_tasks := Task_Update (fst j) Task_Failed None (Some ''task processor stopped'') (pl_tasks p)\<rparr>"

section \<open>Steps\<close>

type_synonym handler = "statement \<Rightarrow> response result \<Rightarrow> bool"

text \<open>What the threads do on their own.\<close>

inductive pool_step :: "handler \<Rightarrow> pool \<Rightarrow> pool \<Rightarrow> bool" for h where
  step_push: "j \<in> set (pl_submits p) \<Longrightarrow> pool_step h p (submit_push j p)"
| step_refused: "j \<in> set (pl_refused p) \<Longrightarrow> pool_step h p (submit_refused j p)"
| step_next: "i < length (pl_workers p) \<Longrightarrow> pl_workers p ! i = Idle \<Longrightarrow> worker_next p = Some (w, p') \<Longrightarrow>
    pool_step h p (p'\<lparr>pl_workers := (pl_workers p)[i := w]\<rparr>)"
| step_begin: "i < length (pl_workers p) \<Longrightarrow> pl_workers p ! i = Took j \<Longrightarrow>
    pool_step h p ((run_begin j p)\<lparr>pl_workers := (pl_workers p)[i := Runs j]\<rparr>)"
| step_end: "i < length (pl_workers p) \<Longrightarrow> pl_workers p ! i = Runs j \<Longrightarrow> h (snd j) outcome \<Longrightarrow>
    pool_step h p ((run_end j outcome p)\<lparr>pl_workers := (pl_workers p)[i := Idle]\<rparr>)"

text \<open>What clients ask for. An identifier is 122 random bits, so it is new.\<close>

inductive client_step :: "pool \<Rightarrow> pool \<Rightarrow> bool" where
  client_submit: "fst j \<notin> dom (pl_tasks p) \<Longrightarrow> client_step p (submit_begin j p)"
| client_cancel: "client_step p (p\<lparr>pl_tasks := snd (Task_Cancel k (pl_tasks p))\<rparr>)"
| client_stop: "client_step p (Pool_Stop p)"

inductive pool_reach :: "handler \<Rightarrow> pool \<Rightarrow> pool \<Rightarrow> bool" for h where
  reach_here: "pool_reach h p p"
| reach_step: "pool_reach h p q \<Longrightarrow> pool_step h q r \<Longrightarrow> pool_reach h p r"
| reach_client: "pool_reach h p q \<Longrightarrow> client_step q r \<Longrightarrow> pool_reach h p r"

section \<open>Where a job is\<close>

fun worker_jobs :: "worker \<Rightarrow> job list" where
  "worker_jobs (Took j) = [j]"
| "worker_jobs (Runs j) = [j]"
| "worker_jobs _ = []"

text \<open>The identifiers of the jobs that are not finished, with their multiplicity.\<close>

definition waiting :: "pool \<Rightarrow> string multiset" where
  "waiting p = mset (map fst (pl_submits p)) + mset (map fst (pl_refused p)) + mset (map fst (pl_queue p))"

definition held :: "pool \<Rightarrow> string multiset" where
  "held p = mset (map fst (concat (map worker_jobs (pl_workers p))))"

definition open_jobs :: "pool \<Rightarrow> string multiset" where
  "open_jobs p = waiting p + held p"

definition once :: "'a multiset \<Rightarrow> bool" where
  "once M \<longleftrightarrow> (\<forall>x. count M x \<le> 1)"

text \<open>
  Every open job is there once and has an entry; a completed task is not open any more; a worker leaves
  only when the pool is stopped and drained; entries belong to their key and have the result their status
  promises.
\<close>

definition pool_ok :: "pool \<Rightarrow> bool" where
  "pool_ok p \<longleftrightarrow>
     once (open_jobs p) \<and>
     (\<forall>k \<in># open_jobs p. \<exists>t. pl_tasks p k = Some t \<and> tr_status t \<noteq> Task_Completed) \<and>
     (\<forall>k t. pl_tasks p k = Some t \<longrightarrow> k \<notin># open_jobs p \<longrightarrow> tr_status t \<in> {Task_Completed, Task_Failed}) \<and>
     (Exited \<in> set (pl_workers p) \<longrightarrow> pl_stopped p \<and> pl_queue p = []) \<and>
     pl_workers p \<noteq> [] \<and>
     (\<forall>k t. pl_tasks p k = Some t \<longrightarrow> tr_id t = k \<and> (tr_status t = Task_Completed \<longleftrightarrow> tr_response t \<noteq> None) \<and>
       (tr_status t = Task_Failed \<longleftrightarrow> tr_error t \<noteq> None))"

lemma ThreadPool_ok: "pool_ok (ThreadPool n)"
proof -
  have "concat (map worker_jobs (replicate m Idle)) = []" for m by simp
  then show ?thesis by (auto simp: pool_ok_def ThreadPool_def open_jobs_def waiting_def held_def once_def)
qed

lemma held_update:
  assumes "i < length ws"
  shows "mset (map fst (concat (map worker_jobs (ws[i := w])))) + mset (map fst (worker_jobs (ws ! i))) =
    mset (map fst (concat (map worker_jobs ws))) + mset (map fst (worker_jobs w))"
proof -
  let ?jobs = "\<lambda>ws. concat (map worker_jobs ws)"
  have new: "?jobs (ws[i := w]) = ?jobs (take i ws) @ worker_jobs w @ ?jobs (drop (Suc i) ws)"
    using assms by (simp add: upd_conv_take_nth_drop)
  have "?jobs ws = ?jobs (take i ws @ ws ! i # drop (Suc i) ws)" using id_take_nth_drop [OF assms] by simp
  then have old: "?jobs ws = ?jobs (take i ws) @ worker_jobs (ws ! i) @ ?jobs (drop (Suc i) ws)" by simp
  show ?thesis unfolding new old by simp
qed

section \<open>The invariant is kept\<close>

text \<open>The map of the tasks against the identifiers of the open jobs.\<close>

definition entry_ok :: "bool \<Rightarrow> string \<Rightarrow> task_result \<Rightarrow> bool" where
  "entry_ok open_job k t \<longleftrightarrow>
     tr_id t = k \<and> (tr_status t = Task_Completed \<longleftrightarrow> tr_response t \<noteq> None) \<and> (tr_status t = Task_Failed \<longleftrightarrow> tr_error t \<noteq> None) \<and>
     (if open_job then tr_status t \<noteq> Task_Completed else tr_status t \<in> {Task_Completed, Task_Failed})"

definition books :: "tasks \<Rightarrow> string multiset \<Rightarrow> bool" where
  "books ts M \<longleftrightarrow> once M \<and> (\<forall>k \<in># M. ts k \<noteq> None) \<and> (\<forall>k t. ts k = Some t \<longrightarrow> entry_ok (k \<in># M) k t)"

lemma pool_ok_books:
  "pool_ok p \<longleftrightarrow> books (pl_tasks p) (open_jobs p) \<and> pl_workers p \<noteq> [] \<and>
    (Exited \<in> set (pl_workers p) \<longrightarrow> pl_stopped p \<and> pl_queue p = [])"
  unfolding pool_ok_def books_def entry_ok_def
  by (intro iffI conjI; (elim conjE)?; (intro allI ballI impI conjI)?) (fastforce split: if_splits)+

lemma once_add: "once M \<Longrightarrow> x \<notin># M \<Longrightarrow> once (add_mset x M)"
  by (simp add: once_def not_in_iff)

lemma once_remove: "once M \<Longrightarrow> once (M - {#x#})" "once M \<Longrightarrow> x \<notin># M - {#x#}"
proof -
  assume one: "once M"
  have "count (M - {#x#}) y \<le> count M y" for y by simp
  then show "once (M - {#x#})" using one unfolding once_def by (meson le_trans)
  have "count (M - {#x#}) x = 0" using one by (simp add: once_def)
  then show "x \<notin># M - {#x#}" by (simp add: not_in_iff)
qed

lemma once_other: "y \<noteq> x \<Longrightarrow> y \<in># M - {#x#} \<longleftrightarrow> y \<in># M"
  by (simp add: in_diff_count)

lemma books_entry:
  assumes "books ts M" "once M'" "\<And>k'. k' \<noteq> k \<Longrightarrow> k' \<in># M' \<longleftrightarrow> k' \<in># M" "entry_ok (k \<in># M') k t"
  shows "books (ts(k \<mapsto> t)) M'"
  unfolding books_def
proof (intro conjI allI ballI impI)
  show "once M'" by (rule assms(2))
  show "(ts(k \<mapsto> t)) k' \<noteq> None" if "k' \<in># M'" for k' using that assms(1,3) by (cases "k' = k") (simp_all add: books_def)
  show "entry_ok (k' \<in># M') k' t'" if "(ts(k \<mapsto> t)) k' = Some t'" for k' t'
    using that assms(1,3,4) by (cases "k' = k") (simp_all add: books_def)
qed

lemma booksD: "books ts M \<Longrightarrow> k \<in># M \<Longrightarrow> \<exists>t. ts k = Some t \<and> entry_ok True k t"
  by (fastforce simp: books_def)

lemma books_new: "books ts M \<Longrightarrow> ts k = None \<Longrightarrow> books (ts(k \<mapsto> new_task k)) (add_mset k M)"
proof (rule books_entry)
  assume "books ts M" "ts k = None"
  then have "k \<notin># M" "once M" by (auto simp: books_def)
  then show "once (add_mset k M)" by (simp add: once_add)
qed (simp_all add: entry_ok_def new_task_def)

lemma books_running:
  assumes "books ts M" "k \<in># M"
  shows "books (Task_Update k Task_Running None None ts) M"
proof -
  obtain t where t: "ts k = Some t" "entry_ok True k t" using booksD [OF assms] by blast
  show ?thesis
  proof (cases "tr_status t = Task_Failed")
    case True
    then show ?thesis using assms t by (simp add: Task_Update_def)
  next
    case False
    then have "Task_Update k Task_Running None None ts = ts(k \<mapsto> t\<lparr>tr_status := Task_Running, tr_response := None, tr_error := None\<rparr>)"
      using t by (simp add: Task_Update_def)
    moreover have "once M" using assms(1) by (simp add: books_def)
    ultimately show ?thesis using books_entry [OF assms(1), of M k] assms(2) t(2) by (simp add: entry_ok_def)
  qed
qed

lemma books_end:
  assumes "books ts M" "k \<in># M" "status = Task_Completed \<and> r \<noteq> None \<and> err = None \<or> status = Task_Failed \<and> r = None \<and> err \<noteq> None"
  shows "books (Task_Update k status r err ts) (M - {#k#})"
proof -
  obtain t where t: "ts k = Some t" "entry_ok True k t" using booksD [OF assms(1,2)] by blast
  have one: "once M" using assms(1) by (simp add: books_def)
  have M: "once (M - {#k#})" "k \<notin># M - {#k#}" using once_remove [OF one, of k] assms(2) by simp_all
  let ?t = "if tr_status t = Task_Failed then t else t\<lparr>tr_status := status, tr_response := r, tr_error := err\<rparr>"
  have "Task_Update k status r err ts = ts(k \<mapsto> ?t)" using t by (auto simp: Task_Update_def)
  moreover have "entry_ok False k ?t" using t(2) assms(3) by (auto simp: entry_ok_def)
  ultimately show ?thesis using books_entry [OF assms(1) M(1), of k ?t] M(2) once_other [of _ k M] by simp
qed

lemma books_cancel:
  assumes "books ts M"
  shows "books (snd (Task_Cancel k ts)) M"
proof (cases "ts k")
  case None
  then show ?thesis using assms by (simp add: Task_Cancel_def)
next
  case (Some t)
  then have e: "entry_ok (k \<in># M) k t" using assms by (simp add: books_def)
  show ?thesis
  proof (cases "tr_status t = Task_Completed")
    case True
    then show ?thesis using assms Some by (simp add: Task_Cancel_def)
  next
    case False
    then have "entry_ok (k \<in># M) k (t\<lparr>tr_status := Task_Failed, tr_error := Some ''cancelled''\<rparr>)" using e by (simp add: entry_ok_def)
    moreover have "once M" using assms by (simp add: books_def)
    ultimately show ?thesis using books_entry [OF assms, of M k] Some False by (simp add: Task_Cancel_def)
  qed
qed

lemma mset_remove1: "j \<in> set js \<Longrightarrow> add_mset (fst j) (mset (map fst (remove1 j js))) = mset (map fst js)"
  by (induction js) auto

lemma pool_step_ok:
  assumes "pool_step h p q" "pool_ok p"
  shows "pool_ok q"
  using assms(1)
proof (cases rule: pool_step.cases)
  case (step_push j)
  have "open_jobs q = open_jobs p \<and> pl_tasks q = pl_tasks p \<and> pl_workers q = pl_workers p \<and> pl_stopped q = pl_stopped p \<and>
    (pl_stopped p \<longrightarrow> pl_queue q = pl_queue p)"
    using step_push mset_remove1 [OF step_push(2)]
    by (auto simp: submit_push_def Pool_Submit_def open_jobs_def waiting_def held_def)
  then show ?thesis using assms(2) by (simp add: pool_ok_books)
next
  case (step_refused j)
  have open_q: "open_jobs q = open_jobs p - {#fst j#}" and in_p: "fst j \<in># open_jobs p"
    using step_refused mset_remove1 [OF step_refused(2), symmetric] by (auto simp: submit_refused_def open_jobs_def waiting_def held_def)
  then have "books (Task_Update (fst j) Task_Failed None (Some ''task processor stopped'') (pl_tasks p)) (open_jobs q)"
    using assms(2) unfolding open_q by (intro books_end) (simp_all add: pool_ok_books)
  then show ?thesis using assms(2) step_refused by (simp add: pool_ok_books submit_refused_def)
next
  case (step_next i w p')
  show ?thesis
  proof (cases "pl_stopped p \<and> pl_queue p = []")
    case True
    then have n: "w = Exited" "p' = p" using step_next by (simp_all add: worker_next_def)
    have "open_jobs q = open_jobs p"
      using step_next n held_update [of i "pl_workers p" Exited] by (simp add: open_jobs_def waiting_def held_def)
    then show ?thesis using assms(2) step_next n True by (auto simp: pool_ok_books)
  next
    case False
    then obtain j js where n: "pl_queue p = j # js" "w = Took j" "p' = p\<lparr>pl_queue := js\<rparr>"
      using step_next by (auto simp: worker_next_def split: list.splits)
    have same: "open_jobs q = open_jobs p"
      using step_next n held_update [of i "pl_workers p" "Took j"] by (simp add: open_jobs_def waiting_def held_def)
    have "Exited \<notin> set (pl_workers p)" using assms(2) n by (auto simp: pool_ok_books)
    then have "Exited \<notin> set (pl_workers q)" using step_next n set_update_subset_insert [of "pl_workers p" i "Took j"] by auto
    then show ?thesis using assms(2) step_next n same by (simp add: pool_ok_books)
  qed
next
  case (step_begin i j)
  have same: "open_jobs q = open_jobs p" and in_p: "fst j \<in># open_jobs p"
    using step_begin held_update [of i "pl_workers p" "Runs j"] held_update [of i "pl_workers p" Idle, symmetric]
    by (auto simp: open_jobs_def waiting_def held_def run_begin_def)
  then have "books (pl_tasks q) (open_jobs q)"
    using assms(2) step_begin books_running by (simp add: pool_ok_books run_begin_def)
  moreover have "Exited \<in> set (pl_workers q) \<Longrightarrow> Exited \<in> set (pl_workers p)"
    using step_begin set_update_subset_insert [of "pl_workers p" i "Runs j"] by auto
  ultimately show ?thesis using assms(2) step_begin by (auto simp: pool_ok_books run_begin_def)
next
  case (step_end i j outcome)
  have open_q: "open_jobs q = open_jobs p - {#fst j#}" and in_p: "fst j \<in># open_jobs p"
    using step_end held_update [of i "pl_workers p" Idle, symmetric]
    by (auto simp: open_jobs_def waiting_def held_def run_end_def)
  then have "books (pl_tasks q) (open_jobs q)"
    using assms(2) step_end unfolding open_q by (cases outcome) (auto simp: pool_ok_books run_end_def intro!: books_end)
  moreover have "Exited \<in> set (pl_workers q) \<Longrightarrow> Exited \<in> set (pl_workers p)"
    using step_end set_update_subset_insert [of "pl_workers p" i Idle] by auto
  ultimately show ?thesis using assms(2) step_end by (auto simp: pool_ok_books run_end_def)
qed

lemma client_step_ok:
  assumes "client_step p q" "pool_ok p"
  shows "pool_ok q"
  using assms(1)
proof (cases rule: client_step.cases)
  case (client_submit j)
  have "open_jobs q = add_mset (fst j) (open_jobs p)"
    using client_submit by (simp add: submit_begin_def open_jobs_def waiting_def held_def)
  then show ?thesis using assms(2) client_submit books_new [of "pl_tasks p" "open_jobs p" "fst j"]
    by (auto simp: pool_ok_books submit_begin_def)
next
  case (client_cancel k)
  then have "open_jobs q = open_jobs p" by (simp add: open_jobs_def waiting_def held_def)
  then show ?thesis using assms(2) client_cancel books_cancel by (simp add: pool_ok_books)
next
  case client_stop
  then have "open_jobs q = open_jobs p" by (simp add: Pool_Stop_def open_jobs_def waiting_def held_def)
  then show ?thesis using assms(2) client_stop by (simp add: pool_ok_books Pool_Stop_def)
qed

lemma pool_reach_ok: "pool_reach h p q \<Longrightarrow> pool_ok p \<Longrightarrow> pool_ok q"
  by (induction rule: pool_reach.induct) (auto intro: pool_step_ok client_step_ok)

section \<open>Every task finishes\<close>

text \<open>The work that is left: what the threads can still do without a client.\<close>

fun worker_work :: "worker \<Rightarrow> nat" where
  "worker_work Exited = 0"
| "worker_work Idle = 1"
| "worker_work (Runs _) = 2"
| "worker_work (Took _) = 3"

definition work :: "pool \<Rightarrow> nat" where
  "work p = 4 * length (pl_submits p) + length (pl_refused p) + 3 * length (pl_queue p) + sum_list (map worker_work (pl_workers p))"

lemma work_update:
  assumes "i < length ws"
  shows "sum_list (map worker_work (ws[i := w])) + worker_work (ws ! i) = sum_list (map worker_work ws) + worker_work w"
proof -
  have "worker_work (ws ! i) \<le> sum_list (map worker_work ws)" using elem_le_sum_list [of i "map worker_work ws"] assms by simp
  then show ?thesis using sum_list_update [of i "map worker_work ws" "worker_work w"] assms by (simp add: map_update)
qed

lemma pool_step_work: "pool_step h p q \<Longrightarrow> work q < work p"
proof (induction rule: pool_step.induct)
  case (step_push j p)
  then have "Suc (length (remove1 j (pl_submits p))) = length (pl_submits p)" by (simp add: length_remove1) (metis Suc_pred length_pos_if_in_set)
  then show ?case by (simp add: work_def submit_push_def Pool_Submit_def)
next
  case (step_refused j p)
  then have "Suc (length (remove1 j (pl_refused p))) = length (pl_refused p)" by (simp add: length_remove1) (metis Suc_pred length_pos_if_in_set)
  then show ?case by (simp add: work_def submit_refused_def)
next
  case (step_next i p w p')
  then show ?case using work_update [of i "pl_workers p" w]
    by (auto simp: work_def worker_next_def split: if_splits list.splits)
next
  case (step_begin i p j)
  then show ?case using work_update [of i "pl_workers p" "Runs j"] by (simp add: work_def run_begin_def)
next
  case (step_end i p j outcome)
  then show ?case using work_update [of i "pl_workers p" Idle] by (simp add: work_def run_end_def)
qed

lemma steps_work: "(pool_step h ^^ n) p q \<Longrightarrow> n + work q \<le> work p"
proof (induction n arbitrary: q)
  case (Suc n)
  then obtain r where "(pool_step h ^^ n) p r" "pool_step h r q" by auto
  then show ?case using Suc.IH [of r] pool_step_work [of h r q] by simp
qed simp

lemma steps_ok: "(pool_step h)\<^sup>*\<^sup>* p q \<Longrightarrow> pool_ok p \<Longrightarrow> pool_ok q"
  by (induction rule: rtranclp_induct) (auto intro: pool_step_ok)

definition settled :: "pool \<Rightarrow> bool" where
  "settled p \<longleftrightarrow> (\<forall>t \<in> ran (pl_tasks p). tr_status t = Task_Completed \<and> tr_response t \<noteq> None \<or> tr_status t = Task_Failed \<and> tr_error t \<noteq> None)"

lemma stuck_settled:
  assumes "pool_ok p" "\<And>s. \<exists>r. h s r" "\<nexists>q. pool_step h p q"
  shows "settled p"
proof -
  have none: "pl_submits p = []" "pl_refused p = []"
    using assms(3) pool_step.step_push [of _ p h] pool_step.step_refused [of _ p h] by (meson list.set_sel(1))+
  have busy: "pl_workers p ! i \<noteq> Took j" "pl_workers p ! i \<noteq> Runs j" if "i < length (pl_workers p)" for i j
    using assms(2) [of "snd j"] assms(3) pool_step.step_begin [of i p j h] pool_step.step_end [of i p j h] that by blast+
  have rest: "w = Idle \<or> w = Exited" if mem: "w \<in> set (pl_workers p)" for w
  proof -
    obtain i where i: "i < length (pl_workers p)" "w = pl_workers p ! i" using mem by (auto simp: in_set_conv_nth)
    have "w \<noteq> Took j" "w \<noteq> Runs j" for j using busy [OF i(1)] i(2) by simp_all
    then show ?thesis by (cases w) blast+
  qed
  have queue: "pl_queue p = []"
  proof (rule ccontr)
    assume full: "pl_queue p \<noteq> []"
    then have "Exited \<notin> set (pl_workers p)" "pl_workers p \<noteq> []" using assms(1) by (auto simp: pool_ok_books)
    then have idle: "0 < length (pl_workers p)" "pl_workers p ! 0 = Idle" using rest [of "pl_workers p ! 0"] by (metis length_greater_0_conv nth_mem)+
    obtain j js where "pl_queue p = j # js" using full by (cases "pl_queue p") auto
    then have "worker_next p = Some (Took j, p\<lparr>pl_queue := js\<rparr>)" by (simp add: worker_next_def)
    then show False using assms(3) pool_step.step_next [OF idle, of "Took j" "p\<lparr>pl_queue := js\<rparr>" h] by blast
  qed
  have "worker_jobs w = []" if "w \<in> set (pl_workers p)" for w using rest [OF that] by auto
  then have "concat (map worker_jobs (pl_workers p)) = []" by simp
  then have "open_jobs p = {#}" using none queue by (simp add: open_jobs_def waiting_def held_def)
  then show ?thesis using assms(1) unfolding settled_def pool_ok_def ran_def by fastforce
qed

lemma entries_stay: "pool_step h p q \<Longrightarrow> dom (pl_tasks p) \<subseteq> dom (pl_tasks q)"
  by (induction rule: pool_step.induct)
    (auto simp: submit_push_def Pool_Submit_def submit_refused_def run_begin_def run_end_def Task_Update_def worker_next_def
      split: option.splits sum.splits if_splits list.splits)

lemma reaches_end: "\<exists>q. (pool_step h)\<^sup>*\<^sup>* p q \<and> (\<nexists>r. pool_step h q r)"
proof (induction "work p" arbitrary: p rule: less_induct)
  case less
  show ?case
  proof (cases "\<exists>r. pool_step h p r")
    case True
    then obtain r where r: "pool_step h p r" by blast
    obtain q where "(pool_step h)\<^sup>*\<^sup>* r q" "\<nexists>s. pool_step h q s" using less [OF pool_step_work [OF r]] by blast
    then show ?thesis using r by (meson converse_rtranclp_into_rtranclp)
  qed blast
qed

text \<open>
  C16: whatever clients have submitted, cancelled or stopped, and however the threads interleave, the
  threads of the pool finish: they make at most \<open>work p\<close> more steps, never lose an entry, and whenever
  they have nothing left to do every task is completed with a response or failed with an error. Only the
  handler must answer or throw.
\<close>

theorem every_task_is_settled:
  assumes "\<And>s. \<exists>r. h s r" "pool_reach h (ThreadPool n) p"
  shows "(\<exists>q. (pool_step h)\<^sup>*\<^sup>* p q \<and> (\<nexists>r. pool_step h q r)) \<and>
    (\<forall>q. (pool_step h)\<^sup>*\<^sup>* p q \<longrightarrow> dom (pl_tasks p) \<subseteq> dom (pl_tasks q) \<and> ((\<nexists>r. pool_step h q r) \<longrightarrow> settled q)) \<and>
    (\<forall>q i. (pool_step h ^^ i) p q \<longrightarrow> i \<le> work p)"
proof (intro conjI allI impI)
  have ok: "pool_ok p" using pool_reach_ok [OF assms(2) ThreadPool_ok] .
  show "\<exists>q. (pool_step h)\<^sup>*\<^sup>* p q \<and> (\<nexists>r. pool_step h q r)" by (rule reaches_end)
  show "dom (pl_tasks p) \<subseteq> dom (pl_tasks q)" if "(pool_step h)\<^sup>*\<^sup>* p q" for q
    using that by (induction rule: rtranclp_induct) (use entries_stay in blast)+
  show "settled q" if "(pool_step h)\<^sup>*\<^sup>* p q" "\<nexists>r. pool_step h q r" for q
    by (rule stuck_settled [OF steps_ok [OF that(1) ok] assms(1) that(2)])
  show "i \<le> work p" if "(pool_step h ^^ i) p q" for q i using steps_work [OF that] by simp
qed

text \<open>A pool of one thread with a task that is submitted: it ends as completed.\<close>

theorem every_task_is_settled_witness:
  "\<exists>q t. (pool_step (\<lambda>_ r. r = Inr (Rsp_Pending ''p'' (JObject []))))\<^sup>*\<^sup>* (submit_begin (''k'', UseDatabaseStmt ''d'') (ThreadPool 1)) q \<and>
     pl_tasks q ''k'' = Some t \<and> tr_status t \<in> {Task_Completed, Task_Failed}"
proof -
  let ?h = "\<lambda>_ r. r = Inr (Rsp_Pending ''p'' (JObject []))" and ?p = "submit_begin (''k'', UseDatabaseStmt ''d'') (ThreadPool 1)"
  have "client_step (ThreadPool 1) ?p" by (intro client_submit) (simp add: ThreadPool_def)
  then have r: "pool_reach ?h (ThreadPool 1) ?p" by (blast intro: pool_reach.intros)
  have k: "''k'' \<in> dom (pl_tasks ?p)" by (simp add: submit_begin_def)
  obtain q where q: "(pool_step ?h)\<^sup>*\<^sup>* ?p q" "\<nexists>r. pool_step ?h q r" "dom (pl_tasks ?p) \<subseteq> dom (pl_tasks q)" "settled q"
    using every_task_is_settled [OF _ r] by blast
  then obtain t where t: "pl_tasks q ''k'' = Some t" using k by blast
  then have "tr_status t \<in> {Task_Completed, Task_Failed}" using q(4) by (auto simp: settled_def ran_def)
  then show ?thesis using q(1) t by blast
qed

end
