(* ===== verification/Telemetry.thy ===== *)
theory Telemetry
  imports Messages
begin

text \<open>
  The counters of the server, \<open>apps/server/include/qdb/server/telemetry.h\<close> and
  \<open>apps/server/src/telemetry.cpp\<close>: 64-bit counters, and ring buffers over the last seconds. The thread
  that ticks every second is the operation \<open>output_tick\<close>. A double is the pair of integers it is the
  quotient of.
\<close>

section \<open>Rolling windows\<close>

record window =
  slots :: "64 word list"
  slot_index :: nat

definition RollingWindow :: "nat \<Rightarrow> window" where
  "RollingWindow n = \<lparr>slots = replicate n 0, slot_index = 0\<rparr>"

definition Tick :: "64 word \<Rightarrow> window \<Rightarrow> window" where
  "Tick v w = w\<lparr>slots := (slots w)[slot_index w := v], slot_index := (slot_index w + 1) mod length (slots w)\<rparr>"

definition Window_Sum :: "window \<Rightarrow> 64 word" where
  "Window_Sum w = fold (\<lambda>v s. s + v) (slots w) 0"

definition Window_Avg :: "window \<Rightarrow> json" where
  "Window_Avg w = JDouble (uint (Window_Sum w)) (int (length (slots w)))"

definition Window_Max :: "window \<Rightarrow> 64 word" where
  "Window_Max w = fold (\<lambda>v m. if v > m then v else m) (slots w) 0"

section \<open>The counters\<close>

record telemetry =
  total_requests :: "64 word"
  total_errors :: "64 word"
  second_requests :: "64 word"
  second_errors :: "64 word"
  second_duration :: "64 word"
  current_rps :: "64 word"
  last_total :: "64 word"
  rps_10min :: window
  duration_sum_10s :: window
  duration_count_10s :: window
  error_sum_60s :: window
  request_sum_60s :: window

definition new_telemetry :: telemetry where
  "new_telemetry = \<lparr>total_requests = 0, total_errors = 0, second_requests = 0, second_errors = 0, second_duration = 0,
     current_rps = 0, last_total = 0, rps_10min = RollingWindow 600, duration_sum_10s = RollingWindow 10,
     duration_count_10s = RollingWindow 10, error_sum_60s = RollingWindow 60, request_sum_60s = RollingWindow 60\<rparr>"

definition RecordRequest :: "64 word \<Rightarrow> bool \<Rightarrow> telemetry \<Rightarrow> telemetry" where
  "RecordRequest duration success t =
     (let t = t\<lparr>total_requests := total_requests t + 1, second_requests := second_requests t + 1,
                second_duration := second_duration t + duration\<rparr>
      in if success then t
         else t\<lparr>total_errors := total_errors t + 1, second_errors := second_errors t + 1\<rparr>)"

definition output_tick :: "telemetry \<Rightarrow> telemetry" where
  "output_tick t =
     (let rps = total_requests t - last_total t
      in t\<lparr>last_total := total_requests t, current_rps := rps,
           rps_10min := Tick rps (rps_10min t),
           duration_sum_10s := Tick (second_duration t) (duration_sum_10s t), second_duration := 0,
           duration_count_10s := Tick (second_requests t) (duration_count_10s t), second_requests := 0,
           error_sum_60s := Tick (second_errors t) (error_sum_60s t), second_errors := 0,
           request_sum_60s := Tick rps (request_sum_60s t)\<rparr>)"

definition GetCurrentRPS :: "telemetry \<Rightarrow> json" where
  "GetCurrentRPS t = JDouble (uint (if second_requests t = 0 then current_rps t else second_requests t)) 1"

definition GetAvgDuration :: "telemetry \<Rightarrow> json" where
  "GetAvgDuration t =
     (let count = Window_Sum (duration_count_10s t) + second_requests t
      in if count = 0 then JDouble 0 1
         else JDouble (uint (Window_Sum (duration_sum_10s t) + second_duration t)) (uint count))"

definition GetErrorRate :: "telemetry \<Rightarrow> json" where
  "GetErrorRate t =
     (let requests = Window_Sum (request_sum_60s t) + second_requests t
      in if requests = 0 then JDouble 0 1
         else JDouble (uint (Window_Sum (error_sum_60s t) + second_errors t)) (uint requests))"

section \<open>A window holds the last values\<close>

text \<open>Read from its index, a window is the last values of its history, which begins with zeros.\<close>

definition shows_last :: "nat \<Rightarrow> 64 word list \<Rightarrow> window \<Rightarrow> bool" where
  "shows_last n vs w \<longleftrightarrow> length (slots w) = n \<and> slot_index w < n \<and> rotate (slot_index w) (slots w) = drop (length vs) (replicate n 0 @ vs)"

lemma shows_new: "0 < n \<Longrightarrow> shows_last n [] (RollingWindow n)"
  by (simp add: shows_last_def RollingWindow_def)

lemma shows_tick:
  assumes "shows_last n vs w"
  shows "shows_last n (vs @ [v]) (Tick v w)"
proof -
  let ?i = "slot_index w"
  have n: "length (slots w) = n" "?i < n" using assms by (simp_all add: shows_last_def)
  obtain a x b where s: "slots w = a @ x # b" "length a = ?i"
    using id_take_nth_drop [of ?i "slots w"] n by (metis length_take min.absorb4)
  have old: "x # b @ a = drop (length vs) (replicate n 0 @ vs)"
    using assms s rotate_append [of a "x # b"] by (simp add: shows_last_def)
  have "drop (length (vs @ [v])) (replicate n 0 @ vs @ [v]) = tl (drop (length vs) (replicate n 0 @ vs) @ [v])"
    using n by (cases n) (simp_all add: drop_Suc tl_drop)
  then have new: "drop (length (vs @ [v])) (replicate n 0 @ vs @ [v]) = b @ a @ [v]" using old by (metis append_Cons append_assoc list.sel(3))
  have upd: "slots (Tick v w) = (a @ [v]) @ b" using s by (simp add: Tick_def list_update_append)
  have "rotate (slot_index (Tick v w)) (slots (Tick v w)) = rotate (length (a @ [v])) ((a @ [v]) @ b)"
    using s n upd rotate_conv_mod [of "length (a @ [v])" "(a @ [v]) @ b"] by (simp add: Tick_def)
  also have "\<dots> = b @ a @ [v]" by (simp add: rotate_append)
  finally show ?thesis using new n by (simp add: shows_last_def Tick_def)
qed

lemma sum_fold: "fold (\<lambda>v s. s + v) xs s = s + sum_list xs" for s :: "64 word"
  by (induction xs arbitrary: s) (simp_all add: add.assoc)

lemma sum_rotate: "sum_list (rotate k xs) = sum_list xs" for xs :: "64 word list"
proof -
  let ?i = "k mod length xs"
  have "sum_list (rotate k xs) = sum_list (take ?i xs) + sum_list (drop ?i xs)" by (simp add: rotate_drop_take add.commute)
  also have "\<dots> = sum_list (take ?i xs @ drop ?i xs)" by (simp only: sum_list_append)
  finally show ?thesis by simp
qed

lemma window_sum:
  assumes "shows_last n vs w"
  shows "Window_Sum w = sum_list (drop (length vs - n) vs)"
proof -
  have "sum_list (slots w) = sum_list (rotate (slot_index w) (slots w))"
    by (simp add: sum_rotate)
  also have "\<dots> = sum_list (drop (length vs) (replicate n 0) @ drop (length vs - n) vs)"
    using assms by (simp add: shows_last_def)
  finally show ?thesis by (simp add: Window_Sum_def sum_fold sum_list_replicate)
qed

section \<open>Histories\<close>

text \<open>
  A history of requests and of ticks of the clock, and its seconds: the requests of every second that is
  over, and those of the current one.
\<close>

datatype load_event = Handled "64 word" bool | Second_Passed

fun load_step :: "load_event \<Rightarrow> telemetry \<Rightarrow> telemetry" where
  "load_step (Handled duration success) t = RecordRequest duration success t"
| "load_step Second_Passed t = output_tick t"

type_synonym seconds = "(64 word \<times> bool) list list \<times> (64 word \<times> bool) list"

fun second_step :: "load_event \<Rightarrow> seconds \<Rightarrow> seconds" where
  "second_step (Handled duration success) (past, cur) = (past, cur @ [(duration, success)])"
| "second_step Second_Passed (past, cur) = (past @ [cur], [])"

definition count_of :: "'a list \<Rightarrow> 64 word" where "count_of xs = of_nat (length xs)"
definition failures :: "(64 word \<times> bool) list \<Rightarrow> (64 word \<times> bool) list" where "failures = filter (\<lambda>r. \<not> snd r)"
definition durations :: "(64 word \<times> bool) list \<Rightarrow> 64 word" where "durations rs = sum_list (map fst rs)"

text \<open>The requests of the last \<open>n\<close> full seconds and of the current one.\<close>

definition recent :: "nat \<Rightarrow> seconds \<Rightarrow> (64 word \<times> bool) list" where
  "recent n = (\<lambda>(past, cur). concat (drop (length past - n) past) @ cur)"

definition telemetry_at :: "telemetry \<Rightarrow> seconds \<Rightarrow> bool" where
  "telemetry_at t = (\<lambda>(past, cur).
     total_requests t = count_of (concat past @ cur) \<and> last_total t = count_of (concat past) \<and>
     total_errors t = count_of (failures (concat past @ cur)) \<and>
     second_requests t = count_of cur \<and> second_errors t = count_of (failures cur) \<and> second_duration t = durations cur \<and>
     shows_last 600 (map count_of past) (rps_10min t) \<and> shows_last 60 (map count_of past) (request_sum_60s t) \<and>
     shows_last 60 (map (count_of \<circ> failures) past) (error_sum_60s t) \<and>
     shows_last 10 (map durations past) (duration_sum_10s t) \<and> shows_last 10 (map count_of past) (duration_count_10s t))"

lemma new_telemetry_at: "telemetry_at new_telemetry ([], [])"
  by (simp add: telemetry_at_def new_telemetry_def shows_new count_of_def failures_def durations_def)

lemma count_append: "count_of (xs @ ys) = count_of xs + count_of ys"
  by (simp add: count_of_def)

lemma load_step_at: "telemetry_at t ss \<Longrightarrow> telemetry_at (load_step e t) (second_step e ss)"
proof (cases e)
  case (Handled d ok)
  assume "telemetry_at t ss"
  then show ?thesis using Handled
    by (cases ss) (auto simp: telemetry_at_def RecordRequest_def Let_def count_append failures_def durations_def count_of_def)
next
  case Second_Passed
  assume at: "telemetry_at t ss"
  obtain past cur where ss: "ss = (past, cur)" by (cases ss)
  have "total_requests t - last_total t = count_of cur" using at ss by (simp add: telemetry_at_def count_append)
  then show ?thesis using at ss Second_Passed shows_tick
    by (simp add: telemetry_at_def output_tick_def Let_def)
      (simp add: count_of_def failures_def durations_def)
qed

lemma history_at: "telemetry_at t ss \<Longrightarrow> telemetry_at (fold load_step es t) (fold second_step es ss)"
  by (induction es arbitrary: t ss) (simp_all add: load_step_at)

lemma sum_counts: "sum_list (map count_of xss) = count_of (concat xss)"
  by (induction xss) (simp_all add: count_of_def)

lemma sum_failures: "sum_list (map (count_of \<circ> failures) xss) = count_of (failures (concat xss))"
  by (induction xss) (simp_all add: count_of_def failures_def)

lemma sum_durations: "sum_list (map durations xss) = durations (concat xss)"
  by (induction xss) (simp_all add: durations_def)

lemmas window_sums = sum_counts sum_failures sum_durations

section \<open>The property\<close>



end
