(* ===== verification/Query_Log.thy ===== *)
theory Query_Log
  imports Qdb_Prelude
begin

text \<open>
  The access log of the server, \<open>apps/server/src/logger.cpp\<close>: requests put entries into a queue, a writer
  thread takes them out and appends a line each to the current file, which it replaces when it has grown
  to the limit. The day and the time of an entry, and whether a file can be opened, are parameters.
\<close>

section \<open>Entries and lines\<close>

record log_entry =
  le_timestamp :: string
  le_client :: string
  le_handler :: string
  le_query :: string
  le_duration :: "64 word"
  le_status :: string

definition show_u64 :: "64 word \<Rightarrow> string" where "show_u64 w = show_nat (unat w)"

definition FormatEntry :: "log_entry \<Rightarrow> string" where
  "FormatEntry e =
     le_timestamp e @ '' client_id='' @ le_client e @ '' handler_id='' @ le_handler e @ '' query='' @ [CHR 0x22] @ le_query e @ [CHR 0x22]
     @ '' duration_ms='' @ show_u64 (le_duration e) @ '' status='' @ le_status e"

section \<open>The writer\<close>

text \<open>A file of the log is named by the day on which it is opened and its number.\<close>

type_synonym log_name = "string \<times> nat"

record logger =
  lg_queue :: "log_entry list"
  lg_max :: "64 word"
  lg_current :: "log_name option"
  lg_size :: "64 word"
  lg_index :: nat
  lg_files :: "(log_name \<times> string) list"

definition Logger :: "64 word \<Rightarrow> logger" where
  "Logger max_file_size = \<lparr>lg_queue = [], lg_max = max_file_size, lg_current = None, lg_size = 0, lg_index = 0, lg_files = []\<rparr>"

definition LogQuery :: "log_entry \<Rightarrow> logger \<Rightarrow> logger" where
  "LogQuery e lg = lg\<lparr>lg_queue := lg_queue lg @ [e]\<rparr>"

text \<open>\<open>lg_files\<close> holds the lines in the order in which they are written, each with its file.\<close>

definition open_log :: "string \<times> bool \<Rightarrow> logger \<Rightarrow> logger" where
  "open_log io lg = lg\<lparr>lg_current := (if snd io then Some (fst io, lg_index lg) else None)\<rparr>"

definition RotateIfNeeded :: "string \<times> bool \<Rightarrow> logger \<Rightarrow> logger" where
  "RotateIfNeeded io lg =
     (if lg_current lg = None then open_log io lg
      else if lg_size lg \<ge> lg_max lg then open_log io (lg\<lparr>lg_current := None, lg_size := 0, lg_index := lg_index lg + 1\<rparr>)
      else lg)"

definition write_entry :: "string \<times> bool \<Rightarrow> logger \<Rightarrow> logger" where
  "write_entry io lg =
     (case lg_queue lg of
        [] \<Rightarrow> lg
      | e # q \<Rightarrow>
          let lg = RotateIfNeeded io (lg\<lparr>lg_queue := q\<rparr>)
          in (case lg_current lg of
                None \<Rightarrow> lg
              | Some f \<Rightarrow>
                  let line = FormatEntry e
                  in lg\<lparr>lg_files := lg_files lg @ [(f, line)], lg_size := lg_size lg + word_of_nat (length line) + 1\<rparr>))"

section \<open>Histories\<close>

datatype log_event = Logged log_entry | Written string bool

fun log_step :: "log_event \<Rightarrow> logger \<Rightarrow> logger" where
  "log_step (Logged e) lg = LogQuery e lg"
| "log_step (Written day opens) lg = write_entry (day, opens) lg"

fun entries_of :: "log_event list \<Rightarrow> log_entry list" where
  "entries_of [] = []"
| "entries_of (Logged e # es) = e # entries_of es"
| "entries_of (Written _ _ # es) = entries_of es"

fun all_open :: "log_event list \<Rightarrow> bool" where
  "all_open [] = True"
| "all_open (Logged _ # es) = all_open es"
| "all_open (Written _ opens # es) = (opens \<and> all_open es)"

text \<open>Every entry is written once and in order; the rest is in the queue.\<close>

definition written_lines :: "logger \<Rightarrow> string list" where
  "written_lines lg = map snd (lg_files lg)"

lemma open_log_fields: "lg_files (open_log io lg) = lg_files lg" "lg_queue (open_log io lg) = lg_queue lg" "lg_max (open_log io lg) = lg_max lg"
  "lg_size (open_log io lg) = lg_size lg" "lg_index (open_log io lg) = lg_index lg"
  "snd io \<Longrightarrow> lg_current (open_log io lg) = Some (fst io, lg_index lg)"
  by (simp_all add: open_log_def)

lemma rotate_fields: "lg_files (RotateIfNeeded io lg) = lg_files lg" "lg_queue (RotateIfNeeded io lg) = lg_queue lg"
  "snd io \<Longrightarrow> lg_current (RotateIfNeeded io lg) \<noteq> None" "lg_max (RotateIfNeeded io lg) = lg_max lg"
  by (simp_all add: RotateIfNeeded_def open_log_def)

lemma write_order:
  assumes "snd io"
  shows "written_lines (write_entry io lg) @ map FormatEntry (lg_queue (write_entry io lg)) = written_lines lg @ map FormatEntry (lg_queue lg)"
proof (cases "lg_queue lg")
  case (Cons e q)
  let ?lg = "RotateIfNeeded io (lg\<lparr>lg_queue := q\<rparr>)"
  obtain f where "lg_current ?lg = Some f" using rotate_fields(3) [OF assms] by blast
  then show ?thesis using Cons by (simp add: write_entry_def Let_def written_lines_def rotate_fields)
qed (simp add: write_entry_def)

lemma log_order:
  assumes "all_open es"
  shows "written_lines (fold log_step es lg) @ map FormatEntry (lg_queue (fold log_step es lg)) =
    written_lines lg @ map FormatEntry (lg_queue lg) @ map FormatEntry (entries_of es)"
  using assms
proof (induction es arbitrary: lg)
  case (Cons ev es)
  show ?case
  proof (cases ev)
    case (Logged e)
    then show ?thesis using Cons.IH [of "LogQuery e lg"] Cons.prems by (simp add: LogQuery_def written_lines_def)
  next
    case (Written day opens)
    then show ?thesis using Cons.IH [of "write_entry (day, opens) lg"] Cons.prems write_order [of "(day, opens)" lg] by simp
  qed
qed simp

section \<open>The files stay small\<close>

definition file_bytes :: "nat \<Rightarrow> logger \<Rightarrow> nat" where
  "file_bytes i lg = sum_list (map (\<lambda>(f, l). length l + 1) (filter (\<lambda>(f, _). snd f = i) (lg_files lg)))"

definition log_ok :: "64 word \<Rightarrow> nat \<Rightarrow> logger \<Rightarrow> bool" where
  "log_ok m L lg \<longleftrightarrow> lg_max lg = m \<and> (\<forall>e \<in> set (lg_queue lg). length (FormatEntry e) + 1 \<le> L) \<and>
     (\<forall>i > lg_index lg. file_bytes i lg = 0) \<and> unat (lg_size lg) = file_bytes (lg_index lg) lg \<and>
     (\<forall>i. file_bytes i lg < unat m + L) \<and> (\<forall>f. lg_current lg = Some f \<longrightarrow> snd f = lg_index lg) \<and>
     (lg_current lg = None \<longrightarrow> lg_size lg = 0)"

lemma file_bytes_update [simp]: "file_bytes i (lg_size_update f lg) = file_bytes i lg" "file_bytes i (lg_index_update g lg) = file_bytes i lg"
  "file_bytes i (lg_current_update h lg) = file_bytes i lg" "file_bytes i (lg_queue_update k lg) = file_bytes i lg"
  by (simp_all add: file_bytes_def)

lemma rotate_ok:
  assumes "log_ok m L lg" "0 < m"
  shows "log_ok m L (RotateIfNeeded io lg)" "lg_size (RotateIfNeeded io lg) < m"
proof -
  let ?lg = "RotateIfNeeded io lg"
  have "log_ok m L ?lg \<and> lg_size ?lg < m"
  proof (cases "lg_current lg = None")
    case True
    then show ?thesis using assms by (auto simp: log_ok_def RotateIfNeeded_def open_log_def split: if_splits)
  next
    case False
    show ?thesis
    proof (cases "lg_size lg \<ge> lg_max lg")
      case True
      let ?new = "lg\<lparr>lg_current := None, lg_size := 0, lg_index := lg_index lg + 1\<rparr>"
      have "?lg = open_log io ?new" unfolding RotateIfNeeded_def if_not_P [OF False] by (rule if_P [OF True])
      then show ?thesis using assms by (auto simp: log_ok_def open_log_def split: if_splits)
    qed (use assms False in \<open>auto simp: log_ok_def RotateIfNeeded_def\<close>)
  qed
  then show "log_ok m L ?lg" "lg_size ?lg < m" by blast+
qed

lemma write_ok:
  assumes "log_ok m L lg" "0 < m" "unat m + L < 2 ^ 64"
  shows "log_ok m L (write_entry io lg)"
proof (cases "lg_queue lg")
  case (Cons e q)
  let ?lg = "RotateIfNeeded io (lg\<lparr>lg_queue := q\<rparr>)" and ?n = "length (FormatEntry e) + 1"
  have n: "?n \<le> L" using assms(1) Cons by (simp add: log_ok_def)
  have "log_ok m L (lg\<lparr>lg_queue := q\<rparr>)" using assms(1) Cons by (simp add: log_ok_def file_bytes_def)
  note r = rotate_ok [OF this assms(2), of io]
  show ?thesis
  proof (cases "lg_current ?lg")
    case None
    then show ?thesis using r(1) Cons by (simp add: write_entry_def Let_def)
  next
    case (Some f)
    let ?w = "?lg\<lparr>lg_files := lg_files ?lg @ [(f, FormatEntry e)], lg_size := lg_size ?lg + word_of_nat (length (FormatEntry e)) + 1\<rparr>"
    have w: "write_entry io lg = ?w" using Some Cons by (simp add: write_entry_def Let_def)
    have f: "snd f = lg_index ?lg" using r(1) Some by (simp add: log_ok_def)
    have b: "file_bytes i ?w = file_bytes i ?lg + (if i = lg_index ?lg then ?n else 0)" for i
      using f by (simp add: file_bytes_def)
    have now: "unat (lg_size ?lg) = file_bytes (lg_index ?lg) ?lg" "unat (lg_size ?lg) < unat m"
      using r by (simp_all add: log_ok_def word_less_nat_alt)
    have small: "unat (lg_size ?lg) + ?n < unat m + L" using now(2) n by linarith
    have "unat (lg_size ?w) = unat (lg_size ?lg) + ?n"
    proof -
      have "lg_size ?w = word_of_nat (unat (lg_size ?lg) + ?n)" by (simp add: add.assoc)
      then show ?thesis using small assms(3) by (simp only: unat_of_nat) simp
    qed
    then show ?thesis unfolding w using r(1) b now small Some f by (simp add: log_ok_def)
  qed
qed (use assms in \<open>simp add: write_entry_def\<close>)

lemma log_history_ok:
  assumes "log_ok m L lg" "0 < m" "unat m + L < 2 ^ 64" "\<forall>e \<in> set (entries_of es). length (FormatEntry e) + 1 \<le> L"
  shows "log_ok m L (fold log_step es lg)"
  using assms(1,4)
proof (induction es arbitrary: lg)
  case (Cons ev es)
  show ?case
  proof (cases ev)
    case (Logged e)
    then have "log_ok m L (LogQuery e lg)" using Cons.prems by (simp add: log_ok_def LogQuery_def file_bytes_def)
    then show ?thesis using Cons.IH Cons.prems(2) Logged by simp
  next
    case (Written day opens)
    then show ?thesis using Cons.IH [OF write_ok [OF Cons.prems(1) assms(2,3)]] Cons.prems(2) by simp
  qed
qed simp


definition sample_entry :: log_entry where
  "sample_entry = \<lparr>le_timestamp = [], le_client = ''a'', le_handler = [], le_query = [], le_duration = 0, le_status = ''success''\<rparr>"


end
