(* ===== verification/Server_App.thy ===== *)
theory Server_App
  imports Statement_Router Access_Rules Accounts Task_Queue Telemetry Query_Log Storage_App Sql_Parser
begin

text \<open>
  The server, \<open>apps/server/src/application.cpp\<close>: a request is authenticated, dispatched on its action,
  and answered; statements on users and rights are executed here, the others are checked against the
  rules and routed, or submitted to the task processor. The threads of the connections are not locked
  against each other in the code; here the requests are handled one after the other.
\<close>

section \<open>State and environment\<close>

record server_config =
  cfg_auth :: bool
  cfg_secret :: string

record 'w server =
  sv_accounts :: account_store
  sv_rbac :: rbac
  sv_router :: "'w router"
  sv_pool :: pool
  sv_telemetry :: telemetry
  sv_logger :: logger

type_synonym session = "string option"

text \<open>
  What a request meets: the libraries, the time, random bytes and a new identifier, the outcomes of the
  calls to the operating system, and the network.
\<close>

record 'w server_env =
  se_jwt :: jwt_lib
  se_now :: int
  se_kdf :: key_derivation
  se_random :: "8 word list option"
  se_account_io :: save_io
  se_rule_ios :: "nat \<Rightarrow> save_io"
  se_catalog_ios :: "nat \<Rightarrow> save_io"
  se_start :: start_outcome
  se_net :: "'w network"
  se_task_id :: string
  se_handler_id :: string
  se_timestamp :: string
  se_elapsed :: "64 word"

type_synonym ('w, 'a) serving = "('w server \<times> session, 'a) st"

definition on_server :: "('w server, 'a) st \<Rightarrow> ('w, 'a) serving" where
  "on_server = on_part fst (\<lambda>s. apfst (\<lambda>_. s))"

definition on_rbac :: "(rbac, 'a) st \<Rightarrow> ('w server, 'a) st" where
  "on_rbac = on_part sv_rbac (\<lambda>r. sv_rbac_update (\<lambda>_. r))"

definition on_router :: "('w router, 'a) st \<Rightarrow> ('w server, 'a) st" where
  "on_router = on_part sv_router (\<lambda>r. sv_router_update (\<lambda>_. r))"

definition create_account :: "'w server_env \<Rightarrow> string \<Rightarrow> string \<Rightarrow> ('w server, bool) st" where
  "create_account env username password s =
     (case CreateAccount (se_kdf env) (se_random env) (se_account_io env) username password (sv_accounts s) of
        (b, a) \<Rightarrow> (Inr b, s\<lparr>sv_accounts := a\<rparr>))"

definition route :: "'w server_env \<Rightarrow> statement \<Rightarrow> ('w server, response) st" where
  "route env stmt = on_router (Route (se_catalog_ios env) (se_start env) (se_net env) stmt)"

section \<open>Statements\<close>

definition HasAggregate :: "select_item list \<Rightarrow> bool" where
  "HasAggregate items = list_ex (\<lambda>item. case ItemExpr item of AggregateExpr _ _ \<Rightarrow> True | _ \<Rightarrow> False) items"

fun IsLongRunning :: "statement \<Rightarrow> bool" where
  "IsLongRunning (RevertStmt t time) = True"
| "IsLongRunning (SelectStmt all items t w) = HasAggregate items"
| "IsLongRunning _ = False"

fun PermissionFor :: "statement \<Rightarrow> permission" where
  "PermissionFor (InsertStmt t cs rows) = WRITE_PERM"
| "PermissionFor (UpdateStmt t as w) = WRITE_PERM"
| "PermissionFor (DeleteStmt t w) = WRITE_PERM"
| "PermissionFor (RevertStmt t time) = WRITE_PERM"
| "PermissionFor (CreateDatabaseStmt name) = CREATE_PERM"
| "PermissionFor (CreateTableStmt t cs) = CREATE_PERM"
| "PermissionFor (DropDatabaseStmt name) = DELETE_PERM"
| "PermissionFor (DropTableStmt t) = DELETE_PERM"
| "PermissionFor _ = READ_PERM"

definition PermissionFromString :: "string \<Rightarrow> permission" where
  "PermissionFromString s =
     (if s = ''READ'' then READ_PERM else if s = ''WRITE'' then WRITE_PERM else if s = ''CREATE'' then CREATE_PERM
      else if s = ''DELETE'' then DELETE_PERM else INVALID_PERM)"

text \<open>A table without a database gets that of the session; without one the statement is refused.\<close>

definition ApplyDatabase_ref :: "session \<Rightarrow> table_ref \<Rightarrow> table_ref option" where
  "ApplyDatabase_ref ses t =
     (if RefDatabase t \<noteq> [] then Some t
      else case ses of None \<Rightarrow> None | Some db \<Rightarrow> Some (t\<lparr>RefDatabase := db\<rparr>))"

fun ApplyDatabase :: "session \<Rightarrow> statement \<Rightarrow> statement option" where
  "ApplyDatabase ses (CreateTableStmt t cs) = map_option (\<lambda>t. CreateTableStmt t cs) (ApplyDatabase_ref ses t)"
| "ApplyDatabase ses (DropTableStmt t) = map_option DropTableStmt (ApplyDatabase_ref ses t)"
| "ApplyDatabase ses (InsertStmt t cs rows) = map_option (\<lambda>t. InsertStmt t cs rows) (ApplyDatabase_ref ses t)"
| "ApplyDatabase ses (UpdateStmt t as w) = map_option (\<lambda>t. UpdateStmt t as w) (ApplyDatabase_ref ses t)"
| "ApplyDatabase ses (DeleteStmt t w) = map_option (\<lambda>t. DeleteStmt t w) (ApplyDatabase_ref ses t)"
| "ApplyDatabase ses (SelectStmt all items t w) = map_option (\<lambda>t. SelectStmt all items t w) (ApplyDatabase_ref ses t)"
| "ApplyDatabase ses (RevertStmt t time) = map_option (\<lambda>t. RevertStmt t time) (ApplyDatabase_ref ses t)"
| "ApplyDatabase ses stmt = Some stmt"

section \<open>Rights\<close>

definition Authenticate :: "server_config \<Rightarrow> 'w server_env \<Rightarrow> 'w server \<Rightarrow> request \<Rightarrow> string option" where
  "Authenticate cfg env s req =
     (if req_token req = [] then None
      else case ValidateToken (se_jwt env) (cfg_secret cfg) (se_now env) (req_token req) of
        None \<Rightarrow> None
      | Some user \<Rightarrow> if HasAccount (sv_accounts s) user then Some user else None)"

fun CheckAccess :: "rbac \<Rightarrow> string \<Rightarrow> statement \<Rightarrow> bool" where
  "CheckAccess rb user (CreateDatabaseStmt name) = CheckPermission rb user name ''*'' CREATE_PERM"
| "CheckAccess rb user (DropDatabaseStmt name) = CheckPermission rb user name ''*'' DELETE_PERM"
| "CheckAccess rb user stmt =
     (case TableFromStatement stmt of
        None \<Rightarrow> True
      | Some t \<Rightarrow> CheckPermission rb user (RefDatabase t) (RefTable t) (PermissionFor stmt))"

definition SetupRequired :: response where
  "SetupRequired = Rsp_ErrorData ''Superuser account setup required'' (jobj [(''setup_required'', JBool True)])"

definition GrantAll :: "(nat \<Rightarrow> save_io) \<Rightarrow> string \<Rightarrow> (rbac, unit) st" where
  "GrantAll ios username =
     siter (\<lambda>(i, p). GrantPermission (ios i) username ''*'' ''*'' p)
       (enumerate 0 [READ_PERM, WRITE_PERM, CREATE_PERM, DELETE_PERM])"

fun apply_permissions :: "(nat \<Rightarrow> save_io) \<Rightarrow> bool \<Rightarrow> table_ref \<Rightarrow> string \<Rightarrow> nat \<Rightarrow> string list \<Rightarrow> (rbac, response) st" where
  "apply_permissions ios grant scope user i [] =
     sret (Rsp_Success (if grant then ''Permission granted'' else ''Permission revoked'') (JObject []))"
| "apply_permissions ios grant scope user i (name # names) =
     (let perm = PermissionFromString name in
      if perm = INVALID_PERM then sret (Rsp_Error (''Invalid permission: '' @ name))
      else sbind (if grant then GrantPermission (ios i) user (RefDatabase scope) (RefTable scope) perm
                  else supd (RevokePermission (ios i) user (RefDatabase scope) (RefTable scope) perm))
             (\<lambda>_. apply_permissions ios grant scope user (Suc i) names))"

definition change_access ::
    "server_config \<Rightarrow> 'w server_env \<Rightarrow> string \<Rightarrow> bool \<Rightarrow> string list \<Rightarrow> table_ref \<Rightarrow> string \<Rightarrow> ('w server, response) st" where
  "change_access cfg env user grant names scope target s =
     (if cfg_auth cfg \<and> \<not> CheckPermission (sv_rbac s) user (RefDatabase scope) (RefTable scope) CREATE_PERM
      then (Inr (Rsp_Error ''Permission denied''), s)
      else if \<not> HasAccount (sv_accounts s) target then (Inr (Rsp_Error (''User not found: '' @ target)), s)
      else on_rbac (apply_permissions (se_rule_ios env) grant scope target 0 names) s)"

fun HandleSecurityStatement ::
    "server_config \<Rightarrow> 'w server_env \<Rightarrow> string \<Rightarrow> statement \<Rightarrow> ('w server, response option) st" where
  "HandleSecurityStatement cfg env user (CreateUserStmt username password) =
     sbind (sget (\<lambda>s. cfg_auth cfg \<and> \<not> CheckPermission (sv_rbac s) user ''*'' ''*'' CREATE_PERM)) (\<lambda>denied.
       if denied then sret (Some (Rsp_Error ''Permission denied''))
       else sbind (create_account env username password) (\<lambda>created.
         sret (Some (if created then Rsp_Success ''User created'' (JObject [])
                     else Rsp_Error ''User already exists or invalid credentials''))))"
| "HandleSecurityStatement cfg env user (GrantStmt names scope target) =
     sbind (change_access cfg env user True names scope target) (\<lambda>r. sret (Some r))"
| "HandleSecurityStatement cfg env user (RevokeStmt names scope target) =
     sbind (change_access cfg env user False names scope target) (\<lambda>r. sret (Some r))"
| "HandleSecurityStatement cfg env user stmt = sret None"

section \<open>Actions\<close>

text \<open>\<open>TaskProcessor::Submit\<close> when nothing comes in between.\<close>

definition Task_Submit :: "job \<Rightarrow> pool \<Rightarrow> pool" where
  "Task_Submit j p =
     (let p' = submit_push j (submit_begin j p) in if pl_stopped p then submit_refused j p' else p')"

definition HandleHandshake :: "server_config \<Rightarrow> 'w server \<Rightarrow> response" where
  "HandleHandshake cfg s =
     Rsp_Success ''Handshake complete'' (jobj [(''auth_required'', JBool (cfg_auth cfg)),
       (''setup_required'', JBool (cfg_auth cfg \<and> Accounts_Empty (sv_accounts s)))])"

definition token_data :: "server_config \<Rightarrow> 'w server_env \<Rightarrow> string \<Rightarrow> json" where
  "token_data cfg env username =
     jobj [(''token'', JString (GenerateToken (se_jwt env) (cfg_secret cfg) (se_now env) username TOKEN_TTL))]"

definition HandleLogin :: "server_config \<Rightarrow> 'w server_env \<Rightarrow> request \<Rightarrow> ('w server, response) st" where
  "HandleLogin cfg env req =
     sbind (slift (jvalue get_string (req_data req) ''username'' [])) (\<lambda>username.
     sbind (slift (jvalue get_string (req_data req) ''password'' [])) (\<lambda>password.
     sbind (slift (jvalue get_bool (req_data req) ''create'' False)) (\<lambda>create.
       if username = [] \<or> password = [] then sret (Rsp_Error ''Login requires username and password'')
       else sbind (sget (\<lambda>s. Accounts_Empty (sv_accounts s))) (\<lambda>none.
         if none then
           if \<not> create then sret SetupRequired
           else sbind (create_account env username password) (\<lambda>created.
             if \<not> created then sret (Rsp_Error ''Invalid superuser credentials'')
             else sbind (on_rbac (GrantAll (se_rule_ios env) username)) (\<lambda>_.
               sret (Rsp_Success ''Superuser account created'' (token_data cfg env username))))
         else if create then sret (Rsp_Error ''Superuser setup is already complete'')
         else sbind (sget (\<lambda>s. Authenticate_password (se_kdf env) (sv_accounts s) username password)) (\<lambda>good.
           if \<not> good then sret (Rsp_Error ''Invalid username or password'')
           else sret (Rsp_Success ''Login successful'' (token_data cfg env username)))))))"

text \<open>What is done with a statement that is not about users or rights.\<close>

definition run_statement :: "server_config \<Rightarrow> 'w server_env \<Rightarrow> string \<Rightarrow> statement \<Rightarrow> ('w, response) serving" where
  "run_statement cfg env user stmt =
     (case stmt of
        UseDatabaseStmt db \<Rightarrow>
          sbind (on_server (route env stmt)) (\<lambda>r.
            if IsSuccess r then sbind (supd (apsnd (\<lambda>_. Some db))) (\<lambda>_. sret r) else sret r)
      | _ \<Rightarrow>
          sbind (sget (\<lambda>(s, _). cfg_auth cfg \<and> \<not> CheckAccess (sv_rbac s) user stmt)) (\<lambda>denied.
            if denied then sret (Rsp_Error ''Permission denied'')
            else if IsLongRunning stmt then
              sbind (supd (apfst (\<lambda>s. s\<lparr>sv_pool := Task_Submit (se_task_id env, stmt) (sv_pool s)\<rparr>))) (\<lambda>_.
                sret (Rsp_Pending ''Operation is running in background'' (jobj [(''task_id'', JString (se_task_id env))])))
            else on_server (route env stmt)))"

definition execute_statement :: "server_config \<Rightarrow> 'w server_env \<Rightarrow> string \<Rightarrow> statement \<Rightarrow> ('w, response) serving" where
  "execute_statement cfg env user stmt =
     sbind (on_server (HandleSecurityStatement cfg env user stmt)) (\<lambda>security_response.
       case security_response of
         Some r \<Rightarrow> sret r
       | None \<Rightarrow>
           sbind (sget (\<lambda>(_, ses). ApplyDatabase ses stmt)) (\<lambda>applied.
             case applied of
               None \<Rightarrow> sret (Rsp_Error
                 ''No database selected; run USE <database> or qualify the table as <database>.<table>'')
             | Some stmt' \<Rightarrow> run_statement cfg env user stmt'))"

definition HandleExecute :: "server_config \<Rightarrow> 'w server_env \<Rightarrow> request \<Rightarrow> ('w, response) serving" where
  "HandleExecute cfg env req =
     sbind (slift (Request_Query req)) (\<lambda>query.
       if query = [] then sret (Rsp_Error ''query requires data.query'')
       else sbind (sget (\<lambda>(s, _). (Authenticate cfg env s req, Accounts_Empty (sv_accounts s)))) (\<lambda>(user, none).
         if cfg_auth cfg \<and> none then sret SetupRequired
         else if cfg_auth cfg \<and> user = None then sret (Rsp_Error ''Valid token is required'')
         else
           let tokens = Tokenize (new_lexer query) in
           if list_ex (\<lambda>t. tok_type t = Invalid) tokens then sret (Rsp_Error ''Invalid token in SQL query'')
           else sbind (slift (ParseStatement tokens)) (\<lambda>stmt.
             sbind (slift (ValidateStatement stmt)) (\<lambda>_.
               execute_statement cfg env (case user of None \<Rightarrow> [] | Some u \<Rightarrow> u) stmt))))"

text \<open>A check that the token of a request is valid, where tokens are required.\<close>

definition refused :: "server_config \<Rightarrow> 'w server_env \<Rightarrow> 'w server \<Rightarrow> request \<Rightarrow> response option" where
  "refused cfg env s req =
     (if cfg_auth cfg \<and> Accounts_Empty (sv_accounts s) then Some SetupRequired
      else if cfg_auth cfg \<and> Authenticate cfg env s req = None then Some (Rsp_Error ''Valid token is required'')
      else None)"

definition HandleCheckTask :: "server_config \<Rightarrow> 'w server_env \<Rightarrow> 'w server \<Rightarrow> request \<Rightarrow> response" where
  "HandleCheckTask cfg env s req =
     (case refused cfg env s req of
        Some r \<Rightarrow> r
      | None \<Rightarrow>
          (case Request_TaskId req of
             None \<Rightarrow> Rsp_Error ''check_task requires data.task_id''
           | Some task_id \<Rightarrow>
               (case Task_Get (pl_tasks (sv_pool s)) task_id of
                  None \<Rightarrow> Rsp_ErrorData ''Task not found'' (jobj [(''task_id'', JString task_id)])
                | Some task \<Rightarrow>
                    (case tr_response task of
                       Some r \<Rightarrow> r
                     | None \<Rightarrow>
                         (case tr_error task of
                            Some e \<Rightarrow> Rsp_ErrorData e (jobj [(''task_id'', JString task_id)])
                          | None \<Rightarrow>
                              let running = (tr_status task = Task_Running) in
                              Rsp_Pending (if running then ''Operation is still running'' else ''Operation is pending'')
                                (jobj [(''task_id'', JString task_id),
                                   (''status'', JString (if running then ''running'' else ''pending''))]))))))"

definition HandleTelemetry :: "server_config \<Rightarrow> 'w server_env \<Rightarrow> 'w server \<Rightarrow> request \<Rightarrow> response" where
  "HandleTelemetry cfg env s req =
     (case refused cfg env s req of
        Some r \<Rightarrow> r
      | None \<Rightarrow>
          let t = sv_telemetry s in
          Rsp_Success ''Telemetry'' (jobj [(''total_requests'', JInt (uint (total_requests t))),
            (''total_errors'', JInt (uint (total_errors t))), (''error_rate'', GetErrorRate t),
            (''current_rps'', GetCurrentRPS t), (''avg_rps_10min'', Window_Avg (rps_10min t)),
            (''max_rps_10min'', JInt (uint (Window_Max (rps_10min t)))), (''avg_duration_ms'', GetAvgDuration t)]))"

section \<open>A request\<close>

definition handle_action :: "server_config \<Rightarrow> 'w server_env \<Rightarrow> request \<Rightarrow> ('w, response) serving" where
  "handle_action cfg env req =
     sbind (sget (\<lambda>(s, _). s)) (\<lambda>s.
       if req_action req = [] then sret (Rsp_Error (''Request must contain string field '' @ quoted ''action''))
       else if cfg_auth cfg \<and> Accounts_Empty (sv_accounts s) \<and> req_action req \<noteq> ''login'' \<and> req_action req \<noteq> ''handshake''
         then sret SetupRequired
       else if req_action req = ''handshake'' then sret (HandleHandshake cfg s)
       else if req_action req = ''login'' then on_server (HandleLogin cfg env req)
       else if req_action req = ''query'' then HandleExecute cfg env req
       else if req_action req = ''check_task'' then sret (HandleCheckTask cfg env s req)
       else if req_action req = ''telemetry'' then sret (HandleTelemetry cfg env s req)
       else sret (Rsp_Error (''Unsupported action: '' @ req_action req)))"

text \<open>The exceptions of an action are caught; those of the log entry are not.\<close>

definition status_text :: "response \<Rightarrow> string" where
  "status_text r = (if IsSuccess r then ''success'' else if IsPending r then ''pending'' else ''error'')"

definition log_line :: "'w server_env \<Rightarrow> string \<Rightarrow> request \<Rightarrow> response \<Rightarrow> log_entry result" where
  "log_line env user req r =
     rmap (\<lambda>query. \<lparr>le_timestamp = se_timestamp env, le_client = user, le_handler = se_handler_id env,
         le_query = (if query = [] then req_action req else query), le_duration = se_elapsed env, le_status = status_text r\<rparr>)
       (Request_Query req)"

definition Process :: "server_config \<Rightarrow> 'w server_env \<Rightarrow> request \<Rightarrow> ('w, response) serving" where
  "Process cfg env req =
     sbind (sget (\<lambda>(s, _). case Authenticate cfg env s req of None \<Rightarrow> ''anonymous'' | Some u \<Rightarrow> u)) (\<lambda>user.
     sbind (caught (handle_action cfg env req)) (\<lambda>r.
     sbind (supd (apfst (\<lambda>s. s\<lparr>sv_telemetry := RecordRequest (se_elapsed env) (IsSuccess r \<or> IsPending r) (sv_telemetry s)\<rparr>))) (\<lambda>_.
     sbind (slift (log_line env user req r)) (\<lambda>line.
     sbind (supd (apfst (\<lambda>s. s\<lparr>sv_logger := LogQuery line (sv_logger s)\<rparr>))) (\<lambda>_. sret r)))))"

text \<open>
  The thread of a connection: every JSON value that arrives is a request, which is answered. What it
  throws is caught by nobody and ends the server.
\<close>

fun serve_client :: "server_config \<Rightarrow> ('w server_env \<times> json) list \<Rightarrow> ('w, response list) serving" where
  "serve_client cfg [] = sret []"
| "serve_client cfg ((env, j) # js) =
     sbind (slift (Request_FromJsonObject j)) (\<lambda>req.
       sbind (Process cfg env req) (\<lambda>r. sbind (serve_client cfg js) (\<lambda>rs. sret (r # rs))))"

definition new_server :: "server_config \<Rightarrow> json_file \<Rightarrow> json_file \<Rightarrow> json_file \<Rightarrow> registry \<Rightarrow> 'w \<Rightarrow> 'w server" where
  "new_server cfg accounts rules tables rg w =
     \<lparr>sv_accounts = AccountStore accounts, sv_rbac = RBACManager rules,
      sv_router = \<lparr>ro_catalog = Catalog tables, ro_registry = rg, ro_world = w\<rparr>,
      sv_pool = ThreadPool 2, sv_telemetry = new_telemetry, sv_logger = Logger (100 * 1024 * 1024)\<rparr>"

end
