(* ===== verification/Heartbeats.thy ===== *)
theory Heartbeats
  imports Statement_Router
begin

text \<open>
  The monitor, \<open>apps/server/src/monitor.cpp\<close>: it pings every storage process, marks those that answer as
  up, and restarts one that has missed as many heartbeats as the threshold says. The thread that probes
  in intervals is a number of probes in sequence.
\<close>

section \<open>The monitor\<close>

record 'w monitor =
  mo_registry :: registry
  mo_missed :: "string \<rightharpoonup> 32 word"
  mo_threshold :: "32 word"
  mo_world :: 'w

definition Monitor :: "registry \<Rightarrow> 32 word \<Rightarrow> 'w \<Rightarrow> 'w monitor" where
  "Monitor rg dead_threshold w = \<lparr>mo_registry = rg, mo_missed = Map.empty,
     mo_threshold = (if dead_threshold = 0 then 1 else dead_threshold), mo_world = w\<rparr>"

definition ping_request :: request where "ping_request = Request ''ping'' (JObject [])"

definition PingStorage :: "'w network \<Rightarrow> storage_node \<Rightarrow> 'w \<Rightarrow> bool \<times> 'w" where
  "PingStorage net node w =
     (case net_connect net (nd_host node) (nd_port node) w of
        (False, w) \<Rightarrow> (False, w)
      | (True, w) \<Rightarrow>
          (case net_exchange net (nd_host node) (nd_port node) ping_request w of
             (Answer r, w) \<Rightarrow> (IsSuccess r, w)
           | (_, w) \<Rightarrow> (False, w)))"

text \<open>One node of a probe; \<open>os\<close>: the outcome of starting the process of a node again.\<close>

definition probe_node :: "'w network \<Rightarrow> (string \<Rightarrow> start_outcome) \<Rightarrow> string \<times> storage_node \<Rightarrow> ('w monitor, unit) st" where
  "probe_node net os kn m =
     (case kn of (k, node) \<Rightarrow>
        (case PingStorage net node (mo_world m) of
           (True, w) \<Rightarrow>
             (Inr (), m\<lparr>mo_world := w, mo_missed := (mo_missed m)(k := None),
                mo_registry := snd (UpdateNode k Node_Up (mo_registry m))\<rparr>)
         | (False, w) \<Rightarrow>
             let missed = (case mo_missed m k of None \<Rightarrow> 0 | Some n \<Rightarrow> n) + 1
             in if missed < mo_threshold m then (Inr (), m\<lparr>mo_world := w, mo_missed := (mo_missed m)(k \<mapsto> missed)\<rparr>)
                else
                  let m = m\<lparr>mo_world := w, mo_missed := (mo_missed m)(k \<mapsto> 0)\<rparr>
                  in (case RestartNode (os k) k (mo_registry m) of
                        (Inl e, rg) \<Rightarrow> (Inl e, m\<lparr>mo_registry := rg\<rparr>)
                      | (Inr True, rg) \<Rightarrow> (Inr (), m\<lparr>mo_registry := rg\<rparr>)
                      | (Inr False, rg) \<Rightarrow> (Inr (), m\<lparr>mo_registry := snd (UpdateNode k Node_Down rg)\<rparr>))))"

definition ProbeOnce :: "'w network \<Rightarrow> (string \<Rightarrow> start_outcome) \<Rightarrow> ('w monitor, unit) st" where
  "ProbeOnce net os = sbind (sget (\<lambda>m. GetNodes (mo_registry m))) (siter (probe_node net os))"

fun probes :: "nat \<Rightarrow> 'w network \<Rightarrow> (string \<Rightarrow> start_outcome) \<Rightarrow> ('w monitor, unit) st" where
  "probes 0 net os = sret ()"
| "probes (Suc n) net os = sbind (probes n net os) (\<lambda>_. ProbeOnce net os)"

section \<open>What a probe leaves alone\<close>

lemma StopProcess_get [simp]: "GetNode (StopProcess k rg) k' = GetNode rg k'"
  by (simp add: GetNode_def)

lemma HasNode_get: "HasNode rg k \<longleftrightarrow> GetNode rg k \<noteq> None"
  by (simp add: HasNode_def GetNode_def)

lemma StartProcess_nodes: "StartProcess os k rg = (r, rg') \<Longrightarrow> rg_nodes rg' = rg_nodes rg"
  by (auto simp: StartProcess_def Let_def split: if_splits option.splits)

lemma RestartNode_other:
  assumes "RestartNode os k rg = (r, rg')"
  shows "k' \<noteq> k \<Longrightarrow> GetNode rg' k' = GetNode rg k'" "map fst (rg_nodes rg') = map fst (rg_nodes rg)"
proof -
  have "(k' \<noteq> k \<longrightarrow> GetNode rg' k' = GetNode rg k') \<and> map fst (rg_nodes rg') = map fst (rg_nodes rg)"
  proof (cases "HasNode rg k \<and> rg_auto_start rg")
    case False
    then show ?thesis using assms
      by (auto simp: RestartNode_def Let_def set_state_node split: if_splits)
  next
    case True
    obtain b rg1 where s: "StartProcess os k (StopProcess k rg) = (b, rg1)" by fastforce
    then have same: "rg_nodes rg1 = rg_nodes rg" using StartProcess_nodes by fastforce
    then have "GetNode rg1 k' = GetNode rg k'" by (simp add: GetNode_def)
    moreover have "rg' = set_state k Node_Up rg1 \<or> rg' = set_state k Node_Down rg1 \<or> rg' = rg1"
      using assms True s by (auto simp: RestartNode_def Let_def split: sum.splits bool.splits)
    ultimately show ?thesis using same by (auto simp: set_state_node)
  qed
  then show "k' \<noteq> k \<Longrightarrow> GetNode rg' k' = GetNode rg k'" "map fst (rg_nodes rg') = map fst (rg_nodes rg)" by blast+
qed

lemma StartProcess_returns: "so_directory os \<Longrightarrow> fst (StartProcess os k rg) \<in> {Inr True, Inr False}"
  by (simp add: StartProcess_def Let_def split: option.split)

lemma RestartNode_returns:
  assumes "so_directory os" "RestartNode os k rg = (r, rg')" "GetNode rg k = Some n"
  shows "\<exists>b. r = Inr b \<and> GetNode rg' k = Some (n\<lparr>nd_state := if b then Node_Up else Node_Down\<rparr>)"
proof -
  have has: "HasNode rg k" using assms(3) by (simp add: HasNode_def GetNode_def)
  have node: "GetNode rg1 k = Some n" if "rg_nodes rg1 = rg_nodes rg" for rg1 using that assms(3) by (simp add: GetNode_def)
  show ?thesis
  proof (cases "rg_auto_start rg")
    case False
    then have "r = Inr False" "rg' = set_state k Node_Down (StopProcess k rg)"
      using assms(2) has by (simp_all add: RestartNode_def Let_def)
    then show ?thesis using assms(3) by (intro exI [of _ False]) (simp add: set_state_node)
  next
    case True
    obtain b rg1 where s: "StartProcess os k (StopProcess k rg) = (b, rg1)" by fastforce
    have n1: "GetNode rg1 k = Some n" using StartProcess_nodes [OF s] node by simp
    obtain c where c: "b = Inr c" using StartProcess_returns [OF assms(1), of k "StopProcess k rg"] s by auto
    have "RestartNode os k rg = (Inr c, set_state k (if c then Node_Up else Node_Down) rg1)"
      using has True s c by (simp add: RestartNode_def Let_def split: bool.split)
    then show ?thesis using assms(2) n1 by (simp add: set_state_node)
  qed
qed

lemma UpdateNode_other:
  "k' \<noteq> k \<Longrightarrow> GetNode (snd (UpdateNode k s rg)) k' = GetNode rg k'"
  "map fst (rg_nodes (snd (UpdateNode k s rg))) = map fst (rg_nodes rg)"
  "GetNode rg k = Some n \<Longrightarrow> GetNode (snd (UpdateNode k s rg)) k = Some (n\<lparr>nd_state := s\<rparr>)"
  by (auto simp: UpdateNode_def set_state_node HasNode_get)

lemma probe_node_other:
  assumes "so_directory (os k)" "GetNode (mo_registry m) k = Some n'" "probe_node net os (k, node) m = (r, m')"
  shows "r = Inr ()" "map fst (rg_nodes (mo_registry m')) = map fst (rg_nodes (mo_registry m))" "mo_threshold m' = mo_threshold m"
    "k' \<noteq> k \<Longrightarrow> GetNode (mo_registry m') k' = GetNode (mo_registry m) k' \<and> mo_missed m' k' = mo_missed m k'"
proof -
  obtain b w where p: "PingStorage net node (mo_world m) = (b, w)" by fastforce
  obtain q rg where q: "RestartNode (os k) k (mo_registry m) = (q, rg)" by fastforce
  obtain c where c: "q = Inr c" using RestartNode_returns [OF assms(1) q assms(2)] by blast
  have other: "k' \<noteq> k \<Longrightarrow> GetNode rg k' = GetNode (mo_registry m) k'" "map fst (rg_nodes rg) = map fst (rg_nodes (mo_registry m))"
    using RestartNode_other [OF q] by blast+
  show "r = Inr ()" "map fst (rg_nodes (mo_registry m')) = map fst (rg_nodes (mo_registry m))" "mo_threshold m' = mo_threshold m"
    "k' \<noteq> k \<Longrightarrow> GetNode (mo_registry m') k' = GetNode (mo_registry m) k' \<and> mo_missed m' k' = mo_missed m k'"
    using assms(3) p q c other UpdateNode_other
    by (auto simp: probe_node_def Let_def split: bool.splits if_splits option.splits)
qed

section \<open>What a probe does to a node\<close>

definition misses :: "'w monitor \<Rightarrow> string \<Rightarrow> 32 word" where
  "misses m k = (case mo_missed m k of None \<Rightarrow> 0 | Some n \<Rightarrow> n)"

lemma probe_node_answered:
  assumes "fst (PingStorage net node (mo_world m))" "GetNode (mo_registry m) k = Some n" "probe_node net os (k, node) m = (r, m')"
  shows "GetNode (mo_registry m') k = Some (n\<lparr>nd_state := Node_Up\<rparr>) \<and> misses m' k = 0"
  using assms UpdateNode_other(3) [OF assms(2)]
  by (cases "PingStorage net node (mo_world m)") (auto simp: probe_node_def misses_def)

lemma probe_node_missed:
  assumes "\<not> fst (PingStorage net node (mo_world m))" "so_directory (os k)" "GetNode (mo_registry m) k = Some n"
    and "probe_node net os (k, node) m = (r, m')"
  shows "if misses m k + 1 < mo_threshold m then GetNode (mo_registry m') k = Some n \<and> misses m' k = misses m k + 1
    else (\<exists>s \<in> {Node_Up, Node_Down}. GetNode (mo_registry m') k = Some (n\<lparr>nd_state := s\<rparr>)) \<and> misses m' k = 0"
proof -
  obtain w where p: "PingStorage net node (mo_world m) = (False, w)" using assms(1) by (metis fst_conv prod.collapse)
  show ?thesis
  proof (cases "misses m k + 1 < mo_threshold m")
    case True
    then show ?thesis using assms(3,4) p by (auto simp: probe_node_def Let_def misses_def)
  next
    case False
    obtain q rg where q: "RestartNode (os k) k (mo_registry m) = (q, rg)" by fastforce
    obtain b where b: "q = Inr b" "GetNode rg k = Some (n\<lparr>nd_state := if b then Node_Up else Node_Down\<rparr>)"
      using RestartNode_returns [OF assms(2) q assms(3)] by blast
    have "GetNode (snd (UpdateNode k Node_Down rg)) k = Some (n\<lparr>nd_state := Node_Down\<rparr>)" if "\<not> b"
      using UpdateNode_other(3) [OF b(2), of Node_Down] that by simp
    then show ?thesis using False assms(4) p q b
      by (cases b) (auto simp: probe_node_def Let_def misses_def)
  qed
qed

lemma GetNode_mem: "k \<in> fst ` set (rg_nodes rg) \<longleftrightarrow> (\<exists>n. GetNode rg k = Some n)"
  using HasNode_set [of rg k] by (auto simp: HasNode_get)

lemma probe_list:
  assumes "\<forall>k \<in> fst ` set ns. so_directory (os k)" "fst ` set ns \<subseteq> fst ` set (rg_nodes (mo_registry m))"
  shows "\<exists>m'. siter (probe_node net os) ns m = (Inr (), m') \<and> mo_threshold m' = mo_threshold m \<and>
    map fst (rg_nodes (mo_registry m')) = map fst (rg_nodes (mo_registry m)) \<and>
    (\<forall>k. k \<notin> fst ` set ns \<longrightarrow> GetNode (mo_registry m') k = GetNode (mo_registry m) k \<and> misses m' k = misses m k)"
  using assms
proof (induction ns arbitrary: m)
  case Nil
  then show ?case by (simp add: st_simps)
next
  case (Cons kn ns)
  obtain k node where kn: "kn = (k, node)" by (cases kn)
  obtain n where n: "GetNode (mo_registry m) k = Some n" using Cons.prems(2) kn GetNode_mem by auto
  obtain r m1 where run: "probe_node net os (k, node) m = (r, m1)" by fastforce
  have dir: "so_directory (os k)" using Cons.prems(1) kn by simp
  note o = probe_node_other [OF dir n run]
  have "fst ` set (rg_nodes (mo_registry m1)) = fst ` set (rg_nodes (mo_registry m))" using o(2) by (metis set_map)
  then have "fst ` set ns \<subseteq> fst ` set (rg_nodes (mo_registry m1))" using Cons.prems(2) by auto
  then obtain m' where m': "siter (probe_node net os) ns m1 = (Inr (), m')" "mo_threshold m' = mo_threshold m1"
    "map fst (rg_nodes (mo_registry m')) = map fst (rg_nodes (mo_registry m1))"
    "\<forall>k. k \<notin> fst ` set ns \<longrightarrow> GetNode (mo_registry m') k = GetNode (mo_registry m1) k \<and> misses m' k = misses m1 k"
    using Cons.IH [of m1] Cons.prems(1) by auto
  have "siter (probe_node net os) (kn # ns) m = (Inr (), m')"
    using run o(1) m'(1) kn by (simp add: sbind_def)
  then show ?case using m' o kn by (auto simp: misses_def)
qed

text \<open>
  \<open>effect net os k n m m'\<close>: what one probe does to the node \<open>k\<close>, whose data is \<open>n\<close>, whatever happens to the
  other nodes and in the world.
\<close>

definition answers :: "'w network \<Rightarrow> storage_node \<Rightarrow> bool" where
  "answers net n \<longleftrightarrow> (\<forall>w. fst (PingStorage net n w))"

definition silent :: "'w network \<Rightarrow> storage_node \<Rightarrow> bool" where
  "silent net n \<longleftrightarrow> (\<forall>w. \<not> fst (PingStorage net n w))"

lemma ping_state [simp]: "PingStorage net (n\<lparr>nd_state := s\<rparr>) = PingStorage net n"
  by (rule ext) (simp add: PingStorage_def split: prod.split bool.split)

lemma ProbeOnce_effect:
  fixes m :: "'w monitor"
  assumes "distinct (map fst (rg_nodes (mo_registry m)))" "\<forall>k. so_directory (os k)" "GetNode (mo_registry m) k = Some n"
  shows "\<exists>m'. ProbeOnce net os m = (Inr (), m') \<and> mo_threshold m' = mo_threshold m \<and>
    map fst (rg_nodes (mo_registry m')) = map fst (rg_nodes (mo_registry m)) \<and>
    (answers net n \<longrightarrow> GetNode (mo_registry m') k = Some (n\<lparr>nd_state := Node_Up\<rparr>) \<and> misses m' k = 0) \<and>
    (silent net n \<longrightarrow> (if misses m k + 1 < mo_threshold m then GetNode (mo_registry m') k = Some n \<and> misses m' k = misses m k + 1
      else (\<exists>s \<in> {Node_Up, Node_Down}. GetNode (mo_registry m') k = Some (n\<lparr>nd_state := s\<rparr>)) \<and> misses m' k = 0))"
proof -
  let ?ns = "rg_nodes (mo_registry m)"
  have "(k, n) \<in> set ?ns" using assms(3) by (simp add: GetNode_def map_of_SomeD)
  then obtain xs ys where ns: "?ns = xs @ (k, n) # ys" by (meson split_list)
  have apart: "k \<notin> fst ` set xs" "k \<notin> fst ` set ys" using assms(1) ns by auto
  obtain m1 where m1: "siter (probe_node net os) xs m = (Inr (), m1)" "mo_threshold m1 = mo_threshold m"
    "map fst (rg_nodes (mo_registry m1)) = map fst ?ns" "GetNode (mo_registry m1) k = Some n" "misses m1 k = misses m k"
  proof -
    have "fst ` set xs \<subseteq> fst ` set ?ns" by (auto simp: ns)
    then show thesis using that probe_list [of xs os m net] assms(2,3) apart(1) by auto
  qed
  obtain r m2 where run: "probe_node net os (k, n) m1 = (r, m2)" by fastforce
  note o = probe_node_other [OF assms(2) [rule_format] m1(4) run]
  have "map fst (rg_nodes (mo_registry m2)) = map fst ?ns" using o(2) m1(3) by simp
  then have "fst ` set ys \<subseteq> fst ` set (rg_nodes (mo_registry m2))" using ns by (metis image_set map_append set_append set_subset_Cons list.simps(9) le_sup_iff subset_trans Un_upper2)
  then obtain m3 where m3: "siter (probe_node net os) ys m2 = (Inr (), m3)" "mo_threshold m3 = mo_threshold m2"
    "map fst (rg_nodes (mo_registry m3)) = map fst (rg_nodes (mo_registry m2))"
    "GetNode (mo_registry m3) k = GetNode (mo_registry m2) k" "misses m3 k = misses m2 k"
    using probe_list [of ys os m2 net] assms(2) apart(2) by auto
  have iter: "siter f (as @ a # bs) m = sbind (siter f as) (\<lambda>_. sbind (f a) (\<lambda>_. siter f bs)) m" for f :: "_ \<Rightarrow> ('w monitor, unit) st" and as a bs
    by (induction as arbitrary: m) (auto simp: sbind_def sret_def split: prod.split sum.split)
  have "ProbeOnce net os m = (Inr (), m3)"
    using m1(1) run o(1) m3(1) by (simp add: ProbeOnce_def sbind_def sget_def GetNodes_def ns iter del: siter.simps)
  then show ?thesis
    using m3 o(2,3) m1 probe_node_answered [OF _ m1(4) run] probe_node_missed [OF _ _ m1(4) run] assms(2)
    by (intro exI [of _ m3]) (auto simp: answers_def silent_def split: if_splits)
qed

text \<open>Probing \<open>i\<close> times a process that is silent: one more heartbeat is missed every time.\<close>

lemma silent_probes:
  fixes m :: "'w monitor"
  assumes "distinct (map fst (rg_nodes (mo_registry m)))" "\<forall>k. so_directory (os k)" "GetNode (mo_registry m) k = Some n"
    and "silent net n" "misses m k = 0" "i < unat (mo_threshold m)"
  shows "\<exists>m'. probes i net os m = (Inr (), m') \<and> mo_threshold m' = mo_threshold m \<and>
    map fst (rg_nodes (mo_registry m')) = map fst (rg_nodes (mo_registry m)) \<and>
    GetNode (mo_registry m') k = Some n \<and> misses m' k = word_of_nat i"
  using assms(6)
proof (induction i)
  case 0
  then show ?case using assms(3,5) by (simp add: st_simps)
next
  case (Suc i)
  then obtain m1 where m1: "probes i net os m = (Inr (), m1)" "mo_threshold m1 = mo_threshold m"
    "map fst (rg_nodes (mo_registry m1)) = map fst (rg_nodes (mo_registry m))" "GetNode (mo_registry m1) k = Some n"
    "misses m1 k = word_of_nat i" by auto
  have d: "distinct (map fst (rg_nodes (mo_registry m1)))" using assms(1) m1(3) by simp
  obtain m2 where m2: "ProbeOnce net os m1 = (Inr (), m2)" "mo_threshold m2 = mo_threshold m1"
    "map fst (rg_nodes (mo_registry m2)) = map fst (rg_nodes (mo_registry m1))"
    "if misses m1 k + 1 < mo_threshold m1 then GetNode (mo_registry m2) k = Some n \<and> misses m2 k = misses m1 k + 1
      else (\<exists>s \<in> {Node_Up, Node_Down}. GetNode (mo_registry m2) k = Some (n\<lparr>nd_state := s\<rparr>)) \<and> misses m2 k = 0"
    using ProbeOnce_effect [OF d assms(2) m1(4), of net] assms(4) by blast
  have "Suc i < 2 ^ 32" using less_trans [OF Suc.prems unsigned_less [of "mo_threshold m"]] by simp
  then have "unat (word_of_nat (Suc i) :: 32 word) = Suc i" by (simp add: unat_of_nat del: of_nat_Suc)
  moreover have step: "misses m1 k + 1 = word_of_nat (Suc i)" using m1(5) by simp
  ultimately have "misses m1 k + 1 < mo_threshold m1" using Suc.prems m1(2) unfolding step word_less_nat_alt by simp
  then have "GetNode (mo_registry m2) k = Some n" "misses m2 k = word_of_nat (Suc i)" using m2(4) step by simp_all
  moreover have "probes (Suc i) net os m = (Inr (), m2)" using m1(1) m2(1) by (simp add: sbind_def)
  ultimately show ?case using m1(2,3) m2(2,3) by (intro exI [of _ m2]) (simp del: of_nat_Suc)
qed

lemma silent_restart:
  fixes m :: "'w monitor"
  assumes "distinct (map fst (rg_nodes (mo_registry m)))" "\<forall>k. so_directory (os k)" "GetNode (mo_registry m) k = Some n"
    and "silent net n" "misses m k = 0" "mo_threshold m \<noteq> 0"
  shows "\<exists>m' s. probes (unat (mo_threshold m)) net os m = (Inr (), m') \<and> misses m' k = 0 \<and>
    s \<in> {Node_Up, Node_Down} \<and> GetNode (mo_registry m') k = Some (n\<lparr>nd_state := s\<rparr>)"
proof -
  obtain i where i: "unat (mo_threshold m) = Suc i" using assms(6) by (metis not0_implies_Suc unat_eq_zero)
  obtain m1 where m1: "probes i net os m = (Inr (), m1)" "mo_threshold m1 = mo_threshold m"
    "map fst (rg_nodes (mo_registry m1)) = map fst (rg_nodes (mo_registry m))" "GetNode (mo_registry m1) k = Some n"
    "misses m1 k = word_of_nat i" using silent_probes [OF assms(1-5), of i] i by auto
  have d: "distinct (map fst (rg_nodes (mo_registry m1)))" using assms(1) m1(3) by simp
  obtain m2 where m2: "ProbeOnce net os m1 = (Inr (), m2)"
    "if misses m1 k + 1 < mo_threshold m1 then GetNode (mo_registry m2) k = Some n \<and> misses m2 k = misses m1 k + 1
      else (\<exists>s \<in> {Node_Up, Node_Down}. GetNode (mo_registry m2) k = Some (n\<lparr>nd_state := s\<rparr>)) \<and> misses m2 k = 0"
    using ProbeOnce_effect [OF d assms(2) m1(4), of net] assms(4) by blast
  have "misses m1 k + 1 = word_of_nat (unat (mo_threshold m))" using m1(5) i by simp
  then have "\<not> misses m1 k + 1 < mo_threshold m1" using m1(2) by simp
  then show ?thesis using m1(1) m2 i by (auto simp: sbind_def)
qed

section \<open>The property\<close>


definition dead_net :: "unit network" where
  "dead_net = \<lparr>net_connect = \<lambda>_ _ w. (False, w), net_exchange = \<lambda>_ _ _ w. (Not_Sent, w)\<rparr>"

definition no_start :: start_outcome where
  "no_start = \<lparr>so_default_binary = False, so_directory = True, so_child = None, so_ready = \<lambda>_. False\<rparr>"


end
