(* ===== verification/Server_Properties.thy ===== *)
theory Server_Properties
  imports Server_App Cluster_Properties Heartbeats
begin

text \<open>
  Properties of the server as a whole: what a request may change, how the server answers or ends, and
  what the first login gives.
\<close>

section \<open>What the parts of a request change\<close>

lemma sbind_slift: "sbind (slift (Inr x)) f = f x" "sbind (slift (Inl e)) f = sthrow e"
  by (auto simp: sbind_def slift_def sthrow_def)

lemma sbind_sget: "sbind (sget h) f s = f (h s) s"
  by (simp add: sbind_def sget_def)

lemma on_server_iff: "on_server m (s, ses) = (r, t) \<longleftrightarrow> (\<exists>s'. m s = (r, s') \<and> t = (s', ses))"
  by (auto simp: on_server_def on_part_def split: prod.split)

lemma on_rbac_frame: "on_rbac m s = (r, s') \<Longrightarrow> \<exists>rb. s' = s\<lparr>sv_rbac := rb\<rparr>"
  by (auto simp: on_rbac_def on_part_def split: prod.splits)

lemma route_frame: "route env stmt s = (r, s') \<Longrightarrow> \<exists>ro. s' = s\<lparr>sv_router := ro\<rparr>"
  by (auto simp: route_def on_router_def on_part_def split: prod.splits)

lemma create_account_frame: "create_account env u p s = (r, s') \<Longrightarrow> \<exists>a b. s' = s\<lparr>sv_accounts := a\<rparr> \<and> r = Inr b"
  by (auto simp: create_account_def split: prod.splits)

lemma caught_state: "snd (caught m s) = snd (m s)"
  by (auto simp: caught_def split: prod.split sum.split)

lemma server_same [simp]: "s\<lparr>sv_rbac := sv_rbac s\<rparr> = (s :: 'w server)" "s\<lparr>sv_router := sv_router s\<rparr> = s" "s\<lparr>sv_accounts := sv_accounts s\<rparr> = s"
  by simp_all

lemma change_access_frame:
  fixes s :: "'w server"
  assumes "change_access cfg env user grant names scope target s = (r, s')" "cfg_auth cfg"
  shows "s' = s \<or> (\<exists>rb. s' = s\<lparr>sv_rbac := rb\<rparr> \<and> CheckPermission (sv_rbac s) user (RefDatabase scope) (RefTable scope) CREATE_PERM)"
  using assms on_rbac_frame by (fastforce simp: change_access_def split: if_splits)

text \<open>The statements on users and rights, and the right that each statement needs.\<close>

fun is_security :: "statement \<Rightarrow> bool" where
  "is_security (CreateUserStmt u p) = True"
| "is_security (GrantStmt names scope target) = True"
| "is_security (RevokeStmt names scope target) = True"
| "is_security _ = False"

fun permitted :: "grants \<Rightarrow> string \<Rightarrow> statement \<Rightarrow> bool" where
  "permitted G u (CreateUserStmt name password) = covered G u ''*'' ''*'' CREATE_PERM"
| "permitted G u (GrantStmt names scope target) = covered G u (RefDatabase scope) (RefTable scope) CREATE_PERM"
| "permitted G u (RevokeStmt names scope target) = covered G u (RefDatabase scope) (RefTable scope) CREATE_PERM"
| "permitted G u (CreateDatabaseStmt name) = covered G u name ''*'' CREATE_PERM"
| "permitted G u (DropDatabaseStmt name) = covered G u name ''*'' DELETE_PERM"
| "permitted G u (UseDatabaseStmt name) = True"
| "permitted G u (CreateTableStmt t cs) = covered G u (RefDatabase t) (RefTable t) CREATE_PERM"
| "permitted G u (DropTableStmt t) = covered G u (RefDatabase t) (RefTable t) DELETE_PERM"
| "permitted G u (SelectStmt all items t w) = covered G u (RefDatabase t) (RefTable t) READ_PERM"
| "permitted G u (InsertStmt t cs rows) = covered G u (RefDatabase t) (RefTable t) WRITE_PERM"
| "permitted G u (UpdateStmt t as w) = covered G u (RefDatabase t) (RefTable t) WRITE_PERM"
| "permitted G u (DeleteStmt t w) = covered G u (RefDatabase t) (RefTable t) WRITE_PERM"
| "permitted G u (RevertStmt t time) = covered G u (RefDatabase t) (RefTable t) WRITE_PERM"

lemma CheckAccess_permitted: "\<not> is_security stmt \<Longrightarrow> CheckAccess rb u stmt \<longleftrightarrow> permitted (grants_of (rb_rules rb)) u stmt"
  by (cases stmt) (simp_all add: CheckPermission_covered)

lemma security_frame:
  fixes s :: "'w server"
  assumes "HandleSecurityStatement cfg env user stmt s = (r, s')" "cfg_auth cfg"
  shows "s' = s \<or> is_security stmt \<and> permitted (grants_of (rb_rules (sv_rbac s))) user stmt \<and>
      (case stmt of CreateUserStmt n p \<Rightarrow> \<exists>a. s' = s\<lparr>sv_accounts := a\<rparr> | _ \<Rightarrow> \<exists>rb. s' = s\<lparr>sv_rbac := rb\<rparr>)"
    and "r = Inr None \<Longrightarrow> s' = s \<and> \<not> is_security stmt"
proof -
  have *: "(s' = s \<or> is_security stmt \<and> permitted (grants_of (rb_rules (sv_rbac s))) user stmt \<and>
      (case stmt of CreateUserStmt n p \<Rightarrow> \<exists>a. s' = s\<lparr>sv_accounts := a\<rparr> | _ \<Rightarrow> \<exists>rb. s' = s\<lparr>sv_rbac := rb\<rparr>)) \<and>
    (r = Inr None \<longrightarrow> s' = s \<and> \<not> is_security stmt)"
  proof (cases "is_security stmt")
    case False
    then show ?thesis using assms(1) by (cases stmt) (simp_all add: sret_def)
  next
    case True
    have access: "(s' = s \<or> (\<exists>rb. s' = s\<lparr>sv_rbac := rb\<rparr> \<and> covered (grants_of (rb_rules (sv_rbac s))) user (RefDatabase scope) (RefTable scope) CREATE_PERM)) \<and> r \<noteq> Inr None"
      if "sbind (change_access cfg env user grant names scope target) (\<lambda>x. sret (Some x)) s = (r, s')" for grant names scope target
    proof -
      obtain q t where q: "change_access cfg env user grant names scope target s = (q, t)" by fastforce
      then have "t = s'" "r \<noteq> Inr None" using that by (auto simp: sbind_def sret_def split: sum.splits)
      then show ?thesis using change_access_frame [OF q assms(2)] CheckPermission_covered by blast
    qed
    show ?thesis
    proof (cases stmt)
      case (CreateUserStmt n p)
      show ?thesis
      proof (cases "CheckPermission (sv_rbac s) user ''*'' ''*'' CREATE_PERM")
        case False
        then show ?thesis using assms CreateUserStmt by (auto simp: sbind_def sget_def sret_def)
      next
        case allowed: True
        obtain b t where c: "create_account env n p s = (Inr b, t)" using create_account_frame by (metis prod.collapse)
        then have "s' = t" "r \<noteq> Inr None" using assms CreateUserStmt allowed by (auto simp: sbind_def sget_def sret_def)
        then show ?thesis using create_account_frame [OF c] CreateUserStmt allowed by (auto simp: CheckPermission_covered)
      qed
    next
      case (GrantStmt names scope target)
      then show ?thesis using access assms(1) by auto
    next
      case (RevokeStmt names scope target)
      then show ?thesis using access assms(1) by auto
    qed (use True in simp_all)
  qed
  then show "s' = s \<or> is_security stmt \<and> permitted (grants_of (rb_rules (sv_rbac s))) user stmt \<and>
      (case stmt of CreateUserStmt n p \<Rightarrow> \<exists>a. s' = s\<lparr>sv_accounts := a\<rparr> | _ \<Rightarrow> \<exists>rb. s' = s\<lparr>sv_rbac := rb\<rparr>)" by blast
  show "s' = s \<and> \<not> is_security stmt" if "r = Inr None" using * that by blast
qed

lemma use_database_frame: "Route ios os net (UseDatabaseStmt db) ro = (r, ro') \<Longrightarrow> ro' = ro"
  by (auto simp: sbind_def sget_def sret_def)

lemma run_statement_other:
  assumes "\<nexists>db. stmt = UseDatabaseStmt db"
  shows "run_statement cfg env user stmt =
      sbind (sget (\<lambda>(s, _). cfg_auth cfg \<and> \<not> CheckAccess (sv_rbac s) user stmt)) (\<lambda>denied.
        if denied then sret (Rsp_Error ''Permission denied'')
        else if IsLongRunning stmt then
          sbind (supd (apfst (\<lambda>s. s\<lparr>sv_pool := Task_Submit (se_task_id env, stmt) (sv_pool s)\<rparr>))) (\<lambda>_.
            sret (Rsp_Pending ''Operation is running in background'' (jobj [(''task_id'', JString (se_task_id env))])))
        else on_server (route env stmt))"
  using assms by (cases stmt) (auto simp: run_statement_def)

lemma route_use:
  fixes s :: "'w server"
  assumes "route env (UseDatabaseStmt db) s = (q, t)"
  shows "t = s" "q = Inr x \<Longrightarrow> IsSuccess x \<Longrightarrow> HasDatabase (ro_catalog (sv_router s)) db"
proof -
  obtain ro where ro: "Route (se_catalog_ios env) (se_start env) (se_net env) (UseDatabaseStmt db) (sv_router s) = (q, ro)"
    "t = s\<lparr>sv_router := ro\<rparr>"
    using assms by (auto simp: route_def on_router_def on_part_def simp del: Route.simps split: prod.splits)
  have "ro = sv_router s" by (rule use_database_frame [OF ro(1)])
  then show "t = s" using ro(2) by simp
  show "HasDatabase (ro_catalog (sv_router s)) db" if "q = Inr x" "IsSuccess x"
    using ro(1) that error_responses by (auto simp: sbind_def sget_def sret_def split: if_splits)
qed

lemma run_frame:
  fixes s :: "'w server"
  assumes "run_statement cfg env user stmt (s, ses) = (r, s', ses')" "cfg_auth cfg" "\<not> is_security stmt"
  shows "s' = s \<or> permitted (grants_of (rb_rules (sv_rbac s))) user stmt \<and> (\<exists>ro pl. s' = s\<lparr>sv_router := ro, sv_pool := pl\<rparr>)"
proof (cases "\<exists>db. stmt = UseDatabaseStmt db")
  case True
  then obtain db where db: "stmt = UseDatabaseStmt db" by blast
  obtain q t where q: "route env stmt s = (q, t)" by fastforce
  have "t = s" using route_use(1) q unfolding db .
  then show ?thesis using assms(1) q db
    by (auto simp: run_statement_def sbind_def on_server_iff supd_def sret_def split: sum.splits if_splits prod.splits)
next
  case False
  note run = run_statement_other [OF False, of cfg env user]
  show ?thesis
  proof (cases "CheckAccess (sv_rbac s) user stmt")
    case False
    then show ?thesis using assms(1,2) by (simp add: run sbind_def sget_def sret_def)
  next
    case True
    then have p: "permitted (grants_of (rb_rules (sv_rbac s))) user stmt" using CheckAccess_permitted [OF assms(3)] by simp
    show ?thesis
    proof (cases "IsLongRunning stmt")
      case long: True
      then have "s' = s\<lparr>sv_pool := Task_Submit (se_task_id env, stmt) (sv_pool s)\<rparr>"
        using assms(1) True by (simp add: run sbind_def sget_def sret_def supd_def)
      then have "s' = s\<lparr>sv_router := sv_router s, sv_pool := sv_pool s'\<rparr>" by simp
      then show ?thesis using p by blast
    next
      case False
      then have "route env stmt s = (r, s')" using assms(1) True by (simp add: run sbind_def sget_def on_server_iff)
      then obtain ro where "s' = s\<lparr>sv_router := ro\<rparr>" using route_frame by blast
      then have "s' = s\<lparr>sv_router := ro, sv_pool := sv_pool s\<rparr>" by simp
      then show ?thesis using p by blast
    qed
  qed
qed

lemma ApplyDatabase_security: "is_security stmt \<Longrightarrow> ApplyDatabase ses stmt = Some stmt" "ApplyDatabase ses stmt = Some stmt' \<Longrightarrow> is_security stmt' = is_security stmt"
  by (cases stmt; auto)+

text \<open>What a request with a right to it has changed.\<close>

definition lawful :: "'w server \<Rightarrow> string \<Rightarrow> session \<Rightarrow> statement \<Rightarrow> 'w server \<Rightarrow> bool" where
  "lawful s user ses stmt s' \<longleftrightarrow> (\<exists>stmt'. ApplyDatabase ses stmt = Some stmt' \<and> permitted (grants_of (rb_rules (sv_rbac s))) user stmt' \<and>
     (case stmt' of
        CreateUserStmt n p \<Rightarrow> \<exists>a. s' = s\<lparr>sv_accounts := a\<rparr>
      | GrantStmt names scope target \<Rightarrow> \<exists>rb. s' = s\<lparr>sv_rbac := rb\<rparr>
      | RevokeStmt names scope target \<Rightarrow> \<exists>rb. s' = s\<lparr>sv_rbac := rb\<rparr>
      | _ \<Rightarrow> \<exists>ro pl. s' = s\<lparr>sv_router := ro, sv_pool := pl\<rparr>))"

lemma execute_frame:
  fixes s :: "'w server"
  assumes "execute_statement cfg env user stmt (s, ses) = (r, s', ses')" "cfg_auth cfg"
  shows "s' = s \<or> lawful s user ses stmt s'"
proof -
  obtain q t where q: "HandleSecurityStatement cfg env user stmt s = (q, t)" by fastforce
  note sec = security_frame [OF q assms(2)]
  show ?thesis
  proof (cases "q = Inr None")
    case False
    then have "s' = t" using assms(1) q
      by (auto simp: execute_statement_def sbind_def on_server_def on_part_def sret_def split: sum.splits option.splits)
    then show ?thesis using sec(1) ApplyDatabase_security(1) [of stmt ses] by (cases stmt) (auto simp: lawful_def)
  next
    case True
    then have t: "t = s" "\<not> is_security stmt" using sec(2) by blast+
    show ?thesis
    proof (cases "ApplyDatabase ses stmt")
      case None
      then show ?thesis using assms(1) q True t
        by (simp add: execute_statement_def sbind_def on_server_def on_part_def sget_def sret_def)
    next
      case (Some stmt')
      then have "run_statement cfg env user stmt' (s, ses) = (r, s', ses')" using assms(1) q True t
        by (simp add: execute_statement_def sbind_def on_server_def on_part_def sget_def)
      from run_frame [OF this assms(2)] show ?thesis using Some t(2) ApplyDatabase_security(2) [OF Some]
        by (cases stmt') (auto simp: lawful_def)
    qed
  qed
qed

text \<open>The statement that a request asks for.\<close>

definition asks_for :: "request \<Rightarrow> statement \<Rightarrow> bool" where
  "asks_for req stmt \<longleftrightarrow> (\<exists>q. Request_Query req = Inr q \<and> ParseStatement (Tokenize (new_lexer q)) = Inr stmt)"

lemma HandleExecute_frame:
  fixes s :: "'w server"
  assumes "HandleExecute cfg env req (s, ses) = (r, s', ses')" "cfg_auth cfg"
  shows "s' = s \<or> \<not> Accounts_Empty (sv_accounts s) \<and>
    (\<exists>user stmt. Authenticate cfg env s req = Some user \<and> asks_for req stmt \<and> lawful s user ses stmt s')"
proof (cases "Request_Query req")
  case (Inl e)
  then show ?thesis using assms(1) by (simp add: HandleExecute_def sbind_def slift_def)
next
  case (Inr q)
  let ?ts = "Tokenize (new_lexer q)"
  show ?thesis
  proof (cases "q = [] \<or> Accounts_Empty (sv_accounts s) \<or> Authenticate cfg env s req = None \<or> list_ex (\<lambda>t. tok_type t = Invalid) ?ts")
    case True
    then show ?thesis using assms Inr by (auto simp: HandleExecute_def sbind_def slift_def sget_def sret_def Let_def split: if_splits)
  next
    case False
    then obtain user where user: "Authenticate cfg env s req = Some user" by (cases "Authenticate cfg env s req") simp_all
    have run: "sbind (slift (ParseStatement ?ts)) (\<lambda>stmt. sbind (slift (ValidateStatement stmt)) (\<lambda>_. execute_statement cfg env user stmt)) (s, ses) = (r, s', ses')"
      using assms(1) Inr False user by (simp add: HandleExecute_def sbind_slift sbind_sget)
    show ?thesis
    proof (cases "ParseStatement ?ts")
      case (Inl e)
      then show ?thesis using run by (simp add: sbind_def slift_def)
    next
      case parsed: (Inr stmt)
      show ?thesis
      proof (cases "ValidateStatement stmt")
        case (Inl e)
        then show ?thesis using run parsed by (simp add: sbind_def slift_def)
      next
        case (Inr u)
        then have "execute_statement cfg env user stmt (s, ses) = (r, s', ses')" using run parsed by (simp add: sbind_def slift_def)
        from execute_frame [OF this assms(2)] show ?thesis using user parsed \<open>Request_Query req = Inr q\<close> False by (auto simp: asks_for_def)
      qed
    qed
  qed
qed

lemma HandleLogin_frame:
  fixes s :: "'w server"
  assumes "HandleLogin cfg env req s = (r, s')"
  shows "s' = s \<or> Accounts_Empty (sv_accounts s) \<and> (\<exists>a rb. s' = s\<lparr>sv_accounts := a, sv_rbac := rb\<rparr>)"
proof (cases "Accounts_Empty (sv_accounts s)")
  case False
  then show ?thesis using assms
    by (auto simp: HandleLogin_def sbind_def slift_def sget_def sret_def split: sum.splits if_splits prod.splits)
next
  case True
  have new: "\<exists>a rb. t' = s\<lparr>sv_accounts := a, sv_rbac := rb\<rparr>"
    if made: "create_account env u p s = (c, t)" and ruled: "on_rbac m t = (x, t')" for u p c t m and x :: "unit result" and t'
  proof -
    obtain a where "t = s\<lparr>sv_accounts := a\<rparr>" using create_account_frame [OF made] by blast
    moreover obtain rb where "t' = t\<lparr>sv_rbac := rb\<rparr>" using on_rbac_frame [OF ruled] by blast
    ultimately have "t' = s\<lparr>sv_accounts := a, sv_rbac := rb\<rparr>" by simp
    then show ?thesis by blast
  qed
  have made: "\<exists>a rb. t = s\<lparr>sv_accounts := a, sv_rbac := rb\<rparr>" if run: "create_account env u p s = (c, t)" for u p c t
  proof -
    obtain a where "t = s\<lparr>sv_accounts := a\<rparr>" using create_account_frame [OF run] by blast
    then have "t = s\<lparr>sv_accounts := a, sv_rbac := sv_rbac s\<rparr>" by simp
    then show ?thesis by blast
  qed
  from assms True show ?thesis
    by (simp add: HandleLogin_def sbind_def slift_def sget_def sret_def split: sum.splits if_splits prod.splits)
      (use new made in blast)+
qed

text \<open>What is done after the action leaves everything but the telemetry and the log.\<close>

definition same_but_counters :: "'w server \<Rightarrow> 'w server \<Rightarrow> bool" where
  "same_but_counters s s' \<longleftrightarrow> (\<exists>tm lg. s' = s\<lparr>sv_telemetry := tm, sv_logger := lg\<rparr>)"

lemma Process_action:
  fixes s :: "'w server"
  assumes "Process cfg env req (s, ses) = (x, s', ses')"
  obtains r s1 where "handle_action cfg env req (s, ses) = (r, s1, ses')" "same_but_counters s1 s'"
proof -
  obtain r s1 ses1 where c: "handle_action cfg env req (s, ses) = (r, s1, ses1)" by (metis prod.collapse)
  obtain q where q: "caught (handle_action cfg env req) (s, ses) = (q, s1, ses1)"
    using caught_state [of "handle_action cfg env req" "(s, ses)"] c by (metis prod.collapse snd_conv)
  have same: "same_but_counters s1 s1"
    unfolding same_but_counters_def by (intro exI [of _ "sv_telemetry s1"] exI [of _ "sv_logger s1"]) simp
  have tele: "same_but_counters s1 (s1\<lparr>sv_telemetry := tm\<rparr>)" for tm
    unfolding same_but_counters_def by (intro exI [of _ tm] exI [of _ "sv_logger s1"]) simp
  have both: "same_but_counters s1 (s1\<lparr>sv_telemetry := tm, sv_logger := lg\<rparr>)" for tm lg
    unfolding same_but_counters_def by blast
  have "same_but_counters s1 s' \<and> ses' = ses1"
    using assms q same tele both
    by (auto simp: Process_def sbind_def sget_def supd_def slift_def sret_def split: sum.splits prod.splits)
  then show ?thesis using that c by blast
qed

section \<open>Changes need a right\<close>

lemma process_changes:
  fixes s :: "'w server"
  assumes "cfg_auth cfg" "Process cfg env req (s, ses) = (x, s', ses')"
  shows "same_but_counters s s' \<or>
    (if Accounts_Empty (sv_accounts s) then
       req_action req = ''login'' \<and> (\<exists>a rb. same_but_counters (s\<lparr>sv_accounts := a, sv_rbac := rb\<rparr>) s')
     else
       req_action req = ''query'' \<and>
       (\<exists>user stmt s1. Authenticate cfg env s req = Some user \<and> asks_for req stmt \<and> lawful s user ses stmt s1 \<and> same_but_counters s1 s'))"
proof -
  obtain r s1 where h: "handle_action cfg env req (s, ses) = (r, s1, ses')" "same_but_counters s1 s'"
    using Process_action [OF assms(2)] by blast
  show ?thesis
  proof (cases "req_action req = ''login''")
    case True
    then have "HandleLogin cfg env req s = (r, s1)" using h(1) by (simp add: handle_action_def sbind_sget on_server_iff)
    from HandleLogin_frame [OF this] show ?thesis using h(2) True by auto
  next
    case not_login: False
    show ?thesis
    proof (cases "req_action req = ''query'' \<and> \<not> Accounts_Empty (sv_accounts s)")
      case True
      then have "HandleExecute cfg env req (s, ses) = (r, s1, ses')" using h(1) by (simp add: handle_action_def sbind_sget)
      from HandleExecute_frame [OF this assms(1)] show ?thesis using h(2) True by auto
    next
      case False
      then have "s1 = s" using h(1) assms(1) not_login
        by (auto simp: handle_action_def sbind_sget sret_def split: if_splits)
      then show ?thesis using h(2) by simp
    qed
  qed
qed

text \<open>
  C5: nothing changes without a right to it. When tokens are required and there is an account, a request
  changes accounts, rules, the catalog, the registry, the storage processes or the background tasks only
  if it is a query with a valid token of an existing user, asks for a statement of the language, and the
  rules give that user the permission that the statement needs on its database and table; and then only
  the part that such a statement is about. Before there is an account only a login changes anything, and
  then no more than accounts and rules.
\<close>

theorem changes_need_a_right:
  fixes s :: "'w server"
  assumes "cfg_auth cfg" "Process cfg env req (s, ses) = (x, s', ses')"
  shows "same_but_counters s s' \<or>
    (if Accounts_Empty (sv_accounts s) then
       req_action req = ''login'' \<and> (\<exists>a rb. same_but_counters (s\<lparr>sv_accounts := a, sv_rbac := rb\<rparr>) s')
     else
       req_action req = ''query'' \<and>
       (\<exists>user stmt s1. Authenticate cfg env s req = Some user \<and> asks_for req stmt \<and> lawful s user ses stmt s1 \<and> same_but_counters s1 s'))"
  using process_changes [OF assms] .

section \<open>What the server answers\<close>

lemma Process_answers:
  fixes st :: "'w server \<times> session"
  assumes "Request_Query req = Inr q"
  shows "\<exists>x t. Process cfg env req st = (x, t) \<and> (case x of Inr r \<Rightarrow> True | Inl e \<Rightarrow> \<not> catchable e)"
proof -
  obtain x t where h: "handle_action cfg env req st = (x, t)" by (metis prod.collapse)
  show ?thesis
  proof (cases x)
    case (Inl e)
    then show ?thesis using h assms
      by (cases "catchable e") (auto simp: Process_def sbind_sget caught_def log_line_def sbind_slift sbind_def [of "caught _"] sbind_def [of "supd _"] supd_def sret_def)
  next
    case (Inr r)
    then show ?thesis using h assms
      by (auto simp: Process_def sbind_sget caught_def log_line_def sbind_slift sbind_def [of "caught _"] sbind_def [of "supd _"] supd_def sret_def)
  qed
qed


section \<open>The first login\<close>

lemma GrantAll_good:
  assumes "keys_once (rb_rules m)"
  shows "\<exists>m'. GrantAll (\<lambda>_. good_io) u m = (Inr (), m') \<and> keys_once (rb_rules m') \<and>
    (\<forall>p \<in> {READ_PERM, WRITE_PERM, CREATE_PERM, DELETE_PERM}. (u, ''*'', ''*'', p) \<in> grants_of (rb_rules m'))"
proof -
  obtain m1 where m1: "GrantPermission good_io u ''*'' ''*'' READ_PERM m = (Inr (), m1)" "keys_once (rb_rules m1)"
    "grants_of (rb_rules m1) = grants_of (rb_rules m) \<union> {(u, ''*'', ''*'', READ_PERM)}"
    using GrantPermission_good [OF assms, of u "''*''" "''*''" READ_PERM] by auto
  obtain m2 where m2: "GrantPermission good_io u ''*'' ''*'' WRITE_PERM m1 = (Inr (), m2)" "keys_once (rb_rules m2)"
    "grants_of (rb_rules m2) = grants_of (rb_rules m1) \<union> {(u, ''*'', ''*'', WRITE_PERM)}"
    using GrantPermission_good [OF m1(2), of u "''*''" "''*''" WRITE_PERM] by auto
  obtain m3 where m3: "GrantPermission good_io u ''*'' ''*'' CREATE_PERM m2 = (Inr (), m3)" "keys_once (rb_rules m3)"
    "grants_of (rb_rules m3) = grants_of (rb_rules m2) \<union> {(u, ''*'', ''*'', CREATE_PERM)}"
    using GrantPermission_good [OF m2(2), of u "''*''" "''*''" CREATE_PERM] by auto
  obtain m4 where m4: "GrantPermission good_io u ''*'' ''*'' DELETE_PERM m3 = (Inr (), m4)" "keys_once (rb_rules m4)"
    "grants_of (rb_rules m4) = grants_of (rb_rules m3) \<union> {(u, ''*'', ''*'', DELETE_PERM)}"
    using GrantPermission_good [OF m3(2), of u "''*''" "''*''" DELETE_PERM] by auto
  have "GrantAll (\<lambda>_. good_io) u m = (Inr (), m4)"
    using m1(1) m2(1) m3(1) m4(1) by (simp add: GrantAll_def sbind_def sret_def)
  then show ?thesis using m4(2,3) m3(3) m2(3) m1(3) by blast
qed

lemma all_permitted:
  assumes "\<forall>p \<in> {READ_PERM, WRITE_PERM, CREATE_PERM, DELETE_PERM}. (u, ''*'', ''*'', p) \<in> G"
  shows "permitted G u stmt"
proof -
  have "covered G u d t p" if "p \<in> {READ_PERM, WRITE_PERM, CREATE_PERM, DELETE_PERM}" for d t p
    using assms that by (auto simp: covered_def)
  then show ?thesis by (cases stmt) simp_all
qed

text \<open>
  C27: the first login sets the server up. On a server without accounts a login that asks for it creates
  the superuser and answers with a token; with that token, until it expires, requests are those of the
  superuser, who may do everything, and nobody can set the server up a second time.
\<close>

theorem first_login_sets_the_server_up:
  fixes s :: "'w server"
  assumes "cfg_auth cfg" "cfg_secret cfg \<noteq> []" "Accounts_Empty (sv_accounts s)" "load_ok (sv_accounts s)" "keys_once (rb_rules (sv_rbac s))"
    and "u \<noteq> []" "u \<noteq> ''*''" "p \<noteq> []" "GenerateSalt (se_random env) \<noteq> []" "HashPassword (se_kdf env) p (GenerateSalt (se_random env)) \<noteq> []"
    and "se_account_io env = good_io" "se_rule_ios env = (\<lambda>_. good_io)"
    and "claims = \<lparr>cl_subject = Some u, cl_issued = Some (se_now env), cl_expires = Some (se_now env + TOKEN_TTL)\<rparr>"
    and "token = jwt_sign (se_jwt env) (cfg_secret cfg) claims" "token \<noteq> []" "jwt_decode (se_jwt env) token = Some claims"
    and "\<And>now. se_now env \<le> now \<Longrightarrow> now < se_now env + TOKEN_TTL \<Longrightarrow> jwt_verify (se_jwt env) (cfg_secret cfg) now token"
  shows "\<exists>s'. Process cfg env (Req_CreateSuperuser u p) (s, ses) =
      (Inr (Rsp_Success ''Superuser account created'' (jobj [(''token'', JString token)])), s', ses) \<and>
    (\<forall>stmt. permitted (grants_of (rb_rules (sv_rbac s'))) u stmt) \<and>
    (\<forall>env' req. se_jwt env' = se_jwt env \<and> se_now env \<le> se_now env' \<and> se_now env' < se_now env + TOKEN_TTL \<and> req_token req = token \<longrightarrow>
       Authenticate cfg env' s' req = Some u) \<and>
    (\<forall>env' v q. \<exists>r s''. Process cfg env' (Req_CreateSuperuser v q) (s', ses) = (Inr r, s'', ses) \<and> IsError r \<and> same_but_counters s' s'')"
proof -
  let ?req = "Req_CreateSuperuser u p"
  have req: "req_action (Req_CreateSuperuser v q) = ''login''" "Request_Query (Req_CreateSuperuser v q) = Inr []" for v q
    by (simp_all add: Req_CreateSuperuser_def Request_def Request_Query_def)
  have fields: "jvalue get_string (req_data (Req_CreateSuperuser v q)) ''username'' [] = Inr v" "jvalue get_string (req_data (Req_CreateSuperuser v q)) ''password'' [] = Inr q"
    "jvalue get_bool (req_data (Req_CreateSuperuser v q)) ''create'' False = Inr True" for v q
    by (simp_all add: Req_CreateSuperuser_def Request_def)
  have none: "as_accounts (sv_accounts s) = []" using assms(3) by (simp add: Accounts_Empty_def)
  obtain a where a: "CreateAccount (se_kdf env) (se_random env) (se_account_io env) u p (sv_accounts s) = (True, a)" "HasAccount a u"
    using assms(4,6-11) none by (simp add: CreateAccount_def HasAccount_def Let_def Accounts_Save_def)
  obtain rb where rb: "GrantAll (se_rule_ios env) u (sv_rbac s) = (Inr (), rb)" "\<forall>p \<in> {READ_PERM, WRITE_PERM, CREATE_PERM, DELETE_PERM}. (u, ''*'', ''*'', p) \<in> grants_of (rb_rules rb)"
    using GrantAll_good [OF assms(5), of u] assms(12) by auto
  have tok: "GenerateToken (se_jwt env) (cfg_secret cfg) (se_now env) u TOKEN_TTL = token" using assms(2,13,14) by (simp add: GenerateToken_def)
  let ?r = "Rsp_Success ''Superuser account created'' (jobj [(''token'', JString token)])"
  have login: "HandleLogin cfg env ?req s = (Inr ?r, s\<lparr>sv_accounts := a, sv_rbac := rb\<rparr>)"
    using a(1) rb(1) assms(3,6,8) fields tok
    by (simp add: HandleLogin_def sbind_def slift_def sget_def create_account_def on_rbac_def on_part_def sret_def token_data_def)
  then have act: "handle_action cfg env ?req (s, ses) = (Inr ?r, s\<lparr>sv_accounts := a, sv_rbac := rb\<rparr>, ses)"
    by (simp add: handle_action_def sbind_sget req on_server_iff)
  have run: "\<exists>s'. Process cfg env req0 (s0, ses) = (Inr r0, s', ses) \<and> same_but_counters s1 s'"
    if acted: "handle_action cfg env req0 (s0, ses) = (Inr r0, s1, ses)" and asked: "Request_Query req0 = Inr q0"
    for env and s0 s1 :: "'w server" and req0 r0 q0
    using acted asked by (auto simp: Process_def sbind_sget caught_def log_line_def sbind_slift sbind_def [of "caught _"] sbind_def [of "supd _"] supd_def sret_def same_but_counters_def)
  obtain s' where s': "Process cfg env ?req (s, ses) = (Inr ?r, s', ses)" "same_but_counters (s\<lparr>sv_accounts := a, sv_rbac := rb\<rparr>) s'"
    using run [OF act req(2)] by blast
  then have parts: "sv_accounts s' = a" "sv_rbac s' = rb" by (auto simp: same_but_counters_def)
  have full: "\<not> Accounts_Empty a" using a(2) by (auto simp: HasAccount_def Accounts_Empty_def)
  have again: "\<exists>r s''. Process cfg env' (Req_CreateSuperuser v q) (s', ses) = (Inr r, s'', ses) \<and> IsError r \<and> same_but_counters s' s''" for env' :: "'w server_env" and v q
  proof -
    have "\<exists>e. HandleLogin cfg env' (Req_CreateSuperuser v q) s' = (Inr e, s') \<and> IsError e"
      using full parts fields error_responses(1)
      by (cases "v = [] \<or> q = []") (auto simp: HandleLogin_def sbind_def slift_def sget_def sret_def)
    then obtain e where e: "HandleLogin cfg env' (Req_CreateSuperuser v q) s' = (Inr e, s')" "IsError e" by blast
    then have "handle_action cfg env' (Req_CreateSuperuser v q) (s', ses) = (Inr e, s', ses)"
      by (simp add: handle_action_def sbind_sget req(1) on_server_iff)
    from run [OF this req(2)] show ?thesis using e(2) by blast
  qed
  have "Authenticate cfg env' s' r = Some u"
    if "se_jwt env' = se_jwt env" "se_now env \<le> se_now env'" "se_now env' < se_now env + TOKEN_TTL" "req_token r = token" for env' :: "'w server_env" and r
    using that assms(2,13,15,16,17) a(2) parts by (simp add: Authenticate_def ValidateToken_def)
  then show ?thesis using s'(1) all_permitted [OF rb(2)] parts again by blast
qed

section \<open>Instances\<close>

definition sample_jwt :: jwt_lib where
  "sample_jwt = \<lparr>jwt_sign = \<lambda>_ _. ''tok'',
     jwt_decode = \<lambda>t. if t = ''tok'' then Some \<lparr>cl_subject = Some ''ann'', cl_issued = Some 0, cl_expires = Some TOKEN_TTL\<rparr> else None,
     jwt_verify = \<lambda>_ now t. t = ''tok'' \<and> now < TOKEN_TTL\<rparr>"

definition sample_env :: "unit server_env" where
  "sample_env = \<lparr>se_jwt = sample_jwt, se_now = 0, se_kdf = plain_kdf, se_random = Some [7], se_account_io = good_io,
     se_rule_ios = \<lambda>_. good_io, se_catalog_ios = \<lambda>_. good_io, se_start = no_start, se_net = dead_net, se_task_id = ''t'',
     se_handler_id = ''h'', se_timestamp = [], se_elapsed = 1\<rparr>"

definition sample_config :: server_config where "sample_config = \<lparr>cfg_auth = True, cfg_secret = ''k''\<rparr>"

definition fresh_server :: "unit server" where
  "fresh_server = new_server sample_config no_file no_file no_file (Registry False [] []) ()"

definition used_server :: "unit server" where
  "used_server = fresh_server\<lparr>sv_accounts := \<lparr>as_accounts = [(''ann'', Account ''ann'' ''00'' ''07'')], as_file = no_file, load_ok = True\<rparr>\<rparr>"

text \<open>Without a token the statement of a request does nothing.\<close>

theorem changes_need_a_right_witness:
  "\<exists>x s' ses'. Process sample_config sample_env (Req_Query ''DROP DATABASE d;'') (used_server, None) = (x, s', ses') \<and>
     sv_router s' = sv_router used_server \<and> sv_accounts s' = sv_accounts used_server"
proof -
  let ?req = "Req_Query ''DROP DATABASE d;''"
  obtain x s' ses' where run: "Process sample_config sample_env ?req (used_server, None) = (x, s', ses')" by (metis prod.collapse)
  have auth: "cfg_auth sample_config" by (simp add: sample_config_def)
  have full: "\<not> Accounts_Empty (sv_accounts used_server)" by (simp add: used_server_def Accounts_Empty_def)
  have "Authenticate sample_config sample_env used_server ?req = None" by (simp add: Authenticate_def Req_Query_def Request_def)
  then have "same_but_counters used_server s'"
    using changes_need_a_right [OF auth run] full by simp
  then show ?thesis using run by (auto simp: same_but_counters_def)
qed


theorem first_login_sets_the_server_up_witness:
  "\<exists>s'. Process sample_config sample_env (Req_CreateSuperuser ''ann'' ''pw'') (fresh_server, None) =
      (Inr (Rsp_Success ''Superuser account created'' (jobj [(''token'', JString ''tok'')])), s', None) \<and>
    Authenticate sample_config sample_env s' (Req_Token ''tok'' (Req_Query ''DROP DATABASE d;'')) = Some ''ann'' \<and>
    permitted (grants_of (rb_rules (sv_rbac s'))) ''ann'' (DropDatabaseStmt ''d'')"
proof -
  let ?claims = "\<lparr>cl_subject = Some ''ann'', cl_issued = Some (se_now sample_env), cl_expires = Some (se_now sample_env + TOKEN_TTL)\<rparr>"
  have new: "Accounts_Empty (sv_accounts fresh_server)" "load_ok (sv_accounts fresh_server)" "keys_once (rb_rules (sv_rbac fresh_server))"
    using rules_back [of "[]"]
    by (simp_all add: fresh_server_def new_server_def AccountStore_def Accounts_Load_def JsonFile_Load_def no_file_def
        accounts_from_json_def Accounts_Empty_def RBACManager_def RBAC_Load_def rules_json_def keys_once_def)
  have hash: "GenerateSalt (se_random sample_env) \<noteq> []" "HashPassword (se_kdf sample_env) ''pw'' (GenerateSalt (se_random sample_env)) \<noteq> []"
    by (simp_all add: sample_env_def HashPassword_def plain_kdf_def GenerateSalt_def ToHex_def hex_byte_def)
  have jwt: "''tok'' = jwt_sign (se_jwt sample_env) (cfg_secret sample_config) ?claims" "jwt_decode (se_jwt sample_env) ''tok'' = Some ?claims"
    "\<And>now. now < se_now sample_env + TOKEN_TTL \<Longrightarrow> jwt_verify (se_jwt sample_env) (cfg_secret sample_config) now ''tok''"
    by (simp_all add: sample_env_def sample_jwt_def)
  have io: "se_account_io sample_env = good_io" "se_rule_ios sample_env = (\<lambda>_. good_io)" by (simp_all add: sample_env_def)
  have cfg: "cfg_auth sample_config" "cfg_secret sample_config \<noteq> []" by (simp_all add: sample_config_def)
  from first_login_sets_the_server_up [OF cfg new _ _ _ hash io refl jwt(1) _ jwt(2) jwt(3), of None]
  obtain s' where "Process sample_config sample_env (Req_CreateSuperuser ''ann'' ''pw'') (fresh_server, None) =
      (Inr (Rsp_Success ''Superuser account created'' (jobj [(''token'', JString ''tok'')])), s', None)"
    "permitted (grants_of (rb_rules (sv_rbac s'))) ''ann'' (DropDatabaseStmt ''d'')"
    "\<forall>env' req. se_jwt env' = se_jwt sample_env \<and> se_now sample_env \<le> se_now env' \<and> se_now env' < se_now sample_env + TOKEN_TTL \<and>
       req_token req = ''tok'' \<longrightarrow> Authenticate sample_config env' s' req = Some ''ann''"
    by blast
  then show ?thesis by (intro exI [of _ s']) (simp add: Req_Token_def TOKEN_TTL_def)
qed

end
