(* ===== verification/Parsed_Names.thy ===== *)
theory Parsed_Names
  imports Statement_Router Sql_Parser
begin

text \<open>
  The names in a statement that was parsed from a text are identifiers of the language, so the keys and
  the directories that are made from them are different for different tables.
\<close>

section \<open>Tokens\<close>

definition idents_plain :: "token list \<Rightarrow> bool" where
  "idents_plain ts \<longleftrightarrow> (\<forall>t \<in> set ts. tok_type t = Identifier \<longrightarrow> plain_name (tok_value t))"

lemma word_plain: "list_all word_char v \<Longrightarrow> v \<noteq> [] \<Longrightarrow> plain_name v"
proof -
  have "path_char c = c \<and> c \<noteq> CHR ''.''" if "word_char c" for c
  proof -
    have "\<not> word_char CHR ''.''" by code_simp
    then show ?thesis using that by (auto simp: path_char_def word_char_def)
  qed
  then show "list_all word_char v \<Longrightarrow> v \<noteq> [] \<Longrightarrow> plain_name v" by (auto simp: plain_name_def list_all_iff)
qed

lemma NextToken_plain: "idents_plain [fst (NextToken lx)]"
proof (cases "source (SkipWhitespace lx)")
  case Nil
  then show ?thesis by (simp add: NextToken_def Let_def idents_plain_def)
next
  case (Cons c cs)
  let ?lx = "SkipWhitespace lx"
  have word: "plain_name (tok_value (fst (ScanIdentifierOrKeyword ?lx)))"
    if "tok_type (fst (ScanIdentifierOrKeyword ?lx)) = Identifier" "IsAlpha c \<or> c = CHR ''_''"
  proof -
    obtain v lx' where t: "take_while (\<lambda>c. is_alnum c \<or> c = CHR ''_'') ?lx = (v, lx')" by fastforce
    then have "v = takeWhile (\<lambda>c. is_alnum c \<or> c = CHR ''_'') (c # cs)" using take_while_pair [OF t] Cons by simp
    then have "v \<noteq> []" "list_all word_char v"
      using that(2) by (auto simp: is_alnum_def list_all_iff word_char_def dest: set_takeWhileD)
    moreover have "tok_value (fst (ScanIdentifierOrKeyword ?lx)) = v"
      using that(1) t by (auto simp: ScanIdentifierOrKeyword_def Let_def split: if_splits)
    ultimately show ?thesis using word_plain by simp
  qed
  have types: "tok_type (fst (ScanStringLiteral ?lx)) \<noteq> Identifier" "tok_type (fst (ScanNumber ?lx)) \<noteq> Identifier"
    "tok_type (fst (ScanOperator ?lx)) \<noteq> Identifier" "tok_type (fst (ScanPunctuation ?lx)) \<noteq> Identifier"
    by (auto simp: ScanStringLiteral_def ScanNumber_def ScanOperator_def ScanPunctuation_def Let_def split: prod.split)
  show ?thesis using Cons word types
    by (auto simp: NextToken_def Let_def idents_plain_def simp del: SkipWhitespace_source)
qed

lemma Tokenize_plain: "idents_plain (Tokenize lx)"
proof (induction lx rule: Tokenize.induct)
  case (1 lx)
  obtain tk lx' where n: "NextToken lx = (tk, lx')" by (cases "NextToken lx")
  have "idents_plain [tk]" using NextToken_plain [of lx] n by simp
  then show ?case using 1 n by (subst Tokenize.simps) (auto simp: idents_plain_def)
qed

section \<open>What a parser leaves\<close>

text \<open>A parser leaves tokens of its input.\<close>

lemma advance_leaves: "set (P_Advance ts) \<subseteq> set ts" "set (snd (AdvanceValue ts)) \<subseteq> set ts"
  by (cases ts; auto simp: P_Advance_def AdvanceValue_def)+

lemma AdvanceValue_leaves: "AdvanceValue ts = (v, ts') \<Longrightarrow> set ts' \<subseteq> set ts"
  using advance_leaves(2) [of ts] by simp

lemma expect_leaves:
  "ExpectKeyword v ts = Inr ts' \<Longrightarrow> set ts' \<subseteq> set ts" "ExpectPunctuation v ts = Inr ts' \<Longrightarrow> set ts' \<subseteq> set ts"
  "ExpectOperator v ts = Inr ts' \<Longrightarrow> set ts' \<subseteq> set ts"
  using advance_leaves(1) by (auto simp: ExpectKeyword_def ExpectPunctuation_def ExpectOperator_def split: if_splits)

lemma ParseIdentifier_leaves:
  assumes "ParseIdentifier ts = Inr (v, ts')"
  shows "set ts' \<subseteq> set ts" "idents_plain ts \<Longrightarrow> plain_name v"
proof -
  have m: "MatchType Identifier ts" "AdvanceValue ts = (v, ts')"
    using assms by (auto simp: ParseIdentifier_def split: if_splits)
  show "set ts' \<subseteq> set ts" using AdvanceValue_leaves [OF m(2)] .
  show "plain_name v" if "idents_plain ts"
    using m that by (cases ts) (auto simp: MatchType_def P_IsAtEnd_def P_Peek_def AdvanceValue_def idents_plain_def)
qed

lemma ParseLiteral_leaves: "ParseLiteral ts = Inr (l, ts') \<Longrightarrow> set ts' \<subseteq> set ts"
  using advance_leaves(1) [of ts] by (auto simp: ParseLiteral_def Let_def split: if_splits)

lemma ParseValue_leaves: "ParseValue ts = Inr (e, ts') \<Longrightarrow> set ts' \<subseteq> set ts"
  by (auto simp: ParseValue_def result_iff split: if_splits prod.splits dest!: AdvanceValue_leaves ParseLiteral_leaves)

lemma ParseExpression_leaves:
  assumes "ParseExpression ts = Inr (e, ts')"
  shows "set ts' \<subseteq> set ts"
proof (cases "Match Keyword ''SUM'' ts \<or> Match Keyword ''COUNT'' ts \<or> Match Keyword ''AVG'' ts")
  case False
  then show ?thesis using assms ParseValue_leaves by (simp add: ParseExpression_def)
next
  case True
  obtain f ts1 where f: "AdvanceValue ts = (f, ts1)" by fastforce
  then obtain ts2 col ts3 where "ExpectPunctuation ''('' ts1 = Inr ts2" "ParseIdentifier ts2 = Inr (col, ts3)"
    "ExpectPunctuation '')'' ts3 = Inr ts'"
    using assms True by (auto simp: ParseExpression_def result_iff)
  then show ?thesis using AdvanceValue_leaves [OF f] expect_leaves(2) ParseIdentifier_leaves(1) by blast
qed

lemma parse_item_leaves: "parse_item ts = Inr (x, ts') \<Longrightarrow> set ts' \<subseteq> set ts"
  using advance_leaves(1)
  by (fastforce simp: parse_item_def result_iff split: if_splits dest: ParseExpression_leaves ParseIdentifier_leaves(1))

lemma more_items_leaves:
  assumes "\<And>ts x ts'. p ts = Inr (x, ts') \<Longrightarrow> set ts' \<subseteq> set ts" "more_items n p ts = Inr (xs, ts')"
  shows "set ts' \<subseteq> set ts"
  using assms(2)
proof (induction n arbitrary: ts xs)
  case 0
  then show ?case by (auto simp: more_items.simps split: if_splits)
next
  case (Suc n)
  show ?case
  proof (cases "Match Punctuation '','' ts")
    case True
    then obtain x ts1 ys where "p (P_Advance ts) = Inr (x, ts1)" "more_items n p ts1 = Inr (ys, ts')"
      using Suc.prems by (auto simp: more_items.simps result_iff)
    then show ?thesis using Suc.IH assms(1) advance_leaves(1) by blast
  next
    case False
    then show ?thesis using Suc.prems by (simp add: more_items.simps)
  qed
qed

lemma comma_list_leaves:
  assumes "\<And>ts x ts'. p ts = Inr (x, ts') \<Longrightarrow> set ts' \<subseteq> set ts" "comma_list p ts = Inr (xs, ts')"
  shows "set ts' \<subseteq> set ts"
proof -
  obtain x ts1 ys where "p ts = Inr (x, ts1)" "more_items (length ts) p ts1 = Inr (ys, ts')"
    using assms(2) by (auto simp: comma_list_def result_iff)
  moreover have "set ts' \<subseteq> set ts1" using assms(1) calculation(2) by (rule more_items_leaves)
  ultimately show ?thesis using assms(1) by blast
qed

section \<open>The names of a statement\<close>

text \<open>A table may still lack its database, which the session then gives.\<close>

definition plain_ref :: "table_ref \<Rightarrow> bool" where
  "plain_ref t \<longleftrightarrow> plain_name (RefTable t) \<and> (RefDatabase t = [] \<or> plain_name (RefDatabase t))"

fun parsed_names :: "statement \<Rightarrow> bool" where
  "parsed_names (CreateDatabaseStmt name) \<longleftrightarrow> plain_name name"
| "parsed_names (DropDatabaseStmt name) \<longleftrightarrow> plain_name name"
| "parsed_names stmt \<longleftrightarrow> (case TableFromStatement stmt of None \<Rightarrow> True | Some t \<Rightarrow> plain_ref t)"

lemma idents_plain_mono: "idents_plain ts \<Longrightarrow> set ts' \<subseteq> set ts \<Longrightarrow> idents_plain ts'"
  by (auto simp: idents_plain_def)

lemma ParseTableRef_plain:
  assumes "ParseTableRef ts = Inr (t, ts')" "idents_plain ts"
  shows "plain_ref t"
proof -
  obtain first ts1 where f: "ParseIdentifier ts = Inr (first, ts1)" using assms(1) by (auto simp: ParseTableRef_def result_iff)
  note p = ParseIdentifier_leaves [OF f]
  have ts1: "idents_plain (P_Advance ts1)" using idents_plain_mono [OF assms(2)] p(1) advance_leaves(1) by blast
  show ?thesis
  proof (cases "Match Punctuation ''.'' ts1")
    case True
    then obtain second ts2 where s: "ParseIdentifier (P_Advance ts1) = Inr (second, ts2)" "t = TableRef first second"
      using assms(1) f by (auto simp: ParseTableRef_def result_iff)
    then show ?thesis using p(2) assms(2) ParseIdentifier_leaves(2) [OF s(1) ts1] by (simp add: plain_ref_def TableRef_def)
  next
    case False
    then have "t = TableRef [] first" using assms(1) f by (simp add: ParseTableRef_def)
    then show ?thesis using p(2) assms(2) by (simp add: plain_ref_def TableRef_def)
  qed
qed

lemma ParseCreate_plain: "ParseCreateStatement ts = Inr (stmt, ts') \<Longrightarrow> idents_plain ts \<Longrightarrow> parsed_names stmt"
proof -
  assume p: "ParseCreateStatement ts = Inr (stmt, ts')" and plain: "idents_plain ts"
  obtain ts1 where k: "ExpectKeyword ''CREATE'' ts = Inr ts1" using p by (auto simp: ParseCreateStatement_def result_iff)
  have "set (P_Advance ts1) \<subseteq> set ts" using expect_leaves(1) [OF k] advance_leaves(1) by blast
  then have "idents_plain (P_Advance ts1)" using idents_plain_mono [OF plain] by blast
  then show "parsed_names stmt" using p k
    by (auto simp: ParseCreateStatement_def result_iff dest: ParseTableRef_plain ParseIdentifier_leaves(2) split: if_splits prod.splits)
qed

lemma ParseDrop_plain: "ParseDropStatement ts = Inr (stmt, ts') \<Longrightarrow> idents_plain ts \<Longrightarrow> parsed_names stmt"
proof -
  assume p: "ParseDropStatement ts = Inr (stmt, ts')" and plain: "idents_plain ts"
  obtain ts1 where k: "ExpectKeyword ''DROP'' ts = Inr ts1" using p by (auto simp: ParseDropStatement_def result_iff)
  have "set (P_Advance ts1) \<subseteq> set ts" using expect_leaves(1) [OF k] advance_leaves(1) by blast
  then have "idents_plain (P_Advance ts1)" using idents_plain_mono [OF plain] by blast
  then show "parsed_names stmt" using p k
    by (auto simp: ParseDropStatement_def result_iff dest: ParseTableRef_plain ParseIdentifier_leaves(2) split: if_splits)
qed

text \<open>The statements whose table comes behind keywords only.\<close>

lemma after_keywords:
  assumes "idents_plain ts" "ExpectKeyword a ts = Inr ts1"
  shows "idents_plain ts1" "ExpectKeyword b ts1 = Inr ts2 \<Longrightarrow> idents_plain ts2"
  using assms idents_plain_mono expect_leaves(1) by blast+

lemma ParseTable_plain:
  assumes "idents_plain ts"
  shows "ParseRevertStatement ts = Inr (stmt, ts') \<Longrightarrow> parsed_names stmt" "ParseInsertStatement ts = Inr (stmt, ts') \<Longrightarrow> parsed_names stmt"
    "ParseUpdateStatement ts = Inr (stmt, ts') \<Longrightarrow> parsed_names stmt" "ParseDeleteStatement ts = Inr (stmt, ts') \<Longrightarrow> parsed_names stmt"
  using after_keywords [OF assms]
  by (auto simp: ParseRevertStatement_def ParseInsertStatement_def ParseUpdateStatement_def ParseDeleteStatement_def result_iff
      dest: ParseTableRef_plain)

lemma rbindE: "rbind m f = Inr y \<Longrightarrow> (\<And>x. m = Inr x \<Longrightarrow> f x = Inr y \<Longrightarrow> thesis) \<Longrightarrow> thesis"
  by (auto simp: result_iff)

lemma ParseSelect_plain:
  assumes "ParseSelectStatement ts = Inr (stmt, ts')" "idents_plain ts"
  shows "parsed_names stmt"
proof -
  let ?list = "\<lambda>ts1. if Match Operator ''*'' ts1 then Inr ((True, []), P_Advance ts1)
      else rmap (\<lambda>(items, r). ((False, items), r)) (comma_list parse_item ts1)"
  from assms(1) obtain ts1 x where kw: "ExpectKeyword ''SELECT'' ts = Inr ts1" and x: "?list ts1 = Inr x"
    and rest: "(\<lambda>((all, items), ts2).
           rbind (ExpectKeyword ''FROM'' ts2) (\<lambda>ts3.
             rbind (ParseTableRef ts3) (\<lambda>(tab, ts4).
               if Match Keyword ''WHERE'' ts4
               then rbind (ParseCondition (P_Advance ts4)) (\<lambda>(c, ts5). Inr (SelectStmt all items tab (Some c), ts5))
               else Inr (SelectStmt all items tab None, ts4)))) x = Inr (stmt, ts')"
    unfolding ParseSelectStatement_def by (elim rbindE) blast
  obtain all items ts2 where x2: "x = ((all, items), ts2)" by (metis prod.collapse)
  obtain ts3 y where t: "ExpectKeyword ''FROM'' ts2 = Inr ts3" "ParseTableRef ts3 = Inr y"
    and last: "(\<lambda>(tab, ts4).
               if Match Keyword ''WHERE'' ts4
               then rbind (ParseCondition (P_Advance ts4)) (\<lambda>(c, ts5). Inr (SelectStmt all items tab (Some c), ts5))
               else Inr (SelectStmt all items tab None, ts4)) y = Inr (stmt, ts')"
    using rest unfolding x2 prod.case by (elim rbindE) blast
  have "set ts2 \<subseteq> set ts1"
    using x advance_leaves(1) comma_list_leaves [of parse_item ts1, OF parse_item_leaves] unfolding x2
    by (auto simp: rmap_Inr_iff split: if_splits)
  then have "set ts3 \<subseteq> set ts" using expect_leaves(1) [OF kw] expect_leaves(1) [OF t(1)] by blast
  then have "plain_ref (fst y)" using ParseTableRef_plain [of ts3 "fst y" "snd y"] t(2) idents_plain_mono [OF assms(2)] by simp
  then show ?thesis using last by (auto simp: rbind_Inr_iff split: prod.splits if_splits)
qed

lemma ParseStatement_plain:
  assumes "ParseStatement ts = Inr stmt" "idents_plain ts"
  shows "parsed_names stmt"
proof -
  obtain kw ts1 where p: "statement_parser kw ts = Inr (stmt, ts1)"
    using assms(1) by (auto simp: ParseStatement_def Let_def result_iff split: if_splits)
  have "ParseUseStatement ts = Inr (stmt, ts1) \<Longrightarrow> parsed_names stmt" "ParseGrantStatement ts = Inr (stmt, ts1) \<Longrightarrow> parsed_names stmt"
    "ParseRevokeStatement ts = Inr (stmt, ts1) \<Longrightarrow> parsed_names stmt"
    by (auto simp: ParseUseStatement_def ParseGrantStatement_def ParseRevokeStatement_def parse_access_def result_iff)
  then show ?thesis
    using p ParseCreate_plain [of ts stmt ts1] ParseDrop_plain [of ts stmt ts1] ParseTable_plain [OF assms(2), of stmt ts1]
      ParseSelect_plain [of ts stmt ts1] assms(2)
    by (simp add: statement_parser_def split: if_splits)
qed

lemma parsed_text_plain: "ParseStatement (Tokenize lx) = Inr stmt \<Longrightarrow> parsed_names stmt"
  using ParseStatement_plain Tokenize_plain by blast

end
