(* ===== verification/Server_Machine.thy ===== *)
theory Server_Machine
  imports Server_Properties Parsed_Names
begin

text \<open>
  The server while it runs: the requests of its connections, the workers of the task processor, the
  monitor, the tick of the counters and the writer of the log, in any order. \<open>run_event\<close> is one step of
  one of these threads; what none of them catches ends the server.
\<close>

section \<open>State\<close>

text \<open>
  \<open>ma_probing\<close> holds the nodes that the probe in progress has still to ping: the monitor works on a copy
  of the nodes, which the requests may have changed in the meantime.
\<close>

record 'w machine =
  ma_server :: "'w server"
  ma_sessions :: "nat \<Rightarrow> session option"
  ma_missed :: "string \<Rightarrow> 32 word option"
  ma_threshold :: "32 word"
  ma_probing :: "(string \<times> storage_node) list"
  ma_ended :: bool

definition start_machine :: "'w server \<Rightarrow> 'w machine" where
  "start_machine s = \<lparr>ma_server = s, ma_sessions = Map.empty, ma_missed = Map.empty, ma_threshold = 3, ma_probing = [], ma_ended = False\<rparr>"

datatype 'w event =
    Connects nat
  | Sends nat "'w server_env" json
  | Leaves nat
  | Takes nat
  | Begins nat
  | Finishes nat "'w server_env"
  | Looks
  | Probes "'w network" start_outcome
  | Second_Ends
  | Writes_Log string bool

section \<open>Steps\<close>

text \<open>A connection: \<open>Application::Run\<close> starts a thread with a new session for it.\<close>

definition connection_event :: "server_config \<Rightarrow> nat \<Rightarrow> 'w server_env \<Rightarrow> json \<Rightarrow> 'w machine \<Rightarrow> 'w machine" where
  "connection_event cfg c env j m =
     (case ma_sessions m c of
        None \<Rightarrow> m
      | Some ses \<Rightarrow>
          (case serve_client cfg [(env, j)] (ma_server m, ses) of
             (r, s, ses') \<Rightarrow> m\<lparr>ma_server := s, ma_sessions := (ma_sessions m)(c \<mapsto> ses'), ma_ended := \<not> is_ok r\<rparr>))"

text \<open>A worker: it takes a job, marks it as running, lets the router execute it and settles it.\<close>

definition set_pool :: "pool \<Rightarrow> 'w machine \<Rightarrow> 'w machine" where
  "set_pool p m = m\<lparr>ma_server := (ma_server m)\<lparr>sv_pool := p\<rparr>\<rparr>"

definition worker_at :: "nat \<Rightarrow> 'w machine \<Rightarrow> worker option" where
  "worker_at i m = (let ws = pl_workers (sv_pool (ma_server m)) in if i < length ws then Some (ws ! i) else None)"

definition set_worker :: "nat \<Rightarrow> worker \<Rightarrow> pool \<Rightarrow> pool" where
  "set_worker i w p = p\<lparr>pl_workers := (pl_workers p)[i := w]\<rparr>"

definition take_event :: "nat \<Rightarrow> 'w machine \<Rightarrow> 'w machine" where
  "take_event i m =
     (case worker_at i m of
        Some Idle \<Rightarrow> (case worker_next (sv_pool (ma_server m)) of None \<Rightarrow> m | Some (w, p) \<Rightarrow> set_pool (set_worker i w p) m)
      | _ \<Rightarrow> m)"

definition begin_event :: "nat \<Rightarrow> 'w machine \<Rightarrow> 'w machine" where
  "begin_event i m =
     (case worker_at i m of
        Some (Took j) \<Rightarrow> set_pool (set_worker i (Runs j) (run_begin j (sv_pool (ma_server m)))) m
      | _ \<Rightarrow> m)"

definition finish_event :: "nat \<Rightarrow> 'w server_env \<Rightarrow> 'w machine \<Rightarrow> 'w machine" where
  "finish_event i env m =
     (case worker_at i m of
        Some (Runs j) \<Rightarrow>
          (case route env (snd j) (ma_server m) of
             (Inl e, s) \<Rightarrow>
               if catchable e then set_pool (set_worker i Idle (run_end j (Inl e) (sv_pool s))) (m\<lparr>ma_server := s\<rparr>)
               else m\<lparr>ma_server := s, ma_ended := True\<rparr>
           | (Inr r, s) \<Rightarrow> set_pool (set_worker i Idle (run_end j (Inr r) (sv_pool s))) (m\<lparr>ma_server := s\<rparr>))
      | _ \<Rightarrow> m)"

text \<open>The monitor: the copy of the nodes, and one node of it.\<close>

definition monitor_of :: "'w machine \<Rightarrow> 'w monitor" where
  "monitor_of m = \<lparr>mo_registry = ro_registry (sv_router (ma_server m)), mo_missed = ma_missed m, mo_threshold = ma_threshold m,
     mo_world = ro_world (sv_router (ma_server m))\<rparr>"

definition set_monitor :: "'w monitor \<Rightarrow> 'w machine \<Rightarrow> 'w machine" where
  "set_monitor mo m = m\<lparr>ma_missed := mo_missed mo, ma_server := (ma_server m)\<lparr>sv_router :=
     (sv_router (ma_server m))\<lparr>ro_registry := mo_registry mo, ro_world := mo_world mo\<rparr>\<rparr>\<rparr>"

definition look_event :: "'w machine \<Rightarrow> 'w machine" where
  "look_event m = (if ma_probing m = [] then m\<lparr>ma_probing := GetNodes (ro_registry (sv_router (ma_server m)))\<rparr> else m)"

definition probe_event :: "'w network \<Rightarrow> start_outcome \<Rightarrow> 'w machine \<Rightarrow> 'w machine" where
  "probe_event net os m =
     (case ma_probing m of
        [] \<Rightarrow> m
      | kn # rest \<Rightarrow>
          (case probe_node net (\<lambda>_. os) kn (monitor_of m) of
             (r, mo) \<Rightarrow> (set_monitor mo m)\<lparr>ma_probing := rest, ma_ended := \<not> is_ok r\<rparr>))"

fun run_event :: "server_config \<Rightarrow> 'w event \<Rightarrow> 'w machine \<Rightarrow> 'w machine" where
  "run_event cfg (Connects c) m = (if ma_sessions m c = None then m\<lparr>ma_sessions := (ma_sessions m)(c \<mapsto> None)\<rparr> else m)"
| "run_event cfg (Sends c env j) m = connection_event cfg c env j m"
| "run_event cfg (Leaves c) m = m\<lparr>ma_sessions := (ma_sessions m)(c := None)\<rparr>"
| "run_event cfg (Takes i) m = take_event i m"
| "run_event cfg (Begins i) m = begin_event i m"
| "run_event cfg (Finishes i env) m = finish_event i env m"
| "run_event cfg Looks m = look_event m"
| "run_event cfg (Probes net os) m = probe_event net os m"
| "run_event cfg Second_Ends m =
     m\<lparr>ma_server := (ma_server m)\<lparr>sv_telemetry := output_tick (sv_telemetry (ma_server m))\<rparr>\<rparr>"
| "run_event cfg (Writes_Log day opens) m =
     m\<lparr>ma_server := (ma_server m)\<lparr>sv_logger := write_entry (day, opens) (sv_logger (ma_server m))\<rparr>\<rparr>"

text \<open>
  What the operating system promises: a new process has an identifier of its own, directories can be
  made, a task has a new identifier; and the ports do not run out.
\<close>

definition env_fits :: "'w server_env \<Rightarrow> 'w server \<Rightarrow> bool" where
  "env_fits env s \<longleftrightarrow> new_child (se_start env) (ro_registry (sv_router s)) \<and> so_directory (se_start env) \<and>
     unat (rg_next_port (ro_registry (sv_router s))) + 1 < 2 ^ 32 \<and> se_task_id env \<notin> dom (pl_tasks (sv_pool s))"

fun event_fits :: "'w machine \<Rightarrow> 'w event \<Rightarrow> bool" where
  "event_fits m (Sends c env j) \<longleftrightarrow> env_fits env (ma_server m)"
| "event_fits m (Probes net os) \<longleftrightarrow> new_child os (ro_registry (sv_router (ma_server m)))"
| "event_fits m e \<longleftrightarrow> True"

inductive machine_reaches :: "server_config \<Rightarrow> 'w machine \<Rightarrow> 'w machine \<Rightarrow> bool" for cfg where
  machine_here: "machine_reaches cfg m m"
| machine_step: "machine_reaches cfg m m' \<Longrightarrow> \<not> ma_ended m' \<Longrightarrow> event_fits m' e \<Longrightarrow> machine_reaches cfg m (run_event cfg e m')"

section \<open>The invariant\<close>

text \<open>The jobs that are not finished are all of the kind that runs in the background.\<close>

definition pool_jobs :: "pool \<Rightarrow> job set" where
  "pool_jobs p = set (pl_submits p) \<union> set (pl_refused p) \<union> set (pl_queue p) \<union> set (concat (map worker_jobs (pl_workers p)))"

definition pool_good :: "pool \<Rightarrow> bool" where
  "pool_good p \<longleftrightarrow> pool_ok p \<and> (\<forall>j \<in> pool_jobs p. IsLongRunning (snd j))"

definition router_good :: "'w router \<Rightarrow> bool" where
  "router_good ro \<longleftrightarrow> (\<exists>D. consistent ro D)"

definition session_good :: "session \<Rightarrow> bool" where
  "session_good ses \<longleftrightarrow> (case ses of None \<Rightarrow> True | Some db \<Rightarrow> plain_name db)"

definition serving_good :: "'w server \<times> session \<Rightarrow> bool" where
  "serving_good = (\<lambda>(s, ses). router_good (sv_router s) \<and> pool_good (sv_pool s) \<and> session_good ses)"

definition machine_good :: "'w machine \<Rightarrow> bool" where
  "machine_good m \<longleftrightarrow> router_good (sv_router (ma_server m)) \<and> pool_good (sv_pool (ma_server m)) \<and>
     (\<forall>ses \<in> ran (ma_sessions m). session_good ses)"

section \<open>The pool\<close>

lemma Task_Submit_good:
  assumes "pool_good p" "fst j \<notin> dom (pl_tasks p)" "IsLongRunning (snd j)"
  shows "pool_good (Task_Submit j p)"
proof -
  let ?b = "submit_begin j p"
  have b: "pool_ok ?b" using client_step_ok [OF client_submit [of j p]] assms(1,2) by (simp add: pool_good_def)
  have p: "pool_ok (submit_push j ?b)"
    using pool_step_ok [OF step_push [of j ?b "\<lambda>_ _. True"] b] by (simp add: submit_begin_def)
  have jobs: "pool_jobs (submit_push j ?b) \<subseteq> insert j (pool_jobs p)"
    by (auto simp: pool_jobs_def submit_push_def submit_begin_def Pool_Submit_def)
  show ?thesis
  proof (cases "pl_stopped p")
    case False
    then show ?thesis using p jobs assms(1,3) by (auto simp: Task_Submit_def pool_good_def Let_def)
  next
    case True
    then have "j \<in> set (pl_refused (submit_push j ?b))" by (simp add: submit_push_def submit_begin_def Pool_Submit_def)
    from pool_step_ok [OF step_refused [OF this, of "\<lambda>_ _. True"] p] have "pool_ok (submit_refused j (submit_push j ?b))" .
    moreover have "pool_jobs (submit_refused j (submit_push j ?b)) \<subseteq> pool_jobs (submit_push j ?b)"
      using set_remove1_subset by (fastforce simp: pool_jobs_def submit_refused_def)
    ultimately show ?thesis using True jobs assms(1,3) by (auto simp: Task_Submit_def pool_good_def Let_def)
  qed
qed

lemma worker_jobs_update:
  assumes "i < length ws" "set (worker_jobs w) \<subseteq> X"
  shows "set (concat (map worker_jobs (ws[i := w]))) \<subseteq> set (concat (map worker_jobs ws)) \<union> X"
  using assms set_update_subset_insert [of ws i w] by auto

lemma set_worker_step:
  assumes "pool_good p" "i < length (pl_workers p)" "pool_ok (set_worker i w q)" "pl_workers q = pl_workers p"
    and "pl_submits q = pl_submits p" "pl_refused q = pl_refused p" "set (pl_queue q) \<subseteq> set (pl_queue p)"
    and "set (worker_jobs w) \<subseteq> pool_jobs p"
  shows "pool_good (set_worker i w q)"
proof -
  have "pool_jobs (set_worker i w q) \<subseteq> pool_jobs p"
    using worker_jobs_update [OF assms(2,8)] assms(4-7) by (auto simp: pool_jobs_def set_worker_def)
  then show ?thesis using assms(1,3) by (auto simp: pool_good_def)
qed

lemma set_worker_record: "set_worker i w q = q\<lparr>pl_workers := (pl_workers q)[i := w]\<rparr>"
  by (simp add: set_worker_def)

lemma worker_mem: "i < length (pl_workers p) \<Longrightarrow> set (worker_jobs (pl_workers p ! i)) \<subseteq> pool_jobs p"
  using nth_mem [of i "pl_workers p"] by (fastforce simp: pool_jobs_def)

lemma take_good:
  assumes "pool_good p" "i < length (pl_workers p)" "pl_workers p ! i = Idle" "worker_next p = Some (w, q)"
  shows "pool_good (set_worker i w q)"
proof (rule set_worker_step [OF assms(1,2)])
  have q: "pl_workers q = pl_workers p" using assms(4) by (auto simp: worker_next_def split: if_splits list.splits)
  show "pool_ok (set_worker i w q)"
    using pool_step_ok [OF step_next [OF assms(2-4), of "\<lambda>_ _. True"]] assms(1) q by (simp add: pool_good_def set_worker_def)
qed (use assms(4) in \<open>auto simp: worker_next_def pool_jobs_def split: if_splits list.splits\<close>)

lemma begin_good:
  assumes "pool_good p" "i < length (pl_workers p)" "pl_workers p ! i = Took j"
  shows "pool_good (set_worker i (Runs j) (run_begin j p))"
proof (rule set_worker_step [OF assms(1,2)])
  show "pool_ok (set_worker i (Runs j) (run_begin j p))"
    using pool_step_ok [OF step_begin [OF assms(2,3), of "\<lambda>_ _. True"]] assms(1) by (simp add: pool_good_def set_worker_def run_begin_def)
  show "set (worker_jobs (Runs j)) \<subseteq> pool_jobs p" using worker_mem [OF assms(2)] assms(3) by simp
qed (simp_all add: run_begin_def)

lemma finish_good:
  assumes "pool_good p" "i < length (pl_workers p)" "pl_workers p ! i = Runs j"
  shows "pool_good (set_worker i Idle (run_end j r p))"
proof (rule set_worker_step [OF assms(1,2)])
  show "pool_ok (set_worker i Idle (run_end j r p))"
    using pool_step_ok [OF step_end [OF assms(2,3), of "\<lambda>_ _. True" r]] assms(1) by (simp add: pool_good_def set_worker_def run_end_def)
qed (simp_all add: run_end_def)

section \<open>The monitor\<close>

lemma UpdateNode_consistent:
  assumes "registry_ok rg"
  shows "registry_ok (snd (UpdateNode k st rg))"
  using set_state_ok [OF assms] assms by (auto simp: UpdateNode_def)

lemma probe_good:
  assumes "registry_ok (mo_registry m)" "new_child os (mo_registry m)" "probe_node net (\<lambda>_. os) (k, node) m = (r, m')"
  shows "registry_ok (mo_registry m')" "map fst (rg_nodes (mo_registry m')) = map fst (rg_nodes (mo_registry m))"
proof -
  obtain b w where p: "PingStorage net node (mo_world m) = (b, w)" by fastforce
  obtain q rg where q: "RestartNode os k (mo_registry m) = (q, rg)" by fastforce
  note rs = RestartNode_ok(1) [OF assms(1,2) q] RestartNode_other(2) [OF q]
  have "registry_ok (mo_registry m') \<and> map fst (rg_nodes (mo_registry m')) = map fst (rg_nodes (mo_registry m))"
    using assms(3) p q rs UpdateNode_consistent [OF assms(1)] UpdateNode_consistent [OF rs(1)] UpdateNode_other(2) assms(1)
    by (auto simp: probe_node_def Let_def split: bool.splits if_splits sum.splits)
  then show "registry_ok (mo_registry m')" "map fst (rg_nodes (mo_registry m')) = map fst (rg_nodes (mo_registry m))" by simp_all
qed

lemma consistent_registry:
  assumes "consistent ro D" "registry_ok rg" "map fst (rg_nodes rg) = map fst (rg_nodes (ro_registry ro))"
  shows "consistent (ro\<lparr>ro_registry := rg, ro_world := w\<rparr>) D"
proof -
  have "fst ` set (rg_nodes rg) = fst ` set (rg_nodes (ro_registry ro))" using arg_cong [OF assms(3), of set] by simp
  then show ?thesis using assms(1,2) by (simp add: consistent_def)
qed

section \<open>A request\<close>

text \<open>\<open>leads P m Q\<close>: from a state with \<open>P\<close> the call \<open>m\<close> leads to one with \<open>Q\<close>, whether it throws or not.\<close>

definition leads :: "('s \<Rightarrow> bool) \<Rightarrow> ('s, 'a) st \<Rightarrow> ('s \<Rightarrow> bool) \<Rightarrow> bool" where
  "leads P m Q \<longleftrightarrow> (\<forall>s. P s \<longrightarrow> Q (snd (m s)))"

lemma leads_first:
  assumes "keeps P m" "\<And>x. leads P (f x) Q" "\<And>s. P s \<Longrightarrow> Q s"
  shows "leads P (sbind m f) Q"
  unfolding leads_def
proof (intro allI impI)
  fix s assume "P s"
  then have "P (snd (m s))" using assms(1) by (simp add: keeps_def)
  then show "Q (snd (sbind m f s))" using assms(2,3) by (cases "m s") (auto simp: sbind_def leads_def split: sum.split)
qed

lemma leads_last:
  assumes "leads P m Q" "\<And>x. keeps Q (f x)"
  shows "leads P (sbind m f) Q"
  unfolding leads_def
proof (intro allI impI)
  fix s assume "P s"
  then have "Q (snd (m s))" using assms(1) by (simp add: leads_def)
  then show "Q (snd (sbind m f s))" using assms(2) by (cases "m s") (auto simp: sbind_def keeps_def split: sum.split)
qed

lemma leads_keeps: "keeps P m \<Longrightarrow> (\<And>s. P s \<Longrightarrow> Q s) \<Longrightarrow> leads P m Q"
  by (simp add: leads_def keeps_def)

lemma leads_lift: "(\<And>x. r = Inr x \<Longrightarrow> leads P (f x) Q) \<Longrightarrow> (\<And>s. P s \<Longrightarrow> Q s) \<Longrightarrow> leads P (sbind (slift r) f) Q"
  by (cases r) (auto simp: leads_def sbind_def slift_def)

lemma leads_get: "(\<And>s. P s \<Longrightarrow> Q (snd (f (h s) s))) \<Longrightarrow> leads P (sbind (sget h) f) Q"
  by (simp add: leads_def sbind_def sget_def)

lemma leads_if: "leads P m Q \<Longrightarrow> leads P n Q \<Longrightarrow> leads P (if b then m else n) Q"
  by simp

lemma leads_caught: "leads P m Q \<Longrightarrow> leads P (caught m) Q"
  by (simp add: leads_def caught_state)

text \<open>Accounts, rules, counters and the log are apart from the router and the pool.\<close>

definition aside :: "'w router \<Rightarrow> pool \<Rightarrow> 'w server \<Rightarrow> bool" where
  "aside ro pl s \<longleftrightarrow> sv_router s = ro \<and> sv_pool s = pl"

lemma aside_parts: "keeps (aside ro pl) (create_account env u p)" "keeps (aside ro pl) (on_rbac m)"
proof -
  have "aside ro pl (snd (create_account env u p s))" if "aside ro pl s" for s
    using create_account_frame [of env u p s] that by (cases "create_account env u p s") (fastforce simp: aside_def)
  then show "keeps (aside ro pl) (create_account env u p)" by (simp add: keeps_def)
  have "aside ro pl (snd (on_rbac m s))" if "aside ro pl s" for s
    using on_rbac_frame [of m s] that by (cases "on_rbac m s") (fastforce simp: aside_def)
  then show "keeps (aside ro pl) (on_rbac m)" by (simp add: keeps_def)
qed

lemma HandleSecurity_aside: "keeps (aside ro pl) (HandleSecurityStatement cfg env user stmt)"
proof -
  have "keeps (aside ro pl) (change_access cfg env user grant names scope target)" for grant names scope target
    using aside_parts(2) [of ro pl "apply_permissions (se_rule_ios env) grant scope target 0 names"]
    by (auto simp: keeps_def change_access_def)
  then show ?thesis using aside_parts(1) by (cases stmt) (auto intro!: keeps_rules)
qed

lemma HandleLogin_aside: "keeps (aside ro pl) (HandleLogin cfg env req)"
  using aside_parts unfolding HandleLogin_def by (intro keeps_rules) auto

definition ready :: "'w server_env \<Rightarrow> 'w server \<times> session \<Rightarrow> bool" where
  "ready env t \<longleftrightarrow> serving_good t \<and> env_fits env (fst t)"

lemma ready_good: "ready env t \<Longrightarrow> serving_good t"
  by (simp add: ready_def)

lemma aside_ready:
  assumes "\<And>ro pl. keeps (aside ro pl) m"
  shows "keeps (ready env) (on_server m)"
  unfolding keeps_def
proof (intro allI impI)
  fix t :: "'a server \<times> session"
  assume r: "ready env t"
  obtain s ses where t: "t = (s, ses)" by fastforce
  obtain x s' where m: "m s = (x, s')" by fastforce
  have "aside (sv_router s) (sv_pool s) s'" using assms [of "sv_router s" "sv_pool s"] m by (auto simp: keeps_def aside_def dest!: spec [of _ s])
  then show "ready env (snd (on_server m t))"
    using r m by (simp add: t on_server_def on_part_def ready_def serving_good_def env_fits_def aside_def)
qed

lemma routed_good:
  fixes s :: "'w server"
  assumes "router_good (sv_router s)" "env_fits env s" "plain_names stmt" "route env stmt s = (r, s')"
  shows "router_good (sv_router s')" "sv_pool s' = sv_pool s"
proof -
  obtain ro where ro: "Route (se_catalog_ios env) (se_start env) (se_net env) stmt (sv_router s) = (r, ro)" "s' = s\<lparr>sv_router := ro\<rparr>"
    using assms(4) by (auto simp: route_def on_router_def on_part_def simp del: Route.simps split: prod.splits)
  obtain D where D: "consistent (sv_router s) D" using assms(1) by (auto simp: router_good_def)
  have fits: "new_child (se_start env) (ro_registry (sv_router s))" "so_directory (se_start env)"
    "unat (rg_next_port (ro_registry (sv_router s))) + 1 < 2 ^ 32" using assms(2) by (simp_all add: env_fits_def)
  have "\<exists>D'. consistent ro D'" using route_consistent [OF D assms(3) fits ro(1)] by blast
  then show "router_good (sv_router s')" "sv_pool s' = sv_pool s" using ro(2) by (simp_all add: router_good_def)
qed

lemma run_statement_good:
  fixes s :: "'w server"
  assumes "plain_names stmt" "ready env (s, ses)" "run_statement cfg env user stmt (s, ses) = (r, s', ses')"
  shows "serving_good (s', ses')"
proof (cases "\<exists>db. stmt = UseDatabaseStmt db")
  case True
  then obtain db where db: "stmt = UseDatabaseStmt db" by blast
  obtain q t where q: "route env (UseDatabaseStmt db) s = (q, t)" by fastforce
  note use = route_use [OF q]
  have good: "serving_good (s, ses)" using assms(2) by (simp add: ready_def)
  have plain: "plain_name db" if "q = Inr x" "IsSuccess x" for x
    using use(2) [OF that] good HasDatabase_at consistentD(1,3) unfolding serving_good_def router_good_def by blast
  then show ?thesis using assms(3) q use(1) good
    by (auto simp: db run_statement_def sbind_def on_server_iff supd_def sret_def serving_good_def session_good_def
        split: sum.splits if_splits prod.splits)
next
  case False
  note run = run_statement_other [OF False, of cfg env user]
  have good: "router_good (sv_router s)" "pool_good (sv_pool s)" "session_good ses" "env_fits env s"
    using assms(2) by (simp_all add: ready_def serving_good_def)
  show ?thesis
  proof (cases "IsLongRunning stmt")
    case long: True
    have "se_task_id env \<notin> dom (pl_tasks (sv_pool s))" using good(4) by (simp add: env_fits_def)
    then have "pool_good (Task_Submit (se_task_id env, stmt) (sv_pool s))" using Task_Submit_good [OF good(2)] long by simp
    then show ?thesis using assms(3) long good
      by (auto simp: run sbind_def sget_def sret_def supd_def serving_good_def split: if_splits)
  next
    case short: False
    have "(s', ses') = (s, ses) \<or> route env stmt s = (r, s') \<and> ses' = ses"
      using assms(3) short by (auto simp: run sbind_def sget_def sret_def on_server_iff split: if_splits)
    then show ?thesis using routed_good [OF good(1,4) assms(1)] good by (auto simp: serving_good_def)
  qed
qed

text \<open>The names of a parsed statement are complete once the database of the session is applied.\<close>

lemma ApplyDatabase_plain:
  assumes "ApplyDatabase ses stmt = Some stmt'" "parsed_names stmt" "session_good ses"
  shows "plain_names stmt'"
proof -
  have ref: "plain_name (RefDatabase t') \<and> plain_name (RefTable t')" if "ApplyDatabase_ref ses t = Some t'" "plain_ref t" for t t'
    using that assms(3) by (auto simp: ApplyDatabase_ref_def plain_ref_def session_good_def split: if_splits option.splits)
  show ?thesis using assms(1,2) ref by (cases stmt) auto
qed

lemma execute_leads:
  assumes "parsed_names stmt"
  shows "leads (ready env) (execute_statement cfg env user stmt) serving_good"
proof -
  have run: "serving_good (snd (run_statement cfg env user stmt' t))"
    if "plain_names stmt'" "ready env t" for stmt' and t :: "'a server \<times> session"
    using run_statement_good [OF that(1)] that(2) by (metis prod.collapse)
  have applied: "leads (ready env) (sbind (sget (\<lambda>(_, ses). ApplyDatabase ses stmt)) (\<lambda>applied. case applied of
        None \<Rightarrow> sret (Rsp_Error ''No database selected; run USE <database> or qualify the table as <database>.<table>'')
      | Some stmt' \<Rightarrow> run_statement cfg env user stmt')) serving_good"
  proof (rule leads_get)
    fix t :: "'a server \<times> session"
    assume r: "ready env t"
    obtain s ses where t: "t = (s, ses)" by fastforce
    have ses: "session_good ses" using r t by (simp add: ready_def serving_good_def)
    show "serving_good (snd ((case (case t of (_, ses) \<Rightarrow> ApplyDatabase ses stmt) of
        None \<Rightarrow> sret (Rsp_Error ''No database selected; run USE <database> or qualify the table as <database>.<table>'')
      | Some stmt' \<Rightarrow> run_statement cfg env user stmt') t))"
      using run ApplyDatabase_plain [OF _ assms ses] ready_good [OF r] r by (cases "ApplyDatabase ses stmt") (simp_all add: t sret_def)
  qed
  have "keeps (ready env) (on_server (HandleSecurityStatement cfg env user stmt))" by (intro aside_ready HandleSecurity_aside)
  then show ?thesis unfolding execute_statement_def
    by (rule leads_first) (auto split: option.split intro: applied leads_keeps keeps_rules ready_good)
qed

lemma HandleExecute_leads: "leads (ready env) (HandleExecute cfg env req) serving_good"
proof -
  have same: "leads (ready env) (sret r) serving_good" for r :: response by (auto intro: leads_keeps keeps_rules ready_good)
  have go: "leads (ready env) (sbind (slift (ParseStatement (Tokenize lx))) (\<lambda>stmt. sbind (slift (ValidateStatement stmt)) (\<lambda>_.
      execute_statement cfg env user stmt))) serving_good" for lx user
    using parsed_text_plain by (auto intro!: leads_lift execute_leads ready_good)
  show ?thesis unfolding HandleExecute_def Let_def
    by (intro leads_lift leads_if same ready_good leads_first [OF keeps_basic(4)]; (simp only: split_beta)?; intro leads_if same go)
qed

lemma handle_action_leads: "leads (ready env) (handle_action cfg env req) serving_good"
proof -
  have same: "leads (ready env) (sret r) serving_good" for r :: response by (auto intro: leads_keeps keeps_rules ready_good)
  have login: "leads (ready env) (on_server (HandleLogin cfg env req)) serving_good"
    by (rule leads_keeps [OF aside_ready [OF HandleLogin_aside] ready_good])
  show ?thesis unfolding handle_action_def
    by (intro leads_first [OF keeps_basic(4)] leads_if same login HandleExecute_leads ready_good)
qed

lemma Process_leads: "leads (ready env) (Process cfg env req) serving_good"
proof -
  have tail: "keeps serving_good (supd (apfst (\<lambda>s. s\<lparr>sv_telemetry := f s\<rparr>)))" "keeps serving_good (supd (apfst (\<lambda>s. s\<lparr>sv_logger := g s\<rparr>)))"
    for f :: "'a server \<Rightarrow> telemetry" and g :: "'a server \<Rightarrow> logger"
    by (auto intro!: keeps_supd simp: serving_good_def)
  show ?thesis unfolding Process_def
    by (intro leads_first [OF keeps_basic(4)] leads_last [OF leads_caught [OF handle_action_leads]] keeps_rules tail ready_good)
qed

lemma serve_one_good:
  assumes "serving_good (s, ses)" "env_fits env s" "serve_client cfg [(env, j)] (s, ses) = (r, s', ses')"
  shows "serving_good (s', ses')"
proof -
  have "leads (ready env) (serve_client cfg [(env, j)]) serving_good"
    by (auto intro!: leads_lift leads_last [OF Process_leads] keeps_rules ready_good)
  moreover have "ready env (s, ses)" using assms(1,2) by (simp add: ready_def)
  ultimately show ?thesis using assms(3) unfolding leads_def by (metis snd_conv)
qed

section \<open>All steps\<close>

lemma machine_goodI:
  "router_good (sv_router (ma_server m)) \<Longrightarrow> pool_good (sv_pool (ma_server m)) \<Longrightarrow> (\<And>c ses. ma_sessions m c = Some ses \<Longrightarrow> session_good ses)
    \<Longrightarrow> machine_good m"
  by (auto simp: machine_good_def ran_def)

lemma machine_goodD:
  assumes "machine_good m"
  shows "router_good (sv_router (ma_server m))" "pool_good (sv_pool (ma_server m))" "ma_sessions m c = Some ses \<Longrightarrow> session_good ses"
  using assms by (auto simp: machine_good_def ran_def)

lemma set_pool_good: "machine_good m \<Longrightarrow> pool_good p \<Longrightarrow> machine_good (set_pool p m)"
  by (simp add: machine_good_def set_pool_def)

lemma worker_at_Some: "worker_at i m = Some w \<longleftrightarrow>
    i < length (pl_workers (sv_pool (ma_server m))) \<and> pl_workers (sv_pool (ma_server m)) ! i = w"
  by (auto simp: worker_at_def Let_def)

lemma connection_good:
  assumes "machine_good m" "env_fits env (ma_server m)"
  shows "machine_good (connection_event cfg c env j m)"
proof (cases "ma_sessions m c")
  case None
  then show ?thesis using assms(1) by (simp add: connection_event_def)
next
  case (Some ses)
  obtain r s ses' where run: "serve_client cfg [(env, j)] (ma_server m, ses) = (r, s, ses')" by (metis prod.collapse)
  have "serving_good (ma_server m, ses)" using machine_goodD [OF assms(1)] Some by (simp add: serving_good_def)
  from serve_one_good [OF this assms(2) run] have "serving_good (s, ses')" .
  then show ?thesis using Some run machine_goodD [OF assms(1)]
    by (intro machine_goodI) (auto simp: connection_event_def serving_good_def simp del: serve_client.simps split: if_splits)
qed

lemma long_route: "IsLongRunning stmt \<Longrightarrow> Route ios os net stmt = Route_table net stmt"
  by (cases stmt) auto

lemma finish_route:
  fixes s :: "'w server"
  assumes "router_good (sv_router s)" "IsLongRunning stmt" "route env stmt s = (r, s')"
  shows "\<exists>w. s' = s\<lparr>sv_router := (sv_router s)\<lparr>ro_world := w\<rparr>\<rparr>" "router_good (sv_router s')"
proof -
  obtain ro where ro: "Route_table (se_net env) stmt (sv_router s) = (r, ro)" "s' = s\<lparr>sv_router := ro\<rparr>"
    using assms(3) by (auto simp: route_def on_router_def on_part_def long_route [OF assms(2)] simp del: Route.simps split: prod.splits)
  obtain D where D: "consistent (sv_router s) D" using assms(1) by (auto simp: router_good_def)
  obtain w where w: "ro = (sv_router s)\<lparr>ro_world := w\<rparr>" using route_table_same [OF consistentD(1) [OF D] ro(1)] by blast
  then show "\<exists>w. s' = s\<lparr>sv_router := (sv_router s)\<lparr>ro_world := w\<rparr>\<rparr>" using ro(2) by blast
  have "consistent ro D" using w D by simp
  then show "router_good (sv_router s')" using ro(2) by (auto simp: router_good_def)
qed

lemma finish_event_good:
  assumes "machine_good m"
  shows "machine_good (finish_event i env m)"
proof (cases "\<exists>j. worker_at i m = Some (Runs j)")
  case False
  then show ?thesis using assms by (auto simp: finish_event_def split: option.split worker.split)
next
  case True
  then obtain j where at: "worker_at i m = Some (Runs j)" by blast
  note g = machine_goodD [OF assms]
  have w: "i < length (pl_workers (sv_pool (ma_server m)))" "pl_workers (sv_pool (ma_server m)) ! i = Runs j"
    using at by (simp_all add: worker_at_Some)
  have long: "IsLongRunning (snd j)" using worker_mem [OF w(1)] w(2) g(2) by (auto simp: pool_good_def)
  obtain r s where run: "route env (snd j) (ma_server m) = (r, s)" by fastforce
  note fr = finish_route [OF g(1) long run]
  have pool: "sv_pool s = sv_pool (ma_server m)" using fr(1) by auto
  have moved: "machine_good (m\<lparr>ma_server := s\<rparr>)" using fr(2) pool g by (intro machine_goodI) simp_all
  have ended: "machine_good (m\<lparr>ma_server := s, ma_ended := True\<rparr>)" using fr(2) pool g by (intro machine_goodI) simp_all
  show ?thesis using set_pool_good [OF moved finish_good [OF g(2) w]] ended run at pool
    by (auto simp: finish_event_def split: sum.split)
qed

lemma probe_event_good:
  assumes "machine_good m" "new_child os (ro_registry (sv_router (ma_server m)))"
  shows "machine_good (probe_event net os m)"
proof (cases "ma_probing m")
  case Nil
  then show ?thesis using assms(1) by (simp add: probe_event_def)
next
  case (Cons kn rest)
  obtain k node where kn: "kn = (k, node)" by fastforce
  obtain r mo where run: "probe_node net (\<lambda>_. os) (k, node) (monitor_of m) = (r, mo)" by fastforce
  obtain D where D: "consistent (sv_router (ma_server m)) D" using machine_goodD(1) [OF assms(1)] by (auto simp: router_good_def)
  have reg: "mo_registry (monitor_of m) = ro_registry (sv_router (ma_server m))" by (simp add: monitor_of_def)
  note p = probe_good [OF _ _ run, unfolded reg, OF consistentD(2) [OF D] assms(2)]
  have "router_good ((sv_router (ma_server m))\<lparr>ro_registry := mo_registry mo, ro_world := mo_world mo\<rparr>)"
    using consistent_registry [OF D p] by (auto simp: router_good_def)
  then show ?thesis using Cons kn run machine_goodD [OF assms(1)]
    by (intro machine_goodI) (auto simp: probe_event_def set_monitor_def)
qed

lemma event_good:
  assumes "machine_good m" "event_fits m e"
  shows "machine_good (run_event cfg e m)"
proof (cases e)
  case (Takes i)
  note g = machine_goodD [OF assms(1)]
  have "machine_good (take_event i m)"
    using assms(1) set_pool_good [OF assms(1) take_good [OF g(2)]]
    by (auto simp: take_event_def worker_at_Some split: option.split worker.split)
  then show ?thesis using Takes by simp
next
  case (Begins i)
  note g = machine_goodD [OF assms(1)]
  have "machine_good (begin_event i m)"
    using assms(1) set_pool_good [OF assms(1) begin_good [OF g(2)]]
    by (auto simp: begin_event_def worker_at_Some split: option.split worker.split)
  then show ?thesis using Begins by simp
next
  case (Sends c env j)
  then show ?thesis using connection_good assms by simp
next
  case (Finishes i env)
  then show ?thesis using finish_event_good assms(1) by simp
next
  case (Probes net os)
  then show ?thesis using probe_event_good assms by simp
qed (use assms(1) in \<open>auto simp: machine_good_def look_event_def ran_def session_good_def split: if_splits\<close>)

lemma reachable_good: "machine_reaches cfg m m' \<Longrightarrow> machine_good m \<Longrightarrow> machine_good m'"
  by (induction rule: machine_reaches.induct) (auto intro: event_good)

lemma new_server_good: "machine_good (start_machine (new_server cfg accounts rules no_file (Registry auto binary root) w))"
proof -
  have "consistent \<lparr>ro_catalog = Catalog no_file, ro_registry = Registry auto binary root, ro_world = w\<rparr> Map.empty"
    using Catalog_new Registry_ok by (simp add: consistent_def tables_of_def) (simp add: Registry_def)
  moreover have "pool_good (ThreadPool 2)"
    using ThreadPool_ok [of 2] by (simp add: pool_good_def pool_jobs_def ThreadPool_def)
  ultimately show ?thesis
    by (intro machine_goodI) (auto simp: start_machine_def new_server_def router_good_def)
qed

section \<open>Properties of a running server\<close>


lemma background_frame:
  fixes m :: "'w machine"
  assumes "machine_good m" "\<nexists>c env j. e = Sends c env j" "m' = run_event cfg e m"
  shows "sv_accounts (ma_server m') = sv_accounts (ma_server m) \<and> sv_rbac (ma_server m') = sv_rbac (ma_server m) \<and>
    ro_catalog (sv_router (ma_server m')) = ro_catalog (sv_router (ma_server m))"
proof (cases e)
  case (Finishes i env)
  show ?thesis
  proof (cases "\<exists>j. worker_at i m = Some (Runs j)")
    case False
    then show ?thesis using Finishes assms(3) by (auto simp: finish_event_def split: option.split worker.split)
  next
    case True
    then obtain j where at: "worker_at i m = Some (Runs j)" by blast
    then have w: "i < length (pl_workers (sv_pool (ma_server m)))" "pl_workers (sv_pool (ma_server m)) ! i = Runs j"
      by (simp_all add: worker_at_Some)
    have long: "IsLongRunning (snd j)"
      using worker_mem [OF w(1)] w(2) machine_goodD(2) [OF assms(1)] by (auto simp: pool_good_def)
    obtain r s where run: "route env (snd j) (ma_server m) = (r, s)" by fastforce
    obtain v where "s = (ma_server m)\<lparr>sv_router := (sv_router (ma_server m))\<lparr>ro_world := v\<rparr>\<rparr>"
      using finish_route(1) [OF machine_goodD(1) [OF assms(1)] long run] by blast
    then show ?thesis using Finishes assms(3) at run by (auto simp: finish_event_def set_pool_def split: sum.split)
  qed
next
  case (Probes net os)
  then show ?thesis using assms(3) by (auto simp: probe_event_def set_monitor_def split: list.split prod.split)
qed (use assms(2,3) in \<open>auto simp: take_event_def begin_event_def look_event_def set_pool_def split: option.split worker.split\<close>)

text \<open>
  C8: nothing but a rightful request changes accounts, rights or the catalog of a running server. Where
  tokens are required, a step of any of its threads leaves them as they are, or it is a request on a
  connection: the login that sets the server up, or a query that carries the valid token of a user
  who has the right that its statement needs, and changes what that statement is about.
\<close>

theorem only_rightful_requests_change_the_server:
  assumes "cfg_auth cfg" "machine_reaches cfg (start_machine (new_server cfg accounts rules no_file (Registry auto binary root) w)) m"
    and "m' = run_event cfg e m"
  shows "sv_accounts (ma_server m') = sv_accounts (ma_server m) \<and> sv_rbac (ma_server m') = sv_rbac (ma_server m) \<and>
      ro_catalog (sv_router (ma_server m')) = ro_catalog (sv_router (ma_server m)) \<or>
    (\<exists>c env j req ses. e = Sends c env j \<and> Request_FromJsonObject j = Inr req \<and> ma_sessions m c = Some ses \<and>
      (if Accounts_Empty (sv_accounts (ma_server m)) then
         req_action req = ''login'' \<and> ro_catalog (sv_router (ma_server m')) = ro_catalog (sv_router (ma_server m))
       else
         req_action req = ''query'' \<and>
         (\<exists>user stmt s1. Authenticate cfg env (ma_server m) req = Some user \<and> asks_for req stmt \<and>
            lawful (ma_server m) user ses stmt s1 \<and> same_but_counters s1 (ma_server m'))))"
proof (cases "\<exists>c env j. e = Sends c env j")
  case False
  then show ?thesis using background_frame [OF reachable_good [OF assms(2) new_server_good] _ assms(3)] by blast
next
  case True
  then obtain c env j where e: "e = Sends c env j" by blast
  show ?thesis
  proof (cases "ma_sessions m c")
    case None
    then show ?thesis using assms(3) by (simp add: e connection_event_def)
  next
    case (Some ses)
    show ?thesis
    proof (cases "Request_FromJsonObject j")
      case (Inl x)
      then show ?thesis using assms(3) Some by (simp add: e connection_event_def sbind_def slift_def)
    next
      case (Inr req)
      obtain x s ses' where run: "Process cfg env req (ma_server m, ses) = (x, s, ses')" by (metis prod.collapse)
      have s: "ma_server m' = s"
        using assms(3) Some Inr run by (cases x) (simp_all add: e connection_event_def sbind_def slift_def sret_def)
      from process_changes [OF assms(1) run] show ?thesis
        using e Inr Some unfolding s same_but_counters_def by (auto split: if_splits)
    qed
  qed
qed

text \<open>A client that connects and sets the server up.\<close>

definition sample_machine :: "unit machine" where
  "sample_machine = run_event sample_config (Connects 1) (start_machine fresh_server)"

lemma sample_reached: "machine_reaches sample_config (start_machine fresh_server) sample_machine"
  unfolding sample_machine_def
  by (rule machine_step [OF machine_here]) (simp_all add: start_machine_def)

lemma sample_fits: "event_fits sample_machine (Sends c sample_env j)" "\<not> ma_ended sample_machine" "ma_sessions sample_machine 1 = Some None"
  by (simp_all add: sample_machine_def start_machine_def env_fits_def sample_env_def no_start_def new_child_def fresh_server_def
      new_server_def Registry_def ThreadPool_def)


theorem only_rightful_requests_change_the_server_witness:
  "\<exists>req. Request_FromJsonObject (Request_ToJsonObject (Req_Query ''DROP DATABASE d;'')) = Inr req \<and>
     sv_accounts (ma_server (run_event sample_config (Sends 1 sample_env (Request_ToJsonObject (Req_Query ''DROP DATABASE d;''))) sample_machine)) =
       sv_accounts fresh_server \<and>
     ro_catalog (sv_router (ma_server (run_event sample_config
       (Sends 1 sample_env (Request_ToJsonObject (Req_Query ''DROP DATABASE d;''))) sample_machine))) = ro_catalog (sv_router fresh_server)"
proof -
  let ?j = "Request_ToJsonObject (Req_Query ''DROP DATABASE d;'')"
  let ?m = "run_event sample_config (Sends 1 sample_env ?j) sample_machine"
  have auth: "cfg_auth sample_config" by (simp add: sample_config_def)
  have s: "ma_server sample_machine = fresh_server" by (simp add: sample_machine_def start_machine_def)
  have none: "Accounts_Empty (sv_accounts fresh_server)"
    by (simp add: fresh_server_def new_server_def AccountStore_def Accounts_Load_def JsonFile_Load_def no_file_def
        accounts_from_json_def Accounts_Empty_def)
  obtain req where req: "Request_FromJsonObject ?j = Inr req" "req_action req = ''query''"
    by (simp add: Req_Query_def Request_def Request_ToJsonObject_def Request_FromJsonObject_def optional_string_def jget_jobj)
  from only_rightful_requests_change_the_server [OF auth sample_reached [unfolded fresh_server_def] refl, of "Sends 1 sample_env ?j"]
  show ?thesis using req none s by auto
qed

end
