(* ===== verification/Tcp_Frames.thy ===== *)
theory Tcp_Frames
  imports Byte_Codec Messages Effects
begin

text \<open>
  Messages on a connection, \<open>libs/core/src/socket.cpp\<close> and \<open>libs/core/src/tcp_client.cpp\<close>. The kernel is
  a parameter: \<open>calls i\<close> is the number of bytes that the \<open>i\<close>-th call of \<open>send\<close> or \<open>recv\<close> can move, 0 when it
  fails. A direction of a connection is a pipe of bytes; a \<open>recv\<close> on an empty pipe is the end of the stream.
\<close>

section \<open>Sockets\<close>

record pipe =
  pi_bytes :: "byte list"
  pi_sends :: nat
  pi_recvs :: nat

definition new_pipe :: pipe where "new_pipe = \<lparr>pi_bytes = [], pi_sends = 0, pi_recvs = 0\<rparr>"

type_synonym sock = int

definition Sock_IsValid :: "sock \<Rightarrow> bool" where "Sock_IsValid fd \<longleftrightarrow> fd \<ge> 0"

text \<open>The loop that sends until all is sent, and the one that receives until the buffer is full.\<close>

function send_loop :: "(nat \<Rightarrow> nat) \<Rightarrow> byte list \<Rightarrow> pipe \<Rightarrow> bool \<times> pipe" where
  "send_loop calls dat p =
     (if dat = [] then (True, p)
      else
        let k = min (calls (pi_sends p)) (length dat);
            p' = p\<lparr>pi_sends := pi_sends p + 1\<rparr>
        in if k = 0 then (False, p') else send_loop calls (drop k dat) (p'\<lparr>pi_bytes := pi_bytes p' @ take k dat\<rparr>))"
  by pat_completeness auto
termination by (relation "measure (\<lambda>(calls, dat, p). length dat)") auto

declare send_loop.simps [simp del]

function recv_loop :: "(nat \<Rightarrow> nat) \<Rightarrow> nat \<Rightarrow> byte list \<Rightarrow> pipe \<Rightarrow> byte list option \<times> pipe" where
  "recv_loop calls n got p =
     (if n = 0 then (Some got, p)
      else
        let k = min (calls (pi_recvs p)) (min n (length (pi_bytes p)));
            p' = p\<lparr>pi_recvs := pi_recvs p + 1\<rparr>
        in if k = 0 then (None, p')
           else recv_loop calls (n - k) (got @ take k (pi_bytes p')) (p'\<lparr>pi_bytes := drop k (pi_bytes p')\<rparr>))"
  by pat_completeness auto
termination by (relation "measure (\<lambda>(calls, n, got, p). n)") auto

declare recv_loop.simps [simp del]

definition Sock_Send :: "(nat \<Rightarrow> nat) \<Rightarrow> sock \<Rightarrow> byte list \<Rightarrow> pipe \<Rightarrow> bool \<times> pipe" where
  "Sock_Send calls fd dat p = (if fd < 0 then (False, p) else send_loop calls dat p)"

definition Sock_Recv :: "(nat \<Rightarrow> nat) \<Rightarrow> sock \<Rightarrow> nat \<Rightarrow> pipe \<Rightarrow> byte list option \<times> pipe" where
  "Sock_Recv calls fd n p = (if fd < 0 then (None, p) else recv_loop calls n [] p)"

text \<open>The descriptor that \<open>socket\<close> gives, and whether the address is one and the connection is made.\<close>

record connect_outcome =
  co_fd :: int
  co_address :: bool
  co_connect :: bool

definition Sock_Connect :: "connect_outcome \<Rightarrow> sock \<Rightarrow> bool \<times> sock" where
  "Sock_Connect o' fd =
     (if Sock_IsValid fd then (False, fd)
      else if co_fd o' < 0 then (False, fd)
      else if \<not> co_address o' then (False, fd)
      else if \<not> co_connect o' then (False, fd)
      else (True, co_fd o'))"

definition Sock_Disconnect :: "sock \<Rightarrow> sock" where "Sock_Disconnect fd = -1"

section \<open>Messages\<close>

text \<open>The length in network byte order.\<close>

definition htonl :: "32 word \<Rightarrow> 32 word" where "htonl w = dec32 (rev (enc32 w))"
definition ntohl :: "32 word \<Rightarrow> 32 word" where "ntohl w = dec32 (rev (enc32 w))"

lemma ntohl_htonl [simp]: "ntohl (htonl w) = w"
  by (simp add: ntohl_def htonl_def enc32_dec32)

definition Tcp_Connect :: "connect_outcome \<Rightarrow> sock \<Rightarrow> bool \<times> sock" where
  "Tcp_Connect o' fd = (if Sock_IsValid fd then (False, fd) else Sock_Connect o' fd)"

definition Tcp_Send :: "(json \<Rightarrow> string result) \<Rightarrow> (nat \<Rightarrow> nat) \<Rightarrow> sock \<Rightarrow> json \<Rightarrow> (pipe, bool) st" where
  "Tcp_Send dump calls fd request =
     (if \<not> Sock_IsValid fd then sret False
      else sbind (slift (dump request)) (\<lambda>s p.
        if length s > 2 ^ 32 - 1 then (Inr False, p)
        else case Sock_Send calls fd (enc32 (htonl (word_of_nat (length s)))) p of
            (False, p) \<Rightarrow> (Inr False, p)
          | (True, p) \<Rightarrow>
              if s = [] then (Inr True, p)
              else (case Sock_Send calls fd (bytes_of s) p of (b, p) \<Rightarrow> (Inr b, p))))"

definition Tcp_Receive :: "(string \<Rightarrow> json option) \<Rightarrow> (nat \<Rightarrow> nat) \<Rightarrow> sock \<Rightarrow> pipe \<Rightarrow> json option \<times> pipe" where
  "Tcp_Receive prs calls fd p =
     (if \<not> Sock_IsValid fd then (None, p)
      else case Sock_Recv calls fd 4 p of
          (None, p) \<Rightarrow> (None, p)
        | (Some header, p) \<Rightarrow>
            let n = ntohl (dec32 header) in
            if n = 0 then (None, p)
            else (case Sock_Recv calls fd (unat n) p of
                (None, p) \<Rightarrow> (None, p)
              | (Some buffer, p) \<Rightarrow> (prs (string_of buffer), p)))"

definition Tcp_ReceiveRequest :: "(string \<Rightarrow> json option) \<Rightarrow> (nat \<Rightarrow> nat) \<Rightarrow> sock \<Rightarrow> (pipe, request option) st" where
  "Tcp_ReceiveRequest prs calls fd p =
     (case Tcp_Receive prs calls fd p of
        (None, p) \<Rightarrow> (Inr None, p)
      | (Some j, p) \<Rightarrow> (rmap Some (Request_FromJsonObject j), p))"

definition Tcp_ReceiveResponse :: "(string \<Rightarrow> json option) \<Rightarrow> (nat \<Rightarrow> nat) \<Rightarrow> sock \<Rightarrow> pipe \<Rightarrow> response option \<times> pipe" where
  "Tcp_ReceiveResponse prs calls fd p =
     (case Tcp_Receive prs calls fd p of (j, p) \<Rightarrow> (map_option Response_FromJsonObject j, p))"

definition Tcp_SendRequest :: "(json \<Rightarrow> string result) \<Rightarrow> (nat \<Rightarrow> nat) \<Rightarrow> sock \<Rightarrow> request \<Rightarrow> (pipe, bool) st" where
  "Tcp_SendRequest dump calls fd r = Tcp_Send dump calls fd (Request_ToJsonObject r)"

definition Tcp_SendResponse :: "(json \<Rightarrow> string result) \<Rightarrow> (nat \<Rightarrow> nat) \<Rightarrow> sock \<Rightarrow> response \<Rightarrow> (pipe, bool) st" where
  "Tcp_SendResponse dump calls fd r = Tcp_Send dump calls fd (Response_ToJsonObject r)"

section \<open>What the loops do\<close>

text \<open>A kernel whose calls all move something.\<close>

definition working :: "(nat \<Rightarrow> nat) \<Rightarrow> bool" where "working calls \<longleftrightarrow> (\<forall>i. calls i > 0)"

lemma send_all:
  assumes "working calls"
  shows "\<exists>p'. send_loop calls dat p = (True, p') \<and> pi_bytes p' = pi_bytes p @ dat"
proof (induction "length dat" arbitrary: dat p rule: less_induct)
  case less
  show ?case
  proof (cases "dat = []")
    case True
    then show ?thesis by (simp add: send_loop.simps)
  next
    case False
    let ?k = "min (calls (pi_sends p)) (length dat)" and ?p = "p\<lparr>pi_sends := pi_sends p + 1\<rparr>"
    have k: "0 < ?k" using assms False by (simp add: working_def)
    then have "length (drop ?k dat) < length dat" using False by simp
    from less [OF this, of "?p\<lparr>pi_bytes := pi_bytes ?p @ take ?k dat\<rparr>"] obtain p' where
      p': "send_loop calls (drop ?k dat) (?p\<lparr>pi_bytes := pi_bytes ?p @ take ?k dat\<rparr>) = (True, p')"
      "pi_bytes p' = (pi_bytes p @ take ?k dat) @ drop ?k dat" by auto
    have "send_loop calls dat p = (True, p')" using p'(1) k False by (subst send_loop.simps) (simp add: Let_def)
    then show ?thesis using p'(2) by (metis append_assoc append_take_drop_id)
  qed
qed

lemma recv_all:
  assumes "working calls" "n \<le> length (pi_bytes p)"
  shows "\<exists>p'. recv_loop calls n got p = (Some (got @ take n (pi_bytes p)), p') \<and> pi_bytes p' = drop n (pi_bytes p)"
  using assms(2)
proof (induction n arbitrary: got p rule: less_induct)
  case (less n)
  show ?case
  proof (cases "n = 0")
    case True
    then show ?thesis by (simp add: recv_loop.simps)
  next
    case False
    let ?k = "min (calls (pi_recvs p)) (min n (length (pi_bytes p)))" and ?p = "p\<lparr>pi_recvs := pi_recvs p + 1\<rparr>"
    have k: "0 < ?k" "?k \<le> n" using assms(1) False less.prems by (auto simp: working_def)
    let ?q = "?p\<lparr>pi_bytes := drop ?k (pi_bytes ?p)\<rparr>"
    have "n - ?k < n" "n - ?k \<le> length (pi_bytes ?q)" using k False less.prems by simp_all
    from less.IH [OF this, of "got @ take ?k (pi_bytes p)"] obtain p' where
      p': "recv_loop calls (n - ?k) (got @ take ?k (pi_bytes p)) ?q = (Some ((got @ take ?k (pi_bytes p)) @ take (n - ?k) (pi_bytes ?q)), p')"
      "pi_bytes p' = drop (n - ?k) (pi_bytes ?q)" by blast
    have "recv_loop calls n got p = recv_loop calls (n - ?k) (got @ take ?k (pi_bytes p)) ?q"
      unfolding recv_loop.simps [of calls n got p] Let_def if_not_P [OF False] if_not_P [OF gr_implies_not0 [OF k(1)]] by simp
    moreover have "take ?k (pi_bytes p) @ take (n - ?k) (drop ?k (pi_bytes p)) = take n (pi_bytes p)"
      using k(2) by (metis le_add_diff_inverse take_add)
    ultimately show ?thesis using p' k(2) by simp
  qed
qed

text \<open>A message that can be framed and read.\<close>

definition framed :: "(json \<Rightarrow> string result) \<Rightarrow> (string \<Rightarrow> json option) \<Rightarrow> json \<Rightarrow> bool" where
  "framed dump prs j \<longleftrightarrow> (\<exists>s. dump j = Inr s \<and> s \<noteq> [] \<and> length s < 2 ^ 32 \<and> prs s = Some j)"

definition frame :: "string \<Rightarrow> byte list" where
  "frame s = enc32 (htonl (word_of_nat (length s))) @ bytes_of s"

lemma send_frame_bytes:
  assumes "working calls" "0 \<le> fd" "dump j = Inr s" "length s < 2 ^ 32"
  shows "\<exists>p'. Tcp_Send dump calls fd j p = (Inr True, p') \<and> pi_bytes p' = pi_bytes p @ frame s"
proof -
  obtain p1 where p1: "send_loop calls (enc32 (htonl (word_of_nat (length s)))) p = (True, p1)"
    "pi_bytes p1 = pi_bytes p @ enc32 (htonl (word_of_nat (length s)))" using send_all [OF assms(1)] by blast
  obtain p2 where p2: "send_loop calls (bytes_of s) p1 = (True, p2)" "pi_bytes p2 = pi_bytes p1 @ bytes_of s"
    using send_all [OF assms(1)] by blast
  show ?thesis
  proof (cases "s = []")
    case True
    then have "Tcp_Send dump calls fd j p = (Inr True, p1)"
      using assms p1 by (simp add: Tcp_Send_def Sock_IsValid_def Sock_Send_def sbind_def slift_def)
    then show ?thesis using p1(2) True by (simp add: frame_def bytes_of_def)
  next
    case False
    then have "Tcp_Send dump calls fd j p = (Inr True, p2)"
      using assms p1 p2 by (simp add: Tcp_Send_def Sock_IsValid_def Sock_Send_def sbind_def slift_def)
    then show ?thesis using p1(2) p2(2) by (simp add: frame_def)
  qed
qed

lemma receive_frame:
  assumes "working calls" "0 \<le> fd" "s \<noteq> []" "length s < 2 ^ 32" "pi_bytes p = frame s @ rest"
  shows "\<exists>p'. Tcp_Receive prs calls fd p = (prs s, p') \<and> pi_bytes p' = rest"
proof -
  let ?h = "enc32 (htonl (word_of_nat (length s)))"
  have len: "4 \<le> length (pi_bytes p)" "take 4 (pi_bytes p) = ?h" "drop 4 (pi_bytes p) = bytes_of s @ rest"
    using assms(5) by (simp_all add: frame_def)
  obtain p1 where p1: "recv_loop calls 4 [] p = (Some ?h, p1)" "pi_bytes p1 = bytes_of s @ rest"
    using recv_all [OF assms(1) len(1), of "[]"] len(2,3) by auto
  have n: "unat (ntohl (dec32 ?h)) = length s" using assms(4) by (simp add: unat_of_nat)
  then have nz: "ntohl (dec32 ?h) \<noteq> 0" using assms(3) by (metis length_0_conv unat_0)
  have "length s \<le> length (pi_bytes p1)" "take (length s) (pi_bytes p1) = bytes_of s" "drop (length s) (pi_bytes p1) = rest"
    using p1(2) by simp_all
  then obtain p2 where p2: "recv_loop calls (length s) [] p1 = (Some (bytes_of s), p2)" "pi_bytes p2 = rest"
    using recv_all [OF assms(1), of "length s" p1 "[]"] by auto
  have "Tcp_Receive prs calls fd p = (prs s, p2)"
    using assms(2) p1(1) p2(1) n nz by (simp add: Tcp_Receive_def Sock_IsValid_def Sock_Recv_def Let_def del: ntohl_htonl dec32_enc32)
  then show ?thesis using p2(2) by blast
qed

section \<open>The property\<close>

fun send_messages :: "(json \<Rightarrow> string result) \<Rightarrow> (nat \<Rightarrow> nat) \<Rightarrow> sock \<Rightarrow> json list \<Rightarrow> (pipe, bool) st" where
  "send_messages dump calls fd [] = sret True"
| "send_messages dump calls fd (j # js) =
     sbind (Tcp_Send dump calls fd j) (\<lambda>b. if b then send_messages dump calls fd js else sret False)"

fun receive_messages :: "(string \<Rightarrow> json option) \<Rightarrow> (nat \<Rightarrow> nat) \<Rightarrow> sock \<Rightarrow> nat \<Rightarrow> pipe \<Rightarrow> json option list \<times> pipe" where
  "receive_messages prs calls fd 0 p = ([], p)"
| "receive_messages prs calls fd (Suc n) p =
     (case Tcp_Receive prs calls fd p of (j, p) \<Rightarrow> case receive_messages prs calls fd n p of (js, p) \<Rightarrow> (j # js, p))"

lemma messages_sent:
  assumes "working calls" "0 \<le> fd" "\<forall>j \<in> set js. framed dump prs j"
  shows "\<exists>p'. send_messages dump calls fd js p = (Inr True, p') \<and> pi_bytes p' = pi_bytes p @ concat (map (\<lambda>j. case dump j of Inr s \<Rightarrow> frame s | Inl _ \<Rightarrow> []) js)"
  using assms(3)
proof (induction js arbitrary: p)
  case (Cons j js)
  obtain s where s: "dump j = Inr s" "length s < 2 ^ 32" using Cons.prems by (auto simp: framed_def)
  obtain p1 where p1: "Tcp_Send dump calls fd j p = (Inr True, p1)" "pi_bytes p1 = pi_bytes p @ frame s"
    using send_frame_bytes [where dump = dump, OF assms(1,2) s] by blast
  obtain p2 where "send_messages dump calls fd js p1 = (Inr True, p2)"
    "pi_bytes p2 = pi_bytes p1 @ concat (map (\<lambda>j. case dump j of Inr s \<Rightarrow> frame s | Inl _ \<Rightarrow> []) js)"
    using Cons.IH [of p1] Cons.prems by auto
  then show ?case using p1 s(1) by (simp add: sbind_def)
qed (simp add: sret_def)

lemma messages_received:
  assumes "working calls" "0 \<le> fd" "\<forall>j \<in> set js. framed dump prs j"
    and "pi_bytes p = concat (map (\<lambda>j. case dump j of Inr s \<Rightarrow> frame s | Inl _ \<Rightarrow> []) js)"
  shows "fst (receive_messages prs calls fd (length js) p) = map Some js"
  using assms(3,4)
proof (induction js arbitrary: p)
  case (Cons j js)
  obtain s where s: "dump j = Inr s" "s \<noteq> []" "length s < 2 ^ 32" "prs s = Some j" using Cons.prems(1) by (auto simp: framed_def)
  let ?rest = "concat (map (\<lambda>j. case dump j of Inr s \<Rightarrow> frame s | Inl _ \<Rightarrow> []) js)"
  have "pi_bytes p = frame s @ ?rest" using Cons.prems(2) s(1) by simp
  then obtain p1 where p1: "Tcp_Receive prs calls fd p = (Some j, p1)" "pi_bytes p1 = ?rest"
    using receive_frame [OF assms(1,2) s(2,3), of p ?rest prs] s(4) by auto
  have "fst (receive_messages prs calls fd (length js) p1) = map Some js" using Cons.IH [OF _ p1(2)] Cons.prems(1) by simp
  then show ?case using p1(1) by (auto split: prod.split)
qed simp

text \<open>
  C25: messages arrive complete and in order. However the kernel cuts what is sent and what is received,
  any sequence of messages that the JSON library can print and read, each shorter than 2 to the 32 bytes,
  is sent successfully and received as the same sequence; a sender without a connection sends nothing.
\<close>

theorem messages_arrive_in_order:
  assumes "working sends" "working recvs" "0 \<le> fd" "0 \<le> fd'" "\<forall>j \<in> set js. framed dump prs j"
  shows "\<exists>p. send_messages dump sends fd js new_pipe = (Inr True, p) \<and>
      fst (receive_messages prs recvs fd' (length js) p) = map Some js \<and>
    (\<forall>q j. Tcp_Send dump sends (Sock_Disconnect fd) j q = (Inr False, q))"
proof -
  obtain p where p: "send_messages dump sends fd js new_pipe = (Inr True, p)"
    "pi_bytes p = concat (map (\<lambda>j. case dump j of Inr s \<Rightarrow> frame s | Inl _ \<Rightarrow> []) js)"
    using messages_sent [OF assms(1,3,5), of new_pipe] by (auto simp: new_pipe_def)
  show ?thesis using p(1) messages_received [OF assms(2,4,5) p(2)]
    by (simp add: Tcp_Send_def Sock_IsValid_def Sock_Disconnect_def sret_def)
qed

definition bool_dump :: "json \<Rightarrow> string result" where
  "bool_dump j = (case j of JBool b \<Rightarrow> Inr (if b then ''true'' else ''false'') | _ \<Rightarrow> Inl (Json_Error ''type_error.316''))"

definition bool_prs :: "string \<Rightarrow> json option" where
  "bool_prs s = (if s = ''true'' then Some (JBool True) else if s = ''false'' then Some (JBool False) else None)"

theorem messages_arrive_in_order_witness:
  "\<exists>p. send_messages bool_dump (\<lambda>_. 1) 3 [JBool True, JBool False] new_pipe = (Inr True, p) \<and>
     fst (receive_messages bool_prs (\<lambda>i. i + 1) 4 2 p) = [Some (JBool True), Some (JBool False)]"
proof -
  have w: "working (\<lambda>_. 1)" "working (\<lambda>i. i + 1)" by (simp_all add: working_def)
  have f: "\<forall>j \<in> set [JBool True, JBool False]. framed bool_dump bool_prs j" by (simp add: framed_def bool_dump_def bool_prs_def)
  show ?thesis using messages_arrive_in_order [OF w, of 3 4, OF _ _ f] by (auto simp: numeral_2_eq_2)
qed

end
