(* ===== verification/Client_Reader.thy ===== *)
theory Client_Reader
  imports Sql_Lexer
begin

text \<open>
  How the client cuts its input into commands, \<open>apps/client/src/reader.cpp\<close>: lines are collected until
  they hold a semicolon outside a string. A stream is the list of the lines that are left to read;
  the prompts of the console are left out.
\<close>

section \<open>Text\<close>

definition trim_char :: "char \<Rightarrow> bool" where
  "trim_char c \<longleftrightarrow> c = CHR '' '' \<or> c = CHR 0x09 \<or> c = CHR 0x0D \<or> c = CHR 0x0A"

definition Trim :: "string \<Rightarrow> string" where
  "Trim s = rev (dropWhile trim_char (rev (dropWhile trim_char s)))"

definition BACKSLASH :: char where "BACKSLASH = CHR 0x5C"

text \<open>The loop of \<open>EndsStatement\<close>; \<open>before\<close> is the character before, if there is one.\<close>

fun ends_loop :: "char option \<Rightarrow> bool \<Rightarrow> string \<Rightarrow> bool" where
  "ends_loop before in_string [] = False"
| "ends_loop before in_string (c # cs) =
     (let in_string = (if c = QUOTE \<and> before \<noteq> Some BACKSLASH then \<not> in_string else in_string)
      in if \<not> in_string \<and> c = CHR '';'' then True else ends_loop (Some c) in_string cs)"

definition EndsStatement :: "string \<Rightarrow> bool" where
  "EndsStatement s = ends_loop None False s"

definition blank :: "string \<Rightarrow> bool" where
  "blank s \<longleftrightarrow> Trim s = []"

definition add_line :: "string \<Rightarrow> string \<Rightarrow> string" where
  "add_line command line = (if command = [] then line else command @ [CHR 0x0A] @ line)"

section \<open>Reading from a file\<close>

fun file_loop :: "string \<Rightarrow> string list \<Rightarrow> string option \<times> string list" where
  "file_loop command [] = (let trimmed = Trim command in (if trimmed = [] then None else Some trimmed, []))"
| "file_loop command (line # lines) =
     (if blank line \<and> command = [] then file_loop command lines
      else let command = add_line command line
           in if EndsStatement command then (Some (Trim command), lines) else file_loop command lines)"

definition File_ReadCommand :: "string list \<Rightarrow> string option \<times> string list" where
  "File_ReadCommand lines = file_loop [] lines"

definition File_HasMore :: "string list \<Rightarrow> bool" where
  "File_HasMore lines = list_ex (\<lambda>l. \<not> list_all trim_char l) lines"

section \<open>Reading from the console\<close>

text \<open>The flag is \<open>std::cin.eof()\<close>, set when a line was asked for and there was none.\<close>

fun console_loop :: "string \<Rightarrow> string list \<Rightarrow> string option \<times> string list \<times> bool" where
  "console_loop command [] = (if command = [] then None else Some (Trim command), [], True)"
| "console_loop command (line # lines) =
     (if blank line \<and> command = [] then (Some [], lines, False)
      else let command = add_line command line
           in if EndsStatement command then (Some (Trim command), lines, False) else console_loop command lines)"

definition Console_ReadCommand :: "string list \<Rightarrow> string option \<times> string list \<times> bool" where
  "Console_ReadCommand lines = console_loop [] lines"

section \<open>Termination of the reading\<close>

lemma blank_iff: "blank s \<longleftrightarrow> list_all trim_char s"
proof -
  have "dropWhile trim_char (rev (dropWhile trim_char s)) = [] \<longleftrightarrow> (\<forall>c \<in> set (dropWhile trim_char s). trim_char c)" by auto
  also have "\<dots> \<longleftrightarrow> list_all trim_char s"
    by (induction s) (auto simp: list_all_iff)
  finally show ?thesis by (simp add: blank_def Trim_def)
qed

lemma file_loop_shorter: "file_loop command lines = (c, lines') \<Longrightarrow> lines \<noteq> [] \<Longrightarrow> length lines' < length lines"
proof (induction command lines rule: file_loop.induct)
  case (2 command line lines)
  show ?case
  proof (cases "blank line \<and> command = []")
    case True
    then show ?thesis using 2 by (cases lines) (auto simp: Let_def split: if_splits)
  next
    case False
    then show ?thesis using 2 by (cases lines) (auto simp: Let_def split: if_splits)
  qed
qed simp

lemma console_loop_shorter: "console_loop command lines = (c, lines', eof) \<Longrightarrow> eof \<and> lines' = [] \<or> \<not> eof \<and> length lines' < length lines"
proof (induction command lines rule: console_loop.induct)
  case (2 command line lines)
  show ?case
  proof (cases "blank line \<and> command = []")
    case True
    then show ?thesis using 2(2) by simp
  next
    case False
    then show ?thesis using 2 by (auto simp: Let_def split: if_splits)
  qed
qed simp

section \<open>The client and the lexer agree\<close>

text \<open>A semicolon outside the string literals of the language, which have no escapes.\<close>

fun outside :: "bool \<Rightarrow> string \<Rightarrow> bool" where
  "outside in_string [] = False"
| "outside in_string (c # cs) =
     (if c = QUOTE then outside (\<not> in_string) cs else \<not> in_string \<and> c = CHR '';'' \<or> outside in_string cs)"

lemma ends_loop_outside: "BACKSLASH \<notin> set s \<Longrightarrow> before \<noteq> Some BACKSLASH \<Longrightarrow> ends_loop before in_string s = outside in_string s"
  by (induction s arbitrary: before in_string) (auto simp: Let_def QUOTE_def)

definition is_semicolon :: "token \<Rightarrow> bool" where
  "is_semicolon t \<longleftrightarrow> tok_type t = Punctuation \<and> tok_value t = '';''"

lemma outside_skip: "(\<And>c. p c \<Longrightarrow> c \<noteq> QUOTE \<and> c \<noteq> CHR '';'') \<Longrightarrow> outside False (dropWhile p s) = outside False s"
  by (induction s) auto

lemma outside_string: "outside True s = (case dropWhile (\<lambda>c. c \<noteq> QUOTE) s of [] \<Rightarrow> False | _ # r \<Rightarrow> outside False r)"
  by (induction s) auto

lemma reader_char_classes:
  "is_space c \<Longrightarrow> c \<noteq> QUOTE \<and> c \<noteq> CHR '';''" "IsDigit c \<Longrightarrow> c \<noteq> QUOTE \<and> c \<noteq> CHR '';''"
  "is_alnum c \<or> c = CHR ''_'' \<Longrightarrow> c \<noteq> QUOTE \<and> c \<noteq> CHR '';''" "IsOperatorChar c \<Longrightarrow> c \<noteq> QUOTE \<and> c \<noteq> CHR '';''"
  "\<not> IsPunctuationChar c \<Longrightarrow> c \<noteq> CHR '';''"
  by (auto simp: is_space_def IsDigit_def is_alnum_def IsAlpha_def byte_in_def QUOTE_def IsOperatorChar_def IsPunctuationChar_def)

lemma NextToken_outside:
  assumes "source (SkipWhitespace lx) = c # cs" "NextToken lx = (t, lx')"
  shows "outside False (c # cs) \<longleftrightarrow> is_semicolon t \<or> outside False (source lx')"
proof -
  let ?lx = "SkipWhitespace lx"
  note src = assms(1)
  have pk: "Peek ?lx = c" using src by simp
  have split: "outside False (c # cs) \<longleftrightarrow> is_semicolon (fst x) \<or> outside False (source (snd x))" if "x = NextToken lx" for x
  proof -
    consider (string) "c = QUOTE" | (number) "c \<noteq> QUOTE" "IsDigit c"
      | (word) "c \<noteq> QUOTE" "\<not> IsDigit c" "IsAlpha c \<or> c = CHR ''_''"
      | (operator) "c \<noteq> QUOTE" "\<not> IsDigit c" "\<not> (IsAlpha c \<or> c = CHR ''_'')" "IsOperatorChar c"
      | (other) "c \<noteq> QUOTE" "\<not> IsDigit c" "\<not> (IsAlpha c \<or> c = CHR ''_'')" "\<not> IsOperatorChar c" by blast
    then show ?thesis
    proof cases
      case string
      then have x: "x = ScanStringLiteral ?lx" using that src pk by (simp add: NextToken_def Let_def del: SkipWhitespace_source)
      obtain v lx1 where t: "take_while (\<lambda>c. c \<noteq> QUOTE) (Advance ?lx) = (v, lx1)" by fastforce
      then have s1: "source lx1 = dropWhile (\<lambda>c. c \<noteq> QUOTE) cs" using take_while_pair [OF t] src by simp
      have rest: "outside False (c # cs) = (case source lx1 of [] \<Rightarrow> False | _ # r \<Rightarrow> outside False r)"
        using string outside_string [of cs] s1 by simp
      show ?thesis
      proof (cases "source lx1")
        case Nil
        then have "x = (MakeToken ?lx Invalid v, lx1)" using x t by (simp add: ScanStringLiteral_def)
        then show ?thesis unfolding rest Nil by (simp add: is_semicolon_def Nil)
      next
        case (Cons d r)
        then have "x = (MakeToken ?lx StringLiteral v, Advance lx1)" using x t by (simp add: ScanStringLiteral_def)
        then show ?thesis unfolding rest Cons by (simp add: is_semicolon_def Cons)
      qed
    next
      case number
      then have x: "x = ScanNumber ?lx" using that src pk by (simp add: NextToken_def Let_def del: SkipWhitespace_source)
      have "\<not> is_semicolon (fst x)" using x by (simp add: ScanNumber_def is_semicolon_def split: prod.split)
      then show ?thesis using scan_source(1) [OF src] outside_skip [of IsDigit "c # cs"] reader_char_classes(2) x by simp
    next
      case word
      then have x: "x = ScanIdentifierOrKeyword ?lx" using that src pk by (simp add: NextToken_def Let_def del: SkipWhitespace_source)
      have "\<not> is_semicolon (fst x)" using x by (simp add: ScanIdentifierOrKeyword_def is_semicolon_def Let_def split: prod.split)
      then show ?thesis using scan_source(2) [OF src] outside_skip [of "\<lambda>c. is_alnum c \<or> c = CHR ''_''" "c # cs"] reader_char_classes(3) x by simp
    next
      case operator
      then have x: "x = ScanOperator ?lx" using that src pk by (simp add: NextToken_def Let_def del: SkipWhitespace_source)
      have no: "\<not> is_semicolon (fst x)" using x by (simp add: ScanOperator_def is_semicolon_def Let_def)
      have "outside False (c # cs) = outside False cs" using operator reader_char_classes(4) by simp
      moreover have "source (snd x) = cs \<or> (\<exists>ds. cs = CHR ''='' # ds \<and> source (snd x) = ds)"
        using x src by (cases cs) (auto simp: ScanOperator_def Let_def Peek_def simp del: SkipWhitespace_source)
      then have "outside False (source (snd x)) = outside False cs"
        by (elim disjE exE conjE) (simp_all add: QUOTE_def)
      ultimately show ?thesis using no by simp
    next
      case other
      then have x: "fst x = MakeToken ?lx (if IsPunctuationChar c then Punctuation else Invalid) [c]" "source (snd x) = cs"
        using that src pk by (simp_all add: NextToken_def Let_def ScanPunctuation_def del: SkipWhitespace_source)
      have "outside False (c # cs) \<longleftrightarrow> c = CHR '';'' \<or> outside False cs" using other by simp
      moreover have "is_semicolon (fst x) \<longleftrightarrow> c = CHR '';''" using x(1) reader_char_classes(5) by (auto simp: is_semicolon_def)
      ultimately show ?thesis using x(2) by simp
    qed
  qed
  from split [OF refl] show ?thesis unfolding assms(2) by simp
qed

lemma Tokenize_outside: "list_ex is_semicolon (Tokenize lx) = outside False (source lx)"
proof (induction lx rule: Tokenize.induct)
  case (1 lx)
  obtain t lx' where n: "NextToken lx = (t, lx')" by fastforce
  have skip: "outside False (source lx) = outside False (source (SkipWhitespace lx))"
    using outside_skip [of is_space "source lx"] reader_char_classes(1) by simp
  show ?case
  proof (cases "source (SkipWhitespace lx)")
    case Nil
    then have "tok_type t = EndOfFile" using n by (simp add: NextToken_def Let_def) (metis fst_conv token_of_MakeToken(1))
    moreover have "\<not> outside False (source lx)" unfolding skip Nil by simp
    ultimately show ?thesis using n by (subst Tokenize.simps) (simp add: is_semicolon_def)
  next
    case (Cons c cs)
    have step: "outside False (source lx) \<longleftrightarrow> is_semicolon t \<or> outside False (source lx')"
      using NextToken_outside [OF Cons n] skip Cons by (simp del: SkipWhitespace_source)
    have "tok_type t \<noteq> EndOfFile"
    proof -
      have "tok_type (fst (NextToken lx)) \<noteq> EndOfFile"
        using Cons by (simp add: NextToken_def Let_def ScanStringLiteral_def ScanNumber_def ScanIdentifierOrKeyword_def
            ScanOperator_def ScanPunctuation_def split: prod.splits del: SkipWhitespace_source)
      then show ?thesis using n by simp
    qed
    then show ?thesis using 1 n step by (subst Tokenize.simps) simp
  qed
qed


text \<open>With a backslash before the closing quote they differ: the language has no escapes, the client has.\<close>

lemma client_waits_on_a_backslash:
  "\<not> EndsStatement (CHR ''='' # QUOTE # BACKSLASH # QUOTE # '';'')"
  "list_ex is_semicolon (Tokenize (new_lexer (CHR ''='' # QUOTE # BACKSLASH # QUOTE # '';'')))"
  unfolding Tokenize_outside
  by (simp_all add: EndsStatement_def QUOTE_def BACKSLASH_def Let_def new_lexer_def)


end
