(* ===== verification/Client_Renderer.thy ===== *)
theory Client_Renderer
  imports Messages
begin

text \<open>
  What the client prints, \<open>apps/client/src/renderer.cpp\<close>, as text. Parsing and printing JSON are the
  parameters \<open>prs\<close>, \<open>dump\<close> and \<open>dump2\<close>, the last with an indentation of two.
\<close>

section \<open>Lines\<close>

definition RESET :: string where "RESET = CHR 0x1B # ''[0m''"
definition RED :: string where "RED = CHR 0x1B # ''[31m''"
definition GREEN :: string where "GREEN = CHR 0x1B # ''[32m''"
definition CYAN :: string where "CYAN = CHR 0x1B # ''[36m''"

definition NL :: string where "NL = [CHR 0x0A]"

definition RenderWelcome :: string where
  "RenderWelcome = CYAN @ ''QuasarDB Client v1.0'' @ RESET @ NL @
     ''Type your SQL queries and press Enter. End with '' @ quoted '';'' @ NL @ NL"

definition RenderError :: "string \<Rightarrow> string" where
  "RenderError message = RED @ ''Error: '' @ message @ RESET @ NL"

definition RenderAsyncSubmitted :: "string \<Rightarrow> string" where
  "RenderAsyncSubmitted task_id = CYAN @ ''Async query submitted'' @ RESET @ NL @ ''Task ID: '' @ task_id @ NL @
     ''Polling for completion...'' @ NL"

definition RenderPollingProgress :: "char \<Rightarrow> nat \<Rightarrow> string" where
  "RenderPollingProgress spinner attempt =
     CHR 0x0D # ''  ['' @ [spinner] @ ''] Waiting... (attempt '' @ show_nat attempt @ '')''"

section \<open>Tables\<close>

definition strip_quotes :: "string \<Rightarrow> string" where
  "strip_quotes s = (if s \<noteq> [] \<and> hd s = CHR 0x22 \<and> last s = CHR 0x22 then take (length s - 2) (tl s) else s)"

text \<open>\<open>row[column]\<close> of a constant object asserts that the member exists; a row that is no object throws.\<close>

definition cell_text :: "(json \<Rightarrow> string) \<Rightarrow> json \<Rightarrow> string \<Rightarrow> string result" where
  "cell_text dump row column =
     (case row of
        JObject kvs \<Rightarrow>
          (case map_of kvs column of
             None \<Rightarrow> Inl (Assert_Failed ''it != m_value.object->end()'')
           | Some v \<Rightarrow> Inr (strip_quotes (if v = JNull then ''NULL'' else dump v)))
      | _ \<Rightarrow> Inl (Json_Error ''type_error.305''))"

definition row_cells :: "(json \<Rightarrow> string) \<Rightarrow> string list \<Rightarrow> json \<Rightarrow> string list result" where
  "row_cells dump columns row = rmapM (cell_text dump row) columns"

definition widths :: "string list \<Rightarrow> string list list \<Rightarrow> nat list" where
  "widths columns rows = fold (\<lambda>cells ws. map2 (\<lambda>w c. max w (length c)) ws cells) rows (map length columns)"

definition pad :: "nat \<Rightarrow> string \<Rightarrow> string" where
  "pad w s = s @ replicate (w - length s) (CHR '' '')"

definition table_line :: "nat list \<Rightarrow> string list \<Rightarrow> string" where
  "table_line ws cells = concat (map2 (\<lambda>w c. ''| '' @ pad w c @ '' '') ws cells) @ ''|'' @ NL"

definition rule_line :: "nat list \<Rightarrow> string" where
  "rule_line ws = concat (map (\<lambda>w. ''+-'' @ replicate w (CHR ''-'') @ ''-'') ws) @ ''+'' @ NL"

definition table_text :: "(json \<Rightarrow> string) \<Rightarrow> string list \<Rightarrow> json list \<Rightarrow> string result" where
  "table_text dump columns rows =
     rmap (\<lambda>cells. let ws = widths columns cells in
         NL @ table_line ws columns @ rule_line ws @ concat (map (table_line ws) cells) @ NL @
         show_nat (length rows) @ '' row(s) returned'' @ NL)
       (rmapM (row_cells dump columns) rows)"

definition RenderTable :: "(string \<Rightarrow> json option) \<Rightarrow> (json \<Rightarrow> string) \<Rightarrow> (json \<Rightarrow> string) \<Rightarrow> string \<Rightarrow> string result" where
  "RenderTable prs dump dump2 dat =
     (case prs dat of
        None \<Rightarrow> Inr (dat @ NL)
      | Some parsed \<Rightarrow>
          (case parsed of
             JArray (JObject kvs # rows) \<Rightarrow>
               (case table_text dump (map fst kvs) (JObject kvs # rows) of
                  Inl (Json_Error _) \<Rightarrow> Inr (''Data: '' @ dat @ NL)
                | r \<Rightarrow> r)
           | _ \<Rightarrow> Inr (dump2 parsed @ NL)))"

definition RenderResponse :: "(string \<Rightarrow> json option) \<Rightarrow> (json \<Rightarrow> string) \<Rightarrow> (json \<Rightarrow> string) \<Rightarrow> response \<Rightarrow> string result" where
  "RenderResponse prs dump dump2 r =
     (if IsError r then Inr (RenderError (rsp_message r))
      else
        let dat = GetData dump r; line = GREEN @ rsp_message r @ RESET @ NL in
        if dat \<noteq> [] \<and> dat \<noteq> [CHR 0x22, CHR 0x22] then rmap ((@) line) (RenderTable prs dump dump2 dat) else Inr line)"

section \<open>The table is aligned\<close>

lemma fold_widths_length:
  "\<forall>cells \<in> set rows. length cells = length ws \<Longrightarrow>
    length (fold (\<lambda>cells ws. map2 (\<lambda>w c. max w (length c)) ws cells) rows ws) = length ws"
  by (induction rows arbitrary: ws) auto

lemma widths_length: "\<forall>cells \<in> set rows. length cells = length columns \<Longrightarrow> length (widths columns rows) = length columns"
  using fold_widths_length [of rows "map length columns"] by (simp add: widths_def)

text \<open>Every cell and every title fits in its column.\<close>

lemma widths_fit:
  assumes "\<forall>cells \<in> set rows. length cells = length ws" "i < length ws"
  shows "ws ! i \<le> fold (\<lambda>cells ws. map2 (\<lambda>w c. max w (length c)) ws cells) rows ws ! i"
    and "cells \<in> set rows \<Longrightarrow> length (cells ! i) \<le> fold (\<lambda>cells ws. map2 (\<lambda>w c. max w (length c)) ws cells) rows ws ! i"
proof -
  let ?step = "\<lambda>cells ws. map2 (\<lambda>w c. max w (length c)) ws cells"
  have "ws ! i \<le> fold ?step rows ws ! i \<and> (\<forall>cells \<in> set rows. length (cells ! i) \<le> fold ?step rows ws ! i)"
    using assms
  proof (induction rows arbitrary: ws)
    case (Cons r rows)
    have len: "length (?step r ws) = length ws" using Cons.prems(1) by simp
    have at: "?step r ws ! i = max (ws ! i) (length (r ! i))" using Cons.prems by simp
    have "?step r ws ! i \<le> fold ?step rows (?step r ws) ! i \<and> (\<forall>cells \<in> set rows. length (cells ! i) \<le> fold ?step rows (?step r ws) ! i)"
      using Cons.IH [of "?step r ws"] Cons.prems len by simp
    then show ?case unfolding at by auto
  qed simp
  then show "ws ! i \<le> fold ?step rows ws ! i" "cells \<in> set rows \<Longrightarrow> length (cells ! i) \<le> fold ?step rows ws ! i" by blast+
qed

lemma line_length:
  assumes "length cells = length ws" "\<And>i. i < length ws \<Longrightarrow> length (cells ! i) \<le> ws ! i"
  shows "length (table_line ws cells) = length (rule_line ws)"
proof -
  have "length (concat (map2 (\<lambda>w c. ''| '' @ pad w c @ '' '') ws cells)) =
      length (concat (map (\<lambda>w. ''+-'' @ replicate w (CHR ''-'') @ ''-'') ws))"
    using assms
  proof (induction ws cells rule: list_induct2')
    case (4 w ws c cells)
    have "length c \<le> w" using "4.prems"(2) [of 0] by simp
    moreover have "length (cells ! i) \<le> ws ! i" if "i < length ws" for i using "4.prems"(2) [of "Suc i"] that by simp
    ultimately show ?case using 4 by (simp add: pad_def)
  qed simp_all
  then show ?thesis by (simp add: table_line_def rule_line_def)
qed

text \<open>All lines of a printed table have the same length, that of the rule under its titles.\<close>

lemma table_is_aligned:
  assumes "\<forall>cells \<in> set rows. length cells = length columns" "cells \<in> set (columns # rows)"
  shows "length (table_line (widths columns rows) cells) = length (rule_line (widths columns rows))"
proof (rule line_length)
  have all: "\<forall>cells \<in> set rows. length cells = length (map length columns)" using assms(1) by simp
  show "length cells = length (widths columns rows)" using assms widths_length by auto
  show "length (cells ! i) \<le> widths columns rows ! i" if "i < length (widths columns rows)" for i
  proof -
    have i: "i < length (map length columns)" using that widths_length assms(1) by simp
    show ?thesis using widths_fit [OF all i] assms(2) i by (auto simp: widths_def)
  qed
qed

end
