(* ===== verification/Client_App.thy ===== *)
theory Client_App
  imports Client_Reader Client_Renderer Statement_Router
begin

text \<open>
  The client, \<open>apps/client/src/application.cpp\<close>: it prepares a session, turns commands into requests,
  sends them one after the other and prints the answers; it polls tasks that run in the background. The
  network is what happens to a request that is sent; the terminal is the text printed and the lines left.
\<close>

section \<open>State\<close>

record 'w client =
  cl_token :: string
  cl_world :: 'w
  cl_stdin :: "string list"
  cl_output :: string

record 'w client_env =
  ce_exchange :: "request \<Rightarrow> 'w \<Rightarrow> reply \<times> 'w"
  ce_prs :: "string \<Rightarrow> json option"
  ce_dump :: "json \<Rightarrow> string"
  ce_dump2 :: "json \<Rightarrow> string"

definition print_text :: "string \<Rightarrow> ('w client, unit) st" where
  "print_text s = supd (\<lambda>c. c\<lparr>cl_output := cl_output c @ s\<rparr>)"

definition render :: "'w client_env \<Rightarrow> response \<Rightarrow> ('w client, unit) st" where
  "render env r = sbind (slift (RenderResponse (ce_prs env) (ce_dump env) (ce_dump2 env) r)) print_text"

definition getline :: "('w client, string option) st" where
  "getline c = (case cl_stdin c of [] \<Rightarrow> (Inr None, c) | l # ls \<Rightarrow> (Inr (Some l), c\<lparr>cl_stdin := ls\<rparr>))"

definition exchange :: "'w client_env \<Rightarrow> request \<Rightarrow> ('w client, reply) st" where
  "exchange env req c = (case ce_exchange env req (cl_world c) of (r, w) \<Rightarrow> (Inr r, c\<lparr>cl_world := w\<rparr>))"

section \<open>Requests\<close>

text \<open>\<open>input >> word\<close>: the next word and what follows it.\<close>

definition next_word :: "string \<Rightarrow> string \<times> string" where
  "next_word s = (let s = dropWhile is_space s in (takeWhile (\<lambda>c. \<not> is_space c) s, dropWhile (\<lambda>c. \<not> is_space c) s))"

definition strip_semicolon :: "string \<Rightarrow> string" where
  "strip_semicolon s = (if s \<noteq> [] \<and> last s = CHR '';'' then butlast s else s)"

definition command_word :: "string \<Rightarrow> string" where
  "command_word command = strip_semicolon (map to_upper (fst (next_word command)))"

definition unquote :: "string \<Rightarrow> string" where
  "unquote s = (if length s \<ge> 2 \<and> hd s = QUOTE \<and> last s = QUOTE then butlast (tl s) else s)"

definition with_token :: "string \<Rightarrow> request \<Rightarrow> request" where
  "with_token token r = (if token = [] then r else Req_Token token r)"

definition BuildRequest :: "string \<Rightarrow> string \<Rightarrow> request" where
  "BuildRequest token command =
     (let (action, rest) = next_word command; action = strip_semicolon (map to_upper action) in
      if action = ''LOGIN'' then
        let (username, rest) = next_word rest; (password, _) = next_word rest
        in Req_Login username (unquote (strip_semicolon password))
      else if action = ''TELEMETRY'' then with_token token Req_Telemetry
      else with_token token (Req_Query command))"

section \<open>Answers\<close>

definition SendAndReceive :: "'w client_env \<Rightarrow> request \<Rightarrow> ('w client, response option) st" where
  "SendAndReceive env req =
     sbind (exchange env req) (\<lambda>r. case r of
         Not_Sent \<Rightarrow> sbind (print_text (RenderError ''Failed to send request'')) (\<lambda>_. sret None)
       | No_Reply \<Rightarrow> sret None
       | Answer r \<Rightarrow> sret (Some r))"

definition HandleLoginResponse :: "'w client_env \<Rightarrow> response \<Rightarrow> ('w client, unit) st" where
  "HandleLoginResponse env r =
     sbind (supd (\<lambda>c. if IsSuccess r then (case jget (rsp_data r) ''token'' of Some (JString t) \<Rightarrow> c\<lparr>cl_token := t\<rparr> | _ \<Rightarrow> c) else c))
       (\<lambda>_. render env r)"

definition spinner :: "nat \<Rightarrow> char" where
  "spinner i = [CHR ''|'', CHR ''/'', CHR ''-'', BACKSLASH] ! (i mod 4)"

definition max_attempts :: nat where "max_attempts = 600"

text \<open>The loop of \<open>PollTask\<close> with \<open>n\<close> attempts left; the pauses between them are not modelled.\<close>

fun poll_loop :: "'w client_env \<Rightarrow> string \<Rightarrow> nat \<Rightarrow> ('w client, response option) st" where
  "poll_loop env task_id 0 = sret None"
| "poll_loop env task_id (Suc n) =
     sbind (sget cl_token) (\<lambda>token.
     sbind (exchange env (with_token token (Req_CheckTask task_id))) (\<lambda>r. case r of
         Answer r \<Rightarrow>
           if IsPending r then
             sbind (print_text (RenderPollingProgress (spinner (max_attempts - Suc n)) (max_attempts - n)))
               (\<lambda>_. poll_loop env task_id n)
           else sret (Some r)
       | _ \<Rightarrow> sret None))"

definition PollTask :: "'w client_env \<Rightarrow> string \<Rightarrow> ('w client, response option) st" where
  "PollTask env task_id = poll_loop env task_id max_attempts"

definition HandleAsyncResponse :: "'w client_env \<Rightarrow> response \<Rightarrow> ('w client, unit) st" where
  "HandleAsyncResponse env r =
     (case jget (rsp_data r) ''task_id'' of
        None \<Rightarrow> print_text (RenderError ''Server returned pending status without task_id'')
      | Some j \<Rightarrow>
          sbind (slift (get_string j)) (\<lambda>task_id.
          sbind (print_text (RenderAsyncSubmitted task_id)) (\<lambda>_.
          sbind (PollTask env task_id) (\<lambda>result. case result of
              None \<Rightarrow> print_text (RenderError (''Failed to poll task status: '' @ task_id))
            | Some r \<Rightarrow> render env r))))"

section \<open>Sessions\<close>

text \<open>Asking for a name and a password; \<open>None\<close> when the input ends.\<close>

definition ask_credentials :: "('w client, (string \<times> string) option) st" where
  "ask_credentials =
     sbind (print_text ''login: '') (\<lambda>_. sbind getline (\<lambda>u. case u of None \<Rightarrow> sret None | Some username \<Rightarrow>
       sbind (print_text ''password: '') (\<lambda>_. sbind getline (\<lambda>p. case p of None \<Rightarrow> sret None | Some password \<Rightarrow>
         sret (Some (username, password))))))"

definition CreateSuperuserInteractively :: "'w client_env \<Rightarrow> ('w client, bool) st" where
  "CreateSuperuserInteractively env =
     sbind (print_text (''Create superuser'' @ NL)) (\<lambda>_. sbind ask_credentials (\<lambda>up. case up of
         None \<Rightarrow> sret False
       | Some (username, password) \<Rightarrow>
           sbind (exchange env (Req_CreateSuperuser username password)) (\<lambda>r. case r of
               Not_Sent \<Rightarrow> sbind (print_text (RenderError ''Failed to send superuser setup request'')) (\<lambda>_. sret False)
             | No_Reply \<Rightarrow> sbind (print_text (RenderError ''Failed to receive superuser setup response'')) (\<lambda>_. sret False)
             | Answer r \<Rightarrow> sbind (HandleLoginResponse env r) (\<lambda>_. sret (IsSuccess r)))))"

definition LoginInteractively :: "'w client_env \<Rightarrow> ('w client, bool) st" where
  "LoginInteractively env =
     sbind ask_credentials (\<lambda>up. case up of
         None \<Rightarrow> sret False
       | Some (username, password) \<Rightarrow>
           sbind (SendAndReceive env (Req_Login username password)) (\<lambda>r. case r of
               None \<Rightarrow> sbind (print_text (RenderError ''Failed to receive login response'')) (\<lambda>_. sret False)
             | Some r \<Rightarrow> sbind (HandleLoginResponse env r) (\<lambda>_. sret (IsSuccess r))))"

definition PrepareSession :: "'w client_env \<Rightarrow> ('w client, bool) st" where
  "PrepareSession env =
     sbind (SendAndReceive env Req_Handshake) (\<lambda>r. case r of
         None \<Rightarrow> sbind (print_text (RenderError ''Failed to receive handshake response'')) (\<lambda>_. sret False)
       | Some r \<Rightarrow>
           if \<not> IsSuccess r then sbind (render env r) (\<lambda>_. sret False)
           else sbind (slift (jvalue get_bool (rsp_data r) ''auth_required'' False)) (\<lambda>auth.
             if \<not> auth then sret True
             else sbind (slift (jvalue get_bool (rsp_data r) ''setup_required'' False)) (\<lambda>setup.
               if setup then CreateSuperuserInteractively env else LoginInteractively env)))"

section \<open>Commands\<close>

text \<open>One command; the result is whether the client goes on.\<close>

definition run_command :: "'w client_env \<Rightarrow> string \<Rightarrow> ('w client, bool) st" where
  "run_command env command =
     (if command = [] then sret True
      else if command_word command = ''EXIT'' then sret False
      else if command_word command = ''LOGOUT'' then
        sbind (supd (cl_token_update (\<lambda>_. []))) (\<lambda>_.
        sbind (render env (Rsp_Success ''Logged out'' (JObject []))) (\<lambda>_. LoginInteractively env))
      else
        sbind (sget cl_token) (\<lambda>token. let request = BuildRequest token command in
        sbind (SendAndReceive env request) (\<lambda>r. case r of
            None \<Rightarrow> sbind (print_text (RenderError ''Failed to receive response'')) (\<lambda>_. sret True)
          | Some r \<Rightarrow>
              sbind (if req_action request = ''login'' then HandleLoginResponse env r
                     else if IsPending r then HandleAsyncResponse env r
                     else render env r) (\<lambda>_. sret True))))"

section \<open>The loop\<close>

text \<open>No operation puts lines back.\<close>

definition reads_only :: "('w client, 'a) st \<Rightarrow> bool" where
  "reads_only m \<longleftrightarrow> (\<forall>n. keeps (\<lambda>c. length (cl_stdin c) \<le> n) m)"

named_theorems reading

lemma reads_only_basic [reading]:
  "reads_only (sret x)" "reads_only (slift r)" "reads_only (sget f)" "reads_only (print_text s)" "reads_only (exchange env req)" "reads_only getline"
  by (auto simp: reads_only_def keeps_def st_simps print_text_def exchange_def getline_def split: prod.split list.split)

lemma reads_only_bind [reading]: "reads_only m \<Longrightarrow> (\<And>x. reads_only (f x)) \<Longrightarrow> reads_only (sbind m f)"
  by (simp add: reads_only_def keeps_bind)

lemma reads_only_if [reading]: "reads_only m \<Longrightarrow> reads_only n \<Longrightarrow> reads_only (if b then m else n)"
  by simp

lemma reads_only_token [reading]: "(\<And>c. cl_stdin (f c) = cl_stdin c) \<Longrightarrow> reads_only (supd f)"
  by (simp add: reads_only_def keeps_def st_simps)

lemma reads_only_cases [reading]:
  "(\<And>x. reads_only (f x)) \<Longrightarrow> reads_only n \<Longrightarrow> reads_only (case o' of None \<Rightarrow> n | Some x \<Rightarrow> f x)"
  "reads_only a \<Longrightarrow> reads_only b \<Longrightarrow> (\<And>x. reads_only (g x)) \<Longrightarrow> reads_only (case r of Not_Sent \<Rightarrow> a | No_Reply \<Rightarrow> b | Answer x \<Rightarrow> g x)"
  "(\<And>x y. reads_only (h x y)) \<Longrightarrow> reads_only (case p of (x, y) \<Rightarrow> h x y)"
  by (simp_all split: option.split reply.split prod.split)

lemma parts_read [reading]:
  "reads_only (render env r)" "reads_only (SendAndReceive env req)" "reads_only (HandleLoginResponse env r)" "reads_only ask_credentials"
  by (auto simp: render_def SendAndReceive_def HandleLoginResponse_def ask_credentials_def intro!: reading split: option.split json.split)

lemma poll_reads [reading]: "reads_only (poll_loop env task_id n)"
  by (induction n) (auto intro!: reading)

lemma sessions_read [reading]:
  "reads_only (HandleAsyncResponse env r)" "reads_only (LoginInteractively env)" "reads_only (CreateSuperuserInteractively env)"
  by (auto simp: HandleAsyncResponse_def PollTask_def LoginInteractively_def CreateSuperuserInteractively_def intro!: reading)

lemma run_command_reads: "reads_only (run_command env command)"
  unfolding run_command_def Let_def by (intro reading) simp

lemma run_command_stdin: "run_command env command c = (r, c') \<Longrightarrow> length (cl_stdin c') \<le> length (cl_stdin c)"
  using run_command_reads [of env command] unfolding reads_only_def keeps_def by (metis order_refl snd_conv)

lemma file_command_shorter: "(c, rest) = File_ReadCommand lines \<Longrightarrow> File_HasMore lines \<Longrightarrow> length rest < length lines"
  using file_loop_shorter [of "[]" lines c rest] by (cases lines) (auto simp: File_ReadCommand_def File_HasMore_def)

lemma console_command_shorter:
  assumes "(command, rest, eof) = Console_ReadCommand (cl_stdin c)" "(r, c') = run_command env cmd (c\<lparr>cl_stdin := rest\<rparr>)" "\<not> eof"
  shows "length (cl_stdin c') < length (cl_stdin c)"
proof -
  have "length rest < length (cl_stdin c)"
    using console_loop_shorter [of "[]" "cl_stdin c" command rest eof] assms(1,3) by (simp add: Console_ReadCommand_def)
  moreover have "length (cl_stdin c') \<le> length rest" using run_command_stdin [of env cmd _ r c'] assms(2) by fastforce
  ultimately show ?thesis by simp
qed

function run_file :: "'w client_env \<Rightarrow> string list \<Rightarrow> ('w client, unit) st" where
  "run_file env lines =
     (if \<not> File_HasMore lines then sret ()
      else case File_ReadCommand lines of
          (None, _) \<Rightarrow> sret ()
        | (Some command, rest) \<Rightarrow> sbind (run_command env command) (\<lambda>go. if go then run_file env rest else sret ()))"
  by pat_completeness auto
termination
  by (relation "measure (\<lambda>(env, lines). length lines)") (auto dest: file_command_shorter)

function run_console :: "'w client_env \<Rightarrow> 'w client \<Rightarrow> unit result \<times> 'w client" where
  "run_console env c =
     (case Console_ReadCommand (cl_stdin c) of
        (command, rest, eof) \<Rightarrow>
          let c = c\<lparr>cl_stdin := rest\<rparr> in
          (case command of
             None \<Rightarrow> (Inr (), c)
           | Some command \<Rightarrow>
               (case run_command env command c of
                  (Inr go, c) \<Rightarrow> if go \<and> \<not> eof then run_console env c else (Inr (), c)
                | (Inl e, c) \<Rightarrow> (Inl e, c))))"
  by pat_completeness auto
termination
  by (relation "measure (\<lambda>(env, c). length (cl_stdin c))") (auto dest: console_command_shorter)

text \<open>
  \<open>Run\<close>: \<open>file\<close> is the name of the script, if there is one, with its lines when it can be opened;
  \<open>connected\<close> tells whether the server is reached. The result is that of the process.
\<close>

definition Client_Run :: "'w client_env \<Rightarrow> (string \<times> string list option) option \<Rightarrow> string \<Rightarrow> bool \<Rightarrow> ('w client, int) st" where
  "Client_Run env file address connected =
     sbind (print_text RenderWelcome) (\<lambda>_.
       case file of
         Some (name, None) \<Rightarrow> sbind (print_text (RenderError (''Failed to open file: '' @ name))) (\<lambda>_. sret 1)
       | _ \<Rightarrow>
           if \<not> connected then sbind (print_text (RenderError (''Failed to connect to server '' @ address))) (\<lambda>_. sret 1)
           else sbind (PrepareSession env) (\<lambda>ready.
             if \<not> ready then sret 1
             else sbind (case file of Some (_, Some lines) \<Rightarrow> run_file env lines | _ \<Rightarrow> run_console env) (\<lambda>_. sret 0)))"

section \<open>Polling\<close>

text \<open>
  A network that answers in turn: polling stops at the first answer that is not pending, after as many
  requests, and gives up after 600.
\<close>

definition in_turn :: "(nat \<Rightarrow> reply) \<Rightarrow> nat client_env \<Rightarrow> bool" where
  "in_turn replies env \<longleftrightarrow> (\<forall>req w. ce_exchange env req w = (replies w, w + 1))"

definition still_pending :: "reply \<Rightarrow> bool" where
  "still_pending r \<longleftrightarrow> (\<exists>x. r = Answer x \<and> IsPending x)"

lemma poll_result:
  assumes "in_turn replies env"
  shows "\<exists>c'. poll_loop env task_id n c = (Inr (
      if \<forall>i < n. still_pending (replies (cl_world c + i)) then None
      else (case replies (cl_world c + (LEAST i. \<not> still_pending (replies (cl_world c + i)))) of Answer r \<Rightarrow> Some r | _ \<Rightarrow> None)), c') \<and>
    cl_world c' \<le> cl_world c + n \<and> cl_token c' = cl_token c"
proof (induction n arbitrary: c)
  case 0
  then show ?case by (simp add: sret_def)
next
  case (Suc n)
  have x: "exchange env req c = (Inr (replies (cl_world c)), c\<lparr>cl_world := cl_world c + 1\<rparr>)" for req
    using assms by (simp add: exchange_def in_turn_def)
  show ?case
  proof (cases "still_pending (replies (cl_world c))")
    case False
    then have least: "(LEAST i. \<not> still_pending (replies (cl_world c + i))) = 0" by (intro Least_equality) simp_all
    have "\<not> (\<forall>i < Suc n. still_pending (replies (cl_world c + i)))" using False by (metis add_0_right zero_less_Suc)
    then show ?thesis using False x least
      by (cases "replies (cl_world c)") (auto simp: sbind_def sget_def sret_def still_pending_def)
  next
    case True
    then obtain r where r: "replies (cl_world c) = Answer r" "IsPending r" by (auto simp: still_pending_def)
    let ?c = "c\<lparr>cl_world := cl_world c + 1, cl_output := cl_output c @ RenderPollingProgress (spinner (max_attempts - Suc n)) (max_attempts - n)\<rparr>"
    have step: "poll_loop env task_id (Suc n) c = poll_loop env task_id n ?c"
      using x r by (simp add: sbind_def sget_def print_text_def supd_def)
    let ?w = "Suc (cl_world c)" and ?later = "\<lambda>i. still_pending (replies (Suc (cl_world c) + i))"
    have w: "cl_world ?c = ?w" "cl_token ?c = cl_token c" by simp_all
    obtain c' where c': "poll_loop env task_id n ?c = (Inr (
        if \<forall>i < n. ?later i then None else (case replies (?w + (LEAST i. \<not> ?later i)) of Answer r \<Rightarrow> Some r | _ \<Rightarrow> None)), c')"
      "cl_world c' \<le> ?w + n" "cl_token c' = cl_token c" using Suc.IH [of ?c] unfolding w by blast
    have all: "(\<forall>i < Suc n. still_pending (replies (cl_world c + i))) \<longleftrightarrow> (\<forall>i < n. ?later i)"
      using True by (auto simp: less_Suc_eq_0_disj)
    show ?thesis
    proof (cases "\<forall>i < n. ?later i")
      case True
      then show ?thesis unfolding step all if_P [OF True] using c' by (intro exI [of _ c']) simp
    next
      case False
      then obtain i where "\<not> ?later i" by blast
      then have later: "\<not> still_pending (replies (cl_world c + Suc i))" by simp
      have "(LEAST i. \<not> still_pending (replies (cl_world c + i))) = Suc (LEAST i. \<not> still_pending (replies (cl_world c + Suc i)))"
        using Least_Suc [of "\<lambda>i. \<not> still_pending (replies (cl_world c + i))" "Suc i"] later \<open>still_pending (replies (cl_world c))\<close> by simp
      then have least: "cl_world c + (LEAST i. \<not> still_pending (replies (cl_world c + i))) = ?w + (LEAST i. \<not> ?later i)" by simp
      show ?thesis unfolding step all if_not_P [OF False] least using c'(1) [unfolded if_not_P [OF False]] c'(2,3) by (intro exI [of _ c']) simp
    qed
  qed
qed

end
