(* ===== verification/Process_Start.thy ===== *)
theory Process_Start
  imports Server_Machine Tcp_Frames Client_App
begin

text \<open>
  How the three programs start: their configurations, \<open>config.cpp\<close> of each, the listening socket,
  \<open>libs/core/src/tcp_server.cpp\<close>, and the \<open>main.cpp\<close> files. What the args library makes of the command line
  and what the kernel answers are arguments; a file name is mapped to the content of its file.
\<close>

section \<open>Configurations\<close>

text \<open>The library shows the help, refuses the command line, or gives the values of the flags that are there.\<close>

datatype 'a parsed = Asked_Help | Not_Parsed string | Parsed 'a

definition flag_value :: "'a \<Rightarrow> 'a option \<Rightarrow> 'a" where
  "flag_value d v = (case v of None \<Rightarrow> d | Some x \<Rightarrow> x)"

definition from_arguments :: "('a \<Rightarrow> 'c result) \<Rightarrow> 'a parsed \<Rightarrow> 'c option result" where
  "from_arguments setup line =
     (case line of
        Asked_Help \<Rightarrow> Inr None
      | Not_Parsed what \<Rightarrow> Inl (Runtime_Error (''Argument parse error: '' @ what))
      | Parsed a \<Rightarrow> rmap Some (setup a))"

definition checked_port :: "32 word \<Rightarrow> 32 word result" where
  "checked_port p = (if sint p \<le> 0 then Inl (Runtime_Error ''Invalid port number'') else Inr p)"

record server_flags =
  sf_host :: "string option"
  sf_port :: "32 word option"
  sf_no_auth :: bool
  sf_secret :: "string option"
  sf_accounts :: "string option"
  sf_rbac :: "string option"
  sf_no_storage :: bool
  sf_binary :: "string option"
  sf_root :: "string option"

record server_setup =
  ss_host :: string
  ss_port :: "32 word"
  ss_auth :: bool
  ss_secret :: string
  ss_accounts :: string
  ss_rbac :: string
  ss_auto_start :: bool
  ss_binary :: string
  ss_root :: string

definition Server_FromArguments :: "server_flags parsed \<Rightarrow> server_setup option result" where
  "Server_FromArguments = from_arguments (\<lambda>a.
     rmap (\<lambda>port. \<lparr>ss_host = flag_value ''127.0.0.1'' (sf_host a), ss_port = port, ss_auth = (\<not> sf_no_auth a),
         ss_secret = flag_value ''quasardb-dev-secret'' (sf_secret a),
         ss_accounts = flag_value ''qdb_accounts.json'' (sf_accounts a), ss_rbac = flag_value ''qdb_rbac.json'' (sf_rbac a),
         ss_auto_start = (\<not> sf_no_storage a), ss_binary = flag_value [] (sf_binary a), ss_root = flag_value ''data'' (sf_root a)\<rparr>)
       (checked_port (flag_value 9000 (sf_port a))))"

record storage_flags =
  tf_host :: "string option"
  tf_port :: "32 word option"
  tf_root :: "string option"

record storage_setup =
  ts_host :: string
  ts_port :: "32 word"
  ts_root :: string

definition Storage_FromArguments :: "storage_flags parsed \<Rightarrow> storage_setup option result" where
  "Storage_FromArguments = from_arguments (\<lambda>a.
     rmap (\<lambda>port. \<lparr>ts_host = flag_value ''127.0.0.1'' (tf_host a), ts_port = port, ts_root = flag_value ''storage'' (tf_root a)\<rparr>)
       (checked_port (flag_value 7000 (tf_port a))))"

record client_flags =
  cf_host :: "string option"
  cf_port :: "32 word option"
  cf_file :: "string option"

record client_setup =
  cs_host :: string
  cs_port :: "32 word"
  cs_file :: string

definition Client_FromArguments :: "client_flags parsed \<Rightarrow> client_setup option result" where
  "Client_FromArguments = from_arguments (\<lambda>a.
     rmap (\<lambda>port. \<lparr>cs_host = flag_value ''127.0.0.1'' (cf_host a), cs_port = port, cs_file = flag_value [] (cf_file a)\<rparr>)
       (checked_port (flag_value 9000 (cf_port a))))"

section \<open>The listening socket\<close>

record listener =
  ln_host :: string
  ln_port :: "32 word"
  ln_socket :: sock
  ln_running :: bool

definition TcpServer :: "string \<Rightarrow> 32 word \<Rightarrow> listener" where
  "TcpServer host port = \<lparr>ln_host = host, ln_port = port, ln_socket = -1, ln_running = False\<rparr>"

text \<open>What the kernel answers; the address that is bound has the low 16 bits of the port.\<close>

record listen_outcome =
  lo_fd :: int
  lo_option :: bool
  lo_address :: bool
  lo_bind :: "16 word \<Rightarrow> bool"
  lo_listen :: bool

definition Listener_Start :: "listen_outcome \<Rightarrow> listener \<Rightarrow> bool \<times> listener" where
  "Listener_Start o' l =
     (if ln_running l then (False, l)
      else if \<not> Sock_IsValid (lo_fd o') then (False, l)
      else if \<not> lo_option o' then (False, l)
      else if \<not> lo_address o' then (False, l)
      else if \<not> lo_bind o' (ucast (ln_port l)) then (False, l)
      else if \<not> lo_listen o' then (False, l)
      else (True, l\<lparr>ln_socket := lo_fd o', ln_running := True\<rparr>))"

definition Listener_Stop :: "listener \<Rightarrow> listener" where
  "Listener_Stop l = (if \<not> ln_running l then l else l\<lparr>ln_running := False, ln_socket := -1\<rparr>)"

text \<open>The client of a connection: its socket, its address and its port in the order of the host.\<close>

definition Listener_Accept :: "int \<times> string \<times> 16 word \<Rightarrow> listener \<Rightarrow> (sock \<times> string \<times> 32 word) option" where
  "Listener_Accept answer l =
     (case answer of (fd, host, port) \<Rightarrow>
        if \<not> ln_running l then None else if fd < 0 then None else Some (fd, host, ucast port))"

section \<open>The processes\<close>

text \<open>
  \<open>main\<close>: the exit code and what is written to the error stream, or nothing while the process runs. A
  failed assertion is not caught.
\<close>

definition fatal :: "exn \<Rightarrow> string" where "fatal e = ''[FATAL]: '' @ what_of e"

definition run_main :: "'c option result \<Rightarrow> ('c \<Rightarrow> ('s, int option) st) \<Rightarrow> ('s, (int \<times> string) option) st" where
  "run_main config run s =
     (case config of
        Inl e \<Rightarrow> (Inr (Some (1, fatal e)), s)
      | Inr None \<Rightarrow> (Inr (Some (0, [])), s)
      | Inr (Some c) \<Rightarrow>
          (case run c s of
             (Inl e, s) \<Rightarrow> if catchable e then (Inr (Some (1, fatal e)), s) else (Inl e, s)
           | (Inr None, s) \<Rightarrow> (Inr None, s)
           | (Inr (Some code), s) \<Rightarrow> (Inr (Some (code, [])), s)))"

text \<open>
  The storage process opens its table and answers the requests of one connection after the other; it
  returns only when it cannot listen, as nothing stops its listener. \<open>names\<close> are the stems of the schema
  files in its directory.
\<close>

definition Storage_Run :: "regex \<Rightarrow> string list \<Rightarrow> listen_outcome \<Rightarrow> request list list \<Rightarrow> storage_setup \<Rightarrow> (storage, int option) st" where
  "Storage_Run rx names o' connections c =
     sbind (OpenExistingTable names) (\<lambda>_.
       if \<not> fst (Listener_Start o' (TcpServer (ts_host c) (ts_port c))) then sret (Some 1)
       else sbind (siter (\<lambda>reqs. sbind (serve rx reqs) (\<lambda>_. sret ())) connections) (\<lambda>_. sret None))"

definition storage_main ::
    "regex \<Rightarrow> string list \<Rightarrow> listen_outcome \<Rightarrow> request list list \<Rightarrow> storage_flags parsed \<Rightarrow> (storage, (int \<times> string) option) st" where
  "storage_main rx names o' connections line = run_main (Storage_FromArguments line) (Storage_Run rx names o' connections)"

text \<open>
  The server is built from its files. The catalog is beside the file of the rules: \<open>parent_path\<close> and \<open>/\<close>
  of a path.
\<close>

definition parent_path :: "string \<Rightarrow> string" where
  "parent_path p =
     (let dir = rev (dropWhile (\<lambda>c. c \<noteq> CHR ''/'') (rev p));
          bare = rev (dropWhile (\<lambda>c. c = CHR ''/'') (rev dir))
      in if bare = [] then dir else bare)"

definition in_directory :: "string \<Rightarrow> string \<Rightarrow> string" where
  "in_directory dir name = (if dir = [] \<or> last dir = CHR ''/'' then dir @ name else dir @ ''/'' @ name)"

definition Server_Application :: "(string \<Rightarrow> json_file) \<Rightarrow> 'w \<Rightarrow> server_setup \<Rightarrow> 'w server" where
  "Server_Application files w c =
     new_server \<lparr>cfg_auth = ss_auth c, cfg_secret = ss_secret c\<rparr> (files (ss_accounts c)) (files (ss_rbac c))
       (files (in_directory (parent_path (ss_rbac c)) ''catalog.json''))
       (Registry (ss_auto_start c) (ss_binary c) [ss_root c]) w"

text \<open>Once the server listens its state is a machine, whose steps are those of \<open>run_event\<close>.\<close>

definition Server_Run :: "(string \<Rightarrow> json_file) \<Rightarrow> 'w \<Rightarrow> listen_outcome \<Rightarrow> server_setup \<Rightarrow> ('w machine option, int option) st" where
  "Server_Run files w o' c m =
     (if \<not> fst (Listener_Start o' (TcpServer (ss_host c) (ss_port c))) then (Inr (Some 1), m)
      else (Inr None, Some (start_machine (Server_Application files w c))))"

definition server_main ::
    "(string \<Rightarrow> json_file) \<Rightarrow> 'w \<Rightarrow> listen_outcome \<Rightarrow> server_flags parsed \<Rightarrow> ('w machine option, (int \<times> string) option) st" where
  "server_main files w o' line = run_main (Server_FromArguments line) (Server_Run files w o')"

text \<open>The client: \<open>texts\<close> gives the lines of a script that can be opened.\<close>

definition Client_Application :: "'w client_env \<Rightarrow> (string \<Rightarrow> string list option) \<Rightarrow> connect_outcome \<Rightarrow> client_setup \<Rightarrow> ('w client, int option) st" where
  "Client_Application env texts o' c =
     sbind (Client_Run env (if cs_file c = [] then None else Some (cs_file c, texts (cs_file c)))
         (cs_host c @ '':'' @ show_nat (unat (cs_port c))) (fst (Tcp_Connect o' (-1))))
       (\<lambda>code. sret (Some code))"

definition client_main ::
    "'w client_env \<Rightarrow> (string \<Rightarrow> string list option) \<Rightarrow> connect_outcome \<Rightarrow> client_flags parsed \<Rightarrow> ('w client, (int \<times> string) option) st" where
  "client_main env texts o' line = run_main (Client_FromArguments line) (Client_Application env texts o')"

section \<open>What a command line gives\<close>

lemma checked_port_ok: "checked_port p = Inr q \<longleftrightarrow> q = p \<and> 0 < sint p"
  by (auto simp: checked_port_def)

lemma server_arguments:
  "Server_FromArguments line = Inr (Some c) \<longleftrightarrow> (\<exists>a. line = Parsed a \<and> 0 < sint (flag_value 9000 (sf_port a)) \<and>
     c = \<lparr>ss_host = flag_value ''127.0.0.1'' (sf_host a), ss_port = flag_value 9000 (sf_port a), ss_auth = (\<not> sf_no_auth a),
         ss_secret = flag_value ''quasardb-dev-secret'' (sf_secret a),
         ss_accounts = flag_value ''qdb_accounts.json'' (sf_accounts a), ss_rbac = flag_value ''qdb_rbac.json'' (sf_rbac a),
         ss_auto_start = (\<not> sf_no_storage a), ss_binary = flag_value [] (sf_binary a), ss_root = flag_value ''data'' (sf_root a)\<rparr>)"
  by (cases line) (auto simp: Server_FromArguments_def from_arguments_def result_iff checked_port_ok)

text \<open>A port of more than 16 bits passes the check, and the process listens on another one.\<close>

lemma large_port_wraps:
  assumes "lo_fd o' \<ge> 0" "lo_option o'" "lo_address o'" "lo_listen o'"
  shows "checked_port 74536 = Inr 74536" "fst (Listener_Start o' (TcpServer host 74536)) = lo_bind o' 9000"
proof -
  have low: "(74536 :: 16 word) = 9000" by (rule word_uint_eqI) simp
  show "checked_port 74536 = Inr 74536" "fst (Listener_Start o' (TcpServer host 74536)) = lo_bind o' 9000"
    using assms by (simp_all add: checked_port_def Listener_Start_def TcpServer_def Sock_IsValid_def low)
qed

text \<open>A server that is started without its files, where it can listen, is the one whose runs stay consistent.\<close>

lemma server_main_starts:
  assumes "server_main (\<lambda>_. no_file) w o' line None = (Inr None, Some m)"
  shows "machine_good m"
proof -
  obtain c where "m = start_machine (Server_Application (\<lambda>_. no_file) w c)"
    using assms by (auto simp: server_main_def run_main_def Server_Run_def split: sum.splits option.splits if_splits)
  then show ?thesis using new_server_good by (simp add: Server_Application_def)
qed

lemma server_main_ends:
  "server_main files w o' (Not_Parsed what) s = (Inr (Some (1, ''[FATAL]: Argument parse error: '' @ what)), s)"
  "server_main files w o' Asked_Help s = (Inr (Some (0, [])), s)"
  "Server_FromArguments line = Inr (Some c) \<Longrightarrow> \<not> fst (Listener_Start o' (TcpServer (ss_host c) (ss_port c))) \<Longrightarrow>
    server_main files w o' line s = (Inr (Some (1, [])), s)"
  by (simp_all add: server_main_def run_main_def Server_FromArguments_def from_arguments_def fatal_def Server_Run_def)

end
