(* ===== verification/Spec2Isabelle.thy ===== *)
theory Spec2Isabelle
  imports Storage_Properties Tree_Properties Sql_Properties Query_Properties Cluster_Properties
    Process_Start
begin

text \<open>
  QuasarDB is a small distributed relational database in C++. Three programs make it up. The client
  (\<open>src/apps/client\<close>) cuts its input into statements, sends each of them to the server as a request and
  prints the answer. The server (\<open>src/apps/server\<close>) authenticates the request, parses and checks the
  statement, tests the rights of the user, and routes the statement: to its catalog and its registry of
  storage processes, or, as JSON, to the process that keeps the table. A storage process
  (\<open>src/apps/storage\<close>) keeps one table in one directory: pages of records, B*+ trees as indexes, the
  strings of the table, its schema, and a journal that can undo every change. What the programs share
  (\<open>src/libs/core\<close>) are messages, connections, JSON files and a thread pool. This development
  translates the three programs into definitions and proves what makes them correct; where the code
  does not do what it means to, a theorem says what it does instead.

  All definitions compute. An exception is a value (\<open>Inl\<close> of an \<open>exn\<close>, of the C++ type and with the
  message of the code); a call that changes a state returns the state that it leaves behind, also
  when it throws; a machine integer is a word of its width; a file is a list of bytes or a JSON value.
\<close>

section \<open>Which theory models what\<close>

text \<open>
  Shared. \<open>Qdb_Prelude\<close> has exceptions, results, array copies and the lemmas on lists; \<open>Effects\<close> the
  calls with a state that may throw, with the collections \<open>st_simps\<close> and \<open>keeps_rules\<close>; \<open>Byte_Codec\<close>
  integers and strings as bytes; \<open>Json_Value\<close> what the code uses of \<open>nlohmann::json\<close>.

  Data of the storage. \<open>Sql_Value\<close> is \<open>value.h\<close>, \<open>value.cpp\<close>; \<open>Interning\<close> is \<open>interner.cpp\<close>; \<open>Record_Codec\<close> is
  \<open>serializer.cpp\<close>, \<open>record.cpp\<close>; \<open>Schema_Codec\<close> is \<open>column.cpp\<close>, \<open>schema.cpp\<close>; \<open>Page_File\<close> is \<open>pager.cpp\<close>;
  \<open>Slotted_Page\<close> is \<open>page.cpp\<close>; \<open>Undo_Journal\<close> is \<open>journal.cpp\<close>. \<open>Storage_Properties\<close> has their properties:
  every format is read back as it was written, and a page refines a list of cells.

  Index. \<open>Tree_Node\<close> is \<open>node.h\<close> and \<open>Star_Tree\<close> is \<open>b_star_plus_tree.h\<close>. \<open>Node_Lists\<close> gives each array
  operation as an operation on lists; \<open>Tree_Map\<close>, \<open>Tree_Insert\<close> and \<open>Tree_Range\<close> show that a tree of
  at most two levels is a map; \<open>Key_Index\<close> states this as a contract; \<open>Tree_Limits\<close> computes what the code does
  where it fails; \<open>Tree_Properties\<close> has the properties.

  Table. \<open>Index_Set\<close> is \<open>index_set.cpp\<close>; \<open>Table_Store\<close> and \<open>Table_Files\<close> are \<open>table.cpp\<close>. A table is
  shown to hold a map from identifiers to rows, step by step: \<open>Index_Facts\<close> (the secondary indexes),
  \<open>Data_Heap\<close> (the pages), \<open>Table_Facts\<close> (the representation), \<open>Table_Ops\<close> (insert, update, delete),
  \<open>Table_History\<close> (the journal, undoing), \<open>Table_Make\<close> (records from given values), \<open>Table_Life\<close> (closing and
  opening), \<open>Table_Machine\<close> (any sequence of calls). \<open>Table_Properties\<close> has the properties.

  Statements on a table. \<open>Sql_Eval\<close> and \<open>Executor\<close> are \<open>executor.cpp\<close>; \<open>Storage_App\<close> is
  \<open>apps/storage/src/application.cpp\<close>. \<open>Select_Facts\<close> and \<open>Query_Facts\<close> have the lemmas on aggregates and on
  the choice of records; \<open>Query_Properties\<close> has properties.

  SQL. \<open>Sql_Ast\<close> is \<open>ast.h\<close>, \<open>Sql_Lexer\<close> is \<open>lexer.cpp\<close>, \<open>Sql_Parser\<close> is \<open>parser.cpp\<close>, \<open>Sql_Analyzer\<close> is
  \<open>analyzer.cpp\<close>, \<open>Ast_Json\<close> is \<open>ast.cpp\<close>. \<open>Sql_Print\<close> prints statements as the specification of lexer and
  parser, \<open>Sql_Total\<close> shows that their loops end, \<open>Ast_Roundtrip\<close> that the JSON of a statement is the
  statement; \<open>Sql_Properties\<close> has the properties.

  Server. \<open>Json_File\<close> is \<open>json_file.cpp\<close>, \<open>Access_Rules\<close> is \<open>rbac.cpp\<close>, \<open>Accounts\<close> is \<open>security.cpp\<close>,
  \<open>Catalog_Store\<close> is \<open>catalog.cpp\<close>, \<open>Storage_Registry\<close> is \<open>registry.cpp\<close>, \<open>Statement_Router\<close> is \<open>router.cpp\<close>,
  \<open>Heartbeats\<close> is \<open>monitor.cpp\<close>, \<open>Task_Queue\<close> is \<open>task_processor.cpp\<close> with \<open>thread_pool.cpp\<close>, \<open>Telemetry\<close> is
  \<open>telemetry.cpp\<close>, \<open>Query_Log\<close> is \<open>logger.cpp\<close>, \<open>Server_App\<close> is \<open>apps/server/src/application.cpp\<close>.
  \<open>Cluster_Properties\<close> composes the router with the storage processes behind it, \<open>Server_Properties\<close> has the
  properties of a request, \<open>Parsed_Names\<close> shows that the names in a parsed statement are proper, and
  \<open>Server_Machine\<close> is the running server with all its threads.

  Messages and client. \<open>Messages\<close> is \<open>request.cpp\<close>, \<open>response.cpp\<close>; \<open>Tcp_Frames\<close> is \<open>socket.cpp\<close>,
  \<open>tcp_client.cpp\<close>; \<open>Client_Reader\<close> is \<open>reader.cpp\<close>, \<open>Client_Renderer\<close> is \<open>renderer.cpp\<close>, \<open>Client_App\<close> is
  \<open>apps/client/src/application.cpp\<close>. \<open>Process_Start\<close> is how the three programs start: their \<open>config.cpp\<close> and
  \<open>main.cpp\<close> files, and the listening socket, \<open>tcp_server.cpp\<close>.
\<close>

section \<open>Interfaces\<close>

text \<open>
  \<open>page_store\<close> (in \<open>Page_File\<close>) is a file of numbered pages as the users of the pager see it;
  \<open>record_heap\<close> (in \<open>Data_Heap\<close>) is a heap of records at addresses, which the pager with slotted pages
  provides; \<open>key_index\<close> (in \<open>Key_Index\<close>) is a map with the number of leaves as its load, which the B*+
  tree provides in every geometry. Each is interpreted on the definitions of the code, and the theories
  of tables use the pages and the trees through these contracts only. The step relations are \<open>reaches\<close>
  (calls on a table, in \<open>Table_Machine\<close>) and \<open>pool_step\<close>, \<open>client_step\<close>, \<open>pool_reach\<close> (threads and
  clients of the task processor, in \<open>Task_Queue\<close>), and \<open>machine_reaches\<close> (connections, workers, monitor
  and counters of a server, in \<open>Server_Machine\<close>).
\<close>

section \<open>What is shown\<close>

text \<open>
  A table: an insertion, an update, a deletion and a \<open>DELETE\<close> statement change the map from
  identifiers to rows as they should or are refused; \<open>REVERT\<close> goes back to the rows of a logged
  moment; a restart changes nothing; every sequence of calls, failed ones included, leaves a
  well-formed table. Queries: with an index or without, the same records are found, namely those on
  which the condition is true in SQL's three-valued logic; aggregates are exact.

  SQL: the text of a statement is parsed back to it; the parser ends; the semantic checks accept
  exactly the valid statements; what a storage process executes is the statement that was sent.

  Server: only a query with a valid token and the right that its statement needs changes
  anything; decisions follow the history of grants; catalog and registry stay in step whatever fails;
  every task ends completed or failed; silent processes are restarted; counters and logs are
  what the requests were. The first two of these hold of a running server, however its threads interleave
  and whatever text its clients send. Client: it ends a statement where the server's lexer does; messages arrive as
  they were sent however the kernel cuts the bytes.

  Failures that the code does have: the split of a full root, a removal that leaves two leaves of a
  certain size, a range that reaches the largest key, a query that is not a string, a restart of the
  server. Others are lemmas of their components (\<open>internal_merge_never_succeeds\<close>,
  \<open>update_or_insert_ignores_new_keys\<close>, \<open>between_on_strings_compares_identifiers\<close>, \<open>failed_grant_takes_away\<close>,
  \<open>client_waits_on_a_backslash\<close>).
\<close>

section \<open>Bounds and fuel\<close>

text \<open>
  A tree of two levels has at most 506 keys in its root (\<open>ROOT_KEYS\<close>) and 337 in a leaf (\<open>LEAF_KEYS\<close>).
  The properties of trees hold for all trees of at most two levels, of any geometry, since the
  split of the root and a removal with underflow do not work in the code (\<open>root_split_corrupts\<close>,
  \<open>two_leaf_removal_aborts\<close>). The properties of tables therefore bound the rows of a table by 337,
  with which no leaf is ever split or underflows; a table that has more may abort on a deletion. The
  32-bit counts of records and pages and of the strings of a table are kept below their overflow by
  hypotheses or by \<open>in_limits\<close>.

  The loops of the lexer and of the connections recurse on what is left and end by a measure: a call of
  the kernel that moves no byte ends them. Other loops have fuel. The parser takes the number of the
  tokens that are left; \<open>parser_terminates\<close> shows that it never runs out. \<open>revert_loop\<close> takes
  one more than the number of bytes of the journal, and each round takes a track off it;
  \<open>revert_returns_to_the_past\<close> shows that it returns. The client polls 600 times, as the code does. The descent of the tree and the
  walk along its leaves are bounded by the number of pages; a walk in a circle, in which the code
  would not return, is an error value of the model, which the properties exclude.
\<close>

section \<open>Parameters\<close>

text \<open>
  What is not under \<open>src\<close> is an argument: the matching of regular expressions (\<open>rx\<close>), parsing and
  printing JSON text (\<open>prs\<close>, \<open>dump\<close>), the cryptography of OpenSSL and the tokens of jwt-cpp (in
  \<open>Accounts\<close>), the clock (\<open>tbl_clock\<close> and the times given to operations), the number of bytes each call
  of \<open>send\<close> and \<open>recv\<close> moves, the outcomes of the calls on files of \<open>json_file.cpp\<close>, the start of a
  process, the network behind the router. Hypotheses on them say what is documented: parsing what was
  printed gives the value back, a token validates to the
  user it was made for. Witnesses instantiate them.
\<close>

section \<open>Not modelled\<close>

text \<open>
  The command line is read by the args library: the values of the flags are arguments of the model. The
  client's prompts, the pauses between its polls and its line editing are not part of its text. A
  double is the pair of integers that it is the quotient of, without rounding. A
  request of a connection, a call of the router by a worker and the probe of one node are single steps of
  the server, which interleave; in the code their reads and writes can also overlap, as accounts and rules
  have no lock. Writes to the files of a storage process succeed, and \<open>fsync\<close> has no effect.
  A tree operation that throws leaves on its pages what the model does not show; no property speaks of
  the state after it. Printing a tree, moving sockets and listeners, tests, scripts and build files are left out.
\<close>

end
